(* ===== verification/Prelude.thy ===== *)
theory Prelude
  imports Complex_Main "HOL-Library.Word" "HOL-Library.AList" "HOL-Library.Multiset"
begin

text \<open>
  Shared vocabulary of the development: the machine integers of the C++ code, the values
  that stand for a thrown exception or a terminated process, association lists for the
  hash maps whose iteration the code relies on, and the generic lemmas about them.

  \<^item> \<open>u64\<close> is \<open>unsigned long\<close>; a signed \<open>long\<close> is kept as the same 64 bits
    and read with \<open>sint\<close>. \<open>to_i32\<close> is the narrowing conversion to \<open>int\<close>.
  \<^item> \<open>double\<close> is idealised as \<open>real\<close>: rounding, infinities and NaN are not
    modelled; the limits \<open>dbl_max\<close> and \<open>dbl_min\<close> of the standard library are.
  \<^item> \<open>cxx_error\<close> lists the ways control leaves a function other than by returning.
\<close>

named_theorems bind_simps \<open>equations of the exception monad\<close>
named_theorems al_simps \<open>lookup and update of association lists\<close>

type_synonym u64 = "64 word"

definition to_i32 :: "u64 \<Rightarrow> int" where
  "to_i32 w = sint (ucast w :: 32 word)"

definition u64_max :: u64 where
  "u64_max = - 1"

definition dbl_max :: real where
  "dbl_max = (2 - 1 / 2 ^ 52) * 2 ^ 1023"

definition dbl_min :: real where
  "dbl_min = 1 / 2 ^ 1022"

definition dbl_lowest :: real where
  "dbl_lowest = - dbl_max"

lemma dbl_min_pos: "0 < dbl_min"
  by (simp add: dbl_min_def)

lemma dbl_max_pos: "0 < dbl_max"
  by (simp add: dbl_max_def)

lemma unsigned_real_nonneg [simp]: "0 \<le> (unsigned (w :: 'a :: len word) :: real)"
  using of_nat_0_le_iff [of "unat w", where 'a = real] by simp

subsection \<open>Leaving a function by an exception\<close>

datatype cxx_error =
    Fatal string          \<comment> \<open>the \<open>fatal_error\<close> macro: a \<open>std::runtime_error\<close>\<close>
  | RuntimeError string   \<comment> \<open>an explicit \<open>throw std::runtime_error\<close>\<close>
  | ExitFailure           \<comment> \<open>\<open>exit(EXIT_FAILURE)\<close>\<close>
  | Dangling nat          \<comment> \<open>an access through an iterator to an erased list element\<close>
  | OutOfBounds           \<comment> \<open>an unchecked vector access past the end\<close>
  | NullPointer           \<comment> \<open>an access through a null pointer\<close>
  | AssertFailed          \<comment> \<open>a failed \<open>assert\<close>\<close>
  | UndefinedBehaviour    \<comment> \<open>a conversion of a \<open>double\<close> outside the range of the integer type\<close>
  | NoTermination         \<comment> \<open>the fuel of a loop with no bound in the code ran out\<close>

type_synonym 'a res = "cxx_error + 'a"

fun bind :: "'a res \<Rightarrow> ('a \<Rightarrow> 'b res) \<Rightarrow> 'b res" where
  "bind (Inl e) f = Inl e"
| "bind (Inr a) f = f a"

lemma bind_Inr_iff [bind_simps]: "bind m f = Inr b \<longleftrightarrow> (\<exists>a. m = Inr a \<and> f a = Inr b)"
  by (cases m) auto

lemma bind_Inl_iff [bind_simps]:
  "bind m f = Inl e \<longleftrightarrow> m = Inl e \<or> (\<exists>a. m = Inr a \<and> f a = Inl e)"
  by (cases m) auto

lemma bind_Inr_right [simp]: "bind m Inr = m"
  by (cases m) auto

lemma bind_assoc: "bind (bind m f) g = bind m (\<lambda>a. bind (f a) g)"
  by (cases m) auto

lemma bind_cong [fundef_cong]:
  "m = m' \<Longrightarrow> (\<And>a. m' = Inr a \<Longrightarrow> f a = f' a) \<Longrightarrow> bind m f = bind m' f'"
  by (cases m') auto

text \<open>\<open>guard e b\<close> is the statement \<open>if(!b) throw e\<close>.\<close>

definition guard :: "cxx_error \<Rightarrow> bool \<Rightarrow> unit res" where
  "guard e b = (if b then Inr () else Inl e)"

lemma guard_simps [simp]: "guard e True = Inr ()" "guard e False = Inl e"
  by (simp_all add: guard_def)

lemma guard_Inr [bind_simps]: "guard e b = Inr u \<longleftrightarrow> b"
  by (simp add: guard_def)

text \<open>A \<open>for\<close> loop that threads a state and may throw.\<close>

fun foldE :: "('a \<Rightarrow> 's \<Rightarrow> 's res) \<Rightarrow> 'a list \<Rightarrow> 's \<Rightarrow> 's res" where
  "foldE f [] s = Inr s"
| "foldE f (x # xs) s = bind (f x s) (foldE f xs)"

lemma foldE_append: "foldE f (xs @ ys) s = bind (foldE f xs s) (foldE f ys)"
proof (induction xs arbitrary: s)
  case (Cons x xs)
  then have "(\<lambda>a. foldE f (xs @ ys) a) = (\<lambda>a. bind (foldE f xs a) (foldE f ys))"
    by auto
  then show ?case by (simp add: bind_assoc)
qed simp

lemma foldE_invariant:
  assumes "foldE f xs s = Inr t" "P s"
    and "\<And>x a b. x \<in> set xs \<Longrightarrow> P a \<Longrightarrow> f x a = Inr b \<Longrightarrow> P b"
  shows "P t"
  using assms by (induction xs arbitrary: s) (auto simp: bind_simps)

lemma foldE_total:
  assumes "P s" and "\<And>x a. x \<in> set xs \<Longrightarrow> P a \<Longrightarrow> \<exists>b. f x a = Inr b \<and> P b"
  shows "\<exists>t. foldE f xs s = Inr t \<and> P t"
  using assms
proof (induction xs arbitrary: s)
  case Nil
  then show ?case by simp
next
  case (Cons x xs)
  then obtain b where "f x s = Inr b" "P b" by fastforce
  with Cons show ?case by simp
qed

subsection \<open>Hash maps that are iterated, as association lists\<close>

text \<open>
  The order of the list is the iteration order of the hash map, which the standard leaves
  open: every statement about such a map holds for every order. \<open>al_get d m k\<close> is
  \<open>m[k]\<close> with a default-constructed \<open>d\<close>; the insertion \<open>operator[]\<close> does for an
  absent key happens when the result is stored back with \<open>AList.update\<close>.
\<close>

definition al_get :: "'v \<Rightarrow> ('k \<times> 'v) list \<Rightarrow> 'k \<Rightarrow> 'v" where
  "al_get d m k = (case map_of m k of None \<Rightarrow> d | Some v \<Rightarrow> v)"

lemma al_get_update [al_simps, simp]:
  "al_get d (AList.update k v m) k' = (if k' = k then v else al_get d m k')"
  by (simp add: al_get_def update_conv')

lemma al_get_Nil [al_simps, simp]: "al_get d [] k = d"
  by (simp add: al_get_def)

lemma map_of_update [al_simps, simp]:
  "map_of (AList.update k v m) k' = (if k' = k then Some v else map_of m k')"
  by (simp add: update_conv')

lemma distinct_al_update [intro]:
  "distinct (map fst m) \<Longrightarrow> distinct (map fst (AList.update k v m))"
  by (rule distinct_update)

lemma al_get_mem: "(k, v) \<in> set m \<Longrightarrow> distinct (map fst m) \<Longrightarrow> al_get d m k = v"
  by (simp add: al_get_def)

lemma al_get_cases:
  obtains "al_get d m k = d" | "(k, al_get d m k) \<in> set m"
  by (cases "map_of m k") (auto simp: al_get_def dest: map_of_SomeD)

subsection \<open>Lists\<close>

lemma filter_mset_partition_size:
  "length (filter P xs) + length (filter (\<lambda>x. \<not> P x) xs) = length xs"
  by (induction xs) auto

lemma sorted_wrt_filter_imp: "sorted_wrt R xs \<Longrightarrow> sorted_wrt R (filter P xs)"
  by (induction xs) auto

lemma sum_list_map_add:
  "(\<Sum>x\<leftarrow>xs. f x + g x) = (\<Sum>x\<leftarrow>xs. f x) + (\<Sum>x\<leftarrow>xs. g x :: 'a :: comm_monoid_add)"
  by (induction xs) (auto simp: algebra_simps)

subsection \<open>Indices that fit an \<open>int\<close>\<close>

lemma small_index: "uint k < 2 ^ 31 \<Longrightarrow> to_i32 k = uint k"
proof -
  assume k: "uint k < 2 ^ 31"
  have "to_i32 k = signed_take_bit 31 (uint k)"
    by (simp add: to_i32_def signed_ucast_eq)
  also have "\<dots> = uint k"
    using k order_trans [of "- (2 ^ 31)" 0 "uint k"] by (intro signed_take_bit_int_eq_self) simp_all
  finally show ?thesis .
qed

lemma small_index_word: "uint k < 2 ^ 31 \<Longrightarrow> word_of_int (to_i32 k) = k"
  by (simp add: small_index)

lemma small_index_inj: "uint k < 2 ^ 31 \<Longrightarrow> uint j < 2 ^ 31 \<Longrightarrow> to_i32 k = to_i32 j \<longleftrightarrow> k = j"
  by (simp add: small_index flip: word_uint_eq_iff)

end
