(* ===== verification/RunStats.thy ===== *)
theory RunStats
  imports Prelude
begin

text \<open>
  The class \<open>RunStats\<close> of \<open>src/core/util/RunStats.cpp\<close>: single-pass statistics
  (count, mean, second to fourth central moment sums, minimum, maximum, optional sum) and
  the combination of two of them. The state is the record \<open>run_stats\<close>, field by field;
  \<open>double\<close> is \<open>real\<close>. The correctness lemmas relate the state after pushing a list to
  the list's power sums, through which the push and the merge formulas are checked.
\<close>

record run_stats =
  m_count :: real
  m_eta :: real
  m_rho :: real
  m_tau :: real
  m_phi :: real
  m_min :: real
  m_max :: real
  m_acc :: real
  m_do_accumulate :: bool

definition clear_RunStats :: "run_stats \<Rightarrow> run_stats" where
  "clear_RunStats s = s\<lparr>m_count := 0, m_eta := 0, m_rho := 0, m_tau := 0, m_phi := 0, m_acc := 0,
     m_min := dbl_max, m_max := dbl_min\<rparr>"

definition new_RunStats :: "bool \<Rightarrow> run_stats" where
  "new_RunStats do_accumulate =
     clear_RunStats \<lparr>m_count = 0, m_eta = 0, m_rho = 0, m_tau = 0, m_phi = 0, m_min = 0, m_max = 0,
       m_acc = 0, m_do_accumulate = do_accumulate\<rparr>"

definition push :: "real \<Rightarrow> run_stats \<Rightarrow> run_stats" where
  "push x s =
    (let mn = (if m_count s = 0 then x else min (m_min s) x);
         mx = (if m_count s = 0 then x else max (m_max s) x);
         acc = (if m_do_accumulate s then m_acc s + x else m_acc s);
         delta = x - m_eta s;
         delta_n = delta / (m_count s + 1);
         delta_n2 = delta_n * delta_n;
         trm = delta * delta_n * m_count s;
         count = m_count s + 1;
         eta = m_eta s + delta_n;
         phi = m_phi s + (trm * delta_n2 * (count * count - 3 * count + 3)
                 + 6 * delta_n2 * m_rho s - 4 * delta_n * m_tau s);
         tau = m_tau s + (trm * delta_n * (count - 2) - 3 * delta_n * m_rho s);
         rho = m_rho s + trm
     in s\<lparr>m_count := count, m_eta := eta, m_rho := rho, m_tau := tau, m_phi := phi,
          m_min := mn, m_max := mx, m_acc := acc\<rparr>)"

definition variance :: "run_stats \<Rightarrow> real \<Rightarrow> real" where
  "variance s ddof = (if m_count s - ddof \<le> 0 then 0 else m_rho s / (m_count s - ddof))"

definition stddev :: "run_stats \<Rightarrow> real \<Rightarrow> real" where
  "stddev s ddof = sqrt \<bar>variance s ddof\<bar>"

definition skewness :: "run_stats \<Rightarrow> real" where
  "skewness s = (if \<bar>m_rho s\<bar> < 0.0000001 then 0
     else sqrt (m_count s) * m_tau s / m_rho s powr 1.5)"

definition kurtosis :: "run_stats \<Rightarrow> real" where
  "kurtosis s = (if \<bar>m_rho s\<bar> < 0.0000001 then 0
     else m_count s * m_phi s / (m_rho s * m_rho s) - 3)"

definition combine :: "run_stats \<Rightarrow> run_stats \<Rightarrow> run_stats" where
  "combine a b =
    (let sum_count = m_count a + m_count b in
     if sum_count = 0 then new_RunStats False
     else
      let delta = m_eta b - m_eta a;
          delta2 = delta * delta;
          delta3 = delta * delta2;
          delta4 = delta2 * delta2;
          sum_eta = (m_count a * m_eta a + m_count b * m_eta b) / sum_count;
          sum_rho = m_rho a + m_rho b + delta2 * m_count a * m_count b / sum_count;
          sum_tau = m_tau a + m_tau b
            + delta3 * m_count a * m_count b * (m_count a - m_count b) / (sum_count * sum_count)
            + 3 * delta * (m_count a * m_rho b - m_count b * m_rho a) / sum_count;
          sum_phi = m_phi a + m_phi b
            + delta4 * m_count a * m_count b
              * (m_count a * m_count a - m_count a * m_count b + m_count b * m_count b)
              / (sum_count * sum_count * sum_count)
            + 6 * delta2 * (m_count a * m_count a * m_rho b + m_count b * m_count b * m_rho a)
              / (sum_count * sum_count)
            + 4 * delta * (m_count a * m_tau b - m_count b * m_tau a) / sum_count;
          sum_min = min (m_min a) (m_min b);
          sum_max = max (m_max a) (m_max b);
          do_accumulate = (m_do_accumulate a \<or> m_do_accumulate b);
          sum_acc = (if do_accumulate
            then (if m_do_accumulate a then m_acc a else m_eta a * m_count a)
               + (if m_do_accumulate b then m_acc b else m_eta b * m_count b)
            else 0)
      in (new_RunStats do_accumulate)\<lparr>m_count := sum_count, m_eta := sum_eta, m_rho := sum_rho,
           m_tau := sum_tau, m_phi := sum_phi, m_min := sum_min, m_max := sum_max,
           m_acc := sum_acc\<rparr>)"

definition plus_assign :: "run_stats \<Rightarrow> run_stats \<Rightarrow> run_stats" where
  "plus_assign this rs = combine this rs"

record run_stats_values =
  v_count :: real
  v_minimum :: real
  v_maximum :: real
  v_accumulate :: real
  v_mean :: real
  v_stddev :: real
  v_skewness :: real
  v_kurtosis :: real

definition get_stat_values :: "run_stats \<Rightarrow> run_stats_values" where
  "get_stat_values s = \<lparr>v_count = m_count s, v_minimum = m_min s, v_maximum = m_max s,
     v_accumulate = m_acc s, v_mean = m_eta s, v_stddev = stddev s 1,
     v_skewness = skewness s, v_kurtosis = kurtosis s\<rparr>"

definition equiv :: "run_stats \<Rightarrow> run_stats \<Rightarrow> bool" where
  "equiv a b \<longleftrightarrow>
     \<bar>m_count a - m_count b\<bar> < 1 / 10 ^ 6 \<and> \<bar>m_eta a - m_eta b\<bar> < 1 / 10 ^ 3 \<and>
     \<bar>m_rho a - m_rho b\<bar> < 1 / 10 ^ 3 \<and> \<bar>m_tau a - m_tau b\<bar> < 1 / 10 ^ 3 \<and>
     \<bar>m_min a - m_min b\<bar> < 1 / 10 ^ 6 \<and> \<bar>m_max a - m_max b\<bar> < 1 / 10 ^ 6 \<and>
     \<bar>m_acc a - m_acc b\<bar> < 1 / 10 ^ 6"

definition eq_RunStats :: "run_stats \<Rightarrow> run_stats \<Rightarrow> bool" where
  "eq_RunStats a b \<longleftrightarrow> m_count a = m_count b \<and> m_eta a = m_eta b \<and> m_rho a = m_rho b \<and>
     m_tau a = m_tau b \<and> m_min a = m_min b \<and> m_max a = m_max b \<and> m_acc a = m_acc b"

definition static_mean :: "real list \<Rightarrow> real \<Rightarrow> real" where
  "static_mean data ddof = (if length data = 0 then 0
     else foldl (\<lambda>sum d. sum + d) 0 data / (real (length data) - ddof))"

definition static_std :: "real list \<Rightarrow> real \<Rightarrow> real" where
  "static_std data ddof = (if length data = 0 \<or> real (length data) - ddof \<le> 0 then 0
     else (let mean = static_mean data ddof;
               var = foldl (\<lambda>var d. var + (d - mean) ^ 2) 0 data / (real (length data) - ddof)
           in sqrt \<bar>var\<bar>))"

subsection \<open>Power sums\<close>

definition psum :: "nat \<Rightarrow> real list \<Rightarrow> real" where
  "psum k xs = (\<Sum>x\<leftarrow>xs. x ^ k)"

lemma psum_simps [simp]: "psum k [] = 0" "psum k (x # xs) = x ^ k + psum k xs"
  by (simp_all add: psum_def)

lemma psum_append [simp]: "psum k (xs @ ys) = psum k xs + psum k ys"
  by (simp add: psum_def)

definition mean :: "real list \<Rightarrow> real" where
  "mean xs = sum_list xs / real (length xs)"

definition central_moment :: "nat \<Rightarrow> real list \<Rightarrow> real" where
  "central_moment k xs = (\<Sum>x\<leftarrow>xs. (x - mean xs) ^ k)"

text \<open>Mean and central moments as functions of the count and the power sums.\<close>

definition eta_of :: "real \<Rightarrow> real \<Rightarrow> real" where
  "eta_of n p1 = p1 / n"
definition rho_of :: "real \<Rightarrow> real \<Rightarrow> real \<Rightarrow> real" where
  "rho_of n p1 p2 = p2 - p1 ^ 2 / n"
definition tau_of :: "real \<Rightarrow> real \<Rightarrow> real \<Rightarrow> real \<Rightarrow> real" where
  "tau_of n p1 p2 p3 = p3 - 3 * p1 * p2 / n + 2 * p1 ^ 3 / n ^ 2"
definition phi_of :: "real \<Rightarrow> real \<Rightarrow> real \<Rightarrow> real \<Rightarrow> real \<Rightarrow> real" where
  "phi_of n p1 p2 p3 p4 =
     p4 - 4 * p1 * p3 / n + 6 * p1 ^ 2 * p2 / n ^ 2 - 3 * p1 ^ 4 / n ^ 3"

lemmas of_defs = eta_of_def rho_of_def tau_of_def phi_of_def

definition moments :: "run_stats \<Rightarrow> real list \<Rightarrow> bool" where
  "moments s xs \<longleftrightarrow> m_count s = real (length xs) \<and>
     m_eta s = eta_of (real (length xs)) (psum 1 xs) \<and>
     m_rho s = rho_of (real (length xs)) (psum 1 xs) (psum 2 xs) \<and>
     m_tau s = tau_of (real (length xs)) (psum 1 xs) (psum 2 xs) (psum 3 xs) \<and>
     m_phi s = phi_of (real (length xs)) (psum 1 xs) (psum 2 xs) (psum 3 xs) (psum 4 xs)"

lemma shifted_sum_2: "(\<Sum>x\<leftarrow>xs. (x - c) ^ 2) = psum 2 xs - 2 * c * psum 1 xs + real (length xs) * c ^ 2"
  by (induction xs) (auto simp: algebra_simps power2_eq_square)

lemma shifted_sum_3: "(\<Sum>x\<leftarrow>xs. (x - c) ^ 3) =
    psum 3 xs - 3 * c * psum 2 xs + 3 * c ^ 2 * psum 1 xs - real (length xs) * c ^ 3"
  by (induction xs) (auto simp: algebra_simps power2_eq_square power3_eq_cube)

lemma shifted_sum_4: "(\<Sum>x\<leftarrow>xs. (x - c) ^ 4) =
    psum 4 xs - 4 * c * psum 3 xs + 6 * c ^ 2 * psum 2 xs - 4 * c ^ 3 * psum 1 xs
      + real (length xs) * c ^ 4"
  by (induction xs) (auto simp: algebra_simps power2_eq_square power3_eq_cube power4_eq_xxxx)

lemma psum_1: "psum 1 xs = sum_list xs" "psum (Suc 0) xs = sum_list xs"
  by (simp_all add: psum_def)

lemma central_identities:
  fixes n p1 p2 p3 p4 :: real
  assumes "n \<noteq> 0"
  shows "p2 - 2 * (p1 / n) * p1 + n * (p1 / n) ^ 2 = rho_of n p1 p2"
    and "p3 - 3 * (p1 / n) * p2 + 3 * (p1 / n) ^ 2 * p1 - n * (p1 / n) ^ 3 = tau_of n p1 p2 p3"
    and "p4 - 4 * (p1 / n) * p3 + 6 * (p1 / n) ^ 2 * p2 - 4 * (p1 / n) ^ 3 * p1 + n * (p1 / n) ^ 4
         = phi_of n p1 p2 p3 p4"
  using assms by (simp_all add: of_defs divide_simps) algebra+

lemma moments_central:
  assumes "moments s xs" "xs \<noteq> []"
  shows "m_eta s = mean xs" "m_rho s = central_moment 2 xs"
    "m_tau s = central_moment 3 xs" "m_phi s = central_moment 4 xs"
proof -
  have n: "real (length xs) \<noteq> 0" using assms(2) by simp
  show "m_eta s = mean xs"
    using assms by (simp add: moments_def mean_def eta_of_def psum_1)
  show "m_rho s = central_moment 2 xs" "m_tau s = central_moment 3 xs"
    "m_phi s = central_moment 4 xs"
    using assms(1) by (simp_all add: moments_def central_moment_def shifted_sum_2 shifted_sum_3
        shifted_sum_4 mean_def psum_1 central_identities [OF n, symmetric])
qed

subsection \<open>Pushing one value\<close>

text \<open>
  The update of each moment, as a polynomial identity: \<open>n\<close> values with power sums
  \<open>p1 \<dots> p4\<close> have been seen and \<open>x\<close> arrives.
\<close>

lemma push_identities:
  fixes n p1 p2 p3 p4 x :: real
  assumes n: "n \<noteq> 0" "n + 1 \<noteq> 0"
  defines "delta \<equiv> x - eta_of n p1"
  defines "delta_n \<equiv> delta / (n + 1)"
  defines "trm \<equiv> delta * delta_n * n"
  shows "eta_of n p1 + delta_n = eta_of (n + 1) (x + p1)"
    and "rho_of n p1 p2 + trm = rho_of (n + 1) (x + p1) (x ^ 2 + p2)"
    and "tau_of n p1 p2 p3 + (trm * delta_n * (n + 1 - 2) - 3 * delta_n * rho_of n p1 p2)
         = tau_of (n + 1) (x + p1) (x ^ 2 + p2) (x ^ 3 + p3)"
    and "phi_of n p1 p2 p3 p4 + (trm * (delta_n * delta_n) * ((n + 1) * (n + 1) - 3 * (n + 1) + 3)
           + 6 * (delta_n * delta_n) * rho_of n p1 p2 - 4 * delta_n * tau_of n p1 p2 p3)
         = phi_of (n + 1) (x + p1) (x ^ 2 + p2) (x ^ 3 + p3) (x ^ 4 + p4)"
proof -
  show "eta_of n p1 + delta_n = eta_of (n + 1) (x + p1)"
    using n by (simp add: of_defs delta_n_def delta_def divide_simps) algebra
  show "rho_of n p1 p2 + trm = rho_of (n + 1) (x + p1) (x ^ 2 + p2)"
    using n by (simp add: of_defs trm_def delta_n_def delta_def divide_simps) algebra
  show "tau_of n p1 p2 p3 + (trm * delta_n * (n + 1 - 2) - 3 * delta_n * rho_of n p1 p2)
         = tau_of (n + 1) (x + p1) (x ^ 2 + p2) (x ^ 3 + p3)"
    using n by (simp add: of_defs trm_def delta_n_def delta_def divide_simps) algebra
  show "phi_of n p1 p2 p3 p4 + (trm * (delta_n * delta_n) * ((n + 1) * (n + 1) - 3 * (n + 1) + 3)
           + 6 * (delta_n * delta_n) * rho_of n p1 p2 - 4 * delta_n * tau_of n p1 p2 p3)
         = phi_of (n + 1) (x + p1) (x ^ 2 + p2) (x ^ 3 + p3) (x ^ 4 + p4)"
    using n by (simp add: of_defs trm_def delta_n_def delta_def divide_simps) algebra
qed

lemma push_sel:
  fixes s :: run_stats and x :: real
  defines "delta \<equiv> x - m_eta s"
  defines "delta_n \<equiv> delta / (m_count s + 1)"
  defines "trm \<equiv> delta * delta_n * m_count s"
  shows "m_count (push x s) = m_count s + 1"
    and "m_eta (push x s) = m_eta s + delta_n"
    and "m_rho (push x s) = m_rho s + trm"
    and "m_tau (push x s) = m_tau s + (trm * delta_n * (m_count s + 1 - 2) - 3 * delta_n * m_rho s)"
    and "m_phi (push x s) = m_phi s + (trm * (delta_n * delta_n) *
           ((m_count s + 1) * (m_count s + 1) - 3 * (m_count s + 1) + 3)
           + 6 * (delta_n * delta_n) * m_rho s - 4 * delta_n * m_tau s)"
  by (simp_all add: push_def Let_def delta_def delta_n_def trm_def)

lemma moments_push:
  assumes "moments s xs"
  shows "moments (push x s) (x # xs)"
proof (cases "xs = []")
  case True
  with assms show ?thesis
    by (simp add: moments_def push_def Let_def of_defs power2_eq_square power3_eq_cube
        power4_eq_xxxx)
next
  case False
  then have n: "real (length xs) \<noteq> 0" "real (length xs) + 1 \<noteq> 0"
    by (simp, smt (verit) of_nat_0_le_iff)
  have len: "real (length (x # xs)) = real (length xs) + 1" by simp
  have P: "psum k (x # xs) = x ^ k + psum k xs" for k by simp
  have P1: "psum 1 (x # xs) = x + psum 1 xs" by simp
  note ids = push_identities [OF n]
  show ?thesis
    using assms unfolding moments_def push_sel len P1 P [of 2] P [of 3] P [of 4]
    by (simp only: ids simp_thms)
qed

lemma moments_clear: "moments (new_RunStats acc) []"
  by (simp add: moments_def new_RunStats_def clear_RunStats_def of_defs)

text \<open>\<open>push_all\<close> feeds a sequence of values, the latest pushed last.\<close>

definition push_all :: "real list \<Rightarrow> run_stats \<Rightarrow> run_stats" where
  "push_all xs s = fold push xs s"

lemma moments_rev: "moments s (rev xs) = moments s xs"
proof -
  have "psum k (rev xs) = psum k xs" for k
    by (simp add: psum_def rev_map [symmetric])
  then show ?thesis by (simp add: moments_def)
qed

lemma moments_fold_push: "moments s ys \<Longrightarrow> moments (fold push xs s) (rev xs @ ys)"
proof (induction xs arbitrary: s ys)
  case (Cons x xs)
  then show ?case using moments_push [of s ys x] by fastforce
qed simp

lemma moments_push_all: "moments (push_all xs (new_RunStats acc)) xs"
  using moments_fold_push [OF moments_clear, of xs acc]
  by (simp add: push_all_def moments_rev)

lemma push_flag [simp]: "m_do_accumulate (push x s) = m_do_accumulate s"
  by (simp add: push_def Let_def)

lemma push_all_flag [simp]: "m_do_accumulate (push_all xs s) = m_do_accumulate s"
  unfolding push_all_def by (induction xs arbitrary: s) auto

lemma new_flag [simp]: "m_do_accumulate (new_RunStats acc) = acc"
  by (simp add: new_RunStats_def clear_RunStats_def)

lemma push_all_Nil [simp]: "push_all [] s = s"
  by (simp add: push_all_def)

lemma push_all_snoc: "push_all (xs @ [x]) s = push x (push_all xs s)"
  by (simp add: push_all_def)

lemma push_all_acc:
  "m_acc (push_all xs (new_RunStats acc)) = (if acc then sum_list xs else 0)"
proof (induction xs rule: rev_induct)
  case Nil
  show ?case by (simp add: new_RunStats_def clear_RunStats_def)
next
  case (snoc x xs)
  then show ?case by (cases acc) (simp_all add: push_all_snoc push_def Let_def)
qed

lemma push_all_count: "m_count (push_all xs (new_RunStats acc)) = real (length xs)"
  using moments_push_all [of xs acc] by (simp add: moments_def)

lemma push_all_extrema:
  "xs \<noteq> [] \<Longrightarrow> m_min (push_all xs (new_RunStats acc)) = Min (set xs) \<and>
     m_max (push_all xs (new_RunStats acc)) = Max (set xs)"
proof (induction xs rule: rev_induct)
  case (snoc x xs)
  show ?case
  proof (cases "xs = []")
    case True
    then show ?thesis
      by (simp add: push_all_def push_def Let_def new_RunStats_def clear_RunStats_def)
  next
    case False
    with snoc show ?thesis
      by (simp add: push_all_snoc push_def Let_def push_all_count min.commute max.commute)
  qed
qed simp

subsection \<open>Combining two objects\<close>

lemma combine_identities:
  fixes n m p1 p2 p3 p4 q1 q2 q3 q4 :: real
  assumes n: "n \<noteq> 0" "m \<noteq> 0" "n + m \<noteq> 0"
  defines "d \<equiv> eta_of m q1 - eta_of n p1"
  shows "(n * eta_of n p1 + m * eta_of m q1) / (n + m) = eta_of (n + m) (p1 + q1)"
    and "rho_of n p1 p2 + rho_of m q1 q2 + d * d * n * m / (n + m)
         = rho_of (n + m) (p1 + q1) (p2 + q2)"
    and "tau_of n p1 p2 p3 + tau_of m q1 q2 q3
           + d * (d * d) * n * m * (n - m) / ((n + m) * (n + m))
           + 3 * d * (n * rho_of m q1 q2 - m * rho_of n p1 p2) / (n + m)
         = tau_of (n + m) (p1 + q1) (p2 + q2) (p3 + q3)"
    and "phi_of n p1 p2 p3 p4 + phi_of m q1 q2 q3 q4
           + d * d * (d * d) * n * m * (n * n - n * m + m * m) / ((n + m) * (n + m) * (n + m))
           + 6 * (d * d) * (n * n * rho_of m q1 q2 + m * m * rho_of n p1 p2) / ((n + m) * (n + m))
           + 4 * d * (n * tau_of m q1 q2 q3 - m * tau_of n p1 p2 p3) / (n + m)
         = phi_of (n + m) (p1 + q1) (p2 + q2) (p3 + q3) (p4 + q4)"
proof -
  show "(n * eta_of n p1 + m * eta_of m q1) / (n + m) = eta_of (n + m) (p1 + q1)"
    using n by (simp add: of_defs)
  show "rho_of n p1 p2 + rho_of m q1 q2 + d * d * n * m / (n + m)
         = rho_of (n + m) (p1 + q1) (p2 + q2)"
    using n by (simp add: of_defs d_def divide_simps) algebra
  show "tau_of n p1 p2 p3 + tau_of m q1 q2 q3
           + d * (d * d) * n * m * (n - m) / ((n + m) * (n + m))
           + 3 * d * (n * rho_of m q1 q2 - m * rho_of n p1 p2) / (n + m)
         = tau_of (n + m) (p1 + q1) (p2 + q2) (p3 + q3)"
    using n by (simp add: of_defs d_def divide_simps) algebra
  show "phi_of n p1 p2 p3 p4 + phi_of m q1 q2 q3 q4
           + d * d * (d * d) * n * m * (n * n - n * m + m * m) / ((n + m) * (n + m) * (n + m))
           + 6 * (d * d) * (n * n * rho_of m q1 q2 + m * m * rho_of n p1 p2) / ((n + m) * (n + m))
           + 4 * d * (n * tau_of m q1 q2 q3 - m * tau_of n p1 p2 p3) / (n + m)
         = phi_of (n + m) (p1 + q1) (p2 + q2) (p3 + q3) (p4 + q4)"
    using n by (simp add: of_defs d_def divide_simps) algebra
qed

lemma combine_sel:
  fixes a b :: run_stats
  assumes "m_count a + m_count b \<noteq> 0"
  defines "n \<equiv> m_count a" and "m \<equiv> m_count b" and "d \<equiv> m_eta b - m_eta a"
  shows "m_count (combine a b) = n + m"
    and "m_eta (combine a b) = (n * m_eta a + m * m_eta b) / (n + m)"
    and "m_rho (combine a b) = m_rho a + m_rho b + d * d * n * m / (n + m)"
    and "m_tau (combine a b) = m_tau a + m_tau b
           + d * (d * d) * n * m * (n - m) / ((n + m) * (n + m))
           + 3 * d * (n * m_rho b - m * m_rho a) / (n + m)"
    and "m_phi (combine a b) = m_phi a + m_phi b
           + d * d * (d * d) * n * m * (n * n - n * m + m * m) / ((n + m) * (n + m) * (n + m))
           + 6 * (d * d) * (n * n * m_rho b + m * m * m_rho a) / ((n + m) * (n + m))
           + 4 * d * (n * m_tau b - m * m_tau a) / (n + m)"
  using assms(1) by (simp_all add: combine_def Let_def n_def m_def d_def)

lemma moments_combine:
  assumes a: "moments a xs" and b: "moments b ys"
  shows "moments (combine a b) (xs @ ys)"
proof -
  consider "xs = []" "ys = []" | "xs = []" "ys \<noteq> []" | "xs \<noteq> []" "ys = []"
    | "xs \<noteq> []" "ys \<noteq> []" by blast
  then show ?thesis
  proof cases
    case 1
    with a b show ?thesis
      using moments_clear [of False] by (simp add: moments_def combine_def)
  next
    case 2
    with a b show ?thesis by (simp add: moments_def combine_def Let_def of_defs)
  next
    case 3
    with a b show ?thesis by (simp add: moments_def combine_def Let_def of_defs)
  next
    case 4
    define n m where "n = real (length xs)" and "m = real (length ys)"
    have n: "n \<noteq> 0" "m \<noteq> 0" "n + m \<noteq> 0"
      using 4 by (simp_all add: n_def m_def flip: of_nat_add)
    have len: "real (length (xs @ ys)) = n + m" by (simp add: n_def m_def)
    have nz: "m_count a + m_count b \<noteq> 0"
      using a b n(3) by (simp add: moments_def n_def m_def)
    note ids = combine_identities [OF n]
    from a b show ?thesis
      unfolding moments_def combine_sel [OF nz] len psum_append n_def [symmetric] m_def [symmetric]
      by (simp only: ids simp_thms)
  qed
qed

lemma combine_extrema:
  "m_count a + m_count b \<noteq> 0 \<Longrightarrow>
     m_min (combine a b) = min (m_min a) (m_min b) \<and>
     m_max (combine a b) = max (m_max a) (m_max b) \<and>
     m_do_accumulate (combine a b) = (m_do_accumulate a \<or> m_do_accumulate b)"
  by (simp add: combine_def Let_def)

lemma combine_acc:
  assumes "m_count a + m_count b \<noteq> 0"
  shows "m_acc (combine a b) =
    (if m_do_accumulate a \<or> m_do_accumulate b
     then (if m_do_accumulate a then m_acc a else m_eta a * m_count a)
        + (if m_do_accumulate b then m_acc b else m_eta b * m_count b)
     else 0)"
  using assms by (simp add: combine_def Let_def)

lemma push_all_moments:
  assumes "xs \<noteq> []"
  shows "push_all xs (new_RunStats acc) =
    \<lparr>m_count = real (length xs), m_eta = mean xs, m_rho = central_moment 2 xs,
     m_tau = central_moment 3 xs, m_phi = central_moment 4 xs,
     m_min = Min (set xs), m_max = Max (set xs),
     m_acc = (if acc then sum_list xs else 0), m_do_accumulate = acc\<rparr>"
  using moments_central [OF moments_push_all assms, of acc] push_all_extrema [OF assms, of acc]
  by (intro run_stats.equality) (simp_all add: push_all_acc push_all_count)

text \<open>
  C34. Feeding a non-empty list of values one at a time gives exactly the count, the mean,
  the second, third and fourth central moment sums, the extrema and (when requested) the
  sum of the list.
\<close>

theorem push_all_correct:
  assumes "xs \<noteq> []"
  shows "push_all xs (new_RunStats acc) =
    \<lparr>m_count = real (length xs), m_eta = mean xs, m_rho = central_moment 2 xs,
     m_tau = central_moment 3 xs, m_phi = central_moment 4 xs,
     m_min = Min (set xs), m_max = Max (set xs),
     m_acc = (if acc then sum_list xs else 0), m_do_accumulate = acc\<rparr>"
  by (rule push_all_moments [OF assms])

theorem push_all_correct_witness:
  "push_all [1, 3] (new_RunStats True) =
    \<lparr>m_count = 2, m_eta = mean [1, 3], m_rho = central_moment 2 [1, 3],
     m_tau = central_moment 3 [1, 3], m_phi = central_moment 4 [1, 3],
     m_min = Min {1, 3}, m_max = Max {1, 3}, m_acc = 4, m_do_accumulate = True\<rparr>"
  using push_all_correct [of "[1, 3]" True] by simp

text \<open>
  C33. Combining the statistics of two non-empty lists gives the statistics of their
  concatenation: a global model assembled from partial ones equals the model one
  process would have computed from all values. The two objects may differ in whether they
  accumulate; the combination accumulates when either does, with the sum of the other
  reconstructed from its mean and count.
\<close>

theorem combine_correct:
  assumes "xs \<noteq> []" "ys \<noteq> []"
  shows "combine (push_all xs (new_RunStats acc)) (push_all ys (new_RunStats acc'))
    = push_all (xs @ ys) (new_RunStats (acc \<or> acc'))"
proof -
  let ?a = "push_all xs (new_RunStats acc)" and ?b = "push_all ys (new_RunStats acc')"
  let ?c = "push_all (xs @ ys) (new_RunStats (acc \<or> acc'))"
  have nz: "m_count ?a + m_count ?b \<noteq> 0"
    using assms by (simp add: push_all_count flip: of_nat_add)
  have m: "moments (combine ?a ?b) (xs @ ys)" "moments ?c (xs @ ys)"
    by (rule moments_combine moments_push_all)+
  have ex: "m_min (combine ?a ?b) = m_min ?c" "m_max (combine ?a ?b) = m_max ?c"
    using assms combine_extrema [OF nz]
    by (simp_all add: push_all_extrema Min_Un Max_Un)
  have eta: "m_eta ?a * m_count ?a = sum_list xs" "m_eta ?b * m_count ?b = sum_list ys"
    using moments_push_all [of xs acc] moments_push_all [of ys acc'] assms
    by (simp_all add: moments_def eta_of_def psum_1)
  have acc: "m_acc (combine ?a ?b) = m_acc ?c"
    unfolding combine_acc [OF nz] eta by (simp add: push_all_acc)
  show ?thesis
    using m ex acc combine_extrema [OF nz]
    by (intro run_stats.equality) (simp_all add: moments_def)
qed

theorem combine_correct_witness:
  "combine (push_all [1, 2] (new_RunStats True)) (push_all [5] (new_RunStats False))
    = push_all [1, 2, 5] (new_RunStats True)"
  using combine_correct [of "[1, 2]" "[5]" True False] by simp

text \<open>
  \<open>clear\<close> starts the maximum at the smallest positive \<open>double\<close>, and the combination
  takes the maximum without looking at the counts: adding the statistics of negative
  values to an object that has seen nothing reports that positive number as the maximum,
  and adding two empty objects drops the request to accumulate the sum.
\<close>

lemma combine_empty_loses:
  "(ys \<noteq> [] \<longrightarrow>
     m_max (combine (new_RunStats acc) (push_all ys (new_RunStats acc')))
       = max dbl_min (Max (set ys))) \<and>
   m_do_accumulate (combine (new_RunStats acc) (new_RunStats acc')) = False"
proof -
  have "m_max (new_RunStats acc) = dbl_min" "m_count (new_RunStats acc) = 0" for acc
    by (simp_all add: new_RunStats_def clear_RunStats_def)
  then show ?thesis
    using combine_extrema [of "new_RunStats acc" "push_all ys (new_RunStats acc')"]
    by (simp add: push_all_count push_all_extrema) (simp add: combine_def)
qed

lemma combine_empty_loses_witness:
  "m_max (combine (new_RunStats True) (push_all [- 1] (new_RunStats True))) = max dbl_min (- 1) \<and>
   m_max (push_all [- 1] (new_RunStats True)) = - 1"
  using combine_empty_loses [of "[- 1]" True True] push_all_extrema [of "[- 1]" True] by simp

lemma foldl_plus_sum_list: "foldl (\<lambda>s d. s + f d) c xs = c + (\<Sum>d\<leftarrow>xs. f d :: real)"
  by (induction xs arbitrary: c) auto

text \<open>
  With no degrees of freedom removed, the two-pass reference functions
  \<open>static_mean\<close> and \<open>static_std\<close> agree with the one-pass object. With the default
  \<open>ddof = 1\<close> they do not: \<open>static_std\<close> takes its deviations from \<open>static_mean\<close> at the
  same \<open>ddof\<close>, that is, from the sum divided by one less than the count.
\<close>

lemma static_std_agrees:
  assumes "xs \<noteq> []"
  shows "static_mean xs 0 = m_eta (push_all xs (new_RunStats acc)) \<and>
    static_std xs 0 = stddev (push_all xs (new_RunStats acc)) 0 \<and>
    static_std [1, 3] 1 = sqrt 10 \<and> stddev (push_all [1, 3] (new_RunStats acc)) 1 = sqrt 2"
proof -
  have mean: "static_mean xs 0 = mean xs"
    using assms foldl_plus_sum_list [of "\<lambda>d. d" 0 xs] by (simp add: static_mean_def mean_def)
  have "static_std xs 0 = sqrt \<bar>central_moment 2 xs / real (length xs)\<bar>"
    using assms foldl_plus_sum_list [of "\<lambda>d. (d - mean xs) ^ 2" 0 xs] mean
    by (simp add: static_std_def central_moment_def Let_def)
  moreover have "m_rho (push_all [1, 3] (new_RunStats acc)) = 2"
    by (simp add: push_all_moments central_moment_def mean_def power2_eq_square)
  ultimately show ?thesis
    using assms mean
    by (simp add: push_all_moments stddev_def variance_def static_std_def static_mean_def
        Let_def power2_eq_square central_moment_def mean_def)
qed

lemma static_std_agrees_witness:
  "static_mean [2, 4] 0 = m_eta (push_all [2, 4] (new_RunStats True)) \<and>
   static_std [2, 4] 0 = stddev (push_all [2, 4] (new_RunStats True)) 0"
  using static_std_agrees [of "[2, 4]" True] by simp

end
