(* ===== verification/EventData.thy ===== *)
theory EventData
  imports Prelude
begin

text \<open>
  The trace data types of \<open>src/modules/performance_analysis/ad/ExecData.cpp\<close> and
  \<open>include/chimbuko/modules/performance_analysis/ad/\<close> (\<open>ADDefine.hpp\<close>, \<open>ExecData.hpp\<close>)
  and the event index of \<open>include/chimbuko/core/ad/utils.hpp\<close>: raw events and their
  accessors, communication and counter data, and the record of one function execution
  with its update operations. A raw event is the list of words its data pointer points
  to, the empty list standing for the null pointer.
\<close>

subsection \<open>Layout of the raw data and enumerations\<close>

definition IDX_P :: nat where "IDX_P = 0"
definition IDX_R :: nat where "IDX_R = 1"
definition IDX_T :: nat where "IDX_T = 2"
definition IDX_E :: nat where "IDX_E = 3"
definition FUNC_EVENT_DIM :: nat where "FUNC_EVENT_DIM = 6"
definition FUNC_IDX_F :: nat where "FUNC_IDX_F = 4"
definition FUNC_IDX_TS :: nat where "FUNC_IDX_TS = 5"
definition COMM_EVENT_DIM :: nat where "COMM_EVENT_DIM = 8"
definition COMM_IDX_TAG :: nat where "COMM_IDX_TAG = 4"
definition COMM_IDX_PARTNER :: nat where "COMM_IDX_PARTNER = 5"
definition COMM_IDX_BYTES :: nat where "COMM_IDX_BYTES = 6"
definition COMM_IDX_TS :: nat where "COMM_IDX_TS = 7"
definition COUNTER_EVENT_DIM :: nat where "COUNTER_EVENT_DIM = 6"
definition COUNTER_IDX_ID :: nat where "COUNTER_IDX_ID = 3"
definition COUNTER_IDX_VALUE :: nat where "COUNTER_IDX_VALUE = 4"
definition COUNTER_IDX_TS :: nat where "COUNTER_IDX_TS = 5"

lemmas idx_defs = IDX_P_def IDX_R_def IDX_T_def IDX_E_def FUNC_EVENT_DIM_def FUNC_IDX_F_def
  FUNC_IDX_TS_def COMM_EVENT_DIM_def COMM_IDX_TAG_def COMM_IDX_PARTNER_def COMM_IDX_BYTES_def
  COMM_IDX_TS_def COUNTER_EVENT_DIM_def COUNTER_IDX_ID_def COUNTER_IDX_VALUE_def
  COUNTER_IDX_TS_def

datatype event_error = OK | UnknownEvent | UnknownFunc | CallStackViolation | EmptyCallStack

datatype event_data_type = UnknownType | FUNC | COMM | COUNT

datatype list_end = Back | Front

subsection \<open>Event index\<close>

datatype eventID = eventID (ev_rank: int) (ev_step: int) (ev_idx: int)

definition root :: eventID where
  "root = eventID (- 1) (- 1) (- 1)"

definition isRoot :: "eventID \<Rightarrow> bool" where
  "isRoot e \<longleftrightarrow> ev_rank e = - 1 \<and> ev_step e = - 1 \<and> ev_idx e = - 1"

lemma isRoot_iff: "isRoot e \<longleftrightarrow> e = root"
  by (cases e) (simp add: isRoot_def root_def)

fun digits_of :: "nat \<Rightarrow> string" where
  "digits_of n = (if n < 10 then [char_of (48 + n)] else digits_of (n div 10) @ [char_of (48 + n mod 10)])"

declare digits_of.simps [simp del]

definition to_string :: "int \<Rightarrow> string" where
  "to_string i = (if i < 0 then ''-'' @ digits_of (nat (- i)) else digits_of (nat i))"

definition generate_event_id :: "int \<Rightarrow> int \<Rightarrow> int \<Rightarrow> string" where
  "generate_event_id rank step idx = to_string rank @ '':'' @ to_string step @ '':'' @ to_string idx"

definition eventID_toString :: "eventID \<Rightarrow> string" where
  "eventID_toString e =
     (if isRoot e then ''root'' else generate_event_id (ev_rank e) (ev_step e) (ev_idx e))"

subsection \<open>Raw events (\<open>Event_t\<close>)\<close>

record event_t =
  m_data :: "u64 list"
  m_t :: event_data_type
  m_id :: eventID
  m_idx :: nat

definition ev_valid :: "event_t \<Rightarrow> bool" where
  "ev_valid e \<longleftrightarrow> m_data e \<noteq> []"

definition ev_pid :: "event_t \<Rightarrow> u64" where "ev_pid e = m_data e ! IDX_P"
definition ev_rid :: "event_t \<Rightarrow> u64" where "ev_rid e = m_data e ! IDX_R"
definition ev_tid :: "event_t \<Rightarrow> u64" where "ev_tid e = m_data e ! IDX_T"

definition ev_ts :: "event_t \<Rightarrow> u64" where
  "ev_ts e = (case m_t e of
     FUNC \<Rightarrow> m_data e ! FUNC_IDX_TS
   | COMM \<Rightarrow> m_data e ! COMM_IDX_TS
   | COUNT \<Rightarrow> m_data e ! COUNTER_IDX_TS
   | UnknownType \<Rightarrow> u64_max)"

definition strtype :: "event_t \<Rightarrow> string" where
  "strtype e = (case m_t e of FUNC \<Rightarrow> ''FUNC'' | COMM \<Rightarrow> ''COMM'' | COUNT \<Rightarrow> ''COUNT''
     | UnknownType \<Rightarrow> ''Unknown'')"

definition ev_eid :: "event_t \<Rightarrow> u64 res" where
  "ev_eid e = (if m_t e \<noteq> FUNC \<and> m_t e \<noteq> COMM then Inl ExitFailure else Inr (m_data e ! IDX_E))"

definition ev_fid :: "event_t \<Rightarrow> u64 res" where
  "ev_fid e = (if m_t e \<noteq> FUNC then Inl ExitFailure else Inr (m_data e ! FUNC_IDX_F))"

definition ev_tag :: "event_t \<Rightarrow> u64 res" where
  "ev_tag e = (if m_t e \<noteq> COMM then Inl ExitFailure else Inr (m_data e ! COMM_IDX_TAG))"

definition ev_partner :: "event_t \<Rightarrow> u64 res" where
  "ev_partner e = (if m_t e \<noteq> COMM then Inl ExitFailure else Inr (m_data e ! COMM_IDX_PARTNER))"

definition ev_bytes :: "event_t \<Rightarrow> u64 res" where
  "ev_bytes e = (if m_t e \<noteq> COMM then Inl ExitFailure else Inr (m_data e ! COMM_IDX_BYTES))"

definition ev_counter_id :: "event_t \<Rightarrow> u64 res" where
  "ev_counter_id e = (if m_t e \<noteq> COUNT then Inl ExitFailure else Inr (m_data e ! COUNTER_IDX_ID))"

definition ev_counter_value :: "event_t \<Rightarrow> u64 res" where
  "ev_counter_value e = (if m_t e \<noteq> COUNT then Inl ExitFailure else Inr (m_data e ! COUNTER_IDX_VALUE))"

definition get_data_len :: "event_t \<Rightarrow> nat res" where
  "get_data_len e = (case m_t e of
     FUNC \<Rightarrow> Inr FUNC_EVENT_DIM
   | COMM \<Rightarrow> Inr COMM_EVENT_DIM
   | COUNT \<Rightarrow> Inr COUNTER_EVENT_DIM
   | UnknownType \<Rightarrow> Inl (RuntimeError ''Invalid EventDataType''))"

definition event_eq :: "event_t \<Rightarrow> event_t \<Rightarrow> bool res" where
  "event_eq l r = (if m_t r \<noteq> m_t l \<or> m_id r \<noteq> m_id l \<or> m_idx r \<noteq> m_idx l then Inr False
     else bind (get_data_len l) (\<lambda>len. Inr (list_all (\<lambda>i. m_data l ! i = m_data r ! i) [0..<len])))"

definition event_less :: "event_t \<Rightarrow> event_t \<Rightarrow> bool" where
  "event_less lhs rhs = (if ev_ts lhs = ev_ts rhs then m_idx lhs < m_idx rhs else ev_ts lhs < ev_ts rhs)"

definition event_greater :: "event_t \<Rightarrow> event_t \<Rightarrow> bool" where
  "event_greater lhs rhs = (if ev_ts lhs = ev_ts rhs then m_idx lhs > m_idx rhs else ev_ts lhs > ev_ts rhs)"

subsection \<open>Communication events (\<open>CommData_t\<close>)\<close>

record comm_data =
  m_commType :: string
  cm_pid :: u64
  cm_rid :: u64
  cm_tid :: u64
  m_src :: u64
  m_tar :: u64
  m_bytes :: u64
  m_tag :: u64
  cm_ts :: u64
  cm_execkey :: eventID

text \<open>
  Only the types \<open>SEND\<close> and \<open>RECV\<close> set source and target; for any other type the members
  keep their uninitialised values, which the parameter \<open>junk\<close> stands for.
\<close>

definition new_CommData :: "u64 \<Rightarrow> event_t \<Rightarrow> string \<Rightarrow> comm_data res" where
  "new_CommData junk ev commType =
     bind (if commType = ''SEND'' then bind (ev_partner ev) (\<lambda>p. Inr (ev_rid ev, p))
           else if commType = ''RECV'' then bind (ev_partner ev) (\<lambda>p. Inr (p, ev_rid ev))
           else Inr (junk, junk)) (\<lambda>(src, tar).
     bind (ev_bytes ev) (\<lambda>b.
     bind (ev_tag ev) (\<lambda>t.
     Inr \<lparr>m_commType = commType, cm_pid = ev_pid ev, cm_rid = ev_rid ev, cm_tid = ev_tid ev,
          m_src = src, m_tar = tar, m_bytes = b, m_tag = t, cm_ts = ev_ts ev,
          cm_execkey = eventID 0 0 0\<rparr>)))"

definition new_CommData_by_value ::
    "u64 \<Rightarrow> u64 \<Rightarrow> u64 \<Rightarrow> u64 \<Rightarrow> u64 \<Rightarrow> u64 \<Rightarrow> u64 \<Rightarrow> u64 \<Rightarrow> string \<Rightarrow> comm_data" where
  "new_CommData_by_value junk pid rid tid ptn nbytes tg timestamp commType =
     (let (src, tar) = (if commType = ''SEND'' then (rid, ptn)
                        else if commType = ''RECV'' then (ptn, rid) else (junk, junk))
      in \<lparr>m_commType = commType, cm_pid = pid, cm_rid = rid, cm_tid = tid, m_src = src,
          m_tar = tar, m_bytes = nbytes, m_tag = tg, cm_ts = timestamp,
          cm_execkey = eventID 0 0 0\<rparr>)"

definition comm_is_same :: "comm_data \<Rightarrow> comm_data \<Rightarrow> bool" where
  "comm_is_same a b \<longleftrightarrow> m_commType a = m_commType b \<and> cm_pid a = cm_pid b \<and>
     cm_rid a = cm_rid b \<and> cm_tid a = cm_tid b \<and> m_src a = m_src b \<and> m_bytes a = m_bytes b \<and>
     m_tag a = m_tag b \<and> cm_ts a = cm_ts b \<and> cm_execkey a = cm_execkey b"

subsection \<open>Counter events (\<open>CounterData_t\<close>)\<close>

record counter_data =
  m_countername :: string
  ct_pid :: u64
  ct_rid :: u64
  ct_tid :: u64
  m_cid :: u64
  m_value :: u64
  ct_ts :: u64
  ct_execkey :: eventID

definition new_CounterData :: "event_t \<Rightarrow> string \<Rightarrow> counter_data res" where
  "new_CounterData ev counter_name =
     bind (ev_counter_id ev) (\<lambda>c.
     bind (ev_counter_value ev) (\<lambda>v.
     Inr \<lparr>m_countername = counter_name, ct_pid = ev_pid ev, ct_rid = ev_rid ev,
          ct_tid = ev_tid ev, m_cid = c, m_value = v, ct_ts = ev_ts ev,
          ct_execkey = eventID 0 0 0\<rparr>))"

definition new_CounterData_by_value ::
    "u64 \<Rightarrow> u64 \<Rightarrow> u64 \<Rightarrow> u64 \<Rightarrow> string \<Rightarrow> u64 \<Rightarrow> u64 \<Rightarrow> counter_data" where
  "new_CounterData_by_value pid rid tid cid counter_name val timestamp =
     \<lparr>m_countername = counter_name, ct_pid = pid, ct_rid = rid, ct_tid = tid,
      m_cid = cid, m_value = val, ct_ts = timestamp, ct_execkey = eventID 0 0 0\<rparr>"

subsection \<open>Function executions (\<open>ExecData_t\<close>)\<close>

text \<open>
  The four \<open>long\<close> members are 64-bit words read with \<open>sint\<close>; subtraction on them wraps
  where the code's signed subtraction would overflow. The count of external references is
  a natural number: it cannot reach \<open>2 ^ 64\<close>.
\<close>

record exec_data =
  x_id :: eventID
  m_funcname :: string
  x_pid :: u64
  x_tid :: u64
  x_rid :: u64
  m_fid :: u64
  m_entry :: u64
  m_exit :: u64
  m_runtime :: u64
  m_exclusive :: u64
  m_label :: int
  m_score :: real
  m_parent :: eventID
  m_n_children :: u64
  m_n_messages :: u64
  m_messages :: "comm_data list"
  m_counters :: "counter_data list"
  m_references :: nat
  m_gpu_correlation_id_partner :: "eventID list"

definition new_ExecData :: exec_data where
  "new_ExecData = \<lparr>x_id = eventID 0 0 0, m_funcname = '''', x_pid = 0, x_tid = 0, x_rid = 0,
     m_fid = 0, m_entry = 0, m_exit = 0, m_runtime = 0, m_exclusive = 0, m_label = 0,
     m_score = - 1, m_parent = eventID 0 0 0, m_n_children = 0, m_n_messages = 0,
     m_messages = [], m_counters = [], m_references = 0, m_gpu_correlation_id_partner = []\<rparr>"

definition new_ExecData_event :: "event_t \<Rightarrow> exec_data res" where
  "new_ExecData_event ev = bind (ev_fid ev) (\<lambda>f.
     Inr (new_ExecData\<lparr>x_id := m_id ev, x_pid := ev_pid ev, x_rid := ev_rid ev,
       x_tid := ev_tid ev, m_fid := f, m_entry := ev_ts ev, m_parent := root\<rparr>))"

definition set_exit :: "u64 \<Rightarrow> exec_data \<Rightarrow> exec_data" where
  "set_exit ex x = (let runtime = ex - m_entry x in
     x\<lparr>m_exit := ex, m_runtime := runtime, m_exclusive := m_exclusive x + runtime\<rparr>)"

definition new_ExecData_by_value ::
    "eventID \<Rightarrow> u64 \<Rightarrow> u64 \<Rightarrow> u64 \<Rightarrow> u64 \<Rightarrow> string \<Rightarrow> u64 \<Rightarrow> u64 \<Rightarrow> exec_data" where
  "new_ExecData_by_value eidx pid rid tid f func_name entry exit =
     (let x = new_ExecData\<lparr>x_id := eidx, x_pid := pid, x_rid := rid, x_tid := tid, m_fid := f,
                m_entry := entry, m_parent := root, m_funcname := func_name\<rparr>
      in if exit \<noteq> - 1 then set_exit exit x else x)"

definition update_exit :: "event_t \<Rightarrow> exec_data \<Rightarrow> (bool \<times> exec_data) res" where
  "update_exit ev x = bind (ev_fid ev) (\<lambda>f.
     if m_fid x \<noteq> f \<or> sint (m_entry x) > sint (ev_ts ev) then Inr (False, x)
     else Inr (True, set_exit (ev_ts ev) x))"

definition update_exclusive :: "u64 \<Rightarrow> exec_data \<Rightarrow> exec_data" where
  "update_exclusive t x = x\<lparr>m_exclusive := m_exclusive x - t\<rparr>"

definition inc_n_children :: "exec_data \<Rightarrow> exec_data" where
  "inc_n_children x = x\<lparr>m_n_children := m_n_children x + 1\<rparr>"

definition in_window :: "u64 \<Rightarrow> exec_data \<Rightarrow> bool" where
  "in_window t x \<longleftrightarrow> \<not> (sint t < sint (m_entry x) \<or> sint t > sint (m_exit x))"

definition add_message :: "comm_data \<Rightarrow> list_end \<Rightarrow> exec_data \<Rightarrow> bool \<times> exec_data" where
  "add_message comm end x =
     (if \<not> in_window (cm_ts comm) x then (False, x)
      else (let c = comm\<lparr>cm_execkey := x_id x\<rparr> in
        (True, x\<lparr>m_messages := (case end of Back \<Rightarrow> m_messages x @ [c] | Front \<Rightarrow> c # m_messages x),
                 m_n_messages := m_n_messages x + 1\<rparr>)))"

definition add_counter :: "counter_data \<Rightarrow> list_end \<Rightarrow> exec_data \<Rightarrow> bool \<times> exec_data" where
  "add_counter counter end x =
     (if \<not> in_window (ct_ts counter) x then (False, x)
      else (let c = counter\<lparr>ct_execkey := x_id x\<rparr> in
        (True, x\<lparr>m_counters := (case end of Back \<Rightarrow> m_counters x @ [c] | Front \<Rightarrow> c # m_counters x)\<rparr>)))"

definition exec_is_same :: "exec_data \<Rightarrow> exec_data \<Rightarrow> bool" where
  "exec_is_same a b \<longleftrightarrow> x_id a = x_id b \<and> m_funcname a = m_funcname b \<and> x_pid a = x_pid b \<and>
     x_tid a = x_tid b \<and> x_rid a = x_rid b \<and> m_fid a = m_fid b \<and> m_entry a = m_entry b \<and>
     m_exit a = m_exit b \<and> m_runtime a = m_runtime b \<and> m_exclusive a = m_exclusive b \<and>
     m_label a = m_label b \<and> m_parent a = m_parent b \<and> m_n_children a = m_n_children b \<and>
     m_n_messages a = m_n_messages b \<and> m_score a = m_score b"

definition can_delete :: "exec_data \<Rightarrow> bool" where
  "can_delete x \<longleftrightarrow> m_references x = 0 \<and> m_label x \<noteq> 0"

definition register_reference :: "exec_data \<Rightarrow> exec_data" where
  "register_reference x = x\<lparr>m_references := m_references x + 1\<rparr>"

definition deregister_reference :: "exec_data \<Rightarrow> exec_data res" where
  "deregister_reference x =
     (if m_references x = 0
      then Inl (Fatal ''Attempting to deregister and event whose external reference count is 0!'')
      else Inr (x\<lparr>m_references := m_references x - 1\<rparr>))"

definition set_GPU_partner :: "eventID \<Rightarrow> exec_data \<Rightarrow> exec_data" where
  "set_GPU_partner eidx x =
     x\<lparr>m_gpu_correlation_id_partner := m_gpu_correlation_id_partner x @ [eidx]\<rparr>"

definition get_GPU_partner :: "nat \<Rightarrow> exec_data \<Rightarrow> eventID res" where
  "get_GPU_partner i x =
     (if i \<ge> length (m_gpu_correlation_id_partner x)
      then Inl (RuntimeError ''ExecData_t::get_GPU_correlationID_partner index out of range'')
      else Inr (m_gpu_correlation_id_partner x ! i))"

end
