(* ===== verification/EventManager.thy ===== *)
theory EventManager
  imports EventData
begin

text \<open>
  The event manager \<open>ADEvent\<close> of \<open>src/modules/performance_analysis/ad/ADEvent.cpp\<close>.
  Its containers hold iterators into \<open>std::list\<close>s of executions, so the executions live in
  an explicit store: an iterator is an address, \<open>store_map\<close> holds the live list elements,
  \<open>next_addr\<close> the next fresh address, and every access through an iterator is \<open>deref\<close>,
  which gives \<open>Dangling\<close> for an erased element. Messages written by \<open>recoverable_error\<close>
  are collected in \<open>rec_log\<close>. The loops that climb from a call to its ancestors have no
  bound in the code; here they carry fuel, one more than the number of elements ever
  allocated, and \<open>NoTermination\<close> is their result when it runs out.
\<close>

type_synonym addr = nat
type_synonym prt = "u64 \<times> u64 \<times> u64"

datatype rec_error =
    ParentMissing eventID
  | EmptyStackError
  | InvalidExit
  | CounterRejected
  | MultipleCorrelationIDs

record adevent =
  m_funcMap :: "(int \<rightharpoonup> string) option"
  m_eventType :: "(int \<rightharpoonup> string) option"
  m_counterMap :: "(int \<rightharpoonup> string) option"
  m_gpu_thread_Map :: "u64 list option"
  m_eidx_func_entry :: int
  m_eidx_func_exit :: int
  m_eidx_comm_send :: int
  m_eidx_comm_recv :: int
  m_cidx_corr_id :: int
  m_commStack :: "(prt \<times> comm_data list) list"
  m_counterStack :: "(prt \<times> counter_data list) list"
  m_callStack :: "(prt \<times> addr list) list"
  m_callList :: "(prt \<times> addr list) list"
  m_execDataMap :: "(u64 \<times> addr list) list"
  m_callIDMap :: "eventID \<rightharpoonup> addr"
  m_unmatchedCorrelationID :: "u64 \<rightharpoonup> addr"
  m_ignoreCorrelationID :: "string set"
  m_stackLockedUnlabeled :: "eventID set"
  store_map :: "addr \<rightharpoonup> exec_data"
  next_addr :: addr
  rec_log :: "rec_error list"

definition new_ADEvent :: adevent where
  "new_ADEvent = \<lparr>m_funcMap = None, m_eventType = None, m_counterMap = None,
     m_gpu_thread_Map = None, m_eidx_func_entry = - 1, m_eidx_func_exit = - 1,
     m_eidx_comm_send = - 1, m_eidx_comm_recv = - 1, m_cidx_corr_id = - 1,
     m_commStack = [], m_counterStack = [], m_callStack = [], m_callList = [],
     m_execDataMap = [], m_callIDMap = Map.empty, m_unmatchedCorrelationID = Map.empty,
     m_ignoreCorrelationID = {}, m_stackLockedUnlabeled = {}, store_map = Map.empty,
     next_addr = 0, rec_log = []\<rparr>"

definition linkEventType :: "(int \<rightharpoonup> string) \<Rightarrow> adevent \<Rightarrow> adevent" where
  "linkEventType m s = s\<lparr>m_eventType := Some m\<rparr>"
definition linkFuncMap :: "(int \<rightharpoonup> string) \<Rightarrow> adevent \<Rightarrow> adevent" where
  "linkFuncMap m s = s\<lparr>m_funcMap := Some m\<rparr>"
definition linkCounterMap :: "(int \<rightharpoonup> string) \<Rightarrow> adevent \<Rightarrow> adevent" where
  "linkCounterMap m s = s\<lparr>m_counterMap := Some m\<rparr>"
definition linkGPUthreadMap :: "u64 list \<Rightarrow> adevent \<Rightarrow> adevent" where
  "linkGPUthreadMap m s = s\<lparr>m_gpu_thread_Map := Some m\<rparr>"
definition ignoreCorrelationIDsForFunction :: "string \<Rightarrow> adevent \<Rightarrow> adevent" where
  "ignoreCorrelationIDsForFunction f s =
     s\<lparr>m_ignoreCorrelationID := insert f (m_ignoreCorrelationID s)\<rparr>"

subsection \<open>The store\<close>

definition deref :: "adevent \<Rightarrow> addr \<Rightarrow> exec_data res" where
  "deref s a = (case store_map s a of None \<Rightarrow> Inl (Dangling a) | Some x \<Rightarrow> Inr x)"

definition put :: "addr \<Rightarrow> exec_data \<Rightarrow> adevent \<Rightarrow> adevent" where
  "put a x s = s\<lparr>store_map := (store_map s)(a \<mapsto> x)\<rparr>"

definition modify :: "addr \<Rightarrow> (exec_data \<Rightarrow> exec_data res) \<Rightarrow> adevent \<Rightarrow> adevent res" where
  "modify a f s = bind (deref s a) (\<lambda>x. bind (f x) (\<lambda>y. Inr (put a y s)))"

definition alloc :: "exec_data \<Rightarrow> adevent \<Rightarrow> addr \<times> adevent" where
  "alloc x s = (next_addr s, (put (next_addr s) x s)\<lparr>next_addr := Suc (next_addr s)\<rparr>)"

definition log_error :: "rec_error \<Rightarrow> adevent \<Rightarrow> adevent" where
  "log_error e s = s\<lparr>rec_log := rec_log s @ [e]\<rparr>"

text \<open>\<open>cl.erase(it)\<close> together with \<open>m_callIDMap.erase(it->get_id())\<close>.\<close>

definition erase_call :: "addr \<Rightarrow> eventID \<Rightarrow> adevent \<Rightarrow> adevent" where
  "erase_call a i s = s\<lparr>m_callIDMap := (m_callIDMap s)(i := None),
     store_map := (store_map s)(a := None)\<rparr>"

definition getCallData :: "eventID \<Rightarrow> adevent \<Rightarrow> addr res" where
  "getCallData i s = (case m_callIDMap s i of
     None \<Rightarrow> Inl (RuntimeError ''Call not present in map'') | Some a \<Rightarrow> Inr a)"

subsection \<open>Locking a call and its ancestors\<close>

definition on_gpu_thread :: "adevent \<Rightarrow> exec_data \<Rightarrow> bool" where
  "on_gpu_thread s x =
     (case m_gpu_thread_Map s of None \<Rightarrow> False | Some tids \<Rightarrow> x_tid x \<in> set tids)"

fun climb :: "nat \<Rightarrow> (exec_data \<Rightarrow> exec_data res) \<Rightarrow> eventID \<Rightarrow> adevent \<Rightarrow> adevent res" where
  "climb n f parent s =
    (if parent = root then Inr s
     else (case n of 0 \<Rightarrow> Inl NoTermination | Suc m \<Rightarrow>
       (case getCallData parent s of
          Inl _ \<Rightarrow> Inr (log_error (ParentMissing parent) s)
        | Inr pit \<Rightarrow> bind (modify pit f s) (\<lambda>s1. bind (deref s1 pit) (\<lambda>x. climb m f (m_parent x) s1)))))"

declare climb.simps [simp del]

definition lock_lines :: "adevent \<Rightarrow> exec_data \<Rightarrow> eventID list" where
  "lock_lines s x = m_parent x #
     (if on_gpu_thread s x \<and> length (m_gpu_correlation_id_partner x) = 1
      then [m_gpu_correlation_id_partner x ! 0] else [])"

definition stackProtectGC :: "addr \<Rightarrow> adevent \<Rightarrow> adevent res" where
  "stackProtectGC it s =
     bind (modify it (\<lambda>x. Inr (register_reference x)) s) (\<lambda>s1.
     bind (deref s1 it) (\<lambda>x.
     foldE (climb (Suc (next_addr s1)) (\<lambda>x. Inr (register_reference x))) (lock_lines s1 x) s1))"

definition stackUnProtectGC :: "addr \<Rightarrow> adevent \<Rightarrow> adevent res" where
  "stackUnProtectGC it s =
     bind (modify it deregister_reference s) (\<lambda>s1.
     bind (deref s1 it) (\<lambda>x.
     foldE (climb (Suc (next_addr s1)) deregister_reference) (lock_lines s1 x) s1))"

subsection \<open>Correlation identifiers\<close>

definition is_correlation_counter :: "adevent \<Rightarrow> counter_data \<Rightarrow> bool" where
  "is_correlation_counter s c \<longleftrightarrow>
     (m_cidx_corr_id s \<noteq> - 1 \<and> m_cid c = word_of_int (m_cidx_corr_id s)) \<or>
     (m_cidx_corr_id s = - 1 \<and> m_countername c = ''Correlation ID'')"

definition match_counter :: "addr \<Rightarrow> counter_data \<Rightarrow> nat \<times> adevent \<Rightarrow> (nat \<times> adevent) res" where
  "match_counter it c = (\<lambda>(n_cid, s).
    if is_correlation_counter s c then
      let s0 = s\<lparr>m_cidx_corr_id := to_i32 (m_cid c)\<rparr>; cid = m_value c in
      bind (deref s0 it) (\<lambda>x.
      (case m_unmatchedCorrelationID s0 cid of
        Some m \<Rightarrow>
          bind (deref s0 m) (\<lambda>px.
          bind (guard (Fatal ''Correlation ID partner event is not in the call list!'')
                 (m_callIDMap s0 (x_id px) \<noteq> None)) (\<lambda>_.
          bind (modify it (\<lambda>y. Inr (set_GPU_partner (x_id px) y)) s0) (\<lambda>s1.
          bind (modify m (\<lambda>y. Inr (set_GPU_partner (x_id x) y)) s1) (\<lambda>s2.
          bind (stackUnProtectGC m s2) (\<lambda>s3.
          Inr (Suc n_cid,
            s3\<lparr>m_unmatchedCorrelationID := (m_unmatchedCorrelationID s3)(cid := None)\<rparr>))))))
      | None \<Rightarrow>
          bind (stackProtectGC it s0) (\<lambda>s1.
          Inr (Suc n_cid,
            s1\<lparr>m_unmatchedCorrelationID := (m_unmatchedCorrelationID s1)(cid \<mapsto> it)\<rparr>))))
    else Inr (n_cid, s))"

definition checkAndMatchCorrelationID :: "addr \<Rightarrow> adevent \<Rightarrow> adevent res" where
  "checkAndMatchCorrelationID it s =
    bind (deref s it) (\<lambda>x.
    if m_funcname x \<in> m_ignoreCorrelationID s then Inr s
    else bind (foldE (match_counter it) (m_counters x) (0, s)) (\<lambda>(n_cid, s1).
         bind (deref s1 it) (\<lambda>x1.
         Inr (if n_cid > 1 \<and> on_gpu_thread s1 x1 then log_error MultipleCorrelationIDs s1 else s1))))"

definition prt_of :: "event_t \<Rightarrow> prt" where
  "prt_of ev = (ev_pid ev, ev_rid ev, ev_tid ev)"

definition push_call :: "prt \<Rightarrow> addr \<Rightarrow> adevent \<Rightarrow> adevent" where
  "push_call k a s = s\<lparr>m_callList := AList.update k (al_get [] (m_callList s) k @ [a]) (m_callList s)\<rparr>"

definition push_exec :: "u64 \<Rightarrow> addr \<Rightarrow> adevent \<Rightarrow> adevent" where
  "push_exec f a s =
     s\<lparr>m_execDataMap := AList.update f (al_get [] (m_execDataMap s) f @ [a]) (m_execDataMap s)\<rparr>"

definition addCall :: "exec_data \<Rightarrow> adevent \<Rightarrow> (addr \<times> adevent) res" where
  "addCall exec s =
    (let (it, s1) = alloc exec s;
         s2 = push_call (x_pid exec, x_rid exec, x_tid exec) it s1;
         s3 = push_exec (m_fid exec) it s2;
         s4 = s3\<lparr>m_callIDMap := (m_callIDMap s3)(x_id exec \<mapsto> it)\<rparr>
     in bind (checkAndMatchCorrelationID it s4) (\<lambda>s5. Inr (it, s5)))"

subsection \<open>Function events\<close>

text \<open>
  Which kind of event an event type index is: the indices of \<open>ENTRY\<close> and \<open>EXIT\<close> are cached
  on first sight. \<open>None\<close> is the early return for an index that is not in the type map.
\<close>

definition func_kind :: "int \<Rightarrow> (int \<rightharpoonup> string) \<Rightarrow> adevent \<Rightarrow> (bool \<times> bool \<times> adevent) option" where
  "func_kind e types s =
    (if e = m_eidx_func_entry s then Some (True, False, s)
     else if e = m_eidx_func_exit s then Some (False, True, s)
     else (case types e of
        None \<Rightarrow> None
      | Some name \<Rightarrow>
          if m_eidx_func_entry s = - 1 \<and> name = ''ENTRY'' then Some (True, False, s\<lparr>m_eidx_func_entry := e\<rparr>)
          else if m_eidx_func_exit s = - 1 \<and> name = ''EXIT'' then Some (False, True, s\<lparr>m_eidx_func_exit := e\<rparr>)
          else Some (False, False, s)))"

definition func_entry :: "string \<Rightarrow> event_t \<Rightarrow> adevent \<Rightarrow> (event_error \<times> adevent) res" where
  "func_entry func_name ev s =
    bind (new_ExecData_event ev) (\<lambda>x.
    let k = prt_of ev;
        (it, s1) = alloc x s;
        s2 = push_call k it s1;
        cs = al_get [] (m_callStack s2) k in
    bind (case cs of [] \<Rightarrow> Inr s2
          | parent # _ \<Rightarrow> bind (deref s2 parent) (\<lambda>t.
              bind (modify it (\<lambda>y. Inr (y\<lparr>m_parent := x_id t\<rparr>)) s2)
                   (modify parent (\<lambda>y. Inr (inc_n_children y))))) (\<lambda>s3.
    bind (modify it (\<lambda>y. Inr (y\<lparr>m_funcname := func_name\<rparr>)) s3) (\<lambda>s4.
    let s5 = s4\<lparr>m_callStack := AList.update k (it # cs) (m_callStack s4)\<rparr> in
    bind (deref s5 it) (\<lambda>y. Inr (OK, s5\<lparr>m_callIDMap := (m_callIDMap s5)(x_id y \<mapsto> it)\<rparr>)))))"

text \<open>
  The flush of the two event stacks of the thread on function exit. A stack is a list with
  its top first. Elements older than the function's entry stay (an unsigned comparison),
  those newer than the exit are put aside and pushed back afterwards, the others are handed
  to the call, which checks the window again with signed comparisons.
\<close>

fun flush_comm :: "u64 \<Rightarrow> exec_data \<Rightarrow> comm_data list \<Rightarrow> comm_data list
    \<Rightarrow> exec_data \<times> comm_data list \<times> comm_data list" where
  "flush_comm exit_ts x [] reinsert = (x, [], reinsert)"
| "flush_comm exit_ts x (c # stack) reinsert =
    (if cm_ts c < m_entry x then (x, c # stack, reinsert)
     else if cm_ts c > exit_ts then flush_comm exit_ts x stack (reinsert @ [c])
     else flush_comm exit_ts (snd (add_message c Front x)) stack reinsert)"

fun flush_counter :: "u64 \<Rightarrow> exec_data \<Rightarrow> counter_data list \<Rightarrow> counter_data list \<Rightarrow> nat
    \<Rightarrow> exec_data \<times> counter_data list \<times> counter_data list \<times> nat" where
  "flush_counter exit_ts x [] reinsert rejected = (x, [], reinsert, rejected)"
| "flush_counter exit_ts x (c # stack) reinsert rejected =
    (if ct_ts c < m_entry x then (x, c # stack, reinsert, rejected)
     else if ct_ts c > exit_ts then flush_counter exit_ts x stack (reinsert @ [c]) rejected
     else (let (accept, x') = add_counter c Front x in
       flush_counter exit_ts x' stack reinsert (if accept then rejected else Suc rejected)))"

definition push_back_all :: "'a list \<Rightarrow> 'a list \<Rightarrow> 'a list" where
  "push_back_all reinsert stack = foldl (\<lambda>st c. c # st) stack (rev reinsert)"

definition notify_parent :: "addr \<Rightarrow> addr list \<Rightarrow> adevent \<Rightarrow> adevent res" where
  "notify_parent it cs s = (case cs of [] \<Rightarrow> Inr s
     | parent # _ \<Rightarrow> bind (deref s it) (\<lambda>x. modify parent (\<lambda>y. Inr (update_exclusive (m_runtime x) y)) s))"

definition take_events :: "event_t \<Rightarrow> addr \<Rightarrow> adevent \<Rightarrow> adevent res" where
  "take_events ev it s = bind (deref s it) (\<lambda>x.
     let k = prt_of ev;
         (x', comm, reinsert) = flush_comm (ev_ts ev) x (al_get [] (m_commStack s) k) [];
         (x'', count, reinsert', rejected) =
           flush_counter (ev_ts ev) x' (al_get [] (m_counterStack s) k) [] 0
     in Inr ((put it x'' s)\<lparr>
          m_commStack := AList.update k (push_back_all reinsert comm) (m_commStack s),
          m_counterStack := AList.update k (push_back_all reinsert' count) (m_counterStack s),
          rec_log := rec_log s @ replicate rejected CounterRejected\<rparr>))"

definition func_exit :: "event_t \<Rightarrow> adevent \<Rightarrow> (event_error \<times> adevent) res" where
  "func_exit ev s =
    (let k = prt_of ev; cs = al_get [] (m_callStack s) k;
         s0 = s\<lparr>m_callStack := AList.update k cs (m_callStack s)\<rparr> in
    case cs of
      [] \<Rightarrow> Inr (EmptyCallStack, log_error EmptyStackError s0)
    | it # rest \<Rightarrow>
      bind (deref s0 it) (\<lambda>x0.
      bind (update_exit ev x0) (\<lambda>(ok, x1).
      if \<not> ok then Inr (CallStackViolation, log_error InvalidExit s0)
      else
       let s1 = put it x1 s0;
           s2 = s1\<lparr>m_callStack := AList.update k rest (m_callStack s1)\<rparr> in
       bind (notify_parent it rest s2) (\<lambda>s3.
       bind (take_events ev it s3) (\<lambda>s4.
       bind (ev_fid ev) (\<lambda>f.
       bind (checkAndMatchCorrelationID it (push_exec f it s4)) (\<lambda>s5. Inr (OK, s5))))))))"

definition addFunc :: "event_t \<Rightarrow> adevent \<Rightarrow> (event_error \<times> adevent) res" where
  "addFunc ev s =
    (case m_eventType s of None \<Rightarrow> Inr (UnknownEvent, s) | Some types \<Rightarrow>
     bind (ev_eid ev) (\<lambda>e.
     case func_kind (to_i32 e) types s of None \<Rightarrow> Inr (UnknownEvent, s)
     | Some (is_entry, is_exit, s1) \<Rightarrow>
       (case m_funcMap s1 of None \<Rightarrow> Inr (UnknownEvent, s1) | Some funcs \<Rightarrow>
        bind (ev_fid ev) (\<lambda>f.
        case funcs (to_i32 f) of None \<Rightarrow> Inr (UnknownFunc, s1)
        | Some func_name \<Rightarrow>
            if is_entry then func_entry func_name ev s1
            else if is_exit then func_exit ev s1
            else Inr (UnknownEvent, s1)))))"

subsection \<open>Communication and counter events\<close>

definition comm_kind :: "int \<Rightarrow> (int \<rightharpoonup> string) \<Rightarrow> adevent \<Rightarrow> (bool \<times> bool \<times> adevent) option" where
  "comm_kind e types s =
    (if e = m_eidx_comm_send s then Some (True, False, s)
     else if e = m_eidx_comm_recv s then Some (False, True, s)
     else (case types e of
        None \<Rightarrow> None
      | Some name \<Rightarrow>
          if m_eidx_comm_send s = - 1 \<and> name = ''SEND'' then Some (True, False, s\<lparr>m_eidx_comm_send := e\<rparr>)
          else if m_eidx_comm_recv s = - 1 \<and> name = ''RECV'' then Some (False, True, s\<lparr>m_eidx_comm_recv := e\<rparr>)
          else Some (False, False, s)))"

definition addComm :: "event_t \<Rightarrow> adevent \<Rightarrow> (event_error \<times> adevent) res" where
  "addComm ev s =
    (case m_eventType s of None \<Rightarrow> Inr (UnknownEvent, s) | Some types \<Rightarrow>
     bind (ev_eid ev) (\<lambda>e.
     case comm_kind (to_i32 e) types s of None \<Rightarrow> Inr (UnknownEvent, s)
     | Some (is_send, is_recv, s1) \<Rightarrow>
       if is_send \<or> is_recv then
         bind (new_CommData 0 ev (if is_send then ''SEND'' else ''RECV'')) (\<lambda>c.
         Inr (OK, s1\<lparr>m_commStack :=
           AList.update (prt_of ev) (c # al_get [] (m_commStack s1) (prt_of ev)) (m_commStack s1)\<rparr>))
       else Inr (UnknownEvent, s1)))"

definition addCounter :: "event_t \<Rightarrow> adevent \<Rightarrow> (event_error \<times> adevent) res" where
  "addCounter ev s =
    (case m_counterMap s of None \<Rightarrow> Inr (UnknownEvent, s) | Some names \<Rightarrow>
     bind (ev_counter_id ev) (\<lambda>cid.
     case names (to_i32 cid) of None \<Rightarrow> Inr (UnknownEvent, s)
     | Some counterName \<Rightarrow>
         bind (new_CounterData ev counterName) (\<lambda>c.
         Inr (OK, s\<lparr>m_counterStack :=
           AList.update (prt_of ev) (c # al_get [] (m_counterStack s) (prt_of ev)) (m_counterStack s)\<rparr>))))"

definition addEvent :: "event_t \<Rightarrow> adevent \<Rightarrow> (event_error \<times> adevent) res" where
  "addEvent ev s = (case m_t ev of
      FUNC \<Rightarrow> addFunc ev s
    | COMM \<Rightarrow> addComm ev s
    | COUNT \<Rightarrow> addCounter ev s
    | UnknownType \<Rightarrow> Inr (UnknownEvent, s))"

definition clear :: "adevent \<Rightarrow> adevent" where
  "clear s = s\<lparr>m_eidx_func_entry := - 1, m_eidx_func_exit := - 1, m_eidx_comm_send := - 1,
     m_eidx_comm_recv := - 1, m_commStack := [], m_counterStack := [], m_callStack := [],
     m_callList := [], m_execDataMap := [], m_callIDMap := Map.empty,
     m_unmatchedCorrelationID := Map.empty, store_map := Map.empty\<rparr>"

subsection \<open>Removing completed calls\<close>

definition keep_all :: "int \<Rightarrow> addr list \<Rightarrow> bool" where
  "keep_all n_keep_thread cl \<longleftrightarrow> n_keep_thread < 0 \<or> nat n_keep_thread \<ge> length cl"

fun clear_list :: "adevent \<Rightarrow> addr list \<Rightarrow> addr list res" where
  "clear_list s [] = Inr []"
| "clear_list s (a # as) = bind (deref s a) (\<lambda>x. bind (clear_list s as) (\<lambda>keep.
     Inr (if m_label x = 0 then a # keep else keep)))"

definition clearUnlabeled :: "adevent \<Rightarrow> adevent res" where
  "clearUnlabeled s = foldE (\<lambda>(f, as) t. bind (clear_list s as) (\<lambda>keep.
     Inr (t\<lparr>m_execDataMap := AList.update f keep (m_execDataMap t)\<rparr>))) (m_execDataMap s) s"

definition trim_step :: "addr \<Rightarrow> exec_data list \<times> addr list \<times> adevent
    \<Rightarrow> (exec_data list \<times> addr list \<times> adevent) res" where
  "trim_step a = (\<lambda>(cpList, cl, s). bind (deref s a) (\<lambda>x.
     if can_delete x \<and> m_exit x \<noteq> 0 then Inr (cpList @ [x], cl, erase_call a (x_id x) s)
     else Inr (cpList, cl @ [a], s)))"

definition trim_thread :: "int \<Rightarrow> prt \<times> addr list \<Rightarrow> (prt \<times> exec_data list) list \<times> adevent
    \<Rightarrow> ((prt \<times> exec_data list) list \<times> adevent) res" where
  "trim_thread n_keep_thread = (\<lambda>(k, cl) (cpListMap, s).
     if keep_all n_keep_thread cl then Inr (cpListMap, s)
     else (let n = length cl - nat n_keep_thread in
       bind (foldE trim_step (take n cl) ([], [], s)) (\<lambda>(cpList, kept, s1).
       Inr (if cpList = [] then cpListMap else AList.update k cpList cpListMap,
            s1\<lparr>m_callList := AList.update k (kept @ drop n cl) (m_callList s1)\<rparr>))))"

definition trim_lists :: "int \<Rightarrow> adevent \<Rightarrow> ((prt \<times> exec_data list) list \<times> adevent) res" where
  "trim_lists n_keep_thread s = foldE (trim_thread n_keep_thread) (m_callList s) ([], s)"

definition trimCallList :: "int \<Rightarrow> adevent \<Rightarrow> ((prt \<times> exec_data list) list \<times> adevent) res" where
  "trimCallList n_keep_thread s = bind (trim_lists n_keep_thread s) (\<lambda>(cpListMap, s1).
     bind (clearUnlabeled s1) (\<lambda>s2. Inr (cpListMap, s2)))"

record purge_report =
  n_purged :: nat
  n_kept_protected :: nat
  n_kept_incomplete :: nat
  n_kept_window :: nat
  n_kept_unlabeled :: nat

definition empty_report :: purge_report where
  "empty_report = \<lparr>n_purged = 0, n_kept_protected = 0, n_kept_incomplete = 0,
     n_kept_window = 0, n_kept_unlabeled = 0\<rparr>"

text \<open>A call that was locked because it had no label is unlocked once it has one.\<close>

definition unlock_labeled :: "addr \<Rightarrow> adevent \<Rightarrow> adevent res" where
  "unlock_labeled it s = bind (deref s it) (\<lambda>x.
     if m_label x \<noteq> 0 \<and> x_id x \<in> m_stackLockedUnlabeled s then
       bind (stackUnProtectGC it s) (\<lambda>s1.
       Inr (s1\<lparr>m_stackLockedUnlabeled := m_stackLockedUnlabeled s1 - {x_id x}\<rparr>))
     else Inr s)"

definition purge_step :: "addr \<Rightarrow> purge_report \<times> addr list \<times> adevent
    \<Rightarrow> (purge_report \<times> addr list \<times> adevent) res" where
  "purge_step it = (\<lambda>(rep, cl, s).
     bind (unlock_labeled it s) (\<lambda>s1.
     bind (deref s1 it) (\<lambda>x.
     if can_delete x \<and> m_exit x \<noteq> 0 then
       Inr (rep\<lparr>n_purged := Suc (n_purged rep)\<rparr>, cl, erase_call it (x_id x) s1)
     else if m_exit x = 0 then
       Inr (rep\<lparr>n_kept_incomplete := Suc (n_kept_incomplete rep)\<rparr>, cl @ [it], s1)
     else if \<not> can_delete x then
       (if m_label x = 0 \<and> x_id x \<notin> m_stackLockedUnlabeled s1 then
          bind (stackProtectGC it s1) (\<lambda>s2.
          Inr (rep\<lparr>n_kept_unlabeled := Suc (n_kept_unlabeled rep)\<rparr>, cl @ [it],
               s2\<lparr>m_stackLockedUnlabeled := insert (x_id x) (m_stackLockedUnlabeled s2)\<rparr>))
        else Inr (rep\<lparr>n_kept_protected := Suc (n_kept_protected rep)\<rparr>, cl @ [it], s1))
     else Inr (rep, cl @ [it], s1))))"

definition purge_thread :: "int \<Rightarrow> prt \<times> addr list \<Rightarrow> purge_report \<times> adevent
    \<Rightarrow> (purge_report \<times> adevent) res" where
  "purge_thread n_keep_thread = (\<lambda>(k, cl) (rep, s).
     if keep_all n_keep_thread cl then Inr (rep\<lparr>n_kept_window := n_kept_window rep + length cl\<rparr>, s)
     else (let n = length cl - nat n_keep_thread;
               rep1 = rep\<lparr>n_kept_window := n_kept_window rep + nat n_keep_thread\<rparr> in
       bind (foldE purge_step (take n cl) (rep1, [], s)) (\<lambda>(rep2, kept, s1).
       Inr (rep2, s1\<lparr>m_callList := AList.update k (kept @ drop n cl) (m_callList s1)\<rparr>))))"

definition purge_lists :: "int \<Rightarrow> adevent \<Rightarrow> (purge_report \<times> adevent) res" where
  "purge_lists n_keep_thread s = foldE (purge_thread n_keep_thread) (m_callList s) (empty_report, s)"

definition purgeCallList :: "int \<Rightarrow> adevent \<Rightarrow> (purge_report \<times> adevent) res" where
  "purgeCallList n_keep_thread s = bind (purge_lists n_keep_thread s) (\<lambda>(rep, s1).
     bind (clearUnlabeled s1) (\<lambda>s2. Inr (rep, s2)))"

subsection \<open>Queries\<close>

definition getCallListSize :: "adevent \<Rightarrow> nat" where
  "getCallListSize s = foldl (\<lambda>out (k, cl). out + length cl) 0 (m_callList s)"

fun position :: "addr \<Rightarrow> addr list \<Rightarrow> nat" where
  "position a [] = 0"
| "position a (b # bs) = (if a = b then 0 else Suc (position a bs))"

text \<open>
  The window around an event as positions in the thread's call list, start inclusive and
  end exclusive. The loop counters are unsigned, so the window size is read modulo
  \<open>2 ^ 32\<close>.
\<close>

definition getCallWindowStartEnd :: "eventID \<Rightarrow> int \<Rightarrow> adevent \<Rightarrow> (nat \<times> nat) res" where
  "getCallWindowStartEnd event_id win_size s =
    bind (getCallData event_id s) (\<lambda>it.
    bind (deref s it) (\<lambda>x.
    case map_of (m_callList s) (x_pid x, x_rid x, x_tid x) of
      None \<Rightarrow> Inl (RuntimeError ''ADEvent::getCallWindowStartEnd event has unknown pid/rid/tid'')
    | Some cl \<Rightarrow>
        let i = position it cl in
        Inr (i - nat (win_size mod 2 ^ 32), min (length cl) (i + nat ((win_size + 1) mod 2 ^ 32)))))"

fun call_stack_from :: "nat \<Rightarrow> eventID \<Rightarrow> adevent \<Rightarrow> (addr list \<times> rec_error list) res" where
  "call_stack_from n event s =
    (if event = root then Inr ([], [])
     else (case n of 0 \<Rightarrow> Inl NoTermination | Suc m \<Rightarrow>
       (case getCallData event s of
          Inl _ \<Rightarrow> Inr ([], [ParentMissing event])
        | Inr it \<Rightarrow> bind (deref s it) (\<lambda>x.
            bind (call_stack_from m (m_parent x) s) (\<lambda>(out, errs). Inr (it # out, errs))))))"

declare call_stack_from.simps [simp del]

definition getCallStack :: "eventID \<Rightarrow> adevent \<Rightarrow> (addr list \<times> rec_error list) res" where
  "getCallStack event_id s = call_stack_from (Suc (next_addr s)) event_id s"

end
