(* ===== verification/LockGraph.thy ===== *)
theory LockGraph
  imports EventData
begin

text \<open>
  The reference-counting discipline of the event manager, on the part of its state that
  matters for it: which calls are live and what identifier, parent and reference count each
  has (\<open>skel\<close>), the identifier map, and the two families of tokens that lock calls, the
  unmatched correlation identifiers and the calls locked because they have no label. The
  lemmas say how each elementary change of that state keeps \<open>ginv\<close>: the count of a call
  is the number of tokens whose line of ancestors goes through it.
\<close>

type_synonym address = nat
type_synonym skel = "address \<rightharpoonup> eventID \<times> eventID \<times> nat"
type_synonym idmap = "eventID \<rightharpoonup> address"
type_synonym tokens = "u64 \<rightharpoonup> address"

definition up :: "skel \<Rightarrow> idmap \<Rightarrow> (address \<times> address) set" where
  "up K M = {(b, c). \<exists>i p r. K b = Some (i, p, r) \<and> p \<noteq> root \<and> M p = Some c}"

definition line :: "skel \<Rightarrow> idmap \<Rightarrow> address \<Rightarrow> address set" where
  "line K M a = (up K M)\<^sup>* `` {a}"

definition line_of :: "skel \<Rightarrow> idmap \<Rightarrow> eventID \<Rightarrow> address set" where
  "line_of K M p = (if p = root then {} else case M p of None \<Rightarrow> {} | Some c \<Rightarrow> line K M c)"

definition prot :: "skel \<Rightarrow> idmap \<Rightarrow> tokens \<Rightarrow> eventID set \<Rightarrow> address \<Rightarrow> nat" where
  "prot K M U L a = card {c. \<exists>m. U c = Some m \<and> a \<in> line K M m}
     + card {i \<in> L. \<exists>m. M i = Some m \<and> a \<in> line K M m}"

definition ginv :: "skel \<Rightarrow> idmap \<Rightarrow> nat \<Rightarrow> tokens \<Rightarrow> eventID set \<Rightarrow> bool" where
  "ginv K M n U L \<longleftrightarrow>
     (\<forall>a i p r. K a = Some (i, p, r) \<longrightarrow>
        a < n \<and> i \<noteq> root \<and> M i = Some a \<and> (\<forall>c. p \<noteq> root \<longrightarrow> M p = Some c \<longrightarrow> c < a) \<and>
        r = prot K M U L a) \<and>
     (\<forall>i a. M i = Some a \<longrightarrow> (\<exists>p r. K a = Some (i, p, r))) \<and>
     (\<forall>c m. U c = Some m \<longrightarrow> K m \<noteq> None) \<and> finite (dom U) \<and> finite L \<and> L \<subseteq> dom M"

definition bump :: "(nat \<Rightarrow> nat) \<Rightarrow> address set \<Rightarrow> skel \<Rightarrow> skel" where
  "bump g R K a = (if a \<in> R then map_option (\<lambda>(i, p, r). (i, p, g r)) (K a) else K a)"

lemma ginv_node:
  assumes "ginv K M n U L" "K a = Some (i, p, r)"
  shows "a < n" "i \<noteq> root" "M i = Some a" "r = prot K M U L a"
    and "p \<noteq> root \<Longrightarrow> M p = Some c \<Longrightarrow> c < a"
  using assms unfolding ginv_def by blast+

lemma ginv_id: "ginv K M n U L \<Longrightarrow> M i = Some a \<Longrightarrow> \<exists>p r. K a = Some (i, p, r)"
  by (auto simp: ginv_def)

lemma ginv_token: "ginv K M n U L \<Longrightarrow> U c = Some m \<Longrightarrow> \<exists>x. K m = Some x"
  by (auto simp: ginv_def)

lemma ginv_parts: "ginv K M n U L \<Longrightarrow> finite (dom U) \<and> finite L \<and> L \<subseteq> dom M"
  by (simp add: ginv_def)

lemma up_step: "K a = Some (i, p, r) \<Longrightarrow> (a, c) \<in> up K M \<longleftrightarrow> p \<noteq> root \<and> M p = Some c"
  by (auto simp: up_def)

lemma line_self [simp]: "a \<in> line K M a"
  by (simp add: line_def)

lemma line_unfold: "K a = Some (i, p, r) \<Longrightarrow> line K M a = insert a (line_of K M p)"
proof -
  assume K: "K a = Some (i, p, r)"
  have "b \<in> line K M a \<longleftrightarrow> b = a \<or> (\<exists>c. (a, c) \<in> up K M \<and> b \<in> line K M c)" for b
    unfolding line_def by (auto elim: converse_rtranclE intro: converse_rtrancl_into_rtrancl)
  then show ?thesis using K
    by (auto simp: line_of_def up_step split: option.splits)
qed

text \<open>What climbing needs: identifiers lead to live calls and parents are older.\<close>

definition gstruct :: "skel \<Rightarrow> idmap \<Rightarrow> bool" where
  "gstruct K M \<longleftrightarrow>
     (\<forall>a i p r c. K a = Some (i, p, r) \<longrightarrow> p \<noteq> root \<longrightarrow> M p = Some c \<longrightarrow> c < a) \<and>
     (\<forall>i a. M i = Some a \<longrightarrow> (\<exists>p r. K a = Some (i, p, r)))"

lemma ginv_struct: "ginv K M n U L \<Longrightarrow> gstruct K M"
  unfolding ginv_def gstruct_def by blast

lemma gstruct_parent:
  "gstruct K M \<Longrightarrow> K a = Some (i, p, r) \<Longrightarrow> p \<noteq> root \<Longrightarrow> M p = Some c \<Longrightarrow> c < a"
  unfolding gstruct_def by blast

lemma gstruct_id: "gstruct K M \<Longrightarrow> M i = Some a \<Longrightarrow> \<exists>p r. K a = Some (i, p, r)"
  unfolding gstruct_def by blast

lemma up_down: "gstruct K M \<Longrightarrow> (a, b) \<in> up K M \<Longrightarrow> b < a"
  by (auto simp: up_def dest: gstruct_parent)

lemma line_below: "gstruct K M \<Longrightarrow> b \<in> line K M a \<Longrightarrow> b \<le> a"
proof -
  assume g: "gstruct K M" and "b \<in> line K M a"
  then have "(a, b) \<in> (up K M)\<^sup>*" by (simp add: line_def)
  then show "b \<le> a"
  proof induction
    case (step b c)
    then show ?case using up_down [OF g, of b c] by simp
  qed simp
qed

lemma line_of_below:
  assumes "gstruct K M" "K a = Some (i, p, r)" "b \<in> line_of K M p"
  shows "b < a"
proof -
  obtain c where "p \<noteq> root" "M p = Some c" "b \<in> line K M c"
    using assms(3) by (auto simp: line_of_def split: if_splits option.splits)
  then show ?thesis
    using gstruct_parent [OF assms(1,2), of c] line_below [OF assms(1), of b c] by simp
qed

lemma line_live: "ginv K M n U L \<Longrightarrow> K a \<noteq> None \<Longrightarrow> b \<in> line K M a \<Longrightarrow> K b \<noteq> None"
proof -
  assume g: "ginv K M n U L" and a: "K a \<noteq> None" and "b \<in> line K M a"
  then have "(a, b) \<in> (up K M)\<^sup>*" by (simp add: line_def)
  then show "K b \<noteq> None"
    by induction (use a ginv_id [OF g] in \<open>fastforce simp: up_def\<close>)+
qed

subsection \<open>Changing reference counts only\<close>

lemma up_bump [simp]: "up (bump g R K) M = up K M"
  by (force simp: up_def bump_def split: if_splits)

lemma line_bump [simp]: "line (bump g R K) M = line K M"
  by (simp add: line_def fun_eq_iff)

lemma line_of_bump [simp]: "line_of (bump g R K) M p = line_of K M p"
  by (simp add: line_of_def split: option.split)

lemma prot_bump [simp]: "prot (bump g R K) M U L a = prot K M U L a"
  by (simp add: prot_def)

lemma bump_Some:
  "bump g R K a = Some (i, p, r) \<longleftrightarrow> (\<exists>r0. K a = Some (i, p, r0) \<and> r = (if a \<in> R then g r0 else r0))"
  by (auto simp: bump_def)

lemma bump_None [simp]: "bump g R K a = None \<longleftrightarrow> K a = None"
  by (simp add: bump_def)

lemma bump_insert: "a \<notin> R \<Longrightarrow> bump g R (bump g {a} K) = bump g (insert a R) K"
  by (auto simp: bump_def fun_eq_iff)

lemma bump_empty [simp]: "bump g {} K = K"
  by (simp add: bump_def fun_eq_iff)

lemma gstruct_bump [simp]: "gstruct (bump g R K) M \<longleftrightarrow> gstruct K M"
  unfolding gstruct_def by (auto simp: bump_Some)

lemma ginv_bump:
  assumes g: "ginv K M n U L"
    and tok: "\<And>c m. U' c = Some m \<Longrightarrow> K m \<noteq> None" "finite (dom U')" "finite L'" "L' \<subseteq> dom M"
    and cnt: "\<And>a. K a \<noteq> None \<Longrightarrow>
      prot K M U' L' a = (if a \<in> R then h (prot K M U L a) else prot K M U L a)"
  shows "ginv (bump h R K) M n U' L'"
  unfolding ginv_def
proof (intro conjI allI impI)
  fix a i p r assume "bump h R K a = Some (i, p, r)"
  then obtain r0 where K: "K a = Some (i, p, r0)" and r: "r = (if a \<in> R then h r0 else r0)"
    by (auto simp: bump_Some)
  note n = ginv_node [OF g K]
  show "a < n" "i \<noteq> root" "M i = Some a" using n by auto
  show "c < a" if "p \<noteq> root" "M p = Some c" for c using n(5) that by blast
  show "r = prot (bump h R K) M U' L' a" using cnt [of a] n(4) r K by simp
next
  fix i a assume "M i = Some a"
  then show "\<exists>p r. bump h R K a = Some (i, p, r)" using ginv_id [OF g] by (auto simp: bump_Some)
qed (use tok in \<open>auto simp: bump_None\<close>)

lemma card_token_insert:
  assumes "finite (dom U)" "U c = None"
  shows "card {d. \<exists>m'. (U(c \<mapsto> m)) d = Some m' \<and> P m'} =
     card {d. \<exists>m'. U d = Some m' \<and> P m'} + (if P m then 1 else 0)"
proof -
  let ?A = "{d. \<exists>m'. U d = Some m' \<and> P m'}"
  have "finite ?A" by (rule finite_subset [OF _ assms(1)]) auto
  moreover have "{d. \<exists>m'. (U(c \<mapsto> m)) d = Some m' \<and> P m'} = (if P m then insert c ?A else ?A)"
    using assms(2) by auto
  ultimately show ?thesis using assms(2) by auto
qed

lemma ginv_add_token:
  assumes g: "ginv K M n U L" and K: "K m \<noteq> None" and U: "U c = None"
  shows "ginv (bump Suc (line K M m) K) M n (U(c \<mapsto> m)) L"
proof (rule ginv_bump [OF g])
  show "prot K M (U(c \<mapsto> m)) L a =
      (if a \<in> line K M m then Suc (prot K M U L a) else prot K M U L a)" if "K a \<noteq> None" for a
    using card_token_insert [of U c m "\<lambda>m. a \<in> line K M m"] ginv_parts [OF g] U
    by (simp add: prot_def)
qed (use g K ginv_parts [OF g] in \<open>auto simp: ginv_def split: if_splits\<close>)

lemma ginv_del_token:
  assumes g: "ginv K M n U L" and U: "U c = Some m"
  shows "ginv (bump (\<lambda>r. r - 1) (line K M m) K) M n (U(c := None)) L"
    and "a \<in> line K M m \<Longrightarrow> 0 < prot K M U L a"
proof -
  let ?U = "U(c := None)"
  have fin: "finite (dom ?U)" using ginv_parts [OF g] by simp
  have "?U(c \<mapsto> m) = U" using U by auto
  then have cnt: "card {d. \<exists>m'. U d = Some m' \<and> a \<in> line K M m'} =
      card {d. \<exists>m'. ?U d = Some m' \<and> a \<in> line K M m'} + (if a \<in> line K M m then 1 else 0)" for a
    using card_token_insert [OF fin, of c m "\<lambda>m. a \<in> line K M m"] by (metis fun_upd_same)
  show "a \<in> line K M m \<Longrightarrow> 0 < prot K M U L a"
    using cnt by (simp add: prot_def)
  show "ginv (bump (\<lambda>r. r - 1) (line K M m) K) M n ?U L"
  proof (rule ginv_bump [OF g])
    show "prot K M ?U L a =
        (if a \<in> line K M m then prot K M U L a - 1 else prot K M U L a)" if "K a \<noteq> None" for a
      using cnt [of a] by (simp add: prot_def)
  qed (use g ginv_parts [OF g] in \<open>auto simp: ginv_def split: if_splits\<close>)
qed

lemma card_lock_insert:
  assumes "finite L" "i \<notin> L" "M i = Some m"
  shows "card {j \<in> insert i L. \<exists>m'. M j = Some m' \<and> P m'} =
     card {j \<in> L. \<exists>m'. M j = Some m' \<and> P m'} + (if P m then 1 else 0)"
proof -
  let ?A = "{j \<in> L. \<exists>m'. M j = Some m' \<and> P m'}"
  have "{j \<in> insert i L. \<exists>m'. M j = Some m' \<and> P m'} = (if P m then insert i ?A else ?A)"
    using assms(3) by auto
  then show ?thesis using assms by auto
qed

lemma ginv_lock:
  assumes g: "ginv K M n U L" and K: "K m = Some (i, p, r)" and L: "i \<notin> L"
  shows "ginv (bump Suc (line K M m) K) M n U (insert i L)"
proof (rule ginv_bump [OF g])
  have M: "M i = Some m" using ginv_node [OF g K] by simp
  show "insert i L \<subseteq> dom M" using M ginv_parts [OF g] by auto
  show "prot K M U (insert i L) a =
      (if a \<in> line K M m then Suc (prot K M U L a) else prot K M U L a)" if "K a \<noteq> None" for a
    using card_lock_insert [of L i M m "\<lambda>m. a \<in> line K M m"] ginv_parts [OF g] L M
    by (simp add: prot_def)
qed (use g ginv_parts [OF g] in \<open>auto simp: ginv_def\<close>)

lemma ginv_unlock:
  assumes g: "ginv K M n U L" and K: "K m = Some (i, p, r)" and L: "i \<in> L"
  shows "ginv (bump (\<lambda>r. r - 1) (line K M m) K) M n U (L - {i})"
    and "a \<in> line K M m \<Longrightarrow> 0 < prot K M U L a"
proof -
  have M: "M i = Some m" using ginv_node [OF g K] by simp
  have fin: "finite (L - {i})" and ins: "insert i (L - {i}) = L"
    using ginv_parts [OF g] L by auto
  have cnt: "card {j \<in> L. \<exists>m'. M j = Some m' \<and> a \<in> line K M m'} =
      card {j \<in> L - {i}. \<exists>m'. M j = Some m' \<and> a \<in> line K M m'} + (if a \<in> line K M m then 1 else 0)" for a
    using card_lock_insert [of "L - {i}" i M m "\<lambda>m. a \<in> line K M m", OF fin _ M]
    unfolding ins by blast
  show "a \<in> line K M m \<Longrightarrow> 0 < prot K M U L a"
    using cnt by (simp add: prot_def)
  show "ginv (bump (\<lambda>r. r - 1) (line K M m) K) M n U (L - {i})"
  proof (rule ginv_bump [OF g])
    show "prot K M U (L - {i}) a =
        (if a \<in> line K M m then prot K M U L a - 1 else prot K M U L a)" if "K a \<noteq> None" for a
      using cnt [of a] by (simp add: prot_def)
  qed (use g ginv_parts [OF g] in \<open>auto simp: ginv_def\<close>)
qed

subsection \<open>A new call and an erased call\<close>

lemma line_cong:
  assumes "\<And>b c. b \<in> line K M a \<Longrightarrow> (b, c) \<in> up K' M' \<longleftrightarrow> (b, c) \<in> up K M"
  shows "line K' M' a = line K M a"
proof -
  have "(a, b) \<in> (up K' M')\<^sup>* \<Longrightarrow> (a, b) \<in> (up K M)\<^sup>*" for b
  proof (induction rule: rtrancl_induct)
    case (step b c)
    then show ?case using assms [of b c] by (auto simp: line_def intro: rtrancl_into_rtrancl)
  qed simp
  moreover have "(a, b) \<in> (up K M)\<^sup>* \<Longrightarrow> (a, b) \<in> (up K' M')\<^sup>*" for b
  proof (induction rule: rtrancl_induct)
    case (step b c)
    then have "(b, c) \<in> up K' M'" using assms [of b c] by (auto simp: line_def)
    with step show ?case by (auto intro: rtrancl_into_rtrancl)
  qed simp
  ultimately show ?thesis by (auto simp: line_def)
qed

text \<open>An identifier is fresh when no call has it and no live call names it as its parent.\<close>

definition fresh :: "skel \<Rightarrow> idmap \<Rightarrow> eventID \<Rightarrow> bool" where
  "fresh K M i \<longleftrightarrow> i \<noteq> root \<and> M i = None \<and> (\<forall>a j r. K a \<noteq> Some (j, i, r))"

lemma ginv_alloc:
  assumes g: "ginv K M n U L" and f: "fresh K M i" and p: "p \<noteq> i"
  shows "ginv (K(n \<mapsto> (i, p, 0))) (M(i \<mapsto> n)) (Suc n) U L"
proof -
  let ?K = "K(n \<mapsto> (i, p, 0))" and ?M = "M(i \<mapsto> n)"
  have n: "K n = None" using ginv_node(1) [OF g, of n] by (cases "K n") auto
  have up: "(b, c) \<in> up ?K ?M \<longleftrightarrow> (b, c) \<in> up K M" if Kb: "K b \<noteq> None" for b c
  proof -
    obtain j q r where b: "K b = Some (j, q, r)" using Kb by auto
    then have "q \<noteq> i" "?K b = Some (j, q, r)" using f n by (auto simp: fresh_def)
    then show ?thesis using up_step [of K b j q r c M] up_step [of ?K b j q r c ?M] b by auto
  qed
  have line: "line ?K ?M a = line K M a" if "K a \<noteq> None" for a
    by (rule line_cong) (use that up line_live [OF g] in blast)
  have live: "K m \<noteq> None" if "U c = Some m \<or> (d \<in> L \<and> M d = Some m)" for c d m
    using that g by (auto simp: ginv_def) (metis option.distinct(1))
  have iL: "i \<notin> L" using f ginv_parts [OF g] by (auto simp: fresh_def)
  have cnt: "prot ?K ?M U L a = prot K M U L a" for a
  proof -
    have "(\<exists>m. U c = Some m \<and> a \<in> line ?K ?M m) = (\<exists>m. U c = Some m \<and> a \<in> line K M m)" for c
      using live line by metis
    moreover have "(d \<in> L \<and> (\<exists>m. ?M d = Some m \<and> a \<in> line ?K ?M m)) =
        (d \<in> L \<and> (\<exists>m. M d = Some m \<and> a \<in> line K M m))" for d
      using live line iL by (metis fun_upd_apply)
    ultimately show ?thesis by (simp add: prot_def)
  qed
  have zero: "prot K M U L n = 0"
  proof -
    have "n \<notin> line K M m" if "K m \<noteq> None" for m using line_live [OF g that] n by blast
    then have "\<not> (U c = Some m \<and> n \<in> line K M m)" "\<not> (d \<in> L \<and> M d = Some m \<and> n \<in> line K M m)"
      for c d m using live by metis+
    then have "{c. \<exists>m. U c = Some m \<and> n \<in> line K M m} = {}"
      "{d \<in> L. \<exists>m. M d = Some m \<and> n \<in> line K M m} = {}" by blast+
    then show ?thesis unfolding prot_def by (metis add_0 card.empty)
  qed
  show ?thesis unfolding ginv_def
  proof (intro conjI allI impI)
    fix a j q r assume a: "?K a = Some (j, q, r)"
    consider "a = n" "j = i" "q = p" "r = 0" | "a \<noteq> n" "K a = Some (j, q, r)"
      using a by (auto split: if_splits)
    then have all: "a < Suc n \<and> j \<noteq> root \<and> ?M j = Some a \<and> r = prot ?K ?M U L a \<and>
        (\<forall>c. q \<noteq> root \<longrightarrow> ?M q = Some c \<longrightarrow> c < a)"
    proof cases
      case 1
      have "c < n" if "M p = Some c" for c using ginv_id [OF g that] ginv_node(1) [OF g] by auto
      then show ?thesis using 1 f cnt zero p by (simp add: fresh_def)
    next
      case 2
      note k = ginv_node [OF g 2(2)]
      have "j \<noteq> i" "q \<noteq> i" using 2 f k(3) by (auto simp: fresh_def)
      then show ?thesis using k cnt by simp
    qed
    then show "a < Suc n" "j \<noteq> root" "?M j = Some a" "r = prot ?K ?M U L a" by simp_all
    show "c < a" if "q \<noteq> root" "?M q = Some c" for c using all that by blast
  next
    fix j a assume "?M j = Some a"
    then show "\<exists>p r. ?K a = Some (j, p, r)"
      using ginv_id [OF g] n by (cases "j = i") (force split: if_splits)+
  next
    show "L \<subseteq> dom ?M" using ginv_parts [OF g] by auto
    show "?K m \<noteq> None" if "U c = Some m" for c m
      using ginv_token [OF g that] by auto
  qed (use ginv_parts [OF g] in auto)
qed

lemma prot_zero:
  assumes g: "ginv K M n U L" and z: "prot K M U L a = 0"
  shows "U c = Some m \<Longrightarrow> a \<notin> line K M m" "d \<in> L \<Longrightarrow> M d = Some m \<Longrightarrow> a \<notin> line K M m"
proof -
  have "finite {c. \<exists>m. U c = Some m \<and> a \<in> line K M m}"
    by (rule finite_subset [of _ "dom U"]) (use ginv_parts [OF g] in auto)
  then show "U c = Some m \<Longrightarrow> a \<notin> line K M m" using z by (auto simp: prot_def)
  have "finite {i \<in> L. \<exists>m. M i = Some m \<and> a \<in> line K M m}" using ginv_parts [OF g] by simp
  then show "d \<in> L \<Longrightarrow> M d = Some m \<Longrightarrow> a \<notin> line K M m" using z by (auto simp: prot_def)
qed

lemma line_erase:
  assumes g: "ginv K M n U L" and K: "K a = Some (i, p, r)" and m: "a \<notin> line K M m"
  shows "line (K(a := None)) (M(i := None)) m = line K M m"
proof (rule line_cong)
  let ?K = "K(a := None)" and ?M = "M(i := None)"
  fix b c assume b: "b \<in> line K M m"
  then have ba: "b \<noteq> a" using m by auto
  have M: "M i = Some a" using ginv_node [OF g K] by simp
  have only: "M j = Some a \<Longrightarrow> j = i" for j using ginv_id [OF g, of j a] K by auto
  show "(b, c) \<in> up ?K ?M \<longleftrightarrow> (b, c) \<in> up K M"
  proof (cases "K b")
    case None
    then show ?thesis by (simp add: up_def)
  next
    case (Some t)
    then obtain j q s where kb: "K b = Some (j, q, s)" by (cases t) auto
    have "(b, a) \<notin> up K M" using b m by (auto simp: line_def intro: rtrancl_into_rtrancl)
    then have "q \<noteq> root \<Longrightarrow> q \<noteq> i" using up_step [of K b j q s a M] kb M by auto
    then show ?thesis
      using up_step [of K b j q s c M] up_step [of ?K b j q s c ?M] kb ba by auto
  qed
qed

lemma ginv_erase:
  assumes g: "ginv K M n U L" and K: "K a = Some (i, p, 0)"
  shows "ginv (K(a := None)) (M(i := None)) n U L"
proof -
  let ?K = "K(a := None)" and ?M = "M(i := None)"
  have z: "prot K M U L a = 0" and M: "M i = Some a" using ginv_node [OF g K] by auto
  have only: "M j = Some a \<Longrightarrow> j = i" for j using ginv_id [OF g, of j a] K by auto
  have line: "line ?K ?M m = line K M m" if "a \<notin> line K M m" for m
    by (rule line_erase [OF g K that])
  have iL: "i \<notin> L" using prot_zero(2) [OF g z _ M] by auto
  have cnt: "prot ?K ?M U L b = prot K M U L b" for b
  proof -
    have "(\<exists>m. U c = Some m \<and> b \<in> line ?K ?M m) = (\<exists>m. U c = Some m \<and> b \<in> line K M m)" for c
      using prot_zero(1) [OF g z] line by metis
    moreover have "(d \<in> L \<and> (\<exists>m. ?M d = Some m \<and> b \<in> line ?K ?M m)) =
        (d \<in> L \<and> (\<exists>m. M d = Some m \<and> b \<in> line K M m))" for d
      using prot_zero(2) [OF g z] line iL by (metis fun_upd_apply)
    ultimately show ?thesis by (simp add: prot_def)
  qed
  show ?thesis unfolding ginv_def
  proof (intro conjI allI impI)
    fix b j q r assume b: "?K b = Some (j, q, r)"
    then have Kb: "K b = Some (j, q, r)" "b \<noteq> a" by (auto split: if_splits)
    show "b < n" "j \<noteq> root" "?M j = Some b" "r = prot ?K ?M U L b"
      using ginv_node [OF g Kb(1)] Kb M cnt by auto
    fix c assume "q \<noteq> root" "?M q = Some c"
    then show "c < b" using ginv_node(5) [OF g Kb(1)] by (auto split: if_splits)
  next
    fix j b assume "?M j = Some b"
    then show "\<exists>p r. ?K b = Some (j, p, r)"
      using ginv_id [OF g] only by (force split: if_splits)
  next
    fix c m assume c: "U c = Some m"
    then have "m \<noteq> a" using prot_zero(1) [OF g z c] by auto
    then show "?K m \<noteq> None" using ginv_token [OF g c] by auto
  qed (use iL ginv_parts [OF g] in auto)
qed

end
