(* ===== verification/EventSafety.thy ===== *)
theory EventSafety
  imports EventManager LockGraph
begin

text \<open>
  The event manager never follows a stale iterator and never drops a reference count below
  zero. The invariant \<open>einv\<close> joins the reference-counting discipline of \<open>LockGraph\<close> with
  what the call stacks and call lists hold: stacks contain live, incomplete calls, lists
  contain live calls, no call is in two places. Every operation is shown to return (no
  \<open>Dangling\<close>, no \<open>Fatal\<close>, enough fuel) and to keep it.
\<close>

definition sk :: "adevent \<Rightarrow> skel" where
  "sk s a = map_option (\<lambda>x. (x_id x, m_parent x, m_references x)) (store_map s a)"

definition et :: "adevent \<Rightarrow> addr \<rightharpoonup> u64 \<times> u64" where
  "et s a = map_option (\<lambda>x. (m_exit x, x_tid x)) (store_map s a)"

text \<open>Identity, parent and times of a call.\<close>

definition ctimes :: "exec_data \<Rightarrow> eventID \<times> eventID \<times> u64 \<times> u64 \<times> u64" where
  "ctimes x = (x_id x, m_parent x, m_entry x, m_runtime x, m_exclusive x)"

definition tm :: "adevent \<Rightarrow> addr \<rightharpoonup> eventID \<times> eventID \<times> u64 \<times> u64 \<times> u64" where
  "tm s a = map_option ctimes (store_map s a)"

definition al_disjoint :: "('k \<times> 'a list) list \<Rightarrow> bool" where
  "al_disjoint m \<longleftrightarrow> (\<forall>k. distinct (al_get [] m k)) \<and>
     (\<forall>k k'. k \<noteq> k' \<longrightarrow> set (al_get [] m k) \<inter> set (al_get [] m k') = {})"

definition cpu_tid :: "adevent \<Rightarrow> u64 \<Rightarrow> bool" where
  "cpu_tid s t = (case m_gpu_thread_Map s of None \<Rightarrow> True | Some tids \<Rightarrow> t \<notin> set tids)"

definition ainv :: "(addr \<rightharpoonup> u64 \<times> u64) \<Rightarrow> (prt \<times> addr list) list \<Rightarrow> (prt \<times> addr list) list
    \<Rightarrow> (u64 \<Rightarrow> bool) \<Rightarrow> bool" where
  "ainv E CS CL cpu \<longleftrightarrow> al_disjoint CS \<and>
     (\<forall>k. \<forall>a \<in> set (al_get [] CS k). \<exists>t. E a = Some (0, t)) \<and>
     distinct (map fst CL) \<and> al_disjoint CL \<and>
     (\<forall>k. \<forall>a \<in> set (al_get [] CL k). E a \<noteq> None) \<and>
     (\<forall>a e t. E a = Some (e, t) \<longrightarrow> cpu t)"

lemma ainv_stack: "ainv E CS CL cpu \<Longrightarrow> a \<in> set (al_get [] CS k) \<Longrightarrow> \<exists>t. E a = Some (0, t)"
  unfolding ainv_def by blast

lemma ainv_list: "ainv E CS CL cpu \<Longrightarrow> a \<in> set (al_get [] CL k) \<Longrightarrow> E a \<noteq> None"
  unfolding ainv_def by blast

lemma ainv_cpu: "ainv E CS CL cpu \<Longrightarrow> E a = Some (e, t) \<Longrightarrow> cpu t"
  unfolding ainv_def by blast

lemma ainv_disjoint:
  "ainv E CS CL cpu \<Longrightarrow> al_disjoint CS" "ainv E CS CL cpu \<Longrightarrow> al_disjoint CL"
  "ainv E CS CL cpu \<Longrightarrow> distinct (map fst CL)"
  by (simp_all add: ainv_def)

definition einv :: "adevent \<Rightarrow> bool" where
  "einv s \<longleftrightarrow>
     ginv (sk s) (m_callIDMap s) (next_addr s) (m_unmatchedCorrelationID s) (m_stackLockedUnlabeled s) \<and>
     ainv (et s) (m_callStack s) (m_callList s) (cpu_tid s)"

text \<open>The projections do not see the other fields.\<close>

lemma sk_upd [simp]:
  "sk (s\<lparr>m_eidx_func_entry := v0\<rparr>) = sk s"
  "sk (s\<lparr>m_eidx_func_exit := v1\<rparr>) = sk s"
  "sk (s\<lparr>m_eidx_comm_send := v2\<rparr>) = sk s"
  "sk (s\<lparr>m_eidx_comm_recv := v3\<rparr>) = sk s"
  "sk (s\<lparr>m_cidx_corr_id := v4\<rparr>) = sk s"
  "sk (s\<lparr>m_commStack := v5\<rparr>) = sk s"
  "sk (s\<lparr>m_counterStack := v6\<rparr>) = sk s"
  "sk (s\<lparr>m_callStack := v7\<rparr>) = sk s"
  "sk (s\<lparr>m_callList := v8\<rparr>) = sk s"
  "sk (s\<lparr>m_execDataMap := v9\<rparr>) = sk s"
  "sk (s\<lparr>m_callIDMap := v10\<rparr>) = sk s"
  "sk (s\<lparr>m_unmatchedCorrelationID := v11\<rparr>) = sk s"
  "sk (s\<lparr>m_stackLockedUnlabeled := v12\<rparr>) = sk s"
  "sk (s\<lparr>next_addr := v13\<rparr>) = sk s"
  "sk (s\<lparr>rec_log := v14\<rparr>) = sk s"
  by (simp_all add: sk_def [abs_def])

lemma et_upd [simp]:
  "et (s\<lparr>m_eidx_func_entry := v0\<rparr>) = et s"
  "et (s\<lparr>m_eidx_func_exit := v1\<rparr>) = et s"
  "et (s\<lparr>m_eidx_comm_send := v2\<rparr>) = et s"
  "et (s\<lparr>m_eidx_comm_recv := v3\<rparr>) = et s"
  "et (s\<lparr>m_cidx_corr_id := v4\<rparr>) = et s"
  "et (s\<lparr>m_commStack := v5\<rparr>) = et s"
  "et (s\<lparr>m_counterStack := v6\<rparr>) = et s"
  "et (s\<lparr>m_callStack := v7\<rparr>) = et s"
  "et (s\<lparr>m_callList := v8\<rparr>) = et s"
  "et (s\<lparr>m_execDataMap := v9\<rparr>) = et s"
  "et (s\<lparr>m_callIDMap := v10\<rparr>) = et s"
  "et (s\<lparr>m_unmatchedCorrelationID := v11\<rparr>) = et s"
  "et (s\<lparr>m_stackLockedUnlabeled := v12\<rparr>) = et s"
  "et (s\<lparr>next_addr := v13\<rparr>) = et s"
  "et (s\<lparr>rec_log := v14\<rparr>) = et s"
  by (simp_all add: et_def [abs_def])

lemma tm_upd [simp]:
  "tm (s\<lparr>m_eidx_func_entry := v0\<rparr>) = tm s"
  "tm (s\<lparr>m_eidx_func_exit := v1\<rparr>) = tm s"
  "tm (s\<lparr>m_eidx_comm_send := v2\<rparr>) = tm s"
  "tm (s\<lparr>m_eidx_comm_recv := v3\<rparr>) = tm s"
  "tm (s\<lparr>m_cidx_corr_id := v4\<rparr>) = tm s"
  "tm (s\<lparr>m_commStack := v5\<rparr>) = tm s"
  "tm (s\<lparr>m_counterStack := v6\<rparr>) = tm s"
  "tm (s\<lparr>m_callStack := v7\<rparr>) = tm s"
  "tm (s\<lparr>m_callList := v8\<rparr>) = tm s"
  "tm (s\<lparr>m_execDataMap := v9\<rparr>) = tm s"
  "tm (s\<lparr>m_callIDMap := v10\<rparr>) = tm s"
  "tm (s\<lparr>m_unmatchedCorrelationID := v11\<rparr>) = tm s"
  "tm (s\<lparr>m_stackLockedUnlabeled := v12\<rparr>) = tm s"
  "tm (s\<lparr>next_addr := v13\<rparr>) = tm s"
  "tm (s\<lparr>rec_log := v14\<rparr>) = tm s"
  by (simp_all add: tm_def [abs_def])

lemma cpu_tid_upd [simp]:
  "cpu_tid (s\<lparr>m_eidx_func_entry := v0\<rparr>) = cpu_tid s"
  "cpu_tid (s\<lparr>m_eidx_func_exit := v1\<rparr>) = cpu_tid s"
  "cpu_tid (s\<lparr>m_eidx_comm_send := v2\<rparr>) = cpu_tid s"
  "cpu_tid (s\<lparr>m_eidx_comm_recv := v3\<rparr>) = cpu_tid s"
  "cpu_tid (s\<lparr>m_cidx_corr_id := v4\<rparr>) = cpu_tid s"
  "cpu_tid (s\<lparr>m_commStack := v5\<rparr>) = cpu_tid s"
  "cpu_tid (s\<lparr>m_counterStack := v6\<rparr>) = cpu_tid s"
  "cpu_tid (s\<lparr>m_callStack := v7\<rparr>) = cpu_tid s"
  "cpu_tid (s\<lparr>m_callList := v8\<rparr>) = cpu_tid s"
  "cpu_tid (s\<lparr>m_execDataMap := v9\<rparr>) = cpu_tid s"
  "cpu_tid (s\<lparr>m_callIDMap := v10\<rparr>) = cpu_tid s"
  "cpu_tid (s\<lparr>m_unmatchedCorrelationID := v11\<rparr>) = cpu_tid s"
  "cpu_tid (s\<lparr>m_stackLockedUnlabeled := v12\<rparr>) = cpu_tid s"
  "cpu_tid (s\<lparr>next_addr := v13\<rparr>) = cpu_tid s"
  "cpu_tid (s\<lparr>rec_log := v14\<rparr>) = cpu_tid s"
  "cpu_tid (s\<lparr>store_map := v15\<rparr>) = cpu_tid s"
  by (simp_all add: cpu_tid_def [abs_def])

abbreviation sline :: "adevent \<Rightarrow> addr \<Rightarrow> addr set" where
  "sline s \<equiv> line (sk s) (m_callIDMap s)"

lemma al_disjoint_distinct: "al_disjoint m \<Longrightarrow> distinct (al_get [] m k)"
  by (simp add: al_disjoint_def)

lemma al_disjoint_update:
  assumes "al_disjoint m" "distinct v" "\<And>k'. k' \<noteq> k \<Longrightarrow> set v \<inter> set (al_get [] m k') = {}"
  shows "al_disjoint (AList.update k v m)"
  using assms unfolding al_disjoint_def by (auto simp: Int_commute)

lemma al_disjoint_shrink:
  assumes "al_disjoint m" "distinct v" "set v \<subseteq> set (al_get [] m k)"
  shows "al_disjoint (AList.update k v m)"
proof (rule al_disjoint_update [OF assms(1,2)])
  fix k' assume "k' \<noteq> k"
  then show "set v \<inter> set (al_get [] m k') = {}"
    using assms unfolding al_disjoint_def by blast
qed

lemma al_disjoint_new:
  assumes "al_disjoint m" "distinct v" "set v \<subseteq> insert a (set (al_get [] m k))"
    and "\<And>k'. a \<notin> set (al_get [] m k')"
  shows "al_disjoint (AList.update k v m)"
proof (rule al_disjoint_update [OF assms(1,2)])
  fix k' assume "k' \<noteq> k"
  then show "set v \<inter> set (al_get [] m k') = {}"
    using assms unfolding al_disjoint_def by blast
qed

subsection \<open>Climbing from a call to its ancestors\<close>

definition bumped :: "(nat \<Rightarrow> nat) \<Rightarrow> addr set \<Rightarrow> adevent \<Rightarrow> rec_error list \<Rightarrow> adevent" where
  "bumped g R s l = s\<lparr>store_map := (\<lambda>a. if a \<in> R
     then map_option (\<lambda>x. x\<lparr>m_references := g (m_references x)\<rparr>) (store_map s a)
     else store_map s a), rec_log := l\<rparr>"

lemma bumped_fields [simp]:
  "m_callIDMap (bumped g R s l) = m_callIDMap s" "next_addr (bumped g R s l) = next_addr s"
  "m_unmatchedCorrelationID (bumped g R s l) = m_unmatchedCorrelationID s"
  "m_stackLockedUnlabeled (bumped g R s l) = m_stackLockedUnlabeled s"
  "m_callStack (bumped g R s l) = m_callStack s" "m_callList (bumped g R s l) = m_callList s"
  "m_gpu_thread_Map (bumped g R s l) = m_gpu_thread_Map s"
  "m_execDataMap (bumped g R s l) = m_execDataMap s"
  "m_commStack (bumped g R s l) = m_commStack s"
  "m_counterStack (bumped g R s l) = m_counterStack s"
  "m_cidx_corr_id (bumped g R s l) = m_cidx_corr_id s"
  by (simp_all add: bumped_def)

lemma bumped_sk [simp]: "sk (bumped g R s l) = bump g R (sk s)"
  by (auto simp: bumped_def sk_def bump_def fun_eq_iff option.map_comp comp_def)

lemma bumped_et [simp]: "et (bumped g R s l) = et s"
  by (auto simp: bumped_def et_def fun_eq_iff option.map_comp comp_def)

lemma bumped_tm [simp]: "tm (bumped g R s l) = tm s"
  by (auto simp: bumped_def tm_def ctimes_def [abs_def] fun_eq_iff option.map_comp comp_def)

lemma bumped_cpu [simp]: "cpu_tid (bumped g R s l) = cpu_tid s"
  by (simp add: cpu_tid_def fun_eq_iff)

lemma bumped_get:
  "store_map s a = Some x \<Longrightarrow> store_map (bumped g R s l) a =
     Some (if a \<in> R then x\<lparr>m_references := g (m_references x)\<rparr> else x)"
  by (simp add: bumped_def)

lemma bumped_bumped: "R \<inter> Q = {} \<Longrightarrow> bumped g R (bumped g Q s l) l' = bumped g (Q \<union> R) s l'"
  by (auto simp: bumped_def fun_eq_iff disjoint_iff)

lemma bumped_empty: "s\<lparr>rec_log := l\<rparr> = bumped g {} s l"
  by (simp add: bumped_def)

lemma sk_Some: "sk s a = Some (i, p, r) \<longleftrightarrow>
    (\<exists>x. store_map s a = Some x \<and> i = x_id x \<and> p = m_parent x \<and> r = m_references x)"
  by (auto simp: sk_def)

lemma sk_get: "store_map s a = Some x \<Longrightarrow> sk s a = Some (x_id x, m_parent x, m_references x)"
  by (simp add: sk_def)

lemma sk_None [simp]: "sk s a = None \<longleftrightarrow> store_map s a = None"
  by (simp add: sk_def)

text \<open>A reference update that succeeds where the count is \<open>ok\<close> and applies \<open>g\<close> to it.\<close>

definition ref_op :: "(exec_data \<Rightarrow> exec_data res) \<Rightarrow> (nat \<Rightarrow> bool) \<Rightarrow> (nat \<Rightarrow> nat) \<Rightarrow> bool" where
  "ref_op f ok g \<longleftrightarrow>
     (\<forall>x. ok (m_references x) \<longrightarrow> f x = Inr (x\<lparr>m_references := g (m_references x)\<rparr>))"

lemma ref_op_register: "ref_op (\<lambda>x. Inr (register_reference x)) (\<lambda>_. True) Suc"
  by (simp add: ref_op_def register_reference_def)

lemma ref_op_deregister: "ref_op deregister_reference (\<lambda>r. 0 < r) (\<lambda>r. r - 1)"
  by (simp add: ref_op_def deregister_reference_def)

lemma modify_ref:
  assumes "ref_op f ok g" "store_map s a = Some x" "ok (m_references x)"
  shows "modify a f s = Inr (bumped g {a} s (rec_log s))"
proof -
  have "put a (x\<lparr>m_references := g (m_references x)\<rparr>) s = bumped g {a} s (rec_log s)"
    using assms(2) by (auto simp: put_def bumped_def fun_eq_iff)
  then show ?thesis using assms by (simp add: modify_def deref_def ref_op_def)
qed

lemma climb_ok:
  assumes f: "ref_op f ok g"
    and st: "gstruct (sk s) (m_callIDMap s)"
    and fuel: "1 \<le> n" "\<And>c. p \<noteq> root \<Longrightarrow> m_callIDMap s p = Some c \<Longrightarrow> c + 2 \<le> n"
    and oks: "\<And>a x. a \<in> line_of (sk s) (m_callIDMap s) p \<Longrightarrow> store_map s a = Some x \<Longrightarrow> ok (m_references x)"
  shows "\<exists>l. climb n f p s = Inr (bumped g (line_of (sk s) (m_callIDMap s) p) s l)"
  using st fuel oks
proof (induction n arbitrary: p s)
  case 0
  then show ?case by simp
next
  case (Suc n)
  let ?M = "m_callIDMap s" and ?l = "rec_log s"
  show ?case
  proof (cases "p = root \<or> ?M p = None")
    case True
    moreover have "s = bumped g {} s ?l" by (simp add: bumped_def)
    moreover have "log_error e s = bumped g {} s (?l @ [e])" for e
      by (simp add: bumped_def log_error_def)
    ultimately show ?thesis
      by (subst climb.simps) (auto simp: line_of_def getCallData_def intro!: exI)
  next
    case False
    then obtain c where root: "p \<noteq> root" and c: "?M p = Some c" by auto
    then obtain x where x: "store_map s c = Some x" "x_id x = p"
      using gstruct_id [OF Suc.prems(1) c] by (auto simp: sk_Some)
    note skc = sk_get [OF x(1)]
    let ?s1 = "bumped g {c} s ?l" and ?L = "line_of (sk s) ?M (m_parent x)"
    have L: "line_of (sk s) ?M p = insert c ?L"
      using line_unfold [of "sk s" c, OF skc] root c by (simp add: line_of_def)
    have below: "c \<notin> ?L" using line_of_below [OF Suc.prems(1) skc] by blast
    have "ok (m_references x)" using Suc.prems(4) [of c x] L x by simp
    then have m: "modify c f s = Inr ?s1" by (rule modify_ref [OF f x(1)])
    have get: "deref ?s1 c = Inr (x\<lparr>m_references := g (m_references x)\<rparr>)"
      using bumped_get [OF x(1), of g "{c}" ?l] by (simp add: deref_def)
    have "\<exists>l. climb n f (m_parent x) ?s1 =
        Inr (bumped g (line_of (sk ?s1) (m_callIDMap ?s1) (m_parent x)) ?s1 l)"
    proof (rule Suc.IH)
      show "gstruct (sk ?s1) (m_callIDMap ?s1)" using Suc.prems(1) by simp
      show "1 \<le> n" using Suc.prems(3) [OF root c] by simp
      show "d + 2 \<le> n" if "m_parent x \<noteq> root" "m_callIDMap ?s1 (m_parent x) = Some d" for d
        using that gstruct_parent [OF Suc.prems(1) skc, of d] Suc.prems(3) [OF root c] by simp
      show "ok (m_references y)"
        if "a \<in> line_of (sk ?s1) (m_callIDMap ?s1) (m_parent x)" "store_map ?s1 a = Some y" for a y
      proof -
        have "a \<in> ?L" "a \<noteq> c" using that(1) below by auto
        then show ?thesis using that(2) Suc.prems(4) [of a y] L by (simp add: bumped_def)
      qed
    qed
    then obtain l where "climb n f (m_parent x) ?s1 = Inr (bumped g ?L ?s1 l)" by auto
    moreover have "bumped g ?L ?s1 l = bumped g (insert c ?L) s l"
      using bumped_bumped [of ?L "{c}" g s ?l l] below by simp
    ultimately have "climb (Suc n) f p s = Inr (bumped g (line_of (sk s) ?M p) s l)"
      using root c m get L by (subst climb.simps) (simp add: getCallData_def)
    then show ?thesis by blast
  qed
qed

subsection \<open>Locking and unlocking a line of calls\<close>

lemma einv_ginv: "einv s \<Longrightarrow> ginv (sk s) (m_callIDMap s) (next_addr s)
    (m_unmatchedCorrelationID s) (m_stackLockedUnlabeled s)"
  by (simp add: einv_def)

lemma einv_ainv: "einv s \<Longrightarrow> ainv (et s) (m_callStack s) (m_callList s) (cpu_tid s)"
  by (simp add: einv_def)

text \<open>The part of the invariant that does not mention stacks and lists.\<close>

definition binv :: "adevent \<Rightarrow> bool" where
  "binv s \<longleftrightarrow>
     ginv (sk s) (m_callIDMap s) (next_addr s) (m_unmatchedCorrelationID s) (m_stackLockedUnlabeled s) \<and>
     (\<forall>a x. store_map s a = Some x \<longrightarrow> cpu_tid s (x_tid x))"

lemma binv_ginv: "binv s \<Longrightarrow> ginv (sk s) (m_callIDMap s) (next_addr s)
    (m_unmatchedCorrelationID s) (m_stackLockedUnlabeled s)"
  by (simp add: binv_def)

lemma einv_binv: "einv s \<Longrightarrow> binv s"
proof -
  assume e: "einv s"
  have "cpu_tid s (x_tid x)" if "store_map s a = Some x" for a x
    using ainv_cpu [OF einv_ainv [OF e], of a "m_exit x" "x_tid x"] that by (simp add: et_def)
  then show ?thesis using e by (simp add: binv_def einv_def)
qed

lemma binv_struct: "binv s \<Longrightarrow> gstruct (sk s) (m_callIDMap s)"
  by (rule ginv_struct [OF binv_ginv])

lemma binv_cpu: "binv s \<Longrightarrow> store_map s a = Some x \<Longrightarrow> cpu_tid s (x_tid x)"
  by (simp add: binv_def)

lemma binv_id: "binv s \<Longrightarrow> store_map s a = Some x \<Longrightarrow> m_callIDMap s (x_id x) = Some a"
  using ginv_node(3) [OF binv_ginv sk_get] by blast

lemmas einv_id = binv_id [OF einv_binv]

lemma binv_refs: "binv s \<Longrightarrow> store_map s a = Some x \<Longrightarrow> m_references x =
    prot (sk s) (m_callIDMap s) (m_unmatchedCorrelationID s) (m_stackLockedUnlabeled s) a"
  using ginv_node(4) [OF binv_ginv sk_get] by blast

lemma binv_bound: "binv s \<Longrightarrow> m_callIDMap s i = Some c \<Longrightarrow> c < next_addr s"
  using ginv_id [OF binv_ginv] ginv_node(1) [OF binv_ginv] by blast

lemma on_gpu_cpu: "on_gpu_thread s x \<longleftrightarrow> \<not> cpu_tid s (x_tid x)"
  by (simp add: on_gpu_thread_def cpu_tid_def split: option.split)

lemma line_update_ok:
  assumes f: "ref_op f ok g" and inv: "binv s" and x: "store_map s a = Some x"
    and oks: "\<And>b y. b \<in> sline s a \<Longrightarrow> store_map s b = Some y \<Longrightarrow> ok (m_references y)"
  shows "\<exists>l. bind (modify a f s) (\<lambda>s1. bind (deref s1 a) (\<lambda>x.
     foldE (climb (Suc (next_addr s1)) f) (lock_lines s1 x) s1)) = Inr (bumped g (sline s a) s l)"
proof -
  let ?s1 = "bumped g {a} s (rec_log s)" and ?L = "line_of (sk s) (m_callIDMap s) (m_parent x)"
  let ?x = "x\<lparr>m_references := g (m_references x)\<rparr>"
  have skx: "sk s a = Some (x_id x, m_parent x, m_references x)" by (rule sk_get [OF x])
  have L: "sline s a = insert a ?L" by (rule line_unfold [of "sk s" a, OF skx])
  have below: "a \<notin> ?L" using line_of_below [OF binv_struct [OF inv] skx] by blast
  have m: "modify a f s = Inr ?s1" using oks [of a x] x by (intro modify_ref [OF f x]) simp
  have get: "deref ?s1 a = Inr ?x" using bumped_get [OF x, of g "{a}"] by (simp add: deref_def)
  have lines: "lock_lines ?s1 ?x = [m_parent x]"
    using binv_cpu [OF inv x] by (simp add: lock_lines_def on_gpu_cpu)
  have "\<exists>l. climb (Suc (next_addr ?s1)) f (m_parent x) ?s1 =
      Inr (bumped g (line_of (sk ?s1) (m_callIDMap ?s1) (m_parent x)) ?s1 l)"
  proof (rule climb_ok [OF f])
    show "gstruct (sk ?s1) (m_callIDMap ?s1)" using binv_struct [OF inv] by simp
    show "c + 2 \<le> Suc (next_addr ?s1)" if "m_callIDMap ?s1 (m_parent x) = Some c" for c
      using that binv_bound [OF inv, of "m_parent x" c] by simp
    show "ok (m_references y)"
      if "b \<in> line_of (sk ?s1) (m_callIDMap ?s1) (m_parent x)" "store_map ?s1 b = Some y" for b y
    proof -
      have "b \<in> ?L" "b \<noteq> a" using that(1) below by auto
      then show ?thesis using that(2) oks [of b y] L by (simp add: bumped_def)
    qed
  qed simp
  then obtain l where "climb (Suc (next_addr s)) f (m_parent x) ?s1 = Inr (bumped g ?L ?s1 l)" by auto
  moreover have "bumped g ?L ?s1 l = bumped g (insert a ?L) s l"
    using bumped_bumped [of ?L "{a}" g s _ l] below by simp
  ultimately show ?thesis using m get lines L by auto
qed

lemma protect_ok:
  "binv s \<Longrightarrow> store_map s a = Some x \<Longrightarrow>
   \<exists>l. stackProtectGC a s = Inr (bumped Suc (sline s a) s l)"
  unfolding stackProtectGC_def by (rule line_update_ok [OF ref_op_register]) auto

lemma unprotect_ok:
  assumes "binv s" "store_map s a = Some x"
    and "\<And>b. b \<in> sline s a \<Longrightarrow> 0 < prot (sk s) (m_callIDMap s)
      (m_unmatchedCorrelationID s) (m_stackLockedUnlabeled s) b"
  shows "\<exists>l. stackUnProtectGC a s = Inr (bumped (\<lambda>r. r - 1) (sline s a) s l)"
  unfolding stackUnProtectGC_def
  using assms by (intro line_update_ok [OF ref_op_deregister]) (auto simp: binv_refs)

subsection \<open>Correlation identifiers\<close>

text \<open>
  What matching a call's counters leaves alone: only reference counts, partner lists, the
  log, the tokens and the cached counter index change.
\<close>

definition same_lists :: "adevent \<Rightarrow> adevent \<Rightarrow> bool" where
  "same_lists s t \<longleftrightarrow> m_callStack t = m_callStack s \<and> m_callList t = m_callList s \<and>
     m_execDataMap t = m_execDataMap s \<and> m_callIDMap t = m_callIDMap s \<and>
     next_addr t = next_addr s \<and> et t = et s \<and> tm t = tm s \<and> cpu_tid t = cpu_tid s \<and>
     m_commStack t = m_commStack s \<and> m_counterStack t = m_counterStack s \<and>
     m_stackLockedUnlabeled t = m_stackLockedUnlabeled s"

lemma same_lists_refl [simp]: "same_lists s s"
  by (simp add: same_lists_def)

lemma same_lists_trans: "same_lists s t \<Longrightarrow> same_lists t u \<Longrightarrow> same_lists s u"
  by (simp add: same_lists_def)

lemma same_lists_live: "same_lists s t \<Longrightarrow> store_map t a = None \<longleftrightarrow> store_map s a = None"
proof -
  assume "same_lists s t"
  then have "et t a = et s a" by (simp add: same_lists_def)
  then show ?thesis by (auto simp: et_def)
qed

lemma einv_cong:
  assumes "einv s" "sk t = sk s" "et t = et s" "m_callIDMap t = m_callIDMap s"
    "next_addr t = next_addr s" "m_unmatchedCorrelationID t = m_unmatchedCorrelationID s"
    "m_stackLockedUnlabeled t = m_stackLockedUnlabeled s" "m_callStack t = m_callStack s"
    "m_callList t = m_callList s" "m_gpu_thread_Map t = m_gpu_thread_Map s"
  shows "einv t"
  using assms by (simp add: einv_def cpu_tid_def [abs_def])

lemma modify_partner:
  assumes "store_map s a = Some x"
  shows "\<exists>t. modify a (\<lambda>y. Inr (set_GPU_partner e y)) s = Inr t \<and> sk t = sk s \<and> et t = et s \<and> tm t = tm s \<and>
    (\<exists>m. t = s\<lparr>store_map := m\<rparr>)"
  using assms
  by (auto simp: modify_def deref_def put_def set_GPU_partner_def sk_def et_def tm_def ctimes_def [abs_def] fun_eq_iff intro!: exI)

lemma match_counter_ok:
  assumes inv: "einv s" and x: "store_map s it = Some x"
  shows "\<exists>n' t. match_counter it c (n, s) = Inr (n', t) \<and> einv t \<and> same_lists s t"
proof (cases "is_correlation_counter s c")
  case False
  then show ?thesis using inv by (simp add: match_counter_def)
next
  case True
  let ?s0 = "s\<lparr>m_cidx_corr_id := to_i32 (m_cid c)\<rparr>" and ?cid = "m_value c"
  have sk0: "sk ?s0 = sk s" "et ?s0 = et s" by simp_all
  have inv0: "einv ?s0" by (rule einv_cong [OF inv]) (simp_all add: sk0)
  note g = einv_ginv [OF inv0]
  show ?thesis
  proof (cases "m_unmatchedCorrelationID s ?cid")
    case None
    obtain l where p: "stackProtectGC it ?s0 = Inr (bumped Suc (sline ?s0 it) ?s0 l)"
      using protect_ok [OF einv_binv [OF inv0], of it x] x by auto
    let ?t = "(bumped Suc (sline ?s0 it) ?s0 l)
      \<lparr>m_unmatchedCorrelationID := (m_unmatchedCorrelationID s)(?cid \<mapsto> it)\<rparr>"
    have skt: "sk ?t = bump Suc (sline s it) (sk s)" "et ?t = et s"
      by simp_all
    have cpu: "cpu_tid ?t = cpu_tid s" by (simp add: cpu_tid_def [abs_def])
    have "ginv (sk ?t) (m_callIDMap ?t) (next_addr ?t) (m_unmatchedCorrelationID ?t) (m_stackLockedUnlabeled ?t)"
      using ginv_add_token [OF g, of it ?cid] None x by (simp add: skt sk0)
    then have "einv ?t" using einv_ainv [OF inv] by (simp add: einv_def skt cpu)
    moreover have "same_lists s ?t" by (simp add: same_lists_def skt cpu)
    ultimately show ?thesis using True None x p by (auto simp: match_counter_def Let_def deref_def)
  next
    case (Some m)
    obtain px where px: "store_map s m = Some px" using ginv_token [OF g, of ?cid m] Some by (auto simp: sk_Some)
    have part: "m_callIDMap ?s0 (x_id px) \<noteq> None" using einv_id [OF inv0, of m px] px by simp
    obtain s1 m1 where s1: "modify it (\<lambda>y. Inr (set_GPU_partner (x_id px) y)) ?s0 = Inr s1"
      "sk s1 = sk ?s0" "et s1 = et ?s0" "tm s1 = tm ?s0" "s1 = ?s0\<lparr>store_map := m1\<rparr>"
      using modify_partner [of ?s0 it x "x_id px"] x by auto
    have "store_map s1 m \<noteq> None" using sk_None [of s1 m] sk_None [of ?s0 m] s1(2) px by simp
    then obtain px1 where px1: "store_map s1 m = Some px1" by auto
    obtain s2 m2 where s2: "modify m (\<lambda>y. Inr (set_GPU_partner (x_id x) y)) s1 = Inr s2"
      "sk s2 = sk s1" "et s2 = et s1" "tm s2 = tm s1" "s2 = s1\<lparr>store_map := m2\<rparr>"
      using modify_partner [OF px1, of "x_id x"] by auto
    have inv2: "einv s2"
      by (rule einv_cong [OF inv0]) (use s1 s2 in simp_all)
    have "store_map s2 m \<noteq> None" using sk_None [of s2 m] sk_None [of s1 m] s2(2) px1 by simp
    then obtain px2 where px2: "store_map s2 m = Some px2" by auto
    have U2: "m_unmatchedCorrelationID s2 ?cid = Some m" using Some s1(5) s2(5) by simp
    obtain l where u: "stackUnProtectGC m s2 = Inr (bumped (\<lambda>r. r - 1) (sline s2 m) s2 l)"
      using unprotect_ok [OF einv_binv [OF inv2] px2] ginv_del_token(2) [OF einv_ginv [OF inv2] U2] by blast
    let ?b = "bumped (\<lambda>r. r - 1) (sline s2 m) s2 l"
    let ?t = "?b\<lparr>m_unmatchedCorrelationID := (m_unmatchedCorrelationID ?b)(?cid := None)\<rparr>"
    have skt: "sk ?t = bump (\<lambda>r. r - 1) (sline s2 m) (sk s2)" "et ?t = et s" "tm ?t = tm s"
      using s1(3,4) s2(3,4) by simp_all
    have cpu: "cpu_tid ?t = cpu_tid s" using s1(5) s2(5) by (simp add: cpu_tid_def [abs_def])
    have "ginv (sk ?t) (m_callIDMap ?t) (next_addr ?t) (m_unmatchedCorrelationID ?t) (m_stackLockedUnlabeled ?t)"
      using ginv_del_token(1) [OF einv_ginv [OF inv2] U2] by (simp add: skt)
    moreover have fl: "m_callStack ?t = m_callStack s" "m_callList ?t = m_callList s"
      using s1(5) s2(5) by simp_all
    have "ainv (et ?t) (m_callStack ?t) (m_callList ?t) (cpu_tid ?t)"
      using einv_ainv [OF inv] by (simp only: skt cpu fl)
    ultimately have "einv ?t" by (simp add: einv_def)
    moreover have "same_lists s ?t"
      using skt(2,3) cpu s1(5) s2(5) unfolding same_lists_def by (intro conjI; simp)
    moreover have "match_counter it c (n, s) = Inr (Suc n, ?t)"
      using True Some x px part s1(1) s2(1) u by (simp add: match_counter_def Let_def deref_def)
    ultimately show ?thesis by blast
  qed
qed

lemma check_match_ok:
  assumes inv: "einv s" and x: "store_map s it = Some x"
  shows "\<exists>t. checkAndMatchCorrelationID it s = Inr t \<and> einv t \<and> same_lists s t"
proof -
  have "\<exists>z. foldE (match_counter it) (m_counters x) (0, s) = Inr z \<and> einv (snd z) \<and> same_lists s (snd z)"
  proof (rule foldE_total [where P = "\<lambda>z. einv (snd z) \<and> same_lists s (snd z)"])
    fix c and z :: "nat \<times> adevent" assume z: "einv (snd z) \<and> same_lists s (snd z)"
    then obtain y where "store_map (snd z) it = Some y"
      using x same_lists_live [of s "snd z" it] by auto
    then show "\<exists>b. match_counter it c z = Inr b \<and> einv (snd b) \<and> same_lists s (snd b)"
      using match_counter_ok [of "snd z" it y c "fst z"] z
      by (cases z) (fastforce intro: same_lists_trans)
  qed (use inv in simp)
  then obtain n t where t: "foldE (match_counter it) (m_counters x) (0, s) = Inr (n, t)"
    "einv t" "same_lists s t" by auto
  then obtain y where y: "store_map t it = Some y" using x same_lists_live [of s t it] by auto
  have "einv (log_error e t)" "same_lists s (log_error e t)" for e
  proof -
    have "sk (log_error e t) = sk t" "et (log_error e t) = et t" "tm (log_error e t) = tm t" "cpu_tid (log_error e t) = cpu_tid t"
      by (simp_all add: log_error_def sk_def et_def tm_def cpu_tid_def fun_eq_iff)
    then show "einv (log_error e t)" "same_lists s (log_error e t)"
      using t by (auto simp: einv_def same_lists_def log_error_def)
  qed
  then show ?thesis using x y t inv by (simp add: checkAndMatchCorrelationID_def deref_def)
qed

subsection \<open>Function entry and exit\<close>

text \<open>What the flushes of the event stacks leave alone: all but messages and counters.\<close>

definition hdr :: "exec_data \<Rightarrow> exec_data" where
  "hdr x = x\<lparr>m_messages := [], m_n_messages := 0, m_counters := []\<rparr>"

lemma hdr_fields:
  assumes "hdr y = hdr x"
  shows "x_id y = x_id x"
    "m_parent y = m_parent x"
    "m_references y = m_references x"
    "m_exit y = m_exit x"
    "x_tid y = x_tid x"
    "m_entry y = m_entry x"
    "m_runtime y = m_runtime x"
    "m_exclusive y = m_exclusive x"
    "m_label y = m_label x"
    "m_funcname y = m_funcname x"
    "m_n_children y = m_n_children x"
    "x_pid y = x_pid x"
    "x_rid y = x_rid x"
    "m_fid y = m_fid x"
  using assms by (cases x, cases y, simp add: hdr_def)+

lemma add_message_hdr: "hdr (snd (add_message c e x)) = hdr x"
  by (simp add: add_message_def Let_def hdr_def)

lemma add_counter_hdr: "hdr (snd (add_counter c e x)) = hdr x"
  by (simp add: add_counter_def Let_def hdr_def)

lemma flush_comm_hdr: "hdr (fst (flush_comm ts x st r)) = hdr x"
  by (induction ts x st r rule: flush_comm.induct) (simp_all add: add_message_hdr)

lemma flush_counter_hdr: "hdr (fst (flush_counter ts x st r j)) = hdr x"
proof (induction ts x st r j rule: flush_counter.induct)
  case (2 ts x c st r j)
  then show ?case using add_counter_hdr [of c Front x]
    by (cases "add_counter c Front x") auto
qed simp

text \<open>The parent of a new call: the top of the stack of its thread.\<close>

definition parent_id :: "addr list \<Rightarrow> adevent \<Rightarrow> eventID" where
  "parent_id cs s = (case cs of [] \<Rightarrow> root
     | b # _ \<Rightarrow> (case store_map s b of None \<Rightarrow> root | Some y \<Rightarrow> x_id y))"

lemma func_entry_result:
  assumes inv: "einv s" and t: "m_t ev = FUNC" and cpu: "cpu_tid s (ev_tid ev)"
    and new: "fresh (sk s) (m_callIDMap s) (m_id ev)"
  shows "\<exists>t. func_entry nm ev s = Inr (OK, t) \<and> einv t \<and> cpu_tid t = cpu_tid s \<and>
    next_addr t = Suc (next_addr s) \<and>
    tm t = (tm s)(next_addr s \<mapsto>
      (m_id ev, parent_id (al_get [] (m_callStack s) (prt_of ev)) s, ev_ts ev, 0, 0)) \<and>
    m_callStack t = AList.update (prt_of ev)
      (next_addr s # al_get [] (m_callStack s) (prt_of ev)) (m_callStack s)"
proof -
  let ?k = "prt_of ev" and ?n = "next_addr s"
  let ?cs = "al_get [] (m_callStack s) ?k"
  obtain x where x: "new_ExecData_event ev = Inr x" "x_id x = m_id ev" "m_parent x = root"
    "m_references x = 0" "m_exit x = 0" "x_tid x = ev_tid ev" "m_entry x = ev_ts ev"
    "m_runtime x = 0" "m_exclusive x = 0"
    using t by (simp add: new_ExecData_event_def ev_fid_def new_ExecData_def)
  note g = einv_ginv [OF inv] and a = einv_ainv [OF inv]
  have n: "store_map s ?n = None" using ginv_node(1) [OF g sk_get, of ?n] by (cases "store_map s ?n") auto
  have En: "et s ?n = None" using n by (simp add: et_def)
  define p where "p = parent_id ?cs s"
  have stk: "store_map s b \<noteq> None" if "b \<in> set (al_get [] (m_callStack s) k)" for b k
  proof -
    have "\<exists>t. et s b = Some (0, t)" using a that unfolding ainv_def by blast
    then show ?thesis by (auto simp: et_def)
  qed
  have p: "p \<noteq> m_id ev"
  proof (cases ?cs)
    case Nil
    then show ?thesis using new by (auto simp: p_def parent_id_def fresh_def)
  next
    case (Cons b bs)
    then obtain y where "store_map s b = Some y" using stk [of b ?k] by auto
    then show ?thesis using einv_id [OF inv, of b y] new Cons by (auto simp: p_def parent_id_def fresh_def)
  qed
  have "\<exists>t. func_entry nm ev s = Inr (OK, t) \<and> sk t = (sk s)(?n \<mapsto> (m_id ev, p, 0)) \<and>
      et t = (et s)(?n \<mapsto> (0, ev_tid ev)) \<and>
      tm t = (tm s)(?n \<mapsto> (m_id ev, p, ev_ts ev, 0, 0)) \<and> m_callIDMap t = (m_callIDMap s)(m_id ev \<mapsto> ?n) \<and>
      next_addr t = Suc ?n \<and> m_unmatchedCorrelationID t = m_unmatchedCorrelationID s \<and>
      m_stackLockedUnlabeled t = m_stackLockedUnlabeled s \<and> cpu_tid t = cpu_tid s \<and>
      m_callStack t = AList.update ?k (?n # ?cs) (m_callStack s) \<and>
      m_callList t = AList.update ?k (al_get [] (m_callList s) ?k @ [?n]) (m_callList s)"
  proof (cases ?cs)
    case Nil
    then show ?thesis using x
      by (auto simp: func_entry_def alloc_def push_call_def modify_def deref_def put_def Let_def
          p_def parent_id_def sk_def et_def tm_def ctimes_def cpu_tid_def fun_eq_iff)
  next
    case (Cons b bs)
    then obtain y where y: "store_map s b = Some y" using stk [of b ?k] by auto
    then have "b \<noteq> ?n" using n by auto
    then show ?thesis using x Cons y
      by (auto simp: func_entry_def alloc_def push_call_def modify_def deref_def put_def Let_def
          p_def parent_id_def sk_def et_def tm_def ctimes_def cpu_tid_def fun_eq_iff inc_n_children_def)
  qed
  then obtain t where t: "func_entry nm ev s = Inr (OK, t)" "sk t = (sk s)(?n \<mapsto> (m_id ev, p, 0))"
      "et t = (et s)(?n \<mapsto> (0, ev_tid ev))" "tm t = (tm s)(?n \<mapsto> (m_id ev, p, ev_ts ev, 0, 0))" "m_callIDMap t = (m_callIDMap s)(m_id ev \<mapsto> ?n)"
      "next_addr t = Suc ?n" "m_unmatchedCorrelationID t = m_unmatchedCorrelationID s"
      "m_stackLockedUnlabeled t = m_stackLockedUnlabeled s" "cpu_tid t = cpu_tid s"
      "m_callStack t = AList.update ?k (?n # ?cs) (m_callStack s)"
      "m_callList t = AList.update ?k (al_get [] (m_callList s) ?k @ [?n]) (m_callList s)"
    by blast
  have nowhere: "?n \<notin> set (al_get [] (m_callStack s) k)" "?n \<notin> set (al_get [] (m_callList s) k)" for k
    using ainv_stack [OF a, of ?n k] ainv_list [OF a, of ?n k] En by auto
  have "ainv (et t) (m_callStack t) (m_callList t) (cpu_tid t)"
    unfolding ainv_def
  proof (intro conjI allI ballI impI)
    show "al_disjoint (m_callStack t)" "al_disjoint (m_callList t)"
      unfolding t
      by (rule al_disjoint_new [where a = ?n];
          use ainv_disjoint [OF a] nowhere in \<open>auto simp: al_disjoint_distinct\<close>)+
    show "distinct (map fst (m_callList t))" using a t by (auto simp: ainv_def)
    show "\<exists>u. et t b = Some (0, u)" if "b \<in> set (al_get [] (m_callStack t) k)" for b k
      using that ainv_stack [OF a, of b k] ainv_stack [OF a, of b ?k]
      unfolding t by (auto split: if_splits)
    show "et t b \<noteq> None" if "b \<in> set (al_get [] (m_callList t) k)" for b k
      using that ainv_list [OF a, of b k] ainv_list [OF a, of b ?k]
      unfolding t by (auto split: if_splits)
    show "cpu_tid t u" if "et t b = Some (e, u)" for b e u
      using that ainv_cpu [OF a, of b e u] cpu unfolding t by (auto split: if_splits)
  qed
  moreover have "ginv (sk t) (m_callIDMap t) (next_addr t) (m_unmatchedCorrelationID t) (m_stackLockedUnlabeled t)"
    using ginv_alloc [OF g new p] unfolding t .
  ultimately have "einv t" by (simp add: einv_def)
  then show ?thesis using t unfolding p_def by blast
qed

lemma func_entry_ok:
  assumes "einv s" "m_t ev = FUNC" "cpu_tid s (ev_tid ev)" "fresh (sk s) (m_callIDMap s) (m_id ev)"
  shows "\<exists>t. func_entry nm ev s = Inr (OK, t) \<and> einv t"
  using func_entry_result [OF assms] by blast

text \<open>Taking a call off its stack when it completes.\<close>

lemma ainv_pop:
  assumes a: "ainv E CS CL cpu" and cs: "al_get [] CS k = it # rest" and E: "E it = Some (e0, u)"
  shows "ainv (E(it \<mapsto> (e, u))) (AList.update k rest CS) CL cpu"
proof -
  note dj = ainv_disjoint(1) [OF a]
  have d: "distinct (it # rest)" using dj cs unfolding al_disjoint_def by metis
  have other: "it \<notin> set (al_get [] CS j)" if "j \<noteq> k" for j
  proof -
    have "set (al_get [] CS j) \<inter> set (al_get [] CS k) = {}"
      using dj that unfolding al_disjoint_def by blast
    then show ?thesis using cs by auto
  qed
  show ?thesis unfolding ainv_def
  proof (intro conjI allI ballI impI)
    show "al_disjoint (AList.update k rest CS)"
      by (rule al_disjoint_shrink [OF dj]) (use cs d in auto)
    show "\<exists>t. (E(it \<mapsto> (e, u))) b = Some (0, t)"
      if "b \<in> set (al_get [] (AList.update k rest CS) j)" for b j
    proof -
      have "b \<noteq> it" using that d other [of j] by (auto split: if_splits)
      moreover have "b \<in> set (al_get [] CS j)" using that cs by (auto split: if_splits)
      ultimately show ?thesis using ainv_stack [OF a, of b j] by simp
    qed
    show "(E(it \<mapsto> (e, u))) b \<noteq> None" if "b \<in> set (al_get [] CL j)" for b j
      using ainv_list [OF a that] by simp
    show "cpu t" if "(E(it \<mapsto> (e, u))) b = Some (e', t)" for b e' t
      using that ainv_cpu [OF a, of b] ainv_cpu [OF a E] by (auto split: if_splits)
  qed (use ainv_disjoint [OF a] in simp_all)
qed

lemma update_exit_True:
  "update_exit ev x = Inr (True, y) \<Longrightarrow> m_t ev = FUNC \<and> y = set_exit (ev_ts ev) x"
  by (auto simp: update_exit_def ev_fid_def split: if_splits)

lemma set_exit_fields [simp]:
  "x_id (set_exit e x) = x_id x" "m_parent (set_exit e x) = m_parent x"
  "m_references (set_exit e x) = m_references x" "m_exit (set_exit e x) = e"
  "x_tid (set_exit e x) = x_tid x"
  by (simp_all add: set_exit_def Let_def)

lemma einv_same:
  assumes "einv s" "sk t = sk s" "et t = et s" "m_callIDMap t = m_callIDMap s"
    "next_addr t = next_addr s" "m_unmatchedCorrelationID t = m_unmatchedCorrelationID s"
    "m_stackLockedUnlabeled t = m_stackLockedUnlabeled s" "m_callList t = m_callList s"
    "cpu_tid t = cpu_tid s" "\<And>k. al_get [] (m_callStack t) k = al_get [] (m_callStack s) k"
  shows "einv t"
  using assms by (simp add: einv_def ainv_def al_disjoint_def)

text \<open>What an exit does to the times of the call and of its parent.\<close>

fun complete_times :: "u64 \<Rightarrow> eventID \<times> eventID \<times> u64 \<times> u64 \<times> u64 \<Rightarrow> eventID \<times> eventID \<times> u64 \<times> u64 \<times> u64" where
  "complete_times ts (i, p, e, r, x) = (i, p, e, ts - e, x + (ts - e))"

fun subtract_time :: "u64 \<Rightarrow> eventID \<times> eventID \<times> u64 \<times> u64 \<times> u64 \<Rightarrow> eventID \<times> eventID \<times> u64 \<times> u64 \<times> u64" where
  "subtract_time d (i, p, e, r, x) = (i, p, e, r, x - d)"

text \<open>The parent is told the runtime of its child; then the call takes its messages and counters.\<close>

lemma exclusive_step:
  assumes "store_map s it = Some x" "\<forall>b \<in> set rest. store_map s b \<noteq> None"
  shows "\<exists>t. notify_parent it rest s = Inr t \<and>
     sk t = sk s \<and> et t = et s \<and> store_map t it \<noteq> None \<and> (\<exists>m. t = s\<lparr>store_map := m\<rparr>) \<and>
     tm t = (case rest of [] \<Rightarrow> tm s
       | b # _ \<Rightarrow> (tm s)(b := map_option (subtract_time (m_runtime x)) (tm s b)))"
proof (cases rest)
  case Nil
  then show ?thesis using assms(1) by (auto simp: notify_parent_def intro!: exI [of _ "store_map s"])
next
  case (Cons b bs)
  then obtain y where y: "store_map s b = Some y" using assms(2) by auto
  let ?t = "put b (update_exclusive (m_runtime x) y) s"
  have "sk ?t = sk s" "et ?t = et s"
    "tm ?t = (tm s)(b := map_option (subtract_time (m_runtime x)) (tm s b))"
    using y by (auto simp: put_def sk_def et_def tm_def ctimes_def update_exclusive_def fun_eq_iff)
  moreover have "store_map ?t it \<noteq> None" "\<exists>m. ?t = s\<lparr>store_map := m\<rparr>"
    using assms(1) by (auto simp: put_def)
  ultimately show ?thesis using Cons assms(1) y by (simp add: notify_parent_def modify_def deref_def)
qed

lemma put_hdr:
  assumes "store_map s a = Some x" "hdr y = hdr x"
  shows "sk (put a y s) = sk s" "et (put a y s) = et s" "tm (put a y s) = tm s"
  using assms hdr_fields [OF assms(2)]
  by (auto simp: put_def sk_def et_def tm_def ctimes_def fun_eq_iff)

lemma take_events_ok:
  assumes "store_map s it = Some x"
  shows "\<exists>y c d l. take_events ev it s = Inr ((put it y s)\<lparr>m_commStack := c, m_counterStack := d,
     rec_log := l\<rparr>) \<and> hdr y = hdr x"
proof -
  let ?ts = "ev_ts ev" and ?k = "prt_of ev"
  obtain x4 comm reins where f4: "flush_comm ?ts x (al_get [] (m_commStack s) ?k) [] = (x4, comm, reins)"
    using prod_cases3 by blast
  obtain x5 cnt reins' rej where f5:
    "flush_counter ?ts x4 (al_get [] (m_counterStack s) ?k) [] 0 = (x5, cnt, reins', rej)"
    using prod_cases4 by blast
  have "hdr x5 = hdr x"
    using flush_comm_hdr [of ?ts x "al_get [] (m_commStack s) ?k" "[]"]
      flush_counter_hdr [of ?ts x4 "al_get [] (m_counterStack s) ?k" "[]" 0] f4 f5 by simp
  then show ?thesis using assms f4 f5 by (auto simp: take_events_def deref_def Let_def)
qed

text \<open>
  An exit either changes no times and no stack, or takes the top call off the stack,
  completes its times and subtracts its runtime from the new top of the stack.
\<close>

definition exit_effect :: "event_t \<Rightarrow> adevent \<Rightarrow> adevent \<Rightarrow> bool" where
  "exit_effect ev s t \<longleftrightarrow>
     (tm t = tm s \<and> (\<forall>k. al_get [] (m_callStack t) k = al_get [] (m_callStack s) k)) \<or>
     (\<exists>it rest v. al_get [] (m_callStack s) (prt_of ev) = it # rest \<and> tm s it = Some v \<and>
        (\<forall>k. al_get [] (m_callStack t) k = (if k = prt_of ev then rest else al_get [] (m_callStack s) k)) \<and>
        tm t = (case rest of
           [] \<Rightarrow> (tm s)(it \<mapsto> complete_times (ev_ts ev) v)
         | b # _ \<Rightarrow> (tm s)(it \<mapsto> complete_times (ev_ts ev) v,
             b := map_option (subtract_time (ev_ts ev - fst (snd (snd v)))) (tm s b))))"

lemma func_exit_result:
  assumes inv: "einv s" and t: "m_t ev = FUNC"
  shows "\<exists>err t. func_exit ev s = Inr (err, t) \<and> einv t \<and> next_addr t = next_addr s \<and>
    cpu_tid t = cpu_tid s \<and> exit_effect ev s t"
proof (cases "al_get [] (m_callStack s) (prt_of ev)")
  case Nil
  show ?thesis
    using Nil by (auto simp: func_exit_def Let_def log_error_def exit_effect_def intro!: einv_same [OF inv])
next
  case (Cons it rest)
  let ?k = "prt_of ev" and ?ts = "ev_ts ev"
  note g = einv_ginv [OF inv] and a = einv_ainv [OF inv]
  define s0 where "s0 = s\<lparr>m_callStack := AList.update ?k (it # rest) (m_callStack s)\<rparr>"
  have live: "\<exists>y. store_map s b = Some y" if "b \<in> set (it # rest)" for b
  proof -
    have "\<exists>t. et s b = Some (0, t)" using a that Cons unfolding ainv_def by metis
    then show ?thesis by (auto simp: et_def)
  qed
  obtain x0 where x0: "store_map s it = Some x0" using live [of it] by auto
  obtain b x1 where ue: "update_exit ev x0 = Inr (b, x1)"
    using t by (cases "update_exit ev x0") (auto simp: update_exit_def ev_fid_def split: if_splits)
  show ?thesis
  proof (cases b)
    case False
    then show ?thesis using Cons x0 ue
      by (auto simp: func_exit_def Let_def deref_def log_error_def exit_effect_def intro!: einv_same [OF inv])
  next
    case True
    then have x1: "x1 = set_exit ?ts x0" using update_exit_True [of ev x0 x1] ue by simp
    define s2 where "s2 = (put it x1 s0)\<lparr>m_callStack := AList.update ?k rest (m_callStack s0)\<rparr>"
    have s2_sk: "sk s2 = sk s" and s2_et: "et s2 = (et s)(it \<mapsto> (?ts, x_tid x0))"
      using x0 x1 by (auto simp: s2_def s0_def put_def sk_def et_def fun_eq_iff)
    have s2_tm: "tm s2 = (tm s)(it \<mapsto> complete_times ?ts (ctimes x0))"
      using x0 x1 by (auto simp: s2_def s0_def put_def tm_def ctimes_def set_exit_def Let_def fun_eq_iff)
    have s2_it: "store_map s2 it = Some x1" by (simp add: s2_def s0_def put_def)
    have s2_live: "\<forall>b \<in> set rest. store_map s2 b \<noteq> None"
      using live by (auto simp: s2_def s0_def put_def)
    have E: "et s it = Some (m_exit x0, x_tid x0)" using x0 by (simp add: et_def)
    have "AList.update ?k rest (m_callStack s0) = AList.update ?k rest (m_callStack s)"
      by (simp add: s0_def)
    then have inv2: "einv s2"
      using g ainv_pop [OF a Cons E, of ?ts] s2_sk s2_et
      by (simp add: einv_def s2_def s0_def put_def)
    obtain s3 m3 where s3: "notify_parent it rest s2 = Inr s3"
      "sk s3 = sk s2" "et s3 = et s2" "store_map s3 it \<noteq> None" "s3 = s2\<lparr>store_map := m3\<rparr>"
      "tm s3 = (case rest of [] \<Rightarrow> tm s2
         | b # _ \<Rightarrow> (tm s2)(b := map_option (subtract_time (m_runtime x1)) (tm s2 b)))"
      using exclusive_step [of s2 it x1 rest, OF s2_it s2_live] by blast
    obtain x3 where x3: "store_map s3 it = Some x3" using s3(4) by auto
    obtain x5 c4 d4 l4 where s4: "take_events ev it s3 = Inr ((put it x5 s3)\<lparr>m_commStack := c4,
        m_counterStack := d4, rec_log := l4\<rparr>)" and h: "hdr x5 = hdr x3"
      using take_events_ok [OF x3] by blast
    define s4 where "s4 = (put it x5 s3)\<lparr>m_commStack := c4, m_counterStack := d4, rec_log := l4\<rparr>"
    obtain f where f: "ev_fid ev = Inr f" using t by (simp add: ev_fid_def)
    have inv4: "einv (push_exec f it s4)"
      by (rule einv_same [OF inv2])
        (use s3 put_hdr [OF x3 h] in \<open>simp_all add: push_exec_def s4_def put_def cpu_tid_def [abs_def]\<close>)
    have "store_map (push_exec f it s4) it = Some x5" by (simp add: push_exec_def s4_def put_def)
    then obtain s5 where s5: "checkAndMatchCorrelationID it (push_exec f it s4) = Inr s5" "einv s5"
        "same_lists (push_exec f it s4) s5"
      using check_match_ok [OF inv4] by blast
    have "func_exit ev s = bind (notify_parent it rest s2) (\<lambda>s3. bind (take_events ev it s3) (\<lambda>s4.
        bind (ev_fid ev) (\<lambda>f. bind (checkAndMatchCorrelationID it (push_exec f it s4)) (\<lambda>s5. Inr (OK, s5)))))"
      using Cons x0 ue True by (simp add: func_exit_def Let_def deref_def s0_def s2_def put_def)
    also have "\<dots> = Inr (OK, s5)"
      using s3(1) s4 f s5(1) by (simp add: s4_def)
    finally have "func_exit ev s = Inr (OK, s5)" .
    have "tm s5 = tm s3"
      using s5(3) put_hdr(3) [OF x3 h] by (simp add: same_lists_def push_exec_def s4_def)
    moreover have rt: "m_runtime x1 = ?ts - fst (snd (snd (ctimes x0)))"
      using x1 by (simp add: set_exit_def Let_def ctimes_def)
    moreover have "it \<notin> set rest"
      using al_disjoint_distinct [OF ainv_disjoint(1) [OF a], of ?k] Cons by simp
    ultimately have tms: "tm s5 = (case rest of
           [] \<Rightarrow> (tm s)(it \<mapsto> complete_times ?ts (ctimes x0))
         | b # _ \<Rightarrow> (tm s)(it \<mapsto> complete_times ?ts (ctimes x0),
             b := map_option (subtract_time (?ts - fst (snd (snd (ctimes x0))))) (tm s b)))"
      using s3(6) s2_tm by (cases rest) auto
    have stk: "al_get [] (m_callStack s5) k = (if k = ?k then rest else al_get [] (m_callStack s) k)" for k
    proof -
      have "m_callStack s5 = m_callStack s2"
        using s5(3) s3(5) by (simp add: same_lists_def push_exec_def s4_def put_def)
      then show ?thesis by (simp add: s2_def s0_def)
    qed
    have nxt: "next_addr s5 = next_addr s" "cpu_tid s5 = cpu_tid s"
      using s5(3) s3(5) by (simp_all add: same_lists_def push_exec_def s4_def put_def s2_def s0_def)
    have "tm s it = Some (ctimes x0)" using x0 by (simp add: tm_def)
    then have "exit_effect ev s s5"
      unfolding exit_effect_def using Cons stk tms
      by (intro disjI2 exI [of _ it] exI [of _ rest] exI [of _ "ctimes x0"]) simp
    then show ?thesis using \<open>func_exit ev s = Inr (OK, s5)\<close> s5(2) nxt by blast
  qed
qed

lemma func_exit_ok:
  assumes "einv s" "m_t ev = FUNC"
  shows "\<exists>err t. func_exit ev s = Inr (err, t) \<and> einv t"
  using func_exit_result [OF assms] by blast

subsection \<open>Adding an event\<close>

text \<open>The condition on a trace event: a new identifier, and no thread of a GPU.\<close>

definition event_ok :: "event_t \<Rightarrow> adevent \<Rightarrow> bool" where
  "event_ok ev s \<longleftrightarrow> (m_t ev = FUNC \<longrightarrow>
     cpu_tid s (ev_tid ev) \<and> fresh (sk s) (m_callIDMap s) (m_id ev))"

lemma addFunc_ok:
  assumes inv: "einv s" and t: "m_t ev = FUNC" and ok: "event_ok ev s"
  shows "\<exists>err t. addFunc ev s = Inr (err, t) \<and> einv t"
proof (cases "m_eventType s")
  case None
  then show ?thesis using inv by (simp add: addFunc_def)
next
  case (Some types)
  show ?thesis
  proof (cases "func_kind (to_i32 (m_data ev ! IDX_E)) types s")
    case None
    then show ?thesis using inv Some t by (simp add: addFunc_def ev_eid_def)
  next
    case (Some z)
    obtain is_entry is_exit s1 where z: "z = (is_entry, is_exit, s1)" by (cases z)
    have fields: "m_callIDMap s1 = m_callIDMap s" "sk s1 = sk s" "cpu_tid s1 = cpu_tid s"
      using Some z by (auto simp: func_kind_def split: if_splits option.splits)
    have inv1: "einv s1"
      by (rule einv_cong [OF inv]) (use Some z in \<open>auto simp: func_kind_def split: if_splits option.splits\<close>)
    have "\<exists>t. func_entry nm ev s1 = Inr (OK, t) \<and> einv t" for nm
      using func_entry_ok [OF inv1 t, of nm] ok t fields by (simp add: event_ok_def)
    then show ?thesis
      using func_exit_ok [OF inv1 t] inv1 inv Some \<open>m_eventType s = Some types\<close> t z
      by (simp add: addFunc_def ev_eid_def ev_fid_def split: option.split) blast
  qed
qed

lemma addComm_ok:
  assumes inv: "einv s" and t: "m_t ev = COMM"
  shows "\<exists>err t. addComm ev s = Inr (err, t) \<and> einv t"
proof (cases "m_eventType s")
  case None
  then show ?thesis using inv by (simp add: addComm_def)
next
  case (Some types)
  show ?thesis
  proof (cases "comm_kind (to_i32 (m_data ev ! IDX_E)) types s")
    case None
    then show ?thesis using inv Some t by (simp add: addComm_def ev_eid_def)
  next
    case (Some z)
    obtain is_send is_recv s1 where z: "z = (is_send, is_recv, s1)" by (cases z)
    have inv1: "einv s1"
      by (rule einv_cong [OF inv]) (use Some z in \<open>auto simp: comm_kind_def split: if_splits option.splits\<close>)
    have inv2: "einv (s1\<lparr>m_commStack := v\<rparr>)" for v
      by (rule einv_cong [OF inv1]) simp_all
    show ?thesis
      using Some \<open>m_eventType s = Some types\<close> t z inv1 inv2
      by (auto simp: addComm_def ev_eid_def new_CommData_def ev_partner_def ev_bytes_def ev_tag_def)
  qed
qed

lemma addCounter_ok:
  assumes inv: "einv s" and t: "m_t ev = COUNT"
  shows "\<exists>err t. addCounter ev s = Inr (err, t) \<and> einv t"
proof -
  have inv2: "einv (s\<lparr>m_counterStack := v\<rparr>)" for v
    by (rule einv_cong [OF inv]) simp_all
  show ?thesis using inv inv2 t
    by (simp add: addCounter_def new_CounterData_def ev_counter_id_def ev_counter_value_def
        split: option.split)
qed

lemma addEvent_ok:
  assumes "einv s" "event_ok ev s"
  shows "\<exists>err t. addEvent ev s = Inr (err, t) \<and> einv t"
  using assms addFunc_ok [OF assms(1) _ assms(2)] addComm_ok [OF assms(1)] addCounter_ok [OF assms(1)]
  by (cases "m_t ev") (simp_all add: addEvent_def)

lemma ginv_empty: "ginv Map.empty Map.empty n Map.empty {}"
  by (simp add: ginv_def)

lemma einv_new: "einv new_ADEvent"
proof -
  have "sk new_ADEvent = Map.empty" "et new_ADEvent = Map.empty"
    by (simp_all add: new_ADEvent_def sk_def et_def fun_eq_iff)
  then show ?thesis
    by (simp add: einv_def ginv_empty new_ADEvent_def ainv_def al_disjoint_def)
qed

lemma einv_link:
  assumes "einv s" "store_map s = Map.empty"
  shows "einv (linkEventType types s)" "einv (linkFuncMap funcs s)" "einv (linkCounterMap names s)"
    "einv (linkGPUthreadMap tids s)"
proof -
  have e: "et s = Map.empty" "et (linkGPUthreadMap tids s) = Map.empty"
    "sk (linkGPUthreadMap tids s) = sk s"
    using assms(2) by (simp_all add: et_def sk_def fun_eq_iff linkGPUthreadMap_def)
  show "einv (linkEventType types s)" "einv (linkFuncMap funcs s)" "einv (linkCounterMap names s)"
    by (rule einv_cong [OF assms(1)];
        simp add: linkEventType_def linkFuncMap_def linkCounterMap_def sk_def et_def fun_eq_iff)+
  have "ainv (et s) (m_callStack s) (m_callList s) (cpu_tid s)" by (rule einv_ainv [OF assms(1)])
  then have "ainv Map.empty (m_callStack s) (m_callList s) (cpu_tid (linkGPUthreadMap tids s))"
    by (simp add: e ainv_def)
  then show "einv (linkGPUthreadMap tids s)"
    using einv_ginv [OF assms(1)] unfolding einv_def e by (simp add: linkGPUthreadMap_def)
qed

end
