(* ===== verification/EventPurge.thy ===== *)
theory EventPurge
  imports EventSafety
begin

text \<open>
  Removing completed calls. The pass over a thread's call list unlocks calls that have
  received a label, erases what may be erased and locks what has no label; it runs while the
  stored call list still shows the old contents, so its invariant is stated for the state
  with the list as it will be written back (\<open>with_list\<close>). Then the run of the event manager
  as a step relation: events, labels and purges in any order keep the invariant, so none of
  these operations fails in a reachable state.
\<close>

subsection \<open>What a purge may do to a state\<close>

definition with_list :: "prt \<Rightarrow> addr list \<Rightarrow> adevent \<Rightarrow> adevent" where
  "with_list k l s = s\<lparr>m_callList := AList.update k l (m_callList s)\<rparr>"

lemma with_list_fields [simp]:
  "sk (with_list k l s) = sk s" "et (with_list k l s) = et s"
  "cpu_tid (with_list k l s) = cpu_tid s" "m_callIDMap (with_list k l s) = m_callIDMap s"
  "store_map (with_list k l s) = store_map s" "next_addr (with_list k l s) = next_addr s"
  "m_unmatchedCorrelationID (with_list k l s) = m_unmatchedCorrelationID s"
  "m_stackLockedUnlabeled (with_list k l s) = m_stackLockedUnlabeled s"
  "m_callStack (with_list k l s) = m_callStack s"
  "m_callList (with_list k l s) = AList.update k l (m_callList s)"
  by (simp_all add: with_list_def)

text \<open>The call \<open>m\<close> with identifier \<open>i\<close> is locked until it gets a label, and has none yet.\<close>

definition awaits_label :: "adevent \<Rightarrow> eventID \<Rightarrow> addr \<Rightarrow> bool" where
  "awaits_label s i m \<longleftrightarrow> i \<in> m_stackLockedUnlabeled s \<and> m_callIDMap s i = Some m \<and>
     (\<exists>x. store_map s m = Some x \<and> m_label x = 0)"

text \<open>
  \<open>purged s t\<close>: only completed and labelled calls are missing in \<open>t\<close>, the others differ in
  their reference count only, and the lines of every unmatched call and of every call that awaits
  its label are intact.
\<close>

definition purged :: "adevent \<Rightarrow> adevent \<Rightarrow> bool" where
  "purged s t \<longleftrightarrow>
     m_unmatchedCorrelationID t = m_unmatchedCorrelationID s \<and> m_callStack t = m_callStack s \<and>
     cpu_tid t = cpu_tid s \<and> m_execDataMap t = m_execDataMap s \<and>
     (\<forall>a. store_map s a = None \<longrightarrow> store_map t a = None) \<and>
     (\<forall>a x. store_map s a = Some x \<longrightarrow> (case store_map t a of
        None \<Rightarrow> m_label x \<noteq> 0 \<and> m_exit x \<noteq> 0
      | Some y \<Rightarrow> y\<lparr>m_references := 0\<rparr> = x\<lparr>m_references := 0\<rparr>)) \<and>
     (\<forall>c m. m_unmatchedCorrelationID s c = Some m \<longrightarrow> sline t m = sline s m) \<and>
     (\<forall>i m. awaits_label s i m \<longrightarrow> awaits_label t i m \<and> sline t m = sline s m)"

lemma purged_refl: "purged s s"
  by (auto simp: purged_def split: option.split)

lemma purged_gone:
  assumes "purged s t" "store_map s a = Some x" "store_map t a = None"
  shows "m_label x \<noteq> 0 \<and> m_exit x \<noteq> 0"
proof -
  have "case store_map t a of None \<Rightarrow> m_label x \<noteq> 0 \<and> m_exit x \<noteq> 0
      | Some y \<Rightarrow> y\<lparr>m_references := 0\<rparr> = x\<lparr>m_references := 0\<rparr>"
    using assms(1,2) unfolding purged_def by blast
  then show ?thesis using assms(3) by simp
qed

lemma purged_trans:
  assumes "purged s t" "purged t u"
  shows "purged s u"
proof -
  have keep: "case store_map u a of None \<Rightarrow> m_label x \<noteq> 0 \<and> m_exit x \<noteq> 0
      | Some y \<Rightarrow> y\<lparr>m_references := 0\<rparr> = x\<lparr>m_references := 0\<rparr>"
    if x: "store_map s a = Some x" for a x
  proof (cases "store_map t a")
    case None
    then show ?thesis using assms x unfolding purged_def by (metis option.simps(4))
  next
    case (Some y)
    then have y: "y\<lparr>m_references := 0\<rparr> = x\<lparr>m_references := 0\<rparr>"
      using assms(1) x unfolding purged_def by fastforce
    then have l: "m_label y = m_label x" "m_exit y = m_exit x"
      by (cases x, cases y, simp)+
    show ?thesis using assms(2) Some y l unfolding purged_def by metis
  qed
  have "awaits_label u i m \<and> sline u m = sline s m" if "awaits_label s i m" for i m
    using assms that unfolding purged_def by metis
  then show ?thesis
    unfolding purged_def using assms keep by (simp add: purged_def)
qed

lemma bumped_store: "store_map (bumped g R s l) a = (if a \<in> R
    then map_option (\<lambda>x. x\<lparr>m_references := g (m_references x)\<rparr>) (store_map s a) else store_map s a)"
  by (simp add: bumped_def)

lemma purged_bumped:
  assumes "\<And>i m. awaits_label s i m \<Longrightarrow> i \<in> L"
  shows "purged s ((bumped g R s l)\<lparr>m_stackLockedUnlabeled := L\<rparr>)"
proof -
  have "awaits_label ((bumped g R s l)\<lparr>m_stackLockedUnlabeled := L\<rparr>) i m" if "awaits_label s i m" for i m
    using that assms [OF that] by (auto simp: awaits_label_def bumped_store)
  then show ?thesis unfolding purged_def by (auto simp: bumped_store split: option.split)
qed

lemma purged_erase:
  assumes g: "binv s" and x: "store_map s a = Some x"
    and d: "m_references x = 0" "m_label x \<noteq> 0" "m_exit x \<noteq> 0"
  shows "purged s (erase_call a (x_id x) s)" "binv (erase_call a (x_id x) s)"
proof -
  let ?t = "erase_call a (x_id x) s"
  have skt: "sk ?t = (sk s)(a := None)" by (auto simp: erase_call_def sk_def fun_eq_iff)
  have Mt: "m_callIDMap ?t = (m_callIDMap s)(x_id x := None)" by (simp add: erase_call_def)
  have K: "sk s a = Some (x_id x, m_parent x, 0)" using sk_get [OF x] d by simp
  have z: "prot (sk s) (m_callIDMap s) (m_unmatchedCorrelationID s) (m_stackLockedUnlabeled s) a = 0"
    using binv_refs [OF g x] d by simp
  have "sline ?t m = sline s m" if "m_unmatchedCorrelationID s c = Some m" for c m
    unfolding skt Mt by (rule line_erase [OF binv_ginv [OF g] K prot_zero(1) [OF binv_ginv [OF g] z that]])
  moreover have "awaits_label ?t i m \<and> sline ?t m = sline s m" if w: "awaits_label s i m" for i m
  proof -
    have i: "i \<in> m_stackLockedUnlabeled s" "m_callIDMap s i = Some m" using w by (simp_all add: awaits_label_def)
    have a: "a \<notin> sline s m" by (rule prot_zero(2) [OF binv_ginv [OF g] z i])
    then have "m \<noteq> a" by auto
    then have "i \<noteq> x_id x" using binv_id [OF g x] i(2) by auto
    with \<open>m \<noteq> a\<close> w have "awaits_label ?t i m" by (simp add: awaits_label_def erase_call_def)
    moreover have "sline ?t m = sline s m" unfolding skt Mt by (rule line_erase [OF binv_ginv [OF g] K a])
    ultimately show ?thesis by blast
  qed
  ultimately show "purged s ?t"
    unfolding purged_def using d x by (auto simp: erase_call_def cpu_tid_def [abs_def] split: option.split)
  have "ginv (sk ?t) (m_callIDMap ?t) (next_addr ?t) (m_unmatchedCorrelationID ?t) (m_stackLockedUnlabeled ?t)"
    using ginv_erase [OF binv_ginv [OF g] K] unfolding skt Mt by (simp add: erase_call_def)
  then show "binv ?t"
    using g by (auto simp: binv_def erase_call_def cpu_tid_def [abs_def] split: if_splits)
qed

subsection \<open>One call, one thread, all threads\<close>

lemma einv_with_list: "einv (with_list k l s) \<longleftrightarrow> binv s \<and>
    ainv (et s) (m_callStack s) (AList.update k l (m_callList s)) (cpu_tid s)"
  using einv_binv [of "with_list k l s"] by (auto simp: einv_def binv_def)

lemma ainv_drop:
  assumes a: "ainv E CS (AList.update k (kept @ a # rest) CL) cpu" and E: "E a = Some (e, t)" "e \<noteq> 0"
  shows "ainv (E(a := None)) CS (AList.update k (kept @ rest) CL) cpu"
proof -
  let ?CL = "AList.update k (kept @ a # rest) CL"
  have d: "distinct (kept @ a # rest)" using al_disjoint_distinct [OF ainv_disjoint(2) [OF a], of k] by simp
  have other: "a \<notin> set (al_get [] CL j)" if "j \<noteq> k" for j
  proof -
    have "set (al_get [] ?CL j) \<inter> set (al_get [] ?CL k) = {}"
      using ainv_disjoint(2) [OF a] that unfolding al_disjoint_def by blast
    then show ?thesis using that by auto
  qed
  show ?thesis unfolding ainv_def
  proof (intro conjI allI ballI impI)
    have "al_disjoint (AList.update k (kept @ rest) ?CL)"
      by (rule al_disjoint_shrink [OF ainv_disjoint(2) [OF a]]) (use d in auto)
    then show "al_disjoint (AList.update k (kept @ rest) CL)" by (simp add: al_disjoint_def)
    show "\<exists>t. (E(a := None)) b = Some (0, t)" if "b \<in> set (al_get [] CS j)" for b j
      using ainv_stack [OF a that] E by auto
    show "(E(a := None)) b \<noteq> None" if "b \<in> set (al_get [] (AList.update k (kept @ rest) CL) j)" for b j
    proof -
      have "b \<in> set (al_get [] ?CL j)" "b \<noteq> a"
        using that d other [of j] by (auto split: if_splits)
      then show ?thesis using ainv_list [OF a, of b j] by simp
    qed
    show "cpu u" if "(E(a := None)) b = Some (e', u)" for b e' u
      using that ainv_cpu [OF a, of b] by (auto split: if_splits)
    show "distinct (map fst (AList.update k (kept @ rest) CL))"
      using ainv_disjoint(3) [OF a] by (simp add: update_keys split: if_splits)
  qed (use ainv_disjoint [OF a] in simp)
qed

lemma lock_state:
  assumes "binv s" "ginv (bump g R (sk s)) (m_callIDMap s) (next_addr s) (m_unmatchedCorrelationID s) L"
  shows "binv ((bumped g R s l)\<lparr>m_stackLockedUnlabeled := L\<rparr>)"
  using assms by (auto simp: binv_def bumped_store split: if_splits)

lemma unlock_labeled_ok:
  assumes b: "binv s" and x: "store_map s a = Some x"
  shows "\<exists>t. unlock_labeled a s = Inr t \<and> binv t \<and> purged s t \<and> et t = et s \<and>
    m_callList t = m_callList s \<and> (\<exists>y. store_map t a = Some y \<and> m_label y = m_label x \<and> m_exit y = m_exit x)"
proof (cases "m_label x \<noteq> 0 \<and> x_id x \<in> m_stackLockedUnlabeled s")
  case False
  then show ?thesis using b x by (auto simp: unlock_labeled_def deref_def purged_refl)
next
  case True
  note k = sk_get [OF x]
  obtain l where u: "stackUnProtectGC a s = Inr (bumped (\<lambda>r. r - 1) (sline s a) s l)"
    using unprotect_ok [OF b x] ginv_unlock(2) [OF binv_ginv [OF b] k] True by blast
  let ?t = "(bumped (\<lambda>r. r - 1) (sline s a) s l)
    \<lparr>m_stackLockedUnlabeled := m_stackLockedUnlabeled s - {x_id x}\<rparr>"
  have "binv ?t"
    using lock_state [OF b ginv_unlock(1) [OF binv_ginv [OF b] k]] True by blast
  moreover have "purged s ?t"
  proof (rule purged_bumped)
    fix i m assume w: "awaits_label s i m"
    then have "i \<noteq> x_id x" using True x binv_id [OF b x] by (auto simp: awaits_label_def)
    then show "i \<in> m_stackLockedUnlabeled s - {x_id x}" using w by (simp add: awaits_label_def)
  qed
  ultimately show ?thesis
    using True x u by (simp add: unlock_labeled_def deref_def bumped_store)
qed

definition rep_total :: "purge_report \<Rightarrow> nat" where
  "rep_total r = n_purged r + n_kept_protected r + n_kept_incomplete r + n_kept_window r
     + n_kept_unlabeled r"

lemma purge_step_ok:
  assumes inv: "einv (with_list k (kept @ it # rest) s)"
  shows "\<exists>rep' kept' t. purge_step it (rep, kept, s) = Inr (rep', kept', t) \<and>
    einv (with_list k (kept' @ rest) t) \<and> m_callList t = m_callList s \<and> purged s t \<and>
    rep_total rep' = Suc (rep_total rep) \<and>
    n_purged rep' + length kept' = Suc (n_purged rep + length kept) \<and>
    set kept' \<subseteq> insert it (set kept)"
proof -
  have b: "binv s" and a: "ainv (et s) (m_callStack s) (AList.update k (kept @ it # rest) (m_callList s)) (cpu_tid s)"
    using inv by (simp_all add: einv_with_list)
  obtain x where x: "store_map s it = Some x"
    using ainv_list [OF a, of it k] by (auto simp: et_def)
  obtain s1 x1 where s1: "unlock_labeled it s = Inr s1" "binv s1" "purged s s1" "et s1 = et s"
      "m_callList s1 = m_callList s" and x1: "store_map s1 it = Some x1"
    using unlock_labeled_ok [OF b x] by blast
  have a1: "ainv (et s1) (m_callStack s1) (AList.update k (kept @ it # rest) (m_callList s1)) (cpu_tid s1)"
    using a s1 by (simp add: purged_def)
  have stay: "einv (with_list k ((kept @ [it]) @ rest) s1)"
    using s1(2) a1 by (simp add: einv_with_list)
  have E: "et s1 it = Some (m_exit x1, x_tid x1)" using x1 by (simp add: et_def)
  consider (erase) "can_delete x1" "m_exit x1 \<noteq> 0" | (incomplete) "m_exit x1 = 0"
    | (lock) "\<not> can_delete x1" "m_exit x1 \<noteq> 0" "m_label x1 = 0" "x_id x1 \<notin> m_stackLockedUnlabeled s1"
    | (protected) "\<not> can_delete x1" "m_exit x1 \<noteq> 0" "\<not> (m_label x1 = 0 \<and> x_id x1 \<notin> m_stackLockedUnlabeled s1)"
    by blast
  then show ?thesis
  proof cases
    case erase
    let ?t = "erase_call it (x_id x1) s1"
    have "et ?t = (et s1)(it := None)" "m_callStack ?t = m_callStack s1" "cpu_tid ?t = cpu_tid s1"
      "m_callList ?t = m_callList s1"
      by (auto simp: erase_call_def et_def fun_eq_iff)
    then have "einv (with_list k (kept @ rest) ?t)"
      using purged_erase(2) [OF s1(2) x1] erase ainv_drop [OF a1 E] by (simp add: einv_with_list can_delete_def)
    moreover have "purged s ?t"
      using purged_trans [OF s1(3) purged_erase(1) [OF s1(2) x1]] erase by (simp add: can_delete_def)
    ultimately show ?thesis
      using s1 x1 erase by (auto simp: purge_step_def deref_def rep_total_def erase_call_def)
  next
    case incomplete
    then show ?thesis
      using s1 x1 stay by (auto simp: purge_step_def deref_def rep_total_def)
  next
    case lock
    note g = binv_ginv [OF s1(2)] and kx = sk_get [OF x1]
    obtain l where p: "stackProtectGC it s1 = Inr (bumped Suc (sline s1 it) s1 l)"
      using protect_ok [OF s1(2) x1] by blast
    let ?t = "(bumped Suc (sline s1 it) s1 l)
      \<lparr>m_stackLockedUnlabeled := insert (x_id x1) (m_stackLockedUnlabeled s1)\<rparr>"
    have "binv ?t" by (rule lock_state [OF s1(2) ginv_lock [OF g kx lock(4)]])
    then have "einv (with_list k ((kept @ [it]) @ rest) ?t)"
      using a1 by (simp add: einv_with_list)
    moreover have "purged s ?t" by (rule purged_trans [OF s1(3) purged_bumped]) (simp add: awaits_label_def)
    ultimately show ?thesis
      using s1 x1 lock p by (auto simp: purge_step_def deref_def rep_total_def)
  next
    case protected
    then show ?thesis
      using s1 x1 stay by (auto simp: purge_step_def deref_def rep_total_def)
  qed
qed

lemma purge_loop_ok:
  assumes "einv (with_list k (kept @ xs @ win) s)"
  shows "\<exists>rep' kept' t. foldE purge_step xs (rep, kept, s) = Inr (rep', kept', t) \<and>
    einv (with_list k (kept' @ win) t) \<and> m_callList t = m_callList s \<and> purged s t \<and>
    rep_total rep' = rep_total rep + length xs \<and>
    n_purged rep' + length kept' = n_purged rep + length kept + length xs \<and>
    set kept' \<subseteq> set kept \<union> set xs"
  using assms
proof (induction xs arbitrary: rep kept s)
  case Nil
  then show ?case by (simp add: purged_refl)
next
  case (Cons x xs)
  obtain rep1 kept1 s1 where 1: "purge_step x (rep, kept, s) = Inr (rep1, kept1, s1)"
      "einv (with_list k (kept1 @ xs @ win) s1)" "m_callList s1 = m_callList s" "purged s s1"
      "rep_total rep1 = Suc (rep_total rep)"
      "n_purged rep1 + length kept1 = Suc (n_purged rep + length kept)" "set kept1 \<subseteq> insert x (set kept)"
    using purge_step_ok [of k kept x "xs @ win" s rep] Cons.prems by auto
  obtain rep' kept' t where 2: "foldE purge_step xs (rep1, kept1, s1) = Inr (rep', kept', t)"
      "einv (with_list k (kept' @ win) t)" "m_callList t = m_callList s1" "purged s1 t"
      "rep_total rep' = rep_total rep1 + length xs"
      "n_purged rep' + length kept' = n_purged rep1 + length kept1 + length xs"
      "set kept' \<subseteq> set kept1 \<union> set xs"
    using Cons.IH [OF 1(2)] by blast
  then show ?case using 1 purged_trans [OF 1(4) 2(4)] by auto
qed

text \<open>The calls of a thread that a purge with window \<open>n\<close> does not look at.\<close>

definition window :: "int \<Rightarrow> addr list \<Rightarrow> addr list" where
  "window n cl = (if keep_all n cl then cl else drop (length cl - nat n) cl)"

definition prefix_out :: "int \<Rightarrow> addr list \<Rightarrow> addr list" where
  "prefix_out n cl = (if keep_all n cl then [] else take (length cl - nat n) cl)"

lemma window_split: "prefix_out n cl @ window n cl = cl"
  by (simp add: window_def prefix_out_def)

lemma update_mid:
  "k \<notin> fst ` set d \<Longrightarrow> AList.update k l (d @ (k, v) # r) = d @ (k, l) # r"
  by (induction d) auto

definition total :: "(prt \<times> addr list) list \<Rightarrow> nat" where
  "total m = (\<Sum>(k, cl)\<leftarrow>m. length cl)"

lemma total_Nil [simp]: "total [] = 0"
  by (simp add: total_def)

lemma total_append [simp]: "total (a @ b) = total a + total b"
  by (simp add: total_def)

lemma total_Cons [simp]: "total ((k, cl) # b) = length cl + total b"
  by (simp add: total_def)

lemma getCallListSize_total: "getCallListSize s = total (m_callList s)"
proof -
  have "foldl (\<lambda>out (k, cl). out + length cl) n m = n + total m" for n and m :: "(prt \<times> addr list) list"
    by (induction m arbitrary: n) (auto simp: total_def)
  then show ?thesis by (simp add: getCallListSize_def)
qed

lemma purge_thread_ok:
  assumes inv: "einv s" and m: "m_callList s = d @ (k, cl) # r"
  shows "\<exists>rep' kept t. purge_thread n (k, cl) (rep, s) = Inr (rep', t) \<and> einv t \<and> purged s t \<and>
    m_callList t = d @ (k, kept @ window n cl) # r \<and> set kept \<subseteq> set (prefix_out n cl) \<and>
    rep_total rep' = rep_total rep + length cl \<and>
    n_purged rep' + length (kept @ window n cl) = n_purged rep + length cl"
proof (cases "keep_all n cl")
  case True
  then have "purge_thread n (k, cl) (rep, s) = Inr (rep\<lparr>n_kept_window := n_kept_window rep + length cl\<rparr>, s)"
    by (simp add: purge_thread_def)
  then show ?thesis using True inv m
    by (intro exI [of _ "rep\<lparr>n_kept_window := n_kept_window rep + length cl\<rparr>"] exI [of _ "[]"] exI [of _ s])
      (simp add: rep_total_def purged_refl window_def)
next
  case False
  define c where "c = length cl - nat n"
  define rep1 where "rep1 = rep\<lparr>n_kept_window := n_kept_window rep + nat n\<rparr>"
  have len: "nat n \<le> length cl" using False by (simp add: keep_all_def)
  have k: "k \<notin> fst ` set d" using ainv_disjoint(3) [OF einv_ainv [OF inv]] m by auto
  have "with_list k cl s = s" using m update_mid [OF k, of cl cl r] by (simp add: with_list_def)
  then have "einv (with_list k ([] @ take c cl @ drop c cl) s)" using inv by simp
  from purge_loop_ok [OF this, of rep1]
  obtain rep' kept t where t: "foldE purge_step (take c cl) (rep1, [], s) = Inr (rep', kept, t)"
      "einv (with_list k (kept @ drop c cl) t)" "m_callList t = m_callList s" "purged s t"
      "rep_total rep' = rep_total rep1 + length (take c cl)"
      "n_purged rep' + length kept = n_purged rep1 + length (take c cl)" "set kept \<subseteq> set (take c cl)"
    by auto
  let ?t = "with_list k (kept @ drop c cl) t"
  have "purge_thread n (k, cl) (rep, s) = Inr (rep', ?t)"
    using False t(1) by (simp add: purge_thread_def Let_def c_def rep1_def with_list_def)
  moreover have "purged s ?t"
    by (rule purged_trans [OF t(4)]) (auto simp: purged_def awaits_label_def with_list_def split: option.split)
  moreover have "m_callList ?t = d @ (k, kept @ drop c cl) # r"
    using t(3) m update_mid [OF k] by simp
  moreover have "length (take c cl) + nat n = length cl" using len by (simp add: c_def)
  moreover have "rep_total rep1 = rep_total rep + nat n" "n_purged rep1 = n_purged rep"
    by (simp_all add: rep1_def rep_total_def)
  moreover have "window n cl = drop c cl" "prefix_out n cl = take c cl" "length (drop c cl) = nat n"
    using False len by (simp_all add: window_def prefix_out_def c_def)
  ultimately show ?thesis using t by (intro exI [of _ rep'] exI [of _ kept] exI [of _ ?t]) auto
qed

lemma purge_lists_loop:
  assumes "einv s" "m_callList s = d @ r"
  shows "\<exists>rep' r' t. foldE (purge_thread n) r (rep, s) = Inr (rep', t) \<and> einv t \<and> purged s t \<and>
    m_callList t = d @ r' \<and> rep_total rep' = rep_total rep + total r \<and>
    n_purged rep' + total r' = n_purged rep + total r \<and>
    list_all2 (\<lambda>(k, cl) (k', cl'). k' = k \<and>
      (\<exists>kept. cl' = kept @ window n cl \<and> set kept \<subseteq> set (prefix_out n cl))) r r'"
  using assms
proof (induction r arbitrary: d rep s)
  case Nil
  then show ?case by (auto simp: purged_refl)
next
  case (Cons kc r)
  obtain k cl where kc: "kc = (k, cl)" by (cases kc)
  obtain rep1 kept s1 where 1: "purge_thread n (k, cl) (rep, s) = Inr (rep1, s1)" "einv s1" "purged s s1"
      "m_callList s1 = d @ (k, kept @ window n cl) # r" "set kept \<subseteq> set (prefix_out n cl)"
      "rep_total rep1 = rep_total rep + length cl"
      "n_purged rep1 + length (kept @ window n cl) = n_purged rep + length cl"
    using purge_thread_ok [OF Cons.prems(1), of d k cl r n rep] Cons.prems(2) kc by auto
  have "m_callList s1 = (d @ [(k, kept @ window n cl)]) @ r" using 1(4) by simp
  from Cons.IH [OF 1(2) this, of rep1]
  obtain rep' r' t where 2: "foldE (purge_thread n) r (rep1, s1) = Inr (rep', t)" "einv t" "purged s1 t"
      "m_callList t = (d @ [(k, kept @ window n cl)]) @ r'" "rep_total rep' = rep_total rep1 + total r"
      "n_purged rep' + total r' = n_purged rep1 + total r"
      "list_all2 (\<lambda>(k, cl) (k', cl'). k' = k \<and>
        (\<exists>kept. cl' = kept @ window n cl \<and> set kept \<subseteq> set (prefix_out n cl))) r r'"
    by blast
  show ?case
    using 1 2 kc purged_trans [OF 1(3) 2(3)]
    by (intro exI [of _ rep'] exI [of _ "(k, kept @ window n cl) # r'"] exI [of _ t]) auto
qed

lemma purge_lists_ok:
  assumes "einv s"
  shows "\<exists>rep t. purge_lists n s = Inr (rep, t) \<and> einv t \<and> purged s t \<and>
    rep_total rep = getCallListSize s \<and> n_purged rep + getCallListSize t = getCallListSize s \<and>
    list_all2 (\<lambda>(k, cl) (k', cl'). k' = k \<and>
      (\<exists>kept. cl' = kept @ window n cl \<and> set kept \<subseteq> set (prefix_out n cl)))
      (m_callList s) (m_callList t)"
proof -
  have "rep_total empty_report = 0" "n_purged empty_report = 0"
    by (simp_all add: rep_total_def empty_report_def)
  then show ?thesis
    using purge_lists_loop [OF assms, of "[]" "m_callList s" n empty_report]
    by (auto simp: purge_lists_def getCallListSize_total)
qed

subsection \<open>Trimming\<close>

lemma trim_loop_ok:
  assumes "einv (with_list k (kept @ xs @ win) s)"
  shows "\<exists>out kept' t. foldE trim_step xs (out0, kept, s) = Inr (out0 @ out, kept', t) \<and>
    einv (with_list k (kept' @ win) t) \<and> m_callList t = m_callList s \<and> purged s t \<and>
    length out + length kept' = length kept + length xs \<and>
    (\<forall>x \<in> set out. can_delete x \<and> m_exit x \<noteq> 0) \<and> set kept' \<subseteq> set kept \<union> set xs"
  using assms
proof (induction xs arbitrary: out0 kept s)
  case Nil
  then show ?case by (simp add: purged_refl)
next
  case (Cons it xs)
  have b: "binv s" and a: "ainv (et s) (m_callStack s) (AList.update k (kept @ it # xs @ win) (m_callList s)) (cpu_tid s)"
    using Cons.prems by (simp_all add: einv_with_list)
  obtain x where x: "store_map s it = Some x"
    using ainv_list [OF a, of it k] by (auto simp: et_def)
  show ?case
  proof (cases "can_delete x \<and> m_exit x \<noteq> 0")
    case True
    let ?t = "erase_call it (x_id x) s"
    have l: "m_callList ?t = m_callList s" by (simp add: erase_call_def)
    have "et ?t = (et s)(it := None)" "m_callStack ?t = m_callStack s" "cpu_tid ?t = cpu_tid s"
      by (auto simp: erase_call_def et_def fun_eq_iff)
    moreover have "et s it = Some (m_exit x, x_tid x)" using x by (simp add: et_def)
    ultimately have inv1: "einv (with_list k (kept @ xs @ win) ?t)"
      using purged_erase(2) [OF b x] True ainv_drop [OF a] l by (simp add: einv_with_list can_delete_def)
    have p: "purged s ?t" using purged_erase(1) [OF b x] True by (simp add: can_delete_def)
    obtain out kept' t where t: "foldE trim_step xs (out0 @ [x], kept, ?t) = Inr ((out0 @ [x]) @ out, kept', t)"
        "einv (with_list k (kept' @ win) t)" "m_callList t = m_callList ?t" "purged ?t t"
        "length out + length kept' = length kept + length xs"
        "\<forall>x \<in> set out. can_delete x \<and> m_exit x \<noteq> 0" "set kept' \<subseteq> set kept \<union> set xs"
      using Cons.IH [OF inv1, of "out0 @ [x]"] by blast
    have "trim_step it (out0, kept, s) = Inr (out0 @ [x], kept, ?t)"
      using x True by (simp add: trim_step_def deref_def)
    then show ?thesis
      using t True purged_trans [OF p t(4)] l
      by (intro exI [of _ "x # out"] exI [of _ kept'] exI [of _ t]) auto
  next
    case False
    have inv1: "einv (with_list k ((kept @ [it]) @ xs @ win) s)" using Cons.prems by simp
    obtain out kept' t where t: "foldE trim_step xs (out0, kept @ [it], s) = Inr (out0 @ out, kept', t)"
        "einv (with_list k (kept' @ win) t)" "m_callList t = m_callList s" "purged s t"
        "length out + length kept' = length (kept @ [it]) + length xs"
        "\<forall>x \<in> set out. can_delete x \<and> m_exit x \<noteq> 0" "set kept' \<subseteq> set (kept @ [it]) \<union> set xs"
      using Cons.IH [OF inv1, of out0] by blast
    have "trim_step it (out0, kept, s) = Inr (out0, kept @ [it], s)"
      using x False by (auto simp: trim_step_def deref_def)
    then show ?thesis
      using t by (intro exI [of _ out] exI [of _ kept'] exI [of _ t]) auto
  qed
qed

definition total_out :: "(prt \<times> exec_data list) list \<Rightarrow> nat" where
  "total_out m = (\<Sum>(k, cl)\<leftarrow>m. length cl)"

lemma total_out_update:
  "k \<notin> fst ` set m \<Longrightarrow> total_out (AList.update k v m) = total_out m + length v"
  by (induction m) (auto simp: total_out_def)

lemma trim_thread_ok:
  assumes inv: "einv s" and m: "m_callList s = d @ (k, cl) # r" and k: "k \<notin> fst ` set out"
  shows "\<exists>out' cl' t. trim_thread n (k, cl) (out, s) = Inr (out', t) \<and> einv t \<and> purged s t \<and>
    m_callList t = d @ (k, cl') # r \<and> total_out out' + length cl' = total_out out + length cl \<and>
    fst ` set out' \<subseteq> insert k (fst ` set out) \<and>
    ((\<forall>(j, xs) \<in> set out. \<forall>x \<in> set xs. m_exit x \<noteq> 0 \<and> m_label x \<noteq> 0) \<longrightarrow>
     (\<forall>(j, xs) \<in> set out'. \<forall>x \<in> set xs. m_exit x \<noteq> 0 \<and> m_label x \<noteq> 0))"
proof (cases "keep_all n cl")
  case True
  then show ?thesis using inv m by (auto simp: trim_thread_def purged_refl)
next
  case False
  define c where "c = length cl - nat n"
  have kd: "k \<notin> fst ` set d" using ainv_disjoint(3) [OF einv_ainv [OF inv]] m by auto
  have "with_list k cl s = s" using m update_mid [OF kd, of cl cl r] by (simp add: with_list_def)
  then have "einv (with_list k ([] @ take c cl @ drop c cl) s)" using inv by simp
  from trim_loop_ok [OF this, of "[]"]
  obtain o1 kept t where t: "foldE trim_step (take c cl) ([], [], s) = Inr (o1, kept, t)"
      "einv (with_list k (kept @ drop c cl) t)" "m_callList t = m_callList s" "purged s t"
      "length o1 + length kept = length (take c cl)" "\<forall>x \<in> set o1. can_delete x \<and> m_exit x \<noteq> 0"
    by auto
  let ?t = "with_list k (kept @ drop c cl) t"
  let ?out = "if o1 = [] then out else AList.update k o1 out"
  have run: "trim_thread n (k, cl) (out, s) = Inr (?out, ?t)"
    using False t(1) by (simp add: trim_thread_def Let_def c_def with_list_def)
  have p: "purged s ?t"
    by (rule purged_trans [OF t(4)]) (auto simp: purged_def awaits_label_def with_list_def split: option.split)
  have l: "m_callList ?t = d @ (k, kept @ drop c cl) # r"
    using t(3) m update_mid [OF kd] by simp
  have "length (take c cl) + length (drop c cl) = length cl" by simp
  then have cnt: "total_out ?out + length (kept @ drop c cl) = total_out out + length cl"
    using total_out_update [OF k, of o1] t(5) by auto
  have keys: "fst ` set ?out \<subseteq> insert k (fst ` set out)"
    using dom_update [of k o1 out] by (auto simp: image_iff)
  have "(\<forall>(j, xs) \<in> set ?out. \<forall>x \<in> set xs. m_exit x \<noteq> 0 \<and> m_label x \<noteq> 0)"
    if old: "\<forall>(j, xs) \<in> set out. \<forall>x \<in> set xs. m_exit x \<noteq> 0 \<and> m_label x \<noteq> 0"
  proof -
    have "set (AList.update k o1 out) = insert (k, o1) (set out)"
      using k by (induction out) auto
    then show ?thesis using old t(6) by (auto simp: can_delete_def)
  qed
  then show ?thesis using run p l cnt keys t(2) by blast
qed

lemma trim_lists_loop:
  assumes "einv s" "m_callList s = d @ r" "fst ` set out \<inter> fst ` set r = {}"
    and "\<forall>(j, xs) \<in> set out. \<forall>x \<in> set xs. m_exit x \<noteq> 0 \<and> m_label x \<noteq> 0"
  shows "\<exists>out' r' t. foldE (trim_thread n) r (out, s) = Inr (out', t) \<and> einv t \<and> purged s t \<and>
    m_callList t = d @ r' \<and> total_out out' + total r' = total_out out + total r \<and>
    (\<forall>(j, xs) \<in> set out'. \<forall>x \<in> set xs. m_exit x \<noteq> 0 \<and> m_label x \<noteq> 0)"
  using assms
proof (induction r arbitrary: d out s)
  case Nil
  then show ?case by (auto simp: purged_refl)
next
  case (Cons kc r)
  obtain k cl where kc: "kc = (k, cl)" by (cases kc)
  have dist: "k \<notin> fst ` set r" and kout: "k \<notin> fst ` set out"
    using ainv_disjoint(3) [OF einv_ainv [OF Cons.prems(1)]] Cons.prems(2,3) kc by auto
  obtain out1 cl1 s1 where 1: "trim_thread n (k, cl) (out, s) = Inr (out1, s1)" "einv s1" "purged s s1"
      "m_callList s1 = d @ (k, cl1) # r" "total_out out1 + length cl1 = total_out out + length cl"
      "fst ` set out1 \<subseteq> insert k (fst ` set out)"
      "\<forall>(j, xs) \<in> set out1. \<forall>x \<in> set xs. m_exit x \<noteq> 0 \<and> m_label x \<noteq> 0"
    using trim_thread_ok [OF Cons.prems(1) _ kout, of d cl r n] Cons.prems(2,4) kc by auto
  have "m_callList s1 = (d @ [(k, cl1)]) @ r" using 1(4) by simp
  moreover have "fst ` set out1 \<inter> fst ` set r = {}"
  proof -
    have "fst ` set out \<inter> fst ` set r = {}" using Cons.prems(3) by auto
    then show ?thesis using 1(6) dist by blast
  qed
  ultimately obtain out' r' t where 2: "foldE (trim_thread n) r (out1, s1) = Inr (out', t)" "einv t"
      "purged s1 t" "m_callList t = (d @ [(k, cl1)]) @ r'" "total_out out' + total r' = total_out out1 + total r"
      "\<forall>(j, xs) \<in> set out'. \<forall>x \<in> set xs. m_exit x \<noteq> 0 \<and> m_label x \<noteq> 0"
    using Cons.IH [OF 1(2) _ _ 1(7)] by blast
  show ?case
    using 1 2 kc purged_trans [OF 1(3) 2(3)]
    by (intro exI [of _ out'] exI [of _ "(k, cl1) # r'"] exI [of _ t]) auto
qed

lemma trim_lists_ok:
  assumes "einv s"
  shows "\<exists>out t. trim_lists n s = Inr (out, t) \<and> einv t \<and> purged s t \<and>
    total_out out + getCallListSize t = getCallListSize s \<and>
    (\<forall>(j, xs) \<in> set out. \<forall>x \<in> set xs. m_exit x \<noteq> 0 \<and> m_label x \<noteq> 0)"
  using trim_lists_loop [OF assms, of "[]" "m_callList s" "[]" n]
  by (auto simp: trim_lists_def getCallListSize_total total_out_def)

end
