(* ===== verification/EventRun.thy ===== *)
theory EventRun
  imports EventPurge
begin

text \<open>
  Runs of the event manager: after the tables are linked, any sequence of trace events,
  labellings of calls, purges and trims of the call lists, changes to the list of completed
  calls handed to the anomaly detection, and changes of the linked tables, which their
  owner extends as the trace goes on. The theorems say that no operation of
  such a run follows a stale iterator, underflows a reference count or fails to return, and
  what a purge keeps.
\<close>

inductive ad_reach :: "adevent \<Rightarrow> bool" where
  start: "ad_reach (linkGPUthreadMap tids (linkCounterMap names (linkFuncMap funcs
    (linkEventType types new_ADEvent))))"
| ignore: "ad_reach s \<Longrightarrow> ad_reach (ignoreCorrelationIDsForFunction f s)"
| event: "ad_reach s \<Longrightarrow> event_ok ev s \<Longrightarrow> addEvent ev s = Inr (err, t) \<Longrightarrow> ad_reach t"
| label: "ad_reach s \<Longrightarrow> store_map s a = Some x \<Longrightarrow>
    ad_reach (put a (x\<lparr>m_label := l, m_score := sc\<rparr>) s)"
| purge: "ad_reach s \<Longrightarrow> purge_lists n s = Inr (rep, t) \<Longrightarrow> ad_reach t"
| trim: "ad_reach s \<Longrightarrow> trim_lists n s = Inr (out, t) \<Longrightarrow> ad_reach t"
| exec_map: "ad_reach s \<Longrightarrow> ad_reach (s\<lparr>m_execDataMap := m\<rparr>)"
| tables: "ad_reach s \<Longrightarrow>
    ad_reach (s\<lparr>m_eventType := types', m_funcMap := funcs', m_counterMap := names'\<rparr>)"

lemma ad_reach_einv: "ad_reach s \<Longrightarrow> einv s"
proof (induction rule: ad_reach.induct)
  case (start tids names funcs types)
  show ?case
    by (intro einv_link einv_new)
      (simp_all add: new_ADEvent_def linkEventType_def linkFuncMap_def linkCounterMap_def)
next
  case (ignore s f)
  show ?case
    by (rule einv_cong [OF ignore.IH])
      (simp_all add: ignoreCorrelationIDsForFunction_def sk_def et_def fun_eq_iff)
next
  case (event s ev err t)
  then show ?case using addEvent_ok [of s ev] by auto
next
  case (label s a x l sc)
  show ?case
    by (rule einv_cong [OF label.IH])
      (use label.hyps in \<open>auto simp: put_def sk_def et_def fun_eq_iff\<close>)
next
  case (purge s n rep t)
  then show ?case using purge_lists_ok [of s n] by auto
next
  case (trim s n out t)
  then show ?case using trim_lists_ok [of s n] by auto
next
  case (exec_map s m)
  show ?case by (rule einv_cong [OF exec_map.IH]) simp_all
next
  case (tables s types' funcs' names')
  show ?case by (rule einv_cong [OF tables.IH]) (simp_all add: sk_def et_def fun_eq_iff)
qed

text \<open>
  C1. In every reachable state, adding a trace event returns: whatever the event (a function
  entry or exit, a communication, a counter, one the tables do not know), no stale iterator
  is followed, no reference count underflows and every climb to the root of a call stack
  ends within its fuel. A function event must have an unused identifier and come from a
  thread that is not a GPU thread.
\<close>

theorem addEvent_safe:
  assumes "ad_reach s" "event_ok ev s"
  shows "\<exists>err t. addEvent ev s = Inr (err, t) \<and> ad_reach t"
  using addEvent_ok [OF ad_reach_einv [OF assms(1)] assms(2)] ad_reach.event [OF assms] by blast

definition wit_start :: adevent where
  "wit_start = linkGPUthreadMap [9] (linkCounterMap [7 \<mapsto> ''Correlation ID'']
    (linkFuncMap [4 \<mapsto> ''launch''] (linkEventType [0 \<mapsto> ''ENTRY'', 1 \<mapsto> ''EXIT''] new_ADEvent)))"

definition wit_entry :: event_t where
  "wit_entry = \<lparr>m_data = [1, 2, 3, 0, 4, 100], m_t = FUNC, m_id = eventID 0 0 0, m_idx = 0\<rparr>"

definition wit_counter :: event_t where
  "wit_counter = \<lparr>m_data = [1, 2, 3, 7, 55, 150], m_t = COUNT, m_id = eventID 0 0 1, m_idx = 1\<rparr>"

definition wit_exit :: event_t where
  "wit_exit = \<lparr>m_data = [1, 2, 3, 1, 4, 200], m_t = FUNC, m_id = eventID 0 0 2, m_idx = 2\<rparr>"

definition wit_run :: "event_t list \<Rightarrow> adevent res" where
  "wit_run evs = foldE (\<lambda>ev s. bind (addEvent ev s) (\<lambda>(err, t). Inr t)) evs wit_start"

lemma wit_reach0: "ad_reach wit_start"
  unfolding wit_start_def by (rule ad_reach.start)

lemma wit_entry_ok: "event_ok wit_entry wit_start"
  by (simp add: event_ok_def wit_entry_def wit_start_def linkGPUthreadMap_def linkCounterMap_def
      linkFuncMap_def linkEventType_def new_ADEvent_def cpu_tid_def ev_tid_def IDX_T_def fresh_def
      sk_def root_def)

theorem addEvent_safe_witness:
  "\<exists>err t. addEvent wit_entry wit_start = Inr (err, t) \<and> ad_reach t"
  by (rule addEvent_safe [OF wit_reach0 wit_entry_ok])

text \<open>A check of \<open>event_ok\<close> that evaluates.\<close>

definition event_ok_upto :: "event_t \<Rightarrow> adevent \<Rightarrow> bool" where
  "event_ok_upto ev s \<longleftrightarrow> (m_t ev = FUNC \<longrightarrow> cpu_tid s (ev_tid ev) \<and> m_id ev \<noteq> root \<and>
     Option.is_none (m_callIDMap s (m_id ev)) \<and>
     list_all (\<lambda>a. case store_map s a of None \<Rightarrow> True | Some x \<Rightarrow> m_parent x \<noteq> m_id ev) [0..<next_addr s])"

lemma event_ok_uptoI: "einv s \<Longrightarrow> event_ok_upto ev s \<Longrightarrow> event_ok ev s"
proof -
  assume inv: "einv s" and e: "event_ok_upto ev s"
  have "sk s a \<noteq> Some (j, m_id ev, r)" if "m_t ev = FUNC" for a j r
  proof
    assume k: "sk s a = Some (j, m_id ev, r)"
    then have "a < next_addr s" by (rule ginv_node(1) [OF einv_ginv [OF inv]])
    then show False using e that k by (auto simp: event_ok_upto_def list_all_iff sk_Some split: option.splits)
  qed
  then show ?thesis using e by (simp add: event_ok_def event_ok_upto_def fresh_def Option.is_none_def)
qed

fun wit_steps :: "event_t list \<Rightarrow> adevent \<Rightarrow> bool" where
  "wit_steps [] s \<longleftrightarrow> True"
| "wit_steps (ev # evs) s \<longleftrightarrow> event_ok_upto ev s \<and>
     (case addEvent ev s of Inl _ \<Rightarrow> False | Inr (_, t) \<Rightarrow> wit_steps evs t)"

lemma wit_reach:
  assumes "ad_reach s" "wit_steps evs s"
  shows "\<exists>t. foldE (\<lambda>ev s. bind (addEvent ev s) (\<lambda>(err, t). Inr t)) evs s = Inr t \<and> ad_reach t"
  using assms
proof (induction evs arbitrary: s)
  case (Cons ev evs)
  then obtain err t where t: "addEvent ev s = Inr (err, t)" "wit_steps evs t"
    by (auto split: sum.splits prod.splits)
  have "event_ok ev s" using Cons.prems event_ok_uptoI [OF ad_reach_einv] by simp
  then have "ad_reach t" using ad_reach.event [OF Cons.prems(1) _ t(1)] by blast
  then show ?case using Cons.IH [OF _ t(2)] t(1) by simp
qed simp

definition wit_locked :: adevent where
  "wit_locked = (case wit_run [wit_entry, wit_counter, wit_exit] of Inl _ \<Rightarrow> wit_start | Inr t \<Rightarrow> t)"

lemma wit_locked_steps: "wit_steps [wit_entry, wit_counter, wit_exit] wit_start"
  by code_simp

lemma wit_locked_reach: "ad_reach wit_locked"
  using wit_reach [OF wit_reach0 wit_locked_steps] by (auto simp: wit_locked_def wit_run_def)

lemma wit_locked_call: "case store_map wit_locked 0 of None \<Rightarrow> False
    | Some x \<Rightarrow> m_references x = 1 \<and> m_exit x = 200 \<and> m_label x = 0"
  by code_simp

text \<open>
  C2. Purging the call lists of a reachable state returns, and its report is exact: every
  call in the lists is counted once, under purged, protected, incomplete, window or newly
  locked; the lists shrink by the purged calls. Only calls that have completed and carry a
  label disappear, and the whole line of ancestors of every call with an unmatched
  correlation identifier is still there, and so is that of every call which is locked until it
  gets a label and has none. A completed call without a label is kept, where the comment on
  \<open>purgeCallList\<close> and the unit tests speak of all completed calls.
\<close>

theorem purge_safe:
  assumes "ad_reach s"
  shows "\<exists>rep t. purge_lists n s = Inr (rep, t) \<and> ad_reach t \<and>
    n_purged rep + n_kept_protected rep + n_kept_incomplete rep + n_kept_window rep
      + n_kept_unlabeled rep = getCallListSize s \<and>
    n_purged rep + getCallListSize t = getCallListSize s \<and>
    (\<forall>a x. store_map s a = Some x \<and> store_map t a = None \<longrightarrow> m_label x \<noteq> 0 \<and> m_exit x \<noteq> 0) \<and>
    (\<forall>c m b. m_unmatchedCorrelationID s c = Some m \<and> b \<in> sline s m \<longrightarrow> store_map t b \<noteq> None) \<and>
    (\<forall>i m b. awaits_label s i m \<and> b \<in> sline s m \<longrightarrow> awaits_label t i m \<and> store_map t b \<noteq> None)"
proof -
  obtain rep t where t: "purge_lists n s = Inr (rep, t)" "einv t" "purged s t"
      "rep_total rep = getCallListSize s" "n_purged rep + getCallListSize t = getCallListSize s"
    using purge_lists_ok [OF ad_reach_einv [OF assms], of n] by blast
  have "m_label x \<noteq> 0 \<and> m_exit x \<noteq> 0" if "store_map s a = Some x" "store_map t a = None" for a x
    by (rule purged_gone [OF t(3) that])
  moreover have "store_map t b \<noteq> None"
    if u: "m_unmatchedCorrelationID s c = Some m" and b: "b \<in> sline s m" for c m b
  proof -
    have "m_unmatchedCorrelationID t c = Some m" "b \<in> sline t m"
      using t(3) u b unfolding purged_def by simp_all
    moreover have "sk t m \<noteq> None"
      using ginv_token [OF einv_ginv [OF t(2)] calculation(1)] by (auto simp del: sk_None)
    ultimately have "sk t b \<noteq> None" using line_live [OF einv_ginv [OF t(2)]] by blast
    then show ?thesis by simp
  qed
  moreover have "awaits_label t i m \<and> store_map t b \<noteq> None"
    if w: "awaits_label s i m" and b: "b \<in> sline s m" for i m b
  proof -
    have m: "awaits_label t i m" "b \<in> sline t m" using t(3) w b unfolding purged_def by simp_all
    then have "sk t m \<noteq> None" by (auto simp: awaits_label_def)
    then have "sk t b \<noteq> None" using line_live [OF einv_ginv [OF t(2)]] m(2) by blast
    then show ?thesis using m(1) by simp
  qed
  ultimately show ?thesis
    using t ad_reach.purge [OF assms t(1)] by (auto simp: rep_total_def)
qed

theorem purge_safe_witness:
  "\<exists>rep t. purge_lists 0 wit_locked = Inr (rep, t) \<and> getCallListSize t + n_purged rep = 1 \<and>
     store_map t 0 \<noteq> None"
proof -
  have w: "getCallListSize wit_locked = 1" "m_unmatchedCorrelationID wit_locked 55 = Some 0" by code_simp+
  obtain rep t where t: "purge_lists 0 wit_locked = Inr (rep, t)"
      "n_purged rep + getCallListSize t = getCallListSize wit_locked"
      "\<forall>c m b. m_unmatchedCorrelationID wit_locked c = Some m \<and> b \<in> sline wit_locked m \<longrightarrow> store_map t b \<noteq> None"
    using purge_safe [OF wit_locked_reach, of 0] by (elim exE conjE) (rule that)
  have "store_map t 0 \<noteq> None" using t(3) w(2) line_self by metis
  then show ?thesis using t w by auto
qed

text \<open>
  C3. In a reachable state a call's reference count is the number of unmatched correlation
  identifiers plus the number of calls locked for want of a label that have the call on
  their line of ancestors; so a call may be deleted exactly when it has a label and none of
  these protects it.
\<close>

theorem protection_exact:
  assumes "ad_reach s" "store_map s a = Some x"
  shows "m_references x = card {c. \<exists>m. m_unmatchedCorrelationID s c = Some m \<and> a \<in> sline s m}
      + card {i \<in> m_stackLockedUnlabeled s. \<exists>m. m_callIDMap s i = Some m \<and> a \<in> sline s m} \<and>
    (can_delete x \<longleftrightarrow> m_label x \<noteq> 0 \<and>
      (\<forall>c m. m_unmatchedCorrelationID s c = Some m \<longrightarrow> a \<notin> sline s m) \<and>
      (\<forall>i \<in> m_stackLockedUnlabeled s. \<forall>m. m_callIDMap s i = Some m \<longrightarrow> a \<notin> sline s m))"
proof -
  note inv = ad_reach_einv [OF assms(1)]
  note r = binv_refs [OF einv_binv [OF inv] assms(2)]
  have "m_references x = 0 \<longleftrightarrow> (\<forall>c m. m_unmatchedCorrelationID s c = Some m \<longrightarrow> a \<notin> sline s m) \<and>
      (\<forall>i \<in> m_stackLockedUnlabeled s. \<forall>m. m_callIDMap s i = Some m \<longrightarrow> a \<notin> sline s m)"
    (is "?l \<longleftrightarrow> ?r")
  proof
    assume ?l
    then show ?r using prot_zero [OF einv_ginv [OF inv]] r by metis
  next
    assume ?r
    then have "{c. \<exists>m. m_unmatchedCorrelationID s c = Some m \<and> a \<in> sline s m} = {}"
      "{i \<in> m_stackLockedUnlabeled s. \<exists>m. m_callIDMap s i = Some m \<and> a \<in> sline s m} = {}" by blast+
    then show ?l using r unfolding prot_def by (metis add_0 card.empty)
  qed
  then show ?thesis using r by (auto simp: can_delete_def prot_def)
qed

theorem protection_exact_witness:
  "\<exists>x. store_map wit_locked 0 = Some x \<and> \<not> can_delete x"
proof -
  obtain x where x: "store_map wit_locked 0 = Some x"
    using wit_locked_call by (auto split: option.splits)
  have w: "m_unmatchedCorrelationID wit_locked 55 = Some 0" by code_simp
  have "\<not> can_delete x"
    using protection_exact [OF wit_locked_reach x] w line_self [of 0] by blast
  then show ?thesis using x by blast
qed

text \<open>The exec map after a purge still holds the completed calls, erased or not.\<close>

lemma clear_list_ok:
  "(\<exists>r. clear_list s as = Inr r) \<longleftrightarrow> (\<forall>a \<in> set as. store_map s a \<noteq> None)"
proof (induction as)
  case (Cons a as)
  then show ?case by (cases "store_map s a"; cases "clear_list s as") (auto simp: deref_def)
qed simp

lemma foldE_clear_ok:
  fixes h :: "u64 \<Rightarrow> addr list \<Rightarrow> adevent \<Rightarrow> adevent"
  shows "(\<exists>r. foldE (\<lambda>(f, as) t. bind (clear_list s as) (\<lambda>keep. Inr (h f keep t))) m t0 = Inr r) \<longleftrightarrow>
    (\<forall>(f, as) \<in> set m. \<forall>a \<in> set as. store_map s a \<noteq> None)"
proof (induction m arbitrary: t0)
  case (Cons fa m)
  obtain f as where fa: "fa = (f, as)" by (cases fa)
  show ?case
  proof (cases "clear_list s as")
    case (Inl e)
    then have "\<not> (\<forall>a \<in> set as. store_map s a \<noteq> None)" using clear_list_ok [of s as] by auto
    then show ?thesis using Inl fa by auto
  next
    case (Inr keep)
    then have "\<forall>a \<in> set as. store_map s a \<noteq> None" using clear_list_ok [of s as] by auto
    then show ?thesis using Inr fa Cons.IH [of "h f keep t0"] by simp
  qed
qed simp

text \<open>
  C36. \<open>purgeCallList\<close> ends by dropping the labelled calls from the list of completed calls,
  reading the label of each through its iterator. In a reachable state this final step is
  free of stale iterators exactly when the purge erased none of the calls in that list.
\<close>

theorem purgeCallList_dangling_iff:
  assumes "ad_reach s" "purge_lists n s = Inr (rep, t)"
  shows "(\<exists>r. purgeCallList n s = Inr r) \<longleftrightarrow>
    (\<forall>(f, as) \<in> set (m_execDataMap s). \<forall>a \<in> set as. store_map t a \<noteq> None)"
proof -
  have e: "m_execDataMap t = m_execDataMap s"
    using purge_lists_ok [OF ad_reach_einv [OF assms(1)], of n] assms(2) by (auto simp: purged_def)
  have "(\<exists>r. purgeCallList n s = Inr r) \<longleftrightarrow> (\<exists>r. clearUnlabeled t = Inr r)"
    using assms(2) by (auto simp: purgeCallList_def bind_simps)
  also have "\<dots> \<longleftrightarrow> (\<forall>(f, as) \<in> set (m_execDataMap s). \<forall>a \<in> set as. store_map t a \<noteq> None)"
    unfolding clearUnlabeled_def using foldE_clear_ok [of t _ "m_execDataMap t" t] e by simp
  finally show ?thesis .
qed

text \<open>An ordinary call, complete and labelled: the purge erases it and then reads its label.\<close>

definition wit_done :: adevent where
  "wit_done = (case wit_run [wit_entry, wit_exit] of Inl _ \<Rightarrow> wit_start | Inr t \<Rightarrow> t)"

definition wit_labeled :: adevent where
  "wit_labeled = (case store_map wit_done 0 of None \<Rightarrow> wit_done
     | Some x \<Rightarrow> put 0 (x\<lparr>m_label := 1, m_score := 0\<rparr>) wit_done)"

lemma wit_labeled_reach: "ad_reach wit_labeled"
proof -
  have "wit_steps [wit_entry, wit_exit] wit_start" by code_simp
  then have "ad_reach wit_done"
    using wit_reach [OF wit_reach0] by (fastforce simp: wit_done_def wit_run_def)
  then show ?thesis
    using ad_reach.label by (auto simp: wit_labeled_def split: option.split)
qed

definition purged_dangling :: "int \<Rightarrow> adevent \<Rightarrow> bool" where
  "purged_dangling n s = (case purge_lists n s of Inl _ \<Rightarrow> False
     | Inr (_, t) \<Rightarrow> list_ex (\<lambda>(f, as). list_ex (\<lambda>a. Option.is_none (store_map t a)) as) (m_execDataMap s))"

theorem purgeCallList_dangling_iff_witness:
  "\<exists>rep t. purge_lists 0 wit_labeled = Inr (rep, t) \<and> \<not> (\<exists>r. purgeCallList 0 wit_labeled = Inr r)"
proof -
  have "purged_dangling 0 wit_labeled" by code_simp
  then obtain rep t where t: "purge_lists 0 wit_labeled = Inr (rep, t)"
      "\<exists>(f, as) \<in> set (m_execDataMap wit_labeled). \<exists>a \<in> set as. store_map t a = None"
    by (fastforce simp: purged_dangling_def list_ex_iff Option.is_none_def split: sum.splits)
  then show ?thesis
    using purgeCallList_dangling_iff [OF wit_labeled_reach t(1)] by blast
qed

definition late_events :: "event_t list" where
  "late_events =
     [\<lparr>m_data = [1, 2, 3, 0, 4, 100], m_t = FUNC, m_id = eventID 0 0 0, m_idx = 0\<rparr>,
      \<lparr>m_data = [1, 2, 3, 0, 4, 110], m_t = FUNC, m_id = eventID 0 0 1, m_idx = 1\<rparr>,
      \<lparr>m_data = [1, 2, 3, 1, 4, 120], m_t = FUNC, m_id = eventID 0 0 2, m_idx = 2\<rparr>,
      \<lparr>m_data = [1, 2, 3, 1, 4, 130], m_t = FUNC, m_id = eventID 0 0 3, m_idx = 3\<rparr>]"

definition late_outcome :: "(purge_report \<times> rec_error list) res" where
  "late_outcome = bind (wit_run late_events) (\<lambda>s.
     bind (modify 0 (\<lambda>x. Inr (x\<lparr>m_label := 1\<rparr>)) s) (\<lambda>s1.
     bind (purge_lists 0 s1) (\<lambda>(rep, s2). Inr (rep, rec_log s2))))"

text \<open>
  The lock of an unlabelled call comes too late for ancestors that precede it in the
  same purge: with a labelled parent and an unlabelled child, both complete, the purge
  erases the parent and then locks the child, logging the missing parent.
\<close>

lemma purge_locks_too_late:
  "late_outcome = Inr (\<lparr>n_purged = 1, n_kept_protected = 0, n_kept_incomplete = 0,
     n_kept_window = 0, n_kept_unlabeled = 1\<rparr>, [ParentMissing (eventID 0 0 0)])"
  by code_simp

definition gpu_cpu_entry :: event_t where
  "gpu_cpu_entry = \<lparr>m_data = [1, 2, 3, 0, 4, 100], m_t = FUNC, m_id = eventID 0 0 0, m_idx = 0\<rparr>"
definition gpu_cpu_corr :: event_t where
  "gpu_cpu_corr = \<lparr>m_data = [1, 2, 3, 7, 55, 110], m_t = COUNT, m_id = eventID 0 0 1, m_idx = 1\<rparr>"
definition gpu_cpu_exit :: event_t where
  "gpu_cpu_exit = \<lparr>m_data = [1, 2, 3, 1, 4, 120], m_t = FUNC, m_id = eventID 0 0 2, m_idx = 2\<rparr>"
definition gpu_entry :: event_t where
  "gpu_entry = \<lparr>m_data = [1, 2, 9, 0, 4, 112], m_t = FUNC, m_id = eventID 0 0 3, m_idx = 3\<rparr>"
definition gpu_corr :: event_t where
  "gpu_corr = \<lparr>m_data = [1, 2, 9, 7, 55, 114], m_t = COUNT, m_id = eventID 0 0 4, m_idx = 4\<rparr>"
definition gpu_exit :: event_t where
  "gpu_exit = \<lparr>m_data = [1, 2, 9, 1, 4, 116], m_t = FUNC, m_id = eventID 0 0 5, m_idx = 5\<rparr>"

definition outcome :: "adevent res \<Rightarrow> (nat \<times> rec_error list) res" where
  "outcome r = bind r (\<lambda>s. Inr (getCallListSize s, rec_log s))"

text \<open>
  With a GPU thread map linked, a GPU kernel that completes before the call that
  launched it makes the event manager fail: the kernel is locked with its own line only,
  receives its partner, and is then unlocked together with the partner's line, whose counts
  are zero. In the other order the same events are processed without an error.
\<close>

lemma gpu_order:
  "outcome (wit_run [gpu_cpu_entry, gpu_cpu_corr, gpu_cpu_exit, gpu_entry, gpu_corr, gpu_exit]) = Inr (2, []) \<and>
   outcome (wit_run [gpu_entry, gpu_corr, gpu_exit, gpu_cpu_entry, gpu_cpu_corr, gpu_cpu_exit]) =
     Inl (Fatal ''Attempting to deregister and event whose external reference count is 0!'')"
  by code_simp

end
