(* ===== verification/EventTiming.thy ===== *)
theory EventTiming
  imports EventRun
begin

text \<open>
  The exclusive times the event manager keeps. \<open>tinv\<close> says, of the times of the live calls
  and the call stacks alone, that each call's exclusive time is its own runtime less the
  runtimes of its completed children, in 64-bit arithmetic, and that each call on a stack
  has the call below it as its parent. The function events keep it; \<open>ev_reach\<close> are the runs
  in which no call is erased, so that every child is still there to be summed.
\<close>

type_synonym timing = "addr \<rightharpoonup> eventID \<times> eventID \<times> u64 \<times> u64 \<times> u64"

definition opened :: "(prt \<Rightarrow> addr list) \<Rightarrow> addr set" where
  "opened stk = (\<Union>k. set (stk k))"

lemma openedI: "b \<in> set (stk k) \<Longrightarrow> b \<in> opened stk"
  unfolding opened_def by blast

definition parent_of :: "timing \<Rightarrow> addr \<Rightarrow> eventID option" where
  "parent_of T b = map_option (\<lambda>(i, p, e, r, x). p) (T b)"

definition runtime_of :: "timing \<Rightarrow> addr \<Rightarrow> u64" where
  "runtime_of T b = (case T b of None \<Rightarrow> 0 | Some (i, p, e, r, x) \<Rightarrow> r)"

definition id_of :: "timing \<Rightarrow> addr \<Rightarrow> eventID" where
  "id_of T b = (case T b of None \<Rightarrow> root | Some (i, p, e, r, x) \<Rightarrow> i)"

definition done_children :: "timing \<Rightarrow> addr set \<Rightarrow> nat \<Rightarrow> eventID \<Rightarrow> addr set" where
  "done_children T S n i = {b. b < n \<and> b \<notin> S \<and> parent_of T b = Some i}"

definition chain_ok :: "timing \<Rightarrow> addr list \<Rightarrow> bool" where
  "chain_ok T st \<longleftrightarrow> (\<forall>pre b rest. st = pre @ b # rest \<longrightarrow>
     parent_of T b = Some (case rest of [] \<Rightarrow> root | c # _ \<Rightarrow> id_of T c))"

definition tinv :: "timing \<Rightarrow> (prt \<Rightarrow> addr list) \<Rightarrow> nat \<Rightarrow> bool" where
  "tinv T stk n \<longleftrightarrow> (\<forall>k. chain_ok T (stk k)) \<and>
     (\<forall>a i p e r x. T a = Some (i, p, e, r, x) \<longrightarrow>
        x = (if a \<in> opened stk then 0 else r)
          - (\<Sum>b \<in> done_children T (opened stk) n i. runtime_of T b))"

text \<open>What the event manager's invariant provides.\<close>

definition tstate :: "timing \<Rightarrow> (prt \<Rightarrow> addr list) \<Rightarrow> nat \<Rightarrow> bool" where
  "tstate T stk n \<longleftrightarrow> (\<forall>k. distinct (stk k)) \<and>
     (\<forall>k k'. k \<noteq> k' \<longrightarrow> set (stk k) \<inter> set (stk k') = {}) \<and>
     (\<forall>a \<in> opened stk. T a \<noteq> None) \<and> (\<forall>a. T a \<noteq> None \<longrightarrow> a < n) \<and>
     (\<forall>a b v w. T a = Some v \<and> T b = Some w \<and> fst v = fst w \<longrightarrow> a = b) \<and>
     (\<forall>a v. T a = Some v \<longrightarrow> fst v \<noteq> root)"

lemma tstate_distinct: "tstate T stk n \<Longrightarrow> distinct (stk k)"
  unfolding tstate_def by blast

lemma tstate_bound: "tstate T stk n \<Longrightarrow> T a = Some v \<Longrightarrow> a < n"
  unfolding tstate_def by blast

lemma tstate_live: "tstate T stk n \<Longrightarrow> a \<in> set (stk k) \<Longrightarrow> \<exists>v. T a = Some v"
  unfolding tstate_def opened_def by blast

lemma tstate_root: "tstate T stk n \<Longrightarrow> T a = Some v \<Longrightarrow> fst v \<noteq> root"
  unfolding tstate_def by blast

lemma finite_done [simp]: "finite (done_children T S n i)"
  by (rule finite_subset [of _ "{..<n}"]) (auto simp: done_children_def)

lemma chain_ok_Cons:
  "chain_ok T (b # rest) \<longleftrightarrow>
     parent_of T b = Some (case rest of [] \<Rightarrow> root | c # _ \<Rightarrow> id_of T c) \<and> chain_ok T rest"
proof -
  have "(b # rest = pre @ c # r) \<longleftrightarrow> (pre = [] \<and> b = c \<and> rest = r) \<or>
      (\<exists>pre'. pre = b # pre' \<and> rest = pre' @ c # r)" for pre c r
    by (cases pre) auto
  then show ?thesis unfolding chain_ok_def by (simp add: imp_conjL) blast
qed

lemma chain_ok_Nil [simp]: "chain_ok T []"
  by (simp add: chain_ok_def)

lemma chain_ok_cong:
  assumes "\<And>b. b \<in> set st \<Longrightarrow> parent_of T' b = parent_of T b \<and> id_of T' b = id_of T b"
  shows "chain_ok T' st \<longleftrightarrow> chain_ok T st"
  using assms
proof (induction st)
  case (Cons b st)
  then show ?case by (auto simp: chain_ok_Cons split: list.split)
qed simp

subsection \<open>An entry\<close>

lemma opened_update: "opened (stk(k := st)) = set st \<union> (\<Union>j \<in> - {k}. set (stk j))"
  by (auto simp: opened_def split: if_splits)

lemma tinv_entry:
  assumes i: "tinv T stk n" and t: "tstate T stk n"
    and p: "p = (case stk k of [] \<Rightarrow> root | b # _ \<Rightarrow> id_of T b)"
    and fresh: "\<And>b. parent_of T b \<noteq> Some e"
  shows "tinv (T(n \<mapsto> (e, p, ts, 0, 0))) (stk(k := n # stk k)) (Suc n)"
proof -
  let ?T = "T(n \<mapsto> (e, p, ts, 0, 0))" and ?stk = "stk(k := n # stk k)"
  have n: "T n = None" using tstate_bound [OF t, of n] by (cases "T n") auto
  have op: "opened ?stk = insert n (opened stk)"
    by (auto simp: opened_def split: if_splits)
  have old: "parent_of ?T b = parent_of T b \<and> id_of ?T b = id_of T b" if "b \<noteq> n" for b
    using that by (simp add: parent_of_def id_of_def)
  have mem: "b \<noteq> n" if "b \<in> set (stk j)" for b j
    using tstate_live [OF t that] n by auto
  have chains: "chain_ok ?T (stk j)" for j
  proof -
    have "chain_ok T (stk j)" using i unfolding tinv_def by blast
    then show ?thesis using chain_ok_cong [of "stk j" ?T T] old mem by blast
  qed
  have chain_k: "chain_ok ?T (n # stk k)"
  proof (cases "stk k")
    case Nil
    then show ?thesis using p by (simp add: chain_ok_Cons parent_of_def)
  next
    case (Cons b bs)
    then have "b \<noteq> n" using mem [of b k] by simp
    then have "parent_of ?T n = Some (id_of ?T b)" using p Cons old by (simp add: parent_of_def)
    then show ?thesis using Cons chains [of k] chain_ok_Cons [of ?T n "stk k"] by simp
  qed
  have dn: "done_children ?T (insert n (opened stk)) (Suc n) j = done_children T (opened stk) n j" for j
    unfolding done_children_def using old less_Suc_eq by auto
  have run: "(\<Sum>b \<in> done_children T (opened stk) n j. runtime_of ?T b) =
      (\<Sum>b \<in> done_children T (opened stk) n j. runtime_of T b)" for j
    by (rule sum.cong) (auto simp: done_children_def runtime_of_def)
  have none: "done_children T (opened stk) n e = {}" using fresh by (simp add: done_children_def)
  show ?thesis
    unfolding tinv_def dn run op
  proof (intro conjI allI impI)
    show "chain_ok ?T (?stk j)" for j using chains chain_k by simp
    fix a j q ea r x assume a: "?T a = Some (j, q, ea, r, x)"
    show "x = (if a \<in> insert n (opened stk) then 0 else r)
        - (\<Sum>b \<in> done_children T (opened stk) n j. runtime_of T b)"
    proof (cases "a = n")
      case True
      then show ?thesis using a none by simp
    next
      case False
      then show ?thesis using a i by (simp add: tinv_def)
    qed
  qed
qed

subsection \<open>An exit\<close>

lemma tinv_exit:
  assumes i: "tinv T stk n" and t: "tstate T stk n" and st: "stk k = it # rest" and v: "T it = Some v"
    and T': "T' = (case rest of
        [] \<Rightarrow> T(it \<mapsto> complete_times ts v)
      | b # _ \<Rightarrow> T(it \<mapsto> complete_times ts v, b := map_option (subtract_time (ts - fst (snd (snd v)))) (T b)))"
  shows "tinv T' (stk(k := rest)) n"
proof -
  obtain j p e r x where vv: "v = (j, p, e, r, x)" by (cases v)
  define rt where "rt = ts - e"
  let ?stk = "stk(k := rest)" and ?S = "opened stk" and ?S' = "opened (stk(k := rest))"
  have "distinct (it # rest)" using tstate_distinct [OF t, of k] st by simp
  then have itr: "it \<notin> set rest" by simp
  have hd: "b \<noteq> it" "b \<in> ?S" if "rest = b # bs" for b bs
    using that itr st openedI [of b stk k] by auto
  have other: "it \<notin> set (stk l)" if "l \<noteq> k" for l
  proof -
    have "set (stk l) \<inter> set (stk k) = {}" using t that unfolding tstate_def by blast
    then show ?thesis using st by auto
  qed
  have itS: "it \<in> ?S" using st openedI [of it stk k] by simp
  have S': "?S' = ?S - {it}"
    using other itr st by (auto simp: opened_def split: if_splits) (metis set_ConsD)
  have get: "T' a = (if a = it then Some (j, p, e, rt, x + rt)
      else if \<exists>bs. rest = a # bs then map_option (subtract_time rt) (T a) else T a)" for a
    using T' vv hd by (cases rest) (auto simp: rt_def)
  have par: "parent_of T' a = parent_of T a" "id_of T' a = id_of T a" for a
    using v vv by (cases "T a"; force simp: get parent_of_def id_of_def)+
  have run: "runtime_of T' a = (if a = it then rt else runtime_of T a)" for a
    by (auto simp: get runtime_of_def split: option.splits)
  have chain: "chain_ok T' (stk l) = chain_ok T (stk l)" for l
    by (rule chain_ok_cong) (simp add: par)
  have chk: "chain_ok T (it # rest)" using i st by (metis tinv_def)
  have pit: "p = (case rest of [] \<Rightarrow> root | b # _ \<Rightarrow> id_of T b)"
    using chk v vv by (simp add: chain_ok_Cons parent_of_def)
  have unique: "a = b" if "T a = Some va" "T b = Some vb" "fst va = fst vb" for a b va vb
    using t that unfolding tstate_def by blast
  have pt: "parent_of T it = Some p" using v vv by (simp add: parent_of_def)
  have kids: "done_children T' ?S' n l = (if p = l then insert it (done_children T ?S n l) else done_children T ?S n l)" for l
    using tstate_bound [OF t v] pt itS unfolding done_children_def S' par by auto
  have notin: "it \<notin> done_children T ?S n l" for l using itS by (simp add: done_children_def)
  have sums: "(\<Sum>b \<in> done_children T' ?S' n l. runtime_of T' b) =
      (\<Sum>b \<in> done_children T ?S n l. runtime_of T b) + (if p = l then rt else 0)" for l
  proof -
    have "(\<Sum>b \<in> done_children T ?S n l. runtime_of T' b) = (\<Sum>b \<in> done_children T ?S n l. runtime_of T b)"
      by (rule sum.cong) (use notin [of l] in \<open>auto simp: run\<close>)
    then show ?thesis using notin [of l] by (simp add: kids run)
  qed
  have hd_id: "\<exists>w. T b = Some w \<and> fst w = p" if c: "rest = b # bs" for b bs
  proof -
    obtain w where "T b = Some w" using tstate_live [OF t, of b k] st c by auto
    then show ?thesis using pit c by (cases w) (auto simp: id_of_def)
  qed
  have pj: "p \<noteq> j"
  proof (cases rest)
    case Nil
    then show ?thesis using pit tstate_root [OF t v] vv by auto
  next
    case (Cons b bs)
    then show ?thesis using hd_id [OF Cons] unique [of b _ it v] v vv hd(1) [OF Cons] by auto
  qed
  have "xa = (if a \<in> ?S' then 0 else ra) - (\<Sum>b \<in> done_children T' ?S' n l. runtime_of T' b)"
    if a: "T' a = Some (l, q, ea, ra, xa)" for a l q ea ra xa
  proof -
    consider "a = it" | (top) bs where "a \<noteq> it" "rest = a # bs" | (other) "a \<noteq> it" "\<not> (\<exists>bs. rest = a # bs)"
      by blast
    then have "xa = (if a \<in> ?S' then 0 else ra)
        - ((\<Sum>b \<in> done_children T ?S n l. runtime_of T b) + (if p = l then rt else 0))"
    proof cases
      case 1
      have "x = 0 - (\<Sum>b \<in> done_children T ?S n j. runtime_of T b)"
        using i v vv itS unfolding tinv_def by fastforce
      then show ?thesis using 1 a pj S' by (auto simp: get)
    next
      case top
      obtain w where w: "T a = Some w" "fst w = p" using hd_id [OF top(2)] by blast
      obtain xw where w': "w = (l, q, ea, ra, xw)" "xa = xw - rt"
        using a top w by (cases w) (auto simp: get)
      have "a \<in> ?S" by (rule hd(2) [OF top(2)])
      then have "xw = 0 - (\<Sum>b \<in> done_children T ?S n l. runtime_of T b)"
        using i w w' unfolding tinv_def by fastforce
      then have "xa = 0 - ((\<Sum>b \<in> done_children T ?S n l. runtime_of T b) + rt)"
        using w'(2) by (simp add: diff_diff_eq)
      moreover have "a \<in> ?S'" "p = l" using w w' top(1) S' \<open>a \<in> ?S\<close> by auto
      ultimately show ?thesis by simp
    next
      case other
      then have Ta: "T a = Some (l, q, ea, ra, xa)" using a get [of a] by auto
      have "p \<noteq> l"
      proof (cases rest)
        case Nil
        then show ?thesis using pit tstate_root [OF t Ta] by auto
      next
        case (Cons b bs)
        then show ?thesis using hd_id [OF Cons] unique [of b _ a] Ta other by fastforce
      qed
      moreover have "xa = (if a \<in> ?S then 0 else ra) - (\<Sum>b \<in> done_children T ?S n l. runtime_of T b)"
        using i Ta unfolding tinv_def by blast
      ultimately show ?thesis using other S' by simp
    qed
    then show ?thesis by (simp only: sums)
  qed
  moreover have "chain_ok T' (?stk l)" for l
  proof -
    have "chain_ok T (stk l)" using i unfolding tinv_def by blast
    moreover have "chain_ok T rest" using chk chain_ok_Cons [of T it rest] by simp
    moreover have "chain_ok T' rest = chain_ok T rest" by (rule chain_ok_cong) (simp add: par)
    ultimately show ?thesis using chain [of l] by simp
  qed
  ultimately show ?thesis unfolding tinv_def by blast
qed

subsection \<open>The event manager\<close>

definition stack :: "adevent \<Rightarrow> prt \<Rightarrow> addr list" where
  "stack s k = al_get [] (m_callStack s) k"

abbreviation open_calls :: "adevent \<Rightarrow> addr set" where
  "open_calls s \<equiv> opened (stack s)"

definition timed :: "adevent \<Rightarrow> bool" where
  "timed s \<longleftrightarrow> tinv (tm s) (stack s) (next_addr s)"

lemma tm_Some: "tm s a = Some v \<longleftrightarrow> (\<exists>x. store_map s a = Some x \<and> v = ctimes x)"
  by (auto simp: tm_def)

lemma einv_tstate: "einv s \<Longrightarrow> tstate (tm s) (stack s) (next_addr s)"
proof -
  assume inv: "einv s"
  note a = einv_ainv [OF inv]
  have live: "\<exists>v. tm s b = Some v" if "b \<in> set (stack s k)" for b k
  proof -
    have "et s b \<noteq> None" using ainv_stack [OF a, of b k] that by (auto simp: stack_def)
    then show ?thesis by (auto simp: et_def tm_def ctimes_def)
  qed
  have node: "c < next_addr s" "x_id x \<noteq> root" "m_callIDMap s (x_id x) = Some c"
    if "store_map s c = Some x" for c x
    using ginv_node [OF einv_ginv [OF inv] sk_get [OF that]] by auto
  have same: "c = d" if "store_map s c = Some x" "store_map s d = Some y" "x_id x = x_id y" for c d x y
    using node(3) [OF that(1)] node(3) [OF that(2)] that(3) by simp
  have dis: "set (stack s k) \<inter> set (stack s k') = {}" if "k \<noteq> k'" for k k'
    using ainv_disjoint(1) [OF a] that unfolding stack_def al_disjoint_def by blast
  show ?thesis unfolding tstate_def
  proof (intro conjI allI ballI impI)
    show "distinct (stack s k)" for k
      using al_disjoint_distinct [OF ainv_disjoint(1) [OF a]] by (simp add: stack_def)
    show "tm s b \<noteq> None" if "b \<in> opened (stack s)" for b
      using that live unfolding opened_def by fastforce
    show "b < next_addr s" if "tm s b \<noteq> None" for b
      using that node(1) by (auto simp: tm_def)
    show "c = d" if "tm s c = Some v \<and> tm s d = Some w \<and> fst v = fst w" for c d v w
      using that same by (auto simp: tm_Some ctimes_def)
    show "fst v \<noteq> root" if "tm s c = Some v" for c v
      using that node(2) by (auto simp: tm_Some ctimes_def)
  qed (use dis in blast)
qed

lemma func_kind_frame:
  assumes "func_kind e types s = Some (is_entry, is_exit, s1)"
  shows "tm s1 = tm s" "m_callStack s1 = m_callStack s" "next_addr s1 = next_addr s"
    "sk s1 = sk s" "m_callIDMap s1 = m_callIDMap s" "cpu_tid s1 = cpu_tid s" "store_map s1 = store_map s"
    "einv s \<Longrightarrow> einv s1"
proof -
  show "tm s1 = tm s" "m_callStack s1 = m_callStack s" "next_addr s1 = next_addr s"
    "sk s1 = sk s" "m_callIDMap s1 = m_callIDMap s" "cpu_tid s1 = cpu_tid s" "store_map s1 = store_map s"
    using assms by (auto simp: func_kind_def split: if_splits option.splits)
  show "einv s1" if "einv s"
    by (rule einv_cong [OF that]) (use assms in \<open>auto simp: func_kind_def split: if_splits option.splits\<close>)
qed

definition no_effect :: "adevent \<Rightarrow> adevent \<Rightarrow> bool" where
  "no_effect s t \<longleftrightarrow> tm t = tm s \<and> stack t = stack s \<and> next_addr t = next_addr s \<and>
     cpu_tid t = cpu_tid s"

lemma timed_same: "tm t = tm s \<Longrightarrow> stack t = stack s \<Longrightarrow> next_addr t = next_addr s \<Longrightarrow>
    timed s \<Longrightarrow> timed t"
  by (simp add: timed_def)

lemma timed_no_effect: "no_effect s t \<Longrightarrow> timed s \<Longrightarrow> timed t"
  by (simp add: no_effect_def timed_def)

definition entry_effect :: "event_t \<Rightarrow> adevent \<Rightarrow> adevent \<Rightarrow> bool" where
  "entry_effect ev s t \<longleftrightarrow> next_addr t = Suc (next_addr s) \<and> cpu_tid t = cpu_tid s \<and>
     tm t = (tm s)(next_addr s \<mapsto> (m_id ev, parent_id (stack s (prt_of ev)) s, ev_ts ev, 0, 0)) \<and>
     stack t = (stack s)(prt_of ev := next_addr s # stack s (prt_of ev))"

lemma timed_entry:
  assumes "einv s" "timed s" "fresh (sk s) (m_callIDMap s) (m_id ev)" "entry_effect ev s t"
  shows "timed t"
proof -
  let ?k = "prt_of ev"
  have "parent_id (stack s ?k) s = (case stack s ?k of [] \<Rightarrow> root | b # _ \<Rightarrow> id_of (tm s) b)"
    by (auto simp: parent_id_def id_of_def tm_def ctimes_def split: list.split option.split)
  moreover have "parent_of (tm s) b \<noteq> Some (m_id ev)" for b
    using assms(3) by (auto simp: fresh_def parent_of_def tm_def ctimes_def sk_def)
  ultimately show ?thesis
    using tinv_entry [OF _ einv_tstate [OF assms(1)]] assms(2,4) by (simp add: timed_def entry_effect_def)
qed

lemma timed_exit:
  assumes "einv s" "timed s" "next_addr t = next_addr s" "exit_effect ev s t"
  shows "timed t"
  using assms(4) unfolding exit_effect_def
proof (elim disjE exE conjE)
  assume "tm t = tm s" "\<forall>k. al_get [] (m_callStack t) k = al_get [] (m_callStack s) k"
  then show "timed t"
    using assms(2,3) by (intro timed_same [of t s]) (auto simp: stack_def)
next
  fix it rest v
  assume e: "al_get [] (m_callStack s) (prt_of ev) = it # rest" "tm s it = Some v"
    "\<forall>k. al_get [] (m_callStack t) k = (if k = prt_of ev then rest else al_get [] (m_callStack s) k)"
    "tm t = (case rest of
         [] \<Rightarrow> (tm s)(it \<mapsto> complete_times (ev_ts ev) v)
       | b # _ \<Rightarrow> (tm s)(it \<mapsto> complete_times (ev_ts ev) v,
           b := map_option (subtract_time (ev_ts ev - fst (snd (snd v)))) (tm s b)))"
  have "stack t = (stack s)(prt_of ev := rest)" using e(3) by (auto simp: stack_def fun_eq_iff)
  then show "timed t"
    using tinv_exit [OF _ einv_tstate [OF assms(1)] _ e(2) e(4)] assms(2,3) e(1)
    by (simp add: timed_def stack_def)
qed

lemma addComm_frame:
  assumes run: "addComm ev s = Inr (err, t)" and ty: "m_t ev = COMM"
  shows "no_effect s t"
proof (cases "m_eventType s")
  case None
  then show ?thesis using run by (simp add: addComm_def no_effect_def)
next
  case (Some types)
  show ?thesis
  proof (cases "comm_kind (to_i32 (m_data ev ! IDX_E)) types s")
    case None
    then show ?thesis using run ty Some by (simp add: addComm_def ev_eid_def no_effect_def)
  next
    case (Some z)
    obtain a b s1 where z: "z = (a, b, s1)" by (cases z)
    have "tm s1 = tm s" "m_callStack s1 = m_callStack s" "next_addr s1 = next_addr s" "cpu_tid s1 = cpu_tid s"
      using Some z by (auto simp: comm_kind_def split: if_splits option.splits)
    then have "no_effect s s1" "no_effect s (s1\<lparr>m_commStack := v\<rparr>)" for v
      by (simp_all add: no_effect_def stack_def [abs_def])
    moreover have "t = s1 \<or> (\<exists>v. t = s1\<lparr>m_commStack := v\<rparr>)"
      using run ty Some z \<open>m_eventType s = Some types\<close>
      by (auto simp: addComm_def ev_eid_def new_CommData_def ev_partner_def ev_bytes_def ev_tag_def
          split: if_splits)
    ultimately show ?thesis by blast
  qed
qed

text \<open>An event enters one call, completes one call, or leaves times and stacks alone.\<close>

lemma addEvent_effect:
  assumes inv: "einv s" and ok: "event_ok ev s" and run: "addEvent ev s = Inr (err, t)"
  obtains (none) "no_effect s t"
  | (entry) "m_t ev = FUNC" "entry_effect ev s t"
  | (exit) "m_t ev = FUNC" "next_addr t = next_addr s" "cpu_tid t = cpu_tid s" "exit_effect ev s t"
proof (cases "m_t ev")
  case UnknownType
  then show thesis using run none by (simp add: addEvent_def no_effect_def)
next
  case COMM
  then show thesis using none addComm_frame run by (simp add: addEvent_def)
next
  case COUNT
  then have "no_effect s t"
    using run by (auto simp: addEvent_def addCounter_def bind_simps no_effect_def stack_def [abs_def]
        split: option.splits)
  then show thesis by (rule none)
next
  case FUNC
  then have run: "addFunc ev s = Inr (err, t)" using run by (simp add: addEvent_def)
  show thesis
  proof (cases "m_eventType s")
    case None
    then show thesis using run none by (simp add: addFunc_def no_effect_def)
  next
    case (Some types)
    show thesis
    proof (cases "func_kind (to_i32 (m_data ev ! IDX_E)) types s")
      case None
      then show thesis using run FUNC none Some by (simp add: addFunc_def ev_eid_def no_effect_def)
    next
      case (Some z)
      obtain is_entry is_exit s1 where k: "m_eventType s = Some types"
        "func_kind (to_i32 (m_data ev ! IDX_E)) types s = Some (is_entry, is_exit, s1)"
        using Some \<open>m_eventType s = Some types\<close> by (cases z) auto
      note fr = func_kind_frame [OF k(2)]
      note inv1 = fr(8) [OF inv]
      have ok1: "cpu_tid s1 (ev_tid ev)" "fresh (sk s1) (m_callIDMap s1) (m_id ev)"
        using ok FUNC fr by (simp_all add: event_ok_def)
      have st1: "stack s1 = stack s" using fr by (simp add: stack_def [abs_def])
      consider "t = s1" | nm where "func_entry nm ev s1 = Inr (err, t)" | "func_exit ev s1 = Inr (err, t)"
        using run k FUNC by (auto simp: addFunc_def ev_eid_def ev_fid_def split: option.splits if_splits)
      then show thesis
      proof cases
        case 1
        then show thesis using none fr st1 by (simp add: no_effect_def)
      next
        case 2
        then have "next_addr t = Suc (next_addr s1)" "cpu_tid t = cpu_tid s1"
            "tm t = (tm s1)(next_addr s1 \<mapsto> (m_id ev, parent_id (stack s1 (prt_of ev)) s1, ev_ts ev, 0, 0))"
            "m_callStack t = AList.update (prt_of ev) (next_addr s1 # stack s1 (prt_of ev)) (m_callStack s1)"
          using func_entry_result [OF inv1 FUNC ok1, of nm] by (auto simp: stack_def)
        moreover have "parent_id cs s1 = parent_id cs s" for cs
          using fr(7) by (simp add: parent_id_def cong: list.case_cong)
        moreover have "stack t = (stack s)(prt_of ev := next_addr s # stack s (prt_of ev))"
          using calculation(4) fr st1 by (auto simp: stack_def fun_eq_iff)
        ultimately show thesis using entry FUNC fr st1 by (simp add: entry_effect_def)
      next
        case 3
        then have "next_addr t = next_addr s1" "cpu_tid t = cpu_tid s1" "exit_effect ev s1 t"
          using func_exit_result [OF inv1 FUNC] by auto
        moreover have "exit_effect ev s1 t = exit_effect ev s t" unfolding exit_effect_def fr(1,2) ..
        ultimately show thesis using exit FUNC fr(3,6) by simp
      qed
    qed
  qed
qed

lemma timed_event:
  assumes inv: "einv s" and tm: "timed s" and ok: "event_ok ev s" and run: "addEvent ev s = Inr (err, t)"
  shows "timed t"
  using inv ok run
proof (cases rule: addEvent_effect)
  case none
  then show ?thesis using timed_no_effect tm by blast
next
  case entry
  then have "fresh (sk s) (m_callIDMap s) (m_id ev)" using ok by (simp add: event_ok_def)
  then show ?thesis using timed_entry [OF inv tm] entry(2) by blast
next
  case exit
  then show ?thesis using timed_exit [OF inv tm] by blast
qed

inductive ev_reach :: "adevent \<Rightarrow> bool" where
  start: "ev_reach (linkGPUthreadMap tids (linkCounterMap names (linkFuncMap funcs
    (linkEventType types new_ADEvent))))"
| ignore: "ev_reach s \<Longrightarrow> ev_reach (ignoreCorrelationIDsForFunction f s)"
| event: "ev_reach s \<Longrightarrow> event_ok ev s \<Longrightarrow> addEvent ev s = Inr (err, t) \<Longrightarrow> ev_reach t"
| label: "ev_reach s \<Longrightarrow> store_map s a = Some x \<Longrightarrow>
    ev_reach (put a (x\<lparr>m_label := l, m_score := sc\<rparr>) s)"
| exec_map: "ev_reach s \<Longrightarrow> ev_reach (s\<lparr>m_execDataMap := m\<rparr>)"
| tables: "ev_reach s \<Longrightarrow>
    ev_reach (s\<lparr>m_eventType := types', m_funcMap := funcs', m_counterMap := names'\<rparr>)"

lemma ev_reach_ad: "ev_reach s \<Longrightarrow> ad_reach s"
  by (induction rule: ev_reach.induct) (auto intro: ad_reach.intros)

lemma timed_start: "store_map s = Map.empty \<Longrightarrow> m_callStack s = [] \<Longrightarrow> timed s"
  by (auto simp: timed_def tinv_def stack_def tm_def)

lemma ev_reach_timed: "ev_reach s \<Longrightarrow> timed s"
proof (induction rule: ev_reach.induct)
  case (start tids names funcs types)
  show ?case
    by (rule timed_start)
      (simp_all add: new_ADEvent_def linkEventType_def linkFuncMap_def linkCounterMap_def linkGPUthreadMap_def)
next
  case (ignore s f)
  show ?case
    by (rule timed_no_effect [OF _ ignore.IH])
      (simp add: no_effect_def ignoreCorrelationIDsForFunction_def tm_def stack_def [abs_def] cpu_tid_def fun_eq_iff)
next
  case (event s ev err t)
  then show ?case using timed_event ad_reach_einv ev_reach_ad by blast
next
  case (label s a x l sc)
  then show ?case
    by (intro timed_no_effect [OF _ label.IH])
      (auto simp: no_effect_def put_def tm_def ctimes_def stack_def [abs_def] cpu_tid_def fun_eq_iff)
next
  case (exec_map s m)
  show ?case
    by (rule timed_no_effect [OF _ exec_map.IH]) (simp add: no_effect_def stack_def [abs_def])
next
  case (tables s types' funcs' names')
  show ?case
    by (rule timed_no_effect [OF _ tables.IH])
      (simp add: no_effect_def tm_def stack_def [abs_def] cpu_tid_def fun_eq_iff)
qed

text \<open>
  C4. Exclusive time. In any run that erases no call, the exclusive time of a call is its
  inclusive time (zero while the call is still on its stack) minus the inclusive times of
  those of its children that have completed, computed in 64-bit arithmetic; and the calls
  on a stack are linked as parent and child from top to bottom.
\<close>

theorem exclusive_time:
  assumes "ev_reach s" "store_map s a = Some x"
  shows "m_exclusive x = (if a \<in> open_calls s then 0 else m_runtime x)
      - (\<Sum>b \<in> {b. b \<notin> open_calls s \<and> (\<exists>y. store_map s b = Some y \<and> m_parent y = x_id x)}.
          m_runtime (the (store_map s b))) \<and>
    (\<forall>k pre b rest y. stack s k = pre @ b # rest \<and> store_map s b = Some y \<longrightarrow>
      m_parent y = (case rest of [] \<Rightarrow> root | c # _ \<Rightarrow> x_id (the (store_map s c))))"
proof -
  note inv = ad_reach_einv [OF ev_reach_ad [OF assms(1)]]
  note t = ev_reach_timed [OF assms(1)] and ts = einv_tstate [OF inv]
  let ?D = "done_children (tm s) (open_calls s) (next_addr s) (x_id x)"
  have D: "?D = {b. b \<notin> open_calls s \<and> (\<exists>y. store_map s b = Some y \<and> m_parent y = x_id x)}"
    using tstate_bound [OF ts]
    by (fastforce simp: done_children_def parent_of_def tm_def ctimes_def)
  have sum: "(\<Sum>b \<in> ?D. runtime_of (tm s) b) = (\<Sum>b \<in> ?D. m_runtime (the (store_map s b)))"
    by (rule sum.cong) (auto simp: done_children_def parent_of_def runtime_of_def tm_def ctimes_def)
  have "tm s a = Some (x_id x, m_parent x, m_entry x, m_runtime x, m_exclusive x)"
    using assms(2) by (simp add: tm_def ctimes_def)
  then have ex: "m_exclusive x = (if a \<in> open_calls s then 0 else m_runtime x)
      - (\<Sum>b \<in> ?D. runtime_of (tm s) b)"
    using t unfolding timed_def tinv_def by blast
  have "m_parent y = (case rest of [] \<Rightarrow> root | c # _ \<Rightarrow> x_id (the (store_map s c)))"
    if st: "stack s k = pre @ b # rest" and y: "store_map s b = Some y" for k pre b rest y
  proof -
    have "parent_of (tm s) b = Some (case rest of [] \<Rightarrow> root | c # _ \<Rightarrow> id_of (tm s) c)"
      using t st unfolding timed_def tinv_def chain_ok_def by blast
    moreover have "id_of (tm s) c = x_id (the (store_map s c))" if "rest = c # r" for c r
    proof -
      have "\<exists>v. tm s c = Some v" using tstate_live [OF ts, of c k] st that by simp
      then show ?thesis by (auto simp: id_of_def tm_def ctimes_def)
    qed
    ultimately show ?thesis using y by (auto simp: parent_of_def tm_def ctimes_def split: list.splits)
  qed
  then show ?thesis using ex unfolding sum unfolding D by blast
qed

text \<open>A parent of inclusive time 30 with one child of inclusive time 10.\<close>

definition late_state :: adevent where
  "late_state = (case wit_run late_events of Inl _ \<Rightarrow> wit_start | Inr t \<Rightarrow> t)"

lemma wit_ev_reach:
  assumes "ev_reach s" "wit_steps evs s"
  shows "\<exists>t. foldE (\<lambda>ev s. bind (addEvent ev s) (\<lambda>(err, t). Inr t)) evs s = Inr t \<and> ev_reach t"
  using assms
proof (induction evs arbitrary: s)
  case (Cons ev evs)
  then obtain err t where t: "addEvent ev s = Inr (err, t)" "wit_steps evs t"
    by (auto split: sum.splits prod.splits)
  have "event_ok ev s" using Cons.prems event_ok_uptoI [OF ad_reach_einv [OF ev_reach_ad]] by simp
  then have "ev_reach t" using ev_reach.event [OF Cons.prems(1) _ t(1)] by blast
  then show ?case using Cons.IH [OF _ t(2)] t(1) by simp
qed simp

lemma late_state_reach: "ev_reach late_state"
proof -
  have "ev_reach wit_start" unfolding wit_start_def by (rule ev_reach.start)
  moreover have "wit_steps late_events wit_start" by code_simp
  ultimately show ?thesis
    using wit_ev_reach by (fastforce simp: late_state_def wit_run_def)
qed

theorem exclusive_time_witness:
  "\<exists>x. store_map late_state 0 = Some x \<and> m_exclusive x = 20 \<and>
     20 = 30 - (\<Sum>b \<in> {b. b \<notin> open_calls late_state \<and>
        (\<exists>y. store_map late_state b = Some y \<and> m_parent y = eventID 0 0 0)}.
          m_runtime (the (store_map late_state b)))"
proof -
  have "case store_map late_state 0 of None \<Rightarrow> False
    | Some x \<Rightarrow> m_exclusive x = 20 \<and> m_runtime x = 30 \<and> x_id x = eventID 0 0 0" by code_simp
  then obtain x where x: "store_map late_state 0 = Some x" "m_exclusive x = 20" "m_runtime x = 30"
      "x_id x = eventID 0 0 0"
    by (auto split: option.splits)
  have "m_callStack late_state = [((1, 2, 3), [])]" by code_simp
  then have "open_calls late_state = {}" by (auto simp: opened_def stack_def al_get_def split: if_splits)
  then show ?thesis using exclusive_time [OF late_state_reach x(1)] x by auto
qed

end
