(* ===== verification/EventFlush.thy ===== *)
theory EventFlush
  imports EventRun
begin

text \<open>
  Which communication and counter events a completed call takes from the stacks of its
  thread, and the walks over the call list that the queries make.
\<close>

subsection \<open>The window test\<close>

lemma sint_small: "uint (w :: u64) < 2 ^ 63 \<Longrightarrow> sint w = uint w"
  using uint_ge_0 [of w] order_trans [of "- (2 ^ 63)" 0 "uint w"]
  by (simp add: sint_uint signed_take_bit_int_eq_self_iff)

lemma sint_nonneg: "0 \<le> sint (w :: u64) \<Longrightarrow> sint w = uint w"
proof -
  assume "0 \<le> sint w"
  moreover have "sint w < 2 ^ 63" using sint_lt [of w] by simp
  ultimately have "sint w mod 2 ^ 64 = sint w" by (intro mod_pos_pos_trivial) auto
  then show ?thesis by (simp add: uint_sint take_bit_eq_mod)
qed

lemma le_nonneg: "a \<le> b \<Longrightarrow> 0 \<le> sint (b :: u64) \<Longrightarrow> 0 \<le> sint a"
proof -
  assume a: "a \<le> b" and b: "0 \<le> sint b"
  have "uint b < 2 ^ 63" using sint_lt [of b] sint_nonneg [OF b] by simp
  then have "uint a < 2 ^ 63" using a by (simp add: word_le_def)
  then show "0 \<le> sint a" by (simp add: sint_small)
qed

lemma in_window_unsigned:
  assumes "0 \<le> sint (m_exit x)" "m_entry x \<le> t" "t \<le> m_exit x"
  shows "in_window t x"
proof -
  have t: "0 \<le> sint t" by (rule le_nonneg [OF assms(3,1)])
  have e: "0 \<le> sint (m_entry x)" by (rule le_nonneg [OF assms(2) t])
  show ?thesis
    using assms(2,3) sint_nonneg [OF assms(1)] sint_nonneg [OF t] sint_nonneg [OF e]
    by (simp add: in_window_def word_le_def)
qed

subsection \<open>The two flushes\<close>

abbreviation owned_comm :: "exec_data \<Rightarrow> comm_data \<Rightarrow> comm_data" where
  "owned_comm x c \<equiv> c\<lparr>cm_execkey := x_id x\<rparr>"

abbreviation owned_counter :: "exec_data \<Rightarrow> counter_data \<Rightarrow> counter_data" where
  "owned_counter x c \<equiv> c\<lparr>ct_execkey := x_id x\<rparr>"

lemma flush_comm_spec:
  assumes "flush_comm e x st r0 = (y, st', r)" "m_exit x = e" "0 \<le> sint e"
  shows "\<exists>pre. st = pre @ st' \<and> (\<forall>c \<in> set pre. m_entry x \<le> cm_ts c) \<and>
    (st' = [] \<or> cm_ts (hd st') < m_entry x) \<and> r = r0 @ filter (\<lambda>c. e < cm_ts c) pre \<and>
    m_messages y = map (owned_comm x) (rev (filter (\<lambda>c. cm_ts c \<le> e) pre)) @ m_messages x \<and>
    m_n_messages y = m_n_messages x + of_nat (length (filter (\<lambda>c. cm_ts c \<le> e) pre)) \<and>
    m_counters y = m_counters x"
  using assms
proof (induction e x st r0 arbitrary: y st' r rule: flush_comm.induct)
  case (1 e x r0)
  then show ?case by simp
next
  case (2 e x c st r0)
  consider (older) "cm_ts c < m_entry x" | (newer) "m_entry x \<le> cm_ts c" "e < cm_ts c"
    | (inside) "m_entry x \<le> cm_ts c" "cm_ts c \<le> e" by force
  then show ?case
  proof cases
    case older
    then show ?thesis using 2(3) by (intro exI [of _ "[]"]) auto
  next
    case newer
    then have n: "\<not> cm_ts c < m_entry x" "cm_ts c > e" by auto
    have run: "flush_comm e x st (r0 @ [c]) = (y, st', r)" using 2(3) n by simp
    obtain pre where "st = pre @ st'" "\<forall>c \<in> set pre. m_entry x \<le> cm_ts c"
      "st' = [] \<or> cm_ts (hd st') < m_entry x" "r = (r0 @ [c]) @ filter (\<lambda>c. e < cm_ts c) pre"
      "m_messages y = map (owned_comm x) (rev (filter (\<lambda>c. cm_ts c \<le> e) pre)) @ m_messages x"
      "m_n_messages y = m_n_messages x + of_nat (length (filter (\<lambda>c. cm_ts c \<le> e) pre))"
      "m_counters y = m_counters x"
      using 2(1) [OF n run 2(4,5)] by blast
    then show ?thesis using newer by (intro exI [of _ "c # pre"]) auto
  next
    case inside
    let ?x = "snd (add_message c Front x)"
    have w: "in_window (cm_ts c) x" using in_window_unsigned [of x "cm_ts c"] inside 2(4,5) by simp
    have x: "m_entry ?x = m_entry x" "m_exit ?x = m_exit x" "x_id ?x = x_id x"
      "m_messages ?x = owned_comm x c # m_messages x" "m_n_messages ?x = m_n_messages x + 1"
      "m_counters ?x = m_counters x"
      using w by (simp_all add: add_message_def Let_def)
    have n: "\<not> cm_ts c < m_entry x" "\<not> cm_ts c > e" using inside by auto
    have run: "flush_comm e ?x st r0 = (y, st', r)" using 2(3) n by simp
    obtain pre where "st = pre @ st'" "\<forall>c \<in> set pre. m_entry ?x \<le> cm_ts c"
      "st' = [] \<or> cm_ts (hd st') < m_entry ?x" "r = r0 @ filter (\<lambda>c. e < cm_ts c) pre"
      "m_messages y = map (owned_comm ?x) (rev (filter (\<lambda>c. cm_ts c \<le> e) pre)) @ m_messages ?x"
      "m_n_messages y = m_n_messages ?x + of_nat (length (filter (\<lambda>c. cm_ts c \<le> e) pre))"
      "m_counters y = m_counters ?x"
      using 2(2) [OF n run _ 2(5)] 2(4) x by auto
    then show ?thesis using inside x by (intro exI [of _ "c # pre"]) (auto simp: not_less)
  qed
qed

lemma flush_counter_spec:
  assumes "flush_counter e x st r0 j0 = (y, st', r, j)" "m_exit x = e" "0 \<le> sint e"
  shows "\<exists>pre. st = pre @ st' \<and> (\<forall>c \<in> set pre. m_entry x \<le> ct_ts c) \<and>
    (st' = [] \<or> ct_ts (hd st') < m_entry x) \<and> r = r0 @ filter (\<lambda>c. e < ct_ts c) pre \<and>
    m_counters y = map (owned_counter x) (rev (filter (\<lambda>c. ct_ts c \<le> e) pre)) @ m_counters x \<and>
    m_messages y = m_messages x \<and> m_n_messages y = m_n_messages x \<and> j = j0"
  using assms
proof (induction e x st r0 j0 arbitrary: y st' r j rule: flush_counter.induct)
  case (1 e x r0 j0)
  then show ?case by simp
next
  case (2 e x c st r0 j0)
  consider (older) "ct_ts c < m_entry x" | (newer) "m_entry x \<le> ct_ts c" "e < ct_ts c"
    | (inside) "m_entry x \<le> ct_ts c" "ct_ts c \<le> e" by force
  then show ?case
  proof cases
    case older
    then show ?thesis using 2(3) by (intro exI [of _ "[]"]) auto
  next
    case newer
    then have n: "\<not> ct_ts c < m_entry x" "ct_ts c > e" by auto
    have run: "flush_counter e x st (r0 @ [c]) j0 = (y, st', r, j)" using 2(3) n by simp
    obtain pre where "st = pre @ st'" "\<forall>c \<in> set pre. m_entry x \<le> ct_ts c"
      "st' = [] \<or> ct_ts (hd st') < m_entry x" "r = (r0 @ [c]) @ filter (\<lambda>c. e < ct_ts c) pre"
      "m_counters y = map (owned_counter x) (rev (filter (\<lambda>c. ct_ts c \<le> e) pre)) @ m_counters x"
      "m_messages y = m_messages x" "m_n_messages y = m_n_messages x" "j = j0"
      using 2(1) [OF n run 2(4,5)] by blast
    then show ?thesis using newer by (intro exI [of _ "c # pre"]) auto
  next
    case inside
    let ?x = "x\<lparr>m_counters := owned_counter x c # m_counters x\<rparr>"
    have w: "in_window (ct_ts c) x" using in_window_unsigned [of x "ct_ts c"] inside 2(4,5) by simp
    have a: "add_counter c Front x = (True, ?x)" using w by (simp add: add_counter_def Let_def)
    have n: "\<not> ct_ts c < m_entry x" "\<not> ct_ts c > e" using inside by auto
    have run: "flush_counter e ?x st r0 j0 = (y, st', r, j)" using 2(3) n a by simp
    have e: "m_exit ?x = e" using 2(4) by simp
    obtain pre where "st = pre @ st'" "\<forall>c \<in> set pre. m_entry ?x \<le> ct_ts c"
      "st' = [] \<or> ct_ts (hd st') < m_entry ?x" "r = r0 @ filter (\<lambda>c. e < ct_ts c) pre"
      "m_counters y = map (owned_counter ?x) (rev (filter (\<lambda>c. ct_ts c \<le> e) pre)) @ m_counters ?x"
      "m_messages y = m_messages ?x" "m_n_messages y = m_n_messages ?x" "j = j0"
      using 2(2) [OF n a [symmetric]] run e 2(5) by auto
    then show ?thesis using inside by (intro exI [of _ "c # pre"]) (auto simp: not_less)
  qed
qed

lemma push_back_all_append: "push_back_all r st = r @ st"
  by (induction r arbitrary: st) (simp_all add: push_back_all_def foldl_append)

text \<open>
  C35. Association of events with a completed call. For an exit time that is non-negative as
  a signed number, a completed call takes exactly those communication events and counters
  at the top of its thread's stacks that lie in its time window: the events above the first
  one older than its entry are split, the later ones than the exit stay on the stack in
  their order, the others are put at the front of the call's lists, oldest first, with the
  call as their owner; no event is lost and none is rejected.
\<close>

theorem take_events_correct:
  assumes "take_events ev it s = Inr t" "store_map s it = Some x"
    and "m_exit x = ev_ts ev" "0 \<le> sint (ev_ts ev)"
  shows "\<exists>y pre rest pre' rest'. store_map t it = Some y \<and> rec_log t = rec_log s \<and>
    al_get [] (m_commStack s) (prt_of ev) = pre @ rest \<and>
    (\<forall>c \<in> set pre. m_entry x \<le> cm_ts c) \<and> (rest = [] \<or> cm_ts (hd rest) < m_entry x) \<and>
    m_messages y = map (owned_comm x) (rev (filter (\<lambda>c. cm_ts c \<le> ev_ts ev) pre)) @ m_messages x \<and>
    m_n_messages y = m_n_messages x + of_nat (length (filter (\<lambda>c. cm_ts c \<le> ev_ts ev) pre)) \<and>
    al_get [] (m_commStack t) (prt_of ev) = filter (\<lambda>c. ev_ts ev < cm_ts c) pre @ rest \<and>
    al_get [] (m_counterStack s) (prt_of ev) = pre' @ rest' \<and>
    (\<forall>c \<in> set pre'. m_entry x \<le> ct_ts c) \<and> (rest' = [] \<or> ct_ts (hd rest') < m_entry x) \<and>
    m_counters y = map (owned_counter x) (rev (filter (\<lambda>c. ct_ts c \<le> ev_ts ev) pre')) @ m_counters x \<and>
    al_get [] (m_counterStack t) (prt_of ev) = filter (\<lambda>c. ev_ts ev < ct_ts c) pre' @ rest'"
proof -
  let ?k = "prt_of ev" and ?e = "ev_ts ev"
  obtain x1 rest r where f1: "flush_comm ?e x (al_get [] (m_commStack s) ?k) [] = (x1, rest, r)"
    using prod_cases3 by blast
  obtain y rest' r' j where f2:
    "flush_counter ?e x1 (al_get [] (m_counterStack s) ?k) [] 0 = (y, rest', r', j)"
    using prod_cases4 by blast
  have h: "hdr x1 = hdr x" using flush_comm_hdr [of ?e x "al_get [] (m_commStack s) ?k" "[]"] f1 by simp
  have hx: "m_entry x1 = m_entry x" "m_exit x1 = m_exit x" "x_id x1 = x_id x"
    using hdr_fields [OF h] by auto
  obtain pre where 1: "al_get [] (m_commStack s) ?k = pre @ rest" "\<forall>c \<in> set pre. m_entry x \<le> cm_ts c"
    "rest = [] \<or> cm_ts (hd rest) < m_entry x" "r = filter (\<lambda>c. ?e < cm_ts c) pre"
    "m_messages x1 = map (owned_comm x) (rev (filter (\<lambda>c. cm_ts c \<le> ?e) pre)) @ m_messages x"
    "m_n_messages x1 = m_n_messages x + of_nat (length (filter (\<lambda>c. cm_ts c \<le> ?e) pre))"
    "m_counters x1 = m_counters x"
    using flush_comm_spec [OF f1 assms(3,4)] by auto
  obtain pre' where 2: "al_get [] (m_counterStack s) ?k = pre' @ rest'" "\<forall>c \<in> set pre'. m_entry x \<le> ct_ts c"
    "rest' = [] \<or> ct_ts (hd rest') < m_entry x" "r' = filter (\<lambda>c. ?e < ct_ts c) pre'"
    "m_counters y = map (owned_counter x) (rev (filter (\<lambda>c. ct_ts c \<le> ?e) pre')) @ m_counters x1"
    "m_messages y = m_messages x1" "m_n_messages y = m_n_messages x1" "j = 0"
    using flush_counter_spec [OF f2 _ assms(4)] assms(3) hx by auto
  have "t = (put it y s)\<lparr>m_commStack := AList.update ?k (r @ rest) (m_commStack s),
      m_counterStack := AList.update ?k (r' @ rest') (m_counterStack s), rec_log := rec_log s\<rparr>"
    using assms(1,2) f1 f2 2(8) by (simp add: take_events_def deref_def Let_def push_back_all_append)
  then show ?thesis
    using 1 2 by (intro exI [of _ y] exI [of _ pre] exI [of _ rest] exI [of _ pre'] exI [of _ rest'])
      (simp add: put_def)
qed

text \<open>A call that has just been given its exit time and finds a counter on the stack.\<close>

definition wit_taking :: adevent where
  "wit_taking = (case wit_run [wit_entry, wit_counter] of Inl _ \<Rightarrow> wit_start
     | Inr t \<Rightarrow> (case store_map t 0 of None \<Rightarrow> t | Some x \<Rightarrow> put 0 (set_exit 200 x) t))"

theorem take_events_correct_witness:
  "\<exists>t y. take_events wit_exit 0 wit_taking = Inr t \<and> store_map t 0 = Some y \<and> m_messages y = [] \<and>
     rec_log t = rec_log wit_taking"
proof -
  have "case store_map wit_taking 0 of None \<Rightarrow> False
    | Some x \<Rightarrow> m_exit x = 200 \<and> m_messages x = []" by code_simp
  then obtain x where x: "store_map wit_taking 0 = Some x" "m_exit x = 200" "m_messages x = []"
    by (auto split: option.splits)
  have "case take_events wit_exit 0 wit_taking of Inl _ \<Rightarrow> False | Inr _ \<Rightarrow> True" by code_simp
  then obtain t where t: "take_events wit_exit 0 wit_taking = Inr t" by (auto split: sum.splits)
  have e: "ev_ts wit_exit = 200" "al_get [] (m_commStack wit_taking) (prt_of wit_exit) = []"
    by code_simp+
  obtain y pre rest where y: "store_map t 0 = Some y" "rec_log t = rec_log wit_taking"
      "al_get [] (m_commStack wit_taking) (prt_of wit_exit) = pre @ rest"
      "m_messages y = map (owned_comm x) (rev (filter (\<lambda>c. cm_ts c \<le> ev_ts wit_exit) pre)) @ m_messages x"
    using take_events_correct [OF t x(1)] x(2) e(1) by auto
  then show ?thesis using t x(3) e(2) by auto
qed

subsection \<open>The call stack of a call\<close>

lemma call_stack_ok:
  assumes "gstruct (sk s) (m_callIDMap s)" "1 \<le> n"
    and "\<And>c. p \<noteq> root \<Longrightarrow> m_callIDMap s p = Some c \<Longrightarrow> c + 2 \<le> n"
  shows "\<exists>out errs. call_stack_from n p s = Inr (out, errs) \<and>
    set out = line_of (sk s) (m_callIDMap s) p \<and> sorted_wrt (>) out"
  using assms(2,3)
proof (induction n arbitrary: p)
  case (Suc n)
  let ?M = "m_callIDMap s"
  show ?case
  proof (cases "p = root \<or> ?M p = None")
    case True
    then show ?thesis
      by (subst call_stack_from.simps) (auto simp: line_of_def getCallData_def)
  next
    case False
    then obtain c where root: "p \<noteq> root" and c: "?M p = Some c" by auto
    then obtain x where x: "store_map s c = Some x" "x_id x = p"
      using gstruct_id [OF assms(1) c] by (auto simp: sk_Some)
    note skc = sk_get [OF x(1)]
    have "1 \<le> n" using Suc.prems(2) [OF root c] by simp
    moreover have "d + 2 \<le> n" if "m_parent x \<noteq> root" "?M (m_parent x) = Some d" for d
      using gstruct_parent [OF assms(1) skc that] Suc.prems(2) [OF root c] by simp
    ultimately obtain out errs where o: "call_stack_from n (m_parent x) s = Inr (out, errs)"
        "set out = line_of (sk s) ?M (m_parent x)" "sorted_wrt (>) out"
      using Suc.IH [of "m_parent x"] by blast
    have "\<forall>b \<in> set out. b < c" using line_of_below [OF assms(1) skc] o(2) by blast
    moreover have "line_of (sk s) ?M p = insert c (line_of (sk s) ?M (m_parent x))"
      using line_unfold [of "sk s" c, OF skc] root c by (simp add: line_of_def)
    moreover have "call_stack_from (Suc n) p s = Inr (c # out, errs)"
      using root c x(1) o(1) by (subst call_stack_from.simps) (simp add: getCallData_def deref_def)
    ultimately show ?thesis using o by auto
  qed
qed simp

text \<open>
  The query for a call's stack returns in every reachable state, whatever the call: it
  lists the calls on the line from the call to its oldest known ancestor, each once, child
  before parent.
\<close>

lemma getCallStack_correct:
  assumes "ad_reach s"
  shows "\<exists>out errs. getCallStack i s = Inr (out, errs) \<and>
    set out = line_of (sk s) (m_callIDMap s) i \<and> sorted_wrt (>) out"
proof -
  have b: "binv s" by (rule einv_binv [OF ad_reach_einv [OF assms]])
  show ?thesis unfolding getCallStack_def
    by (rule call_stack_ok [OF binv_struct [OF b]]) (use binv_bound [OF b, of i] in auto)
qed

lemma getCallStack_correct_witness:
  "\<exists>errs. getCallStack (eventID 0 0 0) wit_locked = Inr ([0], errs)"
proof -
  have w: "m_callIDMap wit_locked (eventID 0 0 0) = Some 0" by code_simp
  obtain out errs where o: "getCallStack (eventID 0 0 0) wit_locked = Inr (out, errs)"
      "set out = line_of (sk wit_locked) (m_callIDMap wit_locked) (eventID 0 0 0)" "sorted_wrt (>) out"
    using getCallStack_correct [OF wit_locked_reach] by blast
  have "set out = sline wit_locked 0" using o(2) w by (simp add: line_of_def root_def)
  moreover have "b = 0" if "b \<in> sline wit_locked 0" for b
    using line_below [OF binv_struct [OF einv_binv [OF ad_reach_einv [OF wit_locked_reach]]] that] by simp
  ultimately have "set out = {0}" using line_self by auto
  moreover have "distinct out" using o(3) by (induction out) auto
  ultimately have "out = [0]" by (cases out; cases "tl out") auto
  then show ?thesis using o(1) by blast
qed

end
