(* ===== verification/Buckets.thy ===== *)
theory Buckets
  imports EventData
begin

text \<open>
  Ordered maps from keys to lists of indices or addresses, which the parser uses to sort rows by
  time stamp and the counter manager to file counters by time and by index: a list of pairs with
  increasing keys. Reading all lists in order sorts the indices stably by their keys.
\<close>

text \<open>The ordered map from time stamps to the indices of the rows that have them.\<close>

fun bucket_insert :: "u64 \<Rightarrow> nat \<Rightarrow> (u64 \<times> nat list) list \<Rightarrow> (u64 \<times> nat list) list" where
  "bucket_insert ts i [] = [(ts, [i])]"
| "bucket_insert ts i ((k, is) # m) =
    (if ts = k then (k, is @ [i]) # m
     else if ts < k then (ts, [i]) # (k, is) # m
     else (k, is) # bucket_insert ts i m)"

subsection \<open>The sort by buckets\<close>

definition buckets_ok :: "(nat \<Rightarrow> u64) \<Rightarrow> (u64 \<times> nat list) list \<Rightarrow> bool" where
  "buckets_ok f m \<longleftrightarrow> sorted_wrt (<) (map fst m) \<and> (\<forall>(k, js) \<in> set m. \<forall>j \<in> set js. f j = k)"

definition flatten :: "(u64 \<times> nat list) list \<Rightarrow> nat list" where
  "flatten m = concat (map snd m)"

lemma flatten_simps [simp]: "flatten [] = []" "flatten ((k, js) # m) = js @ flatten m"
  by (simp_all add: flatten_def)

lemma bucket_insert_keys: "fst ` set (bucket_insert ts i m) = insert ts (fst ` set m)"
  by (induction ts i m rule: bucket_insert.induct) auto

lemma bucket_insert_ok:
  assumes "buckets_ok f m"
  shows "buckets_ok f (bucket_insert (f i) i m)"
  using assms
proof (induction m)
  case Nil
  then show ?case by (simp add: buckets_ok_def)
next
  case (Cons kj m)
  obtain k js where kj: "kj = (k, js)" by (cases kj)
  have 1: "buckets_ok f (bucket_insert (f i) i m)"
    using Cons by (auto simp: buckets_ok_def)
  show ?case
  proof (cases "f i = k \<or> f i < k")
    case True
    then show ?thesis using Cons.prems kj by (auto simp: buckets_ok_def)
  next
    case False
    then have "\<forall>l \<in> fst ` set (bucket_insert (f i) i m). k < l"
      using Cons.prems kj by (auto simp: bucket_insert_keys buckets_ok_def)
    then show ?thesis using Cons.prems kj False 1 by (auto simp: buckets_ok_def)
  qed
qed

lemma bucket_insert_mset: "mset (flatten (bucket_insert ts i m)) = add_mset i (mset (flatten m))"
  by (induction ts i m rule: bucket_insert.induct) auto

lemma buckets_none:
  assumes "buckets_ok f m" "\<forall>l \<in> fst ` set m. l \<noteq> k"
  shows "filter (\<lambda>j. f j = k) (flatten m) = []"
  using assms by (induction m) (auto simp: buckets_ok_def filter_empty_conv)

lemma bucket_insert_filter:
  assumes "buckets_ok f m"
  shows "filter (\<lambda>j. f j = k) (flatten (bucket_insert (f i) i m)) =
    filter (\<lambda>j. f j = k) (flatten m) @ (if f i = k then [i] else [])"
  using assms
proof (induction m)
  case Nil
  then show ?case by simp
next
  case (Cons lj m)
  obtain l js where lj: "lj = (l, js)" by (cases lj)
  have m: "buckets_ok f m" using Cons.prems by (auto simp: buckets_ok_def)
  have gt: "\<forall>l' \<in> fst ` set m. l < l'" using Cons.prems lj by (auto simp: buckets_ok_def)
  have js: "\<forall>j \<in> set js. f j = l" using Cons.prems lj by (auto simp: buckets_ok_def)
  have none: "filter (\<lambda>j. f j = l) (flatten m) = []"
    by (rule buckets_none [OF m]) (use gt in auto)
  consider "f i = l" | "f i < l" | "l < f i" by fastforce
  then show ?case
  proof cases
    case 1
    then show ?thesis using lj none js by auto
  next
    case 2
    have "filter (\<lambda>j. f j = f i) (flatten (lj # m)) = []"
      by (rule buckets_none [OF Cons.prems]) (use gt lj 2 in auto)
    then show ?thesis using lj 2 by auto
  next
    case 3
    then show ?thesis using lj Cons.IH [OF m] by auto
  qed
qed

lemma buckets_sorted: "buckets_ok f m \<Longrightarrow> sorted (map f (flatten m))"
proof (induction m)
  case (Cons lj m)
  obtain l js where lj: "lj = (l, js)" by (cases lj)
  have m: "buckets_ok f m" using Cons.prems by (auto simp: buckets_ok_def)
  have js: "\<forall>j \<in> set js. f j = l" using Cons.prems lj by (auto simp: buckets_ok_def)
  have "l \<le> f j" if "j \<in> set (flatten m)" for j
    using that Cons.prems lj by (fastforce simp: buckets_ok_def flatten_def)
  moreover have "sorted (map f js)"
    using js by (induction js) auto
  ultimately show ?case using lj js Cons.IH [OF m] by (auto simp: sorted_append)
qed simp

lemma bucket_sort:
  "flatten (foldl (\<lambda>m i. bucket_insert (f i) i m) [] xs) = sort_key f xs"
proof -
  have "buckets_ok f (foldl (\<lambda>m i. bucket_insert (f i) i m) [] xs) \<and>
    mset (flatten (foldl (\<lambda>m i. bucket_insert (f i) i m) [] xs)) = mset xs \<and>
    (\<forall>k. filter (\<lambda>j. f j = k) (flatten (foldl (\<lambda>m i. bucket_insert (f i) i m) [] xs)) =
      filter (\<lambda>j. f j = k) xs)"
  proof (induction xs rule: rev_induct)
    case Nil
    then show ?case by (simp add: buckets_ok_def)
  next
    case (snoc x xs)
    then show ?case by (simp add: bucket_insert_ok bucket_insert_mset bucket_insert_filter)
  qed
  then have b: "buckets_ok f (foldl (\<lambda>m i. bucket_insert (f i) i m) [] xs)"
    "mset (flatten (foldl (\<lambda>m i. bucket_insert (f i) i m) [] xs)) = mset xs"
    "\<And>k. filter (\<lambda>j. f j = k) (flatten (foldl (\<lambda>m i. bucket_insert (f i) i m) [] xs)) = filter (\<lambda>j. f j = k) xs"
    by blast+
  show ?thesis
  proof (rule properties_for_sort_key [symmetric])
    fix k assume "k \<in> set (flatten (foldl (\<lambda>m i. bucket_insert (f i) i m) [] xs))"
    have "(\<lambda>j. f k = f j) = (\<lambda>j. f j = f k)" by auto
    then show "filter (\<lambda>x. f k = f x) (flatten (foldl (\<lambda>m i. bucket_insert (f i) i m) [] xs)) =
        filter (\<lambda>x. f k = f x) xs"
      using b(3) [of "f k"] by simp
  qed (use b buckets_sorted in auto)
qed

lemma map_insort_key: "map g (insort_key (\<lambda>x. f (g x)) x ys) = insort_key f (g x) (map g ys)"
  by (induction ys) auto

lemma map_sort_key: "map g (sort_key (\<lambda>x. f (g x)) xs) = sort_key f (map g xs)"
  by (induction xs) (simp_all add: map_insort_key)

end
