(* ===== verification/Parser.thy ===== *)
theory Parser
  imports Buckets
begin

text \<open>
  The trace parser \<open>ADParser\<close> of \<open>src/modules/performance_analysis/ad/ADParser.cpp\<close>: its
  buffers of raw events, the checks on them, the repair of what the instrumentation gets
  wrong, and \<open>getEvents\<close>, which interleaves the three kinds of events of each thread in
  time order. A buffer is a flat list of words of which the first \<open>count\<close> rows are valid.
  The ADIOS2 stream is not modelled: what it delivers in a step (a count and the words, or
  nothing) is an argument of the fetch operations, and so is the outcome of its
  \<open>BeginStep\<close>. The global function index lookup is an argument of \<open>fetchFuncData\<close>.
\<close>

datatype parser_error = ParserOK | NoFuncData | NoCommData | NoCountData

record parser =
  p_status :: bool
  p_opened :: bool
  p_attr_once :: bool
  p_current_step :: int
  p_rank :: int
  p_program_idx :: u64
  p_funcMap :: "int \<rightharpoonup> string"
  p_eventType :: "(int \<times> string) list"
  p_counterMap :: "(int \<times> string) list"
  p_correlation_id_cid :: int
  p_timer_event_count :: nat
  p_event_timestamps :: "u64 list"
  p_comm_count :: nat
  p_comm_timestamps :: "u64 list"
  p_counter_count :: nat
  p_counter_timestamps :: "u64 list"
  p_data_rank_override :: bool

definition new_ADParser :: "u64 \<Rightarrow> int \<Rightarrow> bool \<Rightarrow> parser" where
  "new_ADParser program_idx rank opened = \<lparr>p_status = opened, p_opened = opened,
     p_attr_once = False, p_current_step = - 1, p_rank = rank, p_program_idx = program_idx,
     p_funcMap = Map.empty, p_eventType = [], p_counterMap = [], p_correlation_id_cid = - 1,
     p_timer_event_count = 0, p_event_timestamps = [], p_comm_count = 0, p_comm_timestamps = [],
     p_counter_count = 0, p_counter_timestamps = [], p_data_rank_override = False\<rparr>"

subsection \<open>Steps of the stream\<close>

datatype step_status = StepOK | NotReady | EndOfStream | OtherError

text \<open>
  The statuses the stream returns on successive attempts, each with the milliseconds that
  have elapsed; the loop ends at the first that is not a \<open>NotReady\<close> within the timeout.
\<close>

fun beginStep_loop :: "int \<Rightarrow> (step_status \<times> real) list \<Rightarrow> parser \<Rightarrow> parser option" where
  "beginStep_loop timeout [] p = None"
| "beginStep_loop timeout ((status, elapsed) # rest) p =
    (case status of
       StepOK \<Rightarrow> Some (p\<lparr>p_current_step := p_current_step p + 1\<rparr>)
     | NotReady \<Rightarrow>
         if elapsed > real_of_int timeout * 1000
         then Some (p\<lparr>p_status := False, p_current_step := - 1\<rparr>)
         else beginStep_loop timeout rest p
     | EndOfStream \<Rightarrow> Some (p\<lparr>p_status := False, p_current_step := - 1\<rparr>)
     | OtherError \<Rightarrow> Some (p\<lparr>p_status := False, p_current_step := - 1\<rparr>))"

definition beginStep :: "int \<Rightarrow> (step_status \<times> real) list \<Rightarrow> parser \<Rightarrow> (int \<times> parser) option" where
  "beginStep timeout statuses p =
     (if p_opened p
      then map_option (\<lambda>p'. (p_current_step p', p')) (beginStep_loop timeout statuses p)
      else Some (p_current_step p, p))"

fun find_correlation :: "(int \<times> string) list \<Rightarrow> int option" where
  "find_correlation [] = None"
| "find_correlation ((i, name) # m) = (if name = ''Correlation ID'' then Some i else find_correlation m)"

definition setCounterMap :: "(int \<times> string) list \<Rightarrow> parser \<Rightarrow> parser" where
  "setCounterMap m p = p\<lparr>p_counterMap := m,
     p_correlation_id_cid := (case find_correlation m of None \<Rightarrow> p_correlation_id_cid p | Some i \<Rightarrow> i)\<rparr>"

subsection \<open>The buffers\<close>

definition row :: "nat \<Rightarrow> u64 list \<Rightarrow> nat \<Rightarrow> u64 list" where
  "row width data i = take width (drop (i * width) data)"

definition stride :: "event_data_type \<Rightarrow> nat" where
  "stride t = (case t of FUNC \<Rightarrow> FUNC_EVENT_DIM | COMM \<Rightarrow> COMM_EVENT_DIM
     | COUNT \<Rightarrow> COUNTER_EVENT_DIM | UnknownType \<Rightarrow> 0)"

definition ts_offset :: "event_data_type \<Rightarrow> nat" where
  "ts_offset t = (case t of FUNC \<Rightarrow> FUNC_IDX_TS | COMM \<Rightarrow> COMM_IDX_TS
     | COUNT \<Rightarrow> COUNTER_IDX_TS | UnknownType \<Rightarrow> 0)"

definition buffer :: "parser \<Rightarrow> event_data_type \<Rightarrow> u64 list" where
  "buffer p t = (case t of FUNC \<Rightarrow> p_event_timestamps p | COMM \<Rightarrow> p_comm_timestamps p
     | COUNT \<Rightarrow> p_counter_timestamps p | UnknownType \<Rightarrow> [])"

definition event_count :: "parser \<Rightarrow> event_data_type \<Rightarrow> nat" where
  "event_count p t = (case t of FUNC \<Rightarrow> p_timer_event_count p | COMM \<Rightarrow> p_comm_count p
     | COUNT \<Rightarrow> p_counter_count p | UnknownType \<Rightarrow> 0)"

definition raw_rows :: "parser \<Rightarrow> event_data_type \<Rightarrow> u64 list list" where
  "raw_rows p t = map (row (stride t) (buffer p t)) [0..<event_count p t]"

definition add_row :: "nat \<Rightarrow> nat \<Rightarrow> u64 list \<Rightarrow> u64 list \<Rightarrow> parser \<Rightarrow> string \<Rightarrow> (u64 list) res" where
  "add_row width capacity data d p what =
     (if length data + width > capacity then Inl (RuntimeError (what @ '' would exceed vector capacity''))
      else if d ! IDX_R \<noteq> word_of_int (p_rank p) then Inl (RuntimeError (what @ '' incorrect rank''))
      else if d ! IDX_P \<noteq> p_program_idx p then Inl (RuntimeError (what @ '' incorrect program id''))
      else Inr (data @ take width d))"

definition addFuncData :: "nat \<Rightarrow> u64 list \<Rightarrow> parser \<Rightarrow> parser res" where
  "addFuncData capacity d p =
     bind (add_row FUNC_EVENT_DIM capacity (p_event_timestamps p) d p ''addFuncData'') (\<lambda>data.
     Inr (p\<lparr>p_event_timestamps := data, p_timer_event_count := Suc (p_timer_event_count p)\<rparr>))"

definition addCounterData :: "nat \<Rightarrow> u64 list \<Rightarrow> parser \<Rightarrow> parser res" where
  "addCounterData capacity d p =
     bind (add_row COUNTER_EVENT_DIM capacity (p_counter_timestamps p) d p ''addCounterData'') (\<lambda>data.
     Inr (p\<lparr>p_counter_timestamps := data, p_counter_count := Suc (p_counter_count p)\<rparr>))"

definition addCommData :: "nat \<Rightarrow> u64 list \<Rightarrow> parser \<Rightarrow> parser res" where
  "addCommData capacity d p =
     bind (add_row COMM_EVENT_DIM capacity (p_comm_timestamps p) d p ''addCommData'') (\<lambda>data.
     Inr (p\<lparr>p_comm_timestamps := data, p_comm_count := Suc (p_comm_count p)\<rparr>))"

subsection \<open>Validation and order\<close>

text \<open>The null pointer is the empty row.\<close>

definition validateEvent :: "parser \<Rightarrow> u64 list \<Rightarrow> bool" where
  "validateEvent p e \<longleftrightarrow> \<not> (e = [] \<or> e ! IDX_P > 1000000 \<or> to_i32 (e ! IDX_R) \<noteq> p_rank p \<or>
     e ! IDX_T \<ge> 1000000 \<or> e ! IDX_P \<noteq> p_program_idx p)"

definition createAndValidateEvent ::
    "parser \<Rightarrow> u64 list \<Rightarrow> event_data_type \<Rightarrow> nat \<Rightarrow> eventID \<Rightarrow> event_t \<times> bool" where
  "createAndValidateEvent p data t idx eid =
     (\<lparr>m_data = data, m_t = t, m_id = eid, m_idx = idx\<rparr>, validateEvent p data)"

fun order_loop :: "parser \<Rightarrow> nat \<Rightarrow> bool \<Rightarrow> u64 list list \<Rightarrow> (u64 \<rightharpoonup> u64) \<Rightarrow> bool \<Rightarrow> bool res" where
  "order_loop p off exit_on_fail [] lastts in_order = Inr in_order"
| "order_loop p off exit_on_fail (r # rs) lastts in_order =
    (if validateEvent p r then
       (let thr = r ! IDX_T; ts = r ! off;
            late = (case lastts thr of None \<Rightarrow> False | Some l \<Rightarrow> ts < l) in
        if late \<and> exit_on_fail then Inl (Fatal ''Events are out of order'')
        else order_loop p off exit_on_fail rs (lastts(thr \<mapsto> ts)) (in_order \<and> \<not> late))
     else order_loop p off exit_on_fail rs lastts in_order)"

definition checkEventOrder :: "event_data_type \<Rightarrow> bool \<Rightarrow> parser \<Rightarrow> bool res" where
  "checkEventOrder t exit_on_fail p =
     (if t = UnknownType then Inl (RuntimeError ''Unknown EventDataType'')
      else order_loop p (ts_offset t) exit_on_fail (raw_rows p t) Map.empty True)"

subsection \<open>Fetching the data of a step\<close>

text \<open>\<open>for(i<num){ *p = v; p += width; }\<close> with \<open>p\<close> starting at column \<open>off\<close>.\<close>

definition set_column :: "nat \<Rightarrow> nat \<Rightarrow> u64 \<Rightarrow> nat \<Rightarrow> u64 list \<Rightarrow> u64 list" where
  "set_column width off v num data = foldl (\<lambda>d i. d[i * width + off := v]) data [0..<num]"

definition read_into :: "nat \<Rightarrow> nat \<Rightarrow> u64 list \<Rightarrow> u64 list \<Rightarrow> u64 list" where
  "read_into width num new data = take (num * width) new @ drop (num * width) data"

definition override_columns :: "nat \<Rightarrow> nat \<Rightarrow> parser \<Rightarrow> u64 list \<Rightarrow> u64 list" where
  "override_columns width num p data =
     (let d = set_column width IDX_P (p_program_idx p) num data in
      if p_data_rank_override p then set_column width IDX_R (word_of_int (p_rank p)) num d else d)"

definition replace_fid :: "(u64 \<Rightarrow> u64 option) \<Rightarrow> parser \<Rightarrow> nat \<Rightarrow> u64 list \<Rightarrow> u64 list res" where
  "replace_fid lookup p i data =
    (let r = row FUNC_EVENT_DIM data i in
     case lookup (r ! FUNC_IDX_F) of
       Some new_idx \<Rightarrow> Inr (data[i * FUNC_EVENT_DIM + FUNC_IDX_F := new_idx])
     | None \<Rightarrow>
         if \<not> validateEvent p r then Inr data
         else (let data' = data[i * FUNC_EVENT_DIM + IDX_P := p_program_idx p + 99999999] in
           if validateEvent p (row FUNC_EVENT_DIM data' i)
           then Inl (Fatal ''invalidation check failed!??'') else Inr data'))"

definition sort_func_data :: "nat \<Rightarrow> u64 list \<Rightarrow> u64 list" where
  "sort_func_data num data =
    (let sorted_idx = foldl (\<lambda>m i. bucket_insert (row FUNC_EVENT_DIM data i ! FUNC_IDX_TS) i m) [] [0..<num]
     in concat (map (row FUNC_EVENT_DIM data) (concat (map snd sorted_idx))))"

text \<open>
  What a fetch does with the delivered num and words. \<open>linked\<close> says whether the index
  map is linked to the parameter server; \<open>lookup\<close> gives \<open>None\<close> for an unknown index.
\<close>

definition fetchFuncData :: "(nat \<times> u64 list) option \<Rightarrow> bool \<Rightarrow> (u64 \<Rightarrow> u64 option) \<Rightarrow> parser
    \<Rightarrow> (parser_error \<times> parser) res" where
  "fetchFuncData delivered linked lookup p =
    (let p0 = p\<lparr>p_timer_event_count := 0\<rparr> in
     case delivered of
       None \<Rightarrow> Inr (NoFuncData, p0)
     | Some (num, new) \<Rightarrow>
         let data = override_columns FUNC_EVENT_DIM num p
                      (read_into FUNC_EVENT_DIM num new (p_event_timestamps p)) in
         bind (if linked then foldE (replace_fid lookup p) [0..<num] data else Inr data) (\<lambda>data'.
         let p1 = p0\<lparr>p_timer_event_count := num, p_event_timestamps := data'\<rparr> in
         bind (checkEventOrder FUNC False p1) (\<lambda>in_order.
         Inr (ParserOK, if in_order then p1
           else p1\<lparr>p_event_timestamps := sort_func_data num data'\<rparr>))))"

definition fetchCommData :: "(nat \<times> u64 list) option \<Rightarrow> parser \<Rightarrow> (parser_error \<times> parser) res" where
  "fetchCommData delivered p =
    (let p0 = p\<lparr>p_comm_count := 0\<rparr> in
     case delivered of
       None \<Rightarrow> Inr (NoCommData, p0)
     | Some (num, new) \<Rightarrow>
         let p1 = p0\<lparr>p_comm_count := num, p_comm_timestamps :=
           override_columns COMM_EVENT_DIM num p (read_into COMM_EVENT_DIM num new (p_comm_timestamps p))\<rparr> in
         bind (checkEventOrder COMM False p1) (\<lambda>_. Inr (ParserOK, p1)))"

definition fetchCounterData :: "(nat \<times> u64 list) option \<Rightarrow> parser \<Rightarrow> (parser_error \<times> parser) res" where
  "fetchCounterData delivered p =
    (let p0 = p\<lparr>p_counter_count := 0\<rparr> in
     case delivered of
       None \<Rightarrow> Inr (NoCountData, p0)
     | Some (num, new) \<Rightarrow>
         let p1 = p0\<lparr>p_counter_count := num, p_counter_timestamps :=
           override_columns COUNTER_EVENT_DIM num p
             (read_into COUNTER_EVENT_DIM num new (p_counter_timestamps p))\<rparr> in
         bind (checkEventOrder COUNT False p1) (\<lambda>_. Inr (ParserOK, p1)))"

subsection \<open>Interleaving the events\<close>

text \<open>The events of one kind, separated by thread.\<close>

type_synonym by_thread = "u64 \<Rightarrow> event_t list"

definition separate_step :: "parser \<Rightarrow> event_data_type \<Rightarrow> nat
    \<Rightarrow> by_thread \<times> u64 set \<times> nat \<Rightarrow> (by_thread \<times> u64 set \<times> nat) res" where
  "separate_step p t i = (\<lambda>(m, tids, nvalid).
    (let (ev, good) = createAndValidateEvent p (row (stride t) (buffer p t) i) t i
            (eventID (p_rank p) (p_current_step p) (int i)) in
     if \<not> good then Inr (m, tids, nvalid)
     else if m (ev_tid ev) \<noteq> [] \<and> ev_ts (last (m (ev_tid ev))) > ev_ts ev
       then Inl (Fatal ''ADParser::getEvents parsed event data is not in time order'')
     else Inr (m(ev_tid ev := m (ev_tid ev) @ [ev]), insert (ev_tid ev) tids, Suc nvalid)))"

definition separate :: "parser \<Rightarrow> event_data_type \<Rightarrow> u64 set \<Rightarrow> nat \<Rightarrow> (by_thread \<times> u64 set \<times> nat) res" where
  "separate p t tids nvalid = foldE (separate_step p t) [0..<event_count p t] (\<lambda>_. [], tids, nvalid)"

datatype func_event = ENTRY | EXIT | NA

text \<open>
  The numbers of event types are those of an enumeration from 0 on; \<open>nat\<close> takes a negative one,
  for which the code would index its vector out of range, to 0.
\<close>

definition event_type_map :: "(int \<times> string) list \<Rightarrow> func_event list" where
  "event_type_map types = foldl (\<lambda>v (eid, name).
     if name = ''ENTRY'' \<or> name = ''EXIT'' then
       (if nat eid \<ge> length v then v @ replicate (Suc (nat eid) - length v) NA else v)
         [nat eid := (if name = ''ENTRY'' then ENTRY else EXIT)]
     else v) [] types"

definition lookup_type :: "func_event list \<Rightarrow> event_t \<Rightarrow> func_event res" where
  "lookup_type v ev = bind (ev_eid ev) (\<lambda>e.
     if unat e < length v then Inr (v ! unat e) else Inl OutOfBounds)"

text \<open>
  \<open>getEarliest\<close> over the heads of three queues, an empty queue standing for the null
  pointer; the result is the position of the queue in the order of priority.
\<close>

definition getEarliest :: "event_t list list \<Rightarrow> nat res" where
  "getEarliest arrays =
    (let ts = (\<lambda>i. case arrays ! i of [] \<Rightarrow> u64_max | e # _ \<Rightarrow> ev_ts e) in
     if ts 0 \<le> ts 1 \<and> ts 0 \<le> ts 2 then Inr 0
     else if ts 1 < ts 0 \<and> ts 1 \<le> ts 2 then Inr 1
     else if ts 2 < ts 0 \<and> ts 2 < ts 1 then Inr 2
     else Inl (RuntimeError ''Failed to determine earliest entry''))"

fun entry_upcoming :: "func_event list \<Rightarrow> u64 \<Rightarrow> event_t list \<Rightarrow> bool res" where
  "entry_upcoming v cur_ts [] = Inr False"
| "entry_upcoming v cur_ts (f # fs) =
    (if ev_ts f \<noteq> cur_ts then Inr False
     else bind (lookup_type v f) (\<lambda>ty. if ty = ENTRY then Inr True else entry_upcoming v cur_ts fs))"

datatype queue = QFunc | QComm | QCounter

definition priority :: "func_event \<Rightarrow> queue list" where
  "priority ty = (if ty = ENTRY then [QFunc, QComm, QCounter] else [QComm, QCounter, QFunc])"

definition is_corid :: "parser \<Rightarrow> event_t list \<Rightarrow> bool res" where
  "is_corid p ks = (case ks of [] \<Rightarrow> Inr False
     | k # _ \<Rightarrow> bind (ev_counter_id k) (\<lambda>c. Inr (to_i32 c = p_correlation_id_cid p)))"

definition pick :: "event_t list \<times> event_t list \<times> event_t list \<Rightarrow> queue \<Rightarrow> event_t list" where
  "pick = (\<lambda>(fs, cs, ks) q. case q of QFunc \<Rightarrow> fs | QComm \<Rightarrow> cs | QCounter \<Rightarrow> ks)"

text \<open>The queue the code takes the next event from.\<close>

definition next_queue :: "parser \<Rightarrow> func_event list \<Rightarrow> func_event \<Rightarrow> bool \<Rightarrow> u64 \<Rightarrow> bool
    \<Rightarrow> event_t list \<times> event_t list \<times> event_t list \<Rightarrow> queue res" where
  "next_queue p v ty corid last_entry has_corid qs =
    (let prio = priority ty in
     bind (getEarliest (map (pick qs) prio)) (\<lambda>pe.
     let earliest = prio ! pe; fs = pick qs QFunc; ks = pick qs QCounter in
     if earliest = QFunc \<and> ty = EXIT \<and> fs \<noteq> [] \<and> ev_ts (hd fs) = last_entry \<and>
        corid \<and> ks \<noteq> [] \<and> ev_ts (hd ks) = last_entry
     then bind (entry_upcoming v (ev_ts (hd fs)) (tl fs)) (\<lambda>upcoming.
       Inr (if \<not> upcoming \<or> (upcoming \<and> \<not> has_corid) then QCounter else QFunc))
     else Inr earliest))"

fun interleave :: "parser \<Rightarrow> func_event list \<Rightarrow> nat \<Rightarrow> u64 \<Rightarrow> bool
    \<Rightarrow> event_t list \<times> event_t list \<times> event_t list \<Rightarrow> event_t list res" where
  "interleave p v n last_entry has_corid (fs, cs, ks) =
    (if fs = [] \<and> cs = [] \<and> ks = [] then Inr []
     else (case n of 0 \<Rightarrow> Inl NoTermination | Suc m \<Rightarrow>
       bind (if fs = [] then Inr NA else lookup_type v (hd fs)) (\<lambda>ty.
       bind (is_corid p ks) (\<lambda>corid.
       bind (next_queue p v ty corid last_entry has_corid (fs, cs, ks)) (\<lambda>earliest.
       let opening = (earliest = QFunc \<and> ty = ENTRY);
           last_entry' = (if opening then ev_ts (hd fs) else last_entry);
           has_corid' = (if opening then False else has_corid) \<or> (earliest = QCounter \<and> corid) in
       (case earliest of
          QFunc \<Rightarrow> (case fs of [] \<Rightarrow> Inl OutOfBounds | e # fs' \<Rightarrow>
            bind (interleave p v m last_entry' has_corid' (fs', cs, ks)) (\<lambda>out. Inr (e # out)))
        | QComm \<Rightarrow> (case cs of [] \<Rightarrow> Inl OutOfBounds | e # cs' \<Rightarrow>
            bind (interleave p v m last_entry' has_corid' (fs, cs', ks)) (\<lambda>out. Inr (e # out)))
        | QCounter \<Rightarrow> (case ks of [] \<Rightarrow> Inl OutOfBounds | e # ks' \<Rightarrow>
            bind (interleave p v m last_entry' has_corid' (fs, cs, ks')) (\<lambda>out. Inr (e # out))))))))) "

declare interleave.simps [simp del]

definition thread_events :: "parser \<Rightarrow> func_event list \<Rightarrow> by_thread \<Rightarrow> by_thread \<Rightarrow> by_thread \<Rightarrow> u64 \<Rightarrow> event_t list res" where
  "thread_events p v mf mc mk tid =
     interleave p v (length (mf tid) + length (mc tid) + length (mk tid)) 0 False (mf tid, mc tid, mk tid)"

definition getEvents :: "parser \<Rightarrow> event_t list res" where
  "getEvents p =
    bind (separate p FUNC {} 0) (\<lambda>(mf, tids0, n0).
    bind (separate p COMM tids0 n0) (\<lambda>(mc, tids1, n1).
    bind (separate p COUNT tids1 n1) (\<lambda>(mk, tids, nvalid).
    bind (foldE (\<lambda>tid out. bind (thread_events p (event_type_map (p_eventType p)) mf mc mk tid)
        (\<lambda>evs. Inr (out @ evs))) (sorted_list_of_set tids) []) (\<lambda>out.
    bind (guard (Fatal ''Event insertion missed some events??'') (length out = nvalid)) (\<lambda>_.
    Inr out)))))"

end
