(* ===== verification/ParserOrder.thy ===== *)
theory ParserOrder
  imports Parser
begin

text \<open>
  What the parser delivers: the order check decides whether every thread's events of a kind
  are in time order, \<open>getEvents\<close> succeeds on ordered data and then gives every valid event
  exactly once, thread by thread, in time order, with entries before and exits after
  coincident communication and counter events; and the repair of unordered function data
  is a stable sort.
\<close>

subsection \<open>The next queue\<close>

definition front_ts :: "event_t list \<Rightarrow> u64" where
  "front_ts q = (case q of [] \<Rightarrow> u64_max | e # _ \<Rightarrow> ev_ts e)"

lemma front_ts_simps [simp]: "front_ts [] = u64_max" "front_ts (e # q) = ev_ts e"
  by (simp_all add: front_ts_def)

lemma u64_max_top: "w \<le> u64_max"
  by (simp add: u64_max_def)

lemma getEarliest_cases:
  obtains (first) "getEarliest [a, b, c] = Inr 0" "front_ts a \<le> front_ts b" "front_ts a \<le> front_ts c"
  | (second) "getEarliest [a, b, c] = Inr 1" "front_ts b < front_ts a" "front_ts b \<le> front_ts c"
  | (third) "getEarliest [a, b, c] = Inr 2" "front_ts c < front_ts a" "front_ts c < front_ts b"
proof -
  have e: "getEarliest [a, b, c] =
     (if front_ts a \<le> front_ts b \<and> front_ts a \<le> front_ts c then Inr 0
      else if front_ts b < front_ts a \<and> front_ts b \<le> front_ts c then Inr 1
      else if front_ts c < front_ts a \<and> front_ts c < front_ts b then Inr 2
      else Inl (RuntimeError ''Failed to determine earliest entry''))"
    by (simp add: getEarliest_def front_ts_def numeral_2_eq_2)
  show ?thesis
  proof (cases "front_ts a \<le> front_ts b \<and> front_ts a \<le> front_ts c")
    case True
    then show ?thesis using e first by simp
  next
    case False
    then show ?thesis
    proof (cases "front_ts b < front_ts a \<and> front_ts b \<le> front_ts c")
      case True
      then show ?thesis using e second False by simp
    next
      case nb: False
      then have "front_ts c < front_ts a \<and> front_ts c < front_ts b" using False by auto
      then show ?thesis using e third False nb by auto
    qed
  qed
qed

definition before_max :: "event_t list \<Rightarrow> bool" where
  "before_max q \<longleftrightarrow> (\<forall>e \<in> set q. ev_ts e < u64_max)"

text \<open>The choice of the queue, with the special case for zero-length functions gone.\<close>

definition good_choice :: "func_event \<Rightarrow> event_t list \<times> event_t list \<times> event_t list \<Rightarrow> queue \<Rightarrow> bool" where
  "good_choice ty qs q \<longleftrightarrow> pick qs q \<noteq> [] \<and>
     (\<forall>q'. front_ts (pick qs q) \<le> front_ts (pick qs q')) \<and>
     (q = QFunc \<and> ty \<noteq> ENTRY \<longrightarrow> (\<forall>q'. q' \<noteq> QFunc \<longrightarrow> front_ts (pick qs QFunc) < front_ts (pick qs q'))) \<and>
     (q \<noteq> QFunc \<and> ty = ENTRY \<longrightarrow> front_ts (pick qs q) < front_ts (pick qs QFunc))"

lemma queue_all: "(\<forall>q. P q) \<longleftrightarrow> P QFunc \<and> P QComm \<and> P QCounter"
  by (metis queue.exhaust)

lemma front_max_Nil: "before_max q \<Longrightarrow> front_ts q = u64_max \<Longrightarrow> q = []"
  by (cases q) (auto simp: before_max_def)

lemma next_queue_ok:
  assumes max: "before_max fs" "before_max cs" "before_max ks"
    and ne: "\<not> (fs = [] \<and> cs = [] \<and> ks = [])"
    and ty: "fs = [] \<Longrightarrow> ty \<noteq> ENTRY"
  shows "\<exists>q. next_queue p v ty corid le hc (fs, cs, ks) = Inr q \<and> good_choice ty (fs, cs, ks) q"
proof -
  have low: "front_ts q < u64_max" if "before_max q" "q \<noteq> []" for q
    using that by (cases q) (auto simp: before_max_def)
  have some: "front_ts fs < u64_max \<or> front_ts cs < u64_max \<or> front_ts ks < u64_max"
    using ne low max by blast
  show ?thesis
  proof (cases "ty = ENTRY")
    case True
    then have fs: "fs \<noteq> []" using ty by blast
    show ?thesis
      by (rule getEarliest_cases [of fs cs ks])
        (use True some fs max u64_max_top in \<open>auto simp: next_queue_def priority_def pick_def Let_def
          good_choice_def queue_all dest: front_max_Nil\<close>)
  next
    case False
    show ?thesis
    proof (rule getEarliest_cases [of cs ks fs])
      assume e: "getEarliest [cs, ks, fs] = Inr 0" "front_ts cs \<le> front_ts ks" "front_ts cs \<le> front_ts fs"
      then have "cs \<noteq> []" using some u64_max_top by (auto simp: not_less [symmetric])
      then show ?thesis using e False by (auto simp: next_queue_def priority_def pick_def Let_def
            good_choice_def queue_all)
    next
      assume e: "getEarliest [cs, ks, fs] = Inr 1" "front_ts ks < front_ts cs" "front_ts ks \<le> front_ts fs"
      then have "ks \<noteq> []" using u64_max_top by (auto simp: not_less [symmetric])
      then show ?thesis using e False by (auto simp: next_queue_def priority_def pick_def Let_def
            good_choice_def queue_all)
    next
      assume e: "getEarliest [cs, ks, fs] = Inr 2" "front_ts fs < front_ts cs" "front_ts fs < front_ts ks"
      then have fs: "fs \<noteq> []" using u64_max_top by (auto simp: not_less [symmetric])
      have "\<not> (ks \<noteq> [] \<and> ev_ts (hd fs) = le \<and> ev_ts (hd ks) = le)"
        using e(3) fs by (cases fs; cases ks) auto
      then show ?thesis using e False fs by (auto simp: next_queue_def priority_def pick_def Let_def
            good_choice_def queue_all)
    qed
  qed
qed

subsection \<open>Interleaving one thread\<close>

definition by_time :: "event_t list \<Rightarrow> bool" where
  "by_time q \<longleftrightarrow> sorted_wrt (\<lambda>a b. ev_ts a \<le> ev_ts b) q"

definition func_type :: "func_event list \<Rightarrow> event_t \<Rightarrow> func_event" where
  "func_type v e = v ! unat (m_data e ! IDX_E)"

definition known_type :: "func_event list \<Rightarrow> event_t \<Rightarrow> bool" where
  "known_type v e \<longleftrightarrow> unat (m_data e ! IDX_E) < length v"

text \<open>The two rules for events with the same time stamp.\<close>

definition exits_last :: "func_event list \<Rightarrow> event_t list \<Rightarrow> bool" where
  "exits_last v out \<longleftrightarrow> sorted_wrt (\<lambda>a b. m_t a = FUNC \<and> func_type v a \<noteq> ENTRY \<and> m_t b \<noteq> FUNC
     \<longrightarrow> ev_ts a < ev_ts b) out"

definition entries_first :: "func_event list \<Rightarrow> event_t list \<Rightarrow> bool" where
  "entries_first v out \<longleftrightarrow> successively (\<lambda>a b. m_t a \<noteq> FUNC \<and> m_t b = FUNC \<and> func_type v b = ENTRY
     \<longrightarrow> ev_ts a < ev_ts b) out"

definition thread_input :: "func_event list \<Rightarrow> event_t list \<Rightarrow> event_t list \<Rightarrow> event_t list \<Rightarrow> bool" where
  "thread_input v fs cs ks \<longleftrightarrow> by_time fs \<and> by_time cs \<and> by_time ks \<and>
     before_max fs \<and> before_max cs \<and> before_max ks \<and>
     (\<forall>e \<in> set fs. m_t e = FUNC \<and> known_type v e) \<and> (\<forall>e \<in> set cs. m_t e = COMM) \<and>
     (\<forall>e \<in> set ks. m_t e = COUNT)"

definition merge_of :: "func_event list \<Rightarrow> event_t list \<Rightarrow> event_t list \<Rightarrow> event_t list \<Rightarrow> event_t list \<Rightarrow> bool" where
  "merge_of v fs cs ks out \<longleftrightarrow> by_time out \<and> exits_last v out \<and> entries_first v out \<and>
     filter (\<lambda>e. m_t e = FUNC) out = fs \<and> filter (\<lambda>e. m_t e = COMM) out = cs \<and>
     filter (\<lambda>e. m_t e = COUNT) out = ks \<and> mset out = mset fs + mset cs + mset ks"

lemma merge_set: "merge_of v fs cs ks out \<Longrightarrow> set out = set fs \<union> set cs \<union> set ks"
proof -
  assume "merge_of v fs cs ks out"
  then have "mset out = mset fs + mset cs + mset ks" by (simp add: merge_of_def)
  then have "set_mset (mset out) = set_mset (mset fs + mset cs + mset ks)" by simp
  then show ?thesis by simp
qed

lemma by_time_front: "by_time q \<Longrightarrow> e \<in> set q \<Longrightarrow> front_ts q \<le> ev_ts e"
  by (cases q) (auto simp: by_time_def)

lemma lookup_type_known: "m_t e = FUNC \<Longrightarrow> known_type v e \<Longrightarrow> lookup_type v e = Inr (func_type v e)"
  by (simp add: lookup_type_def ev_eid_def known_type_def func_type_def)

lemma is_corid_ok: "\<forall>e \<in> set ks. m_t e = COUNT \<Longrightarrow> \<exists>b. is_corid p ks = Inr b"
  by (cases ks) (auto simp: is_corid_def ev_counter_id_def)

lemma successively_Cons_hd:
  "successively P (x # xs) \<longleftrightarrow> (xs = [] \<or> P x (hd xs)) \<and> successively P xs"
  by (cases xs) auto

text \<open>Taking the head of one queue and merging the rest.\<close>

lemma merge_step_func:
  assumes i: "thread_input v (e # fs) cs ks" and m: "merge_of v fs cs ks out"
    and g: "good_choice (func_type v e) (e # fs, cs, ks) QFunc"
  shows "merge_of v (e # fs) cs ks (e # out)"
proof -
  have e: "m_t e = FUNC" using i by (simp add: thread_input_def)
  have le: "ev_ts e \<le> front_ts cs" "ev_ts e \<le> front_ts ks"
    using g by (auto simp: good_choice_def queue_all pick_def)
  have lt: "ev_ts e < front_ts cs" "ev_ts e < front_ts ks" if "func_type v e \<noteq> ENTRY"
    using g that by (auto simp: good_choice_def queue_all pick_def)
  have all: "ev_ts e \<le> ev_ts b" if "b \<in> set out" for b
    using that merge_set [OF m] i le by_time_front [of cs b] by_time_front [of ks b]
    by (auto simp: thread_input_def by_time_def)
  have other: "b \<in> set cs \<or> b \<in> set ks" if "b \<in> set out" "m_t b \<noteq> FUNC" for b
    using that merge_set [OF m] i by (auto simp: thread_input_def)
  have strict: "ev_ts e < ev_ts b" if "b \<in> set out" "m_t b \<noteq> FUNC" "func_type v e \<noteq> ENTRY" for b
    using other [OF that(1,2)] lt [OF that(3)] i by_time_front [of cs b] by_time_front [of ks b]
    by (auto simp: thread_input_def)
  show ?thesis
    using m all strict e
    by (auto simp: merge_of_def by_time_def exits_last_def entries_first_def successively_Cons_hd)
qed

lemma merge_step_other:
  assumes i: "thread_input v fs cs ks" and m: "merge_of v fs cs' ks' out"
    and g: "good_choice ty (fs, cs, ks) q" and q: "q \<noteq> QFunc"
    and ty: "fs \<noteq> [] \<Longrightarrow> ty = func_type v (hd fs)"
    and e: "pick (fs, cs, ks) q = e # q'" "(cs', ks') = (if q = QComm then (q', ks) else (cs, q'))"
  shows "merge_of v fs cs ks (e # out)"
proof -
  have kind: "m_t e = (if q = QComm then COMM else COUNT)"
    using i e(1) q by (cases q) (auto simp: thread_input_def pick_def)
  have le: "ev_ts e \<le> front_ts fs" "ev_ts e \<le> front_ts cs" "ev_ts e \<le> front_ts ks"
    using g e(1) by (auto simp: good_choice_def queue_all pick_def)
  have sub: "set cs' \<subseteq> set cs" "set ks' \<subseteq> set ks"
    using e q by (cases q; auto simp: pick_def)+
  have all: "ev_ts e \<le> ev_ts b" if "b \<in> set out" for b
    using that merge_set [OF m] i le sub by_time_front [of fs b] by_time_front [of cs b] by_time_front [of ks b]
    by (fastforce simp: thread_input_def)
  have entry: "ev_ts e < ev_ts (hd out)" if "out \<noteq> []" "m_t (hd out) = FUNC" "func_type v (hd out) = ENTRY"
  proof -
    have "hd out = hd fs" "fs \<noteq> []"
      using m that(1,2) by (cases out; auto simp: merge_of_def)+
    then have "ty = ENTRY" using ty that(3) by simp
    then have "ev_ts e < front_ts fs" using g q e(1) by (simp add: good_choice_def pick_def)
    then show ?thesis using \<open>hd out = hd fs\<close> \<open>fs \<noteq> []\<close> by (cases fs) auto
  qed
  have parts: "filter (\<lambda>e. m_t e = COMM) (e # out) = cs" "filter (\<lambda>e. m_t e = COUNT) (e # out) = ks"
    "mset (e # out) = mset fs + mset cs + mset ks"
    using m e q kind by (cases q; auto simp: merge_of_def pick_def)+
  show ?thesis
    using m all entry kind parts
    by (auto simp: merge_of_def by_time_def exits_last_def entries_first_def successively_Cons_hd)
qed

lemma thread_input_tl:
  assumes "thread_input v fs cs ks"
  shows "thread_input v (tl fs) cs ks" "thread_input v fs (tl cs) ks" "thread_input v fs cs (tl ks)"
proof -
  have "by_time (tl q) = True" if "by_time q" for q using that by (cases q) (auto simp: by_time_def)
  moreover have "before_max (tl q)" if "before_max q" for q using that by (cases q) (auto simp: before_max_def)
  moreover have "set (tl q) \<subseteq> set q" for q :: "event_t list" by (cases q) auto
  ultimately show "thread_input v (tl fs) cs ks" "thread_input v fs (tl cs) ks" "thread_input v fs cs (tl ks)"
    using assms unfolding thread_input_def by blast+
qed

lemma interleave_ok:
  assumes "thread_input v fs cs ks" "length fs + length cs + length ks \<le> n"
  shows "\<exists>out. interleave p v n le hc (fs, cs, ks) = Inr out \<and> merge_of v fs cs ks out"
  using assms
proof (induction n arbitrary: le hc fs cs ks)
  case 0
  then show ?case
    by (simp add: interleave.simps merge_of_def by_time_def exits_last_def entries_first_def)
next
  case (Suc n)
  show ?case
  proof (cases "fs = [] \<and> cs = [] \<and> ks = []")
    case True
    then show ?thesis
      by (simp add: interleave.simps merge_of_def by_time_def exits_last_def entries_first_def)
  next
    case False
    note i = Suc.prems(1)
    define ty where "ty = (if fs = [] then NA else func_type v (hd fs))"
    have ty: "(if fs = [] then Inr NA else lookup_type v (hd fs)) = Inr ty"
      using i by (cases fs) (auto simp: ty_def thread_input_def lookup_type_known)
    obtain b where b: "is_corid p ks = Inr b" using is_corid_ok i unfolding thread_input_def by blast
    obtain q where q: "next_queue p v ty b le hc (fs, cs, ks) = Inr q" "good_choice ty (fs, cs, ks) q"
      using next_queue_ok [of fs cs ks ty p v b le hc] False i by (auto simp: thread_input_def ty_def)
    define le' where "le' = (if q = QFunc \<and> ty = ENTRY then ev_ts (hd fs) else le)"
    define hc' where "hc' = ((if q = QFunc \<and> ty = ENTRY then False else hc) \<or> (q = QCounter \<and> b))"
    have ne: "pick (fs, cs, ks) q \<noteq> []" using q(2) by (simp add: good_choice_def)
    note unf = interleave.simps [of p v "Suc n" le hc fs cs ks]
    show ?thesis
    proof (cases q)
      case QFunc
      then obtain e fs' where e: "fs = e # fs'" using ne by (cases fs) (auto simp: pick_def)
      obtain out where o: "interleave p v n le' hc' (fs', cs, ks) = Inr out" "merge_of v fs' cs ks out"
        using Suc.IH [of fs' cs ks le' hc'] thread_input_tl(1) [OF i] Suc.prems(2) e by auto
      have "interleave p v (Suc n) le hc (fs, cs, ks) = Inr (e # out)"
        using unf False ty b q(1) QFunc e o(1) by (simp add: Let_def le'_def hc'_def)
      moreover have "merge_of v fs cs ks (e # out)"
        using merge_step_func [of v e fs' cs ks out] i o(2) q(2) QFunc e by (simp add: ty_def)
      ultimately show ?thesis by blast
    next
      case QComm
      then obtain e cs' where e: "cs = e # cs'" using ne by (cases cs) (auto simp: pick_def)
      obtain out where o: "interleave p v n le' hc' (fs, cs', ks) = Inr out" "merge_of v fs cs' ks out"
        using Suc.IH [of fs cs' ks le' hc'] thread_input_tl(2) [OF i] Suc.prems(2) e by auto
      have "interleave p v (Suc n) le hc (fs, cs, ks) = Inr (e # out)"
        using unf False ty b q(1) QComm e o(1) by (simp add: Let_def le'_def hc'_def)
      moreover have "merge_of v fs cs ks (e # out)"
        by (rule merge_step_other [OF i o(2) q(2)]) (use QComm e in \<open>auto simp: pick_def ty_def\<close>)
      ultimately show ?thesis by blast
    next
      case QCounter
      then obtain e ks' where e: "ks = e # ks'" using ne by (cases ks) (auto simp: pick_def)
      obtain out where o: "interleave p v n le' hc' (fs, cs, ks') = Inr out" "merge_of v fs cs ks' out"
        using Suc.IH [of fs cs ks' le' hc'] thread_input_tl(3) [OF i] Suc.prems(2) e by auto
      have "interleave p v (Suc n) le hc (fs, cs, ks) = Inr (e # out)"
        using unf False ty b q(1) QCounter e o(1) by (simp add: Let_def le'_def hc'_def)
      moreover have "merge_of v fs cs ks (e # out)"
        by (rule merge_step_other [OF i o(2) q(2)]) (use QCounter e in \<open>auto simp: pick_def ty_def\<close>)
      ultimately show ?thesis by blast
    qed
  qed
qed

subsection \<open>The order check\<close>

definition thread_ts :: "parser \<Rightarrow> nat \<Rightarrow> u64 list list \<Rightarrow> u64 \<Rightarrow> u64 list" where
  "thread_ts p off rs thr = map (\<lambda>r. r ! off) (filter (\<lambda>r. validateEvent p r \<and> r ! IDX_T = thr) rs)"

lemma thread_ts_Cons: "thread_ts p off (r # rs) thr =
    (if validateEvent p r \<and> r ! IDX_T = thr then r ! off # thread_ts p off rs thr else thread_ts p off rs thr)"
  by (simp add: thread_ts_def)

definition prefixed :: "u64 option \<Rightarrow> u64 list \<Rightarrow> u64 list" where
  "prefixed l xs = (case l of None \<Rightarrow> xs | Some x \<Rightarrow> x # xs)"

lemma order_loop_ok:
  "order_loop p off False rs la b = Inr (b \<and> (\<forall>thr. successively (\<le>) (prefixed (la thr) (thread_ts p off rs thr))))"
proof (induction rs arbitrary: la b)
  case Nil
  then show ?case by (auto simp: thread_ts_def prefixed_def split: option.split)
next
  case (Cons r rs)
  show ?case
  proof (cases "validateEvent p r")
    case False
    then show ?thesis using Cons.IH by (simp add: thread_ts_Cons)
  next
    case True
    let ?t = "r ! IDX_T" and ?ts = "r ! off"
    define late where "late = (case la ?t of None \<Rightarrow> False | Some l \<Rightarrow> ?ts < l)"
    have 1: "successively (\<le>) (prefixed ((la(?t \<mapsto> ?ts)) thr) (thread_ts p off rs thr)) \<and> (thr = ?t \<longrightarrow> \<not> late)
        \<longleftrightarrow> successively (\<le>) (prefixed (la thr) (thread_ts p off (r # rs) thr))" for thr
      using True by (cases "thr = ?t"; cases "la ?t")
        (auto simp: thread_ts_Cons prefixed_def late_def)
    have "(\<forall>thr. successively (\<le>) (prefixed ((la(?t \<mapsto> ?ts)) thr) (thread_ts p off rs thr))) \<and> \<not> late
        \<longleftrightarrow> (\<forall>thr. successively (\<le>) (prefixed (la thr) (thread_ts p off (r # rs) thr)))"
      using 1 by metis
    then have eq: "(b \<and> \<not> late) \<and> (\<forall>thr. successively (\<le>) (prefixed ((la(?t \<mapsto> ?ts)) thr) (thread_ts p off rs thr)))
        \<longleftrightarrow> b \<and> (\<forall>thr. successively (\<le>) (prefixed (la thr) (thread_ts p off (r # rs) thr)))"
      by blast
    have "order_loop p off False (r # rs) la b =
        order_loop p off False rs (la(?t \<mapsto> ?ts)) (b \<and> \<not> late)"
      using True by (simp add: Let_def late_def)
    then show ?thesis unfolding Cons.IH eq .
  qed
qed

definition ordered_rows :: "parser \<Rightarrow> nat \<Rightarrow> u64 list list \<Rightarrow> bool" where
  "ordered_rows p off rs \<longleftrightarrow> (\<forall>thr. sorted (thread_ts p off rs thr))"

lemma checkEventOrder_ok:
  "t \<noteq> UnknownType \<Longrightarrow> checkEventOrder t False p = Inr (ordered_rows p (ts_offset t) (raw_rows p t))"
  by (simp add: checkEventOrder_def order_loop_ok prefixed_def ordered_rows_def
      sorted_wrt_iff_nth_less successively_conv_sorted_wrt transp_def)

subsection \<open>Separating the events by thread\<close>

definition event_at :: "parser \<Rightarrow> event_data_type \<Rightarrow> nat \<Rightarrow> event_t" where
  "event_at p t i = \<lparr>m_data = row (stride t) (buffer p t) i, m_t = t,
     m_id = eventID (p_rank p) (p_current_step p) (int i), m_idx = i\<rparr>"

definition events :: "parser \<Rightarrow> event_data_type \<Rightarrow> event_t list" where
  "events p t = map (event_at p t) [0..<event_count p t]"

definition valid_events :: "parser \<Rightarrow> event_data_type \<Rightarrow> event_t list" where
  "valid_events p t = filter (\<lambda>e. validateEvent p (m_data e)) (events p t)"

definition of_thread :: "u64 \<Rightarrow> event_t list \<Rightarrow> event_t list" where
  "of_thread tid es = filter (\<lambda>e. ev_tid e = tid) es"

lemma of_thread_Nil [simp]: "of_thread tid [] = []"
  by (simp add: of_thread_def)

lemma of_thread_append [simp]: "of_thread tid (a @ b) = of_thread tid a @ of_thread tid b"
  by (simp add: of_thread_def)

lemma by_time_append1: "by_time (q @ [e]) \<longleftrightarrow> by_time q \<and> (q = [] \<or> ev_ts (last q) \<le> ev_ts e)"
proof -
  have "(\<forall>a \<in> set q. ev_ts a \<le> ev_ts e) \<longleftrightarrow> (q = [] \<or> ev_ts (last q) \<le> ev_ts e)" if s: "by_time q"
  proof (cases q rule: rev_cases)
    case (snoc q' l)
    then show ?thesis using s by (auto simp: by_time_def sorted_wrt_append)
  qed simp
  then show ?thesis by (auto simp: by_time_def sorted_wrt_append)
qed

lemma separate_loop:
  assumes "\<forall>tid. by_time (of_thread tid old)"
  shows "foldE (separate_step p t) xs (\<lambda>tid. of_thread tid old, tids, n) =
    (let vs = filter (\<lambda>e. validateEvent p (m_data e)) (map (event_at p t) xs) in
     if \<forall>tid. by_time (of_thread tid (old @ vs))
     then Inr (\<lambda>tid. of_thread tid (old @ vs), tids \<union> ev_tid ` set vs, n + length vs)
     else Inl (Fatal ''ADParser::getEvents parsed event data is not in time order''))"
  using assms
proof (induction xs arbitrary: old tids n)
  case Nil
  then show ?case by simp
next
  case (Cons i xs)
  define e where "e = event_at p t i"
  define vs where "vs = filter (\<lambda>e. validateEvent p (m_data e)) (map (event_at p t) xs)"
  have step: "separate_step p t i (\<lambda>tid. of_thread tid old, tids, n) =
     (if \<not> validateEvent p (m_data e) then Inr (\<lambda>tid. of_thread tid old, tids, n)
      else if of_thread (ev_tid e) old \<noteq> [] \<and> ev_ts (last (of_thread (ev_tid e) old)) > ev_ts e
        then Inl (Fatal ''ADParser::getEvents parsed event data is not in time order'')
      else Inr (\<lambda>tid. of_thread tid (old @ [e]), insert (ev_tid e) tids, Suc n))"
    by (auto simp: separate_step_def createAndValidateEvent_def Let_def e_def event_at_def of_thread_def fun_eq_iff)
  have one: "(\<forall>tid. by_time (of_thread tid (old @ [e]))) \<longleftrightarrow>
      \<not> (of_thread (ev_tid e) old \<noteq> [] \<and> ev_ts (last (of_thread (ev_tid e) old)) > ev_ts e)"
  proof -
    have "by_time (of_thread tid (old @ [e])) \<longleftrightarrow>
        (tid = ev_tid e \<longrightarrow> of_thread tid old = [] \<or> ev_ts (last (of_thread tid old)) \<le> ev_ts e)" for tid
      using Cons.prems by_time_append1 [of "of_thread tid old" e] by (auto simp: of_thread_def)
    then show ?thesis by (auto simp: not_less)
  qed
  show ?case
  proof (cases "validateEvent p (m_data e)")
    case False
    then show ?thesis using Cons.IH [OF Cons.prems, of tids n] step by (simp add: e_def)
  next
    case valid: True
    show ?thesis
    proof (cases "\<forall>tid. by_time (of_thread tid (old @ [e]))")
      case True
      then have "foldE (separate_step p t) xs (\<lambda>tid. of_thread tid (old @ [e]), insert (ev_tid e) tids, Suc n) =
        (if \<forall>tid. by_time (of_thread tid ((old @ [e]) @ vs))
         then Inr (\<lambda>tid. of_thread tid ((old @ [e]) @ vs), insert (ev_tid e) tids \<union> ev_tid ` set vs, Suc n + length vs)
         else Inl (Fatal ''ADParser::getEvents parsed event data is not in time order''))"
        using Cons.IH [of "old @ [e]" "insert (ev_tid e) tids" "Suc n"] by (simp add: vs_def Let_def)
      moreover have "filter (\<lambda>e. validateEvent p (m_data e)) (map (event_at p t) (i # xs)) = e # vs"
        using valid by (simp add: e_def vs_def)
      ultimately show ?thesis using step valid True one by (simp add: Let_def)
    next
      case False
      then obtain tid where "\<not> by_time (of_thread tid (old @ [e]))" by blast
      then have "\<not> by_time (of_thread tid (old @ e # vs))"
        by (auto simp: by_time_def of_thread_def sorted_wrt_append split: if_splits)
      moreover have "filter (\<lambda>e. validateEvent p (m_data e)) (map (event_at p t) (i # xs)) = e # vs"
        using valid by (simp add: e_def vs_def)
      ultimately show ?thesis using step valid False one by (auto simp: Let_def)
    qed
  qed
qed

lemma event_at_simps [simp]:
  "m_data (event_at p t i) = row (stride t) (buffer p t) i" "m_t (event_at p t i) = t"
  "m_id (event_at p t i) = eventID (p_rank p) (p_current_step p) (int i)"
  "ev_tid (event_at p t i) = row (stride t) (buffer p t) i ! IDX_T"
  by (simp_all add: event_at_def ev_tid_def)

lemma event_at_ts:
  "t \<noteq> UnknownType \<Longrightarrow> ev_ts (event_at p t i) = row (stride t) (buffer p t) i ! ts_offset t"
  by (cases t) (simp_all add: ev_ts_def ts_offset_def)

lemma valid_events_kind: "e \<in> set (valid_events p t) \<Longrightarrow> m_t e = t"
  by (auto simp: valid_events_def events_def)

lemma ordered_by_time:
  assumes "t \<noteq> UnknownType"
  shows "ordered_rows p (ts_offset t) (raw_rows p t) \<longleftrightarrow> (\<forall>tid. by_time (of_thread tid (valid_events p t)))"
proof -
  have "thread_ts p (ts_offset t) (raw_rows p t) tid = map ev_ts (of_thread tid (valid_events p t))" for tid
  proof -
    have "thread_ts p (ts_offset t) (map (row (stride t) (buffer p t)) is') tid =
      map ev_ts (of_thread tid (filter (\<lambda>e. validateEvent p (m_data e)) (map (event_at p t) is')))" for is'
      by (induction is') (auto simp: thread_ts_def of_thread_def event_at_ts [OF assms])
    then show ?thesis by (simp add: raw_rows_def valid_events_def events_def)
  qed
  then show ?thesis by (simp add: ordered_rows_def by_time_def sorted_map)
qed

lemma separate_ok:
  "separate p t tids n =
    (if \<forall>tid. by_time (of_thread tid (valid_events p t))
     then Inr (\<lambda>tid. of_thread tid (valid_events p t), tids \<union> ev_tid ` set (valid_events p t),
       n + length (valid_events p t))
     else Inl (Fatal ''ADParser::getEvents parsed event data is not in time order''))"
proof -
  have "\<forall>tid. by_time (of_thread tid [])" by (simp add: by_time_def)
  from separate_loop [OF this, of p t "[0..<event_count p t]" tids n]
  show ?thesis by (simp add: separate_def valid_events_def events_def Let_def)
qed

lemma foldE_concat:
  assumes "\<And>x. x \<in> set xs \<Longrightarrow> f x = Inr (g x)"
  shows "foldE (\<lambda>x out. bind (f x) (\<lambda>e. Inr (out @ e))) xs old = Inr (old @ concat (map g xs))"
  using assms by (induction xs arbitrary: old) auto

subsection \<open>The events of a step\<close>

definition step_tids :: "parser \<Rightarrow> u64 set" where
  "step_tids p = ev_tid ` set (valid_events p FUNC) \<union> ev_tid ` set (valid_events p COMM)
     \<union> ev_tid ` set (valid_events p COUNT)"

definition parser_data_ok :: "parser \<Rightarrow> bool" where
  "parser_data_ok p \<longleftrightarrow>
     (\<forall>e \<in> set (valid_events p FUNC). known_type (event_type_map (p_eventType p)) e) \<and>
     (\<forall>t. \<forall>e \<in> set (valid_events p t). t \<noteq> UnknownType \<longrightarrow> ev_ts e < u64_max)"

definition all_ordered :: "parser \<Rightarrow> bool" where
  "all_ordered p \<longleftrightarrow> (\<forall>t. t \<noteq> UnknownType \<longrightarrow> checkEventOrder t False p = Inr True)"

lemma all_ordered_by_time:
  "all_ordered p \<longleftrightarrow> (\<forall>t. t \<noteq> UnknownType \<longrightarrow> (\<forall>tid. by_time (of_thread tid (valid_events p t))))"
  by (auto simp: all_ordered_def checkEventOrder_ok ordered_by_time)

lemma sum_of_thread:
  assumes "finite T" "ev_tid ` set es \<subseteq> T"
  shows "(\<Sum>tid \<in> T. mset (of_thread tid es)) = mset es"
  using assms(2)
proof (induction es)
  case (Cons e es)
  have "(\<Sum>tid \<in> T. mset (of_thread tid (e # es))) =
      (\<Sum>tid \<in> T. (if ev_tid e = tid then {#e#} else {#}) + mset (of_thread tid es))"
    by (rule sum.cong) (auto simp: of_thread_def)
  also have "\<dots> = (\<Sum>tid \<in> T. if ev_tid e = tid then {#e#} else {#}) + (\<Sum>tid \<in> T. mset (of_thread tid es))"
    by (simp add: sum.distrib)
  also have "(\<Sum>tid \<in> T. if ev_tid e = tid then {#e#} else {#}) = {#e#}"
    using Cons.prems assms(1) by (simp add: sum.delta)
  finally show ?case using Cons by simp
qed (simp add: of_thread_def)

lemma mset_concat_set:
  "distinct xs \<Longrightarrow> mset (concat (map g xs)) = (\<Sum>x \<in> set xs. mset (g x))"
  by (induction xs) auto

lemma getEvents_run:
  assumes "all_ordered p" "parser_data_ok p"
  shows "\<exists>seg. getEvents p = Inr (concat (map seg (sorted_list_of_set (step_tids p)))) \<and>
    (\<forall>tid. merge_of (event_type_map (p_eventType p)) (of_thread tid (valid_events p FUNC))
      (of_thread tid (valid_events p COMM)) (of_thread tid (valid_events p COUNT)) (seg tid)) \<and>
    mset (concat (map seg (sorted_list_of_set (step_tids p)))) =
      mset (valid_events p FUNC) + mset (valid_events p COMM) + mset (valid_events p COUNT)"
proof -
  let ?v = "event_type_map (p_eventType p)" and ?T = "step_tids p"
  let ?f = "\<lambda>tid. of_thread tid (valid_events p FUNC)" and ?c = "\<lambda>tid. of_thread tid (valid_events p COMM)"
    and ?k = "\<lambda>tid. of_thread tid (valid_events p COUNT)"
  have inp: "thread_input ?v (?f tid) (?c tid) (?k tid)" for tid
    using assms unfolding thread_input_def all_ordered_by_time parser_data_ok_def before_max_def
    by (auto simp: of_thread_def dest: valid_events_kind)
  define seg where "seg tid = (SOME out. interleave p ?v (length (?f tid) + length (?c tid) + length (?k tid))
      0 False (?f tid, ?c tid, ?k tid) = Inr out \<and> merge_of ?v (?f tid) (?c tid) (?k tid) out)" for tid
  have seg: "thread_events p ?v ?f ?c ?k tid = Inr (seg tid) \<and> merge_of ?v (?f tid) (?c tid) (?k tid) (seg tid)" for tid
    unfolding thread_events_def seg_def by (rule someI_ex) (rule interleave_ok [OF inp order_refl])
  let ?out = "concat (map seg (sorted_list_of_set ?T))"
  have fin: "finite ?T" by (simp add: step_tids_def)
  have sub: "ev_tid ` set (valid_events p FUNC) \<subseteq> ?T" "ev_tid ` set (valid_events p COMM) \<subseteq> ?T"
    "ev_tid ` set (valid_events p COUNT) \<subseteq> ?T"
    by (auto simp: step_tids_def)
  have "mset ?out = (\<Sum>tid \<in> ?T. mset (seg tid))"
    using mset_concat_set [of "sorted_list_of_set ?T" seg] fin by simp
  also have "\<dots> = (\<Sum>tid \<in> ?T. mset (?f tid) + mset (?c tid) + mset (?k tid))"
    by (rule sum.cong) (use seg in \<open>auto simp: merge_of_def\<close>)
  also have "\<dots> = mset (valid_events p FUNC) + mset (valid_events p COMM) + mset (valid_events p COUNT)"
    by (simp add: sum.distrib sum_of_thread [OF fin sub(1)] sum_of_thread [OF fin sub(2)]
        sum_of_thread [OF fin sub(3)])
  finally have ms: "mset ?out = mset (valid_events p FUNC) + mset (valid_events p COMM) + mset (valid_events p COUNT)" .
  have len: "length ?out = length (valid_events p FUNC) + length (valid_events p COMM) + length (valid_events p COUNT)"
    using arg_cong [OF ms, of size] by simp
  have "foldE (\<lambda>tid out. bind (thread_events p ?v ?f ?c ?k tid) (\<lambda>evs. Inr (out @ evs)))
      (sorted_list_of_set ?T) [] = Inr ?out"
    using foldE_concat [of "sorted_list_of_set ?T" "thread_events p ?v ?f ?c ?k" seg "[]"] seg by simp
  moreover have "getEvents p = bind (foldE (\<lambda>tid out. bind (thread_events p ?v ?f ?c ?k tid)
        (\<lambda>evs. Inr (out @ evs))) (sorted_list_of_set ?T) []) (\<lambda>out.
      bind (guard (Fatal ''Event insertion missed some events??'') (length out = length (valid_events p FUNC)
        + length (valid_events p COMM) + length (valid_events p COUNT))) (\<lambda>_. Inr out))"
    using assms(1) unfolding getEvents_def separate_ok all_ordered_by_time step_tids_def by simp
  ultimately have "getEvents p = Inr ?out" using len by simp
  then show ?thesis using seg ms by blast
qed


text \<open>A step with an entry, an exit, and a correlation counter at the time of the exit.\<close>

definition wit_parser :: parser where
  "wit_parser = (new_ADParser 1 2 False)\<lparr>p_current_step := 0, p_eventType := [(0, ''ENTRY''), (1, ''EXIT'')],
     p_correlation_id_cid := 7, p_timer_event_count := 2,
     p_event_timestamps := [1, 2, 3, 0, 4, 100, 1, 2, 3, 1, 4, 200],
     p_counter_count := 1, p_counter_timestamps := [1, 2, 3, 7, 55, 200]\<rparr>"

lemma wit_parser_ordered: "all_ordered wit_parser"
proof -
  have "checkEventOrder FUNC False wit_parser = Inr True" "checkEventOrder COMM False wit_parser = Inr True"
    "checkEventOrder COUNT False wit_parser = Inr True" by code_simp+
  then show ?thesis unfolding all_ordered_def using event_data_type.exhaust by metis
qed

lemma wit_parser_data: "parser_data_ok wit_parser"
proof -
  have k: "list_all (known_type (event_type_map (p_eventType wit_parser))) (valid_events wit_parser FUNC)"
    by code_simp
  have f: "list_all (\<lambda>e. ev_ts e < u64_max) (valid_events wit_parser FUNC)" by code_simp
  have c: "list_all (\<lambda>e. ev_ts e < u64_max) (valid_events wit_parser COMM)" by code_simp
  have n: "list_all (\<lambda>e. ev_ts e < u64_max) (valid_events wit_parser COUNT)" by code_simp
  have "ev_ts e < u64_max" if "e \<in> set (valid_events wit_parser t)" "t \<noteq> UnknownType" for t e
    using that f c n by (cases t) (auto simp: list_all_iff)
  then show ?thesis using k by (auto simp: parser_data_ok_def list_all_iff)
qed


text \<open>
  C37. On data with known function event types and without the largest time stamp,
  \<open>getEvents\<close> fails exactly when the order check of one of the three kinds fails; the fetch
  of communication and counter data reports that condition as recoverable only.
\<close>

theorem getEvents_fails_iff:
  assumes "parser_data_ok p"
  shows "(\<exists>out. getEvents p = Inr out) \<longleftrightarrow> all_ordered p"
proof
  assume "\<exists>out. getEvents p = Inr out"
  then have "\<forall>tid. by_time (of_thread tid (valid_events p t))" if "t \<in> {FUNC, COMM, COUNT}" for t
    using that unfolding getEvents_def separate_ok by (auto split: if_splits)
  then show "all_ordered p" unfolding all_ordered_by_time using event_data_type.exhaust by blast
next
  assume "all_ordered p"
  then show "\<exists>out. getEvents p = Inr out" using getEvents_run [OF _ assms] by blast
qed

theorem getEvents_fails_iff_witness:
  "\<exists>out. getEvents wit_parser = Inr out"
  using getEvents_fails_iff [OF wit_parser_data] wit_parser_ordered by blast

definition plain_choice :: "func_event \<Rightarrow> event_t list \<times> event_t list \<times> event_t list \<Rightarrow> queue res" where
  "plain_choice ty qs = bind (getEarliest (map (pick qs) (priority ty))) (\<lambda>pe. Inr (priority ty ! pe))"

definition corid_parser :: parser where
  "corid_parser = (new_ADParser 1 2 False)\<lparr>p_current_step := 0, p_eventType := [(0, ''ENTRY''), (1, ''EXIT'')],
     p_correlation_id_cid := 7, p_timer_event_count := 4,
     p_event_timestamps := [1, 2, 3, 0, 4, 100, 1, 2, 3, 1, 4, 100, 1, 2, 3, 0, 4, 100, 1, 2, 3, 1, 4, 100],
     p_counter_count := 2, p_counter_timestamps := [1, 2, 3, 7, 55, 100, 1, 2, 3, 7, 56, 100]\<rparr>"

text \<open>
  The special case \<open>getEvents\<close> has for a zero-length function whose entry, correlation
  counter and exit coincide never applies: whatever the queues, the choice of the next event
  is the one by time and priority alone. So the rule announced there, that a zero-length
  function claims only one correlation counter, is not enforced: with entry, exit, entry and
  exit at one time, the first function takes both counters.
\<close>

lemma edge_case_dead:
  "next_queue p v ty corid last_entry has_corid qs = plain_choice ty qs \<and>
   bind (getEvents corid_parser) (\<lambda>out. Inr (map (\<lambda>e. (m_t e, m_idx e)) out)) =
     Inr [(FUNC, 0), (COUNT, 0), (COUNT, 1), (FUNC, 1), (FUNC, 2), (FUNC, 3)]"
proof
  obtain fs cs ks where qs: "qs = (fs, cs, ks)" by (cases qs)
  have "\<not> (getEarliest [cs, ks, fs] = Inr 2 \<and> fs \<noteq> [] \<and> ks \<noteq> [] \<and> ev_ts (hd fs) = ev_ts (hd ks))"
    by (rule getEarliest_cases [of cs ks fs]; cases fs; cases ks) auto
  then show "next_queue p v ty corid last_entry has_corid qs = plain_choice ty qs"
    by (rule_tac getEarliest_cases [of cs ks fs])
      (auto simp: qs next_queue_def plain_choice_def priority_def pick_def Let_def)
qed code_simp

text \<open>
  The type of a function event is read from a table by its index without a bounds check:
  with an event type other than entry and exit whose index is larger than both of theirs,
  \<open>getEvents\<close> reads past the end of the table.
\<close>

lemma event_type_out_of_range:
  "getEvents (wit_parser\<lparr>p_eventType := [(0, ''ENTRY''), (1, ''EXIT''), (9, ''OTHER'')],
     p_event_timestamps := [1, 2, 3, 0, 4, 100, 1, 2, 3, 9, 4, 200]\<rparr>) = Inl OutOfBounds"
  by code_simp

end
