(* ===== verification/ParserFetch.thy ===== *)
theory ParserFetch
  imports ParserOrder
begin

text \<open>
  Fetching a step's function data: the columns overwritten, the indices replaced or the row
  invalidated, and the stable sort by time stamp when the rows are out of order.
\<close>

subsection \<open>Rows of a flat buffer\<close>

lemma row_length: "(i + 1) * w \<le> length data \<Longrightarrow> length (row w data i) = w"
proof -
  assume "(i + 1) * w \<le> length data"
  then have "i * w + w \<le> length data" by (simp add: algebra_simps)
  then have "w \<le> length data - i * w" by linarith
  then show ?thesis by (simp add: row_def)
qed

lemma row_nth: "j < w \<Longrightarrow> (i + 1) * w \<le> length data \<Longrightarrow> row w data i ! j = data ! (i * w + j)"
  by (simp add: row_def)

lemma row_update_same:
  "j < w \<Longrightarrow> (i + 1) * w \<le> length data \<Longrightarrow> row w (data[i * w + j := v]) i = (row w data i)[j := v]"
  by (simp add: row_def drop_update_swap take_update_swap)

lemma row_update_other:
  assumes "j < w" "i' \<noteq> i"
  shows "row w (data[i * w + j := v]) i' = row w data i'"
proof (cases "i < i'")
  case True
  then have "Suc i * w \<le> i' * w" by (intro mult_le_mono1) simp
  then have "i * w + j < i' * w" using assms(1) by simp
  then show ?thesis by (simp add: row_def)
next
  case False
  then have "Suc i' * w \<le> i * w" using assms(2) by (intro mult_le_mono1) simp
  then have "i' * w + w \<le> i * w + j" by simp
  then show ?thesis by (simp add: row_def drop_update_swap)
qed

lemma row_concat:
  assumes "\<And>r. r \<in> set rows \<Longrightarrow> length r = w" "i < length rows"
  shows "row w (concat rows) i = rows ! i"
  using assms
proof (induction rows arbitrary: i)
  case (Cons r rows)
  then show ?case by (cases i) (auto simp: row_def)
qed simp

lemma length_concat_rows:
  "(\<And>r. r \<in> set rows \<Longrightarrow> length r = w) \<Longrightarrow> length (concat rows) = length rows * w"
  by (induction rows) auto

definition rows_of :: "nat \<Rightarrow> nat \<Rightarrow> u64 list \<Rightarrow> u64 list list" where
  "rows_of w n data = map (row w data) [0..<n]"

lemma rows_of_length: "n * w \<le> length data \<Longrightarrow> r \<in> set (rows_of w n data) \<Longrightarrow> length r = w"
proof -
  assume n: "n * w \<le> length data" and r: "r \<in> set (rows_of w n data)"
  then obtain i where i: "i < n" "r = row w data i" by (auto simp: rows_of_def)
  then have "(i + 1) * w \<le> n * w" by (intro mult_le_mono1) simp
  then show ?thesis using n i row_length [of i w data] by simp
qed

lemma sort_rows:
  assumes "n * FUNC_EVENT_DIM \<le> length data"
  shows "rows_of FUNC_EVENT_DIM n (sort_func_data n data) =
    sort_key (\<lambda>r. r ! FUNC_IDX_TS) (rows_of FUNC_EVENT_DIM n data)"
    and "length (sort_func_data n data) = n * FUNC_EVENT_DIM"
proof -
  let ?w = FUNC_EVENT_DIM and ?f = "\<lambda>i. row FUNC_EVENT_DIM data i ! FUNC_IDX_TS"
  have s: "sort_func_data n data = concat (map (row ?w data) (sort_key ?f [0..<n]))"
    using bucket_sort [of ?f "[0..<n]"] by (simp add: sort_func_data_def Let_def flatten_def)
  let ?rows = "map (row ?w data) (sort_key ?f [0..<n])"
  have len: "length r = ?w" if "r \<in> set ?rows" for r
    using that rows_of_length [OF assms, of r] by (auto simp: rows_of_def)
  have "row ?w (concat ?rows) i = ?rows ! i" if "i < n" for i
    using row_concat [of ?rows ?w i] len that by simp
  then have "map (row ?w (concat ?rows)) [0..<n] = ?rows"
    by (intro nth_equalityI) auto
  then show "rows_of ?w n (sort_func_data n data) = sort_key (\<lambda>r. r ! FUNC_IDX_TS) (rows_of ?w n data)"
    using map_sort_key [of "row ?w data" "\<lambda>r. r ! FUNC_IDX_TS" "[0..<n]"] by (simp add: rows_of_def s)
  show "length (sort_func_data n data) = n * ?w"
    unfolding s using length_concat_rows [of ?rows ?w] len by simp
qed

subsection \<open>Overwriting columns and replacing indices\<close>

definition with_ids :: "parser \<Rightarrow> u64 list \<Rightarrow> u64 list" where
  "with_ids p r = (if p_data_rank_override p
     then r[IDX_P := p_program_idx p, IDX_R := word_of_int (p_rank p)] else r[IDX_P := p_program_idx p])"

text \<open>
  The fate of a row when its function index is replaced: the global index where it is known;
  otherwise a valid row is made invalid by an impossible program index.
\<close>

definition with_fid :: "(u64 \<Rightarrow> u64 option) \<Rightarrow> parser \<Rightarrow> u64 list \<Rightarrow> u64 list" where
  "with_fid lookup p r = (case lookup (r ! FUNC_IDX_F) of
     Some new_idx \<Rightarrow> r[FUNC_IDX_F := new_idx]
   | None \<Rightarrow> if validateEvent p r then r[IDX_P := p_program_idx p + 99999999] else r)"

lemma row_bound: "i < n \<Longrightarrow> n * w \<le> length data \<Longrightarrow> (i + 1) * w \<le> length data"
proof -
  assume "i < n" "n * w \<le> length data"
  moreover then have "(i + 1) * w \<le> n * w" by (intro mult_le_mono1) simp
  ultimately show ?thesis by simp
qed

lemma set_column_rows:
  assumes "j < w" "n * w \<le> length data" "m \<le> n"
  shows "length (set_column w j v m data) = length data \<and>
    (\<forall>i. row w (set_column w j v m data) i = (if i < m then (row w data i)[j := v] else row w data i))"
  using assms(3)
proof (induction m)
  case 0
  then show ?case by (simp add: set_column_def)
next
  case (Suc m)
  let ?d = "set_column w j v m data"
  have d: "set_column w j v (Suc m) data = ?d[m * w + j := v]" by (simp add: set_column_def)
  have "(m + 1) * w \<le> length ?d" using row_bound [of m n w data] Suc assms(2) by simp
  then show ?case
    using Suc assms(1) row_update_same [of j w m ?d v] row_update_other [of j w _ m ?d v]
    by (auto simp: d less_Suc_eq)
qed

lemma override_rows:
  assumes "n * w \<le> length data" "2 \<le> w"
  shows "length (override_columns w n p data) = length data \<and>
    (\<forall>i < n. row w (override_columns w n p data) i = with_ids p (row w data i))"
proof -
  have 1: "length (set_column w IDX_P v n data) = length data \<and>
      (\<forall>i < n. row w (set_column w IDX_P v n data) i = (row w data i)[IDX_P := v])" for v
    using set_column_rows [of IDX_P w n data n v] assms by (simp add: IDX_P_def)
  have 2: "length (set_column w IDX_R v n (set_column w IDX_P u n data)) = length data \<and>
      (\<forall>i < n. row w (set_column w IDX_R v n (set_column w IDX_P u n data)) i =
        (row w data i)[IDX_P := u, IDX_R := v])" for u v
    using set_column_rows [of IDX_R w n "set_column w IDX_P u n data" n v] 1 [of u] assms
    by (simp add: IDX_R_def)
  show ?thesis using 1 2 by (auto simp: override_columns_def with_ids_def Let_def)
qed

lemma invalid_program: "length r = FUNC_EVENT_DIM \<Longrightarrow> \<not> validateEvent p (r[IDX_P := p_program_idx p + 99999999])"
  by (simp add: validateEvent_def idx_defs)

lemma replace_fid_ok:
  assumes "(i + 1) * FUNC_EVENT_DIM \<le> length data"
  shows "\<exists>d. replace_fid lookup p i data = Inr d \<and> length d = length data \<and>
    (\<forall>i'. row FUNC_EVENT_DIM d i' =
      (if i' = i then with_fid lookup p (row FUNC_EVENT_DIM data i) else row FUNC_EVENT_DIM data i'))"
proof -
  let ?w = FUNC_EVENT_DIM and ?r = "row FUNC_EVENT_DIM data i"
  have j: "FUNC_IDX_F < ?w" "IDX_P < ?w" by (simp_all add: idx_defs)
  show ?thesis
  proof (cases "lookup (?r ! FUNC_IDX_F)")
    case (Some x)
    then show ?thesis
      using row_update_same [OF j(1) assms, of x] row_update_other [OF j(1), of _ i data x]
      by (auto simp: replace_fid_def with_fid_def Let_def)
  next
    case None
    let ?v = "p_program_idx p + 99999999"
    have "\<not> validateEvent p (row ?w (data[i * ?w + IDX_P := ?v]) i)"
      using row_update_same [OF j(2) assms, of ?v] invalid_program [OF row_length [OF assms]] by simp
    then show ?thesis
      using None row_update_same [OF j(2) assms, of ?v] row_update_other [OF j(2), of _ i data ?v]
      by (auto simp: replace_fid_def with_fid_def Let_def)
  qed
qed

lemma replace_loop_ok:
  assumes "n * FUNC_EVENT_DIM \<le> length data" "m \<le> n"
  shows "\<exists>d. foldE (replace_fid lookup p) [0..<m] data = Inr d \<and> length d = length data \<and>
    (\<forall>i. row FUNC_EVENT_DIM d i =
      (if i < m then with_fid lookup p (row FUNC_EVENT_DIM data i) else row FUNC_EVENT_DIM data i))"
  using assms(2)
proof (induction m)
  case 0
  then show ?case by simp
next
  case (Suc m)
  then obtain d where d: "foldE (replace_fid lookup p) [0..<m] data = Inr d" "length d = length data"
    "\<forall>i. row FUNC_EVENT_DIM d i =
      (if i < m then with_fid lookup p (row FUNC_EVENT_DIM data i) else row FUNC_EVENT_DIM data i)"
    by auto
  have "(m + 1) * FUNC_EVENT_DIM \<le> length d" using row_bound [of m n FUNC_EVENT_DIM data] Suc.prems assms(1) d(2) by simp
  then obtain d' where d': "replace_fid lookup p m d = Inr d'" "length d' = length d"
    "\<forall>i'. row FUNC_EVENT_DIM d' i' =
      (if i' = m then with_fid lookup p (row FUNC_EVENT_DIM d m) else row FUNC_EVENT_DIM d i')"
    using replace_fid_ok by blast
  show ?case
    using d d' by (intro exI [of _ d']) (auto simp: foldE_append less_Suc_eq)
qed

subsection \<open>The fetch\<close>

text \<open>The rows the parser ends up with, before any sorting.\<close>

definition prepared :: "bool \<Rightarrow> (u64 \<Rightarrow> u64 option) \<Rightarrow> parser \<Rightarrow> u64 list list \<Rightarrow> u64 list list" where
  "prepared linked lookup p rows =
     map (\<lambda>r. if linked then with_fid lookup p (with_ids p r) else with_ids p r) rows"

lemma ordered_rows_sorted: "sorted (map (\<lambda>r. r ! off) rs) \<Longrightarrow> ordered_rows p off rs"
  unfolding ordered_rows_def thread_ts_def by (auto intro: sorted_filter)

text \<open>
  Fetching function data that the stream delivers in full always succeeds: no row is
  lost or added, each has its program (and rank) index overwritten, its function index
  replaced by the global one or, when that is unknown, is marked invalid, which the check
  after the marking confirms; if the rows are out of order on a thread they are sorted by
  time stamp, stably, and in any case the order check succeeds afterwards.
\<close>

lemma fetchFuncData_correct:
  assumes "length new = n * FUNC_EVENT_DIM"
  shows "\<exists>p'. fetchFuncData (Some (n, new)) linked lookup p = Inr (ParserOK, p') \<and>
    (let rows = prepared linked lookup p (rows_of FUNC_EVENT_DIM n new) in
     raw_rows p' FUNC = (if ordered_rows p FUNC_IDX_TS rows then rows
       else sort_key (\<lambda>r. r ! FUNC_IDX_TS) rows)) \<and>
    checkEventOrder FUNC False p' = Inr True"
proof -
  let ?w = FUNC_EVENT_DIM
  let ?d0 = "read_into ?w n new (p_event_timestamps p)"
  let ?d1 = "override_columns ?w n p ?d0"
  let ?rows = "prepared linked lookup p (rows_of ?w n new)"
  have r0: "row ?w ?d0 i = row ?w new i" if "i < n" for i
  proof -
    have "(i + 1) * ?w \<le> length new" using row_bound [OF that, of ?w new] assms by simp
    then have "i * ?w \<le> length new" "?w \<le> length new - i * ?w" by (simp_all add: algebra_simps)
    then show ?thesis using assms by (simp add: row_def read_into_def)
  qed
  have len0: "n * ?w \<le> length ?d0" using assms by (simp add: read_into_def)
  have d1: "length ?d1 = length ?d0" "\<forall>i < n. row ?w ?d1 i = with_ids p (row ?w ?d0 i)"
    using override_rows [OF len0] by (simp_all add: FUNC_EVENT_DIM_def)
  obtain d where d: "(if linked then foldE (replace_fid lookup p) [0..<n] ?d1 else Inr ?d1) = Inr d"
      "length d = length ?d1"
      "\<forall>i < n. row ?w d i = (if linked then with_fid lookup p (row ?w ?d1 i) else row ?w ?d1 i)"
    using replace_loop_ok [of n ?d1 n lookup p] len0 d1(1) by (cases linked) auto
  have rows: "rows_of ?w n d = ?rows"
    using d(3) d1(2) r0 by (simp add: rows_of_def prepared_def)
  define p1 where "p1 = p\<lparr>p_timer_event_count := n, p_event_timestamps := d\<rparr>"
  have val: "validateEvent (p\<lparr>p_timer_event_count := n, p_event_timestamps := e\<rparr>) = validateEvent p" for e
    by (simp add: validateEvent_def fun_eq_iff)
  have ord: "ordered_rows (p\<lparr>p_timer_event_count := n, p_event_timestamps := e\<rparr>) = ordered_rows p" for e
    by (simp add: ordered_rows_def thread_ts_def val fun_eq_iff)
  have raw: "raw_rows (p\<lparr>p_timer_event_count := n, p_event_timestamps := e\<rparr>) FUNC = rows_of ?w n e" for e
    by (simp add: raw_rows_def rows_of_def stride_def buffer_def event_count_def)
  have check: "checkEventOrder FUNC False (p\<lparr>p_timer_event_count := n, p_event_timestamps := e\<rparr>) =
      Inr (ordered_rows p FUNC_IDX_TS (rows_of ?w n e))" for e
    by (simp add: checkEventOrder_ok raw ord ts_offset_def)
  have fetch: "fetchFuncData (Some (n, new)) linked lookup p = Inr (ParserOK,
      if ordered_rows p FUNC_IDX_TS ?rows then p1
      else p\<lparr>p_timer_event_count := n, p_event_timestamps := sort_func_data n d\<rparr>)"
    using d(1) check [of d] rows by (simp add: fetchFuncData_def Let_def p1_def)
  have len: "n * ?w \<le> length d" using d(2) d1(1) len0 by simp
  have srt: "rows_of ?w n (sort_func_data n d) = sort_key (\<lambda>r. r ! FUNC_IDX_TS) ?rows"
    using sort_rows(1) [OF len] rows by simp
  show ?thesis
  proof (cases "ordered_rows p FUNC_IDX_TS ?rows")
    case True
    then show ?thesis using fetch raw [of d] check [of d] rows by (simp add: p1_def Let_def)
  next
    case False
    have "ordered_rows p FUNC_IDX_TS (sort_key (\<lambda>r. r ! FUNC_IDX_TS) ?rows)"
      by (rule ordered_rows_sorted) simp
    then show ?thesis
      using False fetch raw [of "sort_func_data n d"] check [of "sort_func_data n d"] srt by (simp add: Let_def)
  qed
qed

lemma fetchFuncData_correct_witness:
  "\<exists>p'. fetchFuncData (Some (2, [0, 2, 3, 1, 4, 200, 0, 2, 3, 0, 4, 100])) True
      (\<lambda>i. if i = 4 then Some 40 else None) (new_ADParser 1 2 False) = Inr (ParserOK, p') \<and>
    checkEventOrder FUNC False p' = Inr True"
  using fetchFuncData_correct [of "[0, 2, 3, 1, 4, 200, 0, 2, 3, 0, 4, 100]" 2] by (fastforce simp: FUNC_EVENT_DIM_def)

end
