(* ===== verification/Driver.thy ===== *)
theory Driver
  imports EventTiming EventFlush ParserFetch
begin

text \<open>
  A step of the analysis driver (\<open>extractEvents\<close> of
  \<open>src/modules/performance_analysis/chimbuko.cpp\<close>): the parser's events are handed to the
  event manager. The theorem joins the two components: the identifiers the parser gives to
  the function events of a step are new to an event manager that has seen earlier steps
  only, so no event of the step makes it fail.
\<close>

definition extractEvents :: "u64 set \<Rightarrow> parser \<Rightarrow> adevent \<Rightarrow> ((u64 \<times> u64) \<times> adevent) res" where
  "extractEvents ignore_counters p s =
    bind (getEvents p) (\<lambda>evs.
    bind (foldE (\<lambda>e t. bind
        (if m_t e \<noteq> COUNT then Inr True else bind (ev_counter_id e) (\<lambda>c. Inr (c \<notin> ignore_counters)))
        (\<lambda>keep. if keep then bind (addEvent e t) (\<lambda>(err, t'). Inr t') else Inr t)) evs s) (\<lambda>t.
    Inr (if evs = [] then (- 1, - 1) else (ev_ts (hd evs), ev_ts (last evs)), t)))"

subsection \<open>The identifiers an event manager knows\<close>

definition ids :: "adevent \<Rightarrow> eventID set" where
  "ids s = {i. \<exists>a v. tm s a = Some v \<and> (i = fst v \<or> i = fst (snd v))}"

lemma ids_fresh:
  assumes "einv s" "i \<noteq> root" "i \<notin> ids s"
  shows "fresh (sk s) (m_callIDMap s) i"
proof -
  have "m_callIDMap s i = None"
  proof (rule ccontr)
    assume "m_callIDMap s i \<noteq> None"
    then obtain a where "m_callIDMap s i = Some a" by auto
    then obtain x where "store_map s a = Some x" "x_id x = i"
      using ginv_id [OF einv_ginv [OF assms(1)]] by (auto simp: sk_Some)
    then have "i \<in> ids s" unfolding ids_def tm_def ctimes_def by fastforce
    then show False using assms(3) by blast
  qed
  moreover have "sk s a \<noteq> Some (j, i, r)" for a j r
    using assms(3) unfolding ids_def tm_def ctimes_def by (fastforce simp: sk_Some)
  ultimately show ?thesis using assms(2) by (simp add: fresh_def)
qed

lemma ids_tm: "tm t = tm s \<Longrightarrow> ids t = ids s"
  by (simp add: ids_def)

lemma ids_upd:
  assumes "\<And>a v. tm t a = Some v \<Longrightarrow> fst v \<in> N \<and> fst (snd v) \<in> N"
  shows "ids t \<subseteq> N"
  using assms unfolding ids_def by blast

lemma subtract_time_ids: "fst (subtract_time d v) = fst v" "fst (snd (subtract_time d v)) = fst (snd v)"
  by (cases v; simp)+

lemma complete_times_ids: "fst (complete_times d v) = fst v" "fst (snd (complete_times d v)) = fst (snd v)"
  by (cases v; simp)+

lemma addEvent_ids:
  assumes inv: "einv s" and ok: "event_ok ev s" and run: "addEvent ev s = Inr (err, t)"
  shows "ids t \<subseteq> insert root (ids s) \<union> (if m_t ev = FUNC then {m_id ev} else {})"
    and "cpu_tid t = cpu_tid s"
proof -
  have known: "fst v \<in> ids s" "fst (snd v) \<in> ids s" if "tm s a = Some v" for a v
    using that unfolding ids_def by blast+
  have "ids t \<subseteq> insert root (ids s) \<union> (if m_t ev = FUNC then {m_id ev} else {}) \<and> cpu_tid t = cpu_tid s"
    using inv ok run
  proof (cases rule: addEvent_effect)
    case none
    then show ?thesis by (auto simp: no_effect_def ids_def)
  next
    case entry
    have p: "parent_id cs s \<in> insert root (ids s)" for cs
    proof (cases cs)
      case (Cons b bs)
      then show ?thesis
        using known(1) [of b] by (cases "store_map s b") (auto simp: parent_id_def tm_def ctimes_def)
    qed (simp add: parent_id_def)
    have "ids t \<subseteq> insert root (ids s) \<union> {m_id ev}"
      by (rule ids_upd)
        (use entry p [of "stack s (prt_of ev)"] known in \<open>auto simp: entry_effect_def split: if_splits\<close>)
    then show ?thesis using entry by (simp add: entry_effect_def)
  next
    case exit
    have "ids t \<subseteq> ids s"
    proof (rule ids_upd)
      fix a w assume w: "tm t a = Some w"
      from exit(4) show "fst w \<in> ids s \<and> fst (snd w) \<in> ids s" unfolding exit_effect_def
      proof (elim disjE exE conjE)
        assume "tm t = tm s"
        then show ?thesis using w known(1) [of a w] known(2) [of a w] by simp
      next
        fix it rest v
        assume "tm s it = Some v" "tm t = (case rest of
             [] \<Rightarrow> (tm s)(it \<mapsto> complete_times (ev_ts ev) v)
           | b # _ \<Rightarrow> (tm s)(it \<mapsto> complete_times (ev_ts ev) v,
               b := map_option (subtract_time (ev_ts ev - fst (snd (snd v)))) (tm s b)))"
        then show ?thesis
          using w by (cases rest)
            (auto simp: subtract_time_ids complete_times_ids dest: known(1) known(2) split: if_splits)
      qed
    qed
    then show ?thesis using exit by auto
  qed
  then show "ids t \<subseteq> insert root (ids s) \<union> (if m_t ev = FUNC then {m_id ev} else {})"
    and "cpu_tid t = cpu_tid s" by blast+
qed

subsection \<open>A list of events with new identifiers\<close>

definition func_ids :: "event_t list \<Rightarrow> eventID list" where
  "func_ids evs = map m_id (filter (\<lambda>e. m_t e = FUNC) evs)"

lemma events_loop:
  assumes "ad_reach s" "distinct (func_ids evs)" "set (func_ids evs) \<inter> insert root (ids s) = {}"
    and "\<forall>e \<in> set evs. m_t e = FUNC \<longrightarrow> cpu_tid s (ev_tid e)"
  shows "\<exists>t. foldE (\<lambda>e t. bind
        (if m_t e \<noteq> COUNT then Inr True else bind (ev_counter_id e) (\<lambda>c. Inr (c \<notin> ign)))
        (\<lambda>keep. if keep then bind (addEvent e t) (\<lambda>(err, t'). Inr t') else Inr t)) evs s = Inr t \<and>
    ad_reach t \<and> ids t \<subseteq> insert root (ids s) \<union> set (func_ids evs) \<and> cpu_tid t = cpu_tid s"
  using assms
proof (induction evs arbitrary: s)
  case Nil
  then show ?case by auto
next
  case (Cons e evs)
  have inv: "einv s" by (rule ad_reach_einv [OF Cons.prems(1)])
  show ?case
  proof (cases "m_t e = COUNT \<and> m_data e ! COUNTER_IDX_ID \<in> ign")
    case True
    then have "func_ids (e # evs) = func_ids evs" by (simp add: func_ids_def)
    then show ?thesis using Cons True by (simp add: ev_counter_id_def)
  next
    case False
    have ok: "event_ok e s"
      using Cons.prems ids_fresh [OF inv, of "m_id e"] by (auto simp: event_ok_def func_ids_def)
    obtain err t where t: "addEvent e s = Inr (err, t)" "ad_reach t"
    proof -
      obtain err t where "addEvent e s = Inr (err, t)" using addEvent_ok [OF inv ok] by blast
      then show thesis using that ad_reach.event [OF Cons.prems(1) ok] by blast
    qed
    note i = addEvent_ids [OF inv ok t(1)]
    have fids: "func_ids (e # evs) = (if m_t e = FUNC then [m_id e] else []) @ func_ids evs"
      by (simp add: func_ids_def)
    have "ids t \<subseteq> insert root (ids s) \<union> (if m_t e = FUNC then {m_id e} else {})" by (rule i(1))
    moreover have "(if m_t e = FUNC then {m_id e} else {}) \<inter> set (func_ids evs) = {}"
      using Cons.prems(2) unfolding fids by (cases "m_t e = FUNC") simp_all
    moreover have "set (func_ids evs) \<inter> insert root (ids s) = {}"
      using Cons.prems(3) unfolding fids by (simp only: set_append) blast
    ultimately have "set (func_ids evs) \<inter> insert root (ids t) = {}" by blast
    then obtain u where u: "foldE (\<lambda>e t. bind
        (if m_t e \<noteq> COUNT then Inr True else bind (ev_counter_id e) (\<lambda>c. Inr (c \<notin> ign)))
        (\<lambda>keep. if keep then bind (addEvent e t) (\<lambda>(err, t'). Inr t') else Inr t)) evs t = Inr u"
      "ad_reach u" "ids u \<subseteq> insert root (ids t) \<union> set (func_ids evs)" "cpu_tid u = cpu_tid t"
      using Cons.IH [OF t(2)] Cons.prems(2,4) i(2) by (auto simp: func_ids_def split: if_splits)
    have "ids u \<subseteq> insert root (ids s) \<union> set (func_ids (e # evs))"
      using u(3) i(1) by (auto simp: func_ids_def split: if_splits)
    then show ?thesis using u t False i(2) by (auto simp: ev_counter_id_def)
  qed
qed

lemma valid_func_ids:
  assumes "mset out = mset (valid_events p FUNC) + mset (valid_events p COMM) + mset (valid_events p COUNT)"
  shows "distinct (func_ids out)"
    and "set (func_ids out) \<subseteq> range (\<lambda>i. eventID (p_rank p) (p_current_step p) (int i))"
proof -
  have none: "filter (\<lambda>e. m_t e = FUNC) (valid_events p k) = []" if "k \<noteq> FUNC" for k
    using that by (auto simp: filter_empty_conv dest: valid_events_kind)
  have "mset (filter (\<lambda>e. m_t e = FUNC) out) = filter_mset (\<lambda>e. m_t e = FUNC) (mset out)"
    by (simp add: mset_filter)
  also have "\<dots> = mset (filter (\<lambda>e. m_t e = FUNC) (valid_events p FUNC))"
    using none [of COMM] none [of COUNT] by (simp only: assms filter_union_mset mset_filter [symmetric]) simp
  also have "filter (\<lambda>e. m_t e = FUNC) (valid_events p FUNC) = valid_events p FUNC"
    by (auto simp: filter_id_conv dest: valid_events_kind)
  finally have "mset (func_ids out) = mset (map m_id (valid_events p FUNC))"
    by (simp add: func_ids_def)
  moreover have d: "distinct (map m_id (events p FUNC))"
    by (simp add: events_def distinct_map inj_on_def comp_def)
  moreover have "distinct (map m_id (valid_events p FUNC))"
    using d unfolding valid_events_def by (rule distinct_map_filter)
  ultimately show "distinct (func_ids out)" using mset_eq_imp_distinct_iff by blast
  have "set (func_ids out) = set (map m_id (valid_events p FUNC))"
    using \<open>mset (func_ids out) = _\<close> by (rule mset_eq_setD)
  then show "set (func_ids out) \<subseteq> range (\<lambda>i. eventID (p_rank p) (p_current_step p) (int i))"
    by (auto simp: valid_events_def events_def)
qed

text \<open>
  C5. A step of the analysis never fails in the event manager: when the event manager is in
  a reachable state that has seen only earlier steps, and the parser's data are ordered,
  with known event types and no function event on a GPU thread, all events of the step are
  extracted and added without a stale iterator, a reference-count underflow or an endless
  loop, and the event manager is again ready for the next step.
\<close>

theorem extractEvents_safe:
  assumes "ad_reach s" "\<forall>i \<in> ids s. i = root \<or> ev_step i < p_current_step p" "0 \<le> p_current_step p"
    and "all_ordered p" "parser_data_ok p" "\<forall>e \<in> set (valid_events p FUNC). cpu_tid s (ev_tid e)"
  shows "\<exists>ts t. extractEvents ign p s = Inr (ts, t) \<and> ad_reach t \<and>
    (\<forall>i \<in> ids t. i = root \<or> ev_step i < p_current_step p + 1)"
proof -
  obtain out where out: "getEvents p = Inr out"
      "mset out = mset (valid_events p FUNC) + mset (valid_events p COMM) + mset (valid_events p COUNT)"
    using getEvents_run [OF assms(4,5)] by (elim exE conjE) (rule that)
  note v = valid_func_ids [OF out(2)]
  have new: "set (func_ids out) \<inter> insert root (ids s) = {}"
    using v(2) assms(2,3) by (fastforce simp: root_def)
  have "\<forall>e \<in> set out. m_t e = FUNC \<longrightarrow> e \<in> set (valid_events p FUNC)"
    using mset_eq_setD [of out "valid_events p FUNC @ valid_events p COMM @ valid_events p COUNT"] out(2)
    by (auto dest: valid_events_kind)
  then obtain t where t: "foldE (\<lambda>e t. bind
        (if m_t e \<noteq> COUNT then Inr True else bind (ev_counter_id e) (\<lambda>c. Inr (c \<notin> ign)))
        (\<lambda>keep. if keep then bind (addEvent e t) (\<lambda>(err, t'). Inr t') else Inr t)) out s = Inr t"
      "ad_reach t" "ids t \<subseteq> insert root (ids s) \<union> set (func_ids out)"
    using events_loop [OF assms(1) v(1) new, of ign] assms(6) by blast
  have "\<forall>i \<in> ids t. i = root \<or> ev_step i < p_current_step p + 1"
    using t(3) v(2) assms(2) by fastforce
  then show ?thesis using out(1) t(1,2) by (simp add: extractEvents_def)
qed

theorem extractEvents_safe_witness:
  "\<exists>ts t. extractEvents {} wit_parser wit_start = Inr (ts, t) \<and> ad_reach t"
proof -
  have "store_map wit_start = Map.empty"
    by (simp add: wit_start_def new_ADEvent_def linkGPUthreadMap_def linkCounterMap_def
        linkFuncMap_def linkEventType_def)
  then have none: "ids wit_start = {}" by (simp add: ids_def tm_def)
  have step: "p_current_step wit_parser = 0" by code_simp
  have "list_all (\<lambda>e. cpu_tid wit_start (ev_tid e)) (valid_events wit_parser FUNC)" by code_simp
  then have "\<forall>e \<in> set (valid_events wit_parser FUNC). cpu_tid wit_start (ev_tid e)"
    by (simp add: list_all_iff)
  then show ?thesis
    using extractEvents_safe [OF wit_reach0 _ _ wit_parser_ordered wit_parser_data, of "{}"]
    unfolding none step by simp blast
qed

end
