(* ===== verification/Histogram.thy ===== *)
theory Histogram
  imports Prelude
begin

text \<open>
  Fixed bin width histograms (\<open>Histogram\<close> of \<open>src/core/util/Histogram.cpp\<close>) and
  the rules that choose their bin width. Bin \<open>b\<close> holds the values \<open>v\<close> with
  \<open>start + b * width < v \<le> start + (b + 1) * width\<close>, the upper edge of the last
  bin being the stored maximum. Counts are 64-bit words; a conversion of a \<open>double\<close> to
  \<open>int\<close> outside the range of \<open>int\<close> is undefined in C++ and an error here.
\<close>

record histogram =
  h_counts :: "u64 list"
  h_start :: real
  h_bin_width :: real
  h_min :: real
  h_max :: real

definition new_Histogram :: histogram where
  "new_Histogram = \<lparr>h_counts = [], h_start = 0, h_bin_width = 0, h_min = dbl_max, h_max = dbl_lowest\<rparr>"

definition clear_Histogram :: "histogram \<Rightarrow> histogram" where
  "clear_Histogram h = h\<lparr>h_counts := [], h_start := 0, h_bin_width := 0, h_min := dbl_max, h_max := dbl_lowest\<rparr>"

text \<open>\<open>int(x)\<close> of a \<open>double\<close> that is already integral.\<close>

definition int_of_double :: "real \<Rightarrow> int res" where
  "int_of_double x = (if \<lfloor>x\<rfloor> < - (2 ^ 31) \<or> 2 ^ 31 \<le> \<lfloor>x\<rfloor> then Inl UndefinedBehaviour else Inr \<lfloor>x\<rfloor>)"

definition Nbin :: "histogram \<Rightarrow> nat" where
  "Nbin h = length (h_counts h)"

definition binEdgeLower :: "histogram \<Rightarrow> nat \<Rightarrow> real" where
  "binEdgeLower h b = h_start h + real b * h_bin_width h"

definition binEdgeUpper :: "histogram \<Rightarrow> nat \<Rightarrow> real" where
  "binEdgeUpper h b = (if Suc b = Nbin h then h_max h else h_start h + (real b + 1) * h_bin_width h)"

definition binEdges :: "histogram \<Rightarrow> nat \<Rightarrow> real \<times> real" where
  "binEdges h b =
    (let l = h_start h + real b * h_bin_width h in
     (l, if Suc b = Nbin h then h_max h else l + h_bin_width h))"

definition binCount :: "histogram \<Rightarrow> nat \<Rightarrow> u64" where
  "binCount h b = h_counts h ! b"

definition binValue :: "histogram \<Rightarrow> nat \<Rightarrow> real" where
  "binValue h b = h_start h + (real b + 0.5) * h_bin_width h"

definition getLowerBoundShiftMul :: real where
  "getLowerBoundShiftMul = 1 / 1000000"

definition totalCount :: "histogram \<Rightarrow> u64" where
  "totalCount h = sum_list (h_counts h)"

subsection \<open>The bin of a value\<close>

datatype bin_index = Bin nat | LeftOfHistogram | RightOfHistogram

definition getBin :: "histogram \<Rightarrow> real \<Rightarrow> real \<Rightarrow> bin_index res" where
  "getBin h v tol =
    (if Nbin h = 0 then Inl (Fatal ''Histogram is empty'')
     else if v \<le> h_start h - tol * h_bin_width h then Inr LeftOfHistogram
     else if v \<le> h_start h then Inr (Bin 0)
     else if v > h_max h + tol * h_bin_width h then Inr RightOfHistogram
     else if v \<ge> h_max h then Inr (Bin (Nbin h - 1))
     else if h_bin_width h = 0 then Inl UndefinedBehaviour
     else bind (int_of_double (of_int \<lfloor>(v - h_start h) / h_bin_width h\<rfloor>)) (\<lambda>bin.
       let bu_prev = h_start h + of_int bin * h_bin_width h;
           bin' = (if v \<le> bu_prev then bin - 1 else bin) in
       if bin' < 0 \<or> bin' \<ge> int (Nbin h) then Inl (Fatal ''Logic bomb: bin index'')
       else Inr (Bin (nat bin'))))"

subsection \<open>Rules for the bin width\<close>

definition scott_values :: "real list \<Rightarrow> real" where
  "scott_values vals =
    (let n = real (length vals); mean = foldl (+) 0 vals / n;
         var = foldl (\<lambda>a v. a + (v - mean) ^ 2) 0 vals / n
     in 3.5 * sqrt var / n powr (1 / 3))"

text \<open>Count, sum and sum of squares of the represented values, added to running totals.\<close>

definition bin_sums :: "histogram \<Rightarrow> u64 \<times> real \<times> real \<Rightarrow> u64 \<times> real \<times> real" where
  "bin_sums h acc = foldl (\<lambda>(size, avgx, avgx2) i.
     let c = binCount h i; v = binValue h i in
     (size + c, avgx + real (unat c) * v, avgx2 + real (unat c) * v * v)) acc [0..<Nbin h]"

definition scott_histograms :: "histogram \<Rightarrow> histogram \<Rightarrow> real res" where
  "scott_histograms g l =
    (let (size, sx, sx2) = bin_sums l (bin_sums g (0, 0, 0)) in
     if size = 0 then Inl (Fatal ''Sum of bin counts over both histograms is zero!'')
     else (let n = real (unat size); avgx = sx / n; avgx2 = sx2 / n;
               var0 = avgx2 - avgx * avgx; var = (if var0 < 0 then 0 else var0)
           in Inr (3.5 * sqrt var / n powr (1 / 3))))"

definition scott_histogram_values :: "histogram \<Rightarrow> real list \<Rightarrow> real res" where
  "scott_histogram_values g vals =
    (let (size, sum, sum_sq) = foldl (\<lambda>(size, sum, sum_sq) v. (size + 1, sum + v, sum_sq + v * v))
           (bin_sums g (0, 0, 0)) vals in
     if size = 0 then Inl (Fatal ''Sum of bin counts over both histograms is zero!'')
     else (let n = real (unat size); mean = sum / n; var = sum_sq / n - mean ^ 2
           in Inr (3.5 * sqrt var / n powr (1 / 3))))"

text \<open>\<open>maxbins\<close> of a capped rule is the field of the base class, which is the one that is set.\<close>

datatype binWidthSpecifier =
    binWidthFixed real
  | binWidthScott
  | binWidthFixedNbin int
  | binWidthFixedMaxNbin real int
  | binWidthScottMaxNbin int

definition correct_bin_width :: "int \<Rightarrow> real \<Rightarrow> real \<Rightarrow> real \<Rightarrow> real res" where
  "correct_bin_width maxbins bin_width mn mx =
    (let x = getLowerBoundShiftMul; capped = (mx - mn) / (of_int maxbins - x - 1 / 1000) in
     if bin_width = 0 then Inr capped
     else bind (int_of_double (of_int \<lceil>(mx - mn) / bin_width + x\<rceil>)) (\<lambda>n.
       Inr (if n > maxbins then capped else bin_width)))"

definition bin_width_data :: "binWidthSpecifier \<Rightarrow> real list \<Rightarrow> real \<Rightarrow> real \<Rightarrow> real res" where
  "bin_width_data spec vals mn mx =
    (case spec of
       binWidthFixed w \<Rightarrow> Inr w
     | binWidthScott \<Rightarrow> Inr (scott_values vals)
     | binWidthFixedNbin nbin \<Rightarrow>
         if mx = mn then Inl (Fatal ''Maximum and minimum value are the same!'')
         else Inr ((mx - mn) / (of_int nbin - getLowerBoundShiftMul - 1 / 1000))
     | binWidthFixedMaxNbin w maxbins \<Rightarrow> correct_bin_width maxbins w mn mx
     | binWidthScottMaxNbin maxbins \<Rightarrow> correct_bin_width maxbins (scott_values vals) mn mx)"

definition bin_width_merge :: "binWidthSpecifier \<Rightarrow> histogram \<Rightarrow> histogram \<Rightarrow> real \<Rightarrow> real \<Rightarrow> real res" where
  "bin_width_merge spec g l mn mx =
    (case spec of
       binWidthFixed w \<Rightarrow> Inr w
     | binWidthScott \<Rightarrow> scott_histograms g l
     | binWidthFixedNbin nbin \<Rightarrow> Inr ((mx - mn) / (of_int nbin - getLowerBoundShiftMul - 1 / 1000))
     | binWidthFixedMaxNbin w maxbins \<Rightarrow> correct_bin_width maxbins w mn mx
     | binWidthScottMaxNbin maxbins \<Rightarrow>
         bind (scott_histograms g l) (\<lambda>w. correct_bin_width maxbins w mn mx))"

subsection \<open>Building histograms\<close>

definition increment :: "nat \<Rightarrow> u64 list \<Rightarrow> u64 list" where
  "increment b counts = counts[b := counts ! b + 1]"

definition insert_value :: "real \<Rightarrow> histogram \<Rightarrow> histogram res" where
  "insert_value v h = bind (getBin h v 0) (\<lambda>b. case b of
     Bin i \<Rightarrow> Inr (h\<lparr>h_counts := increment i (h_counts h)\<rparr>)
   | _ \<Rightarrow> Inl (Fatal ''Value is outside of histogram''))"

text \<open>With the edges given.\<close>

definition create_histogram_edges ::
    "real list \<Rightarrow> real \<Rightarrow> real \<Rightarrow> real \<Rightarrow> int \<Rightarrow> real \<Rightarrow> histogram res" where
  "create_histogram_edges vals mn mx start nbin bin_width =
    (if vals = [] then Inl (Fatal ''No data points provided'')
     else if nbin < 1 then Inl (Fatal ''Require at least 1 bin'')
     else if mn < start \<or> mn > start + bin_width then Inl (Fatal ''min point should lie within the first bin'')
     else if \<bar>start + of_int nbin * bin_width - mx\<bar> > 1 / 10 ^ 8 * bin_width
       then Inl (Fatal ''Mismatch between {start,nbin,bin width} and max provided'')
     else foldE insert_value vals \<lparr>h_counts = replicate (nat nbin) 0, h_start = start,
       h_bin_width = bin_width, h_min = mn, h_max = mx\<rparr>)"

text \<open>All values equal: one bin that ends at the value.\<close>

definition delta_histogram :: "real list \<Rightarrow> histogram" where
  "delta_histogram vals =
    (let d0 = 1 / 10 ^ 12 * \<bar>hd vals\<bar>; delta = (if d0 = 0 then 1 / 10 ^ 12 else d0) in
     \<lparr>h_counts = [of_nat (length vals)], h_start = hd vals - delta, h_bin_width = delta,
      h_min = hd vals, h_max = hd vals\<rparr>)"

definition create_histogram :: "binWidthSpecifier \<Rightarrow> real list \<Rightarrow> histogram res" where
  "create_histogram spec vals =
    (if vals = [] then Inl (Fatal ''No data points provided'')
     else if list_all (\<lambda>v. v = hd vals) vals then Inr (delta_histogram vals)
     else (let mn = foldl min dbl_max vals; mx = foldl max dbl_lowest vals in
       bind (bin_width_data spec vals mn mx) (\<lambda>w.
       if w < 0 then Inl (Fatal ''Invalid bin width'')
       else if w = 0 then Inl UndefinedBehaviour
       else (let first_edge = mn - getLowerBoundShiftMul * w in
         bind (int_of_double (of_int \<lceil>(mx - first_edge) / w\<rceil>)) (\<lambda>nbin.
         let bin_width = (mx - first_edge) / of_int nbin;
             h = \<lparr>h_counts = replicate (nat nbin) 0, h_start = first_edge, h_bin_width = bin_width,
                  h_min = mn, h_max = mx\<rparr> in
         bind (guard (Fatal ''Unexpectedly large error in bin upper edge'')
           (\<not> \<bar>h_start h + of_int nbin * bin_width - mx\<bar> > 1 / 10 ^ 8 * bin_width)) (\<lambda>_.
         bind (foldE insert_value vals h) (\<lambda>h'.
         bind (guard (Fatal ''Histogram bin total count does not match number of data points'')
           (totalCount h' - of_nat (length vals) = 0)) (\<lambda>_. Inr h'))))))))"

definition set_histogram :: "u64 list \<Rightarrow> real \<Rightarrow> real \<Rightarrow> real \<Rightarrow> real \<Rightarrow> histogram res" where
  "set_histogram counts mn mx start bin_width =
    (if mx < mn then Inl (Fatal ''Invalid min/max'')
     else if mn < start \<or> mn > start + bin_width then Inl (Fatal ''Min point should lie within the first bin'')
     else if \<bar>start + real (length counts) * bin_width - mx\<bar> > 1 / 10 ^ 8 * bin_width
       then Inl (Fatal ''Mismatch between {start,nbin,bin width} and max provided'')
     else Inr \<lparr>h_counts = counts, h_start = start, h_bin_width = bin_width, h_min = mn, h_max = mx\<rparr>)"

text \<open>A representative data set: every count at the middle of its bin.\<close>

definition unpack :: "histogram \<Rightarrow> real list" where
  "unpack h = concat (map (\<lambda>i. replicate (unat (binCount h i)) (binValue h i)) [0..<Nbin h])"

definition merge_values :: "binWidthSpecifier \<Rightarrow> histogram \<Rightarrow> real list \<Rightarrow> histogram res" where
  "merge_values spec g vals = create_histogram spec
     (concat (map (\<lambda>i. replicate (unat (binCount g i)) (binValue g i)) [0..<Nbin g]) @ vals)"

definition negate :: "histogram \<Rightarrow> histogram" where
  "negate h = h\<lparr>h_counts := rev (h_counts h), h_max := - h_min h, h_min := - h_max h,
     h_start := - h_max h - getLowerBoundShiftMul * h_bin_width h\<rparr>"

subsection \<open>Counts of ranges\<close>

definition uniformCountInRange :: "histogram \<Rightarrow> real \<Rightarrow> real \<Rightarrow> real res" where
  "uniformCountInRange h l0 u0 =
    (if u0 \<le> l0 then Inl (Fatal ''Invalid range, require u>l'')
     else if h_max h = h_min h then
       (if Nbin h \<noteq> 1 then Inl (Fatal ''Logic bomb: max=min but #bins != 1?'')
        else Inr (if l0 < h_max h \<and> u0 \<ge> h_max h then real (unat (binCount h 0)) else 0))
     else bind (getBin h l0 0) (\<lambda>lb.
       if lb = RightOfHistogram then Inr 0
       else bind (getBin h u0 0) (\<lambda>ub.
       if ub = LeftOfHistogram then Inr 0
       else (let
           (lbin, l) = (case lb of Bin i \<Rightarrow> (i, l0) | _ \<Rightarrow> (0, binEdgeLower h 0));
           (ubin, u) = (case ub of Bin i \<Rightarrow> (i, u0) | _ \<Rightarrow> (Nbin h - 1, h_max h));
           (ll, lu) = binEdges h lbin; (ul, uu) = binEdges h ubin;
           lbincount = real (unat (binCount h lbin)); ubincount = real (unat (binCount h ubin)) in
         if lbin = ubin then
           (let count = (u - l) / (lu - ll) * lbincount in
            bind (guard AssertFailed (count \<le> lbincount)) (\<lambda>_. Inr count))
         else
           (let lbinfrac = (lu - l) / (lu - ll) * lbincount; ubinfrac = (u - ul) / (uu - ul) * ubincount in
            bind (guard AssertFailed (u > ul \<and> u \<le> uu)) (\<lambda>_.
            bind (guard AssertFailed (lbinfrac \<le> lbincount)) (\<lambda>_.
            bind (guard AssertFailed (ubinfrac \<le> ubincount)) (\<lambda>_.
            Inr (foldl (\<lambda>c b. c + real (unat (binCount h b))) (lbinfrac + ubinfrac) [Suc lbin..<ubin])))))))))"

text \<open>The workspace: whether the sum is set, and the sum.\<close>

type_synonym cdf_workspace = "u64 option"

definition getSum :: "histogram \<Rightarrow> cdf_workspace \<Rightarrow> u64 \<times> cdf_workspace" where
  "getSum h w = (case w of Some s \<Rightarrow> (s, w) | None \<Rightarrow> (totalCount h, Some (totalCount h)))"

definition empiricalCDF :: "histogram \<Rightarrow> real \<Rightarrow> cdf_workspace option \<Rightarrow> (real \<times> cdf_workspace option) res" where
  "empiricalCDF h v ws =
    (let (s, ws') = (case ws of None \<Rightarrow> (totalCount h, None)
           | Some w \<Rightarrow> (let (s, w') = getSum h w in (s, Some w'))) in
     bind (uniformCountInRange h dbl_lowest v) (\<lambda>c. Inr (c / real (unat s), ws')))"

definition hist_skewness :: "histogram \<Rightarrow> real" where
  "hist_skewness h =
    (let (s3, s2, s1, csum) = foldl (\<lambda>(s3, s2, s1, csum) b.
           let v = binValue h b; c = real (unat (h_counts h ! b)) in
           (s3 + c * v ^ 3, s2 + c * v ^ 2, s1 + c * v, csum + h_counts h ! b)) (0, 0, 0, 0) [0..<Nbin h];
         n = real (unat csum); avg_x3 = s3 / n; avg_x2 = s2 / n; avg_x = s1 / n;
         var = avg_x2 - avg_x * avg_x;
         avg_xmmu_3 = avg_x3 - 3 * avg_x2 * avg_x + 2 * avg_x ^ 3
     in n / (n - 1) * avg_xmmu_3 / var powr (3 / 2))"

definition eq_histogram :: "histogram \<Rightarrow> histogram \<Rightarrow> bool" where
  "eq_histogram h r \<longleftrightarrow> h_counts h = h_counts r \<and> h_start h = h_start r \<and>
     h_bin_width h = h_bin_width r \<and> h_min h = h_min r \<and> h_max h = h_max r"

end
