(* ===== verification/HistogramVBW.thy ===== *)
theory HistogramVBW
  imports Histogram
begin

text \<open>
  Variable bin width histograms (\<open>HistogramVBW\<close> of \<open>src/core/util/Histogram.cpp\<close>)
  and the merger of two fixed width histograms, which moves the counts of both into the new
  bins by splitting theirs. The doubly linked chain of bins is the list of its bins without
  the end mark; a pointer to a bin is its position, the end mark the position after the last
  bin, and a chain that was never filled (\<open>first == nullptr\<close>) the empty list.
\<close>

record vbin =
  b_l :: real
  b_u :: real
  b_c :: real

record vbw =
  v_bins :: "vbin list"
  v_min :: real
  v_max :: real

definition new_vbw :: vbw where
  "new_vbw = \<lparr>v_bins = [], v_min = 0, v_max = 0\<rparr>"

definition set_min_max :: "real \<Rightarrow> real \<Rightarrow> vbw \<Rightarrow> vbw" where
  "set_min_max mn mx h = h\<lparr>v_min := mn, v_max := mx\<rparr>"

subsection \<open>Operations on the chain\<close>

definition insertRight :: "nat \<Rightarrow> vbin \<Rightarrow> vbin list \<Rightarrow> vbin list res" where
  "insertRight i b bins =
    (if i \<ge> length bins then Inl (Fatal ''Cannot insert right of end'')
     else if b_l b < b_u (bins ! i) \<or> b_u b < b_u (bins ! i)
       then Inl (Fatal ''Cannot insert: the edges are not properly ordered'')
     else Inr (take (Suc i) bins @ b # drop (Suc i) bins))"

definition insertLeft :: "nat \<Rightarrow> vbin \<Rightarrow> vbin list \<Rightarrow> vbin list res" where
  "insertLeft i b bins =
    (if i < length bins \<and> (b_u b > b_l (bins ! i) \<or> b_l b > b_l (bins ! i))
       then Inl (Fatal ''Cannot insert: the edges are not properly ordered'')
     else Inr (take i bins @ b # drop i bins))"

definition insertFirst :: "vbin \<Rightarrow> vbin list res" where
  "insertFirst b = insertLeft 0 b []"

fun search :: "real \<Rightarrow> vbin list \<Rightarrow> nat \<Rightarrow> nat option res" where
  "search v [] k = Inr None"
| "search v (b # bs) k =
    (if v \<le> b_u b then
       (if v \<le> b_l b then Inl (Fatal ''Logic error in bin search'') else Inr (Some k))
     else search v bs (Suc k))"

definition getBin_from :: "nat \<Rightarrow> real \<Rightarrow> vbin list \<Rightarrow> nat option res" where
  "getBin_from start v bins =
    (if start \<ge> length bins \<or> v \<le> b_l (bins ! start) then Inr None
     else search v (drop start bins) start)"

text \<open>
  The counts of the two parts of a bin: the shares are rounded to the nearest integer, and
  what rounding gained or lost goes to the larger part.
\<close>

definition split_counts :: "real \<Rightarrow> vbin \<Rightarrow> real \<times> real" where
  "split_counts about b =
    (let bw = b_u b - b_l b; f0 = (about - b_l b) / bw; f1 = 1 - f0; cnt = b_c b;
         o0 = of_int \<lfloor>f0 * cnt + 0.5\<rfloor>; o1 = of_int \<lfloor>f1 * cnt + 0.5\<rfloor>;
         debt = cnt - o0 - o1
     in if f1 > f0 then (o0, o1 + debt) else (o0 + debt, o1))"

definition split :: "nat \<Rightarrow> real \<Rightarrow> vbin list \<Rightarrow> ((nat \<times> nat) \<times> vbin list) res" where
  "split i about bins =
    (if i \<ge> length bins then Inl (Fatal ''Invalid bin'')
     else if about \<le> b_l (bins ! i) \<or> about > b_u (bins ! i)
       then Inl (Fatal ''Split location not inside bin'')
     else if about = b_u (bins ! i) then Inr ((i, Suc i), bins)
     else (let b = bins ! i; (c0, c1) = split_counts about b in
       bind (insertRight i \<lparr>b_l = about, b_u = b_u b, b_c = c1\<rparr> (bins[i := b\<lparr>b_u := about, b_c := c0\<rparr>]))
         (\<lambda>bins'. Inr ((i, Suc i), bins'))))"

definition Nbin_vbw :: "vbw \<Rightarrow> nat" where
  "Nbin_vbw h = length (v_bins h)"

definition getBinByIndex :: "int \<Rightarrow> vbw \<Rightarrow> nat option" where
  "getBinByIndex idx h = (if 0 \<le> idx \<and> idx < int (length (v_bins h)) then Some (nat idx) else None)"

definition totalCount_vbw :: "vbw \<Rightarrow> real" where
  "totalCount_vbw h = foldl (\<lambda>out b. out + b_c b) 0 (v_bins h)"

text \<open>Every bin after the first starts at the upper edge of the previous one.\<close>

definition import_step :: "histogram \<Rightarrow> nat \<Rightarrow> real \<times> vbin list \<Rightarrow> (real \<times> vbin list) res" where
  "import_step h b = (\<lambda>(prev_upper, bins).
    (let (l, u) = binEdges h b; reldiff_l = 2 * (l - prev_upper) / (l + prev_upper) in
     if \<bar>reldiff_l\<bar> > 1 / 10 ^ 8
     then Inl (Fatal ''Lower bin edge should match upper bin edge of previous bin!'')
     else bind (insertRight (length bins - 1)
         \<lparr>b_l = prev_upper, b_u = u, b_c = real (unat (binCount h b))\<rparr> bins)
       (\<lambda>bins'. Inr (u, bins'))))"

definition import :: "histogram \<Rightarrow> vbw \<Rightarrow> vbw res" where
  "import h w =
    (if Nbin h = 0 then Inr w
     else (let (l, u) = binEdges h 0 in
       bind (insertFirst \<lparr>b_l = l, b_u = u, b_c = real (unat (binCount h 0))\<rparr>) (\<lambda>bins.
       bind (foldE (import_step h) [1..<Nbin h] (u, bins)) (\<lambda>(prev, bins').
       Inr (w\<lparr>v_bins := bins', v_min := h_min h, v_max := h_max h\<rparr>)))))"

subsection \<open>Extracting the counts of ranges\<close>

text \<open>The counts from position \<open>i\<close> to \<open>j\<close> are summed and zeroed.\<close>

definition zero_bins :: "nat \<Rightarrow> nat \<Rightarrow> vbin list \<Rightarrow> real \<times> vbin list" where
  "zero_bins i j bins =
    (foldl (\<lambda>out b. out + b_c b) 0 (take (Suc j - i) (drop i bins)),
     take i bins @ map (\<lambda>b. b\<lparr>b_c := 0\<rparr>) (take (Suc j - i) (drop i bins)) @ drop (Suc j) bins)"

text \<open>
  One range, searched from position \<open>from\<close>: \<open>Beyond\<close> when the range starts at or after
  the end of the chain, \<open>Before\<close> when it ends before its start, otherwise the count and
  the position of the last bin of the range.
\<close>

datatype extracted = Beyond | Before | Count real nat

definition extract_range :: "real \<Rightarrow> real \<Rightarrow> nat \<Rightarrow> vbin list \<Rightarrow> (extracted \<times> vbin list) res" where
  "extract_range l u from bins =
    bind (getBin_from from l bins) (\<lambda>lb.
    bind (case lb of
        Some i \<Rightarrow> bind (split i l bins) (\<lambda>((_, r), bins').
          Inr (if r \<ge> length bins' then None else Some r, bins'))
      | None \<Rightarrow> if l \<le> b_l (bins ! 0) then Inr (Some 0, bins)
          else if l > b_u (last bins) then Inr (None, bins)
          else Inl AssertFailed) (\<lambda>(start, bins1).
    case start of
      None \<Rightarrow> Inr (Beyond, bins1)
    | Some bl \<Rightarrow>
        bind (getBin_from bl u bins1) (\<lambda>ub.
        bind (case ub of
            Some j \<Rightarrow> bind (split j u bins1) (\<lambda>((j', _), bins'). Inr (Some j', bins'))
          | None \<Rightarrow> if u \<le> b_l (bins1 ! 0) then Inr (None, bins1)
              else if u > b_u (last bins1) then Inr (Some (length bins1 - 1), bins1)
              else Inl AssertFailed) (\<lambda>(stop, bins2).
        case stop of
          None \<Rightarrow> Inr (Before, bins2)
        | Some bu \<Rightarrow> (let (out, bins3) = zero_bins bl bu bins2 in Inr (Count out bu, bins3))))))"

definition extractUniformCountInRangeInt :: "real \<Rightarrow> real \<Rightarrow> vbw \<Rightarrow> (real \<times> vbw) res" where
  "extractUniformCountInRangeInt l u h =
    (if u \<le> l then Inl (Fatal ''Invalid range, require u>l'')
     else if v_bins h = [] then Inl (Fatal ''Histogram is empty'')
     else if v_max h = v_min h then
       bind (getBin_from 0 (v_max h) (v_bins h)) (\<lambda>bin. case bin of
         None \<Rightarrow> Inl OutOfBounds
       | Some i \<Rightarrow> Inr (if l < v_max h \<and> u \<ge> v_max h
           then (b_c (v_bins h ! i), h\<lparr>v_bins := (v_bins h)[i := (v_bins h ! i)\<lparr>b_c := 0\<rparr>]\<rparr>)
           else (0, h)))
     else bind (extract_range l u 0 (v_bins h)) (\<lambda>(r, bins').
       Inr (case r of Count c _ \<Rightarrow> c | _ \<Rightarrow> 0, h\<lparr>v_bins := bins'\<rparr>)))"

text \<open>The loop over the edges when all values of the data set are equal.\<close>

fun delta_loop :: "real \<Rightarrow> real \<Rightarrow> nat \<Rightarrow> (real \<times> real) list \<Rightarrow> (nat \<times> real) option res" where
  "delta_loop v cnt idx [] = Inr None"
| "delta_loop v cnt idx ((l, u) # es) =
    (if u \<le> l then Inl (Fatal ''Invalid range, require u>l'')
     else if l < v \<and> u \<ge> v then Inr (Some (idx, cnt))
     else delta_loop v cnt (Suc idx) es)"

text \<open>
  The general loop; \<open>prev\<close> is the upper bound of the previous edge. The result lists the
  counts of the remaining edges.
\<close>

fun ranges_loop :: "real option \<Rightarrow> nat \<Rightarrow> (real \<times> real) list \<Rightarrow> vbin list \<Rightarrow> (real list \<times> vbin list) res" where
  "ranges_loop prev from [] bins = Inr ([], bins)"
| "ranges_loop prev from ((l, u) # es) bins =
    (if u \<le> l then Inl (Fatal ''Invalid range, require u>l'')
     else if (case prev of None \<Rightarrow> False | Some p \<Rightarrow> l < p) then Inl (Fatal ''Expect edges to be ordered'')
     else bind (extract_range l u from bins) (\<lambda>(r, bins').
       case r of
         Beyond \<Rightarrow> Inr (0 # map (\<lambda>_. 0) es, bins')
       | Before \<Rightarrow> bind (ranges_loop (Some u) from es bins') (\<lambda>(out, b). Inr (0 # out, b))
       | Count c bu \<Rightarrow> bind (ranges_loop (Some u) bu es bins') (\<lambda>(out, b). Inr (c # out, b))))"

definition extractUniformCountInRangesInt :: "(real \<times> real) list \<Rightarrow> vbw \<Rightarrow> (real list \<times> vbw) res" where
  "extractUniformCountInRangesInt edges h =
    (if edges = [] then Inr ([], h)
     else if v_bins h = [] then Inl (Fatal ''Histogram is empty'')
     else bind (if v_max h = v_min h
         then bind (getBin_from 0 (v_max h) (v_bins h)) (\<lambda>bin. case bin of
             None \<Rightarrow> Inl OutOfBounds
           | Some i \<Rightarrow> bind (delta_loop (v_max h) (b_c (v_bins h ! i)) 0 edges) (\<lambda>hit.
               Inr (hit, if hit = None then v_bins h
                 else (v_bins h)[i := (v_bins h ! i)\<lparr>b_c := 0\<rparr>])))
         else Inr (None, v_bins h)) (\<lambda>(hit, bins).
       bind (ranges_loop None 0 edges bins) (\<lambda>(out, bins').
       Inr (case hit of None \<Rightarrow> out | Some (idx, c) \<Rightarrow> out[idx := out ! idx + c],
            h\<lparr>v_bins := bins'\<rparr>))))"

subsection \<open>Merging two histograms\<close>

text \<open>What the merger reports to the log.\<close>

datatype merge_report = LocalLeft real | GlobalLeft real | TotalMismatch

text \<open>\<open>CountType gcc = gc[b]\<close>, a truncating conversion.\<close>

definition count_of_double :: "real \<Rightarrow> u64" where
  "count_of_double x = of_int \<lfloor>x\<rfloor>"

definition merge_edges :: "histogram \<Rightarrow> (real \<times> real) list" where
  "merge_edges h = map (\<lambda>b. (if b = 0 then fst (binEdges h b) else snd (binEdges h (b - 1)), snd (binEdges h b)))
     [0..<Nbin h]"

definition merge_histograms_uniform_int ::
    "histogram \<Rightarrow> histogram \<Rightarrow> histogram \<Rightarrow> (histogram \<times> merge_report list) res" where
  "merge_histograms_uniform_int combined g l =
    bind (import g new_vbw) (\<lambda>gw0.
    bind (import l new_vbw) (\<lambda>lw0.
    let edges = merge_edges combined in
    bind (extractUniformCountInRangesInt edges gw0) (\<lambda>(gc, gw).
    bind (extractUniformCountInRangesInt edges lw0) (\<lambda>(lc, lw).
    let vals = map2 (\<lambda>x y. count_of_double y + count_of_double x) gc lc;
        new_total = foldl (\<lambda>t v. t + real (unat v)) 0 vals;
        ltotal = totalCount l; gtotal = totalCount g in
    Inr (combined\<lparr>h_counts := map2 (+) (h_counts combined) vals\<rparr>,
      (if totalCount_vbw lw \<noteq> 0 then [LocalLeft (totalCount_vbw lw)] else []) @
      (if totalCount_vbw gw \<noteq> 0 then [GlobalLeft (totalCount_vbw gw)] else []) @
      (if new_total - real (unat ltotal) - real (unat gtotal) > 0 then [TotalMismatch] else []))))))"

text \<open>
  The first edge, the last edge, the bin width. In real arithmetic the first edge only
  meets the last when the width is zero, so the repairs for that case in the code, which are
  about rounding, are kept but only reached for a zero width.
\<close>

definition merge_range :: "real \<Rightarrow> real \<Rightarrow> real \<Rightarrow> (real \<times> real) res" where
  "merge_range mn mx w =
    (let range_start = mn - getLowerBoundShiftMul * w in
     if range_start = mx then
       (if mn = mx then
          (let range_start1 = mn - w in
           if range_start1 = mx then
             (let w2 = (if mn = 0 then 1 / 1000000 else 1 / 1000000 * mn); range_start2 = mn - w2 in
              if range_start2 = mx then Inl (Fatal ''Unable to correct for 0 range!'')
              else Inr (range_start2, w2))
           else Inr (range_start1, w))
        else Inl (Fatal ''Logic bomb: range_start and range_end are equal despite shift''))
     else Inr (range_start, w))"

definition merge_width :: "binWidthSpecifier \<Rightarrow> histogram \<Rightarrow> histogram \<Rightarrow> real \<Rightarrow> real \<Rightarrow> real res" where
  "merge_width spec g l mn mx =
    bind (bin_width_merge spec g l mn mx) (\<lambda>w.
     if w < 0 then Inl (Fatal ''Suggested bin width is invalid'')
     else if w = 0 \<or> of_int \<lceil>(mx - mn) / w\<rceil> > (50000 :: real) then
       (let w' = min (h_bin_width g) (h_bin_width l) in
        if w' = 0 \<or> of_int \<lceil>(mx - mn) / w'\<rceil> > (50000 :: real)
        then Inl (Fatal ''Failed to determine the appropriate bin width'') else Inr w')
     else Inr w)"

definition merge_histograms :: "binWidthSpecifier \<Rightarrow> histogram \<Rightarrow> histogram \<Rightarrow> (histogram \<times> merge_report list) res" where
  "merge_histograms spec g l =
    (if Nbin g = 0 then Inr (l, [])
     else if Nbin l = 0 then Inr (g, [])
     else if h_min l = dbl_max \<or> h_max l = dbl_lowest then Inl (Fatal ''Local histogram min/max values are uninitialized!'')
     else if h_min g = dbl_max \<or> h_max g = dbl_lowest then Inl (Fatal ''Global histogram min/max values are uninitialized!'')
     else (let mn = min (h_min l) (h_min g); mx = max (h_max l) (h_max g) in
       if mx < mn then Inl (Fatal ''Min and max values out of order'')
       else bind (merge_width spec g l mn mx) (\<lambda>w0.
       bind (merge_range mn mx w0) (\<lambda>(range_start, w).
       bind (int_of_double (of_int \<lceil>(mx - range_start) / w\<rceil>)) (\<lambda>nbin.
       if nbin < 0 then Inl (Fatal ''Negative bin count encountered, possible integer overflow'')
       else if nbin = 0 then Inl (Fatal ''Number of bins is 0!'')
       else merge_histograms_uniform_int
         \<lparr>h_counts = replicate (nat nbin) 0, h_start = range_start,
          h_bin_width = (mx - range_start) / of_int nbin, h_min = mn, h_max = mx\<rparr> g l)))))"

end
