(* ===== verification/HistogramBins.thy ===== *)
theory HistogramBins
  imports Histogram
begin

text \<open>
  The bins of a well-formed histogram partition the values between its start and its
  maximum, \<open>getBin\<close> finds the bin of a value, and a histogram built from data counts
  exactly the values of each bin.
\<close>

definition wf_hist :: "histogram \<Rightarrow> bool" where
  "wf_hist h \<longleftrightarrow> 0 < h_bin_width h \<and> 0 < Nbin h \<and> Nbin h < 2 ^ 31 \<and>
     h_start h + (real (Nbin h) - 1) * h_bin_width h < h_max h \<and>
     h_max h \<le> h_start h + real (Nbin h) * h_bin_width h"

definition in_bin :: "histogram \<Rightarrow> nat \<Rightarrow> real \<Rightarrow> bool" where
  "in_bin h b v \<longleftrightarrow> fst (binEdges h b) < v \<and> v \<le> snd (binEdges h b)"

lemma edges_simps [simp]:
  "fst (binEdges h b) = h_start h + real b * h_bin_width h"
  "snd (binEdges h b) = (if Suc b = Nbin h then h_max h else h_start h + real b * h_bin_width h + h_bin_width h)"
  by (simp_all add: binEdges_def Let_def)

lemma wf_hist_start:
  assumes "wf_hist h"
  shows "h_start h < h_max h"
proof -
  have "0 \<le> (real (Nbin h) - 1) * h_bin_width h"
    using assms by (intro mult_nonneg_nonneg) (auto simp: wf_hist_def)
  then show ?thesis using assms unfolding wf_hist_def by linarith
qed

lemma bin_floor:
  fixes v :: real
  assumes "0 < w" "s < v" "v \<le> s + real n * w" "k = \<lfloor>(v - s) / w\<rfloor>"
    and "k' = (if v \<le> s + of_int k * w then k - 1 else k)"
  shows "0 \<le> k'" "k' < int n" "s + of_int k' * w < v" "v \<le> s + of_int k' * w + w"
proof -
  have lo: "of_int k * w \<le> v - s"
    using assms(1) of_int_floor_le [of "(v - s) / w"] unfolding assms(4) by (simp add: le_divide_eq)
  have "(v - s) / w < of_int k + 1" unfolding assms(4) by linarith
  then have hi: "v - s < of_int k * w + w" using assms(1) by (simp add: divide_less_eq distrib_right)
  show 1: "s + of_int k' * w < v" using lo assms(1) unfolding assms(5) by (auto simp: algebra_simps)
  show 2: "v \<le> s + of_int k' * w + w" using hi lo unfolding assms(5) by (auto simp: algebra_simps)
  show "0 \<le> k'"
  proof (rule ccontr)
    assume "\<not> 0 \<le> k'"
    then have "(of_int k' + 1) * w \<le> 0" using assms(1) by (simp add: mult_nonpos_nonneg)
    then show False using 2 assms(2) by (simp add: algebra_simps)
  qed
  have "of_int k' * w < real n * w" using 1 assms(3) by linarith
  then show "k' < int n" using assms(1) by (simp add: of_int_less_iff [where 'a = real, symmetric])
qed

lemma int_of_double_int [simp]: "- (2 ^ 31) \<le> k \<Longrightarrow> k < 2 ^ 31 \<Longrightarrow> int_of_double (of_int k) = Inr k"
  by (simp add: int_of_double_def)

lemma getBin_cases:
  assumes "wf_hist h" "0 \<le> tol"
  shows "getBin h v tol = Inr LeftOfHistogram \<and> v \<le> h_start h - tol * h_bin_width h \<or>
    getBin h v tol = Inr RightOfHistogram \<and> v > h_max h + tol * h_bin_width h \<or>
    (\<exists>b. getBin h v tol = Inr (Bin b) \<and> b < Nbin h \<and> h_start h - tol * h_bin_width h < v \<and>
       v \<le> h_max h + tol * h_bin_width h \<and>
       (in_bin h b v \<or> v \<le> h_start h \<and> b = 0 \<or> v > h_max h \<and> Suc b = Nbin h))"
proof -
  have w: "0 < h_bin_width h" "0 < Nbin h" "Nbin h < 2 ^ 31"
    "h_start h + (real (Nbin h) - 1) * h_bin_width h < h_max h"
    "h_max h \<le> h_start h + real (Nbin h) * h_bin_width h"
    using assms(1) by (auto simp: wf_hist_def)
  note st = wf_hist_start [OF assms(1)]
  have nn: "0 \<le> tol * h_bin_width h" using w(1) assms(2) by simp
  show ?thesis
  proof (cases "h_start h < v \<and> v < h_max h")
    case False
    have n1: "real (Nbin h - Suc 0) = real (Nbin h) - 1" using w(2) by (simp add: of_nat_diff)
    show ?thesis using False w(2,4) st nn n1 unfolding getBin_def in_bin_def by auto
  next
    case True
    define k where "k = \<lfloor>(v - h_start h) / h_bin_width h\<rfloor>"
    define k' where "k' = (if v \<le> h_start h + of_int k * h_bin_width h then k - 1 else k)"
    have "v \<le> h_start h + real (Nbin h) * h_bin_width h" using True w(5) by linarith
    note f = bin_floor [OF w(1) conjunct1 [OF True] this k_def k'_def]
    have "k \<le> k' + 1" "k' \<le> k" unfolding k'_def by auto
    then have "int_of_double (of_int k) = Inr k" using f(1,2) w(3) by (intro int_of_double_int) auto
    then have g: "getBin h v tol = Inr (Bin (nat k'))"
      using True nn w(1,2) f(1,2) unfolding getBin_def k_def [symmetric]
      by (auto simp: Let_def k'_def split: if_splits)
    have "in_bin h (nat k') v" using f True unfolding in_bin_def by auto
    then show ?thesis using g f(1,2) True nn by (auto intro!: exI [of _ "nat k'"])
  qed
qed

lemma in_bin_unique:
  assumes "wf_hist h" "in_bin h b v" "in_bin h c v" "b < Nbin h" "c < Nbin h"
  shows "b = c"
proof -
  have False if "i < j" "j < Nbin h" "in_bin h i v" "in_bin h j v" for i j
  proof -
    have "real (Suc i) * h_bin_width h \<le> real j * h_bin_width h"
      using that(1) assms(1) by (intro mult_right_mono) (auto simp: wf_hist_def)
    then show False using that by (auto simp: in_bin_def algebra_simps split: if_splits)
  qed
  then show ?thesis using assms by (meson nat_neq_iff)
qed

lemma in_bin_range:
  assumes "wf_hist h" "in_bin h b v" "b < Nbin h"
  shows "h_start h < v" "v \<le> h_max h"
proof -
  have w: "0 < h_bin_width h" "h_start h + (real (Nbin h) - 1) * h_bin_width h < h_max h"
    using assms(1) by (auto simp: wf_hist_def)
  have "0 \<le> real b * h_bin_width h" using w(1) by simp
  then show "h_start h < v" using assms(2) by (auto simp: in_bin_def)
  show "v \<le> h_max h"
  proof (cases "Suc b = Nbin h")
    case False
    then have "real (Suc b) * h_bin_width h \<le> (real (Nbin h) - 1) * h_bin_width h"
      using assms(3) w(1) by (intro mult_right_mono) auto
    then show ?thesis using assms(2) w(2) False by (simp add: in_bin_def algebra_simps)
  qed (use assms in \<open>auto simp: in_bin_def\<close>)
qed

lemma getBin_0:
  assumes "wf_hist h"
  obtains (left) "getBin h v 0 = Inr LeftOfHistogram" "v \<le> h_start h"
  | (right) "getBin h v 0 = Inr RightOfHistogram" "h_max h < v"
  | (bin) b where "getBin h v 0 = Inr (Bin b)" "b < Nbin h" "in_bin h b v" "h_start h < v" "v \<le> h_max h"
  using getBin_cases [OF assms, of 0 v] by fastforce

lemma getBin_in_bin:
  assumes "wf_hist h" "in_bin h b v" "b < Nbin h"
  shows "getBin h v 0 = Inr (Bin b)"
  using assms(1)
proof (cases rule: getBin_0 [of h v])
  case (bin c)
  then show ?thesis using in_bin_unique [OF assms(1) bin(3) assms(2)] assms(3) by simp
qed (use in_bin_range [OF assms] in auto)

subsection \<open>Counting values\<close>

definition bin_hits :: "histogram \<Rightarrow> real list \<Rightarrow> nat \<Rightarrow> nat" where
  "bin_hits h vals b = length (filter (in_bin h b) vals)"

text \<open>Two histograms with the same edges.\<close>

definition same_edges :: "histogram \<Rightarrow> histogram \<Rightarrow> bool" where
  "same_edges h h' \<longleftrightarrow> Nbin h' = Nbin h \<and> h_start h' = h_start h \<and> h_bin_width h' = h_bin_width h \<and>
     h_min h' = h_min h \<and> h_max h' = h_max h"

lemma same_edges_in_bin: "same_edges h h' \<Longrightarrow> in_bin h' = in_bin h"
  by (simp add: same_edges_def in_bin_def fun_eq_iff)

lemma same_edges_wf: "same_edges h h' \<Longrightarrow> wf_hist h' = wf_hist h"
  by (simp add: same_edges_def wf_hist_def)

lemma same_edges_getBin: "same_edges h h' \<Longrightarrow> getBin h' = getBin h"
  by (simp add: same_edges_def getBin_def fun_eq_iff)

lemma sum_list_increment:
  "b < length xs \<Longrightarrow> sum_list (increment b xs) = sum_list xs + (1 :: u64)"
proof (induction xs arbitrary: b)
  case (Cons x xs)
  then show ?case by (cases b) (simp_all add: increment_def)
qed simp

lemma length_increment [simp]: "length (increment b xs) = length xs"
  by (simp add: increment_def)

lemma nth_increment:
  "c < length xs \<Longrightarrow> increment b xs ! c = (if c = b then xs ! c + 1 else xs ! c)"
  by (simp add: increment_def nth_list_update)

lemma insert_value_ok:
  assumes "wf_hist h" "h_start h < v" "v \<le> h_max h"
  obtains h' where "insert_value v h = Inr h'" "same_edges h h'"
    "\<And>b. b < Nbin h \<Longrightarrow> h_counts h' ! b = h_counts h ! b + (if in_bin h b v then 1 else 0)"
    "totalCount h' = totalCount h + 1"
proof -
  obtain b where b: "getBin h v 0 = Inr (Bin b)" "b < Nbin h" "in_bin h b v"
    using assms(2,3) by (cases rule: getBin_0 [OF assms(1), of v]) auto
  show ?thesis
  proof (rule that)
    show "insert_value v h = Inr (h\<lparr>h_counts := increment b (h_counts h)\<rparr>)"
      using b(1) by (simp add: insert_value_def)
    show "same_edges h (h\<lparr>h_counts := increment b (h_counts h)\<rparr>)"
      by (simp add: same_edges_def Nbin_def)
    show "totalCount (h\<lparr>h_counts := increment b (h_counts h)\<rparr>) = totalCount h + 1"
      using b(2) by (simp add: totalCount_def sum_list_increment Nbin_def)
    show "h_counts (h\<lparr>h_counts := increment b (h_counts h)\<rparr>) ! c =
        h_counts h ! c + (if in_bin h c v then 1 else 0)" if c: "c < Nbin h" for c
    proof -
      have "in_bin h c v \<longleftrightarrow> c = b" using b(2,3) c in_bin_unique [OF assms(1)] by blast
      then show ?thesis using nth_increment [of c "h_counts h" b] c by (simp add: Nbin_def)
    qed
  qed
qed

lemma insert_values_ok:
  assumes "wf_hist h" "\<forall>v \<in> set vals. h_start h < v \<and> v \<le> h_max h"
  shows "\<exists>h'. foldE insert_value vals h = Inr h' \<and> same_edges h h' \<and>
    (\<forall>b < Nbin h. h_counts h' ! b = h_counts h ! b + of_nat (bin_hits h vals b)) \<and>
    totalCount h' = totalCount h + of_nat (length vals)"
  using assms
proof (induction vals arbitrary: h)
  case Nil
  then show ?case by (simp add: same_edges_def bin_hits_def)
next
  case (Cons v vals)
  obtain h1 where h1: "insert_value v h = Inr h1" "same_edges h h1"
    "\<And>b. b < Nbin h \<Longrightarrow> h_counts h1 ! b = h_counts h ! b + (if in_bin h b v then 1 else 0)"
    "totalCount h1 = totalCount h + 1"
    using Cons.prems by (elim insert_value_ok [of h v]) auto
  have "wf_hist h1" "\<forall>v \<in> set vals. h_start h1 < v \<and> v \<le> h_max h1"
    using Cons.prems same_edges_wf [OF h1(2)] h1(2) by (auto simp: same_edges_def)
  from Cons.IH [OF this] obtain h2 where h2: "foldE insert_value vals h1 = Inr h2" "same_edges h1 h2"
    "\<forall>b < Nbin h1. h_counts h2 ! b = h_counts h1 ! b + of_nat (bin_hits h1 vals b)"
    "totalCount h2 = totalCount h1 + of_nat (length vals)" by blast
  have "\<forall>b < Nbin h. h_counts h2 ! b = h_counts h ! b + of_nat (bin_hits h (v # vals) b)"
    using h1(3) h2(3) h1(2) unfolding bin_hits_def same_edges_in_bin [OF h1(2)] same_edges_def by auto
  then show ?case using h1 h2 by (auto simp: same_edges_def)
qed

lemma foldl_min_max:
  fixes vals :: "real list"
  assumes "vals \<noteq> []" "\<forall>v \<in> set vals. \<bar>v\<bar> \<le> dbl_max"
  shows "foldl min dbl_max vals = Min (set vals)" "foldl max dbl_lowest vals = Max (set vals)"
proof -
  have flip: "(\<lambda>x s. min s x) = (min :: real \<Rightarrow> _)" "(\<lambda>x s. max s x) = (max :: real \<Rightarrow> _)"
    by (simp_all add: fun_eq_iff min.commute max.commute)
  have 1: "foldl min a vals = Min (insert a (set vals))" "foldl max a vals = Max (insert a (set vals))"
    for a :: real
    using Min.set_eq_fold [of a vals] Max.set_eq_fold [of a vals] by (simp_all add: foldl_conv_fold flip)
  have ne: "finite (set vals)" "set vals \<noteq> {}" using assms(1) by simp_all
  have "Min (set vals) \<in> set vals" "Max (set vals) \<in> set vals" using ne by simp_all
  then have "\<bar>Min (set vals)\<bar> \<le> dbl_max" "\<bar>Max (set vals)\<bar> \<le> dbl_max" using assms(2) by blast+
  then have "min dbl_max (Min (set vals)) = Min (set vals)" "max dbl_lowest (Max (set vals)) = Max (set vals)"
    unfolding dbl_lowest_def by linarith+
  then show "foldl min dbl_max vals = Min (set vals)" "foldl max dbl_lowest vals = Max (set vals)"
    unfolding 1 using Min_insert [OF ne] Max_insert [OF ne] by simp_all
qed

lemma fresh_histogram_wf:
  assumes "0 < w" "s + (real n - 1) * w < mx" "mx \<le> s + real n * w" "0 < n" "n < 2 ^ 31"
  shows "wf_hist \<lparr>h_counts = replicate n 0, h_start = s, h_bin_width = w, h_min = mn, h_max = mx\<rparr>"
  using assms by (simp add: wf_hist_def Nbin_def)

lemma same_edges_fresh:
  assumes "same_edges \<lparr>h_counts = replicate n 0, h_start = s, h_bin_width = w, h_min = mn, h_max = mx\<rparr> h'"
  shows "Nbin h' = n" "h_start h' = s" "h_bin_width h' = w" "h_min h' = mn" "h_max h' = mx"
  using assms by (auto simp: same_edges_def Nbin_def)

text \<open>The adjusted width: \<open>n\<close> bins end exactly at the maximum.\<close>

lemma adjusted_width:
  fixes s mx w :: real
  assumes "s < mx" "0 < w"
  defines "n \<equiv> \<lceil>(mx - s) / w\<rceil>"
  shows "0 < n" "0 < (mx - s) / of_int n" "s + of_int n * ((mx - s) / of_int n) = mx"
    "(mx - s) / of_int n \<le> w"
proof -
  have p: "0 < (mx - s) / w" using assms by simp
  then show n: "0 < n" unfolding n_def by simp
  then show "0 < (mx - s) / of_int n" "s + of_int n * ((mx - s) / of_int n) = mx" using assms(1) by simp_all
  have "(mx - s) / w \<le> of_int n" unfolding n_def by linarith
  then show "(mx - s) / of_int n \<le> w" using n assms(2) by (simp add: field_simps)
qed

text \<open>
  C32. Building a histogram from data that are not all equal, with any rule that yields a
  positive width giving fewer than \<open>2 ^ 31\<close> bins, succeeds: the histogram is well-formed,
  its first bin contains the minimum and its last bin ends at the maximum of the data, the
  count of every bin is the number of data strictly above its lower and not above its upper
  edge, and the total is the number of data.
\<close>

theorem create_histogram_correct:
  assumes "vals \<noteq> []" "\<exists>v \<in> set vals. v \<noteq> hd vals" "\<forall>v \<in> set vals. \<bar>v\<bar> \<le> dbl_max"
    and "bin_width_data spec vals (Min (set vals)) (Max (set vals)) = Inr w" "0 < w"
    and "(Max (set vals) - Min (set vals)) / w + getLowerBoundShiftMul \<le> 2 ^ 31 - 1"
  shows "\<exists>h. create_histogram spec vals = Inr h \<and> wf_hist h \<and>
    h_min h = Min (set vals) \<and> in_bin h 0 (h_min h) \<and> h_max h = Max (set vals) \<and>
    h_bin_width h \<le> w \<and>
    (\<forall>b < Nbin h. h_counts h ! b = of_nat (length (filter (in_bin h b) vals))) \<and>
    totalCount h = of_nat (length vals)"
proof -
  define mn where "mn = Min (set vals)"
  define mx where "mx = Max (set vals)"
  define s where "s = mn - getLowerBoundShiftMul * w"
  define n where "n = \<lceil>(mx - s) / w\<rceil>"
  define bw where "bw = (mx - s) / of_int n"
  define h0 where "h0 = \<lparr>h_counts = replicate (nat n) 0, h_start = s, h_bin_width = bw, h_min = mn, h_max = mx\<rparr>"
  have b: "\<forall>v \<in> set vals. mn \<le> v \<and> v \<le> mx" unfolding mn_def mx_def by simp
  obtain v where v: "v \<in> set vals" "v \<noteq> hd vals" using assms(2) by blast
  have "mn < mx" using b v assms(1) by (metis hd_in_set order.antisym not_le_imp_less order.trans)
  moreover have g: "0 < getLowerBoundShiftMul * w" using assms(5) by (simp add: getLowerBoundShiftMul_def)
  ultimately have s: "s < mx" "s < mn" unfolding s_def by linarith+
  note a = adjusted_width [OF s(1) assms(5), folded n_def, folded bw_def]
  have "(mx - s) / w = (mx - mn) / w + getLowerBoundShiftMul"
    using assms(5) by (simp add: s_def field_simps)
  then have "(mx - s) / w \<le> 2 ^ 31 - 1" using assms(6) by (simp add: mn_def mx_def)
  then have n31: "n \<le> 2 ^ 31 - 1" unfolding n_def by (simp add: ceiling_le_iff)
  have rn: "real (nat n) = of_int n" using a(1) by simp
  have wf: "wf_hist h0" unfolding h0_def
    using a n31 by (intro fresh_histogram_wf) (auto simp: rn left_diff_distrib)
  obtain h where h: "foldE insert_value vals h0 = Inr h" "same_edges h0 h"
    "\<forall>b < Nbin h0. h_counts h ! b = h_counts h0 ! b + of_nat (bin_hits h0 vals b)"
    "totalCount h = totalCount h0 + of_nat (length vals)"
    using insert_values_ok [OF wf, of vals] b s by (force simp: h0_def)
  note e = same_edges_fresh [OF h(2) [unfolded h0_def]]
  have t0: "totalCount h0 = 0" by (simp add: h0_def totalCount_def sum_list_replicate)
  have "create_histogram spec vals = Inr h"
    using assms(1,4,5) v a h(1,4) n31 t0
    unfolding create_histogram_def foldl_min_max [OF assms(1,3)] mn_def [symmetric] mx_def [symmetric]
    by (auto simp: Let_def s_def [symmetric] n_def [symmetric] bw_def [symmetric] h0_def [symmetric] list_all_iff)
  moreover have "in_bin h 0 mn"
  proof -
    have "mn \<le> s + bw"
    proof (cases "n = 1")
      case True
      then show ?thesis using \<open>mn < mx\<close> by (simp add: bw_def)
    next
      case False
      then have n2: "2 \<le> n" using a(1) by simp
      have "of_int n - 1 < (mx - s) / w" unfolding n_def by linarith
      then have "(of_int n - 1) * w < mx - s" using assms(5) by (simp add: less_divide_eq)
      then have "(of_int n - 1) * w < of_int n * bw" using a(3) by linarith
      moreover have "of_int n / 2 * w \<le> (of_int n - 1) * w"
        using n2 assms(5) by (intro mult_right_mono) auto
      ultimately have "of_int n * (w / 2) < of_int n * bw" by (simp add: field_simps)
      then have "w / 2 < bw" using n2 by simp
      then show ?thesis using assms(5) by (simp add: s_def getLowerBoundShiftMul_def)
    qed
    then show ?thesis using s e \<open>mn < mx\<close> by (auto simp: in_bin_def)
  qed
  moreover have "wf_hist h" using wf same_edges_wf [OF h(2)] by simp
  moreover have "\<forall>b < Nbin h. h_counts h ! b = of_nat (length (filter (in_bin h b) vals))"
    using h(3) e(1) unfolding bin_hits_def same_edges_in_bin [OF h(2)] by (simp add: h0_def Nbin_def)
  ultimately show ?thesis using e a(4) h(4) t0 by (auto simp: mn_def mx_def)
qed

definition wit_values :: "real list" where
  "wit_values = [1, 2, 3, 4, 6]"

theorem create_histogram_correct_witness:
  "\<exists>h. create_histogram (binWidthFixed 2) wit_values = Inr h \<and> totalCount h = 5 \<and> h_max h = 6"
  using create_histogram_correct [of wit_values "binWidthFixed 2" 2]
  by (auto simp: wit_values_def dbl_max_def bin_width_data_def getLowerBoundShiftMul_def)

text \<open>
  \<open>getBin\<close> never fails on a well-formed histogram, and finds the bin of a value: it
  answers left or right of the histogram exactly when the value is beyond the tolerance,
  and otherwise the bin whose edges enclose the value, or the outermost bin for a value
  within the tolerance.
\<close>

lemma getBin_correct:
  assumes "wf_hist h" "0 \<le> tol"
  shows "\<exists>r. getBin h v tol = Inr r \<and>
    (case r of
       LeftOfHistogram \<Rightarrow> v \<le> h_start h - tol * h_bin_width h
     | RightOfHistogram \<Rightarrow> v > h_max h + tol * h_bin_width h
     | Bin b \<Rightarrow> b < Nbin h \<and> h_start h - tol * h_bin_width h < v \<and> v \<le> h_max h + tol * h_bin_width h \<and>
         (in_bin h b v \<or> v \<le> h_start h \<and> b = 0 \<or> v > h_max h \<and> Suc b = Nbin h))"
  using getBin_cases [OF assms, of v] by fastforce

definition wit_hist :: histogram where
  "wit_hist = \<lparr>h_counts = [3, 0, 2], h_start = 0, h_bin_width = 2, h_min = 1, h_max = 6\<rparr>"

lemma wf_wit_hist: "wf_hist wit_hist"
  by (simp add: wf_hist_def wit_hist_def Nbin_def)

lemma getBin_correct_witness:
  "\<exists>r. getBin wit_hist 4 0 = Inr r \<and> r = Bin 1"
proof -
  obtain r where r: "getBin wit_hist 4 0 = Inr r"
    and "case r of LeftOfHistogram \<Rightarrow> 4 \<le> h_start wit_hist - 0 * h_bin_width wit_hist
     | RightOfHistogram \<Rightarrow> 4 > h_max wit_hist + 0 * h_bin_width wit_hist
     | Bin b \<Rightarrow> b < Nbin wit_hist \<and> h_start wit_hist - 0 * h_bin_width wit_hist < 4 \<and>
         4 \<le> h_max wit_hist + 0 * h_bin_width wit_hist \<and>
         (in_bin wit_hist b 4 \<or> 4 \<le> h_start wit_hist \<and> b = 0 \<or> 4 > h_max wit_hist \<and> Suc b = Nbin wit_hist)"
    using getBin_correct [OF wf_wit_hist, of 0 4] by auto
  then have "r = Bin 1"
    by (cases r) (auto simp: wit_hist_def Nbin_def in_bin_def split: if_splits)
  with r show ?thesis by blast
qed

text \<open>
  \<open>set_histogram\<close> accepts a stored maximum up to \<open>1e-8\<close> bin widths away from the upper
  edge of the last bin. When it lies above that edge, a value between the two makes
  \<open>getBin\<close> fail, although it is not above the maximum.
\<close>

lemma set_histogram_gap:
  "\<exists>h. set_histogram [1] 1 (1 + 1 / 10 ^ 9) 0 1 = Inr h \<and>
     getBin h (1 + 1 / 10 ^ 10) 0 = Inl (Fatal ''Logic bomb: bin index'')"
proof -
  have "\<lfloor>1 + 1 / 10 ^ 10 :: real\<rfloor> = 1" by (simp add: floor_eq_iff)
  then show ?thesis
    by (simp add: set_histogram_def getBin_def Nbin_def int_of_double_def Let_def)
qed

end
