(* ===== verification/HistogramRange.thy ===== *)
theory HistogramRange
  imports HistogramBins
begin

text \<open>
  Counts of ranges, the empirical distribution function and negation of histograms. The
  reference for \<open>uniformCountInRange\<close> spreads every count evenly over its bin and adds
  the shares of all bins that lie in the range.
\<close>

definition share :: "histogram \<Rightarrow> real \<Rightarrow> real \<Rightarrow> nat \<Rightarrow> real" where
  "share h l u b = max 0 (min u (snd (binEdges h b)) - max l (fst (binEdges h b)))
     / (snd (binEdges h b) - fst (binEdges h b))"

definition range_count :: "histogram \<Rightarrow> real \<Rightarrow> real \<Rightarrow> real" where
  "range_count h l u = (\<Sum>b < Nbin h. real (unat (binCount h b)) * share h l u b)"

lemma edges_mono:
  assumes "wf_hist h" "i < j" "j < Nbin h"
  shows "snd (binEdges h i) \<le> fst (binEdges h j)"
proof -
  have "real (Suc i) * h_bin_width h \<le> real j * h_bin_width h"
    using assms by (intro mult_right_mono) (auto simp: wf_hist_def)
  then show ?thesis using assms(2,3) by (auto simp: algebra_simps)
qed

lemma edges_less:
  assumes "wf_hist h" "b < Nbin h"
  shows "fst (binEdges h b) < snd (binEdges h b)"
proof (cases "Suc b = Nbin h")
  case True
  then have eq: "real (Nbin h) - 1 = real b" by linarith
  have "h_start h + (real (Nbin h) - 1) * h_bin_width h < h_max h" using assms(1) by (simp add: wf_hist_def)
  then show ?thesis unfolding eq using True by simp
qed (use assms in \<open>simp add: wf_hist_def\<close>)

lemma edges_bounds:
  assumes "wf_hist h" "b < Nbin h"
  shows "h_start h \<le> fst (binEdges h b)" "snd (binEdges h b) \<le> h_max h"
proof -
  show "h_start h \<le> fst (binEdges h b)" using assms by (auto simp: wf_hist_def)
  show "snd (binEdges h b) \<le> h_max h"
  proof (cases "Suc b = Nbin h")
    case False
    then have "snd (binEdges h b) \<le> fst (binEdges h (Nbin h - 1))"
      using assms by (intro edges_mono) auto
    also have "\<dots> \<le> h_max h" using edges_less [OF assms(1), of "Nbin h - 1"] assms(2) by simp
    finally show ?thesis .
  qed simp
qed

lemma share_zero: "u \<le> fst (binEdges h b) \<or> snd (binEdges h b) \<le> l \<Longrightarrow> share h l u b = 0"
proof -
  assume "u \<le> fst (binEdges h b) \<or> snd (binEdges h b) \<le> l"
  then have "min u (snd (binEdges h b)) - max l (fst (binEdges h b)) \<le> 0" by linarith
  then show ?thesis unfolding share_def by (simp add: max.absorb1 del: edges_simps)
qed

lemma share_clamp:
  assumes "wf_hist h" "b < Nbin h"
  shows "share h (max l (h_start h)) (min u (h_max h)) b = share h l u b"
proof -
  have "max (max l (h_start h)) (fst (binEdges h b)) = max l (fst (binEdges h b))"
    "min (min u (h_max h)) (snd (binEdges h b)) = min u (snd (binEdges h b))"
    using edges_bounds [OF assms] by (simp_all only: max.assoc max.absorb2 min.assoc min.absorb2)
  then show ?thesis by (simp only: share_def)
qed

lemma range_count_split:
  assumes wf: "wf_hist h" and ij: "i \<le> j" "j < Nbin h"
    and l: "fst (binEdges h i) \<le> l" "l \<le> snd (binEdges h i)"
    and u: "fst (binEdges h j) < u" "u \<le> snd (binEdges h j)" and lu: "l \<le> u"
  shows "range_count h l u =
    (if i = j then (u - l) / (snd (binEdges h i) - fst (binEdges h i)) * real (unat (binCount h i))
     else (snd (binEdges h i) - l) / (snd (binEdges h i) - fst (binEdges h i)) * real (unat (binCount h i))
       + (u - fst (binEdges h j)) / (snd (binEdges h j) - fst (binEdges h j)) * real (unat (binCount h j))
       + (\<Sum>b \<in> {i<..<j}. real (unat (binCount h b))))"
proof -
  let ?f = "\<lambda>b. real (unat (binCount h b)) * share h l u b"
  have out: "?f b = 0" if "b < i \<or> j < b" "b < Nbin h" for b
  proof -
    have "u \<le> fst (binEdges h b) \<or> snd (binEdges h b) \<le> l"
      using that edges_mono [OF wf, of b i] edges_mono [OF wf, of j b] ij l(1) u(2) by linarith
    then show ?thesis by (simp add: share_zero)
  qed
  have "range_count h l u = (\<Sum>b \<in> {i..j}. ?f b)"
    unfolding range_count_def
  proof (rule sum.mono_neutral_right)
    show "\<forall>b \<in> {..<Nbin h} - {i..j}. ?f b = 0" 
    proof
      fix b assume "b \<in> {..<Nbin h} - {i..j}"
      then have "b < i \<or> j < b" "b < Nbin h" by auto
      then show "?f b = 0" by (rule out)
    qed
  qed (use ij in auto)
  also have "\<dots> = (if i = j then ?f i else ?f i + ?f j + (\<Sum>b \<in> {i<..<j}. ?f b))"
  proof (cases "i = j")
    case False
    then have "{i..j} = insert i (insert j {i<..<j})" using ij by auto
    then show ?thesis using False by (simp add: algebra_simps)
  qed simp
  also have "(\<Sum>b \<in> {i<..<j}. ?f b) = (\<Sum>b \<in> {i<..<j}. real (unat (binCount h b)))"
  proof (rule sum.cong)
    fix b assume b: "b \<in> {i<..<j}"
    then have n: "b < Nbin h" using ij by simp
    have "l \<le> fst (binEdges h b)" "snd (binEdges h b) \<le> u"
      using b edges_mono [OF wf, of i b] edges_mono [OF wf, of b j] ij l(2) u(1) by auto
    then have "share h l u b = 1" using edges_less [OF wf n] by (simp add: share_def max_def min_def)
    then show "?f b = real (unat (binCount h b))" by simp
  qed simp
  also have "?f i = (if i = j then u - l else snd (binEdges h i) - l)
      / (snd (binEdges h i) - fst (binEdges h i)) * real (unat (binCount h i))"
  proof -
    have "snd (binEdges h i) \<le> u" if "i \<noteq> j" using edges_mono [OF wf, of i j] that ij u(1) by linarith
    then show ?thesis using l u lu by (auto simp: share_def max_def min_def simp del: edges_simps)
  qed
  also have "i \<noteq> j \<Longrightarrow> ?f j = (u - fst (binEdges h j)) / (snd (binEdges h j) - fst (binEdges h j)) * real (unat (binCount h j))"
  proof -
    assume "i \<noteq> j"
    then have "l \<le> fst (binEdges h j)" using edges_mono [OF wf, of i j] ij l(2) by linarith
    then show ?thesis using u by (simp add: share_def max_def min_def del: edges_simps)
  qed
  then have "(if i = j then x else y + ?f j + z) = (if i = j then x else y +
      (u - fst (binEdges h j)) / (snd (binEdges h j) - fst (binEdges h j)) * real (unat (binCount h j)) + z)"
    for x y z by simp
  finally show ?thesis by (simp del: edges_simps)
qed

lemma ratio_le:
  assumes "0 \<le> x" "x \<le> d" "0 \<le> (c :: real)"
  shows "x / d * c \<le> c"
proof -
  have "x / d \<le> 1" using assms(1,2) by (cases "d = 0") (auto simp: divide_le_eq_1)
  from mult_right_mono [OF this assms(3)] show ?thesis by simp
qed

lemma foldl_count_sum:
  "i < j \<Longrightarrow> foldl (\<lambda>c b. c + f b) a [Suc i..<j] = a + (\<Sum>b \<in> {i<..<j}. f b :: real)"
proof -
  have "foldl (\<lambda>c b. c + f b) a xs = a + sum_list (map f xs)" for xs
    by (induction xs arbitrary: a) (simp_all add: algebra_simps)
  moreover have "sum_list (map f [Suc i..<j]) = (\<Sum>b \<in> {i<..<j}. f b)"
    by (simp add: sum_list_distinct_conv_sum_set atLeastSucLessThan_greaterThanLessThan)
  ultimately show ?thesis by simp
qed

lemma uniform_count:
  assumes wf: "wf_hist h" and d: "h_min h \<noteq> h_max h" and lu: "l < u"
  shows "uniformCountInRange h l u = Inr (range_count h l u)"
proof -
  have g: "\<not> u \<le> l" "h_max h \<noteq> h_min h" using d lu by auto
  note st = wf_hist_start [OF wf]
  have n: "0 < Nbin h" using wf by (simp add: wf_hist_def)
  have none: "range_count h l u = 0" if "u \<le> h_start h \<or> h_max h < l"
  proof -
    have "share h l u b = 0" if "b < Nbin h" for b
      using edges_bounds [OF wf that] \<open>u \<le> h_start h \<or> h_max h < l\<close>
      by (intro share_zero) linarith
    then show ?thesis by (simp add: range_count_def)
  qed
  have clamp: "range_count h (max l (h_start h)) (min u (h_max h)) = range_count h l u"
    by (simp add: range_count_def share_clamp [OF wf])
  show ?thesis
  proof (cases "h_max h < l \<or> u \<le> h_start h")
    case True
    then show ?thesis
    proof
      assume r: "h_max h < l"
      then have "getBin h l 0 = Inr RightOfHistogram" using st by (cases rule: getBin_0 [OF wf, of l]) auto
      then show ?thesis using g none r by (simp add: uniformCountInRange_def)
    next
      assume r: "u \<le> h_start h"
      then have "getBin h u 0 = Inr LeftOfHistogram" using st by (cases rule: getBin_0 [OF wf, of u]) auto
      moreover have "getBin h l 0 = Inr LeftOfHistogram"
        using r lu st by (cases rule: getBin_0 [OF wf, of l]) auto
      ultimately show ?thesis using g none r by (simp add: uniformCountInRange_def)
    qed
  next
    case False
    define l' where "l' = max l (h_start h)"
    define u' where "u' = min u (h_max h)"
    have lu': "l' \<le> u'" using False lu st unfolding l'_def u'_def by linarith
    obtain lb i where lb: "getBin h l 0 = Inr lb" "lb \<noteq> RightOfHistogram" "i < Nbin h"
        "fst (binEdges h i) \<le> l'" "l' \<le> snd (binEdges h i)" "i = 0 \<or> fst (binEdges h i) < l'"
        "(case lb of Bin i \<Rightarrow> (i, l) | _ \<Rightarrow> (0, binEdgeLower h 0)) = (i, l')"
      using wf
    proof (cases rule: getBin_0 [of h l])
      case left
      then show ?thesis using that [of LeftOfHistogram 0] n edges_less [OF wf n]
        by (auto simp: l'_def binEdgeLower_def)
    next
      case (bin b)
      then show ?thesis using that [of "Bin b" b] by (auto simp: l'_def in_bin_def simp del: edges_simps)
    qed (use False in auto)
    obtain ub j where ub: "getBin h u 0 = Inr ub" "ub \<noteq> LeftOfHistogram" "j < Nbin h"
        "fst (binEdges h j) < u'" "u' \<le> snd (binEdges h j)"
        "(case ub of Bin i \<Rightarrow> (i, u) | _ \<Rightarrow> (Nbin h - 1, h_max h)) = (j, u')"
      using wf
    proof (cases rule: getBin_0 [of h u])
      case right
      then show ?thesis using that [of RightOfHistogram "Nbin h - 1"] n edges_less [OF wf, of "Nbin h - 1"]
        by (auto simp: u'_def)
    next
      case (bin b)
      then show ?thesis using that [of "Bin b" b] by (auto simp: u'_def in_bin_def simp del: edges_simps)
    qed (use False in auto)
    have ij: "i \<le> j"
    proof (rule ccontr)
      assume "\<not> i \<le> j"
      then show False using edges_mono [OF wf, of j i] lb(3,6) ub(5) lu' by linarith
    qed
    note r = range_count_split [OF wf ij ub(3) lb(4,5) ub(4,5) lu']
    have "range_count h l u = range_count h l' u'" using clamp by (simp add: l'_def u'_def)
    moreover have "uniformCountInRange h l u = Inr (range_count h l' u')"
    proof (cases "i = j")
      case True
      have "(u' - l') / (snd (binEdges h i) - fst (binEdges h i)) * real (unat (binCount h i)) \<le> real (unat (binCount h i))"
        by (rule ratio_le) (use lu' lb(4) ub(5) True in auto)
      then show ?thesis using g lb(1,2) ub(1,2) True r
        unfolding uniformCountInRange_def bind.simps lb(1) ub(1) lb(7) ub(6)
        by (simp add: Let_def prod.case_eq_if del: edges_simps)
    next
      case False
      have "(snd (binEdges h i) - l') / (snd (binEdges h i) - fst (binEdges h i)) * real (unat (binCount h i)) \<le> real (unat (binCount h i))"
        by (rule ratio_le) (use lb(4,5) in auto)
      moreover have "(u' - fst (binEdges h j)) / (snd (binEdges h j) - fst (binEdges h j)) * real (unat (binCount h j)) \<le> real (unat (binCount h j))"
        by (rule ratio_le) (use ub(4,5) in auto)
      ultimately show ?thesis using g lb(1,2) ub(1,2,4,5) False r ij
        unfolding uniformCountInRange_def bind.simps lb(1) ub(1) lb(7) ub(6)
        by (simp add: Let_def prod.case_eq_if foldl_count_sum del: edges_simps)
    qed
    ultimately show ?thesis by simp
  qed
qed


text \<open>
  On a well-formed histogram with different minimum and maximum, the count of a range
  never fails an assertion and is the reference: the sum over all bins of their counts times
  the fraction of the bin that lies in the range, whatever bins the ends of the range fall
  in and also when they are outside of the histogram.
\<close>

lemma uniformCountInRange_correct:
  assumes "wf_hist h" "h_min h \<noteq> h_max h" "l < u"
  shows "uniformCountInRange h l u = Inr (range_count h l u)"
  by (rule uniform_count [OF assms])

lemma uniformCountInRange_correct_witness:
  "uniformCountInRange wit_hist 1 5 = Inr (5 / 2)"
  using uniformCountInRange_correct [OF wf_wit_hist, of 1 5]
  by (simp add: wit_hist_def range_count_def share_def Nbin_def lessThan_Suc binCount_def)

subsection \<open>The empirical distribution function\<close>

lemma share_mono: "wf_hist h \<Longrightarrow> b < Nbin h \<Longrightarrow> u \<le> u' \<Longrightarrow> share h l u b \<le> share h l u' b"
  using edges_less [of h b] unfolding share_def by (intro divide_right_mono) linarith+

lemma share_nonneg: "wf_hist h \<Longrightarrow> b < Nbin h \<Longrightarrow> 0 \<le> share h l u b"
  using edges_less [of h b] unfolding share_def by (intro divide_nonneg_pos) auto

lemma share_full:
  assumes "wf_hist h" "b < Nbin h" "l \<le> h_start h" "h_max h \<le> u"
  shows "share h l u b = 1"
proof -
  have "min u (snd (binEdges h b)) = snd (binEdges h b)" "max l (fst (binEdges h b)) = fst (binEdges h b)"
    using edges_bounds [OF assms(1,2)] assms(3,4) by linarith+
  then show ?thesis using edges_less [OF assms(1,2)] by (simp only: share_def) simp
qed

lemma range_count_mono: "wf_hist h \<Longrightarrow> u \<le> u' \<Longrightarrow> range_count h l u \<le> range_count h l u'"
  unfolding range_count_def by (intro sum_mono mult_left_mono share_mono) auto

lemma range_count_nonneg: "wf_hist h \<Longrightarrow> 0 \<le> range_count h l u"
  unfolding range_count_def by (intro sum_nonneg mult_nonneg_nonneg share_nonneg) auto

text \<open>Sums of counts: the word sum is exact when the true sum fits in 64 bits.\<close>

definition total :: "histogram \<Rightarrow> nat" where
  "total h = (\<Sum>b < Nbin h. unat (binCount h b))"

lemma totalCount_total: "totalCount h = of_nat (total h)"
proof -
  have "sum_list xs = of_nat (\<Sum>b < length xs. unat (xs ! b))" for xs :: "u64 list"
    by (simp add: sum_list_sum_nth atLeast0LessThan)
  then show ?thesis by (simp add: totalCount_def total_def Nbin_def binCount_def)
qed

lemma unat_totalCount: "total h < 2 ^ 64 \<Longrightarrow> unat (totalCount h) = total h"
  unfolding totalCount_total by (simp add: unat_of_nat)

lemma range_count_full:
  assumes "wf_hist h" "l \<le> h_start h" "h_max h \<le> u"
  shows "range_count h l u = real (total h)"
  using assms by (simp add: range_count_def total_def share_full)

lemma range_count_le: "wf_hist h \<Longrightarrow> l \<le> h_start h \<Longrightarrow> range_count h l u \<le> real (total h)"
  using range_count_mono [of h u "max u (h_max h)" l] range_count_full [of h l "max u (h_max h)"] by simp



subsection \<open>Negation\<close>

text \<open>
  Negating a histogram twice gives it back, the negated histogram is well-formed, and with
  the same total, when the first edge is where
  \<open>create_histogram\<close> puts it: a millionth of a bin width below the minimum.
\<close>

lemma negate_negate:
  assumes "wf_hist h" "h_start h = h_min h - getLowerBoundShiftMul * h_bin_width h"
    and "h_max h = h_start h + real (Nbin h) * h_bin_width h"
  shows "negate (negate h) = h \<and> wf_hist (negate h) \<and> totalCount (negate h) = totalCount h \<and>
    h_max (negate h) = h_start (negate h) + real (Nbin (negate h)) * h_bin_width (negate h)"
proof -
  have "sum_list (rev xs) = sum_list xs" for xs :: "u64 list"
    by (induction xs) (simp_all add: add.commute)
  moreover have "(real (Nbin h) - 1) * h_bin_width h = real (Nbin h) * h_bin_width h - h_bin_width h"
    by (simp add: algebra_simps)
  ultimately show ?thesis
    using assms by (auto simp: negate_def wf_hist_def Nbin_def totalCount_def)
qed

lemma negate_negate_witness:
  "negate (negate (\<lparr>h_counts = [3, 0, 2], h_start = 0, h_bin_width = 2,
      h_min = 1 / 500000, h_max = 6\<rparr>)) =
    \<lparr>h_counts = [3, 0, 2], h_start = 0, h_bin_width = 2, h_min = 1 / 500000, h_max = 6\<rparr>"
  using negate_negate [of "\<lparr>h_counts = [3, 0, 2], h_start = 0, h_bin_width = 2,
      h_min = 1 / 500000, h_max = 6\<rparr>"]
  by (simp add: wf_hist_def Nbin_def getLowerBoundShiftMul_def)

end
