(* ===== verification/HistogramMerge.thy ===== *)
theory HistogramMerge
  imports HistogramVBW HistogramRange
begin

text \<open>
  Extraction of counts from a chain of bins and the merger of histograms. The reference is
  \<open>cut x\<close>, which divides a chain at a point; extracting ranges moves the counts between
  the cuts and loses none. What the merger of two histograms keeps, and what it loses below
  its first edge, follows.
\<close>

definition whole :: "real \<Rightarrow> bool" where
  "whole c \<longleftrightarrow> (\<exists>n. c = real n)"

fun chain :: "real \<Rightarrow> vbin list \<Rightarrow> bool" where
  "chain s [] \<longleftrightarrow> True"
| "chain s (b # bs) \<longleftrightarrow> b_l b = s \<and> s < b_u b \<and> whole (b_c b) \<and> chain (b_u b) bs"

definition chain_end :: "real \<Rightarrow> vbin list \<Rightarrow> real" where
  "chain_end s bins = (if bins = [] then s else b_u (last bins))"

definition csum :: "vbin list \<Rightarrow> real" where
  "csum bins = sum_list (map b_c bins)"

fun cut :: "real \<Rightarrow> vbin list \<Rightarrow> vbin list \<times> vbin list" where
  "cut x [] = ([], [])"
| "cut x (b # bs) =
    (if x \<le> b_l b then ([], b # bs)
     else if x < b_u b then
       (let (c0, c1) = split_counts x b in
        ([b\<lparr>b_u := x, b_c := c0\<rparr>], \<lparr>b_l = x, b_u = b_u b, b_c = c1\<rparr> # bs))
     else (let (L, R) = cut x bs in (b # L, R)))"

lemma csum_simps [simp]: "csum [] = 0" "csum (b # bs) = b_c b + csum bs" "csum (xs @ ys) = csum xs + csum ys"
  by (simp_all add: csum_def)

lemma chain_end_simps [simp]: "chain_end s [] = s" "chain_end s (b # bs) = chain_end (b_u b) bs"
  by (simp_all add: chain_end_def)

lemma chain_append [simp]: "chain s (xs @ ys) \<longleftrightarrow> chain s xs \<and> chain (chain_end s xs) ys"
  by (induction xs arbitrary: s) auto

lemma chain_end_append [simp]: "chain_end s (xs @ ys) = chain_end (chain_end s xs) ys"
  by (simp add: chain_end_def)

lemma chain_end_le: "chain s bins \<Longrightarrow> s \<le> chain_end s bins"
  by (induction bins arbitrary: s) fastforce+

lemma chain_end_less: "chain s bins \<Longrightarrow> bins \<noteq> [] \<Longrightarrow> s < chain_end s bins"
  using chain_end_le [of "b_u (hd bins)" "tl bins"] by (cases bins) auto

lemma whole_nonneg: "whole c \<Longrightarrow> 0 \<le> c"
  by (auto simp: whole_def)

lemma whole_simps [simp, intro]: "whole 0" "whole x \<Longrightarrow> whole y \<Longrightarrow> whole (x + y)" "whole (real n)"
proof -
  show "whole 0" unfolding whole_def by (rule exI [of _ 0]) simp
  show "whole (real n)" unfolding whole_def by blast
  show "whole x \<Longrightarrow> whole y \<Longrightarrow> whole (x + y)" unfolding whole_def by (metis of_nat_add)
qed

lemma whole_csum: "chain s bins \<Longrightarrow> whole (csum bins)"
  by (induction bins arbitrary: s) auto

lemma whole_int: "whole (of_int k) \<longleftrightarrow> 0 \<le> k"
  unfolding whole_def by (metis of_int_0_le_iff of_int_of_nat_eq of_nat_0_le_iff nat_0_le)

subsection \<open>Splitting a bin\<close>

text \<open>
  The parts of a split bin are whole numbers that add up to its count, each within one half
  of its exact share.
\<close>

lemma round_half:
  fixes x y :: real
  assumes "x + y = of_int n" "\<lfloor>x + 1 / 2\<rfloor> + \<lfloor>y + 1 / 2\<rfloor> \<noteq> n"
  shows "\<lfloor>x + 1 / 2\<rfloor> + \<lfloor>y + 1 / 2\<rfloor> = n + 1 \<and> of_int \<lfloor>x + 1 / 2\<rfloor> = x + 1 / 2 \<and> of_int \<lfloor>y + 1 / 2\<rfloor> = y + 1 / 2"
proof -
  define i where "i = \<lfloor>x + 1 / 2\<rfloor>"
  define j where "j = \<lfloor>y + 1 / 2\<rfloor>"
  have f: "of_int i \<le> x + 1 / 2" "x + 1 / 2 < of_int i + 1" "of_int j \<le> y + 1 / 2" "y + 1 / 2 < of_int j + 1"
    unfolding i_def j_def by linarith+
  then have "of_int (i + j) \<le> of_int (n + 1 :: int) + (0 :: real)" "of_int (n + 1 :: int) < of_int (i + j + 2) + (0 :: real)"
    using assms(1) by simp_all
  then have "i + j \<le> n + 1" "n + 1 < i + j + 2" by (simp_all only: add_0_right of_int_le_iff of_int_less_iff)
  then have n: "i + j = n + 1" using assms(2) unfolding i_def [symmetric] j_def [symmetric] by linarith
  then have "of_int i + of_int j = x + y + 1" using assms(1) by (metis of_int_add of_int_1)
  then have "of_int i = x + 1 / 2" "of_int j = y + 1 / 2" using f by linarith+
  then show ?thesis using n unfolding i_def [symmetric] j_def [symmetric] by simp
qed

lemma split_counts_spec:
  assumes "b_l b < x" "x < b_u b" "whole (b_c b)" "split_counts x b = (c0, c1)"
  defines "f \<equiv> (x - b_l b) / (b_u b - b_l b)"
  shows "c0 + c1 = b_c b" "whole c0" "whole c1"
    "\<bar>c0 - f * b_c b\<bar> \<le> 1 / 2" "\<bar>c1 - (1 - f) * b_c b\<bar> \<le> 1 / 2"
proof -
  obtain n where n: "b_c b = real n" using assms(3) by (auto simp: whole_def)
  have f: "0 < f" "f < 1" using assms(1,2) by (simp_all add: f_def)
  define x0 where "x0 = f * b_c b"
  define x1 where "x1 = (1 - f) * b_c b"
  have x: "x0 + x1 = of_int (int n)" "0 \<le> x0" "0 \<le> x1"
    using f n by (auto simp: x0_def x1_def algebra_simps mult_left_le_one_le)
  have half: "(0.5 :: real) = 1 / 2" by simp
  let ?i = "\<lfloor>x0 + 1 / 2\<rfloor>" and ?j = "\<lfloor>x1 + 1 / 2\<rfloor>"
  have r: "\<bar>of_int ?i - x0\<bar> \<le> 1 / 2" "\<bar>of_int ?j - x1\<bar> \<le> 1 / 2" by linarith+
  have nn: "0 \<le> ?i" "0 \<le> ?j" using x by simp_all
  have c: "c0 = (if f < 1 - f then of_int ?i else of_int ?i + (real n - of_int ?i - of_int ?j))"
    "c1 = (if f < 1 - f then of_int ?j + (real n - of_int ?i - of_int ?j) else of_int ?j)"
    using assms(4) [unfolded split_counts_def Let_def half, folded f_def, folded x0_def x1_def, unfolded n]
    by (auto split: if_splits)
  show "c0 + c1 = b_c b" using c n by auto
  have "whole c0 \<and> whole c1 \<and> \<bar>c0 - x0\<bar> \<le> 1 / 2 \<and> \<bar>c1 - x1\<bar> \<le> 1 / 2"
  proof (cases "?i + ?j = int n")
    case True
    then have "real n - of_int ?i - of_int ?j = 0" by (metis add_diff_cancel_left' diff_diff_eq diff_self of_int_add of_int_of_nat_eq)
    then show ?thesis using c nn r by (auto simp: whole_int)
  next
    case False
    from round_half [OF x(1) this] have h: "?i + ?j = int n + 1" "of_int ?i = x0 + 1 / 2" "of_int ?j = x1 + 1 / 2" by blast+
    have d: "real n - of_int ?i - of_int ?j = - 1"
    proof -
      have "real n = x0 + x1" using x(1) by simp
      then show ?thesis using h(2,3) by linarith
    qed
    have "0 < ?i" "0 < ?j" using h(2,3) x(2,3) by linarith+
    then have "whole (of_int ?i - 1)" "whole (of_int ?j - 1)"
      using whole_int [of "?i - 1"] whole_int [of "?j - 1"] by auto
    moreover have "whole (of_int ?i)" "whole (of_int ?j)" using nn by (simp_all add: whole_int)
    moreover have "c0 = of_int ?i \<and> c1 = of_int ?j - 1 \<or> c0 = of_int ?i - 1 \<and> c1 = of_int ?j"
      unfolding c d by simp
    ultimately show ?thesis using h(2,3) by (elim disjE conjE) (simp_all only:, auto)
  qed
  then show "whole c0" "whole c1" "\<bar>c0 - f * b_c b\<bar> \<le> 1 / 2" "\<bar>c1 - (1 - f) * b_c b\<bar> \<le> 1 / 2"
    by (simp_all add: x0_def x1_def)
qed

subsection \<open>Cutting a chain\<close>

lemma cut_chain:
  assumes "chain s bins" "cut x bins = (L, R)"
  shows "csum L + csum R = csum bins" "chain s L" "chain (chain_end s L) R"
    "L = [] \<or> chain_end s L \<le> x" "R = [] \<or> x \<le> chain_end s L"
    "chain_end s (L @ R) = chain_end s bins"
proof -
  have "csum L + csum R = csum bins \<and> chain s L \<and> chain (chain_end s L) R \<and>
    (L = [] \<or> chain_end s L \<le> x) \<and> (R = [] \<or> x \<le> chain_end s L) \<and>
    chain_end s (L @ R) = chain_end s bins"
    using assms
  proof (induction bins arbitrary: s L R)
    case (Cons b bs)
    show ?case
    proof (cases "x \<le> b_l b")
      case True
      then show ?thesis using Cons.prems by auto
    next
      case nl: False
      show ?thesis
      proof (cases "x < b_u b")
        case True
        obtain c0 c1 where c: "split_counts x b = (c0, c1)" by fastforce
        have "c0 + c1 = b_c b" "whole c0" "whole c1"
          using split_counts_spec(1-3) [OF _ True _ c] nl Cons.prems(1) by auto
        then show ?thesis using nl True c Cons.prems by auto
      next
        case False
        obtain L' R' where cut: "cut x bs = (L', R')" by fastforce
        have "chain (b_u b) bs" using Cons.prems(1) by simp
        from Cons.IH [OF this cut] show ?thesis using nl False cut Cons.prems by auto
      qed
    qed
  qed simp
  then show "csum L + csum R = csum bins" "chain s L" "chain (chain_end s L) R"
    "L = [] \<or> chain_end s L \<le> x" "R = [] \<or> x \<le> chain_end s L"
    "chain_end s (L @ R) = chain_end s bins" by blast+
qed

lemma cut_append:
  assumes "chain s L" "L = [] \<or> chain_end s L \<le> x" "R = [] \<or> x \<le> b_l (hd R)"
  shows "cut x (L @ R) = (L, R)"
  using assms
proof (induction L arbitrary: s)
  case Nil
  then show ?case by (cases R) auto
next
  case (Cons b L)
  have "b_u b \<le> chain_end (b_u b) L" by (rule chain_end_le) (use Cons.prems(1) in simp)
  then have "\<not> x \<le> b_l b" "\<not> x < b_u b" using Cons.prems by auto
  moreover have "cut x (L @ R) = (L, R)"
    by (rule Cons.IH [of "b_u b"]) (use Cons.prems in auto)
  ultimately show ?case by simp
qed

lemma cut_low: "chain s bins \<Longrightarrow> x \<le> s \<Longrightarrow> cut x bins = ([], bins)"
  by (cases bins) auto

lemma cut_high: "chain s bins \<Longrightarrow> chain_end s bins \<le> x \<Longrightarrow> cut x bins = (bins, [])"
  using cut_append [of s bins x "[]"] by simp

lemma search_above: "chain s bins \<Longrightarrow> chain_end s bins < v \<Longrightarrow> search v bins k = Inr None"
proof (induction bins arbitrary: s k)
  case (Cons b bs)
  have "b_u b \<le> chain_end (b_u b) bs" by (rule chain_end_le) (use Cons.prems in simp)
  then show ?case using Cons.IH [of "b_u b" "Suc k"] Cons.prems by simp
qed simp

text \<open>The bin of a point inside the chain, and the split there.\<close>

lemma search_split:
  assumes "chain s bins" "s < v" "v \<le> chain_end s bins" "cut v bins = (L, R)" "bins \<noteq> []"
  shows "\<exists>i. search v bins k = Inr (Some (k + i)) \<and> length L = Suc i \<and> i < length bins \<and>
    (\<forall>pre. split (length pre + i) v (pre @ bins) = Inr ((length pre + i, Suc (length pre + i)), pre @ L @ R)) \<and>
    b_l (bins ! i) < v \<and> (\<forall>j < i. b_u (bins ! j) < v)"
  using assms
proof (induction bins arbitrary: s k L R)
  case (Cons b bs)
  have b: "b_l b = s" "s < b_u b" "chain (b_u b) bs" "whole (b_c b)" using Cons.prems(1) by auto
  consider "v < b_u b" | "v = b_u b" | "b_u b < v" by linarith
  then show ?case
  proof cases
    case 1
    obtain c0 c1 where c: "split_counts v b = (c0, c1)" by fastforce
    have "\<forall>pre. split (length pre) v (pre @ b # bs) = Inr ((length pre, Suc (length pre)), pre @ L @ R)"
      using 1 b Cons.prems(2,4) c
      by (auto simp: split_def insertRight_def nth_append list_update_append split: if_splits)
    then show ?thesis using 1 b Cons.prems(2,4) c by (auto intro!: exI [of _ 0])
  next
    case 2
    have "cut v bs = ([], bs)" using cut_low [OF b(3)] 2 by simp
    then show ?thesis using 2 b Cons.prems(2,4)
      by (auto intro!: exI [of _ 0] simp: split_def nth_append split: if_splits)
  next
    case 3
    obtain L' R' where c: "cut v bs = (L', R')" by fastforce
    have lr: "L = b # L'" "R = R'" using 3 b c Cons.prems(4) by auto
    have ne: "bs \<noteq> []" "v \<le> chain_end (b_u b) bs" using 3 Cons.prems(3) by auto
    from Cons.IH [OF b(3) 3 ne(2) c ne(1), of "Suc k"] obtain i where
      i: "search v bs (Suc k) = Inr (Some (Suc k + i))" "length L' = Suc i" "i < length bs"
        "\<forall>pre. split (length pre + i) v (pre @ bs) = Inr ((length pre + i, Suc (length pre + i)), pre @ L' @ R')"
        "b_l (bs ! i) < v" "\<forall>j < i. b_u (bs ! j) < v" by blast
    have "split (length pre + Suc i) v (pre @ b # bs) =
      Inr ((length pre + Suc i, Suc (length pre + Suc i)), pre @ L @ R)" for pre
      using i(4) [rule_format, of "pre @ [b]"] lr by simp
    then show ?thesis using i 3 b lr
      by (intro exI [of _ "Suc i"]) (auto simp: nth_Cons split: nat.splits)
  qed
qed simp

lemma cut_skip:
  assumes "chain s (L @ bins)" "L = [] \<or> chain_end s L \<le> x"
  shows "cut x (L @ bins) = (L @ fst (cut x bins), snd (cut x bins))"
  using assms
proof (induction L arbitrary: s)
  case (Cons b L)
  have "b_u b \<le> chain_end (b_u b) L" by (rule chain_end_le) (use Cons.prems(1) in simp)
  then have "\<not> x \<le> b_l b" "\<not> x < b_u b" using Cons.prems by auto
  moreover have "cut x (L @ bins) = (L @ fst (cut x bins), snd (cut x bins))"
    by (rule Cons.IH [of "b_u b"]) (use Cons.prems in auto)
  ultimately show ?case by simp
qed simp

subsection \<open>Extracting a range\<close>

definition zeroed :: "vbin list \<Rightarrow> vbin list" where
  "zeroed = map (\<lambda>b. b\<lparr>b_c := 0\<rparr>)"

lemma zeroed_simps [simp]: "zeroed [] = []" "zeroed (b # bs) = b\<lparr>b_c := 0\<rparr> # zeroed bs"
  "zeroed xs = [] \<longleftrightarrow> xs = []" "length (zeroed xs) = length xs" "csum (zeroed xs) = 0"
  by (simp_all add: zeroed_def csum_def comp_def)

lemma zeroed_chain: "chain s xs \<Longrightarrow> chain s (zeroed xs)" "chain_end s (zeroed xs) = chain_end s xs"
  by (induction xs arbitrary: s) auto

lemma zero_bins_append:
  assumes "B \<noteq> []"
  shows "zero_bins (length A) (length A + length B - 1) (A @ B @ C) = (csum B, A @ zeroed B @ C)"
proof -
  have f: "foldl (\<lambda>out b. out + b_c b) a xs = a + csum xs" for a xs
    by (induction xs arbitrary: a) (simp_all add: algebra_simps)
  have "Suc (length A + length B - 1) = length A + length B" using assms by (cases B) auto
  then show ?thesis by (simp add: zero_bins_def f zeroed_def)
qed

text \<open>A position from which the search for a point may start.\<close>

definition from_ok :: "nat \<Rightarrow> real \<Rightarrow> vbin list \<Rightarrow> bool" where
  "from_ok from l bins \<longleftrightarrow> from = 0 \<or> from < length bins \<and> b_l (bins ! from) < l"

lemma chain_nth: "chain s (xs @ b # ys) \<Longrightarrow> b_l b = chain_end s xs"
  by simp

lemma getBin_from_split:
  assumes ch: "chain s bins" "bins \<noteq> []" and ok: "from_ok from l bins" and cut: "cut l bins = (A, R)"
  shows "l \<le> s \<and> getBin_from from l bins = Inr None \<or>
    chain_end s bins < l \<and> getBin_from from l bins = Inr None \<or>
    s < l \<and> l \<le> chain_end s bins \<and> (\<exists>i. getBin_from from l bins = Inr (Some i) \<and>
      split i l bins = Inr ((i, Suc i), A @ R) \<and> Suc i = length A)"
proof -
  define pre where "pre = take from bins"
  define post where "post = drop from bins"
  have app: "bins = pre @ post" by (simp add: pre_def post_def)
  have fr: "from < length bins" using ok ch(2) by (auto simp: from_ok_def)
  then have len: "length pre = from" "post \<noteq> []" "bins ! from = hd post"
    by (auto simp: pre_def post_def hd_drop_conv_nth)
  have chs: "chain s pre" "chain (chain_end s pre) post" using ch(1) app by simp_all
  have hd: "b_l (hd post) = chain_end s pre" using chs(2) len(2) by (cases post) auto
  have le: "s \<le> chain_end s pre" by (rule chain_end_le [OF chs(1)])
  have okl: "from = 0 \<or> chain_end s pre < l" using ok hd len by (auto simp: from_ok_def)
  have e: "chain_end s bins = chain_end (chain_end s pre) post" using app by simp
  show ?thesis
  proof (cases "l \<le> chain_end s pre")
    case True
    then have "from = 0" using okl by simp
    then have "pre = []" by (simp add: pre_def)
    then show ?thesis using True hd fr len by (simp add: getBin_from_def)
  next
    case above: False
    have g: "getBin_from from l bins = search l post from"
      using above hd fr len by (simp add: getBin_from_def post_def)
    show ?thesis
    proof (cases "l \<le> chain_end s bins")
      case True
      obtain L' R' where c: "cut l post = (L', R')" by fastforce
      have "cut l bins = (pre @ L', R')"
        using cut_skip [of s pre post l] ch(1) above c unfolding app by auto
      then have ar: "A = pre @ L'" "R = R'" using cut by auto
      obtain i where i: "search l post from = Inr (Some (from + i))" "length L' = Suc i"
        "\<forall>pre. split (length pre + i) l (pre @ post) = Inr ((length pre + i, Suc (length pre + i)), pre @ L' @ R')"
        using search_split [OF chs(2) _ _ c len(2), of "from"] above True e by auto
      have "split (from + i) l bins = Inr ((from + i, Suc (from + i)), A @ R)"
        using i(3) len(1) ar app by auto
      then show ?thesis using g i ar above le True len(1) by (intro disjI2 conjI exI [of _ "from + i"]) auto
    next
      case False
      then show ?thesis using g search_above [OF chs(2), of l "from"] e by auto
    qed
  qed
qed

lemma extract_range_ok:
  assumes ch: "chain s bins" "bins \<noteq> []" and lu: "l < u" and ok: "from_ok from l bins"
    and cut: "cut l bins = (A, R)" "cut u R = (B, C)"
  shows "extract_range l u from bins = Inr (
    if R = [] then (Beyond, A @ R) else if B = [] then (Before, A @ R)
    else (Count (csum B) (length A + length B - 1), A @ zeroed B @ C))"
proof -
  note c1 = cut_chain [OF ch(1) cut(1)]
  have hd0: "b_l (bins ! 0) = s" "b_u (last bins) = chain_end s bins"
    using ch by (cases bins; simp add: chain_end_def)+
  have lower: "bind (getBin_from from l bins) (\<lambda>lb.
    bind (case lb of
        Some i \<Rightarrow> bind (split i l bins) (\<lambda>((_, r), bins').
          Inr (if r \<ge> length bins' then None else Some r, bins'))
      | None \<Rightarrow> if l \<le> b_l (bins ! 0) then Inr (Some 0, bins)
          else if l > b_u (last bins) then Inr (None, bins)
          else Inl AssertFailed) f) = f (if R = [] then None else Some (length A), A @ R)" for f :: "_ \<Rightarrow> (extracted \<times> vbin list) res"
    using getBin_from_split [OF ch ok cut(1)]
  proof (elim disjE conjE exE)
    assume "l \<le> s" "getBin_from from l bins = Inr None"
    then show ?thesis using cut_low [OF ch(1), of l] cut(1) hd0 ch(2) by auto
  next
    assume "chain_end s bins < l" "getBin_from from l bins = Inr None"
    then show ?thesis using cut_high [OF ch(1), of l] cut(1) hd0 chain_end_le [OF ch(1)] by auto
  next
    fix i assume "getBin_from from l bins = Inr (Some i)" "split i l bins = Inr ((i, Suc i), A @ R)" "Suc i = length A"
    then show ?thesis by (auto simp: length_0_conv [symmetric] simp del: length_0_conv)
  qed
  show ?thesis
  proof (cases "R = []")
    case True
    then show ?thesis unfolding extract_range_def lower by simp
  next
    case False
    define sR where "sR = chain_end s A"
    have hdR: "b_l (hd R) = sR" using c1(3) False by (cases R) (auto simp: sR_def)
    have ok': "from_ok 0 u R" by (simp add: from_ok_def)
    have shift: "getBin_from (length A) u (A @ R) =
      (if u \<le> sR then Inr None else search u R (length A))"
      using False hdR by (cases R) (auto simp: getBin_from_def nth_append)
    have lastR: "b_u (last (A @ R)) = chain_end sR R" using False by (simp add: chain_end_def)
    have sle: "s \<le> sR" unfolding sR_def by (rule chain_end_le [OF c1(2)])
    have hdAR: "b_l ((A @ R) ! 0) = s" using c1(2) hdR False by (cases A; cases R) (auto simp: sR_def)
    show ?thesis
    proof (cases "u \<le> sR")
      case True
      then have A: "A = []" using c1(4) lu by (auto simp: sR_def)
      have "cut u R = ([], R)" using True cut_low [OF c1(3)] by (simp add: sR_def)
      then have "B = []" using cut(2) by simp
      then show ?thesis using False True shift hdAR A by (simp add: extract_range_def lower sR_def)
    next
      case above: False
      show ?thesis
      proof (cases "u \<le> chain_end sR R")
        case True
        obtain i where i: "search u R (length A) = Inr (Some (length A + i))" "length B = Suc i"
          "\<forall>pre. split (length pre + i) u (pre @ R) = Inr ((length pre + i, Suc (length pre + i)), pre @ B @ C)"
          using search_split [OF c1(3) _ _ cut(2) False, of "length A"] above True by (auto simp: sR_def)
        then have "B \<noteq> []" "length A + length B - 1 = length A + i" by auto
        then show ?thesis using False above shift i zero_bins_append [of B A C]
          by (simp add: extract_range_def lower Let_def)
      next
        case high: False
        have "search u R (length A) = Inr None" using search_above [OF c1(3)] high by (simp add: sR_def)
        moreover have "B = R" "C = []" using cut_high [OF c1(3), of u] high cut(2) by (auto simp: sR_def)
        ultimately show ?thesis
          using False above shift high lastR hdAR sle zero_bins_append [of R A "[]"]
          by (simp add: extract_range_def lower Let_def)
      qed
    qed
  qed
qed

end
