(* ===== verification/HistogramConserve.thy ===== *)
theory HistogramConserve
  imports HistogramMerge
begin

text \<open>
  Successive ranges: no count is lost by the extraction, the array operation is the single
  one applied range by range, and merging two histograms keeps their total up to what lies
  below the first edge of the result.
\<close>

fun edges_ok :: "real option \<Rightarrow> (real \<times> real) list \<Rightarrow> bool" where
  "edges_ok p [] \<longleftrightarrow> True"
| "edges_ok p ((l, u) # es) \<longleftrightarrow> l < u \<and> (case p of None \<Rightarrow> True | Some x \<Rightarrow> x \<le> l) \<and> edges_ok (Some u) es"

fun contiguous :: "(real \<times> real) list \<Rightarrow> bool" where
  "contiguous [] \<longleftrightarrow> True"
| "contiguous ((l, u) # es) \<longleftrightarrow> (es \<noteq> [] \<longrightarrow> fst (hd es) = u) \<and> contiguous es"

lemma cut_Nil: "cut x bins = ([], R) \<Longrightarrow> R = bins"
  by (cases bins) (auto split: if_splits prod.splits)

lemma cut_Nil_right: "chain s bins \<Longrightarrow> cut x bins = (L, []) \<Longrightarrow> L = bins"
  by (induction bins arbitrary: s L) (auto split: if_splits prod.splits)

lemma extract_state:
  assumes ch: "chain s bins" "bins \<noteq> []" and cut: "cut l bins = (A, R)" "cut u R = (B, C)"
  shows "chain s (A @ zeroed B @ C)" "chain_end s (A @ zeroed B @ C) = chain_end s bins"
    "csum bins = csum A + csum B + csum C" "whole (csum B)"
    "B = [] \<or> cut u (A @ zeroed B @ C) = (A @ zeroed B, C)"
    "B \<noteq> [] \<Longrightarrow> from_ok (length A + length B - 1) u (A @ zeroed B @ C)"
proof -
  note c1 = cut_chain [OF ch(1) cut(1)]
  note c2 = cut_chain [OF c1(3) cut(2)]
  show "chain s (A @ zeroed B @ C)" using c1 c2 by (simp add: zeroed_chain)
  then have chs: "chain s ((A @ zeroed B) @ C)" by simp
  show "chain_end s (A @ zeroed B @ C) = chain_end s bins" using c1(6) c2(6) by (simp add: zeroed_chain)
  show "csum bins = csum A + csum B + csum C" using c1(1) c2(1) by simp
  show "whole (csum B)" using whole_csum [OF c2(2)] .
  have e: "chain_end s (A @ zeroed B) = chain_end (chain_end s A) B" by (simp add: zeroed_chain)
  show "B = [] \<or> cut u (A @ zeroed B @ C) = (A @ zeroed B, C)"
  proof (cases "B = []")
    case False
    have "chain s (A @ zeroed B)" using chs by simp
    moreover have "chain_end s (A @ zeroed B) \<le> u" using c2(4) False e by simp
    moreover have "C = [] \<or> u \<le> b_l (hd C)" using c2(3,5) False by (cases C) auto
    ultimately show ?thesis using cut_append [of s "A @ zeroed B" u C] by simp
  qed simp
  assume "B \<noteq> []"
  then obtain B' b where B: "B = B' @ [b]" by (meson rev_exhaust)
  then show "from_ok (length A + length B - 1) u (A @ zeroed B @ C)"
    using c2(2,4) by (auto simp: from_ok_def nth_append zeroed_def)
qed

lemma ranges_loop_ok:
  assumes "chain s bins" "bins \<noteq> []" "edges_ok prev es" "es \<noteq> [] \<longrightarrow> from_ok fr (fst (hd es)) bins"
  shows "\<exists>out bins'. ranges_loop prev fr es bins = Inr (out, bins') \<and> chain s bins' \<and> bins' \<noteq> [] \<and>
    chain_end s bins' = chain_end s bins \<and> length out = length es \<and> (\<forall>c \<in> set out. whole c) \<and>
    sum_list out + csum bins' = csum bins \<and>
    (contiguous es \<and> es \<noteq> [] \<and> chain_end s bins \<le> snd (last es) \<longrightarrow>
      csum bins' = csum (fst (cut (fst (hd es)) bins)))"
  using assms
proof (induction es arbitrary: prev fr bins)
  case (Cons e es)
  obtain l u where e: "e = (l, u)" by (cases e)
  obtain A R where c1: "cut l bins = (A, R)" by fastforce
  obtain B C where c2: "cut u R = (B, C)" by fastforce
  note ch = Cons.prems(1,2)
  have lu: "l < u" and guards: "\<not> u \<le> l" "\<not> (case prev of None \<Rightarrow> False | Some p \<Rightarrow> l < p)"
    and rest: "edges_ok (Some u) es" using Cons.prems(3) e by (auto split: option.splits)
  have fr: "from_ok fr l bins" using Cons.prems(4) e by simp
  note x = extract_range_ok [OF ch lu fr c1 c2]
  note k1 = cut_chain [OF ch(1) c1] and st = extract_state [OF ch c1 c2]
  have next_ge: "es \<noteq> [] \<Longrightarrow> u \<le> fst (hd es)" using rest by (cases es) auto
  show ?case
  proof (cases "R = []")
    case True
    have "A = bins" using cut_Nil_right [OF ch(1)] c1 True by simp
    then show ?thesis using x True guards ch e c1 by (simp add: sum_list_0 flip: replicate_length_same)
  next
    case R: False
    show ?thesis
    proof (cases "B = []")
      case True
      have le: "u \<le> chain_end s A"
        using cut_chain(5) [OF k1(3) c2] c2 cut_Nil [of u R C] True R by auto
      then have A: "A = []" using k1(4) lu by auto
      then have bins: "A @ R = bins" using cut_Nil [of l bins R] c1 by simp
      have cu: "cut u bins = ([], bins)" using cut_low [OF ch(1)] le A by simp
      have "es \<noteq> [] \<longrightarrow> from_ok fr (fst (hd es)) bins" using fr next_ge lu by (auto simp: from_ok_def)
      from Cons.IH [OF ch rest this] obtain out bins' where
        i: "ranges_loop (Some u) fr es bins = Inr (out, bins')" "chain s bins'" "bins' \<noteq> []"
          "chain_end s bins' = chain_end s bins" "length out = length es" "\<forall>c \<in> set out. whole c"
          "sum_list out + csum bins' = csum bins"
          "contiguous es \<and> es \<noteq> [] \<and> chain_end s bins \<le> snd (last es) \<longrightarrow>
            csum bins' = csum (fst (cut (fst (hd es)) bins))" by blast
      have "chain_end s bins \<le> u \<Longrightarrow> False" using chain_end_less [OF ch] le A by simp
      then have "contiguous (e # es) \<and> chain_end s bins \<le> snd (last (e # es)) \<longrightarrow>
          csum bins' = csum (fst (cut (fst (hd (e # es))) bins))"
        using i(8) cu c1 A e by auto
      then show ?thesis using x R True guards bins i e by simp
    next
      case B: False
      let ?b = "A @ zeroed B @ C"
      have ne: "?b \<noteq> []" using B by simp
      have "es \<noteq> [] \<longrightarrow> from_ok (length A + length B - 1) (fst (hd es)) ?b"
        using st(6) [OF B] next_ge by (auto simp: from_ok_def)
      from Cons.IH [OF st(1) ne rest this] obtain out bins' where
        i: "ranges_loop (Some u) (length A + length B - 1) es ?b = Inr (out, bins')" "chain s bins'" "bins' \<noteq> []"
          "chain_end s bins' = chain_end s ?b" "length out = length es" "\<forall>c \<in> set out. whole c"
          "sum_list out + csum bins' = csum ?b"
          "contiguous es \<and> es \<noteq> [] \<and> chain_end s ?b \<le> snd (last es) \<longrightarrow>
            csum bins' = csum (fst (cut (fst (hd es)) ?b))" by blast
      have "contiguous (e # es) \<and> chain_end s bins \<le> snd (last (e # es)) \<longrightarrow>
          csum bins' = csum (fst (cut (fst (hd (e # es))) bins))"
      proof (cases "es = []")
        case True
        have "chain_end s bins \<le> u \<Longrightarrow> C = []"
          using cut_high [OF k1(3), of u] k1(6) c2 by simp
        then show ?thesis using True i(1) c1 e by auto
      next
        case False
        then show ?thesis using i(8) st(2,5) B c1 e by auto
      qed
      then show ?thesis using x R B guards i st e by (auto simp: algebra_simps)
    qed
  qed
qed auto

subsection \<open>The extraction operations\<close>

definition chain_ok :: "vbw \<Rightarrow> bool" where
  "chain_ok h \<longleftrightarrow> v_bins h \<noteq> [] \<and> chain (b_l (hd (v_bins h))) (v_bins h) \<and>
     (v_max h = v_min h \<longrightarrow> b_l (hd (v_bins h)) < v_max h \<and> v_max h \<le> b_u (last (v_bins h)))"

lemma totalCount_vbw_csum: "totalCount_vbw h = csum (v_bins h)"
proof -
  have "foldl (\<lambda>out b. out + b_c b) a xs = a + csum xs" for a xs
    by (induction xs arbitrary: a) (simp_all add: algebra_simps)
  then show ?thesis by (simp add: totalCount_vbw_def)
qed

lemma delta_loop_ok:
  "edges_ok prev es \<Longrightarrow> \<exists>hit. delta_loop v c k es = Inr hit \<and>
    (case hit of None \<Rightarrow> \<forall>(l, u) \<in> set es. \<not> (l < v \<and> v \<le> u)
     | Some (i, c') \<Rightarrow> k \<le> i \<and> i < k + length es \<and> c' = c)"
proof (induction es arbitrary: prev k)
  case (Cons e es)
  obtain l u where e: "e = (l, u)" by (cases e)
  show ?case
  proof (cases "l < v \<and> v \<le> u")
    case True
    then show ?thesis using Cons.prems e by (auto split: option.splits)
  next
    case False
    obtain hit where h: "delta_loop v c (Suc k) es = Inr hit"
      "case hit of None \<Rightarrow> \<forall>(l, u) \<in> set es. \<not> (l < v \<and> v \<le> u)
       | Some (i, c') \<Rightarrow> Suc k \<le> i \<and> i < Suc k + length es \<and> c' = c"
      using Cons.IH [of "Some u" "Suc k"] Cons.prems e by auto
    then have "delta_loop v c k (e # es) = Inr hit" using False Cons.prems e by auto
    then show ?thesis using h(2) False e by (auto split: option.splits)
  qed
qed auto

lemma csum_zero_at:
  "i < length bins \<Longrightarrow> csum (bins[i := (bins ! i)\<lparr>b_c := 0\<rparr>]) = csum bins - b_c (bins ! i)"
proof (induction bins arbitrary: i)
  case (Cons b bs)
  then show ?case by (cases i) auto
qed simp

lemma chain_zero_at:
  "chain s bins \<Longrightarrow> chain s (bins[i := (bins ! i)\<lparr>b_c := 0\<rparr>]) \<and>
   chain_end s (bins[i := (bins ! i)\<lparr>b_c := 0\<rparr>]) = chain_end s bins"
proof (induction bins arbitrary: s i)
  case (Cons b bs)
  then show ?case by (cases i) auto
qed simp

lemma chain_whole: "chain s bins \<Longrightarrow> i < length bins \<Longrightarrow> whole (b_c (bins ! i))"
proof (induction bins arbitrary: s i)
  case (Cons b bs)
  then show ?case by (cases i) auto
qed simp

text \<open>The bin that holds the only value of a data set.\<close>

lemma delta_bin:
  assumes "chain s bins" "bins \<noteq> []" "s < v" "v \<le> chain_end s bins"
  obtains i where "getBin_from 0 v bins = Inr (Some i)" "i < length bins"
proof -
  obtain L R where c: "cut v bins = (L, R)" by fastforce
  have "b_l (bins ! 0) = s" using assms(1,2) by (cases bins) auto
  then have "getBin_from 0 v bins = search v bins 0" using assms(2,3) by (simp add: getBin_from_def)
  then show ?thesis using search_split [OF assms(1,3,4) c assms(2), of 0] that by auto
qed

lemma sum_list_add_at:
  "i < length xs \<Longrightarrow> sum_list (xs[i := xs ! i + c]) = sum_list xs + (c :: real)"
proof (induction xs arbitrary: i)
  case (Cons x xs)
  then show ?case by (cases i) auto
qed simp

lemma extract_ranges_ok:
  assumes "chain s (v_bins h)" "v_bins h \<noteq> []" "edges_ok None edges" "edges \<noteq> []"
    and "v_max h = v_min h \<longrightarrow> s < v_max h \<and> v_max h \<le> chain_end s (v_bins h)"
  shows "\<exists>out h' hit bins0. extractUniformCountInRangesInt edges h = Inr (out, h') \<and>
    length out = length edges \<and> (\<forall>c \<in> set out. whole c) \<and>
    sum_list out + csum (v_bins h') = csum (v_bins h) \<and> chain s (v_bins h') \<and> v_bins h' \<noteq> [] \<and>
    chain_end s (v_bins h') = chain_end s (v_bins h) \<and> v_min h' = v_min h \<and> v_max h' = v_max h \<and>
    (contiguous edges \<and> chain_end s (v_bins h) \<le> snd (last edges) \<longrightarrow>
      csum (v_bins h') = csum (fst (cut (fst (hd edges)) bins0))) \<and>
    (if v_max h = v_min h \<and> hit
     then \<exists>i < length (v_bins h). getBin_from 0 (v_max h) (v_bins h) = Inr (Some i) \<and>
       bins0 = (v_bins h)[i := (v_bins h ! i)\<lparr>b_c := 0\<rparr>]
     else bins0 = v_bins h) \<and>
    (v_max h = v_min h \<and> \<not> hit \<longrightarrow> (\<forall>(l, u) \<in> set edges. \<not> (l < v_max h \<and> v_max h \<le> u)))"
proof -
  have run: "\<exists>out bins'. ranges_loop None 0 edges bins0 = Inr (out, bins') \<and> chain s bins' \<and> bins' \<noteq> [] \<and>
    chain_end s bins' = chain_end s bins0 \<and> length out = length edges \<and> (\<forall>c \<in> set out. whole c) \<and>
    sum_list out + csum bins' = csum bins0 \<and>
    (contiguous edges \<and> chain_end s bins0 \<le> snd (last edges) \<longrightarrow>
      csum bins' = csum (fst (cut (fst (hd edges)) bins0)))"
    if "chain s bins0" "bins0 \<noteq> []" for bins0
    using ranges_loop_ok [OF that assms(3), of 0] assms(4) by (simp add: from_ok_def)
  show ?thesis
  proof (cases "v_max h = v_min h")
    case False
    obtain out bins' where "ranges_loop None 0 edges (v_bins h) = Inr (out, bins')" "chain s bins'" "bins' \<noteq> []"
      "chain_end s bins' = chain_end s (v_bins h)" "length out = length edges" "\<forall>c \<in> set out. whole c"
      "sum_list out + csum bins' = csum (v_bins h)"
      "contiguous edges \<and> chain_end s (v_bins h) \<le> snd (last edges) \<longrightarrow>
        csum bins' = csum (fst (cut (fst (hd edges)) (v_bins h)))"
      using run [OF assms(1,2)] by blast
    then show ?thesis using False assms(2,4) unfolding extractUniformCountInRangesInt_def
      by (intro exI [of _ out] exI [of _ "h\<lparr>v_bins := bins'\<rparr>"] exI [of _ False] exI [of _ "v_bins h"]) simp
  next
    case d: True
    obtain i where i: "getBin_from 0 (v_max h) (v_bins h) = Inr (Some i)" "i < length (v_bins h)"
      using delta_bin [OF assms(1,2)] assms(5) d by blast
    define c where "c = b_c (v_bins h ! i)"
    define z where "z = (v_bins h)[i := (v_bins h ! i)\<lparr>b_c := 0\<rparr>]"
    obtain hit where hit: "delta_loop (v_max h) c 0 edges = Inr hit"
      "case hit of None \<Rightarrow> \<forall>(l, u) \<in> set edges. \<not> (l < v_max h \<and> v_max h \<le> u)
       | Some (i, c') \<Rightarrow> 0 \<le> i \<and> i < 0 + length edges \<and> c' = c"
      using delta_loop_ok [OF assms(3), of "v_max h" c 0] by blast
    show ?thesis
    proof (cases hit)
      case None
      obtain out bins' where "ranges_loop None 0 edges (v_bins h) = Inr (out, bins')" "chain s bins'" "bins' \<noteq> []"
        "chain_end s bins' = chain_end s (v_bins h)" "length out = length edges" "\<forall>c \<in> set out. whole c"
        "sum_list out + csum bins' = csum (v_bins h)"
        "contiguous edges \<and> chain_end s (v_bins h) \<le> snd (last edges) \<longrightarrow>
          csum bins' = csum (fst (cut (fst (hd edges)) (v_bins h)))"
        using run [OF assms(1,2)] by blast
      then show ?thesis using d assms(2,4) i hit None c_def unfolding extractUniformCountInRangesInt_def
        by (intro exI [of _ out] exI [of _ "h\<lparr>v_bins := bins'\<rparr>"] exI [of _ False] exI [of _ "v_bins h"]) simp
    next
      case (Some p)
      obtain idx where p: "hit = Some (idx, c)" "idx < length edges" using hit(2) Some by (cases p) auto
      have z: "chain s z" "z \<noteq> []" "chain_end s z = chain_end s (v_bins h)" "csum z = csum (v_bins h) - c"
        using chain_zero_at [OF assms(1)] assms(2) csum_zero_at [OF i(2)] by (simp_all add: z_def c_def)
      obtain out bins' where o: "ranges_loop None 0 edges z = Inr (out, bins')" "chain s bins'" "bins' \<noteq> []"
        "chain_end s bins' = chain_end s z" "length out = length edges" "\<forall>c \<in> set out. whole c"
        "sum_list out + csum bins' = csum z"
        "contiguous edges \<and> chain_end s z \<le> snd (last edges) \<longrightarrow>
          csum bins' = csum (fst (cut (fst (hd edges)) z))"
        using run [OF z(1,2)] by blast
      have "whole c" using chain_whole [OF assms(1)] i(2) by (simp add: c_def)
      then have "whole (out ! idx + c)" using o(5,6) p(2) by simp
      then have "\<forall>c' \<in> set (out[idx := out ! idx + c]). whole c'"
        using o(6) set_update_subset_insert [of out idx "out ! idx + c"] by blast
      moreover have "sum_list (out[idx := out ! idx + c]) = sum_list out + c"
        using sum_list_add_at [of idx out c] o(5) p(2) by simp
      ultimately show ?thesis using d assms(2,4) i hit p o z unfolding extractUniformCountInRangesInt_def
        by (intro exI [of _ "out[idx := out ! idx + c]"] exI [of _ "h\<lparr>v_bins := bins'\<rparr>"] exI [of _ True] exI [of _ z])
          (auto simp: c_def [symmetric] z_def [symmetric] Let_def)
    qed
  qed
qed

text \<open>
  C38. Extracting the counts of an ordered list of ranges never fails, returns a whole
  number for every range, leaves a well-formed chain, and loses nothing: what it returns and
  what stays in the histogram add up to what was there. When the ranges are contiguous and
  reach the end of the histogram, all that stays lies below the first range.
\<close>

theorem extract_ranges_conserves:
  assumes "chain_ok h" "edges_ok None edges" "edges \<noteq> []"
  shows "\<exists>out h'. extractUniformCountInRangesInt edges h = Inr (out, h') \<and>
    length out = length edges \<and> (\<forall>c \<in> set out. whole c) \<and> chain_ok h' \<and>
    sum_list out + totalCount_vbw h' = totalCount_vbw h \<and>
    (contiguous edges \<and> b_u (last (v_bins h)) \<le> snd (last edges) \<and> fst (hd edges) \<le> b_l (hd (v_bins h)) \<longrightarrow>
      totalCount_vbw h' = 0)"
proof -
  define s where "s = b_l (hd (v_bins h))"
  have h: "v_bins h \<noteq> []" "chain s (v_bins h)"
    "v_max h = v_min h \<longrightarrow> s < v_max h \<and> v_max h \<le> chain_end s (v_bins h)"
    using assms(1) by (simp_all add: chain_ok_def s_def chain_end_def)
  obtain out h' hit bins0 where r: "extractUniformCountInRangesInt edges h = Inr (out, h')"
    "length out = length edges" "\<forall>c \<in> set out. whole c" "sum_list out + csum (v_bins h') = csum (v_bins h)"
    "chain s (v_bins h')" "v_bins h' \<noteq> []" "chain_end s (v_bins h') = chain_end s (v_bins h)"
    "v_min h' = v_min h" "v_max h' = v_max h"
    "contiguous edges \<and> chain_end s (v_bins h) \<le> snd (last edges) \<longrightarrow>
      csum (v_bins h') = csum (fst (cut (fst (hd edges)) bins0))"
    "if v_max h = v_min h \<and> hit
     then \<exists>i < length (v_bins h). getBin_from 0 (v_max h) (v_bins h) = Inr (Some i) \<and>
       bins0 = (v_bins h)[i := (v_bins h ! i)\<lparr>b_c := 0\<rparr>]
     else bins0 = v_bins h"
    using extract_ranges_ok [OF h(2,1) assms(2,3) h(3)] by (elim exE conjE) (rule that)
  have "chain s bins0" using r(11) h(2) chain_zero_at [OF h(2)] by (auto split: if_splits)
  then have "fst (hd edges) \<le> s \<Longrightarrow> csum (fst (cut (fst (hd edges)) bins0)) = 0" by (simp add: cut_low)
  moreover have "b_l (hd (v_bins h')) = s" using r(5,6) by (cases "v_bins h'") auto
  ultimately show ?thesis using r h
    by (intro exI [of _ out] exI [of _ h'])
      (auto simp: totalCount_vbw_csum chain_ok_def chain_end_def s_def [symmetric])
qed

definition wit_vbw :: vbw where
  "wit_vbw = \<lparr>v_bins = [\<lparr>b_l = 0, b_u = 2, b_c = 5\<rparr>, \<lparr>b_l = 2, b_u = 4, b_c = 3\<rparr>], v_min = 1, v_max = 4\<rparr>"

lemma whole_numeral [simp]: "whole (numeral k)" "whole 1"
  using whole_simps(3) [of "numeral k"] whole_simps(3) [of 1] by simp_all

lemma chain_ok_wit: "chain_ok wit_vbw"
  by (simp add: chain_ok_def wit_vbw_def)

theorem extract_ranges_conserves_witness:
  "\<exists>out h'. extractUniformCountInRangesInt [(0, 1), (1, 4)] wit_vbw = Inr (out, h') \<and>
     sum_list out = 8 \<and> totalCount_vbw h' = 0"
proof -
  obtain out h' where "extractUniformCountInRangesInt [(0, 1), (1, 4)] wit_vbw = Inr (out, h')"
    "sum_list out + totalCount_vbw h' = totalCount_vbw wit_vbw"
    "contiguous [(0, 1), (1, 4)] \<and> b_u (last (v_bins wit_vbw)) \<le> snd (last [(0, 1), (1, 4)]) \<and>
      fst (hd [(0, 1), (1, 4)]) \<le> b_l (hd (v_bins wit_vbw)) \<longrightarrow> totalCount_vbw h' = 0"
    using extract_ranges_conserves [OF chain_ok_wit, of "[(0, 1), (1, 4)]"] by auto
  then show ?thesis by (simp add: wit_vbw_def totalCount_vbw_def)
qed

text \<open>One range after the other.\<close>

fun successive :: "(real \<times> real) list \<Rightarrow> vbw \<Rightarrow> (real list \<times> vbw) res" where
  "successive [] h = Inr ([], h)"
| "successive ((l, u) # es) h = bind (extractUniformCountInRangeInt l u h) (\<lambda>(c, h1).
     bind (successive es h1) (\<lambda>(cs, h2). Inr (c # cs, h2)))"

lemma ranges_loop_successive:
  assumes "chain s (v_bins h)" "v_bins h \<noteq> []" "v_max h \<noteq> v_min h" "edges_ok prev es"
    and "es \<noteq> [] \<longrightarrow> from_ok fr (fst (hd es)) (v_bins h)"
  shows "bind (ranges_loop prev fr es (v_bins h)) (\<lambda>(out, b). Inr (out, h\<lparr>v_bins := b\<rparr>)) = successive es h"
  using assms
proof (induction es arbitrary: prev fr h)
  case (Cons e es)
  obtain l u where e: "e = (l, u)" by (cases e)
  obtain A R where c1: "cut l (v_bins h) = (A, R)" by fastforce
  obtain B C where c2: "cut u R = (B, C)" by fastforce
  note ch = Cons.prems(1,2)
  have lu: "l < u" and guards: "\<not> u \<le> l" "\<not> (case prev of None \<Rightarrow> False | Some p \<Rightarrow> l < p)"
    and rest: "edges_ok (Some u) es" using Cons.prems(4) e by (auto split: option.splits)
  have fr: "from_ok fr l (v_bins h)" "from_ok 0 l (v_bins h)" using Cons.prems(5) e by (auto simp: from_ok_def)
  note x = extract_range_ok [OF ch lu _ c1 c2]
  note st = extract_state [OF ch c1 c2] and k1 = cut_chain [OF ch(1) c1]
  have next_ge: "es \<noteq> [] \<Longrightarrow> u \<le> fst (hd es)" using rest by (cases es) auto
  have step: "extractUniformCountInRangeInt l u h =
    bind (extract_range l u fr (v_bins h)) (\<lambda>(r, bins'). Inr (case r of Count c _ \<Rightarrow> c | _ \<Rightarrow> 0, h\<lparr>v_bins := bins'\<rparr>))"
    using guards ch Cons.prems(3) x [OF fr(1)] x [OF fr(2)] by (simp add: extractUniformCountInRangeInt_def)
  show ?case
  proof (cases "R = []")
    case True
    have A: "A = v_bins h" using cut_Nil_right [OF ch(1)] c1 True by simp
    have end_l: "chain_end s (v_bins h) \<le> l" using k1(4) A ch(2) by auto
    have "successive es h = Inr (map (\<lambda>_. 0) es, h)" if "edges_ok (Some y) es" "chain_end s (v_bins h) \<le> y" for y
      using that
    proof (induction es arbitrary: y)
      case (Cons e' es')
      obtain l' u' where e': "e' = (l', u')" by (cases e')
      have lu': "l' < u'" "chain_end s (v_bins h) \<le> l'" "edges_ok (Some u') es'" using Cons.prems e' by auto
      have c': "cut l' (v_bins h) = (v_bins h, [])" using cut_high [OF ch(1) lu'(2)] .
      have "extractUniformCountInRangeInt l' u' h = Inr (0, h)"
        using extract_range_ok [OF ch lu'(1) _ c', of 0 "[]" "[]"] lu' \<open>v_max h \<noteq> v_min h\<close> ch(2)
        by (simp add: extractUniformCountInRangeInt_def from_ok_def)
      then show ?case using Cons.IH [OF lu'(3)] lu' e' by simp
    qed simp
    from this [OF rest] show ?thesis using x [OF fr(1)] step guards True A e end_l lu by simp
  next
    case R: False
    show ?thesis
    proof (cases "B = []")
      case True
      have le: "u \<le> chain_end s A"
        using cut_chain(5) [OF k1(3) c2] c2 cut_Nil [of u R C] True R by auto
      then have A: "A = []" using k1(4) lu by auto
      then have bins: "A @ R = v_bins h" using cut_Nil [of l "v_bins h" R] c1 by simp
      have "es \<noteq> [] \<longrightarrow> from_ok fr (fst (hd es)) (v_bins h)" using fr next_ge lu by (auto simp: from_ok_def)
      note ih = Cons.IH [OF ch Cons.prems(3) rest this, symmetric]
      show ?thesis
        using x [OF fr(1)] step R True guards bins e ih by (cases "ranges_loop (Some u) fr es (v_bins h)") auto
    next
      case B: False
      let ?b = "A @ zeroed B @ C" and ?k = "length A + length B - 1"
      have "es \<noteq> [] \<longrightarrow> from_ok ?k (fst (hd es)) ?b"
        using st(6) [OF B] next_ge by (auto simp: from_ok_def)
      then have "successive es (h\<lparr>v_bins := ?b\<rparr>) = bind (ranges_loop (Some u) ?k es ?b) (\<lambda>(out, b). Inr (out, h\<lparr>v_bins := b\<rparr>))"
        using Cons.IH [of "h\<lparr>v_bins := ?b\<rparr>" "Some u" ?k] st(1) B Cons.prems(3) rest by simp
      then show ?thesis
        using x [OF fr(1)] step R B guards e by (cases "ranges_loop (Some u) ?k es ?b") auto
    qed
  qed
qed simp

text \<open>
  For data sets with different minimum and maximum, extracting an ordered array of
  ranges is the same as extracting the ranges one after the other: same counts, same
  remaining histogram.
\<close>

lemma ranges_equal_successive:
  assumes "chain_ok h" "v_max h \<noteq> v_min h" "edges_ok None edges"
  shows "extractUniformCountInRangesInt edges h = successive edges h"
proof (cases "edges = []")
  case False
  have "bind (ranges_loop None 0 edges (v_bins h)) (\<lambda>(out, b). Inr (out, h\<lparr>v_bins := b\<rparr>)) = successive edges h"
    by (rule ranges_loop_successive) (use assms in \<open>auto simp: chain_ok_def from_ok_def\<close>)
  then show ?thesis using False assms(1,2) by (simp add: extractUniformCountInRangesInt_def chain_ok_def)
qed (simp add: extractUniformCountInRangesInt_def)

lemma ranges_equal_successive_witness:
  "extractUniformCountInRangesInt [(0, 1), (1, 3), (5, 6)] wit_vbw = successive [(0, 1), (1, 3), (5, 6)] wit_vbw"
  by (rule ranges_equal_successive [OF chain_ok_wit]) (simp_all add: wit_vbw_def)

text \<open>
  The two operations differ when all data have the same value and no range contains it:
  the single one ignores the bin edges and returns nothing, the array one goes on to share
  the count over its bin.
\<close>

lemma ranges_differ_for_equal_values:
  "\<exists>h h1 h2. chain_ok h \<and> v_max h = v_min h \<and>
     successive [(0, 1)] h = Inr ([0], h1) \<and> extractUniformCountInRangesInt [(0, 1)] h = Inr ([2], h2)"
proof -
  let ?h = "\<lparr>v_bins = [\<lparr>b_l = 0, b_u = 2, b_c = 4\<rparr>], v_min = 2, v_max = 2\<rparr>"
  have 1: "chain_ok ?h" by (simp add: chain_ok_def)
  have 2: "successive [(0, 1)] ?h = Inr ([0], ?h)"
    by (simp add: extractUniformCountInRangeInt_def getBin_from_def)
  have 3: "extractUniformCountInRangesInt [(0, 1)] ?h =
      Inr ([2], ?h\<lparr>v_bins := [\<lparr>b_l = 0, b_u = 1, b_c = 0\<rparr>, \<lparr>b_l = 1, b_u = 2, b_c = 2\<rparr>]\<rparr>)"
    by (simp add: extractUniformCountInRangesInt_def getBin_from_def extract_range_def
        HistogramVBW.split_def split_counts_def insertRight_def zero_bins_def Let_def)
  show ?thesis
    by (rule exI [of _ ?h], rule exI, rule exI) (intro conjI, rule 1, simp, rule 2, rule 3)
qed

end
