(* ===== verification/HistogramTotals.thy ===== *)
theory HistogramTotals
  imports HistogramConserve
begin

text \<open>
  The merger of two histograms: importing a histogram into a chain of bins keeps edges and
  counts, the edges of the result are contiguous and reach its maximum, and the total of the
  result is the sum of the totals up to what both inputs hold below its first edge.
\<close>

definition chain_of :: "histogram \<Rightarrow> vbin list" where
  "chain_of h = map (\<lambda>b. \<lparr>b_l = fst (binEdges h b), b_u = snd (binEdges h b),
     b_c = real (unat (binCount h b))\<rparr>) [0..<Nbin h]"

lemma edges_join:
  assumes "Suc b < Nbin h"
  shows "fst (binEdges h (Suc b)) = snd (binEdges h b)"
  using assms by (simp add: algebra_simps)

lemma chain_map:
  assumes "\<And>b. b < n \<Longrightarrow> f b < (g b :: real)" "\<And>b. Suc b < n \<Longrightarrow> f (Suc b) = g b" "\<And>b. whole (c b)"
  shows "chain (f 0) (map (\<lambda>b. \<lparr>b_l = f b, b_u = g b, b_c = c b\<rparr>) [0..<n]) \<and>
    chain_end (f 0) (map (\<lambda>b. \<lparr>b_l = f b, b_u = g b, b_c = c b\<rparr>) [0..<n]) = (if n = 0 then f 0 else g (n - 1))"
  using assms
proof (induction n)
  case (Suc n)
  have "chain (f 0) (map (\<lambda>b. \<lparr>b_l = f b, b_u = g b, b_c = c b\<rparr>) [0..<n]) \<and>
    chain_end (f 0) (map (\<lambda>b. \<lparr>b_l = f b, b_u = g b, b_c = c b\<rparr>) [0..<n]) = (if n = 0 then f 0 else g (n - 1))"
    by (rule Suc.IH) (use Suc.prems in auto)
  moreover have "n \<noteq> 0 \<Longrightarrow> f n = g (n - 1)" using Suc.prems(2) [of "n - 1"] by simp
  moreover have "f n < g n" using Suc.prems(1) by simp
  ultimately show ?case using Suc.prems(3) by auto
qed simp

lemma chain_of_ok:
  assumes "wf_hist h"
  shows "chain (h_start h) (chain_of h)" "chain_end (h_start h) (chain_of h) = h_max h"
    "chain_of h \<noteq> []" "csum (chain_of h) = real (total h)"
proof -
  have n: "0 < Nbin h" using assms by (simp add: wf_hist_def)
  have "chain (fst (binEdges h 0)) (chain_of h) \<and>
    chain_end (fst (binEdges h 0)) (chain_of h) = (if Nbin h = 0 then fst (binEdges h 0) else snd (binEdges h (Nbin h - 1)))"
    unfolding chain_of_def
    by (rule chain_map) (use edges_less [OF assms] edges_join in \<open>auto simp del: edges_simps of_nat_unat\<close>)
  then show "chain (h_start h) (chain_of h)" "chain_end (h_start h) (chain_of h) = h_max h" using n by auto
  show "chain_of h \<noteq> []" using n by (simp add: chain_of_def)
  show "csum (chain_of h) = real (total h)"
    by (simp add: chain_of_def csum_def total_def comp_def sum_list_sum_nth atLeast0LessThan)
qed

lemma import_loop:
  assumes "wf_hist h" "0 < n" "n \<le> Nbin h"
  shows "foldE (import_step h) [1..<n] (snd (binEdges h 0), map (\<lambda>b. \<lparr>b_l = fst (binEdges h b),
      b_u = snd (binEdges h b), b_c = real (unat (binCount h b))\<rparr>) [0..<1]) =
    Inr (snd (binEdges h (n - 1)), map (\<lambda>b. \<lparr>b_l = fst (binEdges h b), b_u = snd (binEdges h b),
      b_c = real (unat (binCount h b))\<rparr>) [0..<n])"
  using assms(2,3)
proof (induction n)
  case (Suc n)
  show ?case
  proof (cases "n = 0")
    case False
    define bins where "bins = map (\<lambda>b. \<lparr>b_l = fst (binEdges h b), b_u = snd (binEdges h b),
      b_c = real (unat (binCount h b))\<rparr>) [0..<n]"
    have len: "length bins = n" "bins ! (n - 1) = \<lparr>b_l = fst (binEdges h (n - 1)), b_u = snd (binEdges h (n - 1)),
      b_c = real (unat (binCount h (n - 1)))\<rparr>" using False by (simp_all add: bins_def del: edges_simps)
    have j: "fst (binEdges h n) = snd (binEdges h (n - 1))" using edges_join [of "n - 1" h] False Suc.prems by simp
    have l: "fst (binEdges h n) < snd (binEdges h n)" using edges_less [OF assms(1)] Suc.prems by simp
    have "import_step h n (snd (binEdges h (n - 1)), bins) =
      Inr (snd (binEdges h n), bins @ [\<lparr>b_l = fst (binEdges h n), b_u = snd (binEdges h n), b_c = real (unat (binCount h n))\<rparr>])"
      unfolding import_step_def using False len l
      by (simp add: case_prod_beta Let_def insertRight_def j del: edges_simps)
    then show ?thesis using Suc False
      by (simp add: foldE_append bins_def [symmetric] del: edges_simps of_nat_unat)
  qed simp
qed simp

lemma import_ok:
  assumes "wf_hist h"
  shows "import h new_vbw = Inr \<lparr>v_bins = chain_of h, v_min = h_min h, v_max = h_max h\<rparr>"
proof -
  have n: "0 < Nbin h" using assms by (simp add: wf_hist_def)
  show ?thesis using n import_loop [OF assms n order.refl] unfolding import_def
    by (simp add: case_prod_beta Let_def insertFirst_def insertLeft_def new_vbw_def chain_of_def del: edges_simps)
qed

lemma merge_edges_ok:
  assumes "wf_hist h"
  shows "edges_ok None (merge_edges h)" "contiguous (merge_edges h)" "merge_edges h \<noteq> []"
    "length (merge_edges h) = Nbin h" "fst (hd (merge_edges h)) = h_start h" "snd (last (merge_edges h)) = h_max h"
    "h_start h < v \<Longrightarrow> v \<le> h_max h \<Longrightarrow> \<exists>(l, u) \<in> set (merge_edges h). l < v \<and> v \<le> u"
proof -
  have n: "0 < Nbin h" using assms by (simp add: wf_hist_def)
  have eq: "merge_edges h = map (binEdges h) [0..<Nbin h]" unfolding merge_edges_def
  proof (rule map_cong)
    fix b assume b: "b \<in> set [0..<Nbin h]"
    show "(if b = 0 then fst (binEdges h b) else snd (binEdges h (b - 1)), snd (binEdges h b)) = binEdges h b"
    proof (cases b)
      case (Suc c)
      then have "fst (binEdges h b) = snd (binEdges h c)" using b edges_join [of c h] by simp
      then show ?thesis using Suc by (simp add: prod_eq_iff del: edges_simps)
    qed (simp add: prod_eq_iff del: edges_simps)
  qed simp
  have "edges_ok p (map (binEdges h) [i..<Nbin h]) \<and> contiguous (map (binEdges h) [i..<Nbin h])"
    if "i \<le> Nbin h" "case p of None \<Rightarrow> True | Some x \<Rightarrow> i < Nbin h \<longrightarrow> x \<le> fst (binEdges h i)" for i p
    using that
  proof (induction "Nbin h - i" arbitrary: i p)
    case (Suc k)
    then have i: "i < Nbin h" by simp
    obtain l u where be: "binEdges h i = (l, u)" by fastforce
    have k: "k = Nbin h - Suc i" "Suc i \<le> Nbin h" using Suc.hyps(2) i by simp_all
    have j: "Suc i < Nbin h \<Longrightarrow> fst (binEdges h (Suc i)) = u" using edges_join [of i h] be by (simp del: edges_simps)
    have nx: "case Some u of None \<Rightarrow> True | Some x \<Rightarrow> Suc i < Nbin h \<longrightarrow> x \<le> fst (binEdges h (Suc i))"
      using j by (simp del: edges_simps)
    have up: "[i..<Nbin h] = i # [Suc i..<Nbin h]" using i by (rule upt_conv_Cons)
    have "Suc i < Nbin h \<Longrightarrow> fst (hd (map (binEdges h) [Suc i..<Nbin h])) = u"
      using j by (simp add: upt_conv_Cons del: edges_simps)
    then show ?case unfolding up list.map be
      using Suc.hyps(1) [OF k nx] edges_less [OF assms i] be Suc.prems(2) i
      by (auto simp del: edges_simps split: option.splits)
  qed simp
  from this [of 0 None] show "edges_ok None (merge_edges h)" "contiguous (merge_edges h)" by (simp_all add: eq)
  show "merge_edges h \<noteq> []" "length (merge_edges h) = Nbin h" using n by (simp_all add: eq)
  show "fst (hd (merge_edges h)) = h_start h" using n by (simp add: eq upt_conv_Cons)
  show "snd (last (merge_edges h)) = h_max h" using n by (simp add: eq last_map)
  assume v: "h_start h < v" "v \<le> h_max h"
  then obtain b where "b < Nbin h" "in_bin h b v" by (cases rule: getBin_0 [OF assms, of v]) auto
  then show "\<exists>(l, u) \<in> set (merge_edges h). l < v \<and> v \<le> u"
    by (auto simp: eq in_bin_def case_prod_beta simp del: edges_simps)
qed

subsection \<open>What stays behind\<close>

lemma cut_first:
  assumes "chain s (b # bs)" "x < b_u b"
  shows "csum (fst (cut x (b # bs))) \<le> max 0 (x - s) / (b_u b - s) * b_c b + 1 / 2"
proof (cases "x \<le> s")
  case False
  obtain c0 c1 where c: "split_counts x b = (c0, c1)" by fastforce
  have "\<bar>c0 - (x - b_l b) / (b_u b - b_l b) * b_c b\<bar> \<le> 1 / 2"
    by (rule split_counts_spec(4) [OF _ _ _ c]) (use assms False in auto)
  moreover have e: "b_l b = s" "max 0 (x - s) = x - s" using assms(1) False by auto
  ultimately have "c0 \<le> max 0 (x - s) / (b_u b - s) * b_c b + 1 / 2" unfolding e by linarith
  then show ?thesis using assms False c by simp
qed (use assms in simp)

text \<open>The part of a histogram that an ordered cover starting at \<open>lo\<close> leaves behind.\<close>

lemma extract_cover:
  assumes x: "wf_hist x" "in_bin x 0 (h_min x)" "lo < h_min x" "h_min x \<le> h_max x"
    and e: "edges_ok None es" "contiguous es" "es \<noteq> []" "fst (hd es) = lo" "h_max x \<le> snd (last es)"
    and cov: "\<exists>(l, u) \<in> set es. l < h_max x \<and> h_max x \<le> u"
  obtains outs w lost where "extractUniformCountInRangesInt es \<lparr>v_bins = chain_of x, v_min = h_min x, v_max = h_max x\<rparr>
      = Inr (map real outs, w)" "length outs = length es" "sum_list outs + lost = total x"
    "totalCount_vbw w = real lost"
    "real lost \<le> share x (h_start x) lo 0 * real (unat (binCount x 0)) + 1 / 2"
proof -
  let ?h = "\<lparr>v_bins = chain_of x, v_min = h_min x, v_max = h_max x\<rparr>"
  note ch = chain_of_ok [OF x(1)] and st = wf_hist_start [OF x(1)]
  have h: "chain (h_start x) (v_bins ?h)" "v_bins ?h \<noteq> []"
    "v_max ?h = v_min ?h \<longrightarrow> h_start x < v_max ?h \<and> v_max ?h \<le> chain_end (h_start x) (v_bins ?h)"
    using ch st by simp_all
  obtain out w hit bins0 where r: "extractUniformCountInRangesInt es ?h = Inr (out, w)"
    "length out = length es" "\<forall>c \<in> set out. whole c" "sum_list out + csum (v_bins w) = csum (v_bins ?h)"
    "chain (h_start x) (v_bins w)" "v_bins w \<noteq> []"
    "chain_end (h_start x) (v_bins w) = chain_end (h_start x) (v_bins ?h)"
    "v_min w = v_min ?h" "v_max w = v_max ?h"
    "contiguous es \<and> chain_end (h_start x) (v_bins ?h) \<le> snd (last es) \<longrightarrow>
      csum (v_bins w) = csum (fst (cut (fst (hd es)) bins0))"
    "if v_max ?h = v_min ?h \<and> hit
     then \<exists>i < length (v_bins ?h). getBin_from 0 (v_max ?h) (v_bins ?h) = Inr (Some i) \<and>
       bins0 = (v_bins ?h)[i := (v_bins ?h ! i)\<lparr>b_c := 0\<rparr>]
     else bins0 = v_bins ?h"
    using extract_ranges_ok [OF h(1,2) e(1,3) h(3)] by (elim exE conjE) (rule that)
  obtain outs where outs: "out = map real outs"
  proof -
    have "\<exists>ns. out = map real ns" using r(3)
    proof (induction out)
      case (Cons c out)
      then obtain n ns where "c = real n" "out = map real ns" by (auto simp: whole_def)
      then have "c # out = map real (n # ns)" by simp
      then show ?case by (rule exI)
    qed simp
    then show ?thesis using that by blast
  qed
  obtain lost where lost: "csum (v_bins w) = real lost"
    using whole_csum [OF r(5)] by (auto simp: whole_def)
  have so: "sum_list (map real outs) = real (sum_list outs)" by (induction outs) simp_all
  have sum: "sum_list outs + lost = total x"
    using r(4) ch(4) lost so outs by (simp flip: of_nat_add)
  obtain b bs where b: "chain_of x = b # bs" using ch(3) by (cases "chain_of x") auto
  have n: "0 < Nbin x" using x(1) by (simp add: wf_hist_def)
  have b0: "b = \<lparr>b_l = fst (binEdges x 0), b_u = snd (binEdges x 0), b_c = real (unat (binCount x 0))\<rparr>"
    using b n by (simp add: chain_of_def upt_conv_Cons del: edges_simps)
  obtain b' bs' where b': "bins0 = b' # bs'" "b_l b' = b_l b" "b_u b' = b_u b" "0 \<le> b_c b'" "b_c b' \<le> b_c b"
  proof (cases "v_max ?h = v_min ?h \<and> hit")
    case True
    then obtain i where "bins0 = (chain_of x)[i := (chain_of x ! i)\<lparr>b_c := 0\<rparr>]" using r(11) by auto
    then show ?thesis using that b b0 by (cases i) auto
  next
    case False
    then show ?thesis using that r(11) b b0 by auto
  qed
  have "chain (h_start x) bins0" using r(11) ch(1) chain_zero_at [OF ch(1)] by (auto split: if_splits)
  then have c0: "chain (h_start x) (b' # bs')" using b'(1) by simp
  have lou: "lo < b_u b'" using x(2,3) b' b0 by (simp add: in_bin_def del: edges_simps)
  have up: "b_u b' = snd (binEdges x 0)" using b'(3) b0 by simp
  have "0 \<le> max 0 (lo - h_start x) / (b_u b' - h_start x)"
    using c0 by (intro divide_nonneg_pos) auto
  then have "max 0 (lo - h_start x) / (b_u b' - h_start x) * b_c b' \<le>
      max 0 (lo - h_start x) / (b_u b' - h_start x) * b_c b"
    using b'(5) by (intro mult_left_mono)
  then have "csum (fst (cut lo bins0)) \<le> max 0 (lo - h_start x) / (b_u b' - h_start x) * b_c b + 1 / 2"
    using cut_first [OF c0 lou] unfolding b'(1) by linarith
  moreover have "max 0 (lo - h_start x) / (b_u b' - h_start x) = share x (h_start x) lo 0"
    using lou up by (simp add: share_def min_def del: edges_simps(2))
  moreover have "csum (v_bins w) = csum (fst (cut lo bins0))" using r(10) e ch(2) by simp
  ultimately show ?thesis
    using that [OF r(1) [unfolded outs]] r(2) outs sum lost b0 by (simp add: totalCount_vbw_csum)
qed

subsection \<open>The merged counts\<close>

lemma total_list: "total h = sum_list (map unat (h_counts h))"
  by (simp add: total_def Nbin_def binCount_def sum_list_sum_nth atLeast0LessThan)

lemma count_of_double_nat [simp]: "count_of_double (real n) = of_nat n"
  by (simp add: count_of_double_def)

lemma merged_counts:
  assumes "length gs = n" "length ls = n" "sum_list gs + sum_list ls < 2 ^ 64"
  defines "vals \<equiv> map2 (\<lambda>x y. count_of_double y + count_of_double x) (map real gs) (map real ls)"
  shows "length vals = n" "sum_list (map unat vals) = sum_list gs + sum_list ls"
    "map2 (+) (replicate n 0) vals = vals"
    "foldl (\<lambda>t v. t + real (unat v)) 0 vals = real (sum_list gs + sum_list ls)"
proof -
  show len: "length vals = n" using assms(1,2) by (simp add: vals_def)
  have "sum_list (map unat (map2 (\<lambda>x y. count_of_double y + count_of_double x) (map real gs) (map real ls)))
      = sum_list gs + sum_list ls"
    if "length gs = length ls" "sum_list gs + sum_list ls < 2 ^ 64" for gs ls
    using that
  proof (induction gs ls rule: list_induct2)
    case (Cons x gs y ls)
    have "unat (word_of_nat y + word_of_nat x :: u64) = x + y"
    proof -
      have "word_of_nat y + word_of_nat x = (word_of_nat (x + y) :: u64)" by (simp add: add.commute)
      moreover have "x + y < 2 ^ 64" using Cons.prems by simp
      ultimately show ?thesis by (simp only: unat_of_nat) simp
    qed
    then show ?case using Cons by simp
  qed simp
  then show s: "sum_list (map unat vals) = sum_list gs + sum_list ls" using assms by simp
  show "map2 (+) (replicate n 0) vals = vals"
    by (rule nth_equalityI) (use len in auto)
  have "foldl (\<lambda>t v. t + real (unat v)) a xs = a + real (sum_list (map unat xs))" for a and xs :: "u64 list"
    by (induction xs arbitrary: a) simp_all
  then show "foldl (\<lambda>t v. t + real (unat v)) 0 vals = real (sum_list gs + sum_list ls)" using s by simp
qed

text \<open>A histogram that may be merged.\<close>

definition mergeable :: "histogram \<Rightarrow> bool" where
  "mergeable h \<longleftrightarrow> wf_hist h \<and> in_bin h 0 (h_min h) \<and> h_min h \<le> h_max h \<and> h_min h \<noteq> dbl_max \<and> h_max h \<noteq> dbl_lowest"

lemma merge_uniform_ok:
  assumes c: "wf_hist c" "h_counts c = replicate (Nbin c) 0"
    and g: "mergeable g" "h_start c < h_min g" "h_max g \<le> h_max c"
    and l: "mergeable l" "h_start c < h_min l" "h_max l \<le> h_max c"
    and t: "total g + total l < 2 ^ 64"
  shows "\<exists>h reports lg ll. merge_histograms_uniform_int c g l = Inr (h, reports) \<and> same_edges c h \<and>
    total h + lg + ll = total g + total l \<and>
    real lg \<le> share g (h_start g) (h_start c) 0 * real (unat (binCount g 0)) + 1 / 2 \<and>
    real ll \<le> share l (h_start l) (h_start c) 0 * real (unat (binCount l 0)) + 1 / 2 \<and>
    reports = (if ll \<noteq> 0 then [LocalLeft (real ll)] else []) @ (if lg \<noteq> 0 then [GlobalLeft (real lg)] else [])"
proof -
  let ?es = "merge_edges c"
  note e = merge_edges_ok [OF c(1)]
  have cover: "\<exists>(a, b) \<in> set ?es. a < h_max x \<and> h_max x \<le> b"
    if "h_start c < h_min x" "h_min x \<le> h_max x" "h_max x \<le> h_max c" for x
    using that by (intro e(7)) auto
  have gw: "wf_hist g" "in_bin g 0 (h_min g)" "h_min g \<le> h_max g" using g(1) by (simp_all add: mergeable_def)
  have lw: "wf_hist l" "in_bin l 0 (h_min l)" "h_min l \<le> h_max l" using l(1) by (simp_all add: mergeable_def)
  have gm: "h_max g \<le> snd (last ?es)" "h_max l \<le> snd (last ?es)" using g(3) l(3) e(6) by simp_all
  obtain gs w lg where G: "extractUniformCountInRangesInt ?es \<lparr>v_bins = chain_of g, v_min = h_min g, v_max = h_max g\<rparr>
      = Inr (map real gs, w)" "length gs = length ?es" "sum_list gs + lg = total g" "totalCount_vbw w = real lg"
    "real lg \<le> share g (h_start g) (h_start c) 0 * real (unat (binCount g 0)) + 1 / 2"
    using extract_cover [OF gw(1,2) g(2) gw(3) e(1,2,3,5) gm(1) cover [OF g(2) gw(3) g(3)]] .
  obtain ls v ll where L: "extractUniformCountInRangesInt ?es \<lparr>v_bins = chain_of l, v_min = h_min l, v_max = h_max l\<rparr>
      = Inr (map real ls, v)" "length ls = length ?es" "sum_list ls + ll = total l" "totalCount_vbw v = real ll"
    "real ll \<le> share l (h_start l) (h_start c) 0 * real (unat (binCount l 0)) + 1 / 2"
    using extract_cover [OF lw(1,2) l(2) lw(3) e(1,2,3,5) gm(2) cover [OF l(2) lw(3) l(3)]] .
  have len: "length gs = Nbin c" "length ls = Nbin c" using G(2) L(2) e(4) by simp_all
  have "sum_list gs + sum_list ls < 2 ^ 64" using t G(3) L(3) by linarith
  note m = merged_counts [OF len this]
  define vals where "vals = map2 (\<lambda>x y. count_of_double y + count_of_double x) (map real gs) (map real ls)"
  note m = m [folded vals_def]
  have tot: "real (unat (totalCount g)) = real (total g)" "real (unat (totalCount l)) = real (total l)"
    using t by (simp_all only: unat_totalCount)
  have "merge_histograms_uniform_int c g l = Inr (c\<lparr>h_counts := vals\<rparr>,
      (if ll \<noteq> 0 then [LocalLeft (real ll)] else []) @ (if lg \<noteq> 0 then [GlobalLeft (real lg)] else []))"
    unfolding merge_histograms_uniform_int_def import_ok [OF gw(1)] import_ok [OF lw(1)] bind.simps Let_def
      G(1) L(1) prod.case vals_def [symmetric] m(4) tot c(2) m(3) G(4) L(4)
    using G(3) L(3) by simp
  moreover have "same_edges c (c\<lparr>h_counts := vals\<rparr>)" using m(1) by (simp add: same_edges_def Nbin_def)
  moreover have "total (c\<lparr>h_counts := vals\<rparr>) + lg + ll = total g + total l"
    using m(2) G(3) L(3) by (simp add: total_list)
  ultimately show ?thesis using G(5) L(5) by blast
qed

lemma merge_width_pos:
  assumes "merge_width spec g l mn mx = Inr w" "wf_hist g" "wf_hist l"
  shows "0 < w" "(mx - mn) / w \<le> 50000"
proof -
  have pos: "0 < min (h_bin_width g) (h_bin_width l)" using assms(2,3) by (simp add: wf_hist_def)
  obtain w0 where w0: "bin_width_merge spec g l mn mx = Inr w0"
    using assms(1) unfolding merge_width_def bind_Inr_iff by blast
  have "w = w0 \<and> 0 < w0 \<and> \<not> of_int \<lceil>(mx - mn) / w0\<rceil> > (50000 :: real) \<or>
    w = min (h_bin_width g) (h_bin_width l) \<and> \<not> of_int \<lceil>(mx - mn) / w\<rceil> > (50000 :: real)"
    using assms(1) unfolding merge_width_def w0 bind.simps Let_def
    by (simp only: split: if_splits) (auto simp only: sum.simps)
  then have "0 < w \<and> of_int \<lceil>(mx - mn) / w\<rceil> \<le> (50000 :: real)"
    using pos by (elim disjE conjE) (simp_all only: not_less)
  then show "0 < w" "(mx - mn) / w \<le> 50000" by linarith+
qed

text \<open>
  C31. Merging two non-empty histograms, with any rule that yields a usable bin width,
  succeeds: the result is well-formed, its minimum and maximum are those of the inputs
  together, and its total with what stayed behind in the two inputs is the sum of their
  totals. What stays behind is what an input holds below the first edge of the result: its
  share of the first bin of that input, rounded, so it is nothing when that share is below
  one half, and it is reported in the log.
\<close>

theorem merge_histograms_conserves:
  assumes "mergeable g" "mergeable l" "total g + total l < 2 ^ 64"
    and "merge_width spec g l (min (h_min l) (h_min g)) (max (h_max l) (h_max g)) = Inr w"
  shows "\<exists>h reports lg ll. merge_histograms spec g l = Inr (h, reports) \<and> wf_hist h \<and>
    h_min h = min (h_min l) (h_min g) \<and> h_max h = max (h_max l) (h_max g) \<and>
    h_start h = h_min h - getLowerBoundShiftMul * w \<and>
    total h + lg + ll = total g + total l \<and>
    real lg \<le> share g (h_start g) (h_start h) 0 * real (unat (binCount g 0)) + 1 / 2 \<and>
    real ll \<le> share l (h_start l) (h_start h) 0 * real (unat (binCount l 0)) + 1 / 2 \<and>
    reports = (if ll \<noteq> 0 then [LocalLeft (real ll)] else []) @ (if lg \<noteq> 0 then [GlobalLeft (real lg)] else [])"
proof -
  define mn where "mn = min (h_min l) (h_min g)"
  define mx where "mx = max (h_max l) (h_max g)"
  define s where "s = mn - getLowerBoundShiftMul * w"
  define n where "n = \<lceil>(mx - s) / w\<rceil>"
  define bw where "bw = (mx - s) / of_int n"
  define c where "c = \<lparr>h_counts = replicate (nat n) 0, h_start = s, h_bin_width = bw, h_min = mn, h_max = mx\<rparr>"
  have wf: "wf_hist g" "wf_hist l" and le: "h_min g \<le> h_max g" "h_min l \<le> h_max l"
    using assms(1,2) by (simp_all add: mergeable_def)
  note w = merge_width_pos [OF assms(4) wf, folded mn_def mx_def]
  have mnx: "mn \<le> mx" using le unfolding mn_def mx_def by linarith
  have g: "0 < getLowerBoundShiftMul * w" using w(1) by (simp add: getLowerBoundShiftMul_def)
  then have s: "s < mn" "s < mx" using mnx unfolding s_def by linarith+
  note a = adjusted_width [OF s(2) w(1), folded n_def, folded bw_def]
  have "(mx - s) / w = (mx - mn) / w + getLowerBoundShiftMul" using w(1) by (simp add: s_def field_simps)
  then have "(mx - s) / w \<le> 50001" using w(2) by (simp add: getLowerBoundShiftMul_def)
  then have n: "n \<le> 50001" unfolding n_def by (simp add: ceiling_le_iff)
  have rn: "real (nat n) = of_int n" using a(1) by simp
  have "(of_int n - 1) * bw = of_int n * bw - bw" by (simp add: left_diff_distrib)
  then have "s + (real (nat n) - 1) * bw < mx" "mx \<le> s + real (nat n) * bw"
    using a(2,3) unfolding rn by linarith+
  then have cw: "wf_hist c" unfolding c_def
    using a(1,2) n by (intro fresh_histogram_wf) auto
  have cc: "h_counts c = replicate (Nbin c) 0" by (simp add: c_def Nbin_def)
  have b: "h_start c < h_min g" "h_max g \<le> h_max c" "h_start c < h_min l" "h_max l \<le> h_max c"
    using s unfolding c_def mn_def mx_def by simp_all
  obtain h reports lg ll where h: "merge_histograms_uniform_int c g l = Inr (h, reports)" "same_edges c h"
    "total h + lg + ll = total g + total l"
    "real lg \<le> share g (h_start g) (h_start c) 0 * real (unat (binCount g 0)) + 1 / 2"
    "real ll \<le> share l (h_start l) (h_start c) 0 * real (unat (binCount l 0)) + 1 / 2"
    "reports = (if ll \<noteq> 0 then [LocalLeft (real ll)] else []) @ (if lg \<noteq> 0 then [GlobalLeft (real lg)] else [])"
    using merge_uniform_ok [OF cw cc assms(1) b(1,2) assms(2) b(3,4) assms(3)] by (elim exE conjE) (rule that)
  have r: "merge_range mn mx w = Inr (s, w)" using s by (simp add: merge_range_def s_def [symmetric])
  have "Nbin g \<noteq> 0" "Nbin l \<noteq> 0" "\<not> (h_min l = dbl_max \<or> h_max l = dbl_lowest)"
    "\<not> (h_min g = dbl_max \<or> h_max g = dbl_lowest)" "int_of_double (of_int n) = Inr n"
    using assms(1,2) a(1) n by (auto simp: mergeable_def wf_hist_def)
  then have "merge_histograms spec g l = Inr (h, reports)"
    using h(1) assms(4) [folded mn_def mx_def] r mnx a(1) unfolding merge_histograms_def mn_def [symmetric] mx_def [symmetric]
    by (simp add: Let_def n_def [symmetric] bw_def [symmetric] c_def [symmetric])
  moreover have "wf_hist h" using same_edges_wf [OF h(2)] cw by simp
  moreover have e: "h_min h = mn" "h_max h = mx" "h_start h = s" "h_start c = s"
    using h(2) by (simp_all add: same_edges_def c_def)
  ultimately show ?thesis using h(3-6) unfolding e mn_def [symmetric] mx_def [symmetric] s_def [symmetric] e
    by (intro exI [of _ h] exI [of _ reports] exI [of _ lg] exI [of _ ll] conjI) (simp_all only: e s_def mn_def mx_def)
qed

definition wit_global :: histogram where
  "wit_global = \<lparr>h_counts = [1000000], h_start = 0, h_bin_width = 2, h_min = 2 / 1000000, h_max = 2\<rparr>"

definition wit_local :: histogram where
  "wit_local = \<lparr>h_counts = [1], h_start = 0, h_bin_width = 2, h_min = 2 / 1000000, h_max = 2\<rparr>"

lemma wit_mergeable: "mergeable wit_global" "mergeable wit_local"
  by (simp_all add: mergeable_def wf_hist_def wit_global_def wit_local_def Nbin_def in_bin_def
      dbl_max_def dbl_lowest_def)

lemma wit_totals: "total wit_global = 1000000" "total wit_local = 1"
  by (simp_all add: total_list wit_global_def wit_local_def)

lemma wit_width: "merge_width (binWidthFixed 1) wit_global wit_local
    (min (h_min wit_local) (h_min wit_global)) (max (h_max wit_local) (h_max wit_global)) = Inr 1"
  by (simp add: merge_width_def bin_width_merge_def wit_global_def wit_local_def)

theorem merge_histograms_conserves_witness:
  "\<exists>h reports. merge_histograms (binWidthFixed 1) wit_global wit_local = Inr (h, reports) \<and> wf_hist h"
  using merge_histograms_conserves [OF wit_mergeable _ wit_width] by (auto simp: wit_totals)

text \<open>
  The merger loses a count when a bin holds a million: with a narrower bin width the
  first edge of the result moves up, and the share of the first bin below it rounds to one.
  The log says that a count was left, but the comparison of the totals at the end, which only
  looks for a surplus, does not.
\<close>

lemma merge_loses_counts:
  "\<exists>h. merge_histograms (binWidthFixed 1) wit_global wit_local = Inr (h, [GlobalLeft 1]) \<and>
     total h = 1000000 \<and> total wit_global + total wit_local = 1000001"
proof -
  let ?c = "\<lparr>h_counts = [0, 0], h_start = 1 / 1000000, h_bin_width = 1999999 / 2000000,
    h_min = 1 / 500000, h_max = 2\<rparr>"
  have "\<exists>h. merge_histograms_uniform_int ?c wit_global wit_local = Inr (h, [GlobalLeft 1]) \<and>
      sum_list (map unat (h_counts h)) = 1000000"
    by (simp add: merge_histograms_uniform_int_def wit_global_def wit_local_def import_def Nbin_def binEdges_def
        insertFirst_def insertLeft_def new_vbw_def binCount_def merge_edges_def Let_def
        extractUniformCountInRangesInt_def getBin_from_def extract_range_def
        HistogramVBW.split_def split_counts_def insertRight_def zero_bins_def totalCount_def totalCount_vbw_def
        count_of_double_def)
  moreover have "merge_histograms (binWidthFixed 1) wit_global wit_local =
      merge_histograms_uniform_int ?c wit_global wit_local"
  proof -
    have n: "\<lceil>1999999 / 1000000 :: real\<rceil> = 2" by (simp add: ceiling_eq_iff)
    have i: "int_of_double 2 = Inr 2" using int_of_double_int [of 2] by simp
    have s: "min (h_min wit_local) (h_min wit_global) = 1 / 500000"
      "max (h_max wit_local) (h_max wit_global) = 2" "Nbin wit_global = 1" "Nbin wit_local = 1"
      by (simp_all add: wit_global_def wit_local_def Nbin_def)
    have r: "merge_range (1 / 500000) 2 1 = Inr (1 / 1000000, 1)"
      by (simp add: merge_range_def getLowerBoundShiftMul_def)
    show ?thesis using wit_mergeable wit_width unfolding merge_histograms_def s mergeable_def
      by (simp add: Let_def r n i numeral_2_eq_2)
  qed
  ultimately show ?thesis by (simp add: total_list [symmetric] wit_totals)
qed

end
