(* ===== verification/FunctionIndex.thy ===== *)
theory FunctionIndex
  imports Prelude
begin

text \<open>
  The numbering of functions that all analysis processes share: the parameter server's map
  (\<open>PSglobalFunctionIndexMap.cpp\<close>) and the cache every client keeps of it
  (\<open>ADglobalFunctionIndexMap.cpp\<close>).

  \<^item> \<open>ps_index\<close> is the server's object. Its lookup holds a mutex, so each lookup is one
    atomic step; a batched request is a loop of such steps, between which the lookups of other
    clients may fall.
  \<^item> \<open>ad_index\<close> is a client. Its lookups take the answers of the server as an argument
    \<open>ask\<close>: the transport of messages is not modelled. A transport that loses a request makes
    the code throw before the cache is touched.
  \<^item> \<open>index_server\<close> is the contract the clients rely on; it is discharged for the map of
    the code. \<open>index_run\<close> is the system of one server and any number of clients.
  \<^item> The JSON library is a parameter of the two operations that use it.
\<close>

section \<open>The server\<close>

type_synonym index_map = "(u64 \<times> (string \<times> u64) list) list"

record ps_index =
  m_fmap :: index_map
  m_idx :: u64

definition new_PSglobalFunctionIndexMap :: ps_index where
  "new_PSglobalFunctionIndexMap = \<lparr> m_fmap = [], m_idx = 0 \<rparr>"

definition ps_lookup :: "u64 \<Rightarrow> string \<Rightarrow> ps_index \<Rightarrow> u64 \<times> ps_index" where
  "ps_lookup pid func_name s =
     (let fmap_pid = al_get [] (m_fmap s) pid in
      case map_of fmap_pid func_name of
        None \<Rightarrow> (m_idx s, s \<lparr> m_fmap := AList.update pid (AList.update func_name (m_idx s) fmap_pid) (m_fmap s),
                           m_idx := m_idx s + 1 \<rparr>)
      | Some i \<Rightarrow> (i, s))"

definition ps_contains :: "u64 \<Rightarrow> string \<Rightarrow> ps_index \<Rightarrow> bool" where
  "ps_contains pid func_name s =
     (case map_of (m_fmap s) pid of
        None \<Rightarrow> False
      | Some f \<Rightarrow> map_of f func_name \<noteq> None)"

definition ps_serialize :: "(index_map \<Rightarrow> 'j) \<Rightarrow> ps_index \<Rightarrow> 'j" where
  "ps_serialize to_json s = to_json (m_fmap s)"

definition largest_index :: "index_map \<Rightarrow> u64" where
  "largest_index m = fold (\<lambda>p a. fold (\<lambda>e a. max a (snd e)) (snd p) a) m 0"

definition ps_deserialize :: "('j \<Rightarrow> index_map) \<Rightarrow> 'j \<Rightarrow> ps_index \<Rightarrow> ps_index" where
  "ps_deserialize of_json j s =
     (let m = of_json j in s \<lparr> m_fmap := m, m_idx := largest_index m + 1 \<rparr>)"

definition getFunctionIndexMap :: "ps_index \<Rightarrow> u64 \<Rightarrow> (u64 \<times> string) option" where
  "getFunctionIndexMap s =
     fold (\<lambda>p out. fold (\<lambda>f out. out(snd f \<mapsto> (fst p, fst f))) (snd p) out) (m_fmap s) Map.empty"

text \<open>The loop of the payload for batched requests.\<close>

fun batched_action :: "u64 \<Rightarrow> string list \<Rightarrow> ps_index \<Rightarrow> u64 list \<times> ps_index" where
  "batched_action pid [] s = ([], s)"
| "batched_action pid (n # ns) s =
     (let (i, s1) = ps_lookup pid n s; (is, s2) = batched_action pid ns s1 in (i # is, s2))"

text \<open>
  The dispatch of a request by the two payloads: a null pointer to the map is an error. The
  answer to a single request is the number itself (\<open>anyToStr\<close>, read back by the client).
\<close>

definition index_action :: "u64 \<times> string \<Rightarrow> ps_index option \<Rightarrow> (u64 \<times> ps_index) res" where
  "index_action req m_idxmap =
     (case m_idxmap of
        None \<Rightarrow> Inl (RuntimeError ''Cannot retrieve function index as map object has not been linked'')
      | Some s \<Rightarrow> Inr (ps_lookup (fst req) (snd req) s))"

definition index_action_batched ::
    "u64 \<times> string list \<Rightarrow> ps_index option \<Rightarrow> (u64 list \<times> ps_index) res" where
  "index_action_batched req m_idxmap =
     (case m_idxmap of
        None \<Rightarrow> Inl (RuntimeError ''Cannot retrieve function index as map object has not been linked'')
      | Some s \<Rightarrow> Inr (batched_action (fst req) (snd req) s))"

section \<open>The client\<close>

text \<open>\<open>m_net_client\<close> holds what \<open>use_ps\<close> of the linked client returns.\<close>

record ad_index =
  m_net_client :: "bool option"
  m_idxmap :: "u64 \<rightharpoonup> u64"
  m_pid :: u64

definition new_ADglobalFunctionIndexMap :: "u64 \<Rightarrow> bool option \<Rightarrow> ad_index" where
  "new_ADglobalFunctionIndexMap pid net_client =
     \<lparr> m_net_client = net_client, m_idxmap = Map.empty, m_pid = pid \<rparr>"

definition connectedToPS :: "ad_index \<Rightarrow> bool" where
  "connectedToPS c = (m_net_client c = Some True)"

definition linkNetClient :: "bool option \<Rightarrow> ad_index \<Rightarrow> ad_index" where
  "linkNetClient net_client c = c \<lparr> m_net_client := net_client \<rparr>"

definition ad_lookup :: "(u64 \<Rightarrow> string \<Rightarrow> u64) \<Rightarrow> u64 \<Rightarrow> string \<Rightarrow> ad_index \<Rightarrow> u64 \<times> ad_index" where
  "ad_lookup ask local_idx func_name c =
     (if \<not> connectedToPS c then (local_idx, c)
      else case m_idxmap c local_idx of
        Some g \<Rightarrow> (g, c)
      | None \<Rightarrow> (let global_idx = ask (m_pid c) func_name in
                 (global_idx, c \<lparr> m_idxmap := (m_idxmap c)(local_idx \<mapsto> global_idx) \<rparr>)))"

definition ad_lookup_const :: "u64 \<Rightarrow> ad_index \<Rightarrow> u64 res" where
  "ad_lookup_const local_idx c =
     (if \<not> connectedToPS c then Inr local_idx
      else case m_idxmap c local_idx of
        Some g \<Rightarrow> Inr g
      | None \<Rightarrow> Inl (RuntimeError ''local index not in map''))"

text \<open>
  The batched lookup. \<open>unknown_offsets\<close> is the first loop, which collects the positions of
  the indices that are not in the cache, \<open>store_answers\<close> the last one, which writes the
  answers to the output and to the cache.
\<close>

definition unknown_offsets :: "(u64 \<rightharpoonup> u64) \<Rightarrow> u64 list \<Rightarrow> nat list" where
  "unknown_offsets m local_idx = [i \<leftarrow> [0..<length local_idx]. m (local_idx ! i) = None]"

definition known_indices :: "(u64 \<rightharpoonup> u64) \<Rightarrow> u64 list \<Rightarrow> u64 list" where
  "known_indices m local_idx = [(case m l of Some g \<Rightarrow> g | None \<Rightarrow> 0). l \<leftarrow> local_idx]"

fun store_answers :: "u64 list \<Rightarrow> (nat \<times> u64) list \<Rightarrow> u64 list \<times> (u64 \<rightharpoonup> u64) \<Rightarrow> u64 list \<times> (u64 \<rightharpoonup> u64)" where
  "store_answers local_idx [] om = om"
| "store_answers local_idx ((i, g) # r) (out, m) =
     store_answers local_idx r (out[i := g], m(local_idx ! i \<mapsto> g))"

definition ad_lookup_batched ::
    "(u64 \<Rightarrow> string list \<Rightarrow> u64 list) \<Rightarrow> u64 list \<Rightarrow> string list \<Rightarrow> ad_index \<Rightarrow> (u64 list \<times> ad_index) res" where
  "ad_lookup_batched ask local_idx func_name c =
     (if \<not> connectedToPS c then Inr (local_idx, c)
      else if length func_name \<noteq> length local_idx then Inl (Fatal ''Size of input arrays differ'')
      else
       let out = known_indices (m_idxmap c) local_idx;
           get_remote_offsets = unknown_offsets (m_idxmap c) local_idx;
           n_lookup = length get_remote_offsets in
       if n_lookup = 0 then Inr (out, c)
       else
         let global_indices = ask (m_pid c) [func_name ! i. i \<leftarrow> get_remote_offsets] in
         if length global_indices \<noteq> n_lookup then Inl (Fatal ''Global indices returned not complete'')
         else
           let (out', m') = store_answers local_idx (zip get_remote_offsets global_indices) (out, m_idxmap c) in
           Inr (out', c \<lparr> m_idxmap := m' \<rparr>))"

section \<open>The contract of the server\<close>

text \<open>
  \<open>knows s k\<close> is the number the server has given to key \<open>k\<close>; \<open>room n s\<close> says that
  \<open>n\<close> further numbers are available.
\<close>

locale index_server =
  fixes ask :: "'k \<Rightarrow> 's \<Rightarrow> 'i \<times> 's"
    and knows :: "'s \<Rightarrow> 'k \<rightharpoonup> 'i"
    and inv :: "'s \<Rightarrow> bool"
    and room :: "nat \<Rightarrow> 's \<Rightarrow> bool"
  assumes ask_inv: "inv s \<Longrightarrow> room (Suc n) s \<Longrightarrow> ask k s = (i, s') \<Longrightarrow> inv s' \<and> room n s'"
    and ask_knows: "inv s \<Longrightarrow> ask k s = (i, s') \<Longrightarrow> knows s' = (knows s)(k \<mapsto> i)"
    and ask_known: "inv s \<Longrightarrow> knows s k = Some j \<Longrightarrow> ask k s = (i, s') \<Longrightarrow> i = j"
    and knows_inj: "inv s \<Longrightarrow> knows s k = Some i \<Longrightarrow> knows s k' = Some i \<Longrightarrow> k = k'"
begin

fun serve :: "'k list \<Rightarrow> 's \<Rightarrow> 'i list \<times> 's" where
  "serve [] s = ([], s)"
| "serve (k # ks) s = (let (i, s1) = ask k s; (is, s2) = serve ks s1 in (i # is, s2))"

lemma ask_grows: "inv s \<Longrightarrow> ask k s = (i, s') \<Longrightarrow> knows s \<subseteq>\<^sub>m knows s'"
  using ask_knows [of s k i s'] ask_known [of s k _ i s']
  by (auto simp: map_le_def)

lemma serve_correct:
  assumes "inv s" "room (length ks + n) s" "serve ks s = (is, s')"
  shows "inv s' \<and> room n s' \<and> length is = length ks \<and> knows s \<subseteq>\<^sub>m knows s'
    \<and> list_all2 (\<lambda>k i. knows s' k = Some i) ks is"
  using assms
proof (induction ks arbitrary: s "is")
  case Nil
  then show ?case by simp
next
  case (Cons k ks)
  obtain i s1 where i: "ask k s = (i, s1)" by force
  obtain is2 where is2: "serve ks s1 = (is2, s')" "is = i # is2"
    using Cons.prems(3) i by (auto split: prod.splits)
  have "inv s1" "room (length ks + n) s1"
    using ask_inv [of s "length ks + n" k i s1] Cons.prems i by auto
  then have IH: "inv s' \<and> room n s' \<and> length is2 = length ks \<and> knows s1 \<subseteq>\<^sub>m knows s'
      \<and> list_all2 (\<lambda>k i. knows s' k = Some i) ks is2"
    using Cons.IH is2(1) by blast
  have "knows s1 k = Some i" using ask_knows [OF Cons.prems(1) i] by simp
  then have "knows s' k = Some i" using IH by (auto simp: map_le_def dom_def)
  moreover have "knows s \<subseteq>\<^sub>m knows s'"
    using ask_grows [OF Cons.prems(1) i] IH map_le_trans by blast
  ultimately show ?case using IH is2(2) by simp
qed

end

subsection \<open>The map of the code fulfils it\<close>

definition knows_of :: "index_map \<Rightarrow> u64 \<times> string \<rightharpoonup> u64" where
  "knows_of m k = map_of (al_get [] m (fst k)) (snd k)"

definition ps_knows :: "ps_index \<Rightarrow> u64 \<times> string \<rightharpoonup> u64" where
  "ps_knows s = knows_of (m_fmap s)"

definition index_keys :: "index_map \<Rightarrow> bool" where
  "index_keys m \<longleftrightarrow> distinct (map fst m) \<and> (\<forall>(p, f) \<in> set m. distinct (map fst f))"

definition ps_inv :: "ps_index \<Rightarrow> bool" where
  "ps_inv s \<longleftrightarrow> index_keys (m_fmap s) \<and> inj_on (ps_knows s) (dom (ps_knows s))
     \<and> (\<forall>i \<in> ran (ps_knows s). i < m_idx s)"

definition ps_room :: "nat \<Rightarrow> ps_index \<Rightarrow> bool" where
  "ps_room n s \<longleftrightarrow> unat (m_idx s) + n < 2 ^ 64"

definition ps_ask :: "u64 \<times> string \<Rightarrow> ps_index \<Rightarrow> u64 \<times> ps_index" where
  "ps_ask k = ps_lookup (fst k) (snd k)"

lemma knows_of_update:
  "knows_of (AList.update p (AList.update n i (al_get [] m p)) m) = (knows_of m)((p, n) \<mapsto> i)"
  by (auto simp: knows_of_def fun_eq_iff)

lemma index_keys_update:
  "index_keys m \<Longrightarrow> index_keys (AList.update p (AList.update n i (al_get [] m p)) m)"
proof -
  assume m: "index_keys m"
  have "distinct (map fst (al_get [] m p))"
    using m by (cases rule: al_get_cases [of "[]" m p]) (auto simp: index_keys_def)
  then have "distinct (map fst (AList.update n i (al_get [] m p)))" by (rule distinct_update)
  moreover have "distinct (map fst m) \<Longrightarrow> (q, f) \<in> set (AList.update p v m) \<Longrightarrow> f = v \<or> (q, f) \<in> set m" for q f v
    by (metis distinct_update map_of_SomeD map_of_eq_Some_iff map_of_update option.inject)
  ultimately show ?thesis using m by (fastforce simp: index_keys_def intro: distinct_update)
qed

lemma ps_lookup_cases:
  obtains (known) i where "ps_knows s k = Some i" "ps_ask k s = (i, s)"
  | (fresh) s' where "ps_knows s k = None" "ps_ask k s = (m_idx s, s')"
      "ps_knows s' = (ps_knows s)(k \<mapsto> m_idx s)" "m_idx s' = m_idx s + 1"
      "index_keys (m_fmap s) \<longrightarrow> index_keys (m_fmap s')"
proof (cases "ps_knows s k")
  case None
  let ?m = "AList.update (fst k) (AList.update (snd k) (m_idx s) (al_get [] (m_fmap s) (fst k))) (m_fmap s)"
  have "ps_ask k s = (m_idx s, s \<lparr> m_fmap := ?m, m_idx := m_idx s + 1 \<rparr>)"
    using None by (simp add: ps_ask_def ps_lookup_def ps_knows_def knows_of_def Let_def)
  with None show ?thesis
    by (rule fresh) (simp_all add: ps_knows_def knows_of_update index_keys_update)
next
  case (Some i)
  then show ?thesis
    by (intro known [of i]) (simp_all add: ps_ask_def ps_lookup_def ps_knows_def knows_of_def Let_def)
qed

lemma ps_inv_less: "ps_inv s \<Longrightarrow> ps_knows s k = Some i \<Longrightarrow> i < m_idx s"
  unfolding ps_inv_def by (meson ranI)

lemma ps_inv_inj: "ps_inv s \<Longrightarrow> ps_knows s k = Some i \<Longrightarrow> ps_knows s k' = Some i \<Longrightarrow> k = k'"
  unfolding ps_inv_def by (metis domI inj_onD)

lemma ps_inv_fresh:
  assumes "ps_inv s" "ps_room (Suc n) s"
    and "ps_knows s k = None" "ps_knows s' = (ps_knows s)(k \<mapsto> m_idx s)" "m_idx s' = m_idx s + 1"
    and "index_keys (m_fmap s')"
  shows "ps_inv s' \<and> ps_room n s'"
proof -
  have idx: "unat (m_idx s + 1) = Suc (unat (m_idx s))"
    using assms(2) by (simp add: ps_room_def unat_word_ariths)
  have lt: "i < m_idx s" if "ps_knows s j = Some i" for i j
    using ps_inv_less assms(1) that .
  have up: "m_idx s < m_idx s + 1" "i < m_idx s \<Longrightarrow> i < m_idx s + 1" for i
    using idx by (simp_all add: word_less_nat_alt)
  have "inj_on (ps_knows s') (dom (ps_knows s'))"
    unfolding inj_on_def
  proof (intro ballI impI)
    fix x y
    assume xy: "x \<in> dom (ps_knows s')" "y \<in> dom (ps_knows s')" "ps_knows s' x = ps_knows s' y"
    then obtain i where i: "ps_knows s' x = Some i" "ps_knows s' y = Some i" by auto
    show "x = y"
    proof (cases "x = k \<or> y = k")
      case True
      then show ?thesis using i lt [of x i] lt [of y i] assms(4) by (auto split: if_splits)
    next
      case False
      then have "ps_knows s x = Some i" "ps_knows s y = Some i" using i assms(4) by auto
      then show ?thesis by (rule ps_inv_inj [OF assms(1)])
    qed
  qed
  moreover have "\<forall>i \<in> ran (ps_knows s'). i < m_idx s'"
    using lt up assms(4,5) by (auto simp: ran_def split: if_splits)
  ultimately show ?thesis
    using assms(2,5,6) idx by (simp add: ps_inv_def ps_room_def)
qed

interpretation ps: index_server ps_ask ps_knows ps_inv ps_room
proof unfold_locales
  show "ps_inv s' \<and> ps_room n s'"
    if "ps_inv s" "ps_room (Suc n) s" "ps_ask k s = (i, s')" for s n k i s'
    by (cases rule: ps_lookup_cases [of s k])
      (use that ps_inv_fresh [of s n k s'] in \<open>auto simp: ps_inv_def ps_room_def\<close>)
  show "ps_knows s' = (ps_knows s)(k \<mapsto> i)" if "ps_inv s" "ps_ask k s = (i, s')" for s k i s'
    by (cases rule: ps_lookup_cases [of s k]) (use that in auto)
  show "i = j" if "ps_inv s" "ps_knows s k = Some j" "ps_ask k s = (i, s')" for s k i j s'
    by (cases rule: ps_lookup_cases [of s k]) (use that in auto)
  show "k = k'" if "ps_inv s" "ps_knows s k = Some i" "ps_knows s k' = Some i" for s k k' i
    using ps_inv_inj that .
qed


section \<open>Reading the map back\<close>

definition index_entries :: "index_map \<Rightarrow> ((u64 \<times> string) \<times> u64) list" where
  "index_entries m = concat (map (\<lambda>p. map (\<lambda>e. ((fst p, fst e), snd e)) (snd p)) m)"

lemma fold_entries:
  "fold (\<lambda>p. fold (\<lambda>e. g (fst p) (fst e) (snd e)) (snd p)) m a
    = fold (\<lambda>(k, i). g (fst k) (snd k) i) (index_entries m) a"
  by (induction m arbitrary: a) (simp_all add: index_entries_def fold_map comp_def)

lemma index_entries_knows:
  assumes "index_keys m"
  shows "(k, i) \<in> set (index_entries m) \<longleftrightarrow> knows_of m k = Some i"
proof -
  have "(k, i) \<in> set (index_entries m) \<longleftrightarrow> (\<exists>f. (fst k, f) \<in> set m \<and> (snd k, i) \<in> set f)"
    by (cases k) (force simp: index_entries_def)
  also have "\<dots> \<longleftrightarrow> (\<exists>f. map_of m (fst k) = Some f \<and> map_of f (snd k) = Some i)"
    using assms by (fastforce simp: index_keys_def map_of_eq_Some_iff)
  also have "\<dots> \<longleftrightarrow> knows_of m k = Some i"
    by (auto simp: knows_of_def al_get_def split: option.splits)
  finally show ?thesis .
qed

lemma fold_upd_functional:
  assumes "\<And>k k' i. (k, i) \<in> set xs \<Longrightarrow> (k', i) \<in> set xs \<Longrightarrow> k = k'"
  shows "fold (\<lambda>(k, i) out. out(i \<mapsto> k)) xs Map.empty i = Some k \<longleftrightarrow> (k, i) \<in> set xs"
  using assms
proof (induction xs rule: rev_induct)
  case (snoc x xs)
  obtain k0 i0 where x: "x = (k0, i0)" by force
  let ?F = "fold (\<lambda>(k, i) out. out(i \<mapsto> k))"
  have "?F xs Map.empty i = Some k \<longleftrightarrow> (k, i) \<in> set xs"
  proof (rule snoc.IH)
    show "k = k'" if "(k, i) \<in> set xs" "(k', i) \<in> set xs" for k k' i
      using snoc.prems [of k i k'] that by simp
  qed
  moreover have "?F (xs @ [x]) Map.empty = (?F xs Map.empty)(i0 \<mapsto> k0)"
    using x by (simp del: fun_upd_apply)
  then have "?F (xs @ [x]) Map.empty i = (if i = i0 then Some k0 else ?F xs Map.empty i)"
    by (simp only: fun_upd_apply)
  moreover have "(k, i) \<in> set (xs @ [x]) \<longleftrightarrow> (k = k0 \<and> i = i0) \<or> (k, i) \<in> set xs"
    using x by auto
  moreover have "(k, i) \<in> set xs \<Longrightarrow> i = i0 \<Longrightarrow> k = k0"
    using snoc.prems [of k i k0] x by auto
  ultimately show ?case by (metis option.inject)
qed simp

lemma getFunctionIndexMap_knows:
  assumes "ps_inv s"
  shows "getFunctionIndexMap s i = Some k \<longleftrightarrow> ps_knows s k = Some i"
proof -
  have keys: "index_keys (m_fmap s)" using assms by (simp add: ps_inv_def)
  have "getFunctionIndexMap s = fold (\<lambda>(k, i) out. out(i \<mapsto> k)) (index_entries (m_fmap s)) Map.empty"
    unfolding getFunctionIndexMap_def
    using fold_entries [of "\<lambda>p n i out. out(i \<mapsto> (p, n))"] by simp
  moreover have "k = k'" if "(k, i) \<in> set (index_entries (m_fmap s))" "(k', i) \<in> set (index_entries (m_fmap s))" for k k' i
    using that ps_inv_inj [OF assms] by (simp add: index_entries_knows [OF keys] ps_knows_def)
  ultimately show ?thesis
    using fold_upd_functional [of "index_entries (m_fmap s)" i k]
    by (simp add: index_entries_knows [OF keys] ps_knows_def)
qed

lemma ps_contains_knows: "ps_contains p n s \<longleftrightarrow> ps_knows s (p, n) \<noteq> None"
  by (simp add: ps_contains_def ps_knows_def knows_of_def al_get_def split: option.splits)

lemma largest_index_Max:
  "largest_index m = Max (insert 0 (snd ` set (index_entries m)))"
proof -
  have "largest_index m = fold max (map snd (index_entries m)) 0"
    unfolding largest_index_def using fold_entries [of "\<lambda>_ _ i a. max a i" m 0]
    by (simp add: fold_map comp_def case_prod_unfold max.commute)
  also have "\<dots> = Max (set (0 # map snd (index_entries m)))" by (rule Max.set_eq_fold [symmetric])
  finally show ?thesis by simp
qed

lemma word_less_Suc: "(a :: u64) < b \<Longrightarrow> a < a + 1"
  by unat_arith

text \<open>A restored server gives no number twice.\<close>

lemma largest_index_above:
  assumes s: "ps_inv s" and keys: "index_keys m" and same: "knows_of m = ps_knows s"
    and k: "ps_knows s k = Some i"
  shows "i < largest_index m + 1"
proof -
  let ?V = "insert 0 (snd ` set (index_entries m))"
  have entry: "(j, v) \<in> set (index_entries m) \<Longrightarrow> v < m_idx s" for j v
    using index_entries_knows [OF keys] ps_inv_less [OF s] same by simp
  have "i \<in> ?V" using k same index_entries_knows [OF keys, of k i] by force
  then have "i \<le> Max ?V" by (intro Max_ge) auto
  have "Max ?V \<in> ?V" by (intro Max_in) auto
  moreover have "0 < m_idx s" using ps_inv_less [OF s k] by (metis word_gt_0 word_not_simps(1))
  ultimately have "Max ?V < m_idx s" using entry by auto
  then have "Max ?V < Max ?V + 1" by (rule word_less_Suc)
  with \<open>i \<le> Max ?V\<close> have "i < Max ?V + 1" by (rule le_less_trans)
  then show ?thesis by (simp only: largest_index_Max)
qed

end
