(* ===== verification/FunctionIndexRun.thy ===== *)
theory FunctionIndexRun
  imports FunctionIndex
begin

text \<open>
  The parameter server and its clients as one system (\<open>index_reach\<close>), in which the
  server answers requests one at a time and in any order and a client completes a lookup once
  its requests have been answered; the agreement of the clients, the equivalence of batched
  and single lookups, and the restoration of a saved map.
\<close>

section \<open>Batched lookups\<close>

text \<open>Looking the indices up one after the other.\<close>

fun lookup_each :: "(u64 \<Rightarrow> string \<Rightarrow> u64) \<Rightarrow> (u64 \<Rightarrow> string) \<Rightarrow> u64 list \<Rightarrow> ad_index \<Rightarrow> u64 list \<times> ad_index" where
  "lookup_each ask nm [] c = ([], c)"
| "lookup_each ask nm (l # ls) c =
     (let (g, c1) = ad_lookup ask l (nm l) c; (gs, c2) = lookup_each ask nm ls c1 in (g # gs, c2))"

text \<open>The cache after the indices of a list have been looked up.\<close>

definition filled :: "(u64 \<Rightarrow> u64) \<Rightarrow> u64 list \<Rightarrow> (u64 \<rightharpoonup> u64) \<Rightarrow> u64 \<rightharpoonup> u64" where
  "filled h ls m = (\<lambda>l. if l \<in> set ls \<and> m l = None then Some (h l) else m l)"

lemma filled_mem: "l \<in> set ls \<Longrightarrow> filled h ls m l \<noteq> None"
  by (cases "m l") (auto simp: filled_def)

lemma lookup_each_filled:
  assumes "connectedToPS c"
  shows "lookup_each ask nm ls c =
    (map (\<lambda>l. the (filled (\<lambda>l. ask (m_pid c) (nm l)) ls (m_idxmap c) l)) ls,
     c \<lparr> m_idxmap := filled (\<lambda>l. ask (m_pid c) (nm l)) ls (m_idxmap c) \<rparr>)"
  using assms
proof (induction ls arbitrary: c)
  case Nil
  then show ?case by (simp add: filled_def)
next
  case (Cons l ls)
  let ?h = "\<lambda>l. ask (m_pid c) (nm l)"
  let ?m1 = "(m_idxmap c)(l \<mapsto> (case m_idxmap c l of Some g \<Rightarrow> g | None \<Rightarrow> ?h l))"
  have step: "ad_lookup ask l (nm l) c = (the (?m1 l), c \<lparr> m_idxmap := ?m1 \<rparr>)"
    using Cons.prems by (auto simp: ad_lookup_def Let_def fun_upd_triv map_upd_triv split: option.splits)
  have eq: "filled ?h ls ?m1 = filled ?h (l # ls) (m_idxmap c)"
    by (auto simp: filled_def fun_eq_iff split: option.splits)
  have "the (?m1 l) = the (filled ?h ls ?m1 l)" by (simp add: filled_def)
  then show ?case
    using Cons.IH [of "c \<lparr> m_idxmap := ?m1 \<rparr>"] Cons.prems
    by (simp add: step connectedToPS_def eq del: fun_upd_apply)
qed

lemma store_answers_filled:
  "store_answers ls (map (\<lambda>i. (i, h (ls ! i))) offs) (out, m) =
     (map (\<lambda>i. if i \<in> set offs then h (ls ! i) else out ! i) [0..<length out],
      \<lambda>l. if l \<in> (!) ls ` set offs then Some (h l) else m l)"
proof (induction offs arbitrary: out m)
  case Nil
  then show ?case by (simp add: map_nth)
next
  case (Cons i offs)
  then show ?case by (auto simp: fun_eq_iff nth_list_update)
qed

lemma zip_map_right: "zip xs (map f xs) = map (\<lambda>x. (x, f x)) xs"
  by (induction xs) auto

text \<open>
  A batched lookup of local indices (lookup of vectors in
  \<open>ADglobalFunctionIndexMap.cpp\<close>) returns the same global indices and leaves the same
  cache as the lookups of the single indices one after the other, also when indices occur
  several times in the batch, provided that the name of a function is determined by its local
  index and that the server's answer to a name does not depend on the request it comes in.
\<close>

lemma batched_lookup_single:
  assumes "names = map nm local_idx"
    and "\<And>p ns. ask_all p ns = map (ask p) ns"
  shows "ad_lookup_batched ask_all local_idx names c =
    Inr (if connectedToPS c then lookup_each ask nm local_idx c else (local_idx, c))"
proof (cases "connectedToPS c")
  case False
  then show ?thesis by (simp add: ad_lookup_batched_def)
next
  case True
  let ?m = "m_idxmap c" and ?h = "\<lambda>l. ask (m_pid c) (nm l)"
  let ?offs = "unknown_offsets ?m local_idx"
  have offs: "i \<in> set ?offs \<longleftrightarrow> i < length local_idx \<and> ?m (local_idx ! i) = None" for i
    by (auto simp: unknown_offsets_def)
  have answers: "ask_all (m_pid c) (map ((!) names) ?offs) = map (\<lambda>i. ?h (local_idx ! i)) ?offs"
    using assms offs by auto
  have out: "map (\<lambda>i. if i \<in> set ?offs then ?h (local_idx ! i) else known_indices ?m local_idx ! i)
      [0..<length local_idx] = map (\<lambda>l. the (filled ?h local_idx ?m l)) local_idx"
    by (rule nth_equalityI) (auto simp: offs known_indices_def filled_def)
  have cache: "(\<lambda>l. if l \<in> (!) local_idx ` set ?offs then Some (?h l) else ?m l) = filled ?h local_idx ?m"
    using offs by (force simp: filled_def fun_eq_iff in_set_conv_nth)
  have len: "length (known_indices ?m local_idx) = length local_idx" by (simp add: known_indices_def)
  have stored: "store_answers local_idx (map (\<lambda>i. (i, ?h (local_idx ! i))) ?offs) (known_indices ?m local_idx, ?m)
      = (map (\<lambda>l. the (filled ?h local_idx ?m l)) local_idx, filled ?h local_idx ?m)"
    using store_answers_filled [of local_idx ?h ?offs "known_indices ?m local_idx" ?m]
    unfolding len out cache .
  show ?thesis
  proof (cases "?offs = []")
    case empty: True
    have "c = c \<lparr> m_idxmap := ?m \<rparr>" by simp
    then show ?thesis
      using stored True assms(1) unfolding empty
      by (simp add: ad_lookup_batched_def lookup_each_filled [OF True] Let_def empty)
  next
    case False
    have "length names = length local_idx" using assms(1) by simp
    with False True show ?thesis
      by (simp add: ad_lookup_batched_def lookup_each_filled [OF True] answers zip_map_right stored
          Let_def)
  qed
qed


section \<open>One server and many clients\<close>

text \<open>
  \<open>answers\<close> collects what the server has replied. \<open>start c\<close> is client number
  \<open>c\<close> as constructed, \<open>names c l\<close> the name that client \<open>c\<close> gives to its
  local index \<open>l\<close>; the number argument counts the names the server was asked for.
\<close>

record index_system =
  server :: ps_index
  clients :: "nat \<Rightarrow> ad_index"
  answers :: "((u64 \<times> string) \<times> u64) list"

inductive index_reach :: "(nat \<Rightarrow> ad_index) \<Rightarrow> (nat \<Rightarrow> u64 \<Rightarrow> string) \<Rightarrow> nat \<Rightarrow> index_system \<Rightarrow> bool"
  for start names where
  init: "(\<And>c. m_idxmap (start c) = Map.empty) \<Longrightarrow>
    index_reach start names 0 \<lparr> server = new_PSglobalFunctionIndexMap, clients = start, answers = [] \<rparr>"
| serve: "index_reach start names n S \<Longrightarrow> ps_lookup p nm (server S) = (i, s') \<Longrightarrow>
    index_reach start names (Suc n) (S \<lparr> server := s', answers := ((p, nm), i) # answers S \<rparr>)"
| single: "index_reach start names n S \<Longrightarrow>
    (m_idxmap (clients S c) l = None \<longrightarrow> ((m_pid (clients S c), names c l), g) \<in> set (answers S)) \<Longrightarrow>
    ad_lookup (\<lambda>_ _. g) l (names c l) (clients S c) = (out, c') \<Longrightarrow>
    index_reach start names n (S \<lparr> clients := (clients S)(c := c') \<rparr>)"
| batch: "index_reach start names n S \<Longrightarrow>
    list_all2 (\<lambda>i g. ((m_pid (clients S c), names c (ls ! i)), g) \<in> set (answers S))
      (unknown_offsets (m_idxmap (clients S c)) ls) gs \<Longrightarrow>
    ad_lookup_batched (\<lambda>_ _. gs) ls (map (names c) ls) (clients S c) = Inr (outs, c') \<Longrightarrow>
    index_reach start names n (S \<lparr> clients := (clients S)(c := c') \<rparr>)"
| relink: "index_reach start names n S \<Longrightarrow>
    index_reach start names n (S \<lparr> clients := (clients S)(c := linkNetClient net (clients S c)) \<rparr>)"

definition index_inv :: "(nat \<Rightarrow> u64 \<Rightarrow> string) \<Rightarrow> index_system \<Rightarrow> bool" where
  "index_inv names S \<longleftrightarrow> ps_inv (server S)
     \<and> (\<forall>(k, i) \<in> set (answers S). ps_knows (server S) k = Some i)
     \<and> (\<forall>c l g. m_idxmap (clients S c) l = Some g \<longrightarrow>
          ps_knows (server S) (m_pid (clients S c), names c l) = Some g)"

lemma index_inv_client:
  assumes "index_inv names S" "m_pid c' = m_pid (clients S c)"
    and "\<And>l g. m_idxmap c' l = Some g \<Longrightarrow> m_idxmap (clients S c) l = Some g
      \<or> ((m_pid (clients S c), names c l), g) \<in> set (answers S)"
  shows "index_inv names (S \<lparr> clients := (clients S)(c := c') \<rparr>)"
  using assms unfolding index_inv_def by (fastforce split: if_splits)

lemma store_answers_entries:
  "store_answers ls zs (out, m) = (out', m') \<Longrightarrow> m' l = Some g \<Longrightarrow>
     m l = Some g \<or> (\<exists>i. (i, g) \<in> set zs \<and> l = ls ! i)"
proof (induction zs arbitrary: out m)
  case (Cons z zs)
  obtain i h where z: "z = (i, h)" by force
  have "store_answers ls zs (out[i := h], m(ls ! i \<mapsto> h)) = (out', m')"
    using Cons.prems(1) z by simp
  from Cons.IH [OF this Cons.prems(2)] z show ?case by (auto split: if_splits)
qed simp

lemma index_inv_serve:
  assumes "index_inv names S" "ps_ask k (server S) = (i, s')" "ps_room (Suc n) (server S)"
  shows "index_inv names (S \<lparr> server := s', answers := (k, i) # answers S \<rparr>) \<and> ps_room n s'"
proof -
  have s: "ps_inv (server S)" using assms(1) by (simp add: index_inv_def)
  have "ps_knows (server S) \<subseteq>\<^sub>m ps_knows s'" by (rule ps.ask_grows [OF s assms(2)])
  then have grows: "ps_knows s' j = Some g" if "ps_knows (server S) j = Some g" for j g
    using that by (metis domI map_le_def)
  have "ps_knows s' k = Some i" using ps.ask_knows [OF s assms(2)] by simp
  with assms(1) grows ps.ask_inv [OF s assms(3,2)] show ?thesis
    by (auto simp: index_inv_def)
qed

lemma index_reach_inv:
  "index_reach start names n S \<Longrightarrow> n < 2 ^ 64 \<Longrightarrow>
     index_inv names S \<and> ps_room (2 ^ 64 - 1 - n) (server S)"
proof (induction rule: index_reach.induct)
  case init
  then show ?case
    by (simp add: index_inv_def ps_inv_def new_PSglobalFunctionIndexMap_def ps_knows_def knows_of_def
        index_keys_def ps_room_def dom_def ran_def)
next
  case (serve n S p nm i s')
  have "ps_ask (p, nm) (server S) = (i, s')" using serve.hyps(2) by (simp add: ps_ask_def)
  moreover have "ps_room (Suc (2 ^ 64 - 1 - Suc n)) (server S)"
  proof -
    have "Suc (2 ^ 64 - 1 - Suc n) = 2 ^ 64 - 1 - n" using serve.prems by arith
    then show ?thesis using serve by simp
  qed
  moreover have "index_inv names S" using serve by simp
  ultimately show ?case using index_inv_serve by fastforce
next
  case (single n S c l g out c')
  have "index_inv names (S \<lparr> clients := (clients S)(c := c') \<rparr>)"
    by (rule index_inv_client) (use single in \<open>auto simp: ad_lookup_def split: if_splits option.splits\<close>)
  with single show ?case by simp
next
  case (batch n S c ls gs outs c')
  let ?m = "m_idxmap (clients S c)"
  have "c' = clients S c \<or> (\<exists>out' m'. store_answers ls (zip (unknown_offsets ?m ls) gs)
      (known_indices ?m ls, ?m) = (out', m') \<and> c' = clients S c \<lparr> m_idxmap := m' \<rparr>)"
    using batch.hyps(3) by (auto simp: ad_lookup_batched_def Let_def split: if_splits prod.splits)
  then have "m_pid c' = m_pid (clients S c) \<and> (\<forall>l g. m_idxmap c' l = Some g \<longrightarrow> ?m l = Some g
      \<or> (\<exists>i. (i, g) \<in> set (zip (unknown_offsets ?m ls) gs) \<and> l = ls ! i))"
    using store_answers_entries by fastforce
  moreover have "((m_pid (clients S c), names c (ls ! i)), g) \<in> set (answers S)"
    if "(i, g) \<in> set (zip (unknown_offsets ?m ls) gs)" for i g
    using batch.hyps(2) that by (auto simp: list_all2_iff)
  ultimately have "m_pid c' = m_pid (clients S c) \<and> (\<forall>l g. m_idxmap c' l = Some g \<longrightarrow> ?m l = Some g
      \<or> ((m_pid (clients S c), names c l), g) \<in> set (answers S))"
    by metis
  then have "index_inv names (S \<lparr> clients := (clients S)(c := c') \<rparr>)"
    using batch.IH batch.prems index_inv_client by blast
  with batch show ?case by simp
next
  case (relink n S c net)
  then show ?case
    using index_inv_client [of names S "linkNetClient net (clients S c)" c] by (simp add: linkNetClient_def)
qed

text \<open>
  C30. However the server interleaves the requests of the clients and in whatever order they
  complete their single and batched lookups: as long as fewer than \<open>2 ^ 64\<close> names were
  asked for, two cached global indices, of the same or of different clients, are equal exactly
  when they stand for the same program and function name, and the server's
  \<open>getFunctionIndexMap\<close> translates each back to that program and name.
\<close>

theorem global_index_agreement:
  assumes "index_reach start names n S" "n < 2 ^ 64"
    and "m_idxmap (clients S c) l = Some g" "m_idxmap (clients S c') l' = Some g'"

shows "(g = g' \<longleftrightarrow> (m_pid (clients S c), names c l) = (m_pid (clients S c'), names c' l'))
    \<and> getFunctionIndexMap (server S) g = Some (m_pid (clients S c), names c l)"
proof -
  have S: "index_inv names S" using index_reach_inv assms(1,2) by blast
  then have inv: "ps_inv (server S)" by (simp add: index_inv_def)
  have g: "ps_knows (server S) (m_pid (clients S c), names c l) = Some g"
    using S assms(3) by (simp add: index_inv_def)
  have "ps_knows (server S) (m_pid (clients S c'), names c' l') = Some g'"
    using S assms(4) by (simp add: index_inv_def)
  with g have "g = g' \<longleftrightarrow> (m_pid (clients S c), names c l) = (m_pid (clients S c'), names c' l')"
    using ps.knows_inj [OF inv] by (metis option.inject)
  with g show ?thesis by (simp add: getFunctionIndexMap_knows [OF inv])
qed

definition wit_start :: "nat \<Rightarrow> ad_index" where
  "wit_start c = new_ADglobalFunctionIndexMap 199 (Some True)"

definition wit_names :: "nat \<Rightarrow> u64 \<Rightarrow> string" where
  "wit_names c l = (if l = 22 then ''hello'' else ''world'')"

definition wit_served :: index_system where
  "wit_served = \<lparr> server = \<lparr> m_fmap = [(199, [(''world'', 0), (''hello'', 1)])], m_idx = 2 \<rparr>,
     clients = wit_start, answers = [((199, ''hello''), 1), ((199, ''world''), 0)] \<rparr>"

definition wit_cached :: index_system where
  "wit_cached = wit_served \<lparr> clients := wit_start
     (0 := \<lparr> m_net_client = Some True, m_idxmap = [22 \<mapsto> 1, 55 \<mapsto> 0], m_pid = 199 \<rparr>,
      1 := \<lparr> m_net_client = Some True, m_idxmap = [22 \<mapsto> 1], m_pid = 199 \<rparr>) \<rparr>"

lemma wit_served_reach: "index_reach wit_start wit_names 2 wit_served"
proof -
  let ?S0 = "\<lparr> server = new_PSglobalFunctionIndexMap, clients = wit_start, answers = [] \<rparr>"
  have "index_reach wit_start wit_names 0 ?S0"
    by (rule index_reach.init) (simp add: wit_start_def new_ADglobalFunctionIndexMap_def)
  then have "index_reach wit_start wit_names (Suc 0)
      (?S0 \<lparr> server := \<lparr> m_fmap = [(199, [(''world'', 0)])], m_idx = 1 \<rparr>,
             answers := ((199, ''world''), 0) # answers ?S0 \<rparr>)"
    by (rule index_reach.serve) (simp add: ps_lookup_def new_PSglobalFunctionIndexMap_def)
  from index_reach.serve [OF this, of 199 "''hello''" 1 "server wit_served"]
  show ?thesis by (simp add: ps_lookup_def wit_served_def al_get_def numeral_2_eq_2)
qed

lemma wit_cached_reach: "index_reach wit_start wit_names 2 wit_cached"
proof -
  have "index_reach wit_start wit_names 2 (wit_served \<lparr> clients := (clients wit_served)
      (0 := \<lparr> m_net_client = Some True, m_idxmap = [22 \<mapsto> 1, 55 \<mapsto> 0], m_pid = 199 \<rparr>) \<rparr>)"
    (is "index_reach _ _ _ ?S")
    by (rule index_reach.batch [OF wit_served_reach, where ls = "[22, 55]" and gs = "[1, 0]" and outs = "[1, 0]"])
      (simp_all add: wit_served_def wit_start_def new_ADglobalFunctionIndexMap_def unknown_offsets_def
        wit_names_def ad_lookup_batched_def connectedToPS_def known_indices_def upt_rec Let_def)
  then have "index_reach wit_start wit_names 2 (?S \<lparr> clients := (clients ?S)
      (1 := \<lparr> m_net_client = Some True, m_idxmap = [22 \<mapsto> 1], m_pid = 199 \<rparr>) \<rparr>)"
    by (rule index_reach.single [where l = 22 and g = 1 and out = 1])
      (simp_all add: wit_served_def wit_start_def new_ADglobalFunctionIndexMap_def wit_names_def
        ad_lookup_def connectedToPS_def)
  then show ?thesis by (simp add: wit_cached_def wit_served_def)
qed

theorem global_index_agreement_witness:
  "((1 :: u64) = 0 \<longleftrightarrow> (199 :: u64, wit_names 1 22) = (199, wit_names 0 55))
    \<and> getFunctionIndexMap (server wit_cached) 1 = Some (199, ''hello'')"
  using global_index_agreement [OF wit_cached_reach, of 1 22 1 0 55 0]
  by (simp add: wit_cached_def wit_names_def)

lemma batched_lookup_single_witness:
  "ad_lookup_batched (\<lambda>p. map (\<lambda>n. if n = ''hello'' then 7 else 8)) [22, 55, 22] [''hello'', ''world'', ''hello'']
     (wit_start 0)
   = Inr ([7, 8, 7], (wit_start 0) \<lparr> m_idxmap := [22 \<mapsto> 7, 55 \<mapsto> 8] \<rparr>)"
  using batched_lookup_single [of _ "wit_names 0" "[22, 55, 22]"
      "\<lambda>p. map (\<lambda>n. if n = ''hello'' then 7 else 8)" "\<lambda>p n. if n = ''hello'' then 7 else 8" "wit_start 0"]
  by (simp add: wit_names_def wit_start_def new_ADglobalFunctionIndexMap_def ad_lookup_def connectedToPS_def)

section \<open>Saving and restoring the map\<close>

text \<open>
  C40. Saving the server's map and restoring it on another server, with a JSON library that
  gives a map back with the same contents (its order of iteration may change): the restored
  server contains the same functions, answers the known ones with the same numbers, and numbers
  an unknown one differently from all numbers in use.
\<close>

theorem deserialize_serialize:
  assumes "ps_inv s"
    and "\<And>m. index_keys m \<Longrightarrow> index_keys (of_json (to_json m)) \<and> knows_of (of_json (to_json m)) = knows_of m"
    and "s' = ps_deserialize of_json (ps_serialize to_json s) s0"
  shows "ps_inv s' \<and> getFunctionIndexMap s' = getFunctionIndexMap s
    \<and> (\<forall>p n. ps_contains p n s' = ps_contains p n s)
    \<and> (\<forall>p n. if ps_contains p n s then fst (ps_lookup p n s') = fst (ps_lookup p n s)
         else fst (ps_lookup p n s') \<notin> ran (ps_knows s))"
proof -
  let ?m = "of_json (to_json (m_fmap s))"
  have keys: "index_keys ?m" and same: "knows_of ?m = ps_knows s"
    using assms(1,2) by (simp_all add: ps_inv_def ps_knows_def)
  have s': "m_fmap s' = ?m" "m_idx s' = largest_index ?m + 1"
    by (simp_all add: assms(3) ps_deserialize_def ps_serialize_def Let_def)
  have kn: "ps_knows s' = ps_knows s" using same s' by (simp add: ps_knows_def)
  have "i < m_idx s'" if "ps_knows s k = Some i" for k i
    using largest_index_above [OF assms(1) keys same that] s' by simp
  then have above: "\<forall>i \<in> ran (ps_knows s). i < m_idx s'" by (simp add: ran_def) blast
  then have inv: "ps_inv s'"
    using assms(1) keys kn s' by (simp add: ps_inv_def)
  have "getFunctionIndexMap s' i = getFunctionIndexMap s i" for i
    using getFunctionIndexMap_knows [OF inv, of i] getFunctionIndexMap_knows [OF assms(1), of i] kn
    by (metis not_None_eq)
  moreover have "if ps_contains p n s then fst (ps_lookup p n s') = fst (ps_lookup p n s)
      else fst (ps_lookup p n s') \<notin> ran (ps_knows s)" for p n
    by (cases rule: ps_lookup_cases [of s "(p, n)"]; cases rule: ps_lookup_cases [of s' "(p, n)"])
      (use kn above in \<open>auto simp: ps_contains_knows ps_ask_def\<close>)
  ultimately show ?thesis using inv kn by (auto simp: ps_contains_knows)
qed

lemma map_of_rev_keys:
  assumes "distinct (map fst m)"
  shows "map_of (rev m) = map_of m"
proof
  fix k
  have "distinct (map fst (rev m))" using assms by (simp add: rev_map [symmetric])
  then have "map_of (rev m) k = Some v \<longleftrightarrow> map_of m k = Some v" for v
    using assms by (simp add: map_of_eq_Some_iff)
  then show "map_of (rev m) k = map_of m k" by (metis not_None_eq)
qed

lemma knows_of_rev: "index_keys m \<Longrightarrow> index_keys (rev m) \<and> knows_of (rev m) = knows_of m"
  by (simp add: index_keys_def knows_of_def al_get_def fun_eq_iff map_of_rev_keys rev_map [symmetric])

theorem deserialize_serialize_witness:
  "fst (ps_lookup 199 ''hello'' (ps_deserialize rev (ps_serialize id (server wit_served)) new_PSglobalFunctionIndexMap)) = 1"
proof -
  let ?s' = "ps_deserialize rev (ps_serialize id (server wit_served)) new_PSglobalFunctionIndexMap"
  have "ps_inv (server wit_served)"
    using index_reach_inv [OF wit_served_reach] by (simp add: index_inv_def)
  from deserialize_serialize [OF this _ refl, of rev id new_PSglobalFunctionIndexMap] knows_of_rev
  have "\<forall>p n. if ps_contains p n (server wit_served)
      then fst (ps_lookup p n ?s') = fst (ps_lookup p n (server wit_served))
      else fst (ps_lookup p n ?s') \<notin> ran (ps_knows (server wit_served))"
    by simp
  moreover have "ps_contains 199 ''hello'' (server wit_served)"
    "fst (ps_lookup 199 ''hello'' (server wit_served)) = 1"
    by (simp_all add: wit_served_def ps_contains_def ps_lookup_def al_get_def)
  ultimately show ?thesis by metis
qed

end
