(* ===== verification/DataInterface.thy ===== *)
theory DataInterface
  imports EventManager
begin

text \<open>
  The data sets the outlier detection works on: the common part of the interface
  (\<open>ADDataInterface.cpp\<close>), which records the labels, and its implementation for the function
  executions of a step (\<open>ADExecDataInterface.cpp\<close>), one data set per function. The execution
  data the interface points to, and the set of functions already seen that the driver owns, are
  fields of its record: they are changed in place.
\<close>

section \<open>Labels and recorded events\<close>

datatype event_type = Outlier | Normal | Unassigned

record elem =
  e_value :: real
  e_index :: nat
  e_label :: event_type
  e_score :: real

definition new_Elem :: "real \<Rightarrow> nat \<Rightarrow> elem" where
  "new_Elem v i = \<lparr> e_value = v, e_index = i, e_label = Unassigned, e_score = - 1 \<rparr>"

record data_set_anomalies =
  m_anomalies :: "elem list"
  m_normal_events :: "elem list"
  m_labeled_events :: nat

definition new_DataSetAnomalies :: data_set_anomalies where
  "new_DataSetAnomalies = \<lparr> m_anomalies = [], m_normal_events = [], m_labeled_events = 0 \<rparr>"

definition recordEvent :: "elem \<Rightarrow> data_set_anomalies \<Rightarrow> data_set_anomalies" where
  "recordEvent event d =
     (case e_label event of
        Normal \<Rightarrow> d \<lparr> m_normal_events :=
            (if m_normal_events d = [] then [event]
             else if e_score event < e_score (hd (m_normal_events d)) then event # tl (m_normal_events d)
             else m_normal_events d),
          m_labeled_events := m_labeled_events d + 1 \<rparr>
      | Outlier \<Rightarrow> d \<lparr> m_anomalies := m_anomalies d @ [event], m_labeled_events := m_labeled_events d + 1 \<rparr>
      | Unassigned \<Rightarrow> d)"

definition getEventsRecorded :: "event_type \<Rightarrow> data_set_anomalies \<Rightarrow> elem list" where
  "getEventsRecorded t d = (if t = Outlier then m_anomalies d else m_normal_events d)"

definition nEventsRecorded_set :: "event_type \<Rightarrow> data_set_anomalies \<Rightarrow> nat" where
  "nEventsRecorded_set t d = (if t = Outlier then length (m_anomalies d) else length (m_normal_events d))"

section \<open>The interface to the function executions\<close>

datatype outlier_statistic = ExclusiveRuntime | InclusiveRuntime

record exec_interface =
  m_dset_anom :: "data_set_anomalies list"
  m_statistic :: outlier_statistic
  m_func_ignore :: "string set"
  m_dset_fid_map :: "u64 list"
  m_ignore_first_func_call :: bool
  m_dset_cache :: "nat \<rightharpoonup> elem list"
  i_events :: adevent
  m_local_func_exec_seen :: "(u64 \<times> u64 \<times> u64 \<times> u64) set"

definition new_ADExecDataInterface :: "adevent \<Rightarrow> outlier_statistic \<Rightarrow> exec_interface" where
  "new_ADExecDataInterface s stat =
     \<lparr> m_dset_anom = replicate (length (m_execDataMap s)) new_DataSetAnomalies, m_statistic = stat,
       m_func_ignore = {}, m_dset_fid_map = map fst (m_execDataMap s), m_ignore_first_func_call = False,
       m_dset_cache = Map.empty, i_events = s, m_local_func_exec_seen = {} \<rparr>"

definition setStatistic :: "outlier_statistic \<Rightarrow> exec_interface \<Rightarrow> exec_interface" where
  "setStatistic to d = d \<lparr> m_statistic := to \<rparr>"

definition setIgnoreFunction :: "string \<Rightarrow> exec_interface \<Rightarrow> exec_interface" where
  "setIgnoreFunction func d = d \<lparr> m_func_ignore := insert func (m_func_ignore d) \<rparr>"

definition setIgnoreFirstFunctionCall :: "(u64 \<times> u64 \<times> u64 \<times> u64) set \<Rightarrow> exec_interface \<Rightarrow> exec_interface" where
  "setIgnoreFirstFunctionCall functions_seen d =
     d \<lparr> m_ignore_first_func_call := True, m_local_func_exec_seen := functions_seen \<rparr>"

definition getStatisticValue :: "exec_data \<Rightarrow> exec_interface \<Rightarrow> real" where
  "getStatisticValue e d =
     (case m_statistic d of
        ExclusiveRuntime \<Rightarrow> of_int (sint (m_exclusive e))
      | InclusiveRuntime \<Rightarrow> of_int (sint (m_runtime e)))"

definition nDataSets :: "exec_interface \<Rightarrow> nat" where
  "nDataSets d = length (m_dset_anom d)"

definition setNdataSets :: "nat \<Rightarrow> exec_interface \<Rightarrow> exec_interface" where
  "setNdataSets n d = d \<lparr> m_dset_anom := take n (m_dset_anom d)
     @ replicate (n - length (m_dset_anom d)) new_DataSetAnomalies \<rparr>"

definition getResults :: "nat \<Rightarrow> exec_interface \<Rightarrow> data_set_anomalies res" where
  "getResults i d = (if i < nDataSets d then Inr (m_dset_anom d ! i) else Inl OutOfBounds)"

definition nEventsRecorded :: "event_type \<Rightarrow> exec_interface \<Rightarrow> nat" where
  "nEventsRecorded t d = (\<Sum>r\<leftarrow>m_dset_anom d. nEventsRecorded_set t r)"

definition nEvents :: "exec_interface \<Rightarrow> nat" where
  "nEvents d = (\<Sum>r\<leftarrow>m_dset_anom d. m_labeled_events r)"

definition getDataSetModelIndex :: "nat \<Rightarrow> exec_interface \<Rightarrow> u64 res" where
  "getDataSetModelIndex dset_index d =
     (if length (m_dset_fid_map d) \<le> dset_index then Inl (Fatal ''Invalid dset_index'')
      else Inr (m_dset_fid_map d ! dset_index))"

fun getDataSetIndexOfFunction_from :: "nat \<Rightarrow> u64 \<Rightarrow> u64 list \<Rightarrow> nat res" where
  "getDataSetIndexOfFunction_from i fid [] = Inl (Fatal ''Could not find function index'')"
| "getDataSetIndexOfFunction_from i fid (f # fs) =
     (if f = fid then Inr i else getDataSetIndexOfFunction_from (Suc i) fid fs)"

definition getDataSetIndexOfFunction :: "u64 \<Rightarrow> exec_interface \<Rightarrow> nat res" where
  "getDataSetIndexOfFunction fid d = getDataSetIndexOfFunction_from 0 fid (m_dset_fid_map d)"

text \<open>The executions of a data set, and one of them.\<close>

definition set_entries :: "nat \<Rightarrow> exec_interface \<Rightarrow> addr list res" where
  "set_entries dset_index d =
     (if length (m_dset_fid_map d) \<le> dset_index then Inl OutOfBounds
      else case map_of (m_execDataMap (i_events d)) (m_dset_fid_map d ! dset_index) of
        None \<Rightarrow> Inl (Fatal ''Invalid dset_idx'')
      | Some l \<Rightarrow> Inr l)"

definition getExecDataEntry :: "nat \<Rightarrow> nat \<Rightarrow> exec_interface \<Rightarrow> addr res" where
  "getExecDataEntry dset_index elem_index d =
     bind (set_entries dset_index d) (\<lambda>l.
       if length l \<le> elem_index then Inl (Fatal ''Invalid elem_index'') else Inr (l ! elem_index))"

text \<open>
  \<open>getDataSet\<close>. One pass of the loop over the executions of the function: those that were
  labelled before are skipped, ignored ones are labelled normal, the others are collected.
\<close>

definition label_normal :: "addr \<Rightarrow> exec_interface \<Rightarrow> exec_interface res" where
  "label_normal a d =
     bind (modify a (\<lambda>x. Inr (x \<lparr> m_label := 1 \<rparr>)) (i_events d)) (\<lambda>s. Inr (d \<lparr> i_events := s \<rparr>))"

definition data_set_step ::
    "bool \<Rightarrow> u64 \<Rightarrow> nat \<times> addr \<Rightarrow> elem list \<times> exec_interface \<Rightarrow> (elem list \<times> exec_interface) res" where
  "data_set_step ignore_func fid ia st =
     (let (out, d) = st; (i, a) = ia in
      bind (deref (i_events d) a) (\<lambda>e.
        let fkey = (x_pid e, x_rid e, x_tid e, fid) in
        if m_label e \<noteq> 0 then Inr (out, d)
        else if ignore_func then bind (label_normal a d) (\<lambda>d'. Inr (out, d'))
        else if m_ignore_first_func_call d \<and> fkey \<notin> m_local_func_exec_seen d then
          bind (label_normal a d) (\<lambda>d'.
            Inr (out, d' \<lparr> m_local_func_exec_seen := insert fkey (m_local_func_exec_seen d') \<rparr>))
        else Inr (out @ [new_Elem (getStatisticValue e d) i], d)))"

definition getDataSet :: "nat \<Rightarrow> exec_interface \<Rightarrow> (elem list \<times> exec_interface) res" where
  "getDataSet dset_index d =
     (case m_dset_cache d dset_index of
        Some out \<Rightarrow> Inr (out, d)
      | None \<Rightarrow>
          if length (m_dset_fid_map d) \<le> dset_index then Inl OutOfBounds
          else
            let fid = m_dset_fid_map d ! dset_index in
            (case map_of (m_execDataMap (i_events d)) fid of
               None \<Rightarrow> Inl UndefinedBehaviour
             | Some data \<Rightarrow>
                 if data = [] then Inr ([], d)
                 else bind (deref (i_events d) (hd data)) (\<lambda>front.
                   bind (foldE (data_set_step (m_funcname front \<in> m_func_ignore d) fid)
                          (enumerate 0 data) ([], d)) (\<lambda>(out, d').
                   Inr (out, d' \<lparr> m_dset_cache := (m_dset_cache d')(dset_index \<mapsto> out) \<rparr>)))))"

text \<open>\<open>recordDataSetLabels\<close>: the recorded events, then the labels of the executions themselves.\<close>

definition record_label :: "addr list \<Rightarrow> elem \<Rightarrow> exec_interface \<Rightarrow> exec_interface res" where
  "record_label l e d =
     (if length l \<le> e_index e then Inl (Fatal ''Invalid element index'')
      else bind (modify (l ! e_index e) (\<lambda>x. Inr (x \<lparr> m_score := e_score e,
               m_label := (case e_label e of Unassigned \<Rightarrow> m_label x | Outlier \<Rightarrow> - 1 | Normal \<Rightarrow> 1) \<rparr>)) (i_events d))
             (\<lambda>s. Inr (d \<lparr> i_events := s \<rparr>)))"

definition recordDataSetLabelsInternal :: "elem list \<Rightarrow> nat \<Rightarrow> exec_interface \<Rightarrow> exec_interface res" where
  "recordDataSetLabelsInternal data dset_index d =
     bind (set_entries dset_index d) (\<lambda>l. foldE (record_label l) data d)"

definition recordDataSetLabels :: "elem list \<Rightarrow> nat \<Rightarrow> exec_interface \<Rightarrow> exec_interface res" where
  "recordDataSetLabels data dset_index d =
     (if nDataSets d \<le> dset_index then Inl OutOfBounds
      else recordDataSetLabelsInternal data dset_index
        (d \<lparr> m_dset_anom := (m_dset_anom d)[dset_index := fold recordEvent data (m_dset_anom d ! dset_index)] \<rparr>))"

end
