(* ===== verification/Pool.thy ===== *)
theory Pool
  imports RunStats
begin

text \<open>
  Pooling of statistics. \<open>RunStats\<close> objects that stem from data carry the same
  information as the power sums of the data; the combination of two objects is the addition of
  their power sums. From this: the combination is commutative and associative, and the result
  of combining many objects (\<open>pooled\<close>) depends on them only as a multiset.

  The second part is the interface \<open>mergeable\<close> of the objects that the parameter server
  combines with \<open>operator+=\<close>, and the nested merger of hash maps of such objects
  (\<open>unordered_map_plus_equals\<close> of \<open>map.hpp\<close>), which fulfils the interface again.
\<close>

section \<open>Power sums\<close>

datatype power_sums = Sums (ps_n: real) (ps_1: real) (ps_2: real) (ps_3: real) (ps_4: real)

instantiation power_sums :: comm_monoid_add
begin

definition zero_power_sums :: power_sums where
  "zero_power_sums = Sums 0 0 0 0 0"

definition plus_power_sums :: "power_sums \<Rightarrow> power_sums \<Rightarrow> power_sums" where
  "plus_power_sums P Q = Sums (ps_n P + ps_n Q) (ps_1 P + ps_1 Q) (ps_2 P + ps_2 Q) (ps_3 P + ps_3 Q) (ps_4 P + ps_4 Q)"

instance
  by intro_classes (simp_all add: zero_power_sums_def plus_power_sums_def add.commute add.left_commute)

end

lemma ps_sel [simp]:
  "ps_n (P + Q) = ps_n P + ps_n Q" "ps_1 (P + Q) = ps_1 P + ps_1 Q" "ps_2 (P + Q) = ps_2 P + ps_2 Q"
  "ps_3 (P + Q) = ps_3 P + ps_3 Q" "ps_4 (P + Q) = ps_4 P + ps_4 Q"
  "ps_n 0 = 0" "ps_1 0 = 0" "ps_2 0 = 0" "ps_3 0 = 0" "ps_4 0 = 0"
  by (simp_all add: plus_power_sums_def zero_power_sums_def)

definition sums_of :: "run_stats \<Rightarrow> power_sums" where
  "sums_of r = Sums (m_count r) (m_count r * m_eta r) (m_rho r + m_count r * m_eta r ^ 2)
     (m_tau r + 3 * m_eta r * m_rho r + m_count r * m_eta r ^ 3)
     (m_phi r + 4 * m_eta r * m_tau r + 6 * m_eta r ^ 2 * m_rho r + m_count r * m_eta r ^ 4)"

definition stats_of :: "power_sums \<Rightarrow> real \<Rightarrow> real \<Rightarrow> bool \<Rightarrow> run_stats" where
  "stats_of P mn mx acc =
     \<lparr> m_count = ps_n P, m_eta = eta_of (ps_n P) (ps_1 P), m_rho = rho_of (ps_n P) (ps_1 P) (ps_2 P),
       m_tau = tau_of (ps_n P) (ps_1 P) (ps_2 P) (ps_3 P),
       m_phi = phi_of (ps_n P) (ps_1 P) (ps_2 P) (ps_3 P) (ps_4 P),
       m_min = mn, m_max = mx, m_acc = (if acc then ps_1 P else 0), m_do_accumulate = acc \<rparr>"

lemma stats_of_sel [simp]:
  "m_count (stats_of P mn mx acc) = ps_n P" "m_min (stats_of P mn mx acc) = mn"
  "m_max (stats_of P mn mx acc) = mx" "m_do_accumulate (stats_of P mn mx acc) = acc"
  by (simp_all add: stats_of_def)

lemma sums_of_n [simp]: "ps_n (sums_of r) = m_count r"
  by (simp add: sums_of_def)

text \<open>The objects whose fields are those of some power sums.\<close>

definition consistent :: "run_stats \<Rightarrow> bool" where
  "consistent r \<longleftrightarrow> r = stats_of (sums_of r) (m_min r) (m_max r) (m_do_accumulate r) \<and> 0 \<le> m_count r
     \<and> (m_count r = 0 \<longrightarrow> sums_of r = 0)"

definition solid :: "run_stats \<Rightarrow> bool" where
  "solid r \<longleftrightarrow> consistent r \<and> 0 < m_count r"

lemma power_identities:
  fixes n :: real
  assumes "n \<noteq> 0"
  shows "n * eta_of n p1 = p1"
    and "rho_of n p1 p2 + n * eta_of n p1 ^ 2 = p2"
    and "tau_of n p1 p2 p3 + 3 * eta_of n p1 * rho_of n p1 p2 + n * eta_of n p1 ^ 3 = p3"
    and "phi_of n p1 p2 p3 p4 + 4 * eta_of n p1 * tau_of n p1 p2 p3
         + 6 * eta_of n p1 ^ 2 * rho_of n p1 p2 + n * eta_of n p1 ^ 4 = p4"
  using assms by (simp_all add: of_defs field_simps power2_eq_square power3_eq_cube power4_eq_xxxx)

lemma sums_of_stats: "ps_n P \<noteq> 0 \<or> P = 0 \<Longrightarrow> sums_of (stats_of P mn mx acc) = P"
proof (elim disjE)
  assume n: "ps_n P \<noteq> 0"
  note ids = power_identities [OF n]
  show ?thesis
    by (cases P) (use ids in \<open>simp add: sums_of_def stats_of_def\<close>)
qed (simp add: sums_of_def stats_of_def of_defs zero_power_sums_def)

lemma consistent_stats_of:
  "0 < ps_n P \<or> P = 0 \<Longrightarrow> consistent (stats_of P mn mx acc)"
  by (auto simp: consistent_def sums_of_stats)

lemma solid_stats_of: "0 < ps_n P \<Longrightarrow> solid (stats_of P mn mx acc)"
  by (simp add: solid_def consistent_stats_of)

lemma consistent_new: "consistent (new_RunStats acc)" "sums_of (new_RunStats acc) = 0"
  by (simp_all add: consistent_def sums_of_def new_RunStats_def clear_RunStats_def stats_of_def of_defs
      zero_power_sums_def)

lemma solid_push_all:
  assumes "xs \<noteq> []"
  shows "solid (push_all xs (new_RunStats acc))"
    and "sums_of (push_all xs (new_RunStats acc)) = Sums (real (length xs)) (psum 1 xs) (psum 2 xs) (psum 3 xs) (psum 4 xs)"
proof -
  let ?r = "push_all xs (new_RunStats acc)"
  let ?P = "Sums (real (length xs)) (psum 1 xs) (psum 2 xs) (psum 3 xs) (psum 4 xs)"
  have "?r = stats_of ?P (m_min ?r) (m_max ?r) acc"
    using moments_push_all [of xs acc]
    by (intro run_stats.equality) (simp_all add: stats_of_def moments_def push_all_acc psum_1)
  moreover have "0 < ps_n ?P" using assms by simp
  ultimately show "solid ?r" "sums_of ?r = ?P"
    using solid_stats_of sums_of_stats by (metis, metis less_irrefl)
qed

lemma consistent_sel:
  assumes "consistent r" "m_count r \<noteq> 0"
  shows "m_eta r = eta_of (m_count r) (ps_1 (sums_of r))"
    and "m_rho r = rho_of (m_count r) (ps_1 (sums_of r)) (ps_2 (sums_of r))"
    and "m_tau r = tau_of (m_count r) (ps_1 (sums_of r)) (ps_2 (sums_of r)) (ps_3 (sums_of r))"
    and "m_phi r = phi_of (m_count r) (ps_1 (sums_of r)) (ps_2 (sums_of r)) (ps_3 (sums_of r)) (ps_4 (sums_of r))"
    and "m_acc r = (if m_do_accumulate r then ps_1 (sums_of r) else 0)"
proof -
  have r: "stats_of (sums_of r) (m_min r) (m_max r) (m_do_accumulate r) = r"
    using assms by (simp add: consistent_def)
  show "m_eta r = eta_of (m_count r) (ps_1 (sums_of r))"
    by (subst (1) r [symmetric]) (simp add: stats_of_def)
  show "m_rho r = rho_of (m_count r) (ps_1 (sums_of r)) (ps_2 (sums_of r))"
    by (subst (1) r [symmetric]) (simp add: stats_of_def)
  show "m_tau r = tau_of (m_count r) (ps_1 (sums_of r)) (ps_2 (sums_of r)) (ps_3 (sums_of r))"
    by (subst (1) r [symmetric]) (simp add: stats_of_def)
  show "m_phi r = phi_of (m_count r) (ps_1 (sums_of r)) (ps_2 (sums_of r)) (ps_3 (sums_of r)) (ps_4 (sums_of r))"
    by (subst (1) r [symmetric]) (simp add: stats_of_def)
  show "m_acc r = (if m_do_accumulate r then ps_1 (sums_of r) else 0)"
    by (subst (1) r [symmetric]) (simp add: stats_of_def)
qed

lemma consistent_empty:
  assumes "consistent r" "m_count r = 0"
  shows "m_eta r = 0" "m_rho r = 0" "m_tau r = 0" "m_phi r = 0" "m_acc r = 0" "sums_of r = 0"
proof -
  show P: "sums_of r = 0" using assms by (simp add: consistent_def)
  have r: "r = stats_of 0 (m_min r) (m_max r) (m_do_accumulate r)"
    using assms P by (simp add: consistent_def)
  show "m_eta r = 0" "m_rho r = 0" "m_tau r = 0" "m_phi r = 0" "m_acc r = 0"
    by (subst r, simp add: stats_of_def of_defs)+
qed

lemma combine_sums:
  assumes a: "consistent a" and b: "consistent b" and nz: "m_count a \<noteq> 0 \<or> m_count b \<noteq> 0"
  shows "combine a b = stats_of (sums_of a + sums_of b) (min (m_min a) (m_min b)) (max (m_max a) (m_max b))
    (m_do_accumulate a \<or> m_do_accumulate b)"
proof -
  have "0 \<le> m_count a" "0 \<le> m_count b" using a b by (simp_all add: consistent_def)
  with nz have sum: "m_count a + m_count b \<noteq> 0" by linarith
  note ex = combine_extrema [OF sum]
  consider "m_count a = 0" "m_count b \<noteq> 0" | "m_count a \<noteq> 0" "m_count b = 0"
    | "m_count a \<noteq> 0" "m_count b \<noteq> 0" using nz by blast
  then show ?thesis
  proof cases
    case 1
    then show ?thesis
      using ex combine_acc [OF sum] consistent_empty [OF a] consistent_sel [OF b]
      by (intro run_stats.equality)
        (auto simp: stats_of_def combine_sel [OF sum] eta_of_def)
  next
    case 2
    then show ?thesis
      using ex combine_acc [OF sum] consistent_empty [OF b] consistent_sel [OF a]
      by (intro run_stats.equality)
        (auto simp: stats_of_def combine_sel [OF sum] eta_of_def)
  next
    case 3
    note ids = combine_identities [OF 3 sum]
    have "m_acc (combine a b) = (if m_do_accumulate a \<or> m_do_accumulate b then ps_1 (sums_of a) + ps_1 (sums_of b) else 0)"
      unfolding combine_acc [OF sum] using consistent_sel [OF a 3(1)] consistent_sel [OF b 3(2)] 3
      by (auto simp: eta_of_def)
    then show ?thesis
      using ex consistent_sel(1-4) [OF a 3(1)] consistent_sel(1-4) [OF b 3(2)]
      by (intro run_stats.equality) (simp_all only: stats_of_def combine_sel [OF sum] ids ps_sel sums_of_n run_stats.simps, simp_all)
  qed
qed

section \<open>Pooling many objects\<close>

definition pooled :: "bool \<Rightarrow> run_stats list \<Rightarrow> run_stats" where
  "pooled acc rs = stats_of (\<Sum>r\<leftarrow>rs. sums_of r) (Min (insert dbl_max (m_min ` set rs)))
     (Max (insert dbl_min (m_max ` set rs))) (acc \<or> (\<exists>r \<in> set rs. m_do_accumulate r))"

lemma pooled_Nil [simp]: "pooled acc [] = new_RunStats acc"
  by (intro run_stats.equality)
    (simp_all add: pooled_def stats_of_def new_RunStats_def clear_RunStats_def of_defs)

lemma count_sum_list: "ps_n (\<Sum>r\<leftarrow>rs. sums_of r) = (\<Sum>r\<leftarrow>rs. m_count r)"
  by (induction rs) simp_all

text \<open>Contributions are either solid or default-constructed.\<close>

definition tidy :: "run_stats \<Rightarrow> bool" where
  "tidy r \<longleftrightarrow> solid r \<or> r = new_RunStats False"

lemma tidy_consistent: "tidy r \<Longrightarrow> consistent r"
  using consistent_new by (auto simp: tidy_def solid_def)

lemma tidy_cases:
  assumes "tidy r"
  obtains "0 < m_count r" "solid r" | "m_count r = 0" "r = new_RunStats False" "sums_of r = 0"
    using assms consistent_new(2) [of False]
    by (auto simp: tidy_def solid_def new_RunStats_def clear_RunStats_def)

lemma count_sum_nonneg: "\<forall>r \<in> set rs. tidy r \<Longrightarrow> 0 \<le> (\<Sum>r\<leftarrow>rs. m_count r)"
  by (intro sum_list_nonneg) (auto dest!: tidy_consistent simp: consistent_def)

lemma count_sum_pos:
  "\<forall>r \<in> set rs. solid r \<Longrightarrow> rs \<noteq> [] \<Longrightarrow> 0 < (\<Sum>r\<leftarrow>rs. m_count r)"
proof (induction rs)
  case (Cons r rs)
  then show ?case by (cases "rs = []") (simp_all add: solid_def add_pos_pos)
qed simp

lemma count_sum_zero:
  "\<forall>r \<in> set rs. tidy r \<Longrightarrow> (\<Sum>r\<leftarrow>rs. m_count r) = 0 \<Longrightarrow> \<forall>r \<in> set rs. r = new_RunStats False"
proof (induction rs)
  case (Cons r rs)
  then have "0 \<le> m_count r" "0 \<le> (\<Sum>r\<leftarrow>rs. m_count r)"
    using tidy_consistent [of r] count_sum_nonneg [of rs] by (auto simp: consistent_def)
  with Cons.prems(2) have "m_count r = 0" "(\<Sum>r\<leftarrow>rs. m_count r) = 0" by auto
  with Cons show ?case by (auto elim: tidy_cases)
qed simp

lemma sums_zero: "\<forall>r \<in> set rs. r = new_RunStats False \<Longrightarrow> (\<Sum>r\<leftarrow>rs. sums_of r) = 0"
  by (induction rs) (simp_all add: consistent_new)

lemma pooled_zero:
  assumes "\<forall>r \<in> set rs. r = new_RunStats False"
  shows "pooled acc rs = new_RunStats acc"
proof -
  have ins: "insert dbl_max (m_min ` set rs) = {dbl_max}" "insert dbl_min (m_max ` set rs) = {dbl_min}"
    and flag: "(\<exists>r \<in> set rs. m_do_accumulate r) = False"
    using assms by (auto simp: new_RunStats_def clear_RunStats_def)
  have "Min (insert dbl_max (m_min ` set rs)) = dbl_max" "Max (insert dbl_min (m_max ` set rs)) = dbl_min"
    by (simp_all only: ins Min_singleton Max_singleton)
  with flag have "pooled acc rs = pooled acc []"
    unfolding pooled_def sums_zero [OF assms] by simp
  then show ?thesis by simp
qed

lemma pooled_consistent:
  assumes "\<forall>r \<in> set rs. tidy r"
  shows "consistent (pooled acc rs)" "sums_of (pooled acc rs) = (\<Sum>r\<leftarrow>rs. sums_of r)"
proof -
  have "0 < ps_n (\<Sum>r\<leftarrow>rs. sums_of r) \<or> (\<Sum>r\<leftarrow>rs. sums_of r) = 0"
    using count_sum_nonneg [OF assms] count_sum_zero [OF assms] sums_zero [of rs]
    unfolding count_sum_list by linarith
  then show "consistent (pooled acc rs)" "sums_of (pooled acc rs) = (\<Sum>r\<leftarrow>rs. sums_of r)"
    unfolding pooled_def using consistent_stats_of sums_of_stats by auto
qed

lemma pooled_count: "m_count (pooled acc rs) = (\<Sum>r\<leftarrow>rs. m_count r)"
  by (simp add: pooled_def count_sum_list)

lemma Min_insert_Un: "finite A \<Longrightarrow> finite B \<Longrightarrow> Min (insert (c :: real) (A \<union> B)) = min (Min (insert c A)) (Min (insert c B))"
  using Min_Un [of "insert c A" "insert c B"] by simp

lemma Max_insert_Un: "finite A \<Longrightarrow> finite B \<Longrightarrow> Max (insert (c :: real) (A \<union> B)) = max (Max (insert c A)) (Max (insert c B))"
  using Max_Un [of "insert c A" "insert c B"] by simp

lemma combine_new: "combine (new_RunStats acc) (new_RunStats acc') = new_RunStats False"
  by (simp add: combine_def new_RunStats_def clear_RunStats_def)

lemma pooled_combine:
  assumes tidy: "\<forall>r \<in> set (rs @ rs'). tidy r"
    and "(\<Sum>r\<leftarrow>rs @ rs'. m_count r) = 0 \<longrightarrow> \<not> acc \<and> \<not> acc'"
  shows "combine (pooled acc rs) (pooled acc' rs') = pooled (acc \<or> acc') (rs @ rs')"
proof (cases "(\<Sum>r\<leftarrow>rs @ rs'. m_count r) = 0")
  case True
  from count_sum_zero [OF tidy True] have "\<forall>r \<in> set rs. r = new_RunStats False"
    "\<forall>r \<in> set rs'. r = new_RunStats False" "\<forall>r \<in> set (rs @ rs'). r = new_RunStats False" by auto
  with True assms(2) show ?thesis by (simp add: pooled_zero combine_new)
next
  case False
  have rs: "\<forall>r \<in> set rs. tidy r" "\<forall>r \<in> set rs'. tidy r" using tidy by auto
  note pc = pooled_consistent [OF rs(1), of acc] pooled_consistent [OF rs(2), of acc']
  have "m_count (pooled acc rs) \<noteq> 0 \<or> m_count (pooled acc' rs') \<noteq> 0"
    using False by (auto simp: pooled_count)
  from combine_sums [OF pc(1) pc(3) this] pc show ?thesis
    by (simp add: pooled_def Min_insert_Un Max_insert_Un image_Un ac_simps)
      (simp add: bex_Un disj_ac)
qed

lemma pooled_snoc:
  assumes tidy: "\<forall>r \<in> set (rs @ [r]). tidy r"
    and "(\<Sum>r\<leftarrow>rs @ [r]. m_count r) = 0 \<longrightarrow> \<not> acc"
  shows "combine (pooled acc rs) r = pooled acc (rs @ [r])"
proof (cases "(\<Sum>r\<leftarrow>rs @ [r]. m_count r) = 0")
  case True
  from count_sum_zero [OF tidy True] have "\<forall>r \<in> set rs. r = new_RunStats False"
    "r = new_RunStats False" "\<forall>r \<in> set (rs @ [r]). r = new_RunStats False" by auto
  with True assms(2) show ?thesis by (simp only: pooled_zero combine_new)
next
  case False
  have rs: "\<forall>r \<in> set rs. tidy r" "consistent r" using tidy tidy_consistent by auto
  note pc = pooled_consistent [OF rs(1), of acc]
  have "m_count (pooled acc rs) \<noteq> 0 \<or> m_count r \<noteq> 0"
    using False by (auto simp: pooled_count)
  from combine_sums [OF pc(1) rs(2) this] pc(2)
  have "combine (pooled acc rs) r = stats_of (sums_of (pooled acc rs) + sums_of r)
    (min (m_min (pooled acc rs)) (m_min r)) (max (m_max (pooled acc rs)) (m_max r))
    (m_do_accumulate (pooled acc rs) \<or> m_do_accumulate r)" by simp
  moreover have "Min (insert dbl_max (insert (m_min r) (m_min ` set rs))) = min (Min (insert dbl_max (m_min ` set rs))) (m_min r)"
    by (subst insert_commute, subst Min_insert) (simp_all only: finite_insert finite_imageI finite_set insert_not_empty
        not_False_eq_True min.commute)
  moreover have "Max (insert dbl_min (insert (m_max r) (m_max ` set rs))) = max (Max (insert dbl_min (m_max ` set rs))) (m_max r)"
    by (subst insert_commute, subst Max_insert) (simp_all only: finite_insert finite_imageI finite_set insert_not_empty
        not_False_eq_True max.commute)
  ultimately show ?thesis
    using pc(2) by (simp add: pooled_def disj_ac del: Min_insert Max_insert)
qed

lemma solid_tidy: "solid r \<Longrightarrow> tidy r"
  by (simp add: tidy_def)

lemma pooled_perm: "mset rs = mset rs' \<Longrightarrow> pooled acc rs = pooled acc rs'"
proof -
  assume m: "mset rs = mset rs'"
  then have "(\<Sum>r\<leftarrow>rs. sums_of r) = (\<Sum>r\<leftarrow>rs'. sums_of r)"
    by (metis mset_map sum_mset_sum_list)
  with mset_eq_setD [OF m] show ?thesis by (simp add: pooled_def)
qed

lemma combine_solid:
  assumes "solid a" "solid b"
  shows "solid (combine a b)" and "sums_of (combine a b) = sums_of a + sums_of b"
    and "combine a b = stats_of (sums_of a + sums_of b) (min (m_min a) (m_min b)) (max (m_max a) (m_max b))
      (m_do_accumulate a \<or> m_do_accumulate b)"
proof -
  show eq: "combine a b = stats_of (sums_of a + sums_of b) (min (m_min a) (m_min b)) (max (m_max a) (m_max b))
      (m_do_accumulate a \<or> m_do_accumulate b)"
    using assms by (intro combine_sums) (simp_all add: solid_def)
  have pos: "0 < ps_n (sums_of a + sums_of b)" using assms by (simp add: solid_def)
  then show "solid (combine a b)" by (simp add: eq solid_stats_of)
  show "sums_of (combine a b) = sums_of a + sums_of b"
    using pos by (simp add: eq sums_of_stats)
qed

text \<open>
  On statistics of samples (objects that hold the moments of at least one value, as
  pushing produces them) the combination is commutative and associative and yields such an
  object again, in every field including the extrema and the optional sum. So the state of a
  global model does not depend on the order or the grouping in which the analysis processes'
  contributions arrive.
\<close>

lemma combine_abelian:
  assumes "solid a" "solid b" "solid c"
  shows "combine a b = combine b a \<and> combine (combine a b) c = combine a (combine b c)
    \<and> solid (combine a b)"
proof (intro conjI)
  show "combine a b = combine b a"
    using combine_solid(3) [of a b] combine_solid(3) [of b a] assms
    by (simp add: add.commute min.commute max.commute disj_commute)
  note ab = combine_solid [OF assms(1,2)] and bc = combine_solid [OF assms(2,3)]
  show "combine (combine a b) c = combine a (combine b c)"
    unfolding combine_solid(3) [OF ab(1) assms(3)] combine_solid(3) [OF assms(1) bc(1)] ab(2) bc(2)
    by (simp add: ab(3) bc(3) add.assoc min.assoc max.assoc disj_assoc)
  show "solid (combine a b)" by (rule ab(1))
qed

lemma combine_abelian_witness:
  "combine (combine (push 1 (new_RunStats True)) (push 5 (new_RunStats False))) (push (- 2) (new_RunStats True))
    = combine (push 1 (new_RunStats True)) (combine (push 5 (new_RunStats False)) (push (- 2) (new_RunStats True)))"

proof -
  have "solid (push 1 (new_RunStats True))" "solid (push 5 (new_RunStats False))" "solid (push (- 2) (new_RunStats True))"
    using solid_push_all(1) [of "[1]" True] solid_push_all(1) [of "[5]" False] solid_push_all(1) [of "[- 2]" True]
    by (simp_all add: push_all_def)
  from combine_abelian [OF this] show ?thesis by (elim conjE)
qed

section \<open>Objects that can be merged\<close>

text \<open>
  \<open>pluseq\<close> is an \<open>operator+=\<close>, \<open>repr k a s\<close> says that object \<open>a\<close>, kept under key
  \<open>k\<close>, describes the data \<open>s\<close>; \<open>join\<close> collects the data of two objects. The
  contract: the merger of two objects of the same key succeeds and describes the data of both.
\<close>

locale mergeable =
  fixes pluseq :: "'a \<Rightarrow> 'a \<Rightarrow> 'a res"
    and repr :: "'k \<Rightarrow> 'a \<Rightarrow> 's \<Rightarrow> bool"
    and join :: "'s \<Rightarrow> 's \<Rightarrow> 's"
    and nil :: 's
  assumes plus_ok: "repr k a s \<Longrightarrow> repr k b t \<Longrightarrow> \<exists>c. pluseq a b = Inr c \<and> repr k c (join s t)"
    and join_nil: "join s nil = s" "join nil s = s"
begin

lemma plus_all_ok:
  assumes "repr k a s" "list_all2 (repr k) bs ts"
  shows "\<exists>c. foldE (\<lambda>b a. pluseq a b) bs a = Inr c \<and> repr k c (foldl join s ts)"
  using assms(2,1)
proof (induction bs ts arbitrary: a s rule: list_all2_induct)
  case (Cons b bs t ts)
  obtain c where "pluseq a b = Inr c" "repr k c (join s t)"
    using plus_ok [OF Cons.prems Cons.hyps(1)] by blast
  with Cons.IH show ?case by simp
qed simp

end

end
