(* ===== verification/ParamModels.thy ===== *)
theory ParamModels
  imports Pool HistogramVBW
begin

text \<open>
  The anomaly detection models: the statistics per function of SSTD (\<open>sstd_param.cpp\<close>), the
  histograms per function of HBOS (\<open>hbos_param.cpp\<close>) and COPOD (\<open>copod_param.cpp\<close>), and the
  parameter server's manager (\<open>PSparamManager.cpp\<close>), which merges the models of its workers
  into a global one.

  A message that carries a model is the model itself: the cereal archives the code writes and
  reads back are taken to reproduce their contents. A merger of histograms also reports what it
  lost; the models drop these reports, as the code only prints them.
\<close>

section \<open>SSTD\<close>

type_synonym sstd_param = "(u64 \<times> run_stats) list"

text \<open>\<open>operator[]\<close>, which creates the entry, and the merger of one entry.\<close>

definition sstd_at :: "u64 \<Rightarrow> sstd_param \<Rightarrow> run_stats" where
  "sstd_at k m = al_get (new_RunStats False) m k"

definition sstd_entry :: "u64 \<times> run_stats \<Rightarrow> sstd_param \<Rightarrow> sstd_param" where
  "sstd_entry kv m = AList.update (fst kv) (plus_assign (sstd_at (fst kv) m) (snd kv)) m"

definition sstd_update :: "sstd_param \<Rightarrow> sstd_param \<Rightarrow> sstd_param" where
  "sstd_update runstats m = fold sstd_entry runstats m"

definition sstd_update_and_return :: "sstd_param \<Rightarrow> sstd_param \<Rightarrow> sstd_param \<times> sstd_param" where
  "sstd_update_and_return runstats m =
     foldl (\<lambda>(out, m) kv. let m' = sstd_entry kv m in (out @ [(fst kv, sstd_at (fst kv) m')], m'))
       ([], m) runstats"

definition sstd_assign :: "sstd_param \<Rightarrow> sstd_param \<Rightarrow> sstd_param" where
  "sstd_assign runstats m = fold (\<lambda>(k, v) m. AList.update k v m) runstats m"

definition sstd_clear :: "sstd_param \<Rightarrow> sstd_param" where
  "sstd_clear m = []"

section \<open>HBOS\<close>

record hbos_func_param =
  m_histogram :: histogram
  m_internal_global_threshold :: real

definition new_HbosFuncParam :: hbos_func_param where
  "new_HbosFuncParam = \<lparr> m_histogram = new_Histogram, m_internal_global_threshold = log 2 1.00001 \<rparr>"

definition hbos_merge :: "hbos_func_param \<Rightarrow> binWidthSpecifier \<Rightarrow> hbos_func_param \<Rightarrow> hbos_func_param res" where
  "hbos_merge other bw p =
     bind (merge_histograms bw (m_histogram p) (m_histogram other)) (\<lambda>(h, _).
     Inr \<lparr> m_histogram = h,
           m_internal_global_threshold = max (m_internal_global_threshold p) (m_internal_global_threshold other) \<rparr>)"

record hbos_param =
  m_hbosstats :: "(u64 \<times> hbos_func_param) list"
  m_maxbins :: int

definition new_HbosParam :: hbos_param where
  "new_HbosParam = \<lparr> m_hbosstats = [], m_maxbins = 200 \<rparr>"

definition hbos_clear :: "hbos_param \<Rightarrow> hbos_param" where
  "hbos_clear m = m \<lparr> m_hbosstats := [] \<rparr>"

definition hbos_copy :: "hbos_param \<Rightarrow> hbos_param \<Rightarrow> hbos_param" where
  "hbos_copy r m = m \<lparr> m_hbosstats := m_hbosstats r, m_maxbins := m_maxbins r \<rparr>"

definition hbos_at :: "u64 \<Rightarrow> hbos_param \<Rightarrow> hbos_func_param" where
  "hbos_at k m = al_get new_HbosFuncParam (m_hbosstats m) k"

definition hbos_put :: "u64 \<Rightarrow> hbos_func_param \<Rightarrow> hbos_param \<Rightarrow> hbos_param" where
  "hbos_put k p m = m \<lparr> m_hbosstats := AList.update k p (m_hbosstats m) \<rparr>"

definition hbos_assign :: "hbos_param \<Rightarrow> hbos_param \<Rightarrow> hbos_param" where
  "hbos_assign other m = fold (\<lambda>(k, v). hbos_put k v) (m_hbosstats other) m"

definition hbos_update :: "hbos_param \<Rightarrow> hbos_param \<Rightarrow> hbos_param res" where
  "hbos_update from_param m =
     (let bwspec = binWidthFixedNbin (m_maxbins from_param) in
      foldE (\<lambda>(k, v) m. bind (hbos_merge v bwspec (hbos_at k m)) (\<lambda>p. Inr (hbos_put k p m)))
        (m_hbosstats from_param) (m \<lparr> m_maxbins := m_maxbins from_param \<rparr>))"

definition hbos_update_and_return :: "hbos_param \<Rightarrow> hbos_param \<Rightarrow> (hbos_param \<times> hbos_param) res" where
  "hbos_update_and_return to_from m =
     bind (hbos_update to_from m) (\<lambda>m'.
     Inr (to_from \<lparr> m_hbosstats := map (\<lambda>(k, _). (k, hbos_at k m')) (m_hbosstats to_from) \<rparr>, m'))"

definition hbos_find :: "u64 \<Rightarrow> hbos_param \<Rightarrow> bool" where
  "hbos_find k m \<longleftrightarrow> map_of (m_hbosstats m) k \<noteq> None"

definition hbos_generate_histogram :: "u64 \<Rightarrow> real list \<Rightarrow> real \<Rightarrow> hbos_param \<Rightarrow> hbos_param res" where
  "hbos_generate_histogram model_id values global_threshold_init m =
     (if values = [] then Inr m
      else bind (create_histogram (binWidthFixedNbin (m_maxbins m)) values) (\<lambda>h.
        Inr (hbos_put model_id \<lparr> m_histogram = h, m_internal_global_threshold = global_threshold_init \<rparr> m)))"

definition eq_HbosFuncParam :: "hbos_func_param \<Rightarrow> hbos_func_param \<Rightarrow> bool" where
  "eq_HbosFuncParam l r \<longleftrightarrow> eq_histogram (m_histogram l) (m_histogram r)
     \<and> m_internal_global_threshold l = m_internal_global_threshold r"

definition eq_HbosParam :: "hbos_param \<Rightarrow> hbos_param \<Rightarrow> bool" where
  "eq_HbosParam l r = list_all (\<lambda>(k, v). case map_of (m_hbosstats l) k of
     None \<Rightarrow> False | Some w \<Rightarrow> eq_HbosFuncParam w v) (m_hbosstats r)"

section \<open>COPOD\<close>

record copod_func_param =
  c_histogram :: histogram
  c_internal_global_threshold :: real

definition new_CopodFuncParam :: copod_func_param where
  "new_CopodFuncParam = \<lparr> c_histogram = new_Histogram, c_internal_global_threshold = log 2 1.00001 \<rparr>"

definition copod_merge :: "copod_func_param \<Rightarrow> copod_func_param \<Rightarrow> copod_func_param res" where
  "copod_merge other p =
     bind (merge_histograms binWidthScott (c_histogram p) (c_histogram other)) (\<lambda>(h, _).
     Inr \<lparr> c_histogram = h,
           c_internal_global_threshold = max (c_internal_global_threshold p) (c_internal_global_threshold other) \<rparr>)"

type_synonym copod_param = "(u64 \<times> copod_func_param) list"

definition copod_at :: "u64 \<Rightarrow> copod_param \<Rightarrow> copod_func_param" where
  "copod_at k m = al_get new_CopodFuncParam m k"

definition copod_clear :: "copod_param \<Rightarrow> copod_param" where
  "copod_clear m = []"

definition copod_assign :: "copod_param \<Rightarrow> copod_param \<Rightarrow> copod_param" where
  "copod_assign other m = fold (\<lambda>(k, v) m. AList.update k v m) other m"

definition copod_update :: "copod_param \<Rightarrow> copod_param \<Rightarrow> copod_param res" where
  "copod_update other m =
     foldE (\<lambda>(k, v) m. bind (copod_merge v (copod_at k m)) (\<lambda>p. Inr (AList.update k p m))) other m"

definition copod_update_and_return :: "copod_param \<Rightarrow> copod_param \<Rightarrow> (copod_param \<times> copod_param) res" where
  "copod_update_and_return to_from m =
     foldE (\<lambda>(k, v) (out, m). bind (copod_merge v (copod_at k m)) (\<lambda>p.
        Inr (out @ [(k, p)], AList.update k p m))) to_from ([], m)"

definition copod_find :: "u64 \<Rightarrow> copod_param \<Rightarrow> bool" where
  "copod_find k m \<longleftrightarrow> map_of m k \<noteq> None"

section \<open>The parameter server's manager\<close>

text \<open>
  Generic in the model: \<open>upd p m\<close> is \<open>m.update(p)\<close> and \<open>fresh\<close> a new model. A worker
  thread updates its own model and returns the latest published global model; a global update
  builds a new global model from the workers' models one by one and publishes it.
\<close>

record 'p param_manager =
  m_worker_params :: "'p list"
  m_global_params :: 'p
  m_latest_global_params :: 'p
  m_force_update :: bool

definition new_PSparamManager :: "nat \<Rightarrow> 'p \<Rightarrow> 'p param_manager" where
  "new_PSparamManager nworker fresh =
     \<lparr> m_worker_params = replicate nworker fresh, m_global_params = fresh,
       m_latest_global_params = fresh, m_force_update = False \<rparr>"

definition publish :: "'p \<Rightarrow> 'p param_manager \<Rightarrow> 'p param_manager" where
  "publish g pm = pm \<lparr> m_global_params := g, m_latest_global_params := g \<rparr>"

definition pm_updateGlobalModel :: "('p \<Rightarrow> 'p \<Rightarrow> 'p res) \<Rightarrow> 'p \<Rightarrow> 'p param_manager \<Rightarrow> 'p param_manager res" where
  "pm_updateGlobalModel upd fresh pm =
     bind (foldE upd (m_worker_params pm) fresh) (\<lambda>g. Inr (publish g pm))"

definition worker_update :: "('p \<Rightarrow> 'p \<Rightarrow> 'p res) \<Rightarrow> 'p \<Rightarrow> int \<Rightarrow> 'p param_manager \<Rightarrow> 'p param_manager res" where
  "worker_update upd param worker_id pm =
     (if worker_id < 0 \<or> int (length (m_worker_params pm)) \<le> worker_id then Inl (Fatal ''Invalid worker id'')
      else let w = nat worker_id in
        bind (upd param (m_worker_params pm ! w)) (\<lambda>m.
          Inr (pm \<lparr> m_worker_params := (m_worker_params pm)[w := m] \<rparr>)))"

definition updateWorkerModel ::
    "('p \<Rightarrow> 'p \<Rightarrow> 'p res) \<Rightarrow> 'p \<Rightarrow> 'p \<Rightarrow> int \<Rightarrow> 'p param_manager \<Rightarrow> ('p \<times> 'p param_manager) res" where
  "updateWorkerModel upd fresh param worker_id pm =
     bind (worker_update upd param worker_id pm) (\<lambda>pm1.
     bind (if m_force_update pm1 then pm_updateGlobalModel upd fresh pm1 else Inr pm1) (\<lambda>pm2.
     Inr (m_latest_global_params pm2, pm2)))"

definition restoreGlobalModel :: "'p \<Rightarrow> ('p \<Rightarrow> 'p) \<Rightarrow> 'p param_manager \<Rightarrow> 'p param_manager res" where
  "restoreGlobalModel p clr pm =
     (case m_worker_params pm of
        [] \<Rightarrow> Inl OutOfBounds
      | _ # ws \<Rightarrow> Inr ((publish p pm) \<lparr> m_worker_params := p # map clr ws \<rparr>))"

definition getGlobalParamsCopy :: "('p \<Rightarrow> 'p \<Rightarrow> 'p) \<Rightarrow> 'p \<Rightarrow> 'p param_manager \<Rightarrow> 'p" where
  "getGlobalParamsCopy asg fresh pm = asg (m_latest_global_params pm) fresh"

end
