(* ===== verification/ParamServer.thy ===== *)
theory ParamServer
  imports ParamModels
begin

text \<open>
  The parameter server's model management (\<open>PSparamManager.cpp\<close>) with its threads as
  interleaved steps: workers that update their own models and updater threads that build a
  global model worker by worker and publish it. The data that a published model stands for are
  found once for every mergeable model, and then for SSTD, whose models fulfil the interface.
\<close>

section \<open>Interleaved threads\<close>

text \<open>
  \<open>received w\<close> are the models that worker \<open>w\<close> has been sent; a thread \<open>t\<close> that
  performs a global update is at \<open>(g, i)\<close> when it has merged the models of the workers below
  \<open>i\<close> into \<open>g\<close>. The lock of a model makes each update of it one step.
\<close>

record 'p pm_system =
  manager :: "'p param_manager"
  received :: "nat \<Rightarrow> 'p list"
  builders :: "nat \<rightharpoonup> 'p \<times> nat"

inductive pm_reach :: "('p \<Rightarrow> 'p \<Rightarrow> 'p res) \<Rightarrow> 'p \<Rightarrow> nat \<Rightarrow> 'p pm_system \<Rightarrow> bool"
  for upd fresh nworker where
  init: "pm_reach upd fresh nworker
    \<lparr> manager = new_PSparamManager nworker fresh, received = (\<lambda>_. []), builders = Map.empty \<rparr>"
| worker: "pm_reach upd fresh nworker S \<Longrightarrow> worker_update upd p (int w) (manager S) = Inr pm \<Longrightarrow>
    pm_reach upd fresh nworker
      (S \<lparr> manager := pm, received := (received S)(w := received S w @ [p]) \<rparr>)"
| start: "pm_reach upd fresh nworker S \<Longrightarrow>
    pm_reach upd fresh nworker (S \<lparr> builders := (builders S)(t \<mapsto> (fresh, 0)) \<rparr>)"
| merge: "pm_reach upd fresh nworker S \<Longrightarrow> builders S t = Some (g, i) \<Longrightarrow>
    i < length (m_worker_params (manager S)) \<Longrightarrow> upd (m_worker_params (manager S) ! i) g = Inr g' \<Longrightarrow>
    pm_reach upd fresh nworker (S \<lparr> builders := (builders S)(t \<mapsto> (g', Suc i)) \<rparr>)"
| publish: "pm_reach upd fresh nworker S \<Longrightarrow>
    builders S t = Some (g, length (m_worker_params (manager S))) \<Longrightarrow>
    pm_reach upd fresh nworker (S \<lparr> manager := publish g (manager S), builders := (builders S)(t := None) \<rparr>)"

section \<open>What a published model stands for\<close>

definition joined :: "('s \<Rightarrow> 's \<Rightarrow> 's) \<Rightarrow> 's \<Rightarrow> ('p \<Rightarrow> 's) \<Rightarrow> (nat \<Rightarrow> 'p list) \<Rightarrow> (nat \<Rightarrow> nat) \<Rightarrow> nat \<Rightarrow> 's" where
  "joined join nil smp rcv ns i =
     foldl join nil (map (\<lambda>w. foldl join nil (map smp (take (ns w) (rcv w)))) [0..<i])"

lemma joined_grows:
  assumes "\<forall>w. ns w \<le> length (rcv w)"
  shows "joined join nil smp (rcv(v := rcv v @ [p])) ns i = joined join nil smp rcv ns i"
  unfolding joined_def using assms by (intro arg_cong [where f = "foldl join nil"] map_cong refl) auto

lemma joined_Suc:
  "joined join nil smp rcv ns (Suc i) = join (joined join nil smp rcv ns i) (foldl join nil (map smp (take (ns i) (rcv i))))"
  by (simp add: joined_def)

lemma joined_upd: "i \<le> v \<Longrightarrow> joined join nil smp rcv (ns(v := n)) i = joined join nil smp rcv ns i"
  unfolding joined_def by (intro arg_cong [where f = "foldl join nil"] map_cong refl) auto

context mergeable
begin

definition stands_for :: "'k \<Rightarrow> ('a \<Rightarrow> 's) \<Rightarrow> (nat \<Rightarrow> 'a list) \<Rightarrow> nat \<Rightarrow> 'a \<Rightarrow> bool" where
  "stands_for k smp rcv i g \<longleftrightarrow>
     (\<exists>ns. (\<forall>w. ns w \<le> length (rcv w)) \<and> repr k g (joined join nil smp rcv ns i))"

definition pm_inv :: "'k \<Rightarrow> ('a \<Rightarrow> 's) \<Rightarrow> nat \<Rightarrow> 'a pm_system \<Rightarrow> bool" where
  "pm_inv k smp n S \<longleftrightarrow> length (m_worker_params (manager S)) = n
     \<and> (\<forall>w < n. repr k (m_worker_params (manager S) ! w) (foldl join nil (map smp (received S w))))
     \<and> (\<forall>t g i. builders S t = Some (g, i) \<longrightarrow> stands_for k smp (received S) i g)
     \<and> stands_for k smp (received S) n (m_latest_global_params (manager S))"

lemma stands_for_grows:
  "stands_for k smp rcv i g \<Longrightarrow> stands_for k smp (rcv(v := rcv v @ [p])) i g"
proof -
  assume "stands_for k smp rcv i g"
  then obtain ns where ns: "\<forall>w. ns w \<le> length (rcv w)" "repr k g (joined join nil smp rcv ns i)"
    by (auto simp: stands_for_def)
  moreover have "\<forall>w. ns w \<le> length ((rcv(v := rcv v @ [p])) w)" using ns(1) by (auto intro: le_SucI)
  ultimately show ?thesis unfolding stands_for_def by (intro exI [of _ ns]) (simp add: joined_grows)
qed

lemma joined_nil: "joined join nil smp rcv (\<lambda>_. 0) i = nil"
  by (induction i) (simp_all add: joined_Suc join_nil, simp add: joined_def)

lemma stands_for_fresh: "repr k fresh nil \<Longrightarrow> stands_for k smp rcv i fresh"
  unfolding stands_for_def by (rule exI [of _ "\<lambda>_. 0"]) (simp add: joined_nil)

lemma stands_for_merge:
  assumes "stands_for k smp rcv i g" "repr k p (foldl join nil (map smp (rcv i)))" "pluseq g p = Inr g'"
  shows "stands_for k smp rcv (Suc i) g'"
proof -
  obtain ns where ns: "\<forall>w. ns w \<le> length (rcv w)" "repr k g (joined join nil smp rcv ns i)"
    using assms(1) by (auto simp: stands_for_def)
  let ?ns = "ns(i := length (rcv i))"
  have "repr k g' (join (joined join nil smp rcv ns i) (foldl join nil (map smp (rcv i))))"
    using plus_ok [OF ns(2) assms(2)] assms(3) by auto
  then have "repr k g' (joined join nil smp rcv ?ns (Suc i))"
    by (simp add: joined_Suc joined_upd)
  with ns(1) show ?thesis unfolding stands_for_def by (intro exI [of _ ?ns]) auto
qed

lemma pm_reach_inv:
  assumes "pm_reach (\<lambda>p m. pluseq m p) fresh n S" "repr k fresh nil"
    and "\<And>w p. p \<in> set (received S w) \<Longrightarrow> repr k p (smp p)"
  shows "pm_inv k smp n S"
  using assms(1,3)
proof (induction rule: pm_reach.induct)
  case init
  then show ?case
    using assms(2) stands_for_fresh [OF assms(2)] by (simp add: pm_inv_def new_PSparamManager_def)
next
  case (worker S p w pm)
  have inv: "pm_inv k smp n S"
    by (rule worker.IH) (use worker.prems in \<open>fastforce split: if_splits\<close>)
  have p: "repr k p (smp p)" by (rule worker.prems [of p w]) simp
  obtain m where w: "w < n" and m: "pluseq (m_worker_params (manager S) ! w) p = Inr m"
    and pm: "pm = (manager S) \<lparr> m_worker_params := (m_worker_params (manager S))[w := m] \<rparr>"
    using worker.hyps(2) inv by (auto simp: worker_update_def pm_inv_def bind_simps split: if_splits)
  have "repr k m (join (foldl join nil (map smp (received S w))) (smp p))"
    using plus_ok [of k "m_worker_params (manager S) ! w" "foldl join nil (map smp (received S w))" p "smp p"]
      inv p w m by (auto simp: pm_inv_def)
  then show ?case
    using inv by (auto simp: pm_inv_def pm nth_list_update stands_for_grows)
next
  case (start S t)
  then show ?case using stands_for_fresh [OF assms(2)] by (auto simp: pm_inv_def)
next
  case (merge S t g i g')
  then have inv: "pm_inv k smp n S" by simp
  have "stands_for k smp (received S) (Suc i) g'"
    by (rule stands_for_merge) (use inv merge.hyps in \<open>auto simp: pm_inv_def\<close>)
  then show ?case using inv by (auto simp: pm_inv_def)
next
  case (publish S t g)
  then show ?case by (auto simp: pm_inv_def publish_def)
qed

lemma pm_update_all:
  assumes "pm_inv k smp n S" "repr k fresh nil"
  shows "\<exists>g. pm_updateGlobalModel (\<lambda>p m. pluseq m p) fresh (manager S) = Inr (publish g (manager S))
    \<and> repr k g (joined join nil smp (received S) (\<lambda>w. length (received S w)) n)"
proof -
  let ?ts = "map (\<lambda>w. foldl join nil (map smp (received S w))) [0..<n]"
  have "list_all2 (repr k) (m_worker_params (manager S)) ?ts"
    using assms(1) by (auto simp: pm_inv_def list_all2_conv_all_nth)
  from plus_all_ok [OF assms(2) this] show ?thesis
    by (auto simp: pm_updateGlobalModel_def joined_def)
qed

end

section \<open>SSTD models are mergeable\<close>

definition sstd_pluseq :: "sstd_param \<Rightarrow> sstd_param \<Rightarrow> sstd_param res" where
  "sstd_pluseq m p = Inr (sstd_update p m)"

text \<open>
  A model describes, for every function, a list of statistics: its entry is their pool.
\<close>

definition sstd_repr :: "unit \<Rightarrow> sstd_param \<Rightarrow> (u64 \<Rightarrow> run_stats list) \<Rightarrow> bool" where
  "sstd_repr u m f \<longleftrightarrow> distinct (map fst m) \<and> (\<forall>k. (\<forall>r \<in> set (f k). tidy r)
     \<and> (case map_of m k of None \<Rightarrow> f k = [] | Some r \<Rightarrow> r = pooled False (f k)))"

lemma sstd_repr_at: "sstd_repr u m f \<Longrightarrow> sstd_at k m = pooled False (f k)"
  by (auto simp: sstd_repr_def sstd_at_def al_get_def dest!: spec [of _ k] split: option.splits)

lemma sstd_entry_ok:
  assumes "sstd_repr u m f" "\<forall>r \<in> set rs. tidy r"
  shows "sstd_repr u (sstd_entry (k, pooled False rs) m) (f(k := f k @ rs))"
proof -
  have "combine (pooled False (f k)) (pooled False rs) = pooled False (f k @ rs)"
    using pooled_combine [of "f k" rs False False] assms by (auto simp: sstd_repr_def)
  then have entry: "sstd_entry (k, pooled False rs) m = AList.update k (pooled False (f k @ rs)) m"
    using sstd_repr_at [OF assms(1), of k] by (simp add: sstd_entry_def plus_assign_def)
  have slot: "case map_of (AList.update k (pooled False (f k @ rs)) m) i of None \<Rightarrow> (f(k := f k @ rs)) i = []
      | Some r \<Rightarrow> r = pooled False ((f(k := f k @ rs)) i)" for i
    using assms by (cases "i = k"; cases "map_of m i") (auto simp: sstd_repr_def dest!: spec [of _ i])
  have t: "\<forall>r \<in> set ((f(k := f k @ rs)) i). tidy r" for i
    using assms by (auto simp: sstd_repr_def)
  show ?thesis
    unfolding sstd_repr_def entry
    by (intro conjI allI t slot) (use assms in \<open>simp add: sstd_repr_def distinct_update\<close>)
qed

lemma sstd_update_ok:
  assumes "sstd_repr u m f" "sstd_repr u p g"
  shows "sstd_repr u (sstd_update p m) (\<lambda>k. f k @ g k)"
  using assms
proof (induction p arbitrary: m f g)
  case Nil
  then have "g = (\<lambda>_. [])" by (auto simp: sstd_repr_def)
  with Nil show ?case by (simp add: sstd_update_def)
next
  case (Cons x p)
  obtain k r where x: "x = (k, r)" by force
  have k: "k \<notin> fst ` set p" and r: "r = pooled False (g k)"
    using Cons.prems(2) x by (auto simp: sstd_repr_def dest!: spec [of _ k])
  have m: "sstd_repr u (sstd_entry x m) (f(k := f k @ g k))"
    unfolding x r by (rule sstd_entry_ok [OF Cons.prems(1)]) (use Cons.prems(2) in \<open>auto simp: sstd_repr_def\<close>)
  have none: "map_of p k = None" using k by (simp add: map_of_eq_None_iff)
  have slot: "case map_of p i of None \<Rightarrow> (g(k := [])) i = [] | Some r \<Rightarrow> r = pooled False ((g(k := [])) i)" for i
    using Cons.prems(2) none x by (cases "i = k"; cases "map_of p i") (auto simp: sstd_repr_def dest!: spec [of _ i])
  have p: "sstd_repr u p (g(k := []))"
    using Cons.prems(2) x slot by (auto simp: sstd_repr_def)
  have "(\<lambda>i. (f(k := f k @ g k)) i @ (g(k := [])) i) = (\<lambda>i. f i @ g i)" by auto
  with Cons.IH [OF m p] show ?case by (simp add: sstd_update_def)
qed

interpretation sstd: mergeable sstd_pluseq sstd_repr "\<lambda>f g k. f k @ g k" "\<lambda>_. []"
  by unfold_locales (use sstd_update_ok in \<open>auto simp: sstd_pluseq_def\<close>)

lemma foldl_joined: "foldl (\<lambda>f g k. f k @ g k) f fs = (\<lambda>k. f k @ concat (map (\<lambda>g. g k) fs))"
  by (induction fs arbitrary: f) auto

lemma joined_lists:
  "joined (\<lambda>f g k. f k @ g k) (\<lambda>_. []) smp rcv ns n =
     (\<lambda>k. concat (map (\<lambda>w. concat (map (\<lambda>p. smp p k) (take (ns w) (rcv w)))) [0..<n]))"
  unfolding joined_def by (simp add: foldl_joined comp_def)

text \<open>
  C14. However the parameter server's workers receive SSTD models and however its updater
  threads merge and publish in between: the published global model is, for every function, the
  pool of the statistics in the first so many models each worker received. No contribution is
  counted twice or lost from the middle, and a global update that is not interrupted by the
  workers succeeds and publishes the pool of all contributions received so far.
\<close>

theorem sstd_global_model:
  assumes "pm_reach (\<lambda>p m. sstd_pluseq m p) [] n S"
    and "\<And>w p. p \<in> set (received S w) \<Longrightarrow> sstd_repr () p (smp p)"
  shows "(\<exists>ns. (\<forall>w. ns w \<le> length (received S w)) \<and>
      (\<forall>k. sstd_at k (m_latest_global_params (manager S)) =
        pooled False (concat (map (\<lambda>w. concat (map (\<lambda>p. smp p k) (take (ns w) (received S w)))) [0..<n]))))
    \<and> (\<exists>g. pm_updateGlobalModel (\<lambda>p m. sstd_pluseq m p) [] (manager S) = Inr (publish g (manager S)) \<and>
      (\<forall>k. sstd_at k g = pooled False (concat (map (\<lambda>w. concat (map (\<lambda>p. smp p k) (received S w))) [0..<n]))))"
proof -
  have nil: "sstd_repr () [] (\<lambda>_. [])" by (simp add: sstd_repr_def)
  have inv: "sstd.pm_inv () smp n S" by (rule sstd.pm_reach_inv [OF assms(1) nil assms(2)])
  then have "sstd.stands_for () smp (received S) n (m_latest_global_params (manager S))"
    by (simp add: sstd.pm_inv_def)
  then obtain ns where ns: "\<forall>w. ns w \<le> length (received S w)"
      "sstd_repr () (m_latest_global_params (manager S)) (joined (\<lambda>f g k. f k @ g k) (\<lambda>_. []) smp (received S) ns n)"
    by (auto simp: sstd.stands_for_def)
  obtain g where g: "pm_updateGlobalModel (\<lambda>p m. sstd_pluseq m p) [] (manager S) = Inr (publish g (manager S))"
      "sstd_repr () g (joined (\<lambda>f g k. f k @ g k) (\<lambda>_. []) smp (received S) (\<lambda>w. length (received S w)) n)"
    using sstd.pm_update_all [OF inv nil] by blast
  have "sstd_at k g = pooled False (concat (map (\<lambda>w. concat (map (\<lambda>p. smp p k) (received S w))) [0..<n]))" for k
    using sstd_repr_at [OF g(2), of k] by (simp add: joined_lists)
  moreover have "sstd_at k (m_latest_global_params (manager S)) =
      pooled False (concat (map (\<lambda>w. concat (map (\<lambda>p. smp p k) (take (ns w) (received S w)))) [0..<n]))" for k
    using sstd_repr_at [OF ns(2), of k] by (simp add: joined_lists)
  ultimately show ?thesis using ns(1) g(1) by blast
qed

definition wit_stats :: run_stats where
  "wit_stats = push 3 (new_RunStats False)"

definition wit_model :: sstd_param where
  "wit_model = [(7, pooled False [wit_stats])]"

definition wit_sample :: "sstd_param \<Rightarrow> u64 \<Rightarrow> run_stats list" where
  "wit_sample p k = (if k = 7 then [wit_stats] else [])"

definition wit_system :: "sstd_param pm_system" where
  "wit_system = \<lparr> manager = \<lparr> m_worker_params = [sstd_update wit_model [], []], m_global_params = [],
       m_latest_global_params = [], m_force_update = False \<rparr>,
     received = (\<lambda>_. [])(0 := [wit_model]), builders = Map.empty \<rparr>"

lemma wit_system_reach: "pm_reach (\<lambda>p m. sstd_pluseq m p) [] 2 wit_system"
proof -
  let ?S = "\<lparr> manager = new_PSparamManager 2 [], received = (\<lambda>_. []), builders = Map.empty \<rparr>"
  have "pm_reach (\<lambda>p m. sstd_pluseq m p) [] 2
      (?S \<lparr> manager := manager wit_system, received := (received ?S)(0 := received ?S 0 @ [wit_model]) \<rparr>)"
    by (rule pm_reach.worker [OF pm_reach.init])
      (simp add: worker_update_def new_PSparamManager_def wit_system_def sstd_pluseq_def numeral_2_eq_2)
  then show ?thesis by (simp add: wit_system_def)
qed

theorem sstd_global_model_witness:
  "\<exists>g. pm_updateGlobalModel (\<lambda>p m. sstd_pluseq m p) [] (manager wit_system) = Inr (publish g (manager wit_system))
    \<and> sstd_at 7 g = pooled False [wit_stats]"
proof -
  have "tidy wit_stats"
    using solid_push_all(1) [of "[3]" False] by (simp add: wit_stats_def push_all_def solid_tidy)
  then have smp: "sstd_repr () p (wit_sample p)" if "p \<in> set (received wit_system w)" for w p
    using that by (auto simp: wit_system_def wit_model_def wit_sample_def sstd_repr_def split: if_splits)
  obtain g where "pm_updateGlobalModel (\<lambda>p m. sstd_pluseq m p) [] (manager wit_system) = Inr (publish g (manager wit_system))"
    "\<forall>k. sstd_at k g = pooled False (concat (map (\<lambda>w. concat (map (\<lambda>p. wit_sample p k)
      (received wit_system w))) [0..<2]))"
    using sstd_global_model [of 2 wit_system wit_sample] wit_system_reach smp by blast
  then have "pm_updateGlobalModel (\<lambda>p m. sstd_pluseq m p) [] (manager wit_system) = Inr (publish g (manager wit_system))"
    "sstd_at 7 g = pooled False [wit_stats]"
    by (auto simp: wit_system_def wit_sample_def upt_rec)
  then show ?thesis by blast
qed

end
