(* ===== verification/Outlier.thy ===== *)
theory Outlier
  imports DataInterface ParamServer
begin

text \<open>
  The outlier detection algorithms of \<open>src/core/ad/ADOutlier.cpp\<close>: the common part, which
  keeps a local and a global model and synchronises them, and SSTD, HBOS and COPOD. The server
  is an argument \<open>srv\<close>: a function of the model sent and of the state of the server side
  that gives the model it answers with, as \<open>updateWorkerModel\<close> of the parameter manager does.

  Quotients by a total count of zero are NaN in C++ and zero here; the properties ask for a
  non-zero total. The variance of a histogram with one populated bin is zero and its skewness
  NaN; the two comparisons COPOD makes with it are written out (\<open>copod_sign\<close>).
\<close>

section \<open>Choice of the algorithm\<close>

record algo_params =
  algorithm :: string
  sstd_sigma :: real
  hbos_thres :: real
  glob_thres :: bool
  hbos_max_bins :: int

definition new_AlgoParams :: algo_params where
  "new_AlgoParams = \<lparr> algorithm = ''hbos'', sstd_sigma = 6, hbos_thres = 0.99, glob_thres = True, hbos_max_bins = 200 \<rparr>"

datatype outlier_algorithm =
    ADOutlierSSTD real
  | ADOutlierHBOS real bool int
  | ADOutlierCOPOD real bool

definition set_algorithm :: "algo_params \<Rightarrow> outlier_algorithm res" where
  "set_algorithm params =
     (if algorithm params = ''sstd'' \<or> algorithm params = ''SSTD'' then Inr (ADOutlierSSTD (sstd_sigma params))
      else if algorithm params = ''hbos'' \<or> algorithm params = ''HBOS'' then
        Inr (ADOutlierHBOS (hbos_thres params) (glob_thres params) (hbos_max_bins params))
      else if algorithm params = ''copod'' \<or> algorithm params = ''COPOD'' then
        Inr (ADOutlierCOPOD (hbos_thres params) True)
      else Inl (Fatal (''Invalid algorithm: '' @ algorithm params)))"

section \<open>Local and global model\<close>

record 'p ad_outlier =
  m_use_ps :: bool
  m_param :: 'p
  m_local_param :: 'p
  m_sync_call_count :: int
  m_global_model_sync_freq :: int
  m_rank :: int

definition new_ADOutlier :: "int \<Rightarrow> 'p \<Rightarrow> 'p ad_outlier" where
  "new_ADOutlier rank fresh =
     \<lparr> m_use_ps = False, m_param = fresh, m_local_param = fresh, m_sync_call_count = 0,
       m_global_model_sync_freq = 1, m_rank = rank \<rparr>"

definition linkNetworkClient :: "bool option \<Rightarrow> 'p ad_outlier \<Rightarrow> 'p ad_outlier" where
  "linkNetworkClient client ad = ad \<lparr> m_use_ps := (client = Some True) \<rparr>"

definition setGlobalModelSyncFrequency :: "int \<Rightarrow> 'p ad_outlier \<Rightarrow> 'p ad_outlier" where
  "setGlobalModelSyncFrequency to ad = ad \<lparr> m_global_model_sync_freq := to \<rparr>"

text \<open>The operations of a model that the algorithms use.\<close>

record 'p param_ops =
  p_update :: "'p \<Rightarrow> 'p \<Rightarrow> 'p res"
  p_assign :: "'p \<Rightarrow> 'p \<Rightarrow> 'p"
  p_clear :: "'p \<Rightarrow> 'p"

type_synonym ('p, 's) model_server = "'p \<Rightarrow> 's \<Rightarrow> ('p \<times> 's) res"

definition sync_param ::
    "'p param_ops \<Rightarrow> ('p, 's) model_server \<Rightarrow> 'p \<Rightarrow> 'p ad_outlier \<times> 's \<Rightarrow> ('p ad_outlier \<times> 's) res" where
  "sync_param ops srv param st =
     (let (ad, s) = st in
      if \<not> m_use_ps ad then bind (p_update ops param (m_param ad)) (\<lambda>p. Inr (ad \<lparr> m_param := p \<rparr>, s))
      else bind (srv param s) (\<lambda>(answer, s'). Inr (ad \<lparr> m_param := p_assign ops answer (m_param ad) \<rparr>, s')))"

definition sync_due :: "'p ad_outlier \<Rightarrow> bool" where
  "sync_due ad \<longleftrightarrow> m_global_model_sync_freq ad > 0 \<and>
     (m_sync_call_count ad = 0 \<or> (m_sync_call_count ad + m_rank ad) mod m_global_model_sync_freq ad = 0)"

definition ad_updateGlobalModel ::
    "'p param_ops \<Rightarrow> ('p, 's) model_server \<Rightarrow> 'p ad_outlier \<times> 's \<Rightarrow> ('p ad_outlier \<times> 's) res" where
  "ad_updateGlobalModel ops srv st =
     bind (if sync_due (fst st) then
             bind (sync_param ops srv (m_local_param (fst st)) st) (\<lambda>(ad, s).
               Inr (ad \<lparr> m_local_param := p_clear ops (m_local_param ad) \<rparr>, s))
           else Inr st) (\<lambda>(ad, s).
     Inr (ad \<lparr> m_sync_call_count := m_sync_call_count ad + 1 \<rparr>, s))"

definition setGlobalParameters :: "'p param_ops \<Rightarrow> 'p \<Rightarrow> 'p ad_outlier \<Rightarrow> 'p ad_outlier" where
  "setGlobalParameters ops to ad = ad \<lparr> m_param := p_assign ops to (p_clear ops (m_param ad)) \<rparr>"

text \<open>
  The three algorithms run the same way: \<open>gather\<close> adds a data set to the statistics of the step,
  \<open>label\<close> labels a data set by the global model.
\<close>

definition gather_step ::
    "(u64 \<Rightarrow> real list \<Rightarrow> 'p \<Rightarrow> 'p res) \<Rightarrow> nat \<Rightarrow> elem list list \<times> 'p \<times> exec_interface \<Rightarrow>
     (elem list list \<times> 'p \<times> exec_interface) res" where
  "gather_step gather i st =
     (let (data_vals, param, d) = st in
      bind (getDataSet i d) (\<lambda>(vals, d1).
      bind (getDataSetModelIndex i d1) (\<lambda>model_idx.
      bind (gather model_idx (map e_value vals) param) (\<lambda>param1.
      Inr (data_vals @ [vals], param1, d1)))))"

definition label_step ::
    "(elem list \<Rightarrow> u64 \<Rightarrow> 'p \<Rightarrow> (elem list \<times> 'p) res) \<Rightarrow> elem list list \<Rightarrow> nat \<Rightarrow>
     'p ad_outlier \<times> exec_interface \<Rightarrow> ('p ad_outlier \<times> exec_interface) res" where
  "label_step label data_vals i st =
     (let (ad, d) = st in
      bind (getDataSetModelIndex i d) (\<lambda>model_idx.
      bind (label (data_vals ! i) model_idx (m_param ad)) (\<lambda>(vals, p).
      bind (recordDataSetLabels vals i d) (\<lambda>d1.
      Inr (ad \<lparr> m_param := p \<rparr>, d1)))))"

definition run_algorithm ::
    "'p param_ops \<Rightarrow> ('p, 's) model_server \<Rightarrow> 'p \<Rightarrow> (u64 \<Rightarrow> real list \<Rightarrow> 'p \<Rightarrow> 'p res) \<Rightarrow>
     (elem list \<Rightarrow> u64 \<Rightarrow> 'p \<Rightarrow> (elem list \<times> 'p) res) \<Rightarrow>
     exec_interface \<Rightarrow> 'p ad_outlier \<times> 's \<Rightarrow> ('p ad_outlier \<times> 's \<times> exec_interface) res" where
  "run_algorithm ops srv fresh gather label data st =
     bind (foldE (gather_step gather) [0..<nDataSets data] ([], fresh, data)) (\<lambda>(data_vals, param, data1).
     bind (p_update ops param (m_local_param (fst st))) (\<lambda>loc.
     bind (ad_updateGlobalModel ops srv ((fst st) \<lparr> m_local_param := loc \<rparr>, snd st)) (\<lambda>(ad, s).
     bind (foldE (label_step label data_vals) [0..<nDataSets data] (ad, data1)) (\<lambda>(ad1, data2).
     Inr (ad1, s, data2)))))"

section \<open>SSTD\<close>

definition sstd_ops :: "sstd_param param_ops" where
  "sstd_ops = \<lparr> p_update = (\<lambda>p m. Inr (sstd_update p m)), p_assign = sstd_assign, p_clear = sstd_clear \<rparr>"

definition sstd_gather :: "u64 \<Rightarrow> real list \<Rightarrow> sstd_param \<Rightarrow> sstd_param res" where
  "sstd_gather k values m = Inr (AList.update k (fold push values (sstd_at k m)) m)"

definition computeScore :: "real \<Rightarrow> u64 \<Rightarrow> sstd_param \<Rightarrow> real res" where
  "computeScore v model_idx stats =
     (case map_of stats model_idx of
        None \<Rightarrow> Inl (Fatal ''Model index not in stats!'')
      | Some r \<Rightarrow>
          (let std_dev = (if stddev r 1 = 0 then 1 / 10 ^ 10 else stddev r 1)
           in Inr (\<bar>v - m_eta r\<bar> / std_dev)))"

definition sstd_label_one :: "real \<Rightarrow> real \<Rightarrow> u64 \<Rightarrow> sstd_param \<Rightarrow> elem \<Rightarrow> elem res" where
  "sstd_label_one thr_lo thr_hi model_idx param e =
     bind (computeScore (e_value e) model_idx param) (\<lambda>score.
       Inr (e \<lparr> e_label := (if thr_lo > e_value e \<or> thr_hi < e_value e then Outlier else Normal), e_score := score \<rparr>))"

fun map_res :: "('a \<Rightarrow> 'b res) \<Rightarrow> 'a list \<Rightarrow> 'b list res" where
  "map_res f [] = Inr []"
| "map_res f (x # xs) = bind (f x) (\<lambda>y. bind (map_res f xs) (\<lambda>ys. Inr (y # ys)))"

definition sstd_labelData :: "real \<Rightarrow> elem list \<Rightarrow> u64 \<Rightarrow> sstd_param \<Rightarrow> (elem list \<times> sstd_param) res" where
  "sstd_labelData sigma data_vals model_idx param =
     (if data_vals = [] then Inr (data_vals, param)
      else
       let fparam = sstd_at model_idx param; param1 = AList.update model_idx fparam param in
       if m_count fparam < 2 then Inr (data_vals, param1)
       else
        let mean = m_eta fparam; std = stddev fparam 1;
            thr_hi = mean + sigma * std; thr_lo = mean - sigma * std in
        bind (map_res (sstd_label_one thr_lo thr_hi model_idx param1) data_vals) (\<lambda>vals.
        Inr (vals, param1)))"

definition sstd_run ::
    "(sstd_param, 's) model_server \<Rightarrow> real \<Rightarrow> exec_interface \<Rightarrow> sstd_param ad_outlier \<times> 's \<Rightarrow>
     (sstd_param ad_outlier \<times> 's \<times> exec_interface) res" where
  "sstd_run srv sigma = run_algorithm sstd_ops srv [] sstd_gather (sstd_labelData sigma)"

section \<open>HBOS\<close>

definition hbos_ops :: "hbos_param param_ops" where
  "hbos_ops = \<lparr> p_update = hbos_update, p_assign = hbos_assign, p_clear = hbos_clear \<rparr>"

definition hbos_gather :: "u64 \<Rightarrow> real list \<Rightarrow> hbos_param \<Rightarrow> hbos_param res" where
  "hbos_gather k values m = hbos_generate_histogram k values 0 m"

definition hbos_prob :: "histogram \<Rightarrow> nat \<Rightarrow> real" where
  "hbos_prob hist i = real (unat (binCount hist i)) / real (unat (totalCount hist))"

definition hbos_bin_score :: "real \<Rightarrow> histogram \<Rightarrow> nat \<Rightarrow> real" where
  "hbos_bin_score alpha hist i = - 1 * log 2 (hbos_prob hist i + alpha)"

text \<open>The smallest and the largest score of the populated bins.\<close>

definition hbos_score_range :: "real \<Rightarrow> histogram \<Rightarrow> real \<times> real" where
  "hbos_score_range alpha hist =
     fold (\<lambda>i (mn, mx). if hbos_prob hist i > 0
         then (min mn (hbos_bin_score alpha hist i), max mx (hbos_bin_score alpha hist i)) else (mn, mx))
       [0..<Nbin hist] (dbl_max, dbl_lowest)"

definition hbos_local_threshold :: "real \<Rightarrow> real \<Rightarrow> histogram \<Rightarrow> real" where
  "hbos_local_threshold alpha thres hist =
     (let (min_score, max_score) = hbos_score_range alpha hist
      in min_score + thres * (max_score - min_score))"

definition hbos_threshold :: "real \<Rightarrow> real \<Rightarrow> bool \<Rightarrow> hbos_func_param \<Rightarrow> real \<times> hbos_func_param" where
  "hbos_threshold alpha thres use_global fparam =
     (let l_threshold = hbos_local_threshold alpha thres (m_histogram fparam);
          g_threshold = m_internal_global_threshold fparam in
      if use_global then
        (if l_threshold < g_threshold then (g_threshold, fparam)
         else (l_threshold, fparam \<lparr> m_internal_global_threshold := l_threshold \<rparr>))
      else (l_threshold, fparam))"

definition hbos_score :: "real \<Rightarrow> histogram \<Rightarrow> real \<Rightarrow> real res" where
  "hbos_score alpha hist v =
     bind (getBin hist v (5 / 100)) (\<lambda>b. case b of
       Bin i \<Rightarrow> Inr (hbos_bin_score alpha hist i)
     | _ \<Rightarrow> Inr (- 1 * log 2 (0 + alpha)))"

definition hbos_label_one :: "real \<Rightarrow> real \<Rightarrow> histogram \<Rightarrow> elem \<Rightarrow> elem res" where
  "hbos_label_one alpha l_threshold hist e =
     bind (hbos_score alpha hist (e_value e)) (\<lambda>ad_score.
       Inr (e \<lparr> e_score := ad_score, e_label := (if ad_score \<ge> l_threshold then Outlier else Normal) \<rparr>))"

definition hbos_labelData ::
    "real \<Rightarrow> real \<Rightarrow> bool \<Rightarrow> elem list \<Rightarrow> u64 \<Rightarrow> hbos_param \<Rightarrow> (elem list \<times> hbos_param) res" where
  "hbos_labelData alpha thres use_global data_vals model_idx param =
     (if data_vals = [] then Inr (data_vals, param)
      else
       let fparam = hbos_at model_idx param; hist = m_histogram fparam in
       if Nbin hist = 0 then Inr (data_vals, hbos_put model_idx fparam param)
       else
        let (l_threshold, fparam1) = hbos_threshold alpha thres use_global fparam in
        bind (map_res (hbos_label_one alpha l_threshold hist) data_vals) (\<lambda>vals.
        Inr (vals, hbos_put model_idx fparam1 param)))"

definition default_alpha :: real where
  "default_alpha = 7888 / 10 ^ 34"

definition hbos_run ::
    "(hbos_param, 's) model_server \<Rightarrow> real \<Rightarrow> bool \<Rightarrow> int \<Rightarrow> exec_interface \<Rightarrow> hbos_param ad_outlier \<times> 's \<Rightarrow>
     (hbos_param ad_outlier \<times> 's \<times> exec_interface) res" where
  "hbos_run srv thres use_global maxbins =
     run_algorithm hbos_ops srv (new_HbosParam \<lparr> m_maxbins := maxbins \<rparr>) hbos_gather
       (hbos_labelData default_alpha thres use_global)"

section \<open>COPOD\<close>

definition copod_ops :: "copod_param param_ops" where
  "copod_ops = \<lparr> p_update = copod_update, p_assign = copod_assign, p_clear = copod_clear \<rparr>"

definition copod_gather :: "u64 \<Rightarrow> real list \<Rightarrow> copod_param \<Rightarrow> copod_param res" where
  "copod_gather k values m =
     (let fparam = copod_at k m in
      if values = [] then Inr (AList.update k fparam m)
      else bind (create_histogram binWidthScott values) (\<lambda>h.
        Inr (AList.update k (fparam \<lparr> c_histogram := h \<rparr>) m)))"

definition hist_variance :: "histogram \<Rightarrow> real" where
  "hist_variance h =
     (let (s2, s1, csum) = foldl (\<lambda>(s2, s1, csum) b.
            let v = binValue h b; c = real (unat (h_counts h ! b)) in
            (s2 + c * v ^ 2, s1 + c * v, csum + h_counts h ! b)) (0, 0, 0) [0..<Nbin h];
          n = real (unat csum)
      in s2 / n - s1 / n * (s1 / n))"

definition copod_sign :: "real \<Rightarrow> histogram \<Rightarrow> real" where
  "copod_sign c h = (if hist_variance h = 0 then 0
     else if hist_skewness h + c < 0 then - 1 else if hist_skewness h + c > 0 then 1 else 0)"

definition tail_prob :: "histogram \<Rightarrow> real \<Rightarrow> cdf_workspace \<Rightarrow> (real \<times> cdf_workspace) res" where
  "tail_prob hist v w =
     bind (empiricalCDF hist v (Some w)) (\<lambda>(p, ws).
       let w1 = (case ws of Some w1 \<Rightarrow> w1 | None \<Rightarrow> w) in
       if v \<ge> h_min hist then
         (let (sum, w2) = getSum hist w1 in Inr (min 1 (p + 1 / real (unat sum)), w2))
       else Inr (p, w1))"

definition copod_score ::
    "real \<Rightarrow> histogram \<Rightarrow> histogram \<Rightarrow> real \<Rightarrow> real \<Rightarrow> real \<Rightarrow> cdf_workspace \<times> cdf_workspace \<Rightarrow>
     (real \<times> cdf_workspace \<times> cdf_workspace) res" where
  "copod_score v hist nhist alpha p_sign n_sign ws =
     bind (tail_prob hist v (fst ws)) (\<lambda>(left_tailed_prob, w).
     bind (tail_prob nhist (- v) (snd ws)) (\<lambda>(right_tailed_prob, nw).
     let left_tailed_score = - log 2 (left_tailed_prob + alpha);
         right_tailed_score = - log 2 (right_tailed_prob + alpha);
         avg_lr_score = (left_tailed_score + right_tailed_score) / 2;
         corrected_score = left_tailed_score * - 1 * p_sign + right_tailed_score * n_sign
     in Inr (max avg_lr_score corrected_score, w, nw)))"

definition copod_local_threshold :: "real \<Rightarrow> real \<times> real \<Rightarrow> real" where
  "copod_local_threshold thres rng =
     (let (min_score, max_score) = rng in
      if max_score < 0 then - 1 * thres * (max_score - min_score)
      else min_score + thres * (max_score - min_score))"

definition copod_threshold :: "bool \<Rightarrow> real \<Rightarrow> copod_func_param \<Rightarrow> real \<times> copod_func_param" where
  "copod_threshold use_global l_threshold fparam =
     (let g_threshold = c_internal_global_threshold fparam in
      if use_global then
        (if l_threshold < g_threshold \<and> g_threshold > - 1 * log 2 1.00001 then (g_threshold, fparam)
         else (l_threshold, fparam \<lparr> c_internal_global_threshold := l_threshold \<rparr>))
      else (l_threshold, fparam))"

definition copod_label_one ::
    "real \<Rightarrow> real \<Rightarrow> histogram \<Rightarrow> histogram \<Rightarrow> elem \<Rightarrow>
     elem list \<times> cdf_workspace \<times> cdf_workspace \<Rightarrow> (elem list \<times> cdf_workspace \<times> cdf_workspace) res" where
  "copod_label_one alpha l_threshold hist nhist e st =
     bind (copod_score (e_value e) hist nhist alpha (copod_sign (- 1) hist) (copod_sign 1 hist) (snd st))
       (\<lambda>(score, ws). Inr (fst st @ [e \<lparr> e_score := score,
          e_label := (if score \<ge> l_threshold then Outlier else Normal) \<rparr>], ws))"

definition copod_range_step ::
    "real \<Rightarrow> histogram \<Rightarrow> histogram \<Rightarrow> nat \<Rightarrow>
     (real \<times> real) \<times> cdf_workspace \<times> cdf_workspace \<Rightarrow> ((real \<times> real) \<times> cdf_workspace \<times> cdf_workspace) res" where
  "copod_range_step alpha hist nhist b st =
     bind (copod_score (binValue hist b) hist nhist alpha (copod_sign (- 1) hist) (copod_sign 1 hist) (snd st))
       (\<lambda>(score, ws). Inr ((min score (fst (fst st)), max score (snd (fst st))), ws))"

definition copod_labelData ::
    "real \<Rightarrow> real \<Rightarrow> bool \<Rightarrow> elem list \<Rightarrow> u64 \<Rightarrow> copod_param \<Rightarrow> (elem list \<times> copod_param) res" where
  "copod_labelData alpha thres use_global data_vals model_idx param =
     (if data_vals = [] then Inr (data_vals, param)
      else
       let fparam = copod_at model_idx param; hist = c_histogram fparam in
       if Nbin hist = 0 then Inr (data_vals, AList.update model_idx fparam param)
       else
        let nhist = negate hist; min0 = - 1 * log 2 (0 + alpha); max0 = log 2 (1 + alpha) - min0 in
        bind (foldE (copod_range_step alpha hist nhist) [0..<Nbin hist] ((min0, max0), None, None)) (\<lambda>(rng, ws).
        let (l_threshold, fparam1) = copod_threshold use_global (copod_local_threshold thres rng) fparam in
        bind (foldE (copod_label_one alpha l_threshold hist nhist) data_vals ([], ws)) (\<lambda>(vals, ws1).
        Inr (vals, AList.update model_idx fparam1 param))))"

definition copod_run ::
    "(copod_param, 's) model_server \<Rightarrow> real \<Rightarrow> bool \<Rightarrow> exec_interface \<Rightarrow> copod_param ad_outlier \<times> 's \<Rightarrow>
     (copod_param ad_outlier \<times> 's \<times> exec_interface) res" where
  "copod_run srv thres use_global =
     run_algorithm copod_ops srv [] copod_gather (copod_labelData default_alpha thres use_global)"

end
