(* ===== verification/HbosProps.thy ===== *)
theory HbosProps
  imports Outlier HistogramRange
begin

text \<open>
  What the labels of HBOS mean: an event is an outlier exactly when the probability of its bin
  is at most a bound computed from the largest and the smallest probability of the populated
  bins, which is the formula a comment of \<open>ADOutlierHBOS::labelData\<close> gives.
\<close>

section \<open>Probabilities and the bound\<close>

definition populated :: "histogram \<Rightarrow> real set" where
  "populated hist = hbos_prob hist ` {i. i < Nbin hist \<and> 0 < hbos_prob hist i}"

definition value_prob :: "histogram \<Rightarrow> real \<Rightarrow> real" where
  "value_prob hist v = (case getBin hist v (5 / 100) of Inr (Bin i) \<Rightarrow> hbos_prob hist i | _ \<Rightarrow> 0)"

definition hbos_bound :: "real \<Rightarrow> real \<Rightarrow> histogram \<Rightarrow> real" where
  "hbos_bound alpha thres hist =
     (Max (populated hist) + alpha) powr (1 - thres) * (Min (populated hist) + alpha) powr thres"

definition alpha_ok :: "real \<Rightarrow> bool" where
  "alpha_ok alpha \<longleftrightarrow> 1 / 2 ^ 1000 \<le> alpha \<and> alpha \<le> 1"

lemma default_alpha_ok: "alpha_ok default_alpha"
  by (simp add: alpha_ok_def default_alpha_def)

lemma alpha_pos: "alpha_ok alpha \<Longrightarrow> 0 < alpha"
  unfolding alpha_ok_def by (rule less_le_trans [of _ "1 / 2 ^ 1000"]) auto

lemma prob_nonneg: "0 \<le> hbos_prob hist i"
  by (simp add: hbos_prob_def)

lemma finite_populated: "finite (populated hist)"
  by (simp add: populated_def)

lemma populated_pos: "p \<in> populated hist \<Longrightarrow> 0 < p"
  by (auto simp: populated_def)

lemma prob_le_1:
  assumes "total hist < 2 ^ 64" "i < Nbin hist"
  shows "hbos_prob hist i \<le> 1"
proof -
  have "unat (binCount hist i) \<le> total hist"
    unfolding total_def using assms(2) by (intro member_le_sum) auto
  then have "real (unat (binCount hist i)) \<le> real (unat (totalCount hist))"
    using unat_totalCount [OF assms(1)] by (simp del: of_nat_unat)
  then show ?thesis
    unfolding hbos_prob_def by (intro divide_le_eq_1 [THEN iffD2]) (auto simp del: of_nat_unat)
qed

section \<open>The range of the scores\<close>

lemma Min_min_insert: "finite S \<Longrightarrow> Min (insert (min a x) S) = Min (insert (a :: real) (insert x S))"
  by (cases "S = {}") (simp_all add: min.assoc)

lemma Max_max_insert: "finite S \<Longrightarrow> Max (insert (max a x) S) = Max (insert (a :: real) (insert x S))"
  by (cases "S = {}") (simp_all add: max.assoc)

lemma fold_range:
  fixes s :: "nat \<Rightarrow> real"
  shows "fold (\<lambda>i (mn, mx). if Q i then (min mn (s i), max mx (s i)) else (mn, mx)) is (a, b)
    = (Min (insert a (s ` {i \<in> set is. Q i})), Max (insert b (s ` {i \<in> set is. Q i})))"
proof (induction "is" arbitrary: a b)
  case (Cons i "is")
  let ?S = "s ` {i \<in> set is. Q i}"
  show ?case
  proof (cases "Q i")
    case True
    have "{j \<in> set (i # is). Q j} = insert i {j \<in> set is. Q j}" using True by auto
    then have eq: "s ` {j \<in> set (i # is). Q j} = insert (s i) ?S" by simp
    have "finite ?S" by simp
    from Min_min_insert [OF this] Max_max_insert [OF this] show ?thesis
      using True by (simp only: fold_simps case_prod_conv if_True Cons.IH eq)
  next
    case False
    then have "{j \<in> set (i # is). Q j} = {j \<in> set is. Q j}" by auto
    then show ?thesis using False by (simp only: fold_simps case_prod_conv if_False Cons.IH)
  qed
qed simp

lemma log2_mono: "0 < x \<Longrightarrow> x \<le> y \<Longrightarrow> log 2 x \<le> log 2 y"
  by simp

lemma log2_bounds:
  assumes "alpha_ok alpha" "0 \<le> p" "p \<le> 1"
  shows "- 1 \<le> - log 2 (p + alpha)" "- log 2 (p + alpha) \<le> 1000"
proof -
  have a: "0 < alpha" by (rule alpha_pos [OF assms(1)])
  have "log 2 (p + alpha) \<le> log 2 2"
    using assms a by (intro log2_mono) (auto simp: alpha_ok_def)
  then show "- 1 \<le> - log 2 (p + alpha)" by simp
  have L: "log 2 (1 / 2 ^ n) = - real n" for n :: nat
    by (simp add: log_divide log_nat_power)
  have "1 / 2 ^ 1000 \<le> p + alpha" using assms unfolding alpha_ok_def by linarith
  then have "log 2 (1 / 2 ^ 1000) \<le> log 2 (p + alpha)" by (intro log2_mono) auto
  then have "- real 1000 \<le> log 2 (p + alpha)" unfolding L .
  then show "- log 2 (p + alpha) \<le> 1000" by simp
qed

lemma dbl_limits: "1000 \<le> dbl_max" "dbl_lowest \<le> - 1"
  by (simp_all add: dbl_max_def dbl_lowest_def)

lemma score_range:
  assumes al: "alpha_ok alpha" and t: "total hist < 2 ^ 64" and P: "populated hist \<noteq> {}"
  shows "hbos_score_range alpha hist =
    (- log 2 (Max (populated hist) + alpha), - log 2 (Min (populated hist) + alpha))"
proof -
  let ?A = "{i \<in> set [0..<Nbin hist]. hbos_prob hist i > 0}"
  let ?s = "hbos_bin_score alpha hist"
  have PA: "populated hist = hbos_prob hist ` ?A" by (auto simp: populated_def)
  have s: "?s i = - log 2 (hbos_prob hist i + alpha)" for i by (simp add: hbos_bin_score_def)
  have mem: "Max (populated hist) \<in> populated hist" "Min (populated hist) \<in> populated hist"
    using P finite_populated by (auto intro: Max_in Min_in)
  then obtain i j where i: "i \<in> ?A" "hbos_prob hist i = Max (populated hist)"
      and j: "j \<in> ?A" "hbos_prob hist j = Min (populated hist)" unfolding PA by auto
  have le: "- log 2 (Max (populated hist) + alpha) \<le> ?s k" "?s k \<le> - log 2 (Min (populated hist) + alpha)"
    if "k \<in> ?A" for k
  proof -
    have k: "Min (populated hist) \<le> hbos_prob hist k" "hbos_prob hist k \<le> Max (populated hist)"
      using that finite_populated [of hist] by (auto simp: PA intro!: Min_le Max_ge)
    have "0 < Min (populated hist)" using mem(2) by (rule populated_pos)
    with k alpha_pos [OF al] show "- log 2 (Max (populated hist) + alpha) \<le> ?s k"
      "?s k \<le> - log 2 (Min (populated hist) + alpha)"
      by (auto simp: s intro!: log2_mono)
  qed
  have bounds: "- 1 \<le> ?s k \<and> ?s k \<le> 1000" if "k \<in> ?A" for k
    using that log2_bounds [OF al prob_nonneg prob_le_1 [OF t]] by (simp add: s)
  have "Min (insert dbl_max (?s ` ?A)) = - log 2 (Max (populated hist) + alpha)"
    using imageI [OF i(1), of ?s] i(2) s [of i] le(1) bounds [OF i(1)] dbl_limits by (intro Min_eqI) auto
  moreover have "Max (insert dbl_lowest (?s ` ?A)) = - log 2 (Min (populated hist) + alpha)"
    using imageI [OF j(1), of ?s] j(2) s [of j] le(2) bounds [OF j(1)] dbl_limits by (intro Max_eqI) auto
  ultimately show ?thesis
    unfolding hbos_score_range_def fold_range by simp
qed

lemma local_threshold:
  assumes "alpha_ok alpha" "total hist < 2 ^ 64" "populated hist \<noteq> {}"
  shows "hbos_local_threshold alpha thres hist = - log 2 (hbos_bound alpha thres hist)"
    and "0 < hbos_bound alpha thres hist"
proof -
  have "Max (populated hist) \<in> populated hist" "Min (populated hist) \<in> populated hist"
    using assms(3) finite_populated by (auto intro: Max_in Min_in)
  then have pos: "0 < Max (populated hist) + alpha" "0 < Min (populated hist) + alpha"
    using alpha_pos [OF assms(1)] by (auto dest!: populated_pos)
  then show "0 < hbos_bound alpha thres hist" by (simp add: hbos_bound_def)
  show "hbos_local_threshold alpha thres hist = - log 2 (hbos_bound alpha thres hist)"
    using pos
    by (simp add: hbos_local_threshold_def score_range [OF assms] hbos_bound_def log_mult log_powr algebra_simps)
qed

section \<open>The labels\<close>

definition hbos_limit :: "real \<Rightarrow> real \<Rightarrow> bool \<Rightarrow> hbos_func_param \<Rightarrow> real" where
  "hbos_limit alpha thres use_global fparam =
     (let b = hbos_bound alpha thres (m_histogram fparam) in
      if use_global then min b (2 powr (- m_internal_global_threshold fparam)) else b)"

definition hbos_labelled :: "real \<Rightarrow> real \<Rightarrow> histogram \<Rightarrow> elem \<Rightarrow> elem \<Rightarrow> bool" where
  "hbos_labelled alpha limit hist e e' \<longleftrightarrow>
     e' = e \<lparr> e_label := (if value_prob hist (e_value e) + alpha \<le> limit then Outlier else Normal),
              e_score := - log 2 (value_prob hist (e_value e) + alpha) \<rparr>"

lemma value_score:
  assumes "wf_hist hist"
  shows "hbos_score alpha hist v = Inr (- log 2 (value_prob hist v + alpha))"
  using getBin_cases [OF assms, of "5 / 100" v]
  by (auto simp: hbos_score_def value_prob_def hbos_bin_score_def)

lemma value_prob_nonneg: "0 \<le> value_prob hist v"
  by (simp add: value_prob_def prob_nonneg split: sum.split bin_index.split)

lemma threshold_label:
  assumes "alpha_ok alpha" "total (m_histogram fparam) < 2 ^ 64" "populated (m_histogram fparam) \<noteq> {}"
    and "0 \<le> p"
  shows "fst (hbos_threshold alpha thres use_global fparam) \<le> - log 2 (p + alpha)
    \<longleftrightarrow> p + alpha \<le> hbos_limit alpha thres use_global fparam"
proof -
  let ?b = "hbos_bound alpha thres (m_histogram fparam)" and ?g = "m_internal_global_threshold fparam"
  note lt = local_threshold [OF assms(1-3)]
  have pos: "0 < p + alpha" using alpha_pos [OF assms(1)] assms(4) by simp
  have 1: "- log 2 ?b \<le> - log 2 (p + alpha) \<longleftrightarrow> p + alpha \<le> ?b"
    using pos lt(2) by simp
  have 2: "?g \<le> - log 2 (p + alpha) \<longleftrightarrow> p + alpha \<le> 2 powr (- ?g)"
  proof -
    have "?g \<le> - log 2 (p + alpha) \<longleftrightarrow> log 2 (p + alpha) \<le> - ?g" by linarith
    also have "\<dots> \<longleftrightarrow> p + alpha \<le> 2 powr (- ?g)" using pos by (simp add: log_le_iff)
    finally show ?thesis .
  qed
  show ?thesis
    using 1 2 by (auto simp: hbos_threshold_def Let_def lt(1) hbos_limit_def)
qed

lemma map_res_total:
  assumes "\<And>x. x \<in> set xs \<Longrightarrow> \<exists>y. f x = Inr y \<and> R x y"
  shows "\<exists>ys. map_res f xs = Inr ys \<and> list_all2 R xs ys"
  using assms
proof (induction xs)
  case (Cons x xs)
  then obtain y ys where "f x = Inr y" "R x y" "map_res f xs = Inr ys" "list_all2 R xs ys" by force
  then show ?case by simp
qed simp

lemma populated_nonempty:
  assumes "0 < total hist" "total hist < 2 ^ 64"
  shows "populated hist \<noteq> {}"
proof -
  have "\<exists>i < Nbin hist. 0 < unat (binCount hist i)"
  proof (rule ccontr)
    assume "\<not> (\<exists>i < Nbin hist. 0 < unat (binCount hist i))"
    then have "total hist = 0" by (simp add: total_def)
    with assms(1) show False by simp
  qed
  then obtain i where "i < Nbin hist" "0 < real (unat (binCount hist i))" by (auto simp del: of_nat_unat)
  moreover have "0 < real (unat (totalCount hist))" using assms unat_totalCount by simp
  ultimately have "i < Nbin hist \<and> 0 < hbos_prob hist i" by (simp add: hbos_prob_def del: of_nat_unat)
  then show ?thesis by (auto simp: populated_def)
qed

lemma hbos_label_run:
  assumes "wf_hist (m_histogram (hbos_at k param))" "0 < total (m_histogram (hbos_at k param))"
    and "total (m_histogram (hbos_at k param)) < 2 ^ 64" "alpha_ok alpha" "data \<noteq> []"
  shows "\<exists>vals param'. hbos_labelData alpha thres use_global data k param = Inr (vals, param') \<and>
    list_all2 (hbos_labelled alpha (hbos_limit alpha thres use_global (hbos_at k param)) (m_histogram (hbos_at k param))) data vals \<and>
    (\<forall>j. m_histogram (hbos_at j param') = m_histogram (hbos_at j param) \<and>
      m_internal_global_threshold (hbos_at j param) \<le> m_internal_global_threshold (hbos_at j param')) \<and>
    (\<forall>j. j \<noteq> k \<longrightarrow> hbos_at j param' = hbos_at j param)"
proof -
  let ?f = "hbos_at k param" and ?h = "m_histogram (hbos_at k param)"
  note P = populated_nonempty [OF assms(2,3)]
  obtain l f1 where lf: "hbos_threshold alpha thres use_global ?f = (l, f1)" by force
  have f1: "m_histogram f1 = ?h \<and> m_internal_global_threshold ?f \<le> m_internal_global_threshold f1"
    using lf by (auto simp: hbos_threshold_def Let_def split: if_splits)
  have "hbos_label_one alpha l ?h e = Inr (e \<lparr> e_label := (if value_prob ?h (e_value e) + alpha
      \<le> hbos_limit alpha thres use_global ?f then Outlier else Normal),
      e_score := - log 2 (value_prob ?h (e_value e) + alpha) \<rparr>)" for e
    using threshold_label [OF assms(4,3) P value_prob_nonneg [of ?h "e_value e"], of thres use_global] lf
    by (simp add: hbos_label_one_def value_score [OF assms(1)])
  then have one: "\<exists>y. hbos_label_one alpha l ?h e = Inr y
      \<and> hbos_labelled alpha (hbos_limit alpha thres use_global ?f) ?h e y" for e
    by (simp add: hbos_labelled_def)
  obtain vals where vals: "map_res (hbos_label_one alpha l ?h) data = Inr vals"
    "list_all2 (hbos_labelled alpha (hbos_limit alpha thres use_global ?f) ?h) data vals"
    using map_res_total [of data "hbos_label_one alpha l ?h"
        "hbos_labelled alpha (hbos_limit alpha thres use_global ?f) ?h"] one by blast
  have "hbos_labelData alpha thres use_global data k param = Inr (vals, hbos_put k f1 param)"
    using assms(1,5) vals(1) lf by (simp add: hbos_labelData_def wf_hist_def Let_def)
  moreover have "hbos_at j (hbos_put k f1 param) = (if j = k then f1 else hbos_at j param)" for j
    by (simp add: hbos_at_def hbos_put_def)
  ultimately show ?thesis using vals(2) f1 by auto
qed

text \<open>
  C8. HBOS labels every event of a data set, without an error, by the global histogram of the
  function: it scores an event with \<open>-log2(p + alpha)\<close>, where \<open>p\<close> is the probability of the
  bin of its value (0 when the value lies more than 5 percent of a bin width outside), and calls it an
  outlier exactly when \<open>p + alpha\<close> is at most
  \<open>(p_max + alpha)^(1 - thres) * (p_min + alpha)^thres\<close> for the largest and smallest
  probabilities of populated bins, and, with the global threshold \<open>g\<close> in use, also at most
  \<open>2^-g\<close>. Values, indices and the order of the events are kept, and the model changes only
  in the stored threshold of the function, which never decreases. This is what the code computes;
  \<open>ad.rst\<close> gives the score as \<open>log2(1/p + alpha)\<close>, and it and \<open>appendix_usage.rst\<close> describe
  \<open>thres\<close> as a share of the events, where it is a fraction of the range of scores.
\<close>

theorem hbos_labels:
  assumes "wf_hist (m_histogram (hbos_at k param))" "0 < total (m_histogram (hbos_at k param))"
    and "total (m_histogram (hbos_at k param)) < 2 ^ 64" "alpha_ok alpha" "data \<noteq> []"
  shows "\<exists>vals param'. hbos_labelData alpha thres use_global data k param = Inr (vals, param') \<and>
    list_all2 (hbos_labelled alpha (hbos_limit alpha thres use_global (hbos_at k param)) (m_histogram (hbos_at k param))) data vals \<and>
    (\<forall>j. m_histogram (hbos_at j param') = m_histogram (hbos_at j param) \<and>
      m_internal_global_threshold (hbos_at j param) \<le> m_internal_global_threshold (hbos_at j param')) \<and>
    (\<forall>j. j \<noteq> k \<longrightarrow> hbos_at j param' = hbos_at j param)"
  by (rule hbos_label_run [OF assms])

definition wit_hbos :: "u64 list \<Rightarrow> hbos_param" where
  "wit_hbos counts = hbos_put 7 \<lparr> m_histogram = \<lparr> h_counts = counts, h_start = 0, h_bin_width = 2, h_min = 1,
     h_max = 6 \<rparr>, m_internal_global_threshold = log 2 1.00001 \<rparr> new_HbosParam"

lemma wit_hbos_hist: "m_histogram (hbos_at 7 (wit_hbos counts)) =
    \<lparr> h_counts = counts, h_start = 0, h_bin_width = 2, h_min = 1, h_max = 6 \<rparr>"
  "m_internal_global_threshold (hbos_at 7 (wit_hbos counts)) = log 2 1.00001"
  by (simp_all add: wit_hbos_def hbos_at_def hbos_put_def)

lemma wit_hbos_ok:
  assumes "counts \<in> {[3, 0, 2], [1, 0, 1]}"
  shows "wf_hist (m_histogram (hbos_at 7 (wit_hbos counts)))"
    "0 < total (m_histogram (hbos_at 7 (wit_hbos counts)))" "total (m_histogram (hbos_at 7 (wit_hbos counts))) < 2 ^ 64"
  using assms by (auto simp: wit_hbos_hist wf_hist_def Nbin_def total_def binCount_def lessThan_Suc)

theorem hbos_labels_witness:
  "\<exists>vals param'. hbos_labelData default_alpha (99 / 100) False [new_Elem 4 0] 7 (wit_hbos [3, 0, 2]) = Inr (vals, param')
    \<and> map e_label vals = [Outlier]"
proof -
  let ?h = "m_histogram (hbos_at 7 (wit_hbos [3, 0, 2]))"
  note ok = wit_hbos_ok [of "[3, 0, 2]", simplified]
  have P: "populated ?h \<noteq> {}" by (rule populated_nonempty) (use ok in simp_all)
  then have "Max (populated ?h) \<in> populated ?h" "Min (populated ?h) \<in> populated ?h"
    using finite_populated by (auto intro: Max_in Min_in)
  then have "0 < Max (populated ?h)" "0 < Min (populated ?h)" by (auto dest: populated_pos)
  moreover have al: "0 < default_alpha" by (simp add: default_alpha_def)
  ultimately have "default_alpha powr (1 - 99 / 100) * default_alpha powr (99 / 100) \<le> hbos_bound default_alpha (99 / 100) ?h"
    unfolding hbos_bound_def by (intro mult_mono powr_mono2) auto
  then have lim: "default_alpha \<le> hbos_limit default_alpha (99 / 100) False (hbos_at 7 (wit_hbos [3, 0, 2]))"
    using al by (simp add: hbos_limit_def flip: powr_add)
  have "value_prob ?h 4 = 0"
    by (simp add: wit_hbos_hist value_prob_def getBin_def Nbin_def int_of_double_def hbos_prob_def binCount_def)
  with lim have "hbos_labelled default_alpha (hbos_limit default_alpha (99 / 100) False (hbos_at 7 (wit_hbos [3, 0, 2]))) ?h
      (new_Elem 4 0) y \<Longrightarrow> e_label y = Outlier" for y
    by (simp add: hbos_labelled_def new_Elem_def)
  then show ?thesis
    using hbos_labels [of 7 "wit_hbos [3, 0, 2]" default_alpha "[new_Elem 4 0]" "99 / 100" False] ok default_alpha_ok
    by (fastforce simp: list_all2_Cons1)
qed

text \<open>
  When all populated bins of the global histogram hold the same number of events, and the
  global threshold in use is not above the score of these bins, HBOS labels every event an
  outlier, those of the populated bins included: for instance the first two executions of a
  function that took different times.
\<close>

lemma hbos_equal_bins:
  assumes "wf_hist (m_histogram (hbos_at k param))" "0 < total (m_histogram (hbos_at k param))"
    and "total (m_histogram (hbos_at k param)) < 2 ^ 64" "alpha_ok alpha" "data \<noteq> []"
    and "populated (m_histogram (hbos_at k param)) = {p}"
    and "use_global \<longrightarrow> m_internal_global_threshold (hbos_at k param) \<le> - log 2 (p + alpha)"
  shows "\<exists>vals param'. hbos_labelData alpha thres use_global data k param = Inr (vals, param') \<and>
    length vals = length data \<and> (\<forall>e \<in> set vals. e_label e = Outlier)"
proof -
  let ?f = "hbos_at k param" and ?h = "m_histogram (hbos_at k param)"
  have p: "0 < p" using populated_pos [of p ?h] assms(6) by simp
  have pos: "0 < p + alpha" using alpha_pos [OF assms(4)] p by simp
  have le: "value_prob ?h v \<le> p" for v
  proof (cases "\<exists>i. getBin ?h v (5 / 100) = Inr (Bin i) \<and> 0 < hbos_prob ?h i")
    case True
    then obtain i where i: "getBin ?h v (5 / 100) = Inr (Bin i)" "0 < hbos_prob ?h i" by blast
    then have "i < Nbin ?h" using getBin_cases [OF assms(1), of "5 / 100" v] by auto
    with i(2) have "hbos_prob ?h i \<in> populated ?h" by (auto simp: populated_def)
    with assms(6) i show ?thesis by (simp add: value_prob_def)
  next
    case False
    then have "value_prob ?h v = 0"
      using getBin_cases [OF assms(1), of "5 / 100" v] prob_nonneg [of ?h]
      by (auto simp: value_prob_def order.antisym not_less)
    with p show ?thesis by simp
  qed
  have "hbos_bound alpha thres ?h = p + alpha"
    using pos by (simp add: hbos_bound_def assms(6) flip: powr_add)
  moreover have "use_global \<longrightarrow> p + alpha \<le> 2 powr (- m_internal_global_threshold ?f)"
  proof
    assume use_global
    then have "log 2 (p + alpha) \<le> - m_internal_global_threshold ?f" using assms(7) by linarith
    then show "p + alpha \<le> 2 powr (- m_internal_global_threshold ?f)" using pos by (simp add: log_le_iff)
  qed
  ultimately have lim: "value_prob ?h v + alpha \<le> hbos_limit alpha thres use_global ?f" for v
    using le [of v] by (auto simp: hbos_limit_def Let_def)
  obtain vals param' where r: "hbos_labelData alpha thres use_global data k param = Inr (vals, param')"
    and l: "list_all2 (hbos_labelled alpha (hbos_limit alpha thres use_global ?f) ?h) data vals"
    using hbos_label_run [OF assms(1-5)] by blast
  have "e_label e = Outlier" if "e \<in> set vals" for e
    using l that lim by (auto simp: hbos_labelled_def list_all2_conv_all_nth in_set_conv_nth)
  with r l show ?thesis by (auto dest: list_all2_lengthD)
qed

lemma hbos_equal_bins_witness:
  "\<exists>vals param'. hbos_labelData default_alpha (99 / 100) True [new_Elem 1 0, new_Elem 5 1] 7 (wit_hbos [1, 0, 1]) =
      Inr (vals, param') \<and> length vals = 2 \<and> (\<forall>e \<in> set vals. e_label e = Outlier)"
proof -
  let ?h = "m_histogram (hbos_at 7 (wit_hbos [1, 0, 1]))"
  note ok = wit_hbos_ok [of "[1, 0, 1]", simplified]
  have prob: "hbos_prob ?h i = (if i = 1 then 0 else 1 / 2)" if "i < 3" for i
    using that by (auto simp: wit_hbos_hist hbos_prob_def binCount_def totalCount_def less_Suc_eq numeral_3_eq_3)
  have "Nbin ?h = 3" by (simp add: wit_hbos_hist Nbin_def)
  then have "populated ?h = {1 / 2}"
    unfolding populated_def using prob by (auto simp: image_iff intro!: exI [of _ 0])
  moreover have "log 2 1.00001 \<le> - log 2 (1 / 2 + default_alpha)"
  proof -
    have "log 2 (1.00001 * (1 / 2 + default_alpha)) \<le> log 2 1"
      by (rule log2_mono) (simp_all add: default_alpha_def)
    moreover have "0 < 1 / 2 + default_alpha" by (simp add: default_alpha_def)
    moreover have "log 2 (1.00001 * (1 / 2 + default_alpha)) = log 2 1.00001 + log 2 (1 / 2 + default_alpha)"
      by (rule log_mult_pos) (use calculation(2) in simp_all)
    ultimately show ?thesis by (simp only: log_one)
  qed
  ultimately obtain vals param' where
    "hbos_labelData default_alpha (99 / 100) True [new_Elem 1 0, new_Elem 5 1] 7 (wit_hbos [1, 0, 1]) = Inr (vals, param')"
    "length vals = length [new_Elem 1 0, new_Elem 5 1]" "\<forall>e \<in> set vals. e_label e = Outlier"
    using hbos_equal_bins [of 7 "wit_hbos [1, 0, 1]" default_alpha "[new_Elem 1 0, new_Elem 5 1]" "1 / 2" True "99 / 100"]
      ok default_alpha_ok wit_hbos_hist(2) by auto
  then show ?thesis by simp
qed

end
