(* ===== verification/InterfaceProps.thy ===== *)
theory InterfaceProps
  imports DataInterface
begin

text \<open>
  What the operations of the data interface keep. \<open>iface_ok\<close>: every data set stands for a list
  of executions that exist, and what the cache holds for a data set refers to different members
  of its list. \<open>same_shape\<close>: what reading data sets and recording labels leaves alone. Every
  operation is shown to succeed on a well formed interface and to keep it so.
\<close>

section \<open>Well formed interfaces\<close>

definition indices_ok :: "nat \<Rightarrow> elem list \<Rightarrow> bool" where
  "indices_ok n vals \<longleftrightarrow> (\<forall>e \<in> set vals. e_index e < n) \<and> distinct (map e_index vals)"

definition iface_ok :: "exec_interface \<Rightarrow> bool" where
  "iface_ok d \<longleftrightarrow> length (m_dset_fid_map d) = nDataSets d
     \<and> (\<forall>i < nDataSets d. \<exists>l. map_of (m_execDataMap (i_events d)) (m_dset_fid_map d ! i) = Some l
          \<and> set l \<subseteq> dom (store_map (i_events d))
          \<and> (\<forall>vals. m_dset_cache d i = Some vals \<longrightarrow> indices_ok (length l) vals))"

text \<open>Function index and name of the executions never change.\<close>

definition exec_funcs :: "exec_interface \<Rightarrow> addr \<rightharpoonup> u64 \<times> string" where
  "exec_funcs d a = map_option (\<lambda>x. (m_fid x, m_funcname x)) (store_map (i_events d) a)"

definition same_shape :: "exec_interface \<Rightarrow> exec_interface \<Rightarrow> bool" where
  "same_shape d d' \<longleftrightarrow> m_dset_fid_map d' = m_dset_fid_map d
     \<and> m_execDataMap (i_events d') = m_execDataMap (i_events d)
     \<and> exec_funcs d' = exec_funcs d \<and> nDataSets d' = nDataSets d"

lemma dom_exec_funcs: "dom (exec_funcs d) = dom (store_map (i_events d))"
  by (auto simp: exec_funcs_def dom_def)

lemma same_shape_refl: "same_shape d d"
  by (simp add: same_shape_def)

lemma same_shape_trans: "same_shape d d' \<Longrightarrow> same_shape d' d'' \<Longrightarrow> same_shape d d''"
  by (simp add: same_shape_def)

lemma same_shape_dom: "same_shape d d' \<Longrightarrow> dom (store_map (i_events d')) = dom (store_map (i_events d))"
  by (metis dom_exec_funcs same_shape_def)

lemma same_shape_sel:
  assumes "same_shape d d'"
  shows "m_dset_fid_map d' = m_dset_fid_map d" "m_execDataMap (i_events d') = m_execDataMap (i_events d)"
    "nDataSets d' = nDataSets d"
  using assms by (simp_all add: same_shape_def)

definition index_ok :: "exec_interface \<Rightarrow> nat \<Rightarrow> elem list \<Rightarrow> bool" where
  "index_ok d i vals \<longleftrightarrow> (\<forall>l. map_of (m_execDataMap (i_events d)) (m_dset_fid_map d ! i) = Some l
     \<longrightarrow> indices_ok (length l) vals)"

lemma index_ok_cong: "map e_index vals = map e_index vals' \<Longrightarrow> index_ok d i vals = index_ok d i vals'"
proof -
  assume eq: "map e_index vals = map e_index vals'"
  then have "e_index ` set vals = e_index ` set vals'" by (metis list.set_map)
  then have "(\<forall>e \<in> set vals. e_index e < n) = (\<forall>e \<in> set vals'. e_index e < n)" for n
    by (metis (no_types, lifting) imageE image_eqI)
  with eq show ?thesis by (simp add: index_ok_def indices_ok_def)
qed

lemma iface_ok_same:
  "iface_ok d \<Longrightarrow> same_shape d d' \<Longrightarrow> m_dset_cache d' = m_dset_cache d \<Longrightarrow> iface_ok d'"
  unfolding iface_ok_def by (simp add: same_shape_sel same_shape_dom)

lemma index_ok_same: "same_shape d d' \<Longrightarrow> index_ok d' i vals = index_ok d i vals"
  by (simp add: index_ok_def same_shape_def)

lemma iface_ok_cache:
  "iface_ok d \<Longrightarrow> index_ok d i vals \<Longrightarrow> iface_ok (d \<lparr> m_dset_cache := (m_dset_cache d)(i \<mapsto> vals) \<rparr>)"
  unfolding iface_ok_def index_ok_def nDataSets_def
  by (simp, metis option.sel option.inject)

lemma iface_ok_list:
  assumes "iface_ok d" "i < nDataSets d"
  obtains l where "map_of (m_execDataMap (i_events d)) (m_dset_fid_map d ! i) = Some l"
    "set l \<subseteq> dom (store_map (i_events d))" "\<And>vals. m_dset_cache d i = Some vals \<Longrightarrow> indices_ok (length l) vals"
    "i < length (m_dset_fid_map d)"
  using assms by (auto simp: iface_ok_def)

section \<open>Reading a data set\<close>

lemma modify_live:
  assumes "a \<in> dom (store_map s)"
  obtains x s' where "store_map s a = Some x" "modify a (\<lambda>x. Inr (g x)) s = Inr s'"
    "m_execDataMap s' = m_execDataMap s" "store_map s' = (store_map s)(a \<mapsto> g x)"
  using assms by (auto simp: modify_def deref_def put_def)

lemma same_shape_modify:
  assumes "store_map (i_events d) a = Some x" "m_fid (g x) = m_fid x" "m_funcname (g x) = m_funcname x"
    and "m_execDataMap s' = m_execDataMap (i_events d)" "store_map s' = (store_map (i_events d))(a \<mapsto> g x)"
  shows "same_shape d (d \<lparr> i_events := s' \<rparr>)"
  using assms by (auto simp: same_shape_def exec_funcs_def nDataSets_def fun_eq_iff)

lemma label_normal_live:
  assumes "a \<in> dom (store_map (i_events d))"
  shows "\<exists>d'. label_normal a d = Inr d' \<and> same_shape d d' \<and> m_dset_anom d' = m_dset_anom d
    \<and> m_dset_cache d' = m_dset_cache d"
proof -
  obtain x s' where m: "store_map (i_events d) a = Some x"
    "modify a (\<lambda>x. Inr (x \<lparr> m_label := 1 \<rparr>)) (i_events d) = Inr s'"
    "m_execDataMap s' = m_execDataMap (i_events d)" "store_map s' = (store_map (i_events d))(a \<mapsto> x \<lparr> m_label := 1 \<rparr>)"
    using modify_live [OF assms, of "\<lambda>x. x \<lparr> m_label := 1 \<rparr>"] by blast
  show ?thesis
    using m same_shape_modify [OF m(1), of "\<lambda>x. x \<lparr> m_label := 1 \<rparr>" s'] by (auto simp: label_normal_def)
qed

lemma data_set_step_live:
  assumes "a \<in> dom (store_map (i_events d))" "indices_ok i out"
  shows "\<exists>out' d'. data_set_step ig fid (i, a) (out, d) = Inr (out', d') \<and> same_shape d d'
    \<and> m_dset_anom d' = m_dset_anom d \<and> m_dset_cache d' = m_dset_cache d \<and> indices_ok (Suc i) out'"
proof -
  obtain x where x: "store_map (i_events d) a = Some x" using assms(1) by auto
  have keep: "indices_ok (Suc i) out"
    and more: "indices_ok (Suc i) (out @ [new_Elem v i])" for v
    using assms(2) by (auto simp: indices_ok_def new_Elem_def)
  obtain d1 where d1: "label_normal a d = Inr d1" "same_shape d d1" "m_dset_anom d1 = m_dset_anom d"
    "m_dset_cache d1 = m_dset_cache d" using label_normal_live [OF assms(1)] by blast
  have "same_shape d (d1 \<lparr> m_local_func_exec_seen := S \<rparr>)" for S
    using d1(2) by (simp add: same_shape_def nDataSets_def exec_funcs_def fun_eq_iff)
  with d1 x keep more same_shape_refl [of d] show ?thesis
    by (auto simp: data_set_step_def deref_def Let_def)
qed

lemma data_set_loop_live:
  assumes "set l \<subseteq> dom (store_map (i_events d))" "indices_ok m out"
  shows "\<exists>out' d'. foldE (data_set_step ig fid) (enumerate m l) (out, d) = Inr (out', d') \<and> same_shape d d'
    \<and> m_dset_anom d' = m_dset_anom d \<and> m_dset_cache d' = m_dset_cache d \<and> indices_ok (m + length l) out'"
  using assms
proof (induction l arbitrary: m out d)
  case Nil
  then show ?case by (simp add: same_shape_refl)
next
  case (Cons a l)
  obtain out1 d1 where 1: "data_set_step ig fid (m, a) (out, d) = Inr (out1, d1)" "same_shape d d1"
    "m_dset_anom d1 = m_dset_anom d" "m_dset_cache d1 = m_dset_cache d" "indices_ok (Suc m) out1"
    using data_set_step_live [of a d m out ig fid] Cons.prems by auto
  have "set l \<subseteq> dom (store_map (i_events d1))"
    using Cons.prems(1) same_shape_dom [OF 1(2)] by simp
  then obtain out' d' where 2: "foldE (data_set_step ig fid) (enumerate (Suc m) l) (out1, d1) = Inr (out', d')"
    "same_shape d1 d'" "m_dset_anom d' = m_dset_anom d1" "m_dset_cache d' = m_dset_cache d1"
    "indices_ok (Suc m + length l) out'"
    using Cons.IH [of d1 "Suc m" out1] 1(5) by blast
  show ?case using 1 2 same_shape_trans [OF 1(2) 2(2)] by simp
qed

lemma getDataSet_live:
  assumes "iface_ok d" "i < nDataSets d"
  shows "\<exists>vals d'. getDataSet i d = Inr (vals, d') \<and> same_shape d d' \<and> m_dset_anom d' = m_dset_anom d
    \<and> iface_ok d' \<and> index_ok d i vals"
proof -
  obtain l where l: "map_of (m_execDataMap (i_events d)) (m_dset_fid_map d ! i) = Some l"
      "set l \<subseteq> dom (store_map (i_events d))" "\<And>vals. m_dset_cache d i = Some vals \<Longrightarrow> indices_ok (length l) vals"
    and len: "i < length (m_dset_fid_map d)"
    using iface_ok_list [OF assms] by metis
  show ?thesis
  proof (cases "m_dset_cache d i")
    case (Some vals)
    then show ?thesis
      using l(1) l(3) [OF Some] assms(1) by (auto simp: getDataSet_def same_shape_refl index_ok_def)
  next
    case None
    show ?thesis
    proof (cases "l = []")
      case True
      then show ?thesis
        using None l len assms by (auto simp: getDataSet_def same_shape_refl index_ok_def indices_ok_def)
    next
      case False
      obtain x where x: "deref (i_events d) (hd l) = Inr x"
        using subsetD [OF l(2) hd_in_set [OF False]] by (auto simp: deref_def)
      obtain out d1 where r: "foldE (data_set_step (m_funcname x \<in> m_func_ignore d) (m_dset_fid_map d ! i))
          (enumerate 0 l) ([], d) = Inr (out, d1)" "same_shape d d1" "m_dset_anom d1 = m_dset_anom d"
        "m_dset_cache d1 = m_dset_cache d" "indices_ok (0 + length l) out"
        using data_set_loop_live [OF l(2), of 0 "[]" "m_funcname x \<in> m_func_ignore d" "m_dset_fid_map d ! i"]
        by (auto simp: indices_ok_def)
      have ok: "index_ok d i out" using l(1) r(5) by (simp add: index_ok_def)
      have "iface_ok (d1 \<lparr> m_dset_cache := (m_dset_cache d1)(i \<mapsto> out) \<rparr>)"
        by (rule iface_ok_cache [OF iface_ok_same [OF assms(1) r(2,4)]])
          (simp add: index_ok_same [OF r(2)] ok)
      moreover have "same_shape d (d1 \<lparr> m_dset_cache := (m_dset_cache d1)(i \<mapsto> out) \<rparr>)"
        using r(2) by (simp add: same_shape_def nDataSets_def exec_funcs_def fun_eq_iff)
      ultimately show ?thesis
        using None False l(1) len x r(1,3) ok by (auto simp: getDataSet_def Let_def)
    qed
  qed
qed

section \<open>Recording labels\<close>

definition labelled :: "elem \<Rightarrow> exec_data \<Rightarrow> exec_data" where
  "labelled e x = x \<lparr> m_score := e_score e,
     m_label := (case e_label e of Unassigned \<Rightarrow> m_label x | Outlier \<Rightarrow> - 1 | Normal \<Rightarrow> 1) \<rparr>"

lemma record_label_live:
  assumes "e_index e < length l" "l ! e_index e \<in> dom (store_map (i_events d))"
  obtains x s' where "store_map (i_events d) (l ! e_index e) = Some x" "record_label l e d = Inr (d \<lparr> i_events := s' \<rparr>)"
    "store_map s' = (store_map (i_events d))(l ! e_index e \<mapsto> labelled e x)" "same_shape d (d \<lparr> i_events := s' \<rparr>)"
proof -
  obtain x s' where m: "store_map (i_events d) (l ! e_index e) = Some x"
    "modify (l ! e_index e) (\<lambda>x. Inr (labelled e x)) (i_events d) = Inr s'"
    "m_execDataMap s' = m_execDataMap (i_events d)"
    "store_map s' = (store_map (i_events d))(l ! e_index e \<mapsto> labelled e x)"
    using modify_live [OF assms(2), of "labelled e"] by blast
  moreover have "record_label l e d = Inr (d \<lparr> i_events := s' \<rparr>)"
    using m(2) assms(1) by (simp add: record_label_def labelled_def)
  moreover have "same_shape d (d \<lparr> i_events := s' \<rparr>)"
    using same_shape_modify [OF m(1), of "labelled e" s'] m(3,4) by (simp add: labelled_def)
  ultimately show thesis using that by blast
qed

lemma record_labels_live:
  assumes "set l \<subseteq> dom (store_map (i_events d))" "\<forall>e \<in> set vals. e_index e < length l"
  shows "\<exists>d'. foldE (record_label l) vals d = Inr d' \<and> same_shape d d' \<and> m_dset_anom d' = m_dset_anom d
    \<and> m_dset_cache d' = m_dset_cache d \<and> (\<forall>a. a \<notin> (\<lambda>e. l ! e_index e) ` set vals \<longrightarrow> store_map (i_events d') a = store_map (i_events d) a)"
  using assms
proof (induction vals arbitrary: d)
  case Nil
  then show ?case by (simp add: same_shape_refl)
next
  case (Cons e vals)
  have i: "e_index e < length l" using Cons.prems(2) by simp
  have "l ! e_index e \<in> dom (store_map (i_events d))" using subsetD [OF Cons.prems(1) nth_mem [OF i]] .
  from record_label_live [OF i this] obtain x s' where 1: "record_label l e d = Inr (d \<lparr> i_events := s' \<rparr>)"
    "store_map s' = (store_map (i_events d))(l ! e_index e \<mapsto> labelled e x)" "same_shape d (d \<lparr> i_events := s' \<rparr>)" by blast
  let ?d = "d \<lparr> i_events := s' \<rparr>"
  obtain d' where 2: "foldE (record_label l) vals ?d = Inr d'" "same_shape ?d d'" "m_dset_anom d' = m_dset_anom ?d"
    "m_dset_cache d' = m_dset_cache ?d"
    "\<forall>a. a \<notin> (\<lambda>e. l ! e_index e) ` set vals \<longrightarrow> store_map (i_events d') a = store_map (i_events ?d) a"
    using Cons.IH [of ?d] Cons.prems same_shape_dom [OF 1(3)] by auto
  have "\<forall>a. a \<notin> (\<lambda>e. l ! e_index e) ` set (e # vals) \<longrightarrow> store_map (i_events d') a = store_map (i_events d) a"
    using 2(5) 1(2) by simp
  with 1 2 same_shape_trans [OF 1(3) 2(2)] show ?case by simp
qed

lemma recordDataSetLabels_live:
  assumes "iface_ok d" "i < nDataSets d" "index_ok d i vals"
  shows "\<exists>d'. recordDataSetLabels vals i d = Inr d' \<and> same_shape d d' \<and> iface_ok d'
    \<and> m_dset_anom d' = (m_dset_anom d)[i := fold recordEvent vals (m_dset_anom d ! i)]"
proof -
  let ?d = "d \<lparr> m_dset_anom := (m_dset_anom d)[i := fold recordEvent vals (m_dset_anom d ! i)] \<rparr>"
  have shape: "same_shape d ?d" by (simp add: same_shape_def nDataSets_def exec_funcs_def fun_eq_iff)
  obtain l where l: "map_of (m_execDataMap (i_events d)) (m_dset_fid_map d ! i) = Some l"
      "set l \<subseteq> dom (store_map (i_events d))" and len: "i < length (m_dset_fid_map d)"
    using iface_ok_list [OF assms(1,2)] by metis
  obtain d' where d': "foldE (record_label l) vals ?d = Inr d'" "same_shape ?d d'" "m_dset_anom d' = m_dset_anom ?d"
    "m_dset_cache d' = m_dset_cache ?d"
    using record_labels_live [of l ?d vals] l assms(3) by (auto simp: index_ok_def indices_ok_def)
  have "iface_ok d'"
    using iface_ok_same [OF assms(1) same_shape_trans [OF shape d'(2)]] d'(4) by simp
  then show ?thesis
    using d' l(1) len assms(2) same_shape_trans [OF shape d'(2)]
    by (auto simp: recordDataSetLabels_def recordDataSetLabelsInternal_def set_entries_def)
qed

end
