(* ===== verification/SstdProps.thy ===== *)
theory SstdProps
  imports Outlier InterfaceProps
begin

text \<open>
  SSTD without a parameter server: the model of a function holds the moments of all values it was
  given, and an event is an outlier when it is more than \<open>sigma\<close> standard deviations from the
  mean. An event that is not labelled yet is given to the model again in the next step.
\<close>

section \<open>The labels\<close>

definition sample_sd :: "real list \<Rightarrow> real" where
  "sample_sd xs = sqrt (central_moment 2 xs / (real (length xs) - 1))"

lemma moments_stats:
  assumes "moments r xs" "2 \<le> length xs"
  shows "m_count r = real (length xs)" "m_eta r = mean xs" "stddev r 1 = sample_sd xs"
proof -
  have xs: "xs \<noteq> []" using assms(2) by auto
  note m = moments_central [OF assms(1) xs]
  show "m_count r = real (length xs)" "m_eta r = mean xs" using assms(1) m by (simp_all add: moments_def)
  have "0 \<le> central_moment 2 xs" unfolding central_moment_def by (intro sum_list_nonneg) auto
  then show "stddev r 1 = sample_sd xs"
    using m assms by (simp add: stddev_def variance_def sample_sd_def moments_def)
qed

definition sstd_labelled :: "real \<Rightarrow> real list \<Rightarrow> elem \<Rightarrow> elem \<Rightarrow> bool" where
  "sstd_labelled sigma xs e e' \<longleftrightarrow>
     e' = e \<lparr> e_label := (if \<bar>e_value e - mean xs\<bar> > sigma * sample_sd xs then Outlier else Normal),
              e_score := \<bar>e_value e - mean xs\<bar> / (if sample_sd xs = 0 then 1 / 10 ^ 10 else sample_sd xs) \<rparr>"

lemma map_res_map: "(\<And>x. x \<in> set xs \<Longrightarrow> f x = Inr (g x)) \<Longrightarrow> map_res f xs = Inr (map g xs)"
  by (induction xs) auto

lemma sstd_label_ok:
  assumes "moments (sstd_at k param) xs" "2 \<le> length xs" "data \<noteq> []"
  shows "\<exists>vals. sstd_labelData sigma data k param = Inr (vals, AList.update k (sstd_at k param) param)
    \<and> list_all2 (sstd_labelled sigma xs) data vals"
proof -
  note st = moments_stats [OF assms(1,2)]
  let ?g = "\<lambda>e. e \<lparr> e_label := (if \<bar>e_value e - mean xs\<bar> > sigma * sample_sd xs then Outlier else Normal),
      e_score := \<bar>e_value e - mean xs\<bar> / (if sample_sd xs = 0 then 1 / 10 ^ 10 else sample_sd xs) \<rparr>"
  have out: "(mean xs - sigma * sample_sd xs > v \<or> mean xs + sigma * sample_sd xs < v)
      \<longleftrightarrow> \<bar>v - mean xs\<bar> > sigma * sample_sd xs" for v by linarith
  have "sstd_labelData sigma data k param = Inr (map ?g data, AList.update k (sstd_at k param) param)"
    using assms(2,3) st out
    by (simp add: sstd_labelData_def Let_def map_res_map [where g = ?g] sstd_label_one_def computeScore_def)
  then show ?thesis by (simp add: list_all2_map2 sstd_labelled_def list.rel_refl)
qed

section \<open>The model over the steps\<close>

text \<open>\<open>known f ad\<close>: the global model holds the moments of the lists \<open>f\<close>.\<close>

definition known :: "(u64 \<Rightarrow> real list) \<Rightarrow> sstd_param ad_outlier \<Rightarrow> bool" where
  "known f ad \<longleftrightarrow> (\<forall>k. moments (sstd_at k (m_param ad)) (f k))"

definition sstd_offline :: "sstd_param ad_outlier \<Rightarrow> bool" where
  "sstd_offline ad \<longleftrightarrow> \<not> m_use_ps ad \<and> m_global_model_sync_freq ad = 1 \<and> m_local_param ad = []"

lemma known_new: "known (\<lambda>_. []) (new_ADOutlier rank [])"
  by (simp add: known_def new_ADOutlier_def sstd_at_def moments_clear)

lemma sstd_offline_new: "sstd_offline (new_ADOutlier rank [])"
  by (simp add: sstd_offline_def new_ADOutlier_def)

text \<open>The values of the data sets of function \<open>k\<close>.\<close>

fun values_of :: "u64 \<Rightarrow> (u64 \<times> real list) list \<Rightarrow> real list" where
  "values_of k [] = []"
| "values_of k ((j, vs) # ds) = (if j = k then vs else []) @ values_of k ds"

lemma values_of_append: "values_of k (ds @ ds') = values_of k ds @ values_of k ds'"
  by (induction k ds rule: values_of.induct) auto

text \<open>\<open>gathered\<close> pairs the data sets of the step with the indices of their models.\<close>

definition gathered :: "exec_interface \<Rightarrow> elem list list \<Rightarrow> (u64 \<times> real list) list" where
  "gathered d data_vals = zip (m_dset_fid_map d) (map (map e_value) data_vals)"

lemma sstd_at_update: "sstd_at k (AList.update j r m) = (if k = j then r else sstd_at k m)"
  by (simp add: sstd_at_def)

lemma moments_mset: "moments r xs \<Longrightarrow> mset xs = mset ys \<Longrightarrow> moments r ys"
proof -
  assume r: "moments r xs" and m: "mset xs = mset ys"
  have "psum k xs = psum k ys" for k
    unfolding psum_def using m by (metis mset_map sum_mset_sum_list)
  moreover have "length xs = length ys" using m by (metis size_mset)
  ultimately show ?thesis using r by (simp add: moments_def)
qed

lemma moments_pushed: "moments r xs \<Longrightarrow> moments (fold push ys r) (xs @ ys)"
proof -
  assume "moments r xs"
  then have "moments (fold push ys r) (rev ys @ xs)" by (rule moments_fold_push)
  moreover have "mset (rev ys @ xs) = mset (xs @ ys)" by (simp add: union_ac)
  ultimately show ?thesis by (rule moments_mset)
qed

lemma zip_snoc: "length ys < length xs \<Longrightarrow> zip xs (ys @ [y]) = zip xs ys @ [(xs ! length ys, y)]"
proof (induction ys arbitrary: xs)
  case Nil
  then show ?case by (cases xs) auto
next
  case (Cons z ys)
  then show ?case by (cases xs) auto
qed

section \<open>A step\<close>

text \<open>\<open>fetch_all\<close> reads the data sets one after the other, as a step does.\<close>

definition fetch :: "nat \<Rightarrow> elem list list \<times> exec_interface \<Rightarrow> (elem list list \<times> exec_interface) res" where
  "fetch i st = bind (getDataSet i (snd st)) (\<lambda>(vals, d). Inr (fst st @ [vals], d))"

definition fetch_all :: "exec_interface \<Rightarrow> (elem list list \<times> exec_interface) res" where
  "fetch_all d = foldE fetch [0..<nDataSets d] ([], d)"

lemma moments_new_empty: "moments (new_RunStats b) xs \<Longrightarrow> xs = []"
  by (simp add: moments_def new_RunStats_def clear_RunStats_def)

lemma sstd_update_moments:
  assumes "distinct (map fst p)" "\<forall>k. moments (sstd_at k m) (f k)" "\<forall>k. moments (sstd_at k p) (g k)"
  shows "moments (sstd_at k (sstd_update p m)) (f k @ g k)"
  using assms
proof (induction p arbitrary: m f g)
  case Nil
  then have "moments (new_RunStats False) (g k)" by (simp add: sstd_at_def)
  then have "g k = []" by (rule moments_new_empty)
  with Nil show ?case by (simp add: sstd_update_def)
next
  case (Cons x p)
  obtain j r where x: "x = (j, r)" by force
  have none: "map_of p j = None" using Cons.prems(1) x by (simp add: map_of_eq_None_iff)
  have r: "moments r (g j)"
    using Cons.prems(3) x by (auto simp: sstd_at_def al_get_def dest!: spec [of _ j])
  have m: "\<forall>k. moments (sstd_at k (sstd_entry x m)) ((f(j := f j @ g j)) k)"
    using Cons.prems(2) r x by (auto simp: sstd_entry_def sstd_at_update plus_assign_def intro: moments_combine)
  have "moments (sstd_at i p) ((g(j := [])) i)" for i
  proof (cases "i = j")
    case True
    then show ?thesis using none by (simp add: sstd_at_def al_get_def moments_clear)
  next
    case False
    then show ?thesis using Cons.prems(3) x by (auto simp: sstd_at_def al_get_def dest!: spec [of _ i])
  qed
  with Cons.IH [of "sstd_entry x m" "f(j := f j @ g j)" "g(j := [])"] Cons.prems(1) m
  have "moments (sstd_at k (sstd_update p (sstd_entry x m))) ((f(j := f j @ g j)) k @ (g(j := [])) k)" by simp
  then show ?case by (cases "k = j") (simp_all add: sstd_update_def)
qed

lemma gather_live:
  assumes "iface_ok d" "m \<le> nDataSets d"
  shows "\<exists>dv p d1. foldE (gather_step sstd_gather) [0..<m] ([], [], d) = Inr (dv, p, d1)
    \<and> foldE fetch [0..<m] ([], d) = Inr (dv, d1) \<and> length dv = m \<and> same_shape d d1
    \<and> m_dset_anom d1 = m_dset_anom d \<and> iface_ok d1 \<and> (\<forall>i < m. index_ok d i (dv ! i))
    \<and> distinct (map fst p) \<and> (\<forall>k. moments (sstd_at k p) (values_of k (gathered d dv)))"
  using assms(2)
proof (induction m)
  case 0
  then show ?case using assms(1)
    by (simp add: same_shape_refl gathered_def sstd_at_def moments_clear)
next
  case (Suc m)
  then obtain dv p d1 where r: "foldE (gather_step sstd_gather) [0..<m] ([], [], d) = Inr (dv, p, d1)"
    "foldE fetch [0..<m] ([], d) = Inr (dv, d1)" "length dv = m" "same_shape d d1"
    "m_dset_anom d1 = m_dset_anom d" "iface_ok d1" "\<forall>i < m. index_ok d i (dv ! i)"
    "distinct (map fst p)" "\<forall>k. moments (sstd_at k p) (values_of k (gathered d dv))" by auto
  have m: "m < nDataSets d1" using Suc.prems r(4) by (simp add: same_shape_def)
  obtain v d2 where v: "getDataSet m d1 = Inr (v, d2)" "same_shape d1 d2" "m_dset_anom d2 = m_dset_anom d1"
    "iface_ok d2" "index_ok d1 m v" using getDataSet_live [OF r(6) m] by blast
  note shape = same_shape_trans [OF r(4) v(2)]
  have len: "m < length (m_dset_fid_map d)" using assms(1) Suc.prems by (simp add: iface_ok_def)
  let ?k = "m_dset_fid_map d ! m"
  have idx: "getDataSetModelIndex m d2 = Inr ?k"
    using shape len by (simp add: getDataSetModelIndex_def same_shape_def)
  have ok: "\<forall>i < Suc m. index_ok d i ((dv @ [v]) ! i)"
    using r(3,7) v(5) index_ok_same [OF r(4)] by (auto simp: nth_append less_Suc_eq)
  have g: "gathered d (dv @ [v]) = gathered d dv @ [(?k, map e_value v)]"
    using len r(3) by (simp add: gathered_def zip_snoc)
  have "moments (sstd_at k (AList.update ?k (fold push (map e_value v) (sstd_at ?k p)) p))
      (values_of k (gathered d (dv @ [v])))" for k
    using r(9) moments_pushed by (auto simp: g values_of_append sstd_at_update)
  moreover have "distinct (map fst (AList.update ?k (fold push (map e_value v) (sstd_at ?k p)) p))"
    using r(8) by (rule distinct_al_update)
  moreover have "foldE (gather_step sstd_gather) [0..<Suc m] ([], [], d) =
      Inr (dv @ [v], AList.update ?k (fold push (map e_value v) (sstd_at ?k p)) p, d2)"
    using r(1) v(1) idx by (simp add: foldE_append) (simp add: gather_step_def sstd_gather_def)
  moreover have "foldE fetch [0..<Suc m] ([], d) = Inr (dv @ [v], d2)"
    using r(2) v(1) by (simp add: foldE_append) (simp add: fetch_def)
  moreover have "length (dv @ [v]) = Suc m" "m_dset_anom d2 = m_dset_anom d" using r(3,5) v(3) by simp_all
  ultimately show ?case using shape ok v(4) by blast
qed

text \<open>What a data set looks like after the labels, by the values known of its function.\<close>

definition sstd_out :: "real \<Rightarrow> real list \<Rightarrow> elem list \<Rightarrow> elem list \<Rightarrow> bool" where
  "sstd_out sigma xs data vals \<longleftrightarrow>
     (if length xs < 2 then vals = data else list_all2 (sstd_labelled sigma xs) data vals)"

lemma sstd_out_index: "sstd_out sigma xs data vals \<Longrightarrow> map e_index vals = map e_index data"
  by (auto simp: sstd_out_def sstd_labelled_def list_all2_conv_all_nth intro!: nth_equalityI split: if_splits)

lemma index_ok_out: "sstd_out sigma xs data vals \<Longrightarrow> index_ok d i data \<Longrightarrow> index_ok d i vals"
  using index_ok_cong [OF sstd_out_index] by blast

lemma sstd_label_any:
  assumes "moments (sstd_at k param) xs"
  shows "\<exists>vals param'. sstd_labelData sigma data k param = Inr (vals, param') \<and> sstd_out sigma xs data vals
    \<and> (\<forall>j. sstd_at j param' = sstd_at j param)"
proof (cases "data = [] \<or> length xs < 2")
  case True
  then show ?thesis
    using assms by (auto simp: sstd_labelData_def sstd_out_def Let_def moments_def sstd_at_update)
next
  case False
  then show ?thesis
    using sstd_label_ok [OF assms, of data sigma] by (auto simp: sstd_out_def sstd_at_update)
qed

lemma label_live:
  assumes "known g ad" "iface_ok d" "m \<le> nDataSets d" "\<forall>i < m. index_ok d i (dv ! i)"
  shows "\<exists>p d' outs. foldE (label_step (sstd_labelData sigma) dv) [0..<m] (ad, d) = Inr (ad \<lparr> m_param := p \<rparr>, d')
    \<and> known g (ad \<lparr> m_param := p \<rparr>) \<and> same_shape d d' \<and> iface_ok d'
    \<and> (\<forall>i < m. sstd_out sigma (g (m_dset_fid_map d ! i)) (dv ! i) (outs i)
         \<and> m_dset_anom d' ! i = fold recordEvent (outs i) (m_dset_anom d ! i))
    \<and> (\<forall>i \<ge> m. m_dset_anom d' ! i = m_dset_anom d ! i)"
  using assms(3,4)
proof (induction m)
  case 0
  then show ?case using assms(1,2) by (auto simp: same_shape_refl intro: exI [of _ "m_param ad"])
next
  case (Suc m)
  let ?label = "label_step (sstd_labelData sigma) dv"
  obtain p d1 outs where r: "foldE ?label [0..<m] (ad, d) = Inr (ad \<lparr> m_param := p \<rparr>, d1)"
    "known g (ad \<lparr> m_param := p \<rparr>)" "same_shape d d1" "iface_ok d1"
    "\<forall>i < m. sstd_out sigma (g (m_dset_fid_map d ! i)) (dv ! i) (outs i)
         \<and> m_dset_anom d1 ! i = fold recordEvent (outs i) (m_dset_anom d ! i)"
    "\<forall>i \<ge> m. m_dset_anom d1 ! i = m_dset_anom d ! i"
    using Suc.IH Suc.prems by auto
  let ?k = "m_dset_fid_map d ! m"
  have m: "m < nDataSets d1" "m < length (m_dset_fid_map d)"
    using Suc.prems r(3) assms(2) by (simp_all add: same_shape_def iface_ok_def)
  have idx: "getDataSetModelIndex m d1 = Inr ?k"
    using r(3) m(2) by (simp add: getDataSetModelIndex_def same_shape_def)
  obtain vals p' where v: "sstd_labelData sigma (dv ! m) ?k p = Inr (vals, p')"
    "sstd_out sigma (g ?k) (dv ! m) vals" "\<forall>j. sstd_at j p' = sstd_at j p"
    using sstd_label_any [of ?k p "g ?k" sigma "dv ! m"] r(2) by (auto simp: known_def)
  have ok: "index_ok d1 m vals"
    using index_ok_out [OF v(2)] Suc.prems(2) index_ok_same [OF r(3)] by simp
  obtain d2 where d2: "recordDataSetLabels vals m d1 = Inr d2" "same_shape d1 d2" "iface_ok d2"
    "m_dset_anom d2 = (m_dset_anom d1)[m := fold recordEvent vals (m_dset_anom d1 ! m)]"
    using recordDataSetLabels_live [OF r(4) m(1) ok] by blast
  have step: "foldE ?label [0..<Suc m] (ad, d) = Inr (ad \<lparr> m_param := p' \<rparr>, d2)"
    using r(1) idx v(1) d2(1) by (simp add: foldE_append) (simp add: label_step_def)
  have known: "known g (ad \<lparr> m_param := p' \<rparr>)" using r(2) v(3) by (simp add: known_def)
  have "\<forall>i < Suc m. sstd_out sigma (g (m_dset_fid_map d ! i)) (dv ! i) ((outs(m := vals)) i)
         \<and> m_dset_anom d2 ! i = fold recordEvent ((outs(m := vals)) i) (m_dset_anom d ! i)"
    using r(5,6) v(2) d2(4) m(1) by (auto simp: less_Suc_eq nDataSets_def)
  moreover have "\<forall>i \<ge> Suc m. m_dset_anom d2 ! i = m_dset_anom d ! i" using r(6) d2(4) by simp
  ultimately show ?case
    using step known same_shape_trans [OF r(3) d2(2)] d2(3) by blast
qed

lemma offline_sync:
  assumes "sstd_offline ad" "known f ad" "distinct (map fst p)" "\<forall>k. moments (sstd_at k p) (g k)"
  shows "\<exists>ad'. ad_updateGlobalModel sstd_ops srv (ad \<lparr> m_local_param := sstd_update p (m_local_param ad) \<rparr>, s) = Inr (ad', s)
    \<and> sstd_offline ad' \<and> known (\<lambda>k. f k @ g k) ad'"
proof -
  let ?l = "sstd_update p []"
  have "distinct (map fst (fold sstd_entry p m))" if "distinct (map fst m)" for p m
    using that by (induction p arbitrary: m) (auto simp: sstd_entry_def)
  then have l: "distinct (map fst ?l)" by (simp add: sstd_update_def)
  have "moments (sstd_at k ?l) ([] @ g k)" for k
    using sstd_update_moments [OF assms(3) _ assms(4), of "[]" "\<lambda>_. []" k] by (simp add: sstd_at_def moments_clear)
  then have lm: "\<forall>k. moments (sstd_at k ?l) (g k)" by simp
  have "moments (sstd_at k (sstd_update ?l (m_param ad))) (f k @ g k)" for k
    using sstd_update_moments [OF l _ lm] assms(2) by (simp add: known_def)
  then show ?thesis
    using assms(1)
    by (auto simp: ad_updateGlobalModel_def sync_due_def sync_param_def sstd_ops_def sstd_offline_def
        sstd_clear_def known_def)
qed

lemma sstd_run_live:
  assumes "sstd_offline ad" "known f ad" "iface_ok d"
  shows "\<exists>dv d1 ad' d' outs. fetch_all d = Inr (dv, d1) \<and> sstd_run srv sigma d (ad, s) = Inr (ad', s, d')
    \<and> sstd_offline ad' \<and> known (\<lambda>k. f k @ values_of k (gathered d dv)) ad' \<and> same_shape d d' \<and> iface_ok d'
    \<and> (\<forall>i < nDataSets d. sstd_out sigma (f (m_dset_fid_map d ! i) @ values_of (m_dset_fid_map d ! i) (gathered d dv))
           (dv ! i) (outs i)
         \<and> m_dset_anom d' ! i = fold recordEvent (outs i) (m_dset_anom d ! i))"
proof -
  obtain dv p d1 where r: "foldE (gather_step sstd_gather) [0..<nDataSets d] ([], [], d) = Inr (dv, p, d1)"
    "fetch_all d = Inr (dv, d1)" "same_shape d d1" "m_dset_anom d1 = m_dset_anom d" "iface_ok d1"
    "\<forall>i < nDataSets d. index_ok d i (dv ! i)" "distinct (map fst p)"
    "\<forall>k. moments (sstd_at k p) (values_of k (gathered d dv))"
    using gather_live [OF assms(3) order_refl] unfolding fetch_all_def by blast
  obtain ad1 where ad1: "ad_updateGlobalModel sstd_ops srv
      (ad \<lparr> m_local_param := sstd_update p (m_local_param ad) \<rparr>, s) = Inr (ad1, s)" "sstd_offline ad1"
    "known (\<lambda>k. f k @ values_of k (gathered d dv)) ad1"
    using offline_sync [OF assms(1,2) r(7,8), of srv s] by blast
  have fid: "m_dset_fid_map d1 = m_dset_fid_map d" "nDataSets d1 = nDataSets d"
    using r(3) by (simp_all add: same_shape_def)
  have n: "nDataSets d \<le> nDataSets d1" and ok: "\<forall>i < nDataSets d. index_ok d1 i (dv ! i)"
    using fid r(6) index_ok_same [OF r(3)] by simp_all
  obtain p' d' outs where l: "foldE (label_step (sstd_labelData sigma) dv) [0..<nDataSets d] (ad1, d1)
      = Inr (ad1 \<lparr> m_param := p' \<rparr>, d')" "known (\<lambda>k. f k @ values_of k (gathered d dv)) (ad1 \<lparr> m_param := p' \<rparr>)"
    "same_shape d1 d'" "iface_ok d'"
    "\<forall>i < nDataSets d. sstd_out sigma (f (m_dset_fid_map d1 ! i) @ values_of (m_dset_fid_map d1 ! i) (gathered d dv))
           (dv ! i) (outs i)
         \<and> m_dset_anom d' ! i = fold recordEvent (outs i) (m_dset_anom d1 ! i)"
    using label_live [OF ad1(3) r(5) n ok, of sigma] by blast
  have "sstd_run srv sigma d (ad, s) = Inr (ad1 \<lparr> m_param := p' \<rparr>, s, d')"
    using r(1) ad1(1) l(1) by (simp add: sstd_run_def run_algorithm_def) (simp add: sstd_ops_def)
  moreover have "sstd_offline (ad1 \<lparr> m_param := p' \<rparr>)" using ad1(2) by (simp add: sstd_offline_def)
  moreover note r(2) l(2) same_shape_trans [OF r(3) l(3)] l(4)
  moreover note l(5) [unfolded fid(1) r(4)]
  ultimately show ?thesis by blast
qed

text \<open>
  C7. SSTD without a parameter server, synchronising every step, on well formed data sets: a step
  never fails; after it the model of every function holds the moments of all values it held
  before followed by the values read in this step; and the results recorded for a data set are
  those of its events, each labelled an outlier exactly when it lies more than \<open>sigma\<close> sample
  standard deviations from the mean of these values, and left unlabelled as long as fewer than two
  values are known. The interface stays well formed and no execution appears or vanishes.
\<close>

theorem sstd_run_correct:
  assumes "sstd_offline ad" "known f ad" "iface_ok d"
  shows "\<exists>dv d1 ad' d' outs. fetch_all d = Inr (dv, d1) \<and> sstd_run srv sigma d (ad, s) = Inr (ad', s, d')
    \<and> sstd_offline ad' \<and> known (\<lambda>k. f k @ values_of k (gathered d dv)) ad' \<and> same_shape d d' \<and> iface_ok d'
    \<and> (\<forall>i < nDataSets d. sstd_out sigma (f (m_dset_fid_map d ! i) @ values_of (m_dset_fid_map d ! i) (gathered d dv))
           (dv ! i) (outs i)
         \<and> m_dset_anom d' ! i = fold recordEvent (outs i) (m_dset_anom d ! i))"
  by (rule sstd_run_live [OF assms])

text \<open>Two steps over the only execution of a function, which the first one leaves unlabelled.\<close>

definition one_exec :: "u64 \<Rightarrow> addr \<Rightarrow> exec_data \<Rightarrow> adevent" where
  "one_exec fid a x = new_ADEvent \<lparr> m_execDataMap := [(fid, [a])], store_map := [a \<mapsto> x] \<rparr>"

definition one_iface :: "u64 \<Rightarrow> addr \<Rightarrow> exec_data \<Rightarrow> outlier_statistic \<Rightarrow> exec_interface" where
  "one_iface fid a x stat = new_ADExecDataInterface (one_exec fid a x) stat"

lemma one_iface_ok: "iface_ok (one_iface fid a x stat)"
  by (simp add: iface_ok_def one_iface_def new_ADExecDataInterface_def one_exec_def nDataSets_def indices_ok_def)

lemma one_iface_fetch:
  assumes "m_label x = 0"
  shows "\<exists>d1. fetch_all (one_iface fid a x stat) =
    Inr ([[new_Elem (getStatisticValue x (one_iface fid a x stat)) 0]], d1)"
  using assms
  by (simp add: fetch_all_def fetch_def one_iface_def new_ADExecDataInterface_def one_exec_def nDataSets_def
      getDataSet_def deref_def data_set_step_def Let_def getStatisticValue_def)

lemma one_iface_run:
  fixes x fid a stat
  assumes "m_label x = 0" "sstd_offline ad" "known f ad"
  defines "v \<equiv> getStatisticValue x (one_iface fid a x stat)"
  shows "\<exists>ad' d' outs. sstd_run srv sigma (one_iface fid a x stat) (ad, t) = Inr (ad', t, d')
    \<and> sstd_offline ad' \<and> known (f(fid := f fid @ [v])) ad' \<and> sstd_out sigma (f fid @ [v]) [new_Elem v 0] outs
    \<and> m_dset_anom d' = [fold recordEvent outs new_DataSetAnomalies]"
proof -
  let ?d = "one_iface fid a x stat"
  have d: "nDataSets ?d = 1" "m_dset_fid_map ?d = [fid]" "m_dset_anom ?d = [new_DataSetAnomalies]"
    by (simp_all add: one_iface_def new_ADExecDataInterface_def one_exec_def nDataSets_def)
  obtain dv d1 ad' d' outs where r: "fetch_all ?d = Inr (dv, d1)" "sstd_run srv sigma ?d (ad, t) = Inr (ad', t, d')"
    "sstd_offline ad'" "known (\<lambda>k. f k @ values_of k (gathered ?d dv)) ad'" "same_shape ?d d'"
    "\<forall>i < nDataSets ?d. sstd_out sigma (f (m_dset_fid_map ?d ! i) @ values_of (m_dset_fid_map ?d ! i) (gathered ?d dv))
           (dv ! i) (outs i) \<and> m_dset_anom d' ! i = fold recordEvent (outs i) (m_dset_anom ?d ! i)"
    using sstd_run_live [OF assms(2,3) one_iface_ok [of fid a x stat], of srv sigma t] by blast
  have dv: "dv = [[new_Elem v 0]]" using one_iface_fetch [OF assms(1), of fid a stat] r(1) unfolding v_def by auto
  then have g: "values_of k (gathered ?d dv) = (if k = fid then [v] else [])" for k
    by (simp add: gathered_def d new_Elem_def)
  then have f: "(\<lambda>k. f k @ values_of k (gathered ?d dv)) = f(fid := f fid @ [v])" by auto
  have "length (m_dset_anom d') = 1" using r(5) d(1) by (simp add: same_shape_def nDataSets_def)
  then have "m_dset_anom d' = [m_dset_anom d' ! 0]" by (cases "m_dset_anom d'") auto
  with r f g dv d show ?thesis by auto
qed

lemma one_iface_first:
  assumes "m_label x = 0"
  shows "\<exists>ad' d'. sstd_run srv sigma (one_iface fid a x stat) (new_ADOutlier rank [], t) = Inr (ad', t, d')
    \<and> i_events d' = one_exec fid a (x \<lparr> m_score := - 1 \<rparr>)"
  using assms
  by (simp add: one_iface_def new_ADExecDataInterface_def one_exec_def sstd_run_def run_algorithm_def nDataSets_def
      gather_step_def getDataSet_def deref_def data_set_step_def Let_def getDataSetModelIndex_def
      sstd_gather_def sstd_ops_def ad_updateGlobalModel_def sync_due_def new_ADOutlier_def sync_param_def
      sstd_update_def sstd_entry_def sstd_clear_def sstd_at_def plus_assign_def label_step_def sstd_labelData_def
      push_def new_RunStats_def clear_RunStats_def combine_def new_Elem_def recordDataSetLabels_def
      recordDataSetLabelsInternal_def set_entries_def record_label_def modify_def put_def al_get_def)

lemma sstd_out_twins: "sstd_out sigma [v, v] [new_Elem v 0] outs \<Longrightarrow> map e_label outs = [Normal]"
proof -
  assume "sstd_out sigma [v, v] [new_Elem v 0] outs"
  then obtain e where "outs = [e]" "sstd_labelled sigma [v, v] (new_Elem v 0) e"
    by (auto simp: sstd_out_def list_all2_Cons1)
  moreover have "mean [v, v] = v" "sample_sd [v, v] = 0"
    by (simp_all add: mean_def sample_sd_def central_moment_def)
  ultimately show ?thesis by (simp add: sstd_labelled_def new_Elem_def)
qed

lemma one_exec_twice:
  fixes x fid a stat
  assumes "m_label x = 0"
  defines "d \<equiv> one_iface fid a x stat"
  shows "\<exists>ad1 d1 ad2 d2. sstd_run srv sigma d (new_ADOutlier rank [], t) = Inr (ad1, t, d1) \<and> nEvents d1 = 0
    \<and> sstd_run srv sigma (new_ADExecDataInterface (i_events d1) stat) (ad1, t) = Inr (ad2, t, d2)
    \<and> nEvents d2 = 1 \<and> nEventsRecorded Outlier d2 = 0 \<and> m_count (sstd_at fid (m_param ad2)) = 2"
proof -
  define v where "v = getStatisticValue x d"
  obtain ad1 d1 outs where r1: "sstd_run srv sigma d (new_ADOutlier rank [], t) = Inr (ad1, t, d1)"
    "sstd_offline ad1" "known ((\<lambda>_. [])(fid := [] @ [v])) ad1" "sstd_out sigma ([] @ [v]) [new_Elem v 0] outs"
    "m_dset_anom d1 = [fold recordEvent outs new_DataSetAnomalies]"
    using one_iface_run [OF assms(1) sstd_offline_new [of rank] known_new, where fid = fid and a = a and stat = stat
        and srv = srv and sigma = sigma and t = t] unfolding d_def v_def by blast
  have "outs = [new_Elem v 0]" using r1(4) by (simp add: sstd_out_def)
  then have n1: "nEvents d1 = 0"
    using r1(5) by (simp add: nEvents_def new_Elem_def recordEvent_def new_DataSetAnomalies_def)
  let ?x = "x \<lparr> m_score := - 1 \<rparr>"
  have e1: "i_events d1 = one_exec fid a ?x"
    using one_iface_first [OF assms(1), of srv sigma fid a stat rank t] r1(1) by (auto simp: d_def)
  have x: "m_label ?x = 0" "getStatisticValue ?x (one_iface fid a ?x stat) = v"
    using assms(1)
    by (simp_all add: v_def d_def getStatisticValue_def one_iface_def new_ADExecDataInterface_def split: outlier_statistic.split)
  obtain ad2 d2 outs' where r2: "sstd_run srv sigma (one_iface fid a ?x stat) (ad1, t) = Inr (ad2, t, d2)"
    "known (((\<lambda>_. [])(fid := [] @ [v]))(fid := [v] @ [v])) ad2" "sstd_out sigma ([v] @ [v]) [new_Elem v 0] outs'"
    "m_dset_anom d2 = [fold recordEvent outs' new_DataSetAnomalies]"
    using one_iface_run [OF x(1) r1(2,3), where fid = fid and a = a and stat = stat and srv = srv and sigma = sigma and t = t] unfolding x(2) by auto
  have "map e_label outs' = [Normal]" using sstd_out_twins r2(3) by simp
  then obtain e where "outs' = [e]" "e_label e = Normal" by auto
  then have n2: "nEvents d2 = 1" "nEventsRecorded Outlier d2 = 0"
    using r2(4) by (simp_all add: nEvents_def nEventsRecorded_def nEventsRecorded_set_def recordEvent_def
        new_DataSetAnomalies_def)
  have "m_count (sstd_at fid (m_param ad2)) = 2"
    using r2(2) by (auto simp: known_def moments_def dest!: spec [of _ fid])
  with r1(1) n1 r2(1) n2 e1 show ?thesis by (auto simp: one_iface_def)
qed

text \<open>
  An execution SSTD leaves unlabelled because it is the only one known of its function stays
  in the data of the next step and is given to the model again: after the second step the model
  counts two executions where there is one, and the execution is labelled normal by statistics
  made of its own value taken twice.
\<close>

lemma sstd_counts_twice:
  assumes "m_label x = 0"
  shows "\<exists>ad1 d1 ad2 d2. sstd_run srv sigma (one_iface fid a x stat) (new_ADOutlier rank [], t) = Inr (ad1, t, d1)
    \<and> nEvents d1 = 0
    \<and> sstd_run srv sigma (new_ADExecDataInterface (i_events d1) stat) (ad1, t) = Inr (ad2, t, d2)
    \<and> nEvents d2 = 1 \<and> nEventsRecorded Outlier d2 = 0 \<and> m_count (sstd_at fid (m_param ad2)) = 2"
  by (rule one_exec_twice [OF assms])

lemma sstd_counts_twice_witness:
  "\<exists>ad1 d1 ad2 d2. sstd_run (\<lambda>p s. Inr (p, s)) 6 (one_iface 7 0 new_ExecData ExclusiveRuntime) (new_ADOutlier 0 [], ()) = Inr (ad1, (), d1)
    \<and> sstd_run (\<lambda>p s. Inr (p, s)) 6 (new_ADExecDataInterface (i_events d1) ExclusiveRuntime) (ad1, ()) = Inr (ad2, (), d2)
    \<and> nEvents d2 = 1 \<and> m_count (sstd_at 7 (m_param ad2)) = 2"
  using sstd_counts_twice [of new_ExecData, where srv = "\<lambda>p s. Inr (p, s)" and sigma = 6 and fid = 7 and a = 0
      and stat = ExclusiveRuntime and rank = 0 and t = "()"]
  by (auto simp: new_ExecData_def)

theorem sstd_run_correct_witness:
  "\<exists>ad' d'. sstd_run (\<lambda>p s. Inr (p, s)) 6 (one_iface 7 0 new_ExecData ExclusiveRuntime) (new_ADOutlier 0 [], ()) = Inr (ad', (), d')
    \<and> m_count (sstd_at 7 (m_param ad')) = 1"
proof -
  let ?d = "one_iface 7 0 new_ExecData ExclusiveRuntime"
  obtain dv d1 ad' d' where r: "fetch_all ?d = Inr (dv, d1)"
    "sstd_run (\<lambda>p s. Inr (p, s)) 6 ?d (new_ADOutlier 0 [], ()) = Inr (ad', (), d')"
    "known (\<lambda>k. [] @ values_of k (gathered ?d dv)) ad'"
    using sstd_run_correct [OF sstd_offline_new [of 0] known_new one_iface_ok [of 7 0 new_ExecData ExclusiveRuntime],
        where srv = "\<lambda>p s. Inr (p, s)" and sigma = 6 and s = "()"] by blast
  have "dv = [[new_Elem (getStatisticValue new_ExecData ?d) 0]]"
    using one_iface_fetch [of new_ExecData 7 0 ExclusiveRuntime] r(1) by (simp add: new_ExecData_def)
  then have "values_of 7 (gathered ?d dv) = [getStatisticValue new_ExecData ?d]"
    by (simp add: gathered_def one_iface_def new_ADExecDataInterface_def one_exec_def new_Elem_def)
  with r(2,3) show ?thesis by (auto simp: known_def moments_def dest!: spec [of _ 7])
qed

end
