(* ===== verification/LocalStats.thy ===== *)
theory LocalStats
  imports Outlier
begin

text \<open>
  What an analysis process sends to the parameter server after a step: run times and numbers of
  anomalies per function (\<open>ADLocalFuncStatistics.cpp\<close>, \<open>AnomalyData.cpp\<close>, \<open>FuncStats.hpp\<close>),
  scores and severities of the anomalies (\<open>ADLocalAnomalyMetrics.cpp\<close>,
  \<open>FuncAnomalyMetrics.cpp\<close>) and statistics of counters (\<open>ADLocalCounterStatistics.cpp\<close>). The
  number of anomalies of a function in a step, an \<open>int\<close> of the code, is an integer here.
\<close>

section \<open>Anomaly data of a step\<close>

record anomaly_data =
  ad_app :: u64
  ad_rank :: u64
  ad_step :: u64
  ad_min_timestamp :: u64
  ad_max_timestamp :: u64
  ad_n_anomalies :: u64
  ad_outlier_scores :: run_stats

definition new_AnomalyData :: anomaly_data where
  "new_AnomalyData = \<lparr> ad_app = 0, ad_rank = 0, ad_step = 0, ad_min_timestamp = 0, ad_max_timestamp = 0,
     ad_n_anomalies = 0, ad_outlier_scores = new_RunStats True \<rparr>"

definition anomaly_data_set ::
    "u64 \<Rightarrow> u64 \<Rightarrow> 32 word \<Rightarrow> u64 \<Rightarrow> u64 \<Rightarrow> u64 \<Rightarrow> anomaly_data \<Rightarrow> anomaly_data" where
  "anomaly_data_set app rank step min_ts max_ts n_anomalies d =
     d \<lparr> ad_app := app, ad_rank := rank, ad_step := ucast step, ad_min_timestamp := min_ts,
         ad_max_timestamp := max_ts, ad_n_anomalies := n_anomalies \<rparr>"

definition new_AnomalyData_values :: "u64 \<Rightarrow> u64 \<Rightarrow> 32 word \<Rightarrow> u64 \<Rightarrow> u64 \<Rightarrow> u64 \<Rightarrow> anomaly_data" where
  "new_AnomalyData_values app rank step min_ts max_ts n_anomalies =
     anomaly_data_set app rank step min_ts max_ts n_anomalies new_AnomalyData"

definition eq_AnomalyData :: "anomaly_data \<Rightarrow> anomaly_data \<Rightarrow> bool" where
  "eq_AnomalyData a b \<longleftrightarrow> ad_app a = ad_app b \<and> ad_rank a = ad_rank b \<and> ad_step a = ad_step b
     \<and> ad_min_timestamp a = ad_min_timestamp b \<and> ad_max_timestamp a = ad_max_timestamp b
     \<and> ad_n_anomalies a = ad_n_anomalies b \<and> eq_RunStats (ad_outlier_scores a) (ad_outlier_scores b)"

definition incr_n_anomalies :: "u64 \<Rightarrow> anomaly_data \<Rightarrow> anomaly_data" where
  "incr_n_anomalies by_n d = d \<lparr> ad_n_anomalies := ad_n_anomalies d + by_n \<rparr>"

definition add_outlier_score :: "real \<Rightarrow> anomaly_data \<Rightarrow> anomaly_data" where
  "add_outlier_score val d = d \<lparr> ad_outlier_scores := push val (ad_outlier_scores d) \<rparr>"

section \<open>Function statistics of a step\<close>

record func_stats =
  fs_pid :: u64
  fs_id :: u64
  fs_name :: string
  fs_n_anomaly :: u64
  fs_inclusive :: run_stats
  fs_exclusive :: run_stats

definition new_FuncStats :: "u64 \<Rightarrow> u64 \<Rightarrow> string \<Rightarrow> func_stats" where
  "new_FuncStats pid i name = \<lparr> fs_pid = pid, fs_id = i, fs_name = name, fs_n_anomaly = 0,
     fs_inclusive = new_RunStats False, fs_exclusive = new_RunStats False \<rparr>"

definition eq_FuncStats :: "func_stats \<Rightarrow> func_stats \<Rightarrow> bool" where
  "eq_FuncStats l r \<longleftrightarrow> fs_pid l = fs_pid r \<and> fs_id l = fs_id r \<and> fs_name l = fs_name r
     \<and> fs_n_anomaly l = fs_n_anomaly r \<and> eq_RunStats (fs_inclusive l) (fs_inclusive r)
     \<and> eq_RunStats (fs_exclusive l) (fs_exclusive r)"

record local_func_statistics =
  lf_anom_data :: anomaly_data
  lf_funcstats :: "(u64 \<times> func_stats) list"

definition new_ADLocalFuncStatistics :: "u64 \<Rightarrow> u64 \<Rightarrow> int \<Rightarrow> local_func_statistics" where
  "new_ADLocalFuncStatistics program_idx rank step =
     \<lparr> lf_anom_data = new_AnomalyData_values program_idx rank (word_of_int step) 0 0 0, lf_funcstats = [] \<rparr>"

text \<open>\<open>gatherStatistics\<close>: one call, the calls of one function, all functions.\<close>

definition gather_call :: "adevent \<Rightarrow> addr \<Rightarrow> func_stats \<times> u64 \<times> u64 \<Rightarrow> (func_stats \<times> u64 \<times> u64) res" where
  "gather_call s a st =
     (let (f, min_ts, max_ts) = st in
      bind (deref s a) (\<lambda>x.
        Inr (f \<lparr> fs_inclusive := push (of_int (sint (m_runtime x))) (fs_inclusive f),
                 fs_exclusive := push (of_int (sint (m_exclusive x))) (fs_exclusive f) \<rparr>,
             min min_ts (m_entry x), max max_ts (m_exit x))))"

definition stats_entry :: "adevent \<Rightarrow> u64 \<Rightarrow> u64 \<Rightarrow> addr list \<Rightarrow> (u64 \<times> func_stats) list \<Rightarrow> func_stats res" where
  "stats_entry s app func_id l m =
     (case map_of m func_id of
        Some f \<Rightarrow> Inr f
      | None \<Rightarrow> bind (deref s (hd l)) (\<lambda>x. Inr (new_FuncStats app func_id (m_funcname x))))"

definition gather_function ::
    "adevent \<Rightarrow> u64 \<Rightarrow> u64 \<times> addr list \<Rightarrow> (u64 \<times> func_stats) list \<times> u64 \<times> u64 \<Rightarrow>
     ((u64 \<times> func_stats) list \<times> u64 \<times> u64) res" where
  "gather_function s app fl st =
     (let (func_id, l) = fl; (m, min_ts, max_ts) = st in
      if l = [] then Inr st
      else bind (stats_entry s app func_id l m) (\<lambda>f.
           bind (foldE (gather_call s) l (f, min_ts, max_ts)) (\<lambda>(f1, min1, max1).
           Inr (AList.update func_id f1 m, min1, max1))))"

definition gatherStatistics :: "adevent \<Rightarrow> local_func_statistics \<Rightarrow> local_func_statistics res" where
  "gatherStatistics s lf =
     bind (foldE (gather_function s (ad_app (lf_anom_data lf))) (m_execDataMap s) (lf_funcstats lf, u64_max, 0))
       (\<lambda>(m, min_ts, max_ts).
          Inr (lf \<lparr> lf_funcstats := m,
                    lf_anom_data := (lf_anom_data lf) \<lparr> ad_min_timestamp := min_ts, ad_max_timestamp := max_ts \<rparr> \<rparr>))"

text \<open>\<open>gatherAnomalies\<close>: one data set, all data sets.\<close>

definition gather_anom ::
    "exec_interface \<Rightarrow> nat \<Rightarrow> local_func_statistics \<times> nat \<Rightarrow> (local_func_statistics \<times> nat) res" where
  "gather_anom iface dset_idx st =
     (let (lf, nanom_tot) = st in
      bind (getDataSetModelIndex dset_idx iface) (\<lambda>fid.
      bind (getResults dset_idx iface) (\<lambda>r.
        if nEventsRecorded_set Outlier r = 0 \<and> nEventsRecorded_set Normal r = 0 then Inr st
        else
          let anom = getEventsRecorded Outlier r; nanom = length anom in
          (case map_of (lf_funcstats lf) fid of
             None \<Rightarrow> Inl (Fatal ''cannot find funcstats entry for function index'')
           | Some f \<Rightarrow>
               Inr (lf \<lparr> lf_funcstats := AList.update fid (f \<lparr> fs_n_anomaly := fs_n_anomaly f + of_nat nanom \<rparr>) (lf_funcstats lf),
                         lf_anom_data := fold (\<lambda>e. add_outlier_score (e_score e)) anom (lf_anom_data lf) \<rparr>,
                    nanom_tot + nanom)))))"

definition gatherAnomalies :: "exec_interface \<Rightarrow> local_func_statistics \<Rightarrow> local_func_statistics res" where
  "gatherAnomalies iface lf =
     bind (foldE (gather_anom iface) [0..<nDataSets iface] (lf, 0)) (\<lambda>(lf1, nanom_tot).
       Inr (lf1 \<lparr> lf_anom_data := incr_n_anomalies (of_nat nanom_tot) (lf_anom_data lf1) \<rparr>))"

section \<open>Metrics of the anomalies of a step\<close>

record func_anomaly_metrics =
  fm_score :: run_stats
  fm_severity :: run_stats
  fm_count :: int
  fm_fid :: int
  fm_func :: string

definition new_FuncAnomalyMetrics :: "int \<Rightarrow> string \<Rightarrow> func_anomaly_metrics" where
  "new_FuncAnomalyMetrics fid func = \<lparr> fm_score = new_RunStats True, fm_severity = new_RunStats True,
     fm_count = 0, fm_fid = fid, fm_func = func \<rparr>"

definition eq_FuncAnomalyMetrics :: "func_anomaly_metrics \<Rightarrow> func_anomaly_metrics \<Rightarrow> bool" where
  "eq_FuncAnomalyMetrics l r \<longleftrightarrow> eq_RunStats (fm_score l) (fm_score r) \<and> eq_RunStats (fm_severity l) (fm_severity r)
     \<and> fm_count l = fm_count r \<and> fm_fid l = fm_fid r \<and> fm_func l = fm_func r"

definition get_outlier_severity :: "exec_data \<Rightarrow> real" where
  "get_outlier_severity x = of_int (sint (m_exclusive x))"

text \<open>The comparison of the two function indices converts the \<open>int\<close> to \<open>unsigned long\<close>.\<close>

definition add_anomaly :: "exec_data \<Rightarrow> func_anomaly_metrics \<Rightarrow> func_anomaly_metrics res" where
  "add_anomaly x f =
     (if m_label x \<noteq> - 1 then Inl (Fatal ''Attempting to push an event that is not an outlier!'')
      else if m_fid x \<noteq> word_of_int (fm_fid f) then Inl (Fatal ''Function index mismatch'')
      else Inr (f \<lparr> fm_score := push (m_score x) (fm_score f),
                    fm_severity := push (get_outlier_severity x) (fm_severity f), fm_count := fm_count f + 1 \<rparr>))"

record local_anomaly_metrics =
  lm_app :: int
  lm_rank :: int
  lm_step :: int
  lm_first_event_ts :: u64
  lm_last_event_ts :: u64
  lm_func_anom_metrics :: "(int \<times> func_anomaly_metrics) list"

definition add_event :: "exec_interface \<Rightarrow> nat \<Rightarrow> elem \<Rightarrow> func_anomaly_metrics \<Rightarrow> func_anomaly_metrics res" where
  "add_event iface dset_idx e f =
     bind (getExecDataEntry dset_idx (e_index e) iface) (\<lambda>a.
     bind (deref (i_events iface) a) (\<lambda>x. add_anomaly x f))"

definition add_data_set ::
    "exec_interface \<Rightarrow> nat \<Rightarrow> (int \<times> func_anomaly_metrics) list \<Rightarrow> (int \<times> func_anomaly_metrics) list res" where
  "add_data_set iface dset_idx m =
     bind (getDataSetModelIndex dset_idx iface) (\<lambda>fid.
     bind (getResults dset_idx iface) (\<lambda>r.
       let anom = getEventsRecorded Outlier r in
       if anom = [] then Inr m
       else
         bind (getExecDataEntry dset_idx 0 iface) (\<lambda>a.
         bind (deref (i_events iface) a) (\<lambda>x.
         bind (foldE (add_event iface dset_idx) anom
                 (al_get (new_FuncAnomalyMetrics (to_i32 fid) (m_funcname x)) m (to_i32 fid))) (\<lambda>f.
         Inr (AList.update (to_i32 fid) f m))))))"

definition new_ADLocalAnomalyMetrics ::
    "int \<Rightarrow> int \<Rightarrow> int \<Rightarrow> u64 \<Rightarrow> u64 \<Rightarrow> exec_interface \<Rightarrow> local_anomaly_metrics res" where
  "new_ADLocalAnomalyMetrics app rank step first_event_ts last_event_ts iface =
     bind (foldE (add_data_set iface) [0..<nDataSets iface] []) (\<lambda>m.
       Inr \<lparr> lm_app = app, lm_rank = rank, lm_step = step, lm_first_event_ts = first_event_ts,
             lm_last_event_ts = last_event_ts, lm_func_anom_metrics = m \<rparr>)"

section \<open>Counter statistics of a step\<close>

record local_counter_statistics =
  lc_program_idx :: u64
  lc_step :: int
  lc_which_counter :: "string set option"
  lc_stats :: "(string \<times> run_stats) list"

definition new_ADLocalCounterStatistics :: "u64 \<Rightarrow> int \<Rightarrow> string set option \<Rightarrow> local_counter_statistics" where
  "new_ADLocalCounterStatistics program_idx step which_counters =
     \<lparr> lc_program_idx = program_idx, lc_step = step, lc_which_counter = which_counters, lc_stats = [] \<rparr>"

definition counter_wanted :: "string \<Rightarrow> local_counter_statistics \<Rightarrow> bool" where
  "counter_wanted name lc = (case lc_which_counter lc of None \<Rightarrow> True | Some w \<Rightarrow> name \<in> w)"

definition gather_counter :: "u64 \<times> counter_data list \<Rightarrow> local_counter_statistics \<Rightarrow> local_counter_statistics" where
  "gather_counter ic lc =
     (case snd ic of [] \<Rightarrow> lc
      | c # cs \<Rightarrow>
          (let name = m_countername c in
           if counter_wanted name lc then
             lc \<lparr> lc_stats := AList.update name
               (fold (\<lambda>c. push (of_nat (unat (m_value c)))) (snd ic) (al_get (new_RunStats False) (lc_stats lc) name)) (lc_stats lc) \<rparr>
           else lc))"

definition counter_gatherStatistics ::
    "(u64 \<times> counter_data list) list \<Rightarrow> local_counter_statistics \<Rightarrow> local_counter_statistics" where
  "counter_gatherStatistics cntrs_by_idx lc = fold gather_counter cntrs_by_idx lc"

definition setStats :: "string \<Rightarrow> run_stats \<Rightarrow> local_counter_statistics \<Rightarrow> local_counter_statistics res" where
  "setStats counter to lc =
     (if \<not> counter_wanted counter lc then Inl (RuntimeError ''Counter is not in the list of counters we are collecting'')
      else Inr (lc \<lparr> lc_stats := AList.update counter to (lc_stats lc) \<rparr>))"

end
