(* ===== verification/LocalProps.thy ===== *)
theory LocalProps
  imports LocalStats SstdProps
begin

text \<open>
  The outlier detection composed with what is sent to the server: after a step of any of the
  algorithms the labels recorded in the interface and those of the executions agree, and so
  statistics and metrics of the anomalies are gathered without an error and are complete.
\<close>

section \<open>What a step records\<close>

text \<open>The event manager's map of completed calls: every call is filed under its function.\<close>

definition exec_map_ok :: "adevent \<Rightarrow> bool" where
  "exec_map_ok s \<longleftrightarrow> distinct (map fst (m_execDataMap s)) \<and>
     (\<forall>(fid, l) \<in> set (m_execDataMap s). distinct l \<and> (\<forall>a \<in> set l. \<exists>x. store_map s a = Some x \<and> m_fid x = fid))"

definition fresh_iface :: "exec_interface \<Rightarrow> bool" where
  "fresh_iface d \<longleftrightarrow> exec_map_ok (i_events d) \<and> m_dset_fid_map d = map fst (m_execDataMap (i_events d))
     \<and> m_dset_anom d = replicate (length (m_dset_fid_map d)) new_DataSetAnomalies \<and> m_dset_cache d = Map.empty"

lemma fresh_new: "exec_map_ok s \<Longrightarrow> fresh_iface (new_ADExecDataInterface s stat)"
  by (simp add: fresh_iface_def new_ADExecDataInterface_def)

lemma fresh_options:
  "fresh_iface d \<Longrightarrow> fresh_iface (setIgnoreFunction f d)" "fresh_iface d \<Longrightarrow> fresh_iface (setIgnoreFirstFunctionCall S d)"
  by (simp_all add: fresh_iface_def setIgnoreFunction_def setIgnoreFirstFunctionCall_def)

text \<open>\<open>set_list d i\<close>: the executions of data set \<open>i\<close>.\<close>

definition set_list :: "exec_interface \<Rightarrow> nat \<Rightarrow> addr list" where
  "set_list d i = al_get [] (m_execDataMap (i_events d)) (m_dset_fid_map d ! i)"

text \<open>What is kept during a step: the shape of a fresh interface.\<close>

definition filed :: "exec_interface \<Rightarrow> bool" where
  "filed d \<longleftrightarrow> distinct (m_dset_fid_map d) \<and> length (m_dset_fid_map d) = nDataSets d \<and>
     (\<forall>i < nDataSets d. map_of (m_execDataMap (i_events d)) (m_dset_fid_map d ! i) = Some (set_list d i)
        \<and> distinct (set_list d i)
        \<and> (\<forall>a \<in> set (set_list d i). \<exists>x. store_map (i_events d) a = Some x \<and> m_fid x = m_dset_fid_map d ! i))"

lemma filed_fresh:
  assumes "fresh_iface d"
  shows "filed d" and "iface_ok d"
proof -
  have n: "length (m_dset_fid_map d) = nDataSets d" and dist: "distinct (m_dset_fid_map d)"
    using assms by (simp_all add: fresh_iface_def nDataSets_def exec_map_ok_def)
  have get: "map_of (m_execDataMap (i_events d)) (m_dset_fid_map d ! i) = Some (set_list d i)
      \<and> (m_dset_fid_map d ! i, set_list d i) \<in> set (m_execDataMap (i_events d))" if "i < nDataSets d" for i
  proof -
    have "m_execDataMap (i_events d) ! i \<in> set (m_execDataMap (i_events d))"
      using that assms n by (simp add: fresh_iface_def)
    moreover have "m_dset_fid_map d ! i = fst (m_execDataMap (i_events d) ! i)"
      using that assms n by (simp add: fresh_iface_def)
    ultimately have mem: "(m_dset_fid_map d ! i, snd (m_execDataMap (i_events d) ! i)) \<in> set (m_execDataMap (i_events d))"
      by simp
    then have "map_of (m_execDataMap (i_events d)) (m_dset_fid_map d ! i) = Some (snd (m_execDataMap (i_events d) ! i))"
      using dist assms by (simp add: fresh_iface_def)
    with mem show ?thesis by (simp add: set_list_def al_get_def)
  qed
  then have "distinct (set_list d i) \<and> (\<forall>a \<in> set (set_list d i). \<exists>x. store_map (i_events d) a = Some x \<and> m_fid x = m_dset_fid_map d ! i)"
    if "i < nDataSets d" for i
    using that assms by (fastforce simp: fresh_iface_def exec_map_ok_def)
  with get n dist show f: "filed d" by (simp add: filed_def)
  have "set (set_list d i) \<subseteq> dom (store_map (i_events d))" if "i < nDataSets d" for i
    using f that unfolding filed_def by blast
  moreover have "m_dset_cache d = Map.empty" using assms by (simp add: fresh_iface_def)
  ultimately show "iface_ok d" using f by (simp add: iface_ok_def filed_def)
qed

lemma set_list_same: "same_shape d d' \<Longrightarrow> set_list d' i = set_list d i"
  by (simp add: set_list_def same_shape_sel)

lemma same_shape_fid:
  assumes "same_shape d d'" "store_map (i_events d) a = Some x"
  shows "\<exists>x'. store_map (i_events d') a = Some x' \<and> m_fid x' = m_fid x"
proof -
  have "exec_funcs d' a = exec_funcs d a" using assms(1) by (simp add: same_shape_def)
  with assms(2) show ?thesis by (auto simp: exec_funcs_def)
qed

lemma filed_same: "filed d \<Longrightarrow> same_shape d d' \<Longrightarrow> filed d'"
  unfolding filed_def
  by (simp add: same_shape_sel set_list_same) (metis same_shape_fid)

lemma filed_disjoint:
  assumes "filed d" "i < nDataSets d" "j < nDataSets d" "i \<noteq> j" "a \<in> set (set_list d i)"
  shows "a \<notin> set (set_list d j)"
proof
  assume "a \<in> set (set_list d j)"
  then obtain x where "store_map (i_events d) a = Some x" "m_fid x = m_dset_fid_map d ! j"
    using assms(1,3) unfolding filed_def by blast
  moreover obtain y where "store_map (i_events d) a = Some y" "m_fid y = m_dset_fid_map d ! i"
    using assms(1,2,5) unfolding filed_def by blast
  ultimately have "m_dset_fid_map d ! i = m_dset_fid_map d ! j" by simp
  with assms show False by (simp add: filed_def nth_eq_iff_index_eq)
qed

text \<open>The events recorded for a data set are labelled in the same way in the store.\<close>

definition recorded_event :: "exec_interface \<Rightarrow> nat \<Rightarrow> elem \<Rightarrow> bool" where
  "recorded_event d i e \<longleftrightarrow> e_index e < length (set_list d i) \<and> e_label e = Outlier
     \<and> (\<exists>x. store_map (i_events d) (set_list d i ! e_index e) = Some x \<and> m_label x = - 1 \<and> m_score x = e_score e)"

definition recorded_set :: "exec_interface \<Rightarrow> nat \<Rightarrow> bool" where
  "recorded_set d i \<longleftrightarrow> (\<forall>e \<in> set (m_anomalies (m_dset_anom d ! i)). recorded_event d i e)
     \<and> (m_normal_events (m_dset_anom d ! i) \<noteq> [] \<longrightarrow> set_list d i \<noteq> [])"

lemma recordEvent_anomalies:
  "m_anomalies (fold recordEvent vals r) = m_anomalies r @ [e \<leftarrow> vals. e_label e = Outlier]"
proof (induction vals arbitrary: r)
  case (Cons e vals)
  then show ?case by (cases "e_label e") (simp_all add: recordEvent_def)
qed simp

lemma recordEvent_normal:
  "m_normal_events (fold recordEvent vals r) \<noteq> [] \<longleftrightarrow> m_normal_events r \<noteq> [] \<or> (\<exists>e \<in> set vals. e_label e = Normal)"
proof (induction vals arbitrary: r)
  case (Cons e vals)
  then show ?case by (cases "e_label e") (auto simp: recordEvent_def)
qed simp

lemma record_labels_set:
  assumes "set l \<subseteq> dom (store_map (i_events d))" "distinct l" "indices_ok (length l) vals"
    and "foldE (record_label l) vals d = Inr d'" "e \<in> set vals"
  shows "\<exists>x. store_map (i_events d') (l ! e_index e) = Some (labelled e x)"
  using assms
proof (induction vals arbitrary: d)
  case Nil
  then show ?case by simp
next
  case (Cons e1 vals)
  have i: "e_index e1 < length l" using Cons.prems(3) by (simp add: indices_ok_def)
  obtain x s' where 1: "record_label l e1 d = Inr (d \<lparr> i_events := s' \<rparr>)"
    "store_map s' = (store_map (i_events d))(l ! e_index e1 \<mapsto> labelled e1 x)" "same_shape d (d \<lparr> i_events := s' \<rparr>)"
    using record_label_live [OF i subsetD [OF Cons.prems(1) nth_mem [OF i]]] by metis
  let ?d = "d \<lparr> i_events := s' \<rparr>"
  have rest: "foldE (record_label l) vals ?d = Inr d'" using Cons.prems(4) 1(1) by simp
  have dom: "set l \<subseteq> dom (store_map (i_events ?d))" using Cons.prems(1) same_shape_dom [OF 1(3)] by simp
  have ok: "indices_ok (length l) vals" using Cons.prems(3) by (simp add: indices_ok_def)
  show ?case
  proof (cases "e \<in> set vals")
    case True
    with Cons.IH [OF dom Cons.prems(2) ok rest] show ?thesis by simp
  next
    case False
    then have e: "e = e1" using Cons.prems(5) by simp
    have "l ! e_index e1 \<noteq> l ! e_index e'" if "e' \<in> set vals" for e'
    proof -
      have "e_index e1 \<notin> e_index ` set vals" "e_index e' < length l"
        using that Cons.prems(3) by (simp_all add: indices_ok_def)
      then have "e_index e' < length l" "e_index e' \<noteq> e_index e1" using that by (metis imageI)+
      then show ?thesis using i Cons.prems(2) by (simp add: nth_eq_iff_index_eq)
    qed
    then have "l ! e_index e1 \<notin> (\<lambda>e. l ! e_index e) ` set vals" by auto
    moreover obtain d'' where "foldE (record_label l) vals ?d = Inr d''"
      "\<forall>a. a \<notin> (\<lambda>e. l ! e_index e) ` set vals \<longrightarrow> store_map (i_events d'') a = store_map (i_events ?d) a"
      using record_labels_live [OF dom, of vals] ok by (auto simp: indices_ok_def)
    ultimately have "store_map (i_events d') (l ! e_index e1) = store_map (i_events ?d) (l ! e_index e1)"
      using rest by simp
    with 1(2) e show ?thesis by auto
  qed
qed

section \<open>The step\<close>

lemma gather_done:
  assumes "iface_ok d" "m \<le> nDataSets d" "foldE (gather_step gather) [0..<m] ([], fresh, d) = Inr (dv, p, d1)"
  shows "length dv = m \<and> same_shape d d1 \<and> m_dset_anom d1 = m_dset_anom d \<and> iface_ok d1
    \<and> (\<forall>i < m. index_ok d i (dv ! i))"
  using assms(2,3)
proof (induction m arbitrary: dv p d1)
  case 0
  then show ?case using assms(1) by (simp add: same_shape_refl)
next
  case (Suc m)
  then obtain dv0 p0 d0 where 0: "foldE (gather_step gather) [0..<m] ([], fresh, d) = Inr (dv0, p0, d0)"
    and s: "gather_step gather m (dv0, p0, d0) = Inr (dv, p, d1)"
    by (auto simp: foldE_append bind_simps)
  note IH = Suc.IH [OF _ 0] Suc.prems(1)
  have m: "m < nDataSets d0" using IH same_shape_sel(3) [of d d0] by simp
  obtain v d2 where v: "getDataSet m d0 = Inr (v, d2)" "same_shape d0 d2" "m_dset_anom d2 = m_dset_anom d0"
    "iface_ok d2" "index_ok d0 m v" using getDataSet_live [OF _ m] IH by auto
  have r: "dv = dv0 @ [v]" "d1 = d2" using s v(1) by (auto simp: gather_step_def bind_simps)
  have "\<forall>i < Suc m. index_ok d i (dv ! i)"
    using IH v(5) index_ok_same [of d d0] by (auto simp: r nth_append less_Suc_eq)
  with IH v r same_shape_trans [of d d0 d2] show ?case by simp
qed

definition keeps_indices :: "(elem list \<Rightarrow> u64 \<Rightarrow> 'p \<Rightarrow> (elem list \<times> 'p) res) \<Rightarrow> bool" where
  "keeps_indices label \<longleftrightarrow> (\<forall>data k p vals p'. label data k p = Inr (vals, p') \<longrightarrow> map e_index vals = map e_index data)"

lemma index_ok_list: "filed d \<Longrightarrow> i < nDataSets d \<Longrightarrow> index_ok d i vals = indices_ok (length (set_list d i)) vals"
  by (simp add: filed_def index_ok_def)

lemma filed_live: "filed d \<Longrightarrow> i < nDataSets d \<Longrightarrow> set (set_list d i) \<subseteq> dom (store_map (i_events d))"
  unfolding filed_def by blast

lemma recorded_event_kept:
  assumes "recorded_event d i e" "set_list d' i = set_list d i"
    and "\<And>a. a \<in> set (set_list d i) \<Longrightarrow> store_map (i_events d') a = store_map (i_events d) a"
  shows "recorded_event d' i e"
proof -
  have "set_list d i ! e_index e \<in> set (set_list d i)" using assms(1) by (simp add: recorded_event_def)
  with assms show ?thesis by (simp add: recorded_event_def)
qed

lemma record_step:
  assumes "filed d" "iface_ok d" "m < nDataSets d" "index_ok d m vals" "m_dset_anom d ! m = new_DataSetAnomalies"
    and "recordDataSetLabels vals m d = Inr d'" "\<forall>i < m. recorded_set d i"
  shows "\<forall>i < Suc m. recorded_set d' i"
proof -
  let ?l = "set_list d m"
  let ?d = "d \<lparr> m_dset_anom := (m_dset_anom d)[m := fold recordEvent vals (m_dset_anom d ! m)] \<rparr>"
  have l: "map_of (m_execDataMap (i_events d)) (m_dset_fid_map d ! m) = Some ?l" "distinct ?l"
      "m < length (m_dset_fid_map d)" using assms(1,3) by (simp_all add: filed_def)
  have vals: "indices_ok (length ?l) vals" using assms(4) index_ok_list [OF assms(1,3)] by simp
  have live: "set ?l \<subseteq> dom (store_map (i_events ?d))" using filed_live [OF assms(1,3)] by simp
  have run: "foldE (record_label ?l) vals ?d = Inr d'"
    using assms(3,6) l by (simp add: recordDataSetLabels_def recordDataSetLabelsInternal_def set_entries_def)
  obtain shape: "same_shape ?d d'" and anom: "m_dset_anom d' = m_dset_anom ?d"
    and other: "\<forall>a. a \<notin> (\<lambda>e. ?l ! e_index e) ` set vals \<longrightarrow> store_map (i_events d') a = store_map (i_events d) a"
    using record_labels_live [OF live, of vals] vals run by (auto simp: indices_ok_def)
  have "same_shape d ?d" by (simp add: same_shape_def nDataSets_def exec_funcs_def fun_eq_iff)
  then have lists: "set_list d' i = set_list d i" for i
    using set_list_same [OF same_shape_trans [OF _ shape]] by simp
  show ?thesis
  proof (intro allI impI)
    fix i assume i: "i < Suc m"
    show "recorded_set d' i"
    proof (cases "i = m")
      case True
      have a: "m_dset_anom d' ! m = fold recordEvent vals new_DataSetAnomalies"
        using anom assms(3,5) by (simp add: nDataSets_def)
      have "recorded_event d' m e" if "e \<in> set vals" "e_label e = Outlier" for e
        using record_labels_set [OF live l(2) vals run that(1)] that vals lists
        by (auto simp: recorded_event_def indices_ok_def labelled_def)
      moreover have "?l \<noteq> []" if "e \<in> set vals" for e using that vals by (auto simp: indices_ok_def)
      ultimately show ?thesis
        unfolding recorded_set_def True a recordEvent_anomalies recordEvent_normal lists
        by (auto simp: new_DataSetAnomalies_def)
    next
      case False
      then have im: "i < m" "i < nDataSets d" using i assms(3) by simp_all
      have same: "store_map (i_events d') a = store_map (i_events d) a" if "a \<in> set (set_list d i)" for a
      proof -
        have "a \<notin> set ?l" using filed_disjoint [OF assms(1) im(2) assms(3)] False that by simp
        moreover have "(\<lambda>e. ?l ! e_index e) ` set vals \<subseteq> set ?l" using vals by (auto simp: indices_ok_def)
        ultimately show ?thesis using other by blast
      qed
      have "m_dset_anom d' ! i = m_dset_anom d ! i" using anom False by simp
      with assms(7) im(1) lists recorded_event_kept [OF _ lists same] show ?thesis
        by (simp add: recorded_set_def)
    qed
  qed
qed

lemma label_done:
  assumes "filed d" "iface_ok d" "m \<le> nDataSets d" "\<forall>i < m. index_ok d i (dv ! i)" "keeps_indices label"
    and "\<forall>i < nDataSets d. m_dset_anom d ! i = new_DataSetAnomalies"
    and "foldE (label_step label dv) [0..<m] (ad, d) = Inr (ad', d')"
  shows "same_shape d d' \<and> iface_ok d' \<and> (\<forall>i < m. recorded_set d' i)
    \<and> (\<forall>i. m \<le> i \<longrightarrow> m_dset_anom d' ! i = m_dset_anom d ! i)"
  using assms(3,4,7)
proof (induction m arbitrary: ad' d')
  case 0
  then show ?case using assms(2) by (simp add: same_shape_refl)
next
  case (Suc m)
  then obtain ad1 d1 where 1: "foldE (label_step label dv) [0..<m] (ad, d) = Inr (ad1, d1)"
    and s: "label_step label dv m (ad1, d1) = Inr (ad', d')" by (auto simp: foldE_append bind_simps)
  have IH: "same_shape d d1" "iface_ok d1" "\<forall>i < m. recorded_set d1 i" "\<forall>i. m \<le> i \<longrightarrow> m_dset_anom d1 ! i = m_dset_anom d ! i"
    using Suc.IH [OF _ _ 1] Suc.prems by simp_all
  obtain k vals p where v: "label (dv ! m) k (m_param ad1) = Inr (vals, p)" "recordDataSetLabels vals m d1 = Inr d'"
    using s by (auto simp: label_step_def bind_simps)
  have "map e_index vals = map e_index (dv ! m)" using assms(5) v(1) unfolding keeps_indices_def by blast
  then have ok: "index_ok d1 m vals"
    using Suc.prems(2) index_ok_same [OF IH(1)] index_ok_cong [of vals "dv ! m"] by simp
  have m: "m < nDataSets d1" using Suc.prems(1) IH(1) by (simp add: same_shape_sel)
  have anom: "m_dset_anom d1 ! m = new_DataSetAnomalies" using IH(4) assms(6) Suc.prems(1) by simp
  have "same_shape d1 d' \<and> iface_ok d' \<and> m_dset_anom d' = (m_dset_anom d1)[m := fold recordEvent vals (m_dset_anom d1 ! m)]"
    using recordDataSetLabels_live [OF IH(2) m ok] v(2) by auto
  moreover have "\<forall>i < Suc m. recorded_set d' i"
    by (rule record_step [OF filed_same [OF assms(1) IH(1)] IH(2) m ok anom v(2) IH(3)])
  ultimately show ?case using IH(4) same_shape_trans [OF IH(1)] by simp
qed

definition step_done :: "exec_interface \<Rightarrow> bool" where
  "step_done d \<longleftrightarrow> filed d \<and> m_dset_fid_map d = map fst (m_execDataMap (i_events d))
     \<and> (\<forall>i < nDataSets d. recorded_set d i)"

lemma run_done:
  assumes "fresh_iface d" "keeps_indices label" "run_algorithm ops srv fresh gather label d (ad, s) = Inr (ad', s', d')"
  shows "step_done d' \<and> same_shape d d'"
proof -
  obtain dv p d1 where g: "foldE (gather_step gather) [0..<nDataSets d] ([], fresh, d) = Inr (dv, p, d1)"
    and l: "\<exists>ad1 ad2. foldE (label_step label dv) [0..<nDataSets d] (ad1, d1) = Inr (ad2, d')"
    using assms(3) by (fastforce simp: run_algorithm_def bind_simps)
  note f = filed_fresh [OF assms(1)]
  have 1: "same_shape d d1" "m_dset_anom d1 = m_dset_anom d" "iface_ok d1" "\<forall>i < nDataSets d. index_ok d i (dv ! i)"
    using gather_done [OF f(2) order_refl g] by simp_all
  have n: "nDataSets d1 = nDataSets d" using 1(1) by (simp add: same_shape_sel)
  have new: "\<forall>i < nDataSets d1. m_dset_anom d1 ! i = new_DataSetAnomalies"
    using assms(1) n 1(2) f(1) by (simp add: fresh_iface_def filed_def)
  have ok: "\<forall>i < nDataSets d1. index_ok d1 i (dv ! i)" using 1(4) n index_ok_same [OF 1(1)] by simp
  obtain ad1 ad2 where "foldE (label_step label dv) [0..<nDataSets d1] (ad1, d1) = Inr (ad2, d')" using l n by auto
  from label_done [OF filed_same [OF f(1) 1(1)] 1(3) order_refl ok assms(2) new this]
  have "same_shape d1 d'" "\<forall>i < nDataSets d1. recorded_set d' i" by simp_all
  then show ?thesis
    using same_shape_trans [OF 1(1)] filed_same [OF f(1)] assms(1)
    by (simp add: step_done_def same_shape_sel [OF 1(1)] same_shape_sel [of d1 d'] fresh_iface_def)
qed

section \<open>Metrics of the anomalies\<close>

definition event_severity :: "exec_interface \<Rightarrow> nat \<Rightarrow> elem \<Rightarrow> real" where
  "event_severity d i e =
     (case store_map (i_events d) (set_list d i ! e_index e) of Some x \<Rightarrow> get_outlier_severity x | None \<Rightarrow> 0)"

lemma set_entries_filed: "filed d \<Longrightarrow> i < nDataSets d \<Longrightarrow> set_entries i d = Inr (set_list d i)"
  by (simp add: filed_def set_entries_def)

lemma add_event_ok:
  assumes "filed d" "i < nDataSets d" "recorded_event d i e" "word_of_int (fm_fid f) = m_dset_fid_map d ! i"
  shows "add_event d i e f = Inr (f \<lparr> fm_score := push (e_score e) (fm_score f),
    fm_severity := push (event_severity d i e) (fm_severity f), fm_count := fm_count f + 1 \<rparr>)"
proof -
  have i: "e_index e < length (set_list d i)" using assms(3) by (simp add: recorded_event_def)
  obtain x where x: "store_map (i_events d) (set_list d i ! e_index e) = Some x" "m_label x = - 1" "m_score x = e_score e"
    using assms(3) by (auto simp: recorded_event_def)
  moreover have "m_fid x = m_dset_fid_map d ! i"
    using assms(1,2) nth_mem [OF i] x(1) unfolding filed_def by fastforce
  ultimately show ?thesis
    using assms(4) i set_entries_filed [OF assms(1,2)]
    by (simp add: add_event_def getExecDataEntry_def deref_def add_anomaly_def event_severity_def)
qed

lemma add_events_ok:
  assumes "filed d" "i < nDataSets d" "\<forall>e \<in> set es. recorded_event d i e" "word_of_int (fm_fid f) = m_dset_fid_map d ! i"
  shows "foldE (add_event d i) es f = Inr (f \<lparr> fm_score := push_all (map e_score es) (fm_score f),
    fm_severity := push_all (map (event_severity d i) es) (fm_severity f), fm_count := fm_count f + int (length es) \<rparr>)"
  using assms(3,4)
proof (induction es arbitrary: f)
  case Nil
  then show ?case by (simp add: push_all_def)
next
  case (Cons e es)
  have "foldE (add_event d i) (e # es) f = foldE (add_event d i) es (f \<lparr> fm_score := push (e_score e) (fm_score f),
    fm_severity := push (event_severity d i e) (fm_severity f), fm_count := fm_count f + 1 \<rparr>)"
    using add_event_ok [OF assms(1,2)] Cons.prems by simp
  also have "\<dots> = Inr (f \<lparr> fm_score := push_all (map e_score (e # es)) (fm_score f),
    fm_severity := push_all (map (event_severity d i) (e # es)) (fm_severity f), fm_count := fm_count f + int (length (e # es)) \<rparr>)"
    using Cons.prems by (subst Cons.IH) (simp_all add: push_all_def)
  finally show ?case .
qed

definition set_metrics :: "exec_interface \<Rightarrow> nat \<Rightarrow> func_anomaly_metrics option \<Rightarrow> bool" where
  "set_metrics d i fo \<longleftrightarrow>
     (let es = m_anomalies (m_dset_anom d ! i) in
      if es = [] then fo = None
      else \<exists>f. fo = Some f \<and> fm_fid f = to_i32 (m_dset_fid_map d ! i) \<and> fm_count f = int (length es)
        \<and> fm_score f = push_all (map e_score es) (new_RunStats True)
        \<and> fm_severity f = push_all (map (event_severity d i) es) (new_RunStats True))"

definition small_indices :: "exec_interface \<Rightarrow> bool" where
  "small_indices d \<longleftrightarrow> (\<forall>k \<in> set (m_dset_fid_map d). uint k < 2 ^ 31)"

lemma add_data_sets_ok:
  assumes "step_done d" "small_indices d" "m \<le> nDataSets d"
  shows "\<exists>ms. foldE (add_data_set d) [0..<m] [] = Inr ms
    \<and> (\<forall>i < m. set_metrics d i (map_of ms (to_i32 (m_dset_fid_map d ! i))))
    \<and> (\<forall>i < nDataSets d. m \<le> i \<longrightarrow> map_of ms (to_i32 (m_dset_fid_map d ! i)) = None)"
  using assms(3)
proof (induction m)
  case 0
  then show ?case by simp
next
  case (Suc m)
  then obtain ms where ms: "foldE (add_data_set d) [0..<m] [] = Inr ms"
    "\<forall>i < m. set_metrics d i (map_of ms (to_i32 (m_dset_fid_map d ! i)))"
    "\<forall>i < nDataSets d. m \<le> i \<longrightarrow> map_of ms (to_i32 (m_dset_fid_map d ! i)) = None" by auto
  have f: "filed d" and m: "m < nDataSets d" and rec: "recorded_set d m"
    using assms(1) Suc.prems by (simp_all add: step_done_def)
  have len: "length (m_dset_fid_map d) = nDataSets d" using f by (simp add: filed_def)
  let ?k = "to_i32 (m_dset_fid_map d ! m)" and ?es = "m_anomalies (m_dset_anom d ! m)"
  have small: "uint (m_dset_fid_map d ! i) < 2 ^ 31" if "i < nDataSets d" for i
    using that assms(2) len by (simp add: small_indices_def)
  have idx: "to_i32 (m_dset_fid_map d ! i) = ?k \<longleftrightarrow> i = m" if "i < nDataSets d" for i
    using small_index_inj [OF small [OF that] small [OF m]] f that m len by (simp add: filed_def nth_eq_iff_index_eq)
  have model: "getDataSetModelIndex m d = Inr (m_dset_fid_map d ! m)"
    using m len by (simp add: getDataSetModelIndex_def)
  show ?case
  proof (cases "?es = []")
    case True
    then have "add_data_set d m ms = Inr ms"
      using model m by (simp add: add_data_set_def getResults_def getEventsRecorded_def)
    moreover have "set_metrics d m (map_of ms ?k)" using True ms(3) m by (simp add: set_metrics_def)
    ultimately show ?thesis using ms by (auto simp: foldE_append less_Suc_eq)
  next
    case False
    then obtain e where "recorded_event d m e" using rec by (cases ?es) (auto simp: recorded_set_def)
    then have ne: "0 < length (set_list d m)" by (auto simp: recorded_event_def)
    obtain x where x: "deref (i_events d) (set_list d m ! 0) = Inr x"
      using filed_live [OF f m] nth_mem [OF ne] by (auto simp: deref_def)
    let ?f = "new_FuncAnomalyMetrics ?k (m_funcname x)"
    have "word_of_int (fm_fid ?f) = m_dset_fid_map d ! m"
      using small_index_word [OF small [OF m]] by (simp add: new_FuncAnomalyMetrics_def)
    from add_events_ok [OF f m _ this] rec have run: "foldE (add_event d m) ?es ?f = Inr (?f \<lparr> fm_score := push_all (map e_score ?es) (fm_score ?f),
      fm_severity := push_all (map (event_severity d m) ?es) (fm_severity ?f), fm_count := fm_count ?f + int (length ?es) \<rparr>)"
      (is "_ = Inr ?g") by (simp add: recorded_set_def)
    have "al_get ?f ms ?k = ?f" using ms(3) m by (simp add: al_get_def)
    then have step: "add_data_set d m ms = Inr (AList.update ?k ?g ms)"
      using model m False x ne run set_entries_filed [OF f m]
      by (simp add: add_data_set_def getResults_def getEventsRecorded_def getExecDataEntry_def)
    have "set_metrics d m (Some ?g)" using False by (simp add: set_metrics_def new_FuncAnomalyMetrics_def)
    then have "\<forall>i < Suc m. set_metrics d i (map_of (AList.update ?k ?g ms) (to_i32 (m_dset_fid_map d ! i)))"
      using ms(2) idx m by (auto simp: less_Suc_eq)
    moreover have "\<forall>i < nDataSets d. Suc m \<le> i \<longrightarrow> map_of (AList.update ?k ?g ms) (to_i32 (m_dset_fid_map d ! i)) = None"
      using ms(3) idx by simp
    ultimately show ?thesis using ms(1) step by (simp add: foldE_append)
  qed
qed

text \<open>
  C12. After a step of any of the detection algorithms over a fresh interface, whose function
  indices fit an \<open>int\<close>, the metrics of the anomalies are gathered without an error and are
  complete: of the functions with a data set those with anomalies, and only those, have an entry,
  which counts them all and holds the statistics of their scores and severities.
\<close>

theorem anomaly_metrics_complete:
  assumes "fresh_iface d" "small_indices d" "keeps_indices label"
    and "run_algorithm ops srv fresh gather label d (ad, s) = Inr (ad', s', d')"
  shows "\<exists>lm. new_ADLocalAnomalyMetrics app rank step t0 t1 d' = Inr lm
    \<and> (\<forall>i < nDataSets d. set_metrics d' i (map_of (lm_func_anom_metrics lm) (to_i32 (m_dset_fid_map d ! i))))"
proof -
  have d: "step_done d'" "same_shape d d'" using run_done [OF assms(1,3,4)] by simp_all
  then have "small_indices d'" using assms(2) by (simp add: small_indices_def same_shape_sel)
  from add_data_sets_ok [OF d(1) this order_refl] d(2) show ?thesis
    by (auto simp: new_ADLocalAnomalyMetrics_def same_shape_sel)
qed

text \<open>The three algorithms label events without touching their indices.\<close>

lemma map_res_indices:
  assumes "\<And>x y. f x = Inr y \<Longrightarrow> e_index y = e_index x" "map_res f xs = Inr ys"
  shows "map e_index ys = map e_index xs"
  using assms(2) by (induction xs arbitrary: ys) (auto simp: bind_simps assms(1))

lemma sstd_keeps: "keeps_indices (sstd_labelData sigma)"
proof -
  have "e_index y = e_index x" if "sstd_label_one lo hi k param x = Inr y" for lo hi k param x y
    using that by (auto simp: sstd_label_one_def bind_simps)
  from map_res_indices [OF this] show ?thesis
    by (auto simp: keeps_indices_def sstd_labelData_def Let_def bind_simps split: if_splits)
qed

lemma hbos_keeps: "keeps_indices (hbos_labelData alpha thres use_global)"
proof -
  have "e_index y = e_index x" if "hbos_label_one alpha l hist x = Inr y" for l hist x y
    using that by (auto simp: hbos_label_one_def bind_simps)
  from map_res_indices [OF this] show ?thesis
    by (auto simp: keeps_indices_def hbos_labelData_def Let_def bind_simps split: if_splits prod.splits)
qed

lemma copod_one_index:
  "copod_label_one alpha l hist nhist e (out, ws) = Inr st \<Longrightarrow> \<exists>e' ws1. st = (out @ [e'], ws1) \<and> e_index e' = e_index e"
  by (auto simp: copod_label_one_def bind_simps)

lemma copod_fold_indices:
  assumes "foldE (copod_label_one alpha l hist nhist) es (out, ws) = Inr (vals, ws')"
  shows "map e_index vals = map e_index out @ map e_index es"
  using assms
proof (induction es arbitrary: out ws)
  case (Cons e es)
  then obtain st where st: "copod_label_one alpha l hist nhist e (out, ws) = Inr st"
    "foldE (copod_label_one alpha l hist nhist) es st = Inr (vals, ws')" by (auto simp: bind_Inr_iff)
  with copod_one_index [OF st(1)] Cons.IH show ?case by fastforce
qed simp

lemma copod_keeps: "keeps_indices (copod_labelData alpha thres use_global)"
  by (auto simp: keeps_indices_def copod_labelData_def Let_def case_prod_beta bind_simps split: if_splits
      dest!: copod_fold_indices [where ws' = "(_, _)"] copod_fold_indices)

section \<open>Statistics of the functions\<close>

definition inclusive_of :: "adevent \<Rightarrow> addr \<Rightarrow> real" where
  "inclusive_of s a = (case store_map s a of Some x \<Rightarrow> of_int (sint (m_runtime x)) | None \<Rightarrow> 0)"

definition exclusive_of :: "adevent \<Rightarrow> addr \<Rightarrow> real" where
  "exclusive_of s a = (case store_map s a of Some x \<Rightarrow> of_int (sint (m_exclusive x)) | None \<Rightarrow> 0)"

definition name_of :: "adevent \<Rightarrow> addr \<Rightarrow> string" where
  "name_of s a = (case store_map s a of Some x \<Rightarrow> m_funcname x | None \<Rightarrow> [])"

definition list_stats :: "adevent \<Rightarrow> u64 \<Rightarrow> u64 \<Rightarrow> addr list \<Rightarrow> func_stats" where
  "list_stats s app fid l = (new_FuncStats app fid (name_of s (hd l)))
     \<lparr> fs_inclusive := push_all (map (inclusive_of s) l) (new_RunStats False),
       fs_exclusive := push_all (map (exclusive_of s) l) (new_RunStats False) \<rparr>"

lemma gather_calls_ok:
  assumes "set l \<subseteq> dom (store_map s)"
  shows "\<exists>mn' mx'. foldE (gather_call s) l (f, mn, mx) = Inr (f \<lparr>
    fs_inclusive := push_all (map (inclusive_of s) l) (fs_inclusive f),
    fs_exclusive := push_all (map (exclusive_of s) l) (fs_exclusive f) \<rparr>, mn', mx')"
  using assms
proof (induction l arbitrary: f mn mx)
  case Nil
  then show ?case by (simp add: push_all_def)
next
  case (Cons a l)
  then obtain x where x: "store_map s a = Some x" by auto
  have "foldE (gather_call s) (a # l) (f, mn, mx) = foldE (gather_call s) l (f \<lparr>
      fs_inclusive := push (inclusive_of s a) (fs_inclusive f), fs_exclusive := push (exclusive_of s a) (fs_exclusive f) \<rparr>,
      min mn (m_entry x), max mx (m_exit x))"
    using x by (simp add: gather_call_def deref_def inclusive_of_def exclusive_of_def)
  then show ?case
    using Cons.IH [of "f \<lparr> fs_inclusive := push (inclusive_of s a) (fs_inclusive f),
        fs_exclusive := push (exclusive_of s a) (fs_exclusive f) \<rparr>" "min mn (m_entry x)" "max mx (m_exit x)"] Cons.prems
    by (simp add: push_all_def)
qed

lemma gather_functions_ok:
  assumes "distinct (map fst fls)" "\<forall>(fid, l) \<in> set fls. set l \<subseteq> dom (store_map s)" "\<forall>(fid, l) \<in> set fls. map_of m fid = None"
  shows "\<exists>m' mn' mx'. foldE (gather_function s app) fls (m, mn, mx) = Inr (m', mn', mx')
    \<and> (\<forall>(fid, l) \<in> set fls. map_of m' fid = (if l = [] then None else Some (list_stats s app fid l)))
    \<and> (\<forall>fid. fid \<notin> fst ` set fls \<longrightarrow> map_of m' fid = map_of m fid)"
  using assms
proof (induction fls arbitrary: m mn mx)
  case Nil
  then show ?case by simp
next
  case (Cons fl fls)
  obtain fid l where fl: "fl = (fid, l)" by force
  have new: "fid \<notin> fst ` set fls" using Cons.prems(1) fl by simp
  have live: "set l \<subseteq> dom (store_map s)" and none: "map_of m fid = None" using Cons.prems(2,3) fl by simp_all
  obtain m1 mn1 mx1 where 1: "gather_function s app (fid, l) (m, mn, mx) = Inr (m1, mn1, mx1)"
    "map_of m1 fid = (if l = [] then None else Some (list_stats s app fid l))" "\<forall>k. k \<noteq> fid \<longrightarrow> map_of m1 k = map_of m k"
  proof (cases "l = []")
    case True
    with none that [of m mn mx] show ?thesis by (simp add: gather_function_def)
  next
    case False
    obtain x where x: "store_map s (hd l) = Some x" using subsetD [OF live hd_in_set [OF False]] by auto
    let ?f = "new_FuncStats app fid (m_funcname x)"
    obtain mn' mx' where "foldE (gather_call s) l (?f, mn, mx) = Inr (?f \<lparr>
      fs_inclusive := push_all (map (inclusive_of s) l) (fs_inclusive ?f),
      fs_exclusive := push_all (map (exclusive_of s) l) (fs_exclusive ?f) \<rparr>, mn', mx')"
      using gather_calls_ok [OF live] by blast
    then have "gather_function s app (fid, l) (m, mn, mx) = Inr (AList.update fid (list_stats s app fid l) m, mn', mx')"
      using False none x
      by (simp add: gather_function_def stats_entry_def deref_def list_stats_def name_of_def new_FuncStats_def)
    with False that show ?thesis by simp
  qed
  have "map_of m1 k = None" if "(k, l') \<in> set fls" for k l'
    using Cons.prems(1,3) 1(3) that fl by force
  then have pre: "\<forall>(k, l') \<in> set fls. map_of m1 k = None" by blast
  obtain m' mn' mx' where 2: "foldE (gather_function s app) fls (m1, mn1, mx1) = Inr (m', mn', mx')"
    "\<forall>(k, l') \<in> set fls. map_of m' k = (if l' = [] then None else Some (list_stats s app k l'))"
    "\<forall>k. k \<notin> fst ` set fls \<longrightarrow> map_of m' k = map_of m1 k"
    using Cons.IH [OF _ _ pre, of mn1 mx1] Cons.prems(1,2) by auto
  have "map_of m' fid = (if l = [] then None else Some (list_stats s app fid l))"
    using 2(3) new 1(2) by simp
  with 1 2 fl show ?case by auto
qed

lemma gatherStatistics_ok:
  assumes "filed d" "m_dset_fid_map d = map fst (m_execDataMap (i_events d))"
  shows "\<exists>lf. gatherStatistics (i_events d) (new_ADLocalFuncStatistics app rank step) = Inr lf
    \<and> ad_outlier_scores (lf_anom_data lf) = new_RunStats True \<and> ad_n_anomalies (lf_anom_data lf) = 0
    \<and> (\<forall>i < nDataSets d. map_of (lf_funcstats lf) (m_dset_fid_map d ! i) =
         (if set_list d i = [] then None else Some (list_stats (i_events d) app (m_dset_fid_map d ! i) (set_list d i))))"
proof -
  let ?s = "i_events d"
  have dist: "distinct (map fst (m_execDataMap ?s))" using assms(1) by (simp add: filed_def flip: assms(2))
  have "set l \<subseteq> dom (store_map ?s)" if mem: "(fid, l) \<in> set (m_execDataMap ?s)" for fid l
  proof -
    obtain i where i: "i < length (m_execDataMap ?s)" "m_execDataMap ?s ! i = (fid, l)"
      using mem unfolding in_set_conv_nth by blast
    then have m: "i < nDataSets d" "m_dset_fid_map d ! i = fid"
      using assms(1) by (simp_all add: filed_def assms(2))
    then have "set_list d i = l" using dist mem by (simp add: set_list_def al_get_mem)
    with filed_live [OF assms(1) m(1)] show ?thesis by simp
  qed
  then have live: "\<forall>(fid, l) \<in> set (m_execDataMap ?s). set l \<subseteq> dom (store_map ?s)" by blast
  obtain m' mn' mx' where r: "foldE (gather_function ?s app) (m_execDataMap ?s) ([], u64_max, 0) = Inr (m', mn', mx')"
    "\<forall>(fid, l) \<in> set (m_execDataMap ?s). map_of m' fid = (if l = [] then None else Some (list_stats ?s app fid l))"
    using gather_functions_ok [OF dist live, of "[]" app u64_max 0] by auto
  have "(m_dset_fid_map d ! i, set_list d i) \<in> set (m_execDataMap ?s)" if "i < nDataSets d" for i
    using that assms(1) by (auto simp: filed_def dest: map_of_SomeD)
  with r show ?thesis
    by (fastforce simp: gatherStatistics_def new_ADLocalFuncStatistics_def new_AnomalyData_values_def anomaly_data_set_def
        new_AnomalyData_def)
qed

definition anoms :: "exec_interface \<Rightarrow> nat \<Rightarrow> elem list" where
  "anoms d i = m_anomalies (m_dset_anom d ! i)"

definition add_count :: "nat \<Rightarrow> func_stats \<Rightarrow> func_stats" where
  "add_count n f = f \<lparr> fs_n_anomaly := fs_n_anomaly f + of_nat n \<rparr>"

lemma add_scores:
  "fold (\<lambda>e. add_outlier_score (e_score e)) es a =
     a \<lparr> ad_outlier_scores := push_all (map e_score es) (ad_outlier_scores a) \<rparr>"
  by (induction es arbitrary: a) (simp_all add: add_outlier_score_def push_all_def)

lemma gather_anom_ok:
  assumes "step_done d" "m < nDataSets d"
    and "set_list d m \<noteq> [] \<longrightarrow> map_of (lf_funcstats lf) (m_dset_fid_map d ! m) \<noteq> None"
  shows "\<exists>lf'. gather_anom d m (lf, tot) = Inr (lf', tot + length (anoms d m))
    \<and> lf_anom_data lf' = (lf_anom_data lf) \<lparr> ad_outlier_scores :=
        push_all (map e_score (anoms d m)) (ad_outlier_scores (lf_anom_data lf)) \<rparr>
    \<and> (\<forall>k. map_of (lf_funcstats lf') k = (if k = m_dset_fid_map d ! m then map_option (add_count (length (anoms d m))) (map_of (lf_funcstats lf) k)
         else map_of (lf_funcstats lf) k))"
proof -
  let ?r = "m_dset_anom d ! m" and ?k = "m_dset_fid_map d ! m"
  have rec: "recorded_set d m" using assms(1,2) by (simp add: step_done_def)
  have f: "filed d" using assms(1) by (simp add: step_done_def)
  have model: "getDataSetModelIndex m d = Inr ?k" "getResults m d = Inr ?r"
    using f assms(2) by (simp_all add: filed_def getDataSetModelIndex_def getResults_def)
  show ?thesis
  proof (cases "m_anomalies ?r = [] \<and> m_normal_events ?r = []")
    case True
    then have "gather_anom d m (lf, tot) = Inr (lf, tot)"
      using model by (simp add: gather_anom_def nEventsRecorded_set_def)
    with True show ?thesis
      by (cases "map_of (lf_funcstats lf) ?k") (simp_all add: anoms_def push_all_def add_count_def)
  next
    case False
    then have "set_list d m \<noteq> []" using rec
      by (cases "set_list d m") (auto simp: recorded_set_def recorded_event_def neq_Nil_conv)
    then obtain f where f: "map_of (lf_funcstats lf) ?k = Some f" using assms(3) by auto
    have "gather_anom d m (lf, tot) = Inr (lf \<lparr>
        lf_funcstats := AList.update ?k (add_count (length (anoms d m)) f) (lf_funcstats lf),
        lf_anom_data := fold (\<lambda>e. add_outlier_score (e_score e)) (anoms d m) (lf_anom_data lf) \<rparr>, tot + length (anoms d m))"
      using model f False
      by (auto simp: gather_anom_def nEventsRecorded_set_def getEventsRecorded_def anoms_def add_count_def Let_def)
    with f show ?thesis by (simp add: add_scores)
  qed
qed

lemma gather_anoms_ok:
  assumes "step_done d" "m \<le> nDataSets d"
    and "\<forall>i < nDataSets d. set_list d i \<noteq> [] \<longrightarrow> map_of (lf_funcstats lf) (m_dset_fid_map d ! i) \<noteq> None"
  shows "\<exists>lf'. foldE (gather_anom d) [0..<m] (lf, 0) = Inr (lf', \<Sum>i\<leftarrow>[0..<m]. length (anoms d i))
    \<and> lf_anom_data lf' = (lf_anom_data lf) \<lparr> ad_outlier_scores :=
        push_all (concat (map (\<lambda>i. map e_score (anoms d i)) [0..<m])) (ad_outlier_scores (lf_anom_data lf)) \<rparr>
    \<and> (\<forall>i < nDataSets d. map_of (lf_funcstats lf') (m_dset_fid_map d ! i) =
         (if i < m then map_option (add_count (length (anoms d i))) else (\<lambda>x. x)) (map_of (lf_funcstats lf) (m_dset_fid_map d ! i)))"
  using assms(2)
proof (induction m)
  case 0
  then show ?case by (simp add: push_all_def)
next
  case (Suc m)
  then obtain lf1 where 1: "foldE (gather_anom d) [0..<m] (lf, 0) = Inr (lf1, \<Sum>i\<leftarrow>[0..<m]. length (anoms d i))"
    "lf_anom_data lf1 = (lf_anom_data lf) \<lparr> ad_outlier_scores :=
        push_all (concat (map (\<lambda>i. map e_score (anoms d i)) [0..<m])) (ad_outlier_scores (lf_anom_data lf)) \<rparr>"
    "\<forall>i < nDataSets d. map_of (lf_funcstats lf1) (m_dset_fid_map d ! i) =
         (if i < m then map_option (add_count (length (anoms d i))) else (\<lambda>x. x)) (map_of (lf_funcstats lf) (m_dset_fid_map d ! i))"
    by auto
  have m: "m < nDataSets d" using Suc.prems by simp
  have f: "filed d" using assms(1) by (simp add: step_done_def)
  have key: "m_dset_fid_map d ! i = m_dset_fid_map d ! m \<longleftrightarrow> i = m" if "i < nDataSets d" for i
    using f that m by (simp add: filed_def nth_eq_iff_index_eq)
  have entry: "set_list d m \<noteq> [] \<longrightarrow> map_of (lf_funcstats lf1) (m_dset_fid_map d ! m) \<noteq> None"
    using assms(3) 1(3) m by simp
  obtain lf2 where 2: "gather_anom d m (lf1, \<Sum>i\<leftarrow>[0..<m]. length (anoms d i)) =
      Inr (lf2, (\<Sum>i\<leftarrow>[0..<m]. length (anoms d i)) + length (anoms d m))"
    "lf_anom_data lf2 = (lf_anom_data lf1) \<lparr> ad_outlier_scores :=
        push_all (map e_score (anoms d m)) (ad_outlier_scores (lf_anom_data lf1)) \<rparr>"
    "\<forall>k. map_of (lf_funcstats lf2) k = (if k = m_dset_fid_map d ! m then map_option (add_count (length (anoms d m))) (map_of (lf_funcstats lf1) k)
         else map_of (lf_funcstats lf1) k)"
    using gather_anom_ok [OF assms(1) m entry, of "\<Sum>i\<leftarrow>[0..<m]. length (anoms d i)"] by blast
  have "\<forall>i < nDataSets d. map_of (lf_funcstats lf2) (m_dset_fid_map d ! i) =
         (if i < Suc m then map_option (add_count (length (anoms d i))) else (\<lambda>x. x)) (map_of (lf_funcstats lf) (m_dset_fid_map d ! i))"
    using 1(3) 2(3) key by (auto simp: less_Suc_eq)
  moreover have "lf_anom_data lf2 = (lf_anom_data lf) \<lparr> ad_outlier_scores :=
        push_all (concat (map (\<lambda>i. map e_score (anoms d i)) [0..<Suc m])) (ad_outlier_scores (lf_anom_data lf)) \<rparr>"
    using 1(2) 2(2) by (simp add: push_all_def)
  ultimately show ?case using 1(1) 2(1) by (simp add: foldE_append)
qed

text \<open>The entry of a function: its calls of the step and its anomalies.\<close>

definition set_statistics :: "exec_interface \<Rightarrow> u64 \<Rightarrow> nat \<Rightarrow> func_stats option \<Rightarrow> bool" where
  "set_statistics d app i fo \<longleftrightarrow> fo =
     (if set_list d i = [] then None
      else Some (add_count (length (anoms d i)) (list_stats (i_events d) app (m_dset_fid_map d ! i) (set_list d i))))"

lemma local_statistics_run:
  assumes "step_done d"
  shows "\<exists>lf lf'. gatherStatistics (i_events d) (new_ADLocalFuncStatistics app rank step) = Inr lf
    \<and> gatherAnomalies d lf = Inr lf'
    \<and> ad_n_anomalies (lf_anom_data lf') = of_nat (nEventsRecorded Outlier d)
    \<and> ad_outlier_scores (lf_anom_data lf') =
        push_all (concat (map (\<lambda>i. map e_score (anoms d i)) [0..<nDataSets d])) (new_RunStats True)
    \<and> (\<forall>i < nDataSets d. set_statistics d app i (map_of (lf_funcstats lf') (m_dset_fid_map d ! i)))"
proof -
  obtain lf where lf: "gatherStatistics (i_events d) (new_ADLocalFuncStatistics app rank step) = Inr lf"
    "ad_outlier_scores (lf_anom_data lf) = new_RunStats True" "ad_n_anomalies (lf_anom_data lf) = 0"
    "\<forall>i < nDataSets d. map_of (lf_funcstats lf) (m_dset_fid_map d ! i) =
         (if set_list d i = [] then None else Some (list_stats (i_events d) app (m_dset_fid_map d ! i) (set_list d i)))"
    using gatherStatistics_ok [of d app rank step] assms by (auto simp: step_done_def)
  obtain lf1 where 1: "foldE (gather_anom d) [0..<nDataSets d] (lf, 0) = Inr (lf1, \<Sum>i\<leftarrow>[0..<nDataSets d]. length (anoms d i))"
    "lf_anom_data lf1 = (lf_anom_data lf) \<lparr> ad_outlier_scores :=
        push_all (concat (map (\<lambda>i. map e_score (anoms d i)) [0..<nDataSets d])) (ad_outlier_scores (lf_anom_data lf)) \<rparr>"
    "\<forall>i < nDataSets d. map_of (lf_funcstats lf1) (m_dset_fid_map d ! i) =
         (if i < nDataSets d then map_option (add_count (length (anoms d i))) else (\<lambda>x. x)) (map_of (lf_funcstats lf) (m_dset_fid_map d ! i))"
    using gather_anoms_ok [OF assms order_refl, of lf] lf(4) by auto
  have "map (\<lambda>i. m_dset_anom d ! i) [0..<nDataSets d] = m_dset_anom d" by (simp add: nDataSets_def map_nth)
  then have "nEventsRecorded Outlier d = (\<Sum>i\<leftarrow>[0..<nDataSets d]. length (anoms d i))"
    unfolding nEventsRecorded_def nEventsRecorded_set_def anoms_def
    by (metis (mono_tags, lifting) comp_apply list.map_comp map_eq_conv)
  with 1 lf show ?thesis
    by (simp add: gatherAnomalies_def incr_n_anomalies_def set_statistics_def)
qed

text \<open>
  C11. After a step of any of the detection algorithms over a fresh interface the statistics sent
  to the server are gathered without an error and are complete: of the functions with a data set
  those with calls in the step, and only those, have an entry with the moments of the run times of all
  its calls and the number of its anomalies, and the totals are those of all anomalies recorded.
\<close>

theorem local_statistics_complete:
  assumes "fresh_iface d" "keeps_indices label"
    and "run_algorithm ops srv fresh gather label d (ad, s) = Inr (ad', s', d')"
  shows "\<exists>lf lf'. gatherStatistics (i_events d') (new_ADLocalFuncStatistics app rank step) = Inr lf
    \<and> gatherAnomalies d' lf = Inr lf'
    \<and> ad_n_anomalies (lf_anom_data lf') = of_nat (nEventsRecorded Outlier d')
    \<and> ad_outlier_scores (lf_anom_data lf') =
        push_all (concat (map (\<lambda>i. map e_score (anoms d' i)) [0..<nDataSets d'])) (new_RunStats True)
    \<and> (\<forall>i < nDataSets d'. set_statistics d' app i (map_of (lf_funcstats lf') (m_dset_fid_map d' ! i)))"
  using run_done [OF assms] by (intro local_statistics_run) simp

section \<open>A step with two anomalies\<close>

text \<open>
  Two calls of function 7 with different run times and no tolerance: both are anomalies.
\<close>

definition two_calls :: adevent where
  "two_calls = new_ADEvent \<lparr> m_execDataMap := [(7, [0, 1])],
     store_map := [0 \<mapsto> new_ExecData \<lparr> m_fid := 7 \<rparr>, 1 \<mapsto> new_ExecData \<lparr> m_fid := 7, m_exclusive := 10 \<rparr>] \<rparr>"

definition two_iface :: exec_interface where
  "two_iface = new_ADExecDataInterface two_calls ExclusiveRuntime"

lemma two_iface_fresh: "fresh_iface two_iface" "small_indices two_iface"
  by (simp_all add: fresh_iface_def two_iface_def new_ADExecDataInterface_def two_calls_def exec_map_ok_def
      new_ExecData_def small_indices_def)

lemma two_iface_shape:
  "nDataSets two_iface = 1" "m_dset_fid_map two_iface = [7]" "m_dset_anom two_iface = [new_DataSetAnomalies]"
  by (simp_all add: two_iface_def new_ADExecDataInterface_def two_calls_def nDataSets_def)

lemma two_iface_fetch: "\<exists>d1. fetch_all two_iface = Inr ([[new_Elem 0 0, new_Elem 10 1]], d1)"
  by (simp add: fetch_all_def fetch_def two_iface_def new_ADExecDataInterface_def two_calls_def nDataSets_def
      getDataSet_def deref_def data_set_step_def Let_def getStatisticValue_def new_ExecData_def)

lemma two_iface_labels:
  assumes "sstd_out 0 [0, 10] [new_Elem 0 0, new_Elem 10 1] outs"
  shows "\<exists>e f. outs = [e, f] \<and> e_label e = Outlier \<and> e_label f = Outlier"
proof -
  obtain e f where o: "outs = [e, f]" "sstd_labelled 0 [0, 10] (new_Elem 0 0) e" "sstd_labelled 0 [0, 10] (new_Elem 10 1) f"
    using assms by (auto simp: sstd_out_def list_all2_Cons1)
  moreover have "mean [0, 10] = 5" by (simp add: mean_def)
  ultimately show ?thesis by (simp add: sstd_labelled_def new_Elem_def)
qed

lemma two_iface_run:
  "\<exists>ad' d' e f. sstd_run (\<lambda>p s. Inr (p, s)) 0 two_iface (new_ADOutlier 0 [], ()) = Inr (ad', (), d')
    \<and> m_anomalies (m_dset_anom d' ! 0) = [e, f] \<and> nDataSets d' = 1 \<and> m_dset_fid_map d' = [7]
    \<and> nEventsRecorded Outlier d' = 2"
proof -
  obtain dv d1 ad' d' outs where r: "fetch_all two_iface = Inr (dv, d1)"
    "sstd_run (\<lambda>p s. Inr (p, s)) 0 two_iface (new_ADOutlier 0 [], ()) = Inr (ad', (), d')" "same_shape two_iface d'"
    "\<forall>i < nDataSets two_iface. sstd_out 0 ([] @ values_of (m_dset_fid_map two_iface ! i) (gathered two_iface dv)) (dv ! i) (outs i)
         \<and> m_dset_anom d' ! i = fold recordEvent (outs i) (m_dset_anom two_iface ! i)"
    using sstd_run_live [OF sstd_offline_new [of 0] known_new filed_fresh(2) [OF two_iface_fresh(1)],
        of "\<lambda>p s. Inr (p, s)" 0 "()"] by blast
  have dv: "dv = [[new_Elem 0 0, new_Elem 10 1]]" using two_iface_fetch r(1) by auto
  have g: "values_of 7 (gathered two_iface dv) = [0, 10]" by (simp add: gathered_def two_iface_shape dv new_Elem_def)
  from r(4) have o: "sstd_out 0 [0, 10] [new_Elem 0 0, new_Elem 10 1] (outs 0)"
    and a: "m_dset_anom d' ! 0 = fold recordEvent (outs 0) new_DataSetAnomalies"
    using g by (simp_all add: two_iface_shape dv)
  obtain e f where ef: "outs 0 = [e, f]" "e_label e = Outlier" "e_label f = Outlier"
    using two_iface_labels [OF o] by blast
  have s: "m_anomalies (m_dset_anom d' ! 0) = [e, f]"
    unfolding a recordEvent_anomalies using ef by (simp add: new_DataSetAnomalies_def)
  have n: "nDataSets d' = 1" "m_dset_fid_map d' = [7]" using r(3) by (simp_all add: same_shape_def two_iface_shape)
  then have "m_dset_anom d' = [m_dset_anom d' ! 0]" by (cases "m_dset_anom d'") (auto simp: nDataSets_def)
  then obtain q where q: "m_dset_anom d' = [q]" "m_anomalies q = [e, f]" using s by auto
  then have "nEventsRecorded Outlier d' = 2" by (simp add: nEventsRecorded_def nEventsRecorded_set_def)
  with r(2) s n show ?thesis by blast
qed

theorem anomaly_metrics_complete_witness:
  "\<exists>ad' d' lm f. sstd_run (\<lambda>p s. Inr (p, s)) 0 two_iface (new_ADOutlier 0 [], ()) = Inr (ad', (), d')
    \<and> new_ADLocalAnomalyMetrics 0 0 0 0 0 d' = Inr lm
    \<and> map_of (lm_func_anom_metrics lm) 7 = Some f \<and> fm_count f = 2"
proof -
  obtain ad' d' e f where r: "sstd_run (\<lambda>p s. Inr (p, s)) 0 two_iface (new_ADOutlier 0 [], ()) = Inr (ad', (), d')"
    "m_anomalies (m_dset_anom d' ! 0) = [e, f]" "m_dset_fid_map d' = [7]" using two_iface_run by blast
  obtain lm where lm: "new_ADLocalAnomalyMetrics 0 0 0 0 0 d' = Inr lm"
    "\<forall>i < nDataSets two_iface. set_metrics d' i (map_of (lm_func_anom_metrics lm) (to_i32 (m_dset_fid_map two_iface ! i)))"
    using anomaly_metrics_complete [OF two_iface_fresh sstd_keeps r(1) [unfolded sstd_run_def], of 0 0 0 0 0] by blast
  have "to_i32 7 = 7" by (simp add: to_i32_def)
  then have "set_metrics d' 0 (map_of (lm_func_anom_metrics lm) 7)" using lm(2) by (simp add: two_iface_shape)
  then obtain g where "map_of (lm_func_anom_metrics lm) 7 = Some g" "fm_count g = 2"
    using r(2) by (auto simp: set_metrics_def)
  with r(1) lm(1) show ?thesis by blast
qed

theorem local_statistics_complete_witness:
  "\<exists>ad' d' lf lf' f. sstd_run (\<lambda>p s. Inr (p, s)) 0 two_iface (new_ADOutlier 0 [], ()) = Inr (ad', (), d')
    \<and> gatherStatistics (i_events d') (new_ADLocalFuncStatistics 3 0 0) = Inr lf \<and> gatherAnomalies d' lf = Inr lf'
    \<and> ad_n_anomalies (lf_anom_data lf') = 2 \<and> map_of (lf_funcstats lf') 7 = Some f \<and> fs_n_anomaly f = 2 \<and> fs_pid f = 3"
proof -
  obtain ad' d' e f where r: "sstd_run (\<lambda>p s. Inr (p, s)) 0 two_iface (new_ADOutlier 0 [], ()) = Inr (ad', (), d')"
    "m_anomalies (m_dset_anom d' ! 0) = [e, f]" "nDataSets d' = 1" "m_dset_fid_map d' = [7]" "nEventsRecorded Outlier d' = 2"
    using two_iface_run by blast
  obtain lf lf' where lf: "gatherStatistics (i_events d') (new_ADLocalFuncStatistics 3 0 0) = Inr lf"
    "gatherAnomalies d' lf = Inr lf'" "ad_n_anomalies (lf_anom_data lf') = of_nat (nEventsRecorded Outlier d')"
    "\<forall>i < nDataSets d'. set_statistics d' 3 i (map_of (lf_funcstats lf') (m_dset_fid_map d' ! i))"
    using local_statistics_complete [OF two_iface_fresh(1) sstd_keeps r(1) [unfolded sstd_run_def], of 3 0 0] by blast
  have "same_shape two_iface d'"
    using run_done [OF two_iface_fresh(1) sstd_keeps r(1) [unfolded sstd_run_def]] by simp
  then have "set_list d' 0 = [0, 1]"
    using r(4) by (simp add: set_list_def same_shape_sel two_iface_def new_ADExecDataInterface_def two_calls_def al_get_def)
  then obtain g where "map_of (lf_funcstats lf') 7 = Some g" "fs_n_anomaly g = 2" "fs_pid g = 3"
    using lf(4) r(2-4) by (auto simp: set_statistics_def add_count_def list_stats_def anoms_def new_FuncStats_def)
  moreover have "ad_n_anomalies (lf_anom_data lf') = 2" using lf(3) r(5) by simp
  ultimately show ?thesis using r(1) lf(1,2) by blast
qed

end
