(* ===== verification/MapMerge.thy ===== *)
theory MapMerge
  imports Pool
begin

text \<open>
  The nested merger of hash maps (\<open>unordered_map_plus_equals\<close> of \<open>core/util/map.hpp\<close>), which
  the parameter server uses to combine the maps of its worker threads. The merger of maps of
  mergeable objects fulfils the interface \<open>mergeable\<close> again, so the contract of the objects
  gives that of maps of maps of them.
\<close>

section \<open>The merger\<close>

text \<open>
  The merger of two hash maps: the value of a key that is absent in the left map is copied, the
  values of a common key are merged with \<open>pluseq\<close>.
\<close>

definition plus_entry :: "('v \<Rightarrow> 'v \<Rightarrow> 'v res) \<Rightarrow> 'k \<times> 'v \<Rightarrow> ('k \<times> 'v) list \<Rightarrow> ('k \<times> 'v) list res" where
  "plus_entry pluseq r into =
     (case map_of into (fst r) of
        None \<Rightarrow> Inr (AList.update (fst r) (snd r) into)
      | Some l \<Rightarrow> bind (pluseq l (snd r)) (\<lambda>v. Inr (AList.update (fst r) v into)))"

definition map_plus_equals :: "('v \<Rightarrow> 'v \<Rightarrow> 'v res) \<Rightarrow> ('k \<times> 'v) list \<Rightarrow> ('k \<times> 'v) list \<Rightarrow> ('k \<times> 'v) list res" where
  "map_plus_equals pluseq into r = foldE (plus_entry pluseq) r into"

definition map_repr :: "('k \<times> 'j \<Rightarrow> 'a \<Rightarrow> 's \<Rightarrow> bool) \<Rightarrow> 's \<Rightarrow> 'k \<Rightarrow> ('j \<times> 'a) list \<Rightarrow> ('j \<Rightarrow> 's) \<Rightarrow> bool" where
  "map_repr repr nil k m f \<longleftrightarrow> distinct (map fst m)
     \<and> (\<forall>j. case map_of m j of None \<Rightarrow> f j = nil | Some a \<Rightarrow> repr (k, j) a (f j))"

lemma map_repr_Nil: "map_repr repr nil k [] (\<lambda>_. nil)"
  by (simp add: map_repr_def)

lemma map_repr_update:
  assumes "map_repr repr nil k m f" "repr (k, j) a s"
  shows "map_repr repr nil k (AList.update j a m) (f(j := s))"
proof -
  have "case map_of (AList.update j a m) i of None \<Rightarrow> (f(j := s)) i = nil | Some a \<Rightarrow> repr (k, i) a ((f(j := s)) i)" for i
    using assms by (cases "i = j"; cases "map_of m i") (auto simp: map_repr_def dest!: spec [of _ i])
  with assms(1) show ?thesis by (simp add: map_repr_def distinct_update)
qed

lemma map_repr_Some: "map_repr repr nil k m f \<Longrightarrow> map_of m j = Some a \<Longrightarrow> repr (k, j) a (f j)"
  by (auto simp: map_repr_def dest!: spec [of _ j])

lemma map_repr_mem:
  assumes "map_repr repr nil k m f" "(j, a) \<in> set m"
  shows "repr (k, j) a (f j)"
proof -
  have "map_of m j = Some a" using assms by (simp add: map_repr_def)
  then show ?thesis by (rule map_repr_Some [OF assms(1)])
qed

lemma map_repr_None: "map_repr repr nil k m f \<Longrightarrow> map_of m j = None \<Longrightarrow> f j = nil"
  by (auto simp: map_repr_def dest!: spec [of _ j])

lemma map_repr_Cons:
  assumes "map_repr repr nil k ((j, a) # m) f"
  shows "repr (k, j) a (f j)" and "map_repr repr nil k m (f(j := nil))" and "j \<notin> fst ` set m"
proof -
  show j: "j \<notin> fst ` set m" using assms by (simp add: map_repr_def)
  show "repr (k, j) a (f j)" using map_repr_Some [OF assms, of j a] by simp
  have none: "map_of m j = None" using j by (simp add: map_of_eq_None_iff)
  have other: "map_of ((j, a) # m) i = map_of m i" if "i \<noteq> j" for i using that by simp
  have "case map_of m i of None \<Rightarrow> (f(j := nil)) i = nil | Some a \<Rightarrow> repr (k, i) a ((f(j := nil)) i)" for i
    using assms none other [of i] by (cases "i = j"; cases "map_of m i") (auto simp: map_repr_def dest!: spec [of _ i])
  then show "map_repr repr nil k m (f(j := nil))" using assms by (simp add: map_repr_def)
qed

locale mergeable_values = mergeable pluseq repr join nil
  for pluseq :: "'a \<Rightarrow> 'a \<Rightarrow> 'a res"
    and repr :: "'k \<times> 'j \<Rightarrow> 'a \<Rightarrow> 's \<Rightarrow> bool"
    and join :: "'s \<Rightarrow> 's \<Rightarrow> 's"
    and nil :: 's
begin

lemma plus_entry_ok:
  assumes "map_repr repr nil k m f" "repr (k, j) a s"
  shows "\<exists>m'. plus_entry pluseq (j, a) m = Inr m' \<and> map_repr repr nil k m' (f(j := join (f j) s))"
proof (cases "map_of m j")
  case None
  have "map_repr repr nil k (AList.update j a m) (f(j := s))"
    by (rule map_repr_update [OF assms])
  with None map_repr_None [OF assms(1) None] show ?thesis
    by (simp add: plus_entry_def join_nil)
next
  case (Some l)
  obtain c where c: "pluseq l a = Inr c" "repr (k, j) c (join (f j) s)"
    using plus_ok [OF map_repr_Some [OF assms(1) Some] assms(2)] by blast
  with Some show ?thesis
    by (simp add: plus_entry_def map_repr_update [OF assms(1)])
qed

lemma map_plus_ok:
  assumes "map_repr repr nil k m f" "map_repr repr nil k r g"
  shows "\<exists>m'. map_plus_equals pluseq m r = Inr m' \<and> map_repr repr nil k m' (\<lambda>j. join (f j) (g j))"
  using assms
proof (induction r arbitrary: m f g)
  case Nil
  then have "g = (\<lambda>_. nil)" by (auto simp: map_repr_def)
  with Nil show ?case by (simp add: map_plus_equals_def join_nil)
next
  case (Cons x r)
  obtain j a where x: "x = (j, a)" by force
  note r = map_repr_Cons [OF Cons.prems(2) [unfolded x]]
  obtain m1 where m1: "plus_entry pluseq (j, a) m = Inr m1"
    "map_repr repr nil k m1 (f(j := join (f j) (g j)))"
    using plus_entry_ok [OF Cons.prems(1) r(1)] by blast
  obtain m' where m': "map_plus_equals pluseq m1 r = Inr m'"
    "map_repr repr nil k m' (\<lambda>i. join ((f(j := join (f j) (g j))) i) ((g(j := nil)) i))"
    using Cons.IH [OF m1(2) r(2)] by blast
  have "(\<lambda>i. join ((f(j := join (f j) (g j))) i) ((g(j := nil)) i)) = (\<lambda>i. join (f i) (g i))"
    by (auto simp: join_nil)
  with m1 m' show ?case by (simp add: map_plus_equals_def x)
qed

end

text \<open>So hash maps of mergeable objects are mergeable again.\<close>

sublocale mergeable_values \<subseteq> maps: mergeable "map_plus_equals pluseq" "map_repr repr nil"
  "\<lambda>f g j. join (f j) (g j)" "\<lambda>_. nil"
  by unfold_locales (use map_plus_ok in \<open>auto simp: join_nil\<close>)

end
