(* ===== verification/Aggregates.thy ===== *)
theory Aggregates
  imports LocalStats MapMerge
begin

text \<open>
  The objects in which the parameter server aggregates the statistics of all analysis processes:
  run times of functions (\<open>AggregateFuncStats.cpp\<close>), anomalies per step
  (\<open>AggregateAnomalyData.cpp\<close>) and metrics of the anomalies of a function, per rank and over
  all ranks (\<open>AggregateFuncAnomalyMetrics.cpp\<close>, \<open>AggregateFuncAnomalyMetricsAllRanks.cpp\<close>).
\<close>

section \<open>Function statistics\<close>

record aggregate_func_stats =
  af_pid :: int
  af_fid :: int
  af_func :: string
  af_func_anomaly :: run_stats
  af_inclusive :: run_stats
  af_exclusive :: run_stats

definition new_AggregateFuncStats :: "int \<Rightarrow> int \<Rightarrow> string \<Rightarrow> aggregate_func_stats" where
  "new_AggregateFuncStats pid fid func = \<lparr> af_pid = pid, af_fid = fid, af_func = func,
     af_func_anomaly = (new_RunStats False) \<lparr> m_do_accumulate := True \<rparr>,
     af_inclusive = (new_RunStats False) \<lparr> m_do_accumulate := True \<rparr>,
     af_exclusive = (new_RunStats False) \<lparr> m_do_accumulate := True \<rparr> \<rparr>"

definition af_add :: "u64 \<Rightarrow> run_stats \<Rightarrow> run_stats \<Rightarrow> aggregate_func_stats \<Rightarrow> aggregate_func_stats" where
  "af_add n_anomaly inclusive exclusive a =
     a \<lparr> af_func_anomaly := push (of_nat (unat n_anomaly)) (af_func_anomaly a),
         af_inclusive := plus_assign (af_inclusive a) inclusive,
         af_exclusive := plus_assign (af_exclusive a) exclusive \<rparr>"

definition af_plus :: "aggregate_func_stats \<Rightarrow> aggregate_func_stats \<Rightarrow> aggregate_func_stats res" where
  "af_plus a r =
     (if af_pid r \<noteq> af_pid a \<or> af_fid r \<noteq> af_fid a \<or> af_func r \<noteq> af_func a
      then Inl (Fatal ''Instances should refer to the same process/function!'')
      else Inr (a \<lparr> af_func_anomaly := plus_assign (af_func_anomaly a) (af_func_anomaly r),
                    af_inclusive := plus_assign (af_inclusive a) (af_inclusive r),
                    af_exclusive := plus_assign (af_exclusive a) (af_exclusive r) \<rparr>))"

definition eq_AggregateFuncStats :: "aggregate_func_stats \<Rightarrow> aggregate_func_stats \<Rightarrow> bool" where
  "eq_AggregateFuncStats a r \<longleftrightarrow> af_pid a = af_pid r \<and> af_fid a = af_fid r \<and> af_func a = af_func r
     \<and> eq_RunStats (af_func_anomaly a) (af_func_anomaly r) \<and> eq_RunStats (af_inclusive a) (af_inclusive r)
     \<and> eq_RunStats (af_exclusive a) (af_exclusive r)"

section \<open>Anomalies per step\<close>

text \<open>The list of the data since the last flush is owned through a pointer; a moved-from object has none.\<close>

record aggregate_anomaly_data =
  aa_stats :: run_stats
  aa_data :: "anomaly_data list option"

definition new_AggregateAnomalyData :: "bool \<Rightarrow> aggregate_anomaly_data" where
  "new_AggregateAnomalyData do_accumulate =
     \<lparr> aa_stats = (new_RunStats False) \<lparr> m_do_accumulate := do_accumulate \<rparr>, aa_data = Some [] \<rparr>"

definition aa_move :: "aggregate_anomaly_data \<Rightarrow> aggregate_anomaly_data \<times> aggregate_anomaly_data" where
  "aa_move r = (\<lparr> aa_stats = aa_stats r, aa_data = aa_data r \<rparr>, r \<lparr> aa_data := None \<rparr>)"

definition aa_add :: "anomaly_data \<Rightarrow> bool \<Rightarrow> aggregate_anomaly_data \<Rightarrow> aggregate_anomaly_data res" where
  "aa_add d bStore a =
     (let a1 = a \<lparr> aa_stats := push (of_nat (unat (ad_n_anomalies d))) (aa_stats a) \<rparr> in
      if bStore then
        (case aa_data a1 of None \<Rightarrow> Inl NullPointer | Some l \<Rightarrow> Inr (a1 \<lparr> aa_data := Some (l @ [d]) \<rparr>))
      else Inr a1)"

definition aa_get_n_data :: "aggregate_anomaly_data \<Rightarrow> nat" where
  "aa_get_n_data a = (case aa_data a of None \<Rightarrow> 0 | Some l \<Rightarrow> length l)"

definition aa_flush :: "aggregate_anomaly_data \<Rightarrow> aggregate_anomaly_data res" where
  "aa_flush a =
     (case aa_data a of
        None \<Rightarrow> Inl NullPointer
      | Some l \<Rightarrow> Inr (if l \<noteq> [] then a \<lparr> aa_data := Some [] \<rparr> else a))"

definition eq_AggregateAnomalyData :: "aggregate_anomaly_data \<Rightarrow> aggregate_anomaly_data \<Rightarrow> bool res" where
  "eq_AggregateAnomalyData a r =
     (if \<not> eq_RunStats (aa_stats a) (aa_stats r) then Inr False
      else (case (aa_data a, aa_data r) of
          (Some l, Some k) \<Rightarrow> Inr (list_all2 eq_AnomalyData l k)
        | (None, None) \<Rightarrow> Inl NullPointer
        | _ \<Rightarrow> Inr False))"

text \<open>
  What \<open>get_json\<close> puts into the object of a program and rank; \<open>None\<close> is the empty object, which
  the caller leaves out.
\<close>

record stat_packet =
  sp_pid :: int
  sp_rid :: int
  sp_stats :: run_stats
  sp_data :: "anomaly_data list"

definition aa_get_json :: "int \<Rightarrow> int \<Rightarrow> aggregate_anomaly_data \<Rightarrow> stat_packet option res" where
  "aa_get_json pid rid a =
     (case aa_data a of
        None \<Rightarrow> Inl (Fatal ''List pointer should not be null'')
      | Some l \<Rightarrow>
          Inr (if \<exists>d \<in> set l. 0 < ad_n_anomalies d then
                 Some \<lparr> sp_pid = pid, sp_rid = rid, sp_stats = aa_stats a,
                        sp_data = filter (\<lambda>d. 0 < ad_n_anomalies d) l \<rparr>
               else None))"

definition aa_plus :: "aggregate_anomaly_data \<Rightarrow> aggregate_anomaly_data \<Rightarrow> aggregate_anomaly_data res" where
  "aa_plus a r =
     (let a1 = a \<lparr> aa_stats := plus_assign (aa_stats a) (aa_stats r) \<rparr> in
      case (aa_data a1, aa_data r) of
        (Some l, Some k) \<Rightarrow> Inr (a1 \<lparr> aa_data := Some (l @ k) \<rparr>)
      | _ \<Rightarrow> Inl (Fatal ''List pointers should not be null!''))"

section \<open>Metrics of the anomalies of a function\<close>

record aggregate_func_anomaly_metrics =
  am_pid :: int
  am_rid :: int
  am_fid :: int
  am_func :: string
  am_count :: run_stats
  am_score :: run_stats
  am_severity :: run_stats
  am_first_event_ts :: u64
  am_last_event_ts :: u64
  am_first_io_step :: u64
  am_last_io_step :: u64

definition new_AggregateFuncAnomalyMetrics :: "int \<Rightarrow> int \<Rightarrow> int \<Rightarrow> string \<Rightarrow> aggregate_func_anomaly_metrics" where
  "new_AggregateFuncAnomalyMetrics pid rid fid func = \<lparr> am_pid = pid, am_rid = rid, am_fid = fid, am_func = func,
     am_count = new_RunStats True, am_score = new_RunStats True, am_severity = new_RunStats True,
     am_first_event_ts = u64_max, am_last_event_ts = 0, am_first_io_step = u64_max, am_last_io_step = 0 \<rparr>"

definition am_add ::
    "func_anomaly_metrics \<Rightarrow> u64 \<Rightarrow> u64 \<Rightarrow> u64 \<Rightarrow> aggregate_func_anomaly_metrics \<Rightarrow> aggregate_func_anomaly_metrics res" where
  "am_add metrics io_step first_event_ts last_event_ts a =
     (if fm_fid metrics \<noteq> am_fid a then Inl (Fatal ''Function index mismatch'')
      else Inr (a \<lparr> am_score := plus_assign (am_score a) (fm_score metrics),
                    am_severity := plus_assign (am_severity a) (fm_severity metrics),
                    am_count := push (of_int (fm_count metrics)) (am_count a),
                    am_first_io_step := min (am_first_io_step a) io_step,
                    am_last_io_step := max (am_last_io_step a) io_step,
                    am_first_event_ts := min (am_first_event_ts a) first_event_ts,
                    am_last_event_ts := max (am_last_event_ts a) last_event_ts \<rparr>))"

definition am_plus ::
    "aggregate_func_anomaly_metrics \<Rightarrow> aggregate_func_anomaly_metrics \<Rightarrow> aggregate_func_anomaly_metrics res" where
  "am_plus a r =
     (if am_pid a \<noteq> am_pid r \<or> am_rid a \<noteq> am_rid r \<or> am_fid a \<noteq> am_fid r \<or> am_func a \<noteq> am_func r
      then Inl (Fatal ''Data metadata mismatch'')
      else Inr (a \<lparr> am_count := plus_assign (am_count a) (am_count r),
                    am_score := plus_assign (am_score a) (am_score r),
                    am_severity := plus_assign (am_severity a) (am_severity r),
                    am_first_event_ts := min (am_first_event_ts a) (am_first_event_ts r),
                    am_last_event_ts := max (am_last_event_ts a) (am_last_event_ts r),
                    am_first_io_step := min (am_first_io_step a) (am_first_io_step r),
                    am_last_io_step := max (am_last_io_step a) (am_last_io_step r) \<rparr>))"

definition eq_AggregateFuncAnomalyMetrics ::
    "aggregate_func_anomaly_metrics \<Rightarrow> aggregate_func_anomaly_metrics \<Rightarrow> bool" where
  "eq_AggregateFuncAnomalyMetrics a r \<longleftrightarrow>
     am_pid a = am_pid r \<and> am_rid a = am_rid r \<and> am_fid a = am_fid r \<and> am_func a = am_func r
     \<and> eq_RunStats (am_count a) (am_count r) \<and> eq_RunStats (am_score a) (am_score r)
     \<and> eq_RunStats (am_severity a) (am_severity r)
     \<and> am_first_event_ts a = am_first_event_ts r \<and> am_last_event_ts a = am_last_event_ts r
     \<and> am_first_io_step a = am_first_io_step r \<and> am_last_io_step a = am_last_io_step r"

text \<open>The same over all ranks.\<close>

record all_ranks_metrics =
  ar_pid :: int
  ar_fid :: int
  ar_func :: string
  ar_count :: run_stats
  ar_score :: run_stats
  ar_severity :: run_stats
  ar_first_event_ts :: u64
  ar_last_event_ts :: u64
  ar_first_io_step :: u64
  ar_last_io_step :: u64

definition new_AllRanks :: "int \<Rightarrow> int \<Rightarrow> string \<Rightarrow> all_ranks_metrics" where
  "new_AllRanks pid fid func = \<lparr> ar_pid = pid, ar_fid = fid, ar_func = func,
     ar_count = new_RunStats True, ar_score = new_RunStats True, ar_severity = new_RunStats True,
     ar_first_event_ts = u64_max, ar_last_event_ts = 0, ar_first_io_step = u64_max, ar_last_io_step = 0 \<rparr>"

definition ar_add :: "aggregate_func_anomaly_metrics \<Rightarrow> all_ranks_metrics \<Rightarrow> all_ranks_metrics res" where
  "ar_add r a =
     (if ar_pid a \<noteq> am_pid r \<or> ar_fid a \<noteq> am_fid r \<or> ar_func a \<noteq> am_func r
      then Inl (Fatal ''Data metadata mismatch'')
      else Inr (a \<lparr> ar_count := plus_assign (ar_count a) (am_count r),
                    ar_score := plus_assign (ar_score a) (am_score r),
                    ar_severity := plus_assign (ar_severity a) (am_severity r),
                    ar_first_event_ts := min (ar_first_event_ts a) (am_first_event_ts r),
                    ar_last_event_ts := max (ar_last_event_ts a) (am_last_event_ts r),
                    ar_first_io_step := min (ar_first_io_step a) (am_first_io_step r),
                    ar_last_io_step := max (ar_last_io_step a) (am_last_io_step r) \<rparr>))"

definition eq_AllRanks :: "all_ranks_metrics \<Rightarrow> all_ranks_metrics \<Rightarrow> bool" where
  "eq_AllRanks a r \<longleftrightarrow>
     ar_pid a = ar_pid r \<and> ar_fid a = ar_fid r \<and> ar_func a = ar_func r
     \<and> eq_RunStats (ar_count a) (ar_count r) \<and> eq_RunStats (ar_score a) (ar_score r)
     \<and> eq_RunStats (ar_severity a) (ar_severity r)
     \<and> ar_first_event_ts a = ar_first_event_ts r \<and> ar_last_event_ts a = ar_last_event_ts r
     \<and> ar_first_io_step a = ar_first_io_step r \<and> ar_last_io_step a = ar_last_io_step r"

end
