(* ===== verification/GlobalStats.thy ===== *)
theory GlobalStats
  imports Aggregates
begin

text \<open>
  What the parameter server keeps of the messages of the analysis processes
  (\<open>GlobalAnomalyStats.cpp\<close>, \<open>GlobalAnomalyMetrics.cpp\<close>, \<open>GlobalCounterStats.cpp\<close>), the profile
  made of it (\<open>FunctionProfile.cpp\<close>), the payload that receives the messages
  (\<open>NetPayloadRecvCombinedADdata.cpp\<close>) and the manager with one set of objects per worker thread
  (\<open>PSmoduleDataManager.cpp\<close>). What runs under one mutex is one step of its callers' runs; an
  operation that takes a mutex several times is the composition of such steps. Instead of JSON an operation
  returns the records whose fields the JSON holds. \<open>to_i32\<close> and \<open>word_of_int\<close> are the
  conversions between program indices kept as \<open>int\<close> and as \<open>unsigned long\<close>.
\<close>

section \<open>Anomaly and function statistics\<close>

record global_anomaly_stats =
  m_anomaly_stats :: "(int \<times> (u64 \<times> aggregate_anomaly_data) list) list"
  m_funcstats :: "(u64 \<times> (u64 \<times> aggregate_func_stats) list) list"

definition new_GlobalAnomalyStats :: global_anomaly_stats where
  "new_GlobalAnomalyStats = \<lparr> m_anomaly_stats = [], m_funcstats = [] \<rparr>"

definition update_anomaly_stat :: "anomaly_data \<Rightarrow> global_anomaly_stats \<Rightarrow> global_anomaly_stats res" where
  "update_anomaly_stat anom g =
     (let pid = to_i32 (ad_app anom); ranks = al_get [] (m_anomaly_stats g) pid in
      bind (aa_add anom True (al_get (new_AggregateAnomalyData True) ranks (ad_rank anom))) (\<lambda>a.
        Inr (g \<lparr> m_anomaly_stats := AList.update pid (AList.update (ad_rank anom) a ranks) (m_anomaly_stats g) \<rparr>)))"

definition update_func_stat ::
    "int \<Rightarrow> u64 \<Rightarrow> string \<Rightarrow> u64 \<Rightarrow> run_stats \<Rightarrow> run_stats \<Rightarrow> global_anomaly_stats \<Rightarrow> global_anomaly_stats" where
  "update_func_stat pid fid name n_anomaly inclusive exclusive g =
     (let p = word_of_int pid; fs = al_get [] (m_funcstats g) p;
          a = al_get (new_AggregateFuncStats pid (to_i32 fid) name) fs fid in
      g \<lparr> m_funcstats := AList.update p (AList.update fid (af_add n_anomaly inclusive exclusive a) fs) (m_funcstats g) \<rparr>)"

definition add_func_stats :: "u64 \<times> func_stats \<Rightarrow> global_anomaly_stats \<Rightarrow> global_anomaly_stats" where
  "add_func_stats fp g =
     (let f = snd fp in
      update_func_stat (to_i32 (fs_pid f)) (fs_id f) (fs_name f) (fs_n_anomaly f) (fs_inclusive f) (fs_exclusive f) g)"

definition add_anomaly_data :: "local_func_statistics \<Rightarrow> global_anomaly_stats \<Rightarrow> global_anomaly_stats res" where
  "add_anomaly_data d g =
     bind (update_anomaly_stat (lf_anom_data d) g) (\<lambda>g1. Inr (fold add_func_stats (lf_funcstats d) g1))"

definition gs_plus :: "global_anomaly_stats \<Rightarrow> global_anomaly_stats \<Rightarrow> global_anomaly_stats res" where
  "gs_plus g r =
     bind (map_plus_equals (map_plus_equals aa_plus) (m_anomaly_stats g) (m_anomaly_stats r)) (\<lambda>s.
     bind (map_plus_equals (map_plus_equals af_plus) (m_funcstats g) (m_funcstats r)) (\<lambda>f.
       Inr \<lparr> m_anomaly_stats = s, m_funcstats = f \<rparr>))"

text \<open>A loop that changes the values of a hash map in place.\<close>

definition map_values :: "('a \<Rightarrow> 'b res) \<Rightarrow> ('k \<times> 'a) list \<Rightarrow> ('k \<times> 'b) list res" where
  "map_values f m = map_res (\<lambda>(k, a). bind (f a) (\<lambda>b. Inr (k, b))) m"

definition gs_merge_and_flush ::
    "global_anomaly_stats \<Rightarrow> global_anomaly_stats \<Rightarrow> (global_anomaly_stats \<times> global_anomaly_stats) res" where
  "gs_merge_and_flush g r =
     bind (map_plus_equals (map_plus_equals aa_plus) (m_anomaly_stats g) (m_anomaly_stats r)) (\<lambda>s.
     bind (map_values (map_values aa_flush) (m_anomaly_stats r)) (\<lambda>rs.
     bind (map_plus_equals (map_plus_equals af_plus) (m_funcstats g) (m_funcstats r)) (\<lambda>f.
       Inr (\<lparr> m_anomaly_stats = s, m_funcstats = f \<rparr>, r \<lparr> m_anomaly_stats := rs \<rparr>))))"

definition get_anomaly_stat_container :: "int \<Rightarrow> u64 \<Rightarrow> global_anomaly_stats \<Rightarrow> aggregate_anomaly_data res" where
  "get_anomaly_stat_container pid rid g =
     (case map_of (m_anomaly_stats g) pid of
        None \<Rightarrow> Inl (Fatal ''Could not find pid'')
      | Some ranks \<Rightarrow> (case map_of ranks rid of None \<Rightarrow> Inl (Fatal ''Could not find rid'') | Some a \<Rightarrow> Inr a))"

definition get_anomaly_stat_obj :: "int \<Rightarrow> u64 \<Rightarrow> global_anomaly_stats \<Rightarrow> run_stats res" where
  "get_anomaly_stat_obj pid rid g = bind (get_anomaly_stat_container pid rid g) (\<lambda>a. Inr (aa_stats a))"

definition get_n_anomaly_data :: "int \<Rightarrow> u64 \<Rightarrow> global_anomaly_stats \<Rightarrow> nat" where
  "get_n_anomaly_data pid rid g =
     (case map_of (m_anomaly_stats g) pid of
        None \<Rightarrow> 0
      | Some ranks \<Rightarrow> (case map_of ranks rid of None \<Rightarrow> 0 | Some a \<Rightarrow> aa_get_n_data a))"

definition get_func_stats :: "int \<Rightarrow> u64 \<Rightarrow> global_anomaly_stats \<Rightarrow> aggregate_func_stats res" where
  "get_func_stats pid fid g =
     (case map_of (m_funcstats g) (word_of_int pid) of
        None \<Rightarrow> Inl (Fatal ''Could not find program index'')
      | Some fs \<Rightarrow> (case map_of fs fid of None \<Rightarrow> Inl (Fatal ''Could not find function index'') | Some a \<Rightarrow> Inr a))"

text \<open>\<open>collect\<close>: the packets with new anomalies, and the function statistics if there are any.\<close>

definition collect_rank ::
    "int \<Rightarrow> u64 \<times> aggregate_anomaly_data \<Rightarrow> stat_packet list \<times> (u64 \<times> aggregate_anomaly_data) list \<Rightarrow>
     (stat_packet list \<times> (u64 \<times> aggregate_anomaly_data) list) res" where
  "collect_rank pid ra st =
     (let (rid, a) = ra; (out, ranks) = st in
      bind (aa_get_json pid (to_i32 rid) a) (\<lambda>obj.
      bind (aa_flush a) (\<lambda>a1.
        Inr (out @ (case obj of None \<Rightarrow> [] | Some p \<Rightarrow> [p]), ranks @ [(rid, a1)]))))"

definition collect_program ::
    "int \<times> (u64 \<times> aggregate_anomaly_data) list \<Rightarrow>
     stat_packet list \<times> (int \<times> (u64 \<times> aggregate_anomaly_data) list) list \<Rightarrow>
     (stat_packet list \<times> (int \<times> (u64 \<times> aggregate_anomaly_data) list) list) res" where
  "collect_program pr st =
     (let (pid, ranks) = pr; (out, stats) = st in
      bind (foldE (collect_rank pid) ranks (out, [])) (\<lambda>(out1, ranks1). Inr (out1, stats @ [(pid, ranks1)])))"

definition collect_stat_data :: "global_anomaly_stats \<Rightarrow> (stat_packet list \<times> global_anomaly_stats) res" where
  "collect_stat_data g =
     bind (foldE collect_program (m_anomaly_stats g) ([], [])) (\<lambda>(out, stats).
       Inr (out, g \<lparr> m_anomaly_stats := stats \<rparr>))"

definition collect_func_data :: "global_anomaly_stats \<Rightarrow> aggregate_func_stats list" where
  "collect_func_data g = concat (map (\<lambda>(pid, fs). map snd fs) (m_funcstats g))"

definition collect ::
    "global_anomaly_stats \<Rightarrow> ((stat_packet list \<times> aggregate_func_stats list) option \<times> global_anomaly_stats) res" where
  "collect g =
     bind (collect_stat_data g) (\<lambda>(out, g1).
       Inr (if out = [] then None else Some (out, collect_func_data g1), g1))"

section \<open>Function profile\<close>

record profile_entry =
  pe_app :: int
  pe_fid :: int
  pe_fname :: string
  pe_runtime_profile :: "(run_stats \<times> run_stats) option"
  pe_anomaly_metrics :: "all_ranks_metrics option"

type_synonym function_profile = "(int \<times> (int \<times> profile_entry) list) list"

definition profile_getFunction :: "int \<Rightarrow> int \<Rightarrow> string \<Rightarrow> function_profile \<Rightarrow> profile_entry" where
  "profile_getFunction pid fid func p =
     al_get \<lparr> pe_app = pid, pe_fid = fid, pe_fname = func, pe_runtime_profile = None, pe_anomaly_metrics = None \<rparr>
       (al_get [] p pid) fid"

definition profile_set :: "int \<Rightarrow> int \<Rightarrow> profile_entry \<Rightarrow> function_profile \<Rightarrow> function_profile" where
  "profile_set pid fid e p = AList.update pid (AList.update fid e (al_get [] p pid)) p"

definition profile_add_stats :: "aggregate_func_stats \<Rightarrow> function_profile \<Rightarrow> function_profile" where
  "profile_add_stats s p =
     profile_set (af_pid s) (af_fid s)
       ((profile_getFunction (af_pid s) (af_fid s) (af_func s) p)
          \<lparr> pe_runtime_profile := Some (af_exclusive s, af_inclusive s) \<rparr>) p"

definition profile_add_metrics :: "all_ranks_metrics \<Rightarrow> function_profile \<Rightarrow> function_profile" where
  "profile_add_metrics m p =
     profile_set (ar_pid m) (ar_fid m)
       ((profile_getFunction (ar_pid m) (ar_fid m) (ar_func m) p) \<lparr> pe_anomaly_metrics := Some m \<rparr>) p"

definition gs_get_profile_data :: "global_anomaly_stats \<Rightarrow> function_profile \<Rightarrow> function_profile" where
  "gs_get_profile_data g p = fold (\<lambda>(pid, fs). fold (\<lambda>(fid, s). profile_add_stats s) fs) (m_funcstats g) p"

section \<open>Anomaly metrics\<close>

type_synonym metrics_map = "(int \<times> (int \<times> (int \<times> aggregate_func_anomaly_metrics) list) list) list"

record global_anomaly_metrics =
  m_anomaly_metrics_full :: metrics_map
  m_anomaly_metrics_recent :: metrics_map

definition new_GlobalAnomalyMetrics :: global_anomaly_metrics where
  "new_GlobalAnomalyMetrics = \<lparr> m_anomaly_metrics_full = [], m_anomaly_metrics_recent = [] \<rparr>"

definition gm_plus :: "global_anomaly_metrics \<Rightarrow> global_anomaly_metrics \<Rightarrow> global_anomaly_metrics res" where
  "gm_plus g r =
     bind (map_plus_equals (map_plus_equals (map_plus_equals am_plus))
             (m_anomaly_metrics_full g) (m_anomaly_metrics_full r)) (\<lambda>f.
     bind (map_plus_equals (map_plus_equals (map_plus_equals am_plus))
             (m_anomaly_metrics_recent g) (m_anomaly_metrics_recent r)) (\<lambda>n.
       Inr \<lparr> m_anomaly_metrics_full = f, m_anomaly_metrics_recent = n \<rparr>))"

definition gm_merge_and_flush ::
    "global_anomaly_metrics \<Rightarrow> global_anomaly_metrics \<Rightarrow> (global_anomaly_metrics \<times> global_anomaly_metrics) res" where
  "gm_merge_and_flush g r = bind (gm_plus g r) (\<lambda>g1. Inr (g1, r \<lparr> m_anomaly_metrics_recent := [] \<rparr>))"

definition gm_add_func ::
    "local_anomaly_metrics \<Rightarrow> int \<times> func_anomaly_metrics \<Rightarrow> (int \<times> aggregate_func_anomaly_metrics) list \<Rightarrow>
     (int \<times> aggregate_func_anomaly_metrics) list res" where
  "gm_add_func d fm m =
     (let (fid, f) = fm in
      bind (am_add f (word_of_int (lm_step d)) (lm_first_event_ts d) (lm_last_event_ts d)
              (al_get (new_AggregateFuncAnomalyMetrics (lm_app d) (lm_rank d) fid (fm_func f)) m fid)) (\<lambda>a.
        Inr (AList.update fid a m)))"

definition gm_add_into :: "local_anomaly_metrics \<Rightarrow> metrics_map \<Rightarrow> metrics_map res" where
  "gm_add_into d into =
     (let ranks = al_get [] into (lm_app d) in
      bind (foldE (gm_add_func d) (lm_func_anom_metrics d) (al_get [] ranks (lm_rank d))) (\<lambda>fs.
        Inr (AList.update (lm_app d) (AList.update (lm_rank d) fs ranks) into)))"

text \<open>
  Adding a message takes the mutex twice, once for each map; between the two another thread may
  merge or output the object.
\<close>

definition gm_add_full :: "local_anomaly_metrics \<Rightarrow> global_anomaly_metrics \<Rightarrow> global_anomaly_metrics res" where
  "gm_add_full d g = bind (gm_add_into d (m_anomaly_metrics_full g)) (\<lambda>f. Inr (g \<lparr> m_anomaly_metrics_full := f \<rparr>))"

definition gm_add_recent :: "local_anomaly_metrics \<Rightarrow> global_anomaly_metrics \<Rightarrow> global_anomaly_metrics res" where
  "gm_add_recent d g = bind (gm_add_into d (m_anomaly_metrics_recent g)) (\<lambda>r. Inr (g \<lparr> m_anomaly_metrics_recent := r \<rparr>))"

definition gm_add :: "local_anomaly_metrics \<Rightarrow> global_anomaly_metrics \<Rightarrow> global_anomaly_metrics res" where
  "gm_add d g = bind (gm_add_full d g) (gm_add_recent d)"

text \<open>An element of the output: the metrics since the last output and those since the start.\<close>

record metrics_packet =
  mp_app :: int
  mp_rank :: int
  mp_fid :: int
  mp_fname :: string
  mp_new_data :: aggregate_func_anomaly_metrics
  mp_all_data :: aggregate_func_anomaly_metrics
  mp_id :: nat

definition gm_json_elem ::
    "metrics_map \<Rightarrow> int \<Rightarrow> int \<Rightarrow> int \<times> aggregate_func_anomaly_metrics \<Rightarrow> metrics_packet list \<times> nat \<Rightarrow>
     (metrics_packet list \<times> nat) res" where
  "gm_json_elem full pid rid fa st =
     (let (fid, a) = fa; (out, next_id) = st in
      case map_of full pid of
        None \<Rightarrow> Inl (Fatal ''Unable to find program idx in full statistics!'')
      | Some ranks \<Rightarrow>
          (case map_of ranks rid of
             None \<Rightarrow> Inl (Fatal ''Unable to find rank idx in full statistics!'')
           | Some fs \<Rightarrow>
               (case map_of fs fid of
                  None \<Rightarrow> Inl (Fatal ''Unable to find function idx in full statistics!'')
                | Some b \<Rightarrow>
                    Inr (out @ [\<lparr> mp_app = pid, mp_rank = rid, mp_fid = fid, mp_fname = am_func a,
                                   mp_new_data = a, mp_all_data = b, mp_id = next_id \<rparr>], Suc next_id))))"

definition gm_json_rank ::
    "metrics_map \<Rightarrow> int \<Rightarrow> int \<times> (int \<times> aggregate_func_anomaly_metrics) list \<Rightarrow> metrics_packet list \<times> nat \<Rightarrow>
     (metrics_packet list \<times> nat) res" where
  "gm_json_rank full pid rf = foldE (gm_json_elem full pid (fst rf)) (snd rf)"

definition gm_json_program ::
    "metrics_map \<Rightarrow> int \<times> (int \<times> (int \<times> aggregate_func_anomaly_metrics) list) list \<Rightarrow> metrics_packet list \<times> nat \<Rightarrow>
     (metrics_packet list \<times> nat) res" where
  "gm_json_program full pr = foldE (gm_json_rank full (fst pr)) (snd pr)"

text \<open>The static counter of the identifiers is the argument \<open>next_id\<close>.\<close>

definition gm_get_json ::
    "nat \<Rightarrow> global_anomaly_metrics \<Rightarrow> (metrics_packet list \<times> nat \<times> global_anomaly_metrics) res" where
  "gm_get_json next_id g =
     bind (foldE (gm_json_program (m_anomaly_metrics_full g)) (m_anomaly_metrics_recent g) ([], next_id)) (\<lambda>(out, id1).
       Inr (out, id1, g \<lparr> m_anomaly_metrics_recent := [] \<rparr>))"

definition all_ranks_func ::
    "int \<Rightarrow> int \<times> aggregate_func_anomaly_metrics \<Rightarrow> (int \<times> all_ranks_metrics) list \<Rightarrow> (int \<times> all_ranks_metrics) list res" where
  "all_ranks_func pid fa m =
     (let (fid, a) = fa in
      bind (ar_add a (al_get (new_AllRanks pid fid (am_func a)) m fid)) (\<lambda>r. Inr (AList.update fid r m)))"

definition all_ranks :: "int \<Rightarrow> (int \<times> (int \<times> aggregate_func_anomaly_metrics) list) list \<Rightarrow> (int \<times> all_ranks_metrics) list res" where
  "all_ranks pid ranks = foldE (\<lambda>(rid, fs). foldE (all_ranks_func pid) fs) ranks []"

definition gm_get_profile_data :: "global_anomaly_metrics \<Rightarrow> function_profile \<Rightarrow> function_profile res" where
  "gm_get_profile_data g p =
     foldE (\<lambda>(pid, ranks) p. bind (all_ranks pid ranks) (\<lambda>m.
       Inr (fold (\<lambda>(fid, r). profile_add_metrics r) (sort_key fst m) p))) (m_anomaly_metrics_full g) p"

section \<open>Counter statistics\<close>

record global_counter_stats =
  m_counter_stats :: "(u64 \<times> (string \<times> run_stats) list) list"

definition new_GlobalCounterStats :: global_counter_stats where
  "new_GlobalCounterStats = \<lparr> m_counter_stats = [] \<rparr>"

definition add_counter_stats :: "string \<times> run_stats \<Rightarrow> (string \<times> run_stats) list \<Rightarrow> (string \<times> run_stats) list" where
  "add_counter_stats c m = AList.update (fst c) (plus_assign (al_get (new_RunStats False) m (fst c)) (snd c)) m"

definition add_counter_data :: "local_counter_statistics \<Rightarrow> global_counter_stats \<Rightarrow> global_counter_stats" where
  "add_counter_data loc g =
     g \<lparr> m_counter_stats := AList.update (lc_program_idx loc)
           (fold add_counter_stats (lc_stats loc) (al_get [] (m_counter_stats g) (lc_program_idx loc)))
           (m_counter_stats g) \<rparr>"

definition gc_plus :: "global_counter_stats \<Rightarrow> global_counter_stats \<Rightarrow> global_counter_stats res" where
  "gc_plus g r =
     bind (map_plus_equals (map_plus_equals (\<lambda>a b. Inr (plus_assign a b))) (m_counter_stats g) (m_counter_stats r))
       (\<lambda>s. Inr (g \<lparr> m_counter_stats := s \<rparr>))"

definition gc_get_json_state :: "global_counter_stats \<Rightarrow> (u64 \<times> string \<times> run_stats) list" where
  "gc_get_json_state g = concat (map (\<lambda>(pid, cs). map (\<lambda>(counter, stats). (pid, counter, stats)) cs) (m_counter_stats g))"

end
