(* ===== verification/ModuleData.thy ===== *)
theory ModuleData
  imports GlobalStats FunctionIndex
begin

text \<open>
  How the server's objects are used: the message of a step or of several steps
  (\<open>ADcombinedPSdata.cpp\<close>), the payload that receives it (\<open>NetPayloadRecvCombinedADdata.cpp\<close>),
  the output of the statistics sender (the \<open>add_json\<close> functions of the \<open>Combine\<close> payloads) and the
  manager with one set of objects per worker thread (\<open>PSmoduleDataManager.cpp\<close>).
\<close>

section \<open>Messages of an analysis process\<close>

type_synonym step_data = "local_func_statistics \<times> local_counter_statistics \<times> local_anomaly_metrics"

text \<open>
  The result is the step of the message and its contents, \<open>None\<close> without a parameter server. The
  step of the function statistics, an \<open>unsigned long\<close>, is converted to \<open>int\<close>.
\<close>

definition check_steps :: "step_data \<Rightarrow> int res" where
  "check_steps d =
     (let (f, c, m) = d; step = to_i32 (ad_step (lf_anom_data f)) in
      if lc_step c \<noteq> step then Inl (Fatal ''Step value mismatch between counter stats and func anomaly stats'')
      else if lm_step m \<noteq> step then Inl (Fatal ''Step value mismatch between anomaly metrics and func anomaly stats'')
      else Inr step)"

definition combined_send :: "bool \<Rightarrow> step_data \<Rightarrow> (int \<times> step_data) option res" where
  "combined_send use_ps d = (if \<not> use_ps then Inr None else bind (check_steps d) (\<lambda>step. Inr (Some (step, d))))"

type_synonym steps_data = "local_func_statistics list \<times> local_counter_statistics list \<times> local_anomaly_metrics list"

definition combined_array_send :: "bool \<Rightarrow> steps_data \<Rightarrow> (int \<times> steps_data) option res" where
  "combined_array_send use_ps ds =
     (let (fs, cs, ms) = ds in
      if \<not> use_ps then Inr None
      else if length cs \<noteq> length fs \<or> length ms \<noteq> length fs then Inl (Fatal ''Expect arrays to have the same size'')
      else bind (foldE (\<lambda>d latest_step. bind (check_steps d) (\<lambda>step. Inr (max step latest_step)))
                   (zip fs (zip cs ms)) (- 1)) (\<lambda>latest_step.
             Inr (Some (latest_step, ds))))"

section \<open>Receiving\<close>

record worker_data =
  wd_anom_stats :: global_anomaly_stats
  wd_counter_stats :: global_counter_stats
  wd_anom_metrics :: global_anomaly_metrics

definition new_worker_data :: worker_data where
  "new_worker_data = \<lparr> wd_anom_stats = new_GlobalAnomalyStats, wd_counter_stats = new_GlobalCounterStats,
     wd_anom_metrics = new_GlobalAnomalyMetrics \<rparr>"

definition recv_step :: "step_data \<Rightarrow> worker_data \<Rightarrow> worker_data res" where
  "recv_step d w =
     (let (f, c, m) = d in
      bind (add_anomaly_data f (wd_anom_stats w)) (\<lambda>a.
      bind (gm_add m (wd_anom_metrics w)) (\<lambda>g.
        Inr \<lparr> wd_anom_stats = a, wd_counter_stats = add_counter_data c (wd_counter_stats w), wd_anom_metrics = g \<rparr>)))"

text \<open>The payload checks that its three objects are linked, which \<open>None\<close> denies, in this order.\<close>

definition linked ::
    "global_anomaly_stats option \<Rightarrow> global_counter_stats option \<Rightarrow> global_anomaly_metrics option \<Rightarrow> worker_data res" where
  "linked a c g =
     (case a of None \<Rightarrow> Inl (RuntimeError ''Cannot update global anomaly statistics as stats object has not been linked'')
      | Some a \<Rightarrow>
     (case c of None \<Rightarrow> Inl (RuntimeError ''Cannot update global counter statistics as stats object has not been linked'')
      | Some c \<Rightarrow>
     (case g of None \<Rightarrow> Inl (RuntimeError ''Cannot update global anomaly metrics as stats object has not been linked'')
      | Some g \<Rightarrow> Inr \<lparr> wd_anom_stats = a, wd_counter_stats = c, wd_anom_metrics = g \<rparr>)))"

definition recv_action ::
    "global_anomaly_stats option \<Rightarrow> global_counter_stats option \<Rightarrow> global_anomaly_metrics option \<Rightarrow> step_data \<Rightarrow> worker_data res" where
  "recv_action a c g d = bind (linked a c g) (recv_step d)"

definition recv_array_action ::
    "global_anomaly_stats option \<Rightarrow> global_counter_stats option \<Rightarrow> global_anomaly_metrics option \<Rightarrow> steps_data \<Rightarrow> worker_data res" where
  "recv_array_action a c g ds =
     bind (linked a c g) (\<lambda>w.
       let (fs, cs, ms) = ds in
       if length cs \<noteq> length fs \<or> length ms \<noteq> length fs then Inl (Fatal ''Expect consistent size for arrays'')
       else foldE recv_step (zip fs (zip cs ms)) w)"

section \<open>The statistics sender\<close>

text \<open>
  The workers' objects are merged into a fresh one and flushed; its contents are sent. The workers
  come one after the other, each under its own mutex; the runs of \<open>Delivery\<close> and \<open>MetricsProps\<close>
  have what other threads do in between.
\<close>

definition gs_combine_step ::
    "global_anomaly_stats \<Rightarrow> global_anomaly_stats \<times> global_anomaly_stats list \<Rightarrow>
     (global_anomaly_stats \<times> global_anomaly_stats list) res" where
  "gs_combine_step r st =
     (let (comb, flushed) = st in bind (gs_merge_and_flush comb r) (\<lambda>(comb1, r1). Inr (comb1, flushed @ [r1])))"

definition gs_send ::
    "global_anomaly_stats list \<Rightarrow>
     ((stat_packet list \<times> aggregate_func_stats list) option \<times> global_anomaly_stats list) res" where
  "gs_send workers =
     bind (foldE gs_combine_step workers (new_GlobalAnomalyStats, [])) (\<lambda>(comb, workers1).
     bind (collect comb) (\<lambda>(out, _). Inr (out, workers1)))"

definition gm_combine_step ::
    "global_anomaly_metrics \<Rightarrow> global_anomaly_metrics \<times> global_anomaly_metrics list \<Rightarrow>
     (global_anomaly_metrics \<times> global_anomaly_metrics list) res" where
  "gm_combine_step r st =
     (let (comb, flushed) = st in bind (gm_merge_and_flush comb r) (\<lambda>(comb1, r1). Inr (comb1, flushed @ [r1])))"

definition gm_send ::
    "nat \<Rightarrow> global_anomaly_metrics list \<Rightarrow> (metrics_packet list \<times> nat \<times> global_anomaly_metrics list) res" where
  "gm_send next_id workers =
     bind (foldE gm_combine_step workers (new_GlobalAnomalyMetrics, [])) (\<lambda>(comb, workers1).
     bind (gm_get_json next_id comb) (\<lambda>(out, next_id1, _). Inr (out, next_id1, workers1)))"

definition gc_send :: "global_counter_stats list \<Rightarrow> (u64 \<times> string \<times> run_stats) list res" where
  "gc_send workers =
     bind (foldE (\<lambda>r comb. gc_plus comb r) workers new_GlobalCounterStats) (\<lambda>comb. Inr (gc_get_json_state comb))"

section \<open>The manager\<close>

record module_data =
  md_func_stats :: "global_anomaly_stats list"
  md_counter_stats :: "global_counter_stats list"
  md_anom_metrics :: "global_anomaly_metrics list"
  md_func_index_map :: ps_index

definition new_PSmoduleDataManager :: "nat \<Rightarrow> module_data" where
  "new_PSmoduleDataManager net_nworker =
     \<lparr> md_func_stats = replicate net_nworker new_GlobalAnomalyStats,
       md_counter_stats = replicate net_nworker new_GlobalCounterStats,
       md_anom_metrics = replicate net_nworker new_GlobalAnomalyMetrics,
       md_func_index_map = new_PSglobalFunctionIndexMap \<rparr>"

text \<open>The payload of worker \<open>i\<close> writes to the objects of worker \<open>i\<close>.\<close>

definition worker_recv :: "nat \<Rightarrow> steps_data \<Rightarrow> module_data \<Rightarrow> module_data res" where
  "worker_recv i ds md =
     (if i < length (md_func_stats md) \<and> i < length (md_counter_stats md) \<and> i < length (md_anom_metrics md) then
        bind (recv_array_action (Some (md_func_stats md ! i)) (Some (md_counter_stats md ! i)) (Some (md_anom_metrics md ! i)) ds)
          (\<lambda>w. Inr (md \<lparr> md_func_stats := (md_func_stats md)[i := wd_anom_stats w],
                         md_counter_stats := (md_counter_stats md)[i := wd_counter_stats w],
                         md_anom_metrics := (md_anom_metrics md)[i := wd_anom_metrics w] \<rparr>))
      else Inl OutOfBounds)"

definition sum_workers :: "global_anomaly_stats list \<Rightarrow> global_anomaly_stats res" where
  "sum_workers gs = foldE (\<lambda>r g. gs_plus g r) gs new_GlobalAnomalyStats"

text \<open>
  The final data: profile of the functions, counters and detection model; \<open>models\<close> are the
  parameters of the detection by function index.
\<close>

definition ad_model_entry :: "ps_index \<Rightarrow> u64 \<times> 'm \<Rightarrow> (u64 \<times> u64 \<times> string \<times> 'm) res" where
  "ad_model_entry idx r =
     (case getFunctionIndexMap idx (fst r) of
        None \<Rightarrow> Inl (Fatal ''Could not find function in input map'')
      | Some (pid, func_name) \<Rightarrow> Inr (fst r, pid, func_name, snd r))"

definition sendFinalModuleData ::
    "(u64 \<times> 'm) list \<Rightarrow> module_data \<Rightarrow>
     (function_profile \<times> (u64 \<times> string \<times> run_stats) list \<times> (u64 \<times> u64 \<times> string \<times> 'm) list) res" where
  "sendFinalModuleData models md =
     bind (gc_send (md_counter_stats md)) (\<lambda>counters.
     bind (sum_workers (md_func_stats md)) (\<lambda>fstats.
     bind (foldE (\<lambda>r g. gm_plus g r) (md_anom_metrics md) new_GlobalAnomalyMetrics) (\<lambda>metrics.
     bind (gm_get_profile_data metrics (gs_get_profile_data fstats [])) (\<lambda>profile.
     bind (map_res (ad_model_entry (md_func_index_map md)) models) (\<lambda>ad_model.
       Inr (profile, counters, ad_model))))))"

end
