(* ===== verification/GlobalProps.thy ===== *)
theory GlobalProps
  imports ModuleData
begin

text \<open>
  The aggregation on the server against its specification: the state after any number of
  messages is a function of the messages received. The objects of the maps fulfil the interface
  \<open>mergeable\<close>, so merging the states of the worker threads gives the state of one server that
  received all messages.
\<close>

section \<open>Statistics of joined samples\<close>

lemma push_all_stats:
  assumes "xs \<noteq> []"
  shows "push_all xs (new_RunStats acc) =
    stats_of (Sums (real (length xs)) (psum 1 xs) (psum 2 xs) (psum 3 xs) (psum 4 xs)) (Min (set xs)) (Max (set xs)) acc"
  using moments_push_all [of xs acc] push_all_extrema [OF assms, of acc]
  by (intro run_stats.equality) (simp_all add: stats_of_def moments_def push_all_acc psum_1)

lemma combine_push_all:
  assumes "xs \<noteq> []" "ys \<noteq> []"
  shows "combine (push_all xs (new_RunStats acc)) (push_all ys (new_RunStats acc)) = push_all (xs @ ys) (new_RunStats acc)"
proof -
  have c: "consistent (push_all zs (new_RunStats acc))" "m_count (push_all zs (new_RunStats acc)) \<noteq> 0" if "zs \<noteq> []" for zs
    using solid_push_all(1) [OF that, of acc] by (simp_all add: solid_def)
  have "m_count (push_all xs (new_RunStats acc)) \<noteq> 0 \<or> m_count (push_all ys (new_RunStats acc)) \<noteq> 0"
    using c(2) [OF assms(1)] by blast
  from combine_sums [OF c(1) [OF assms(1)] c(1) [OF assms(2)] this] show ?thesis
    using assms push_all_extrema [OF assms(1), of acc] push_all_extrema [OF assms(2), of acc]
      push_all_stats [of "xs @ ys" acc]
    by (simp add: solid_push_all(2) plus_power_sums_def Min_Un Max_Un)
qed

lemma push_all_perm:
  assumes "mset xs = mset ys"
  shows "push_all xs (new_RunStats acc) = push_all ys (new_RunStats acc)"
proof (cases "xs = []")
  case False
  have "psum k xs = psum k ys" for k
    using assms unfolding psum_def by (metis mset_map sum_mset_sum_list)
  moreover have "length xs = length ys" "set xs = set ys" using assms by (metis size_mset, metis set_mset_mset)
  moreover from this have "ys \<noteq> []" using False by auto
  ultimately show ?thesis using False by (simp add: push_all_stats)
qed (use assms in simp)

section \<open>Representation of the objects\<close>

text \<open>
  \<open>nm pid fid\<close> is the name of a function; the function index server makes it a function of the
  two numbers. \<open>af_value\<close> is what the messages on one function amount to.
\<close>

type_synonym naming = "u64 \<Rightarrow> u64 \<Rightarrow> string"

definition good_stats :: "naming \<Rightarrow> u64 \<Rightarrow> u64 \<Rightarrow> func_stats \<Rightarrow> bool" where
  "good_stats nm pid fid f \<longleftrightarrow> fs_pid f = pid \<and> fs_id f = fid \<and> fs_name f = nm pid fid
     \<and> solid (fs_inclusive f) \<and> solid (fs_exclusive f)"

definition af_value :: "naming \<Rightarrow> u64 \<Rightarrow> u64 \<Rightarrow> func_stats list \<Rightarrow> aggregate_func_stats" where
  "af_value nm pid fid s = \<lparr> af_pid = to_i32 pid, af_fid = to_i32 fid, af_func = nm pid fid,
     af_func_anomaly = push_all (map (\<lambda>f. real (unat (fs_n_anomaly f))) s) (new_RunStats True),
     af_inclusive = pooled True (map fs_inclusive s), af_exclusive = pooled True (map fs_exclusive s) \<rparr>"

fun af_repr :: "naming \<Rightarrow> (unit \<times> u64) \<times> u64 \<Rightarrow> aggregate_func_stats \<Rightarrow> func_stats list \<Rightarrow> bool" where
  "af_repr nm ((_, pid), fid) a s \<longleftrightarrow> s \<noteq> [] \<and> (\<forall>f \<in> set s. good_stats nm pid fid f) \<and> a = af_value nm pid fid s"

lemma good_tidy:
  assumes "\<forall>f \<in> set s. good_stats nm pid fid f"
  shows "\<forall>r \<in> set (map fs_inclusive s). solid r" "\<forall>r \<in> set (map fs_exclusive s). solid r"
  using assms by (auto simp: good_stats_def)

lemma pooled_solid_append:
  assumes "\<forall>r \<in> set (rs @ rs'). solid r" "rs \<noteq> []"
  shows "combine (pooled True rs) (pooled True rs') = pooled True (rs @ rs')"
proof -
  have "(\<Sum>r\<leftarrow>rs @ rs'. m_count r) \<noteq> 0" using count_sum_pos [OF assms(1)] assms(2) by simp
  then show ?thesis using pooled_combine [of rs rs' True True] assms(1) by (auto intro: solid_tidy)
qed

lemma af_plus_ok:
  assumes "af_repr nm k a s" "af_repr nm k b t"
  shows "\<exists>c. af_plus a b = Inr c \<and> af_repr nm k c (s @ t)"
proof -
  obtain u pid fid where k: "k = ((u, pid), fid)" by (metis surj_pair)
  have s: "s \<noteq> []" "\<forall>f \<in> set (s @ t). good_stats nm pid fid f" "a = af_value nm pid fid s"
    and t: "t \<noteq> []" "b = af_value nm pid fid t" using assms unfolding k by auto
  have "combine (pooled True (map fs_inclusive s)) (pooled True (map fs_inclusive t)) = pooled True (map fs_inclusive (s @ t))"
    "combine (pooled True (map fs_exclusive s)) (pooled True (map fs_exclusive t)) = pooled True (map fs_exclusive (s @ t))"
    using good_tidy [OF s(2)] s(1) pooled_solid_append by (simp_all add: image_Un)
  then show ?thesis
    using s t unfolding k
    by (simp add: af_plus_def af_value_def plus_assign_def combine_push_all)
qed

interpretation af: mergeable_values af_plus "af_repr nm" "(@)" "[]" for nm
  by unfold_locales (use af_plus_ok in \<open>auto\<close>)

interpretation af_maps: mergeable_values "map_plus_equals af_plus" "map_repr (af_repr nm) []"
  "\<lambda>f g j. f j @ g j" "\<lambda>_. []" for nm
  by unfold_locales (use af.map_plus_ok in \<open>auto\<close>)

text \<open>
  Anomalies of a rank: all data received, for the statistics, and those since the last flush.
\<close>

definition aa_value :: "anomaly_data list \<Rightarrow> anomaly_data list \<Rightarrow> aggregate_anomaly_data" where
  "aa_value seen pending =
     \<lparr> aa_stats = push_all (map (\<lambda>d. real (unat (ad_n_anomalies d))) seen) (new_RunStats True), aa_data = Some pending \<rparr>"

fun aa_repr :: "(unit \<times> int) \<times> u64 \<Rightarrow> aggregate_anomaly_data \<Rightarrow> anomaly_data list \<times> anomaly_data list \<Rightarrow> bool" where
  "aa_repr k a (seen, pending) \<longleftrightarrow> seen \<noteq> [] \<and> a = aa_value seen pending"

fun join_data :: "'a list \<times> 'a list \<Rightarrow> 'a list \<times> 'a list \<Rightarrow> 'a list \<times> 'a list" where
  "join_data (r, p) (r', p') = (r @ r', p @ p')"

lemma join_data_nil: "join_data s ([], []) = s" "join_data ([], []) s = s"
  by (cases s; simp)+

lemma join_data_fst: "fst (join_data s t) = fst s @ fst t" "snd (join_data s t) = snd s @ snd t"
  by (cases s; cases t; simp)+

lemma aa_plus_ok: "aa_repr k a s \<Longrightarrow> aa_repr k b t \<Longrightarrow> \<exists>c. aa_plus a b = Inr c \<and> aa_repr k c (join_data s t)"
  by (cases s; cases t) (simp add: aa_plus_def aa_value_def plus_assign_def combine_push_all)

interpretation aa: mergeable_values aa_plus aa_repr join_data "([], [])"
  by unfold_locales (use aa_plus_ok join_data_nil in \<open>auto\<close>)

interpretation aa_maps: mergeable_values "map_plus_equals aa_plus" "map_repr aa_repr ([], [])"
  "\<lambda>f g j. join_data (f j) (g j)" "\<lambda>_. ([], [])"
  by unfold_locales

section \<open>Messages\<close>

text \<open>Well formed messages are those of \<open>ADLocalFuncStatistics\<close>: every entry comes from calls.\<close>

definition good_message :: "naming \<Rightarrow> local_func_statistics \<Rightarrow> bool" where
  "good_message nm d \<longleftrightarrow>
     (\<forall>(k, f) \<in> set (lf_funcstats d). uint (fs_pid f) < 2 ^ 31 \<and> good_stats nm (fs_pid f) (fs_id f) f)"

definition funcs_of :: "local_func_statistics list \<Rightarrow> u64 \<Rightarrow> u64 \<Rightarrow> func_stats list" where
  "funcs_of ms pid fid = [f \<leftarrow> concat (map (\<lambda>d. map snd (lf_funcstats d)) ms). fs_pid f = pid \<and> fs_id f = fid]"

definition data_of :: "local_func_statistics list \<Rightarrow> int \<Rightarrow> u64 \<Rightarrow> anomaly_data list" where
  "data_of ms pid rid = [d \<leftarrow> map lf_anom_data ms. to_i32 (ad_app d) = pid \<and> ad_rank d = rid]"

definition gs_repr ::
    "naming \<Rightarrow> global_anomaly_stats \<Rightarrow> (u64 \<Rightarrow> u64 \<Rightarrow> func_stats list) \<Rightarrow>
     (int \<Rightarrow> u64 \<Rightarrow> anomaly_data list \<times> anomaly_data list) \<Rightarrow> bool" where
  "gs_repr nm g F A \<longleftrightarrow> map_repr (map_repr (af_repr nm) []) (\<lambda>_. []) () (m_funcstats g) F
     \<and> map_repr (map_repr aa_repr ([], [])) (\<lambda>_. ([], [])) () (m_anomaly_stats g) A"

lemma map_repr_get:
  assumes "map_repr (map_repr repr nil) (\<lambda>_. nil) k m F"
  shows "map_repr repr nil (k, j) (al_get [] m j) (F j)"
proof (cases "map_of m j")
  case None
  then show ?thesis using map_repr_None [OF assms None] by (simp add: al_get_def map_repr_Nil)
next
  case (Some n)
  then show ?thesis using map_repr_Some [OF assms Some] by (simp add: al_get_def)
qed

lemma new_af_value: "nm pid fid = name \<Longrightarrow> new_AggregateFuncStats (to_i32 pid) (to_i32 fid) name = af_value nm pid fid []"
  by (simp add: new_AggregateFuncStats_def af_value_def new_RunStats_def clear_RunStats_def)

lemma af_add_value:
  assumes "\<forall>g \<in> set s. good_stats nm pid fid g" "good_stats nm pid fid f"
  shows "af_add (fs_n_anomaly f) (fs_inclusive f) (fs_exclusive f) (af_value nm pid fid s) = af_value nm pid fid (s @ [f])"
proof -
  have all: "\<forall>g \<in> set (s @ [f]). good_stats nm pid fid g" using assms by simp
  have "combine (pooled True rs) r = pooled True (rs @ [r])" if "\<forall>r \<in> set (rs @ [r]). solid r" for rs r
    using pooled_snoc [of rs r True] count_sum_pos [OF that] that by (auto intro: solid_tidy)
  from this [of "map fs_inclusive s" "fs_inclusive f"] this [of "map fs_exclusive s" "fs_exclusive f"] good_tidy [OF all]
  show ?thesis by (simp add: af_add_def af_value_def plus_assign_def push_all_snoc)
qed

lemma update_func_stat_ok:
  assumes "gs_repr nm g F A" "uint (fs_pid f) < 2 ^ 31" "good_stats nm (fs_pid f) (fs_id f) f"
  shows "gs_repr nm (add_func_stats (k, f) g) (F(fs_pid f := (F (fs_pid f))(fs_id f := F (fs_pid f) (fs_id f) @ [f]))) A"
proof -
  let ?p = "fs_pid f" and ?i = "fs_id f"
  let ?m = "al_get [] (m_funcstats g) ?p"
  let ?new = "new_AggregateFuncStats (to_i32 ?p) (to_i32 ?i) (fs_name f)"
  have outer: "map_repr (map_repr (af_repr nm) []) (\<lambda>_. []) () (m_funcstats g) F" using assms(1) by (simp add: gs_repr_def)
  have inner: "map_repr (af_repr nm) [] ((), ?p) ?m (F ?p)" by (rule map_repr_get [OF outer])
  have val: "al_get ?new ?m ?i = af_value nm ?p ?i (F ?p ?i) \<and> (\<forall>h \<in> set (F ?p ?i). good_stats nm ?p ?i h)"
  proof (cases "map_of ?m ?i")
    case None
    have n: "nm ?p ?i = fs_name f" using assms(3) by (simp add: good_stats_def)
    show ?thesis using map_repr_None [OF inner None] None new_af_value [of nm ?p ?i, OF n] by (simp add: al_get_def)
  next
    case (Some a)
    then show ?thesis using map_repr_Some [OF inner Some] by (simp add: al_get_def)
  qed
  have "af_repr nm (((), ?p), ?i) (af_value nm ?p ?i (F ?p ?i @ [f])) (F ?p ?i @ [f])" using val assms(3) by auto
  from map_repr_update [OF outer, OF map_repr_update [OF inner, OF this]] assms(1) val show ?thesis
    by (simp add: gs_repr_def add_func_stats_def update_func_stat_def small_index_word [OF assms(2)]
        af_add_value [OF _ assms(3)] Let_def)
qed

lemma add_func_stats_ok:
  assumes "gs_repr nm g F A" "\<forall>(k, f) \<in> set fs. uint (fs_pid f) < 2 ^ 31 \<and> good_stats nm (fs_pid f) (fs_id f) f"
  shows "gs_repr nm (fold add_func_stats fs g) (\<lambda>pid fid. F pid fid @ [f \<leftarrow> map snd fs. fs_pid f = pid \<and> fs_id f = fid]) A"
  using assms
proof (induction fs arbitrary: g F)
  case (Cons kf fs)
  obtain k f where kf: "kf = (k, f)" by force
  let ?F = "F(fs_pid f := (F (fs_pid f))(fs_id f := F (fs_pid f) (fs_id f) @ [f]))"
  have "gs_repr nm (add_func_stats kf g) ?F A"
    unfolding kf by (rule update_func_stat_ok) (use Cons.prems kf in auto)
  from Cons.IH [OF this] Cons.prems(2)
  have "gs_repr nm (fold add_func_stats (kf # fs) g) (\<lambda>pid fid. ?F pid fid @ [f \<leftarrow> map snd fs. fs_pid f = pid \<and> fs_id f = fid]) A"
    by simp
  moreover have "(\<lambda>pid fid. ?F pid fid @ [f \<leftarrow> map snd fs. fs_pid f = pid \<and> fs_id f = fid])
      = (\<lambda>pid fid. F pid fid @ [f \<leftarrow> map snd (kf # fs). fs_pid f = pid \<and> fs_id f = fid])"
    by (intro ext) (auto simp: kf)
  ultimately show ?case by simp
qed simp

lemma update_anomaly_stat_ok:
  fixes d :: anomaly_data
  assumes "gs_repr nm g F A"
  defines "p \<equiv> to_i32 (ad_app d)"
  shows "\<exists>g'. update_anomaly_stat d g = Inr g'
    \<and> gs_repr nm g' F (A(p := (A p)(ad_rank d := join_data (A p (ad_rank d)) ([d], [d]))))"
proof -
  let ?r = "ad_rank d"
  let ?m = "al_get [] (m_anomaly_stats g) p"
  have outer: "map_repr (map_repr aa_repr ([], [])) (\<lambda>_. ([], [])) () (m_anomaly_stats g) A"
    using assms(1) by (simp add: gs_repr_def)
  have inner: "map_repr aa_repr ([], []) ((), p) ?m (A p)" by (rule map_repr_get [OF outer])
  obtain seen pending where sp: "A p ?r = (seen, pending)" by force
  have val: "al_get (new_AggregateAnomalyData True) ?m ?r = aa_value seen pending"
  proof (cases "map_of ?m ?r")
    case None
    then show ?thesis using map_repr_None [OF inner None] sp
      by (simp add: al_get_def new_AggregateAnomalyData_def aa_value_def new_RunStats_def clear_RunStats_def)
  next
    case (Some a)
    then show ?thesis using map_repr_Some [OF inner Some] sp by (simp add: al_get_def)
  qed
  have "aa_add d True (aa_value seen pending) = Inr (aa_value (seen @ [d]) (pending @ [d]))"
    by (simp add: aa_add_def aa_value_def push_all_snoc)
  moreover have "aa_repr (((), p), ?r) (aa_value (seen @ [d]) (pending @ [d])) (join_data (A p ?r) ([d], [d]))"
    by (simp add: sp)
  from map_repr_update [OF outer, OF map_repr_update [OF inner, OF this]]
  have "map_repr (map_repr aa_repr ([], [])) (\<lambda>_. ([], [])) ()
      (AList.update p (AList.update ?r (aa_value (seen @ [d]) (pending @ [d])) ?m) (m_anomaly_stats g))
      (A(p := (A p)(?r := join_data (A p ?r) ([d], [d]))))" .
  ultimately show ?thesis using assms(1) val
    by (simp add: update_anomaly_stat_def p_def [symmetric] gs_repr_def Let_def)
qed

lemma add_anomaly_data_ok:
  assumes "gs_repr nm g F A" "good_message nm d"
  shows "\<exists>g'. add_anomaly_data d g = Inr g'
    \<and> gs_repr nm g' (\<lambda>pid fid. F pid fid @ funcs_of [d] pid fid)
        (\<lambda>pid rid. join_data (A pid rid) (data_of [d] pid rid, data_of [d] pid rid))"
proof -
  let ?a = "lf_anom_data d"
  let ?p = "to_i32 (ad_app ?a)"
  obtain g1 where g1: "update_anomaly_stat ?a g = Inr g1"
    "gs_repr nm g1 F (A(?p := (A ?p)(ad_rank ?a := join_data (A ?p (ad_rank ?a)) ([?a], [?a]))))"
    using update_anomaly_stat_ok [OF assms(1)] by blast
  have "A(?p := (A ?p)(ad_rank ?a := join_data (A ?p (ad_rank ?a)) ([?a], [?a])))
      = (\<lambda>pid rid. join_data (A pid rid) (data_of [d] pid rid, data_of [d] pid rid))"
    by (intro ext) (auto simp: data_of_def join_data_nil)
  with g1 add_func_stats_ok [OF g1(2), of "lf_funcstats d"] assms(2) show ?thesis
    by (simp add: add_anomaly_data_def funcs_of_def good_message_def)
qed

text \<open>A worker that received the messages \<open>ms\<close> since it started, without any flush.\<close>

lemma funcs_of_append: "funcs_of (ms @ ms') pid fid = funcs_of ms pid fid @ funcs_of ms' pid fid"
  by (simp add: funcs_of_def)

lemma data_of_append: "data_of (ms @ ms') pid rid = data_of ms pid rid @ data_of ms' pid rid"
  by (simp add: data_of_def)

lemma gs_repr_new: "gs_repr nm new_GlobalAnomalyStats (funcs_of []) (\<lambda>pid rid. (data_of [] pid rid, data_of [] pid rid))"
  by (simp add: gs_repr_def new_GlobalAnomalyStats_def funcs_of_def data_of_def map_repr_def fun_eq_iff)

lemma add_messages_ok:
  assumes "gs_repr nm g F A" "\<forall>d \<in> set ms. good_message nm d"
  shows "\<exists>g'. foldE add_anomaly_data ms g = Inr g'
    \<and> gs_repr nm g' (\<lambda>pid fid. F pid fid @ funcs_of ms pid fid)
        (\<lambda>pid rid. join_data (A pid rid) (data_of ms pid rid, data_of ms pid rid))"
  using assms
proof (induction ms arbitrary: g F A)
  case Nil
  then show ?case by (simp add: funcs_of_def data_of_def join_data_nil)
next
  case (Cons d ms)
  obtain g1 where g1: "add_anomaly_data d g = Inr g1"
    "gs_repr nm g1 (\<lambda>pid fid. F pid fid @ funcs_of [d] pid fid)
      (\<lambda>pid rid. join_data (A pid rid) (data_of [d] pid rid, data_of [d] pid rid))"
    using add_anomaly_data_ok [OF Cons.prems(1)] Cons.prems(2) by auto
  have eq: "funcs_of [d] pid fid @ funcs_of ms pid fid = funcs_of (d # ms) pid fid"
    "data_of [d] pid' rid @ data_of ms pid' rid = data_of (d # ms) pid' rid" for pid fid pid' rid
    by (simp_all add: funcs_of_def data_of_def)
  have "join_data (join_data s (xs, xs)) (ys, ys) = join_data s (xs @ ys, xs @ ys)" for s and xs ys :: "anomaly_data list"
    by (cases s) simp
  with Cons.IH [OF g1(2)] Cons.prems(2) g1(1) eq show ?case by simp
qed

section \<open>Merging the workers\<close>

lemma gs_plus_ok:
  assumes "gs_repr nm g F A" "gs_repr nm h F' A'"
  shows "\<exists>k. gs_plus g h = Inr k
    \<and> gs_repr nm k (\<lambda>p i. F p i @ F' p i) (\<lambda>p r. join_data (A p r) (A' p r))"
  using af_maps.map_plus_ok [of nm "()" "m_funcstats g" F "m_funcstats h" F']
    aa_maps.map_plus_ok [of "()" "m_anomaly_stats g" A "m_anomaly_stats h" A'] assms
  by (auto simp: gs_repr_def gs_plus_def)

fun gs_holds :: "naming \<Rightarrow> unit \<Rightarrow> global_anomaly_stats \<Rightarrow>
    (u64 \<Rightarrow> u64 \<Rightarrow> func_stats list) \<times> (int \<Rightarrow> u64 \<Rightarrow> anomaly_data list \<times> anomaly_data list) \<Rightarrow> bool" where
  "gs_holds nm _ g (F, A) \<longleftrightarrow> gs_repr nm g F A"

fun gs_join :: "('p \<Rightarrow> 'i \<Rightarrow> 'f list) \<times> ('q \<Rightarrow> 'r \<Rightarrow> 'd list \<times> 'd list) \<Rightarrow>
    ('p \<Rightarrow> 'i \<Rightarrow> 'f list) \<times> ('q \<Rightarrow> 'r \<Rightarrow> 'd list \<times> 'd list) \<Rightarrow> ('p \<Rightarrow> 'i \<Rightarrow> 'f list) \<times> ('q \<Rightarrow> 'r \<Rightarrow> 'd list \<times> 'd list)" where
  "gs_join (F, A) (F', A') = ((\<lambda>p i. F p i @ F' p i), (\<lambda>p r. join_data (A p r) (A' p r)))"

interpretation gs: mergeable gs_plus "gs_holds nm" gs_join "(\<lambda>_ _. [], \<lambda>_ _. ([], []))" for nm
proof
  fix k g s h t
  assume "gs_holds nm k g s" "gs_holds nm k h t"
  then show "\<exists>c. gs_plus g h = Inr c \<and> gs_holds nm k c (gs_join s t)"
    using gs_plus_ok [of nm g "fst s" "snd s" h "fst t" "snd t"] by (cases s; cases t) auto
qed (auto simp: join_data_nil)

text \<open>What a worker holds after the messages \<open>ms\<close>.\<close>

definition holdings :: "local_func_statistics list \<Rightarrow>
    (u64 \<Rightarrow> u64 \<Rightarrow> func_stats list) \<times> (int \<Rightarrow> u64 \<Rightarrow> anomaly_data list \<times> anomaly_data list)" where
  "holdings ms = (funcs_of ms, \<lambda>p r. (data_of ms p r, data_of ms p r))"

lemma holdings_append: "gs_join (holdings ms) (holdings ms') = holdings (ms @ ms')"
  by (simp add: holdings_def funcs_of_append data_of_append fun_eq_iff)

lemma holdings_concat: "foldl gs_join (holdings ms) (map holdings mss) = holdings (ms @ concat mss)"
  by (induction mss arbitrary: ms) (simp_all add: holdings_append)

definition worker :: "local_func_statistics list \<Rightarrow> global_anomaly_stats res" where
  "worker ms = foldE add_anomaly_data ms new_GlobalAnomalyStats"

lemma nothing_of: "funcs_of [] pid fid = []" "data_of [] p rid = []"
  by (simp_all add: funcs_of_def data_of_def)

lemma worker_ok:
  assumes "\<forall>d \<in> set ms. good_message nm d"
  shows "\<exists>g. worker ms = Inr g \<and> gs_holds nm () g (holdings ms)"
  using add_messages_ok [OF gs_repr_new assms]
  by (simp add: worker_def holdings_def nothing_of)

lemma workers_ok:
  assumes "\<forall>ms \<in> set mss. \<forall>d \<in> set ms. good_message nm d"
  shows "\<exists>gs. map_res worker mss = Inr gs \<and> list_all2 (gs_holds nm ()) gs (map holdings mss)"
  using assms
proof (induction mss)
  case (Cons ms mss)
  then obtain gs where "map_res worker mss = Inr gs" "list_all2 (gs_holds nm ()) gs (map holdings mss)" by auto
  moreover obtain g where "worker ms = Inr g" "gs_holds nm () g (holdings ms)"
    using worker_ok [of ms nm] Cons.prems by auto
  ultimately show ?case by simp
qed simp

lemma sum_workers_ok:
  assumes "list_all2 (gs_holds nm ()) gs (map holdings mss)"
  shows "\<exists>h. sum_workers gs = Inr h \<and> gs_holds nm () h (holdings (concat mss))"
proof -
  have "gs_holds nm () new_GlobalAnomalyStats (holdings [])" using gs_repr_new by (simp add: holdings_def)
  from gs.plus_all_ok [OF this assms] show ?thesis
    using holdings_concat [of "[]" mss] by (simp add: sum_workers_def)
qed

lemma gs_repr_func:
  assumes "gs_repr nm g F A" "uint pid < 2 ^ 31"
  shows "(F pid fid = [] \<longrightarrow> (\<exists>e. get_func_stats (to_i32 pid) fid g = Inl e))
    \<and> (F pid fid \<noteq> [] \<longrightarrow> get_func_stats (to_i32 pid) fid g = Inr (af_value nm pid fid (F pid fid)))"
proof -
  have outer: "map_repr (map_repr (af_repr nm) []) (\<lambda>_. []) () (m_funcstats g) F" using assms(1) by (simp add: gs_repr_def)
  note key = small_index_word [OF assms(2)]
  show ?thesis
  proof (cases "map_of (m_funcstats g) pid")
    case None
    then show ?thesis using map_repr_None [OF outer None] key by (simp add: get_func_stats_def)
  next
    case (Some m)
    note inner = map_repr_Some [OF outer Some]
    show ?thesis
    proof (cases "map_of m fid")
      case None
      then show ?thesis using map_repr_None [OF inner None] Some key by (simp add: get_func_stats_def)
    next
      case (Some a)
      then show ?thesis using map_repr_Some [OF inner Some] \<open>map_of (m_funcstats g) pid = Some m\<close> key
        by (simp add: get_func_stats_def)
    qed
  qed
qed

lemma gs_repr_anom:
  assumes "gs_repr nm g F A" "A pid rid = (seen, pending)"
  shows "(seen = [] \<longrightarrow> (\<exists>e. get_anomaly_stat_container pid rid g = Inl e))
    \<and> (seen \<noteq> [] \<longrightarrow> get_anomaly_stat_container pid rid g = Inr (aa_value seen pending))"
proof -
  have outer: "map_repr (map_repr aa_repr ([], [])) (\<lambda>_. ([], [])) () (m_anomaly_stats g) A"
    using assms(1) by (simp add: gs_repr_def)
  show ?thesis
  proof (cases "map_of (m_anomaly_stats g) pid")
    case None
    then show ?thesis using map_repr_None [OF outer None] assms(2) by (simp add: get_anomaly_stat_container_def)
  next
    case (Some m)
    note inner = map_repr_Some [OF outer Some]
    show ?thesis
    proof (cases "map_of m rid")
      case None
      then show ?thesis using map_repr_None [OF inner None] Some assms(2) by (simp add: get_anomaly_stat_container_def)
    next
      case (Some a)
      then show ?thesis
        using map_repr_Some [OF inner Some] \<open>map_of (m_anomaly_stats g) pid = Some m\<close> assms(2)
        by (simp add: get_anomaly_stat_container_def)
    qed
  qed
qed

text \<open>
  C10. The worker threads of the server each aggregate the messages they happen to receive. Neither
  receiving nor summing the workers fails, and the sum holds, for every function, exactly the
  statistics of all messages on it (no entry if there are none): pooled run times and the
  statistics of the numbers of anomalies; and for every program and rank the statistics and the
  list of all its anomaly data. So it is the state of one server that received everything.
\<close>

theorem sum_of_workers_correct:
  assumes "\<forall>ms \<in> set mss. \<forall>d \<in> set ms. good_message nm d"
  shows "\<exists>gs h. map_res worker mss = Inr gs \<and> sum_workers gs = Inr h
    \<and> (\<forall>pid fid. uint pid < 2 ^ 31 \<longrightarrow>
         (case get_func_stats (to_i32 pid) fid h of Inl e \<Rightarrow> funcs_of (concat mss) pid fid = []
          | Inr a \<Rightarrow> a = af_value nm pid fid (funcs_of (concat mss) pid fid)))
    \<and> (\<forall>pid rid. case get_anomaly_stat_container pid rid h of Inl e \<Rightarrow> data_of (concat mss) pid rid = []
          | Inr a \<Rightarrow> a = aa_value (data_of (concat mss) pid rid) (data_of (concat mss) pid rid))"
proof -
  obtain gs where gs: "map_res worker mss = Inr gs" "list_all2 (gs_holds nm ()) gs (map holdings mss)"
    using workers_ok [OF assms] by blast
  obtain h where h: "sum_workers gs = Inr h" "gs_holds nm () h (holdings (concat mss))"
    using sum_workers_ok [OF gs(2)] by blast
  let ?ms = "concat mss"
  have r: "gs_repr nm h (funcs_of ?ms) (\<lambda>p r. (data_of ?ms p r, data_of ?ms p r))" using h(2) by (simp add: holdings_def)
  have "case get_func_stats (to_i32 pid) fid h of Inl e \<Rightarrow> funcs_of ?ms pid fid = []
      | Inr a \<Rightarrow> a = af_value nm pid fid (funcs_of ?ms pid fid)" if "uint pid < 2 ^ 31" for pid fid
    using gs_repr_func [OF r that, of fid] by (cases "funcs_of ?ms pid fid = []") auto
  moreover have "case get_anomaly_stat_container pid rid h of Inl e \<Rightarrow> data_of ?ms pid rid = []
      | Inr a \<Rightarrow> a = aa_value (data_of ?ms pid rid) (data_of ?ms pid rid)" for pid rid
    using gs_repr_anom [OF r refl, of pid rid] by (cases "data_of ?ms pid rid = []") auto
  ultimately show ?thesis using gs(1) h(1) by blast
qed

section \<open>The order of arrival\<close>

lemma af_value_perm:
  assumes "mset s = mset t"
  shows "af_value nm pid fid s = af_value nm pid fid t"
proof -
  have m: "mset (map h s) = mset (map h t)" for h :: "func_stats \<Rightarrow> 'b" using assms by (simp add: mset_map)
  show ?thesis
    unfolding af_value_def pooled_perm [OF m [of fs_inclusive]] pooled_perm [OF m [of fs_exclusive]]
      push_all_perm [OF m [of "\<lambda>f. real (unat (fs_n_anomaly f))"]] ..
qed

lemma funcs_of_perm:
  assumes "mset ms = mset ms'"
  shows "mset (funcs_of ms pid fid) = mset (funcs_of ms' pid fid)"
proof -
  have *: "mset (concat (map h xs)) = \<Sum>\<^sub># (image_mset (mset \<circ> h) (mset xs))" for h :: "'b \<Rightarrow> 'c list" and xs
    by (induction xs) auto
  show ?thesis unfolding funcs_of_def mset_filter * assms ..
qed

text \<open>
  The function statistics the server ends up with depend on the messages only: neither the
  order of their arrival nor the worker threads that served them have an influence.
\<close>

lemma arrival_order_irrelevant:
  assumes "\<forall>ms \<in> set mss. \<forall>d \<in> set ms. good_message nm d" "mset (concat mss) = mset (concat mss')"
    and "map_res worker mss = Inr gs" "sum_workers gs = Inr h"
    and "map_res worker mss' = Inr gs'" "sum_workers gs' = Inr h'" "uint pid < 2 ^ 31"
  shows "get_func_stats (to_i32 pid) fid h = Inr a \<longleftrightarrow> get_func_stats (to_i32 pid) fid h' = Inr a"
proof -
  have good': "\<forall>ms \<in> set mss'. \<forall>d \<in> set ms. good_message nm d"
    using assms(1) mset_eq_setD [OF assms(2)] by auto
  have r: "gs_repr nm h (funcs_of (concat mss)) (\<lambda>p r. (data_of (concat mss) p r, data_of (concat mss) p r))"
    using workers_ok [OF assms(1)] sum_workers_ok [of nm gs mss] assms(3,4) by (auto simp: holdings_def)
  have r': "gs_repr nm h' (funcs_of (concat mss')) (\<lambda>p r. (data_of (concat mss') p r, data_of (concat mss') p r))"
    using workers_ok [OF good'] sum_workers_ok [of nm gs' mss'] assms(5,6) by (auto simp: holdings_def)
  note perm = funcs_of_perm [OF assms(2), of pid fid]
  then have "funcs_of (concat mss) pid fid = [] \<longleftrightarrow> funcs_of (concat mss') pid fid = []"
    by (metis mset_zero_iff)
  then show ?thesis
    using gs_repr_func [OF r assms(7), of fid] gs_repr_func [OF r' assms(7), of fid] af_value_perm [OF perm, of nm pid fid]
    by (cases "funcs_of (concat mss) pid fid = []") auto
qed

section \<open>Two messages\<close>

definition ex_call :: "real \<Rightarrow> func_stats" where
  "ex_call x = (new_FuncStats 1 7 ''f'') \<lparr> fs_inclusive := push_all [x] (new_RunStats False),
     fs_exclusive := push_all [x] (new_RunStats False) \<rparr>"

definition ex_message :: "real \<Rightarrow> local_func_statistics" where
  "ex_message x = (new_ADLocalFuncStatistics 1 0 0) \<lparr> lf_funcstats := [(7, ex_call x)] \<rparr>"

lemma ex_message_good: "good_message (\<lambda>_ _. ''f'') (ex_message x)"
  using solid_push_all(1) [of "[x]" False]
  by (simp add: good_message_def ex_message_def ex_call_def good_stats_def new_FuncStats_def)

lemma ex_funcs: "funcs_of [ex_message x, ex_message y] 1 7 = [ex_call x, ex_call y]"
  by (simp add: funcs_of_def ex_message_def ex_call_def new_FuncStats_def)

lemma ex_index: "to_i32 1 = 1"
  by (simp add: to_i32_def)

theorem sum_of_workers_correct_witness:
  "\<exists>gs h a. map_res worker [[ex_message 3], [ex_message 5]] = Inr gs \<and> sum_workers gs = Inr h
    \<and> get_func_stats 1 7 h = Inr a \<and> m_count (af_inclusive a) = 2"
proof -
  let ?mss = "[[ex_message 3], [ex_message 5]]"
  have good: "\<forall>ms \<in> set ?mss. \<forall>d \<in> set ms. good_message (\<lambda>_ _. ''f'') d" using ex_message_good by simp
  obtain gs h where r: "map_res worker ?mss = Inr gs" "sum_workers gs = Inr h"
    "\<forall>pid fid. uint pid < 2 ^ 31 \<longrightarrow>
         (case get_func_stats (to_i32 pid) fid h of Inl e \<Rightarrow> funcs_of (concat ?mss) pid fid = []
          | Inr a \<Rightarrow> a = af_value (\<lambda>_ _. ''f'') pid fid (funcs_of (concat ?mss) pid fid))"
    using sum_of_workers_correct [OF good] by blast
  have "case get_func_stats (to_i32 1) 7 h of Inl e \<Rightarrow> funcs_of (concat ?mss) 1 7 = []
      | Inr a \<Rightarrow> a = af_value (\<lambda>_ _. ''f'') 1 7 (funcs_of (concat ?mss) 1 7)"
    using r(3) [rule_format, of 1 7] by simp
  then obtain a where a: "get_func_stats 1 7 h = Inr a" "a = af_value (\<lambda>_ _. ''f'') 1 7 [ex_call 3, ex_call 5]"
    by (cases "get_func_stats 1 7 h") (simp_all add: ex_funcs ex_index)
  moreover have "m_count (af_inclusive a) = 2"
    by (simp add: a(2) af_value_def pooled_count ex_call_def push_all_count)
  ultimately show ?thesis using r(1,2) by blast
qed

lemma arrival_order_irrelevant_witness:
  "\<exists>gs h gs' h' a. map_res worker [[ex_message 3], [ex_message 5]] = Inr gs \<and> sum_workers gs = Inr h
    \<and> map_res worker [[ex_message 5, ex_message 3]] = Inr gs' \<and> sum_workers gs' = Inr h'
    \<and> get_func_stats 1 7 h = Inr a \<and> get_func_stats 1 7 h' = Inr a"
proof -
  let ?mss = "[[ex_message 3], [ex_message 5]]" and ?mss' = "[[ex_message 5, ex_message 3]]"
  let ?nm = "\<lambda>_ _. ''f''"
  have good: "\<forall>ms \<in> set ?mss. \<forall>d \<in> set ms. good_message ?nm d"
    and good': "\<forall>ms \<in> set ?mss'. \<forall>d \<in> set ms. good_message ?nm d" using ex_message_good by simp_all
  obtain gs h where r: "map_res worker ?mss = Inr gs" "sum_workers gs = Inr h" "gs_holds ?nm () h (holdings (concat ?mss))"
    using workers_ok [OF good] sum_workers_ok by blast
  obtain gs' h' where r': "map_res worker ?mss' = Inr gs'" "sum_workers gs' = Inr h'"
    using workers_ok [OF good'] sum_workers_ok by blast
  have one: "uint (1 :: u64) < 2 ^ 31" by simp
  have rep: "gs_repr ?nm h (funcs_of [ex_message 3, ex_message 5])
      (\<lambda>p r. (data_of [ex_message 3, ex_message 5] p r, data_of [ex_message 3, ex_message 5] p r))"
    using r(3) by (simp add: holdings_def)
  have "get_func_stats 1 7 h = Inr (af_value ?nm 1 7 [ex_call 3, ex_call 5])"
    using gs_repr_func [OF rep one, of 7] by (simp add: ex_funcs ex_index)
  moreover have "mset (concat ?mss) = mset (concat ?mss')" by simp
  note arrival_order_irrelevant [OF good this r(1,2) r' one, of 7 "af_value ?nm 1 7 [ex_call 3, ex_call 5]"]
  ultimately show ?thesis using r(1,2) r' by (auto simp: ex_index)
qed

end
