(* ===== verification/Delivery.thy ===== *)
theory Delivery
  imports GlobalProps
begin

text \<open>
  The output of the server. Workers receive messages and the sender merges and flushes them, in
  any order: every step of an analysis process with anomalies is sent exactly once.
\<close>

section \<open>Flushing\<close>

abbreviation flushed :: "aggregate_anomaly_data \<Rightarrow> aggregate_anomaly_data" where
  "flushed a \<equiv> a \<lparr> aa_data := Some [] \<rparr>"

lemma map_values_ok:
  "(\<And>j a. (j, a) \<in> set m \<Longrightarrow> f a = Inr (h a)) \<Longrightarrow> map_values f m = Inr (map (\<lambda>(j, a). (j, h a)) m)"
  unfolding map_values_def
proof (induction m)
  case (Cons x m)
  obtain j a where x: "x = (j, a)" by force
  have "f a = Inr (h a)" by (rule Cons.prems [of j a]) (simp add: x)
  moreover have "map_res (\<lambda>(k, a). bind (f a) (\<lambda>b. Inr (k, b))) m = Inr (map (\<lambda>(j, a). (j, h a)) m)"
    using Cons by (metis (no_types, lifting) list.set_intros(2))
  ultimately show ?case by (simp add: x)
qed simp

lemma map_repr_map:
  assumes "map_repr repr nil k m f" "\<And>j a s. repr (k, j) a s \<Longrightarrow> repr (k, j) (h a) (t s)" "t nil = nil"
  shows "map_repr repr nil k (map (\<lambda>(j, a). (j, h a)) m) (\<lambda>j. t (f j))"
proof -
  have keys: "map fst (map (\<lambda>(j, a). (j, h a)) m) = map fst m" by (induction m) auto
  moreover have "map_of (map (\<lambda>(j, a). (j, h a)) m) j = map_option h (map_of m j)" for j by (simp add: map_of_map)
  moreover have "case map_option h (map_of m j) of None \<Rightarrow> t (f j) = nil | Some b \<Rightarrow> repr (k, j) b (t (f j))" for j
    using map_repr_None [OF assms(1), of j] map_repr_Some [OF assms(1), of j] assms(2,3) by (cases "map_of m j") auto
  ultimately show ?thesis using assms(1) unfolding map_repr_def keys by simp
qed

lemma aa_repr_data: "aa_repr k a s \<Longrightarrow> aa_data a = Some (snd s)"
  by (cases s) (simp add: aa_value_def)

lemma aa_repr_flush: "aa_repr k a s \<Longrightarrow> aa_flush a = Inr (flushed a) \<and> aa_repr k' (flushed a) (fst s, [])"
  by (cases s) (auto simp: aa_flush_def aa_value_def)

definition flush_all :: "(int \<times> (u64 \<times> aggregate_anomaly_data) list) list \<Rightarrow> (int \<times> (u64 \<times> aggregate_anomaly_data) list) list" where
  "flush_all stats = map (\<lambda>(p, m). (p, map (\<lambda>(r, a). (r, flushed a)) m)) stats"

abbreviation "aa_maps_repr \<equiv> map_repr (map_repr aa_repr ([], [])) (\<lambda>_. ([], [])) ()"

lemma flush_all_repr:
  assumes "aa_maps_repr stats A"
  shows "aa_maps_repr (flush_all stats) (\<lambda>p r. (fst (A p r), []))"
proof -
  have inner: "map_repr aa_repr ([], []) (u, p) (map (\<lambda>(r, a). (r, flushed a)) m) (\<lambda>r. (fst (g r), []))"
    if "map_repr aa_repr ([], []) (u, p) m g" for u p m g
    using map_repr_map [OF that, of flushed "\<lambda>s. (fst s, [])"] aa_repr_flush by simp
  show ?thesis
    unfolding flush_all_def
    by (rule map_repr_map [OF assms, of "\<lambda>m. map (\<lambda>(r, a). (r, flushed a)) m" "\<lambda>g r. (fst (g r), [])"])
      (simp_all add: inner)
qed

lemma map_values_flush:
  assumes "aa_maps_repr stats A"
  shows "map_values (map_values aa_flush) stats = Inr (flush_all stats)"
  unfolding flush_all_def
proof (rule map_values_ok)
  fix p m assume "(p, m) \<in> set stats"
  note inner = map_repr_mem [OF assms this]
  show "map_values aa_flush m = Inr (map (\<lambda>(r, a). (r, flushed a)) m)"
    by (rule map_values_ok) (use map_repr_mem [OF inner] aa_repr_flush in blast)
qed

section \<open>Collecting\<close>

abbreviation anomalous :: "anomaly_data \<Rightarrow> bool" where
  "anomalous d \<equiv> 0 < ad_n_anomalies d"

definition packets :: "int \<Rightarrow> u64 \<times> aggregate_anomaly_data \<Rightarrow> stat_packet list" where
  "packets pid ra = (let l = the (aa_data (snd ra)) in
     if \<exists>d \<in> set l. anomalous d then
       [\<lparr> sp_pid = pid, sp_rid = to_i32 (fst ra), sp_stats = aa_stats (snd ra), sp_data = filter anomalous l \<rparr>]
     else [])"

lemma packets_data: "concat (map sp_data (packets pid ra)) = filter anomalous (the (aa_data (snd ra)))"
  by (auto simp: packets_def Let_def filter_empty_conv)

lemma collect_ranks:
  assumes "\<forall>(r, a) \<in> set ranks. aa_data a \<noteq> None"
  shows "foldE (collect_rank pid) ranks (out, acc) =
    Inr (out @ concat (map (packets pid) ranks), acc @ map (\<lambda>(r, a). (r, flushed a)) ranks)"
  using assms
proof (induction ranks arbitrary: out acc)
  case (Cons ra ranks)
  obtain r a l where ra: "ra = (r, a)" "aa_data a = Some l" using Cons.prems by (cases ra) auto
  have "collect_rank pid ra (out, acc) = Inr (out @ packets pid ra, acc @ [(r, flushed a)])"
    using ra by (cases "l = []") (auto simp: collect_rank_def aa_get_json_def aa_flush_def packets_def Let_def)
  with Cons ra show ?case by simp
qed simp

lemma collect_programs:
  assumes "\<forall>(p, m) \<in> set stats. \<forall>(r, a) \<in> set m. aa_data a \<noteq> None"
  shows "foldE collect_program stats (out, acc) =
    Inr (out @ concat (map (\<lambda>(p, m). concat (map (packets p) m)) stats), acc @ flush_all stats)"
  using assms
proof (induction stats arbitrary: out acc)
  case (Cons pm stats)
  obtain p m where pm: "pm = (p, m)" by force
  have "foldE (collect_rank p) m (out, []) = Inr (out @ concat (map (packets p) m), map (\<lambda>(r, a). (r, flushed a)) m)"
    using collect_ranks [of m p out "[]"] Cons.prems pm by simp
  with Cons pm show ?case by (simp add: collect_program_def flush_all_def)
qed (simp add: flush_all_def)

definition data_in :: "(stat_packet list \<times> 'f) option \<Rightarrow> anomaly_data list" where
  "data_in out = (case out of None \<Rightarrow> [] | Some (ps, _) \<Rightarrow> concat (map sp_data ps))"

definition pending_all :: "(int \<times> (u64 \<times> aggregate_anomaly_data) list) list \<Rightarrow> anomaly_data list" where
  "pending_all stats = concat (map (\<lambda>(p, m). concat (map (\<lambda>(r, a). filter anomalous (the (aa_data a))) m)) stats)"

lemma collect_ok:
  assumes "aa_maps_repr (m_anomaly_stats g) A"
  shows "\<exists>out. collect g = Inr (out, g \<lparr> m_anomaly_stats := flush_all (m_anomaly_stats g) \<rparr>)
    \<and> data_in out = pending_all (m_anomaly_stats g)"
proof -
  let ?s = "m_anomaly_stats g"
  let ?ps = "concat (map (\<lambda>(p, m). concat (map (packets p) m)) ?s)"
  have "aa_data a \<noteq> None" if "(p, m) \<in> set ?s" "(r, a) \<in> set m" for p m r a
    using aa_repr_data [OF map_repr_mem [OF map_repr_mem [OF assms that(1)] that(2)]] by simp
  then have some: "\<forall>(p, m) \<in> set ?s. \<forall>(r, a) \<in> set m. aa_data a \<noteq> None" by blast
  have "concat (map sp_data (concat (map (packets p) m))) = concat (map (\<lambda>(r, a). filter anomalous (the (aa_data a))) m)" for p m
    by (induction m) (auto simp: packets_data)
  then have "concat (map sp_data (concat (map (\<lambda>(p, m). concat (map (packets p) m)) s))) = pending_all s" for s
    unfolding pending_all_def by (induction s) auto
  then have d: "concat (map sp_data ?ps) = pending_all ?s" .
  have "collect_stat_data g = Inr (?ps, g \<lparr> m_anomaly_stats := flush_all ?s \<rparr>)"
    using collect_programs [OF some, of "[]" "[]"] by (simp add: collect_stat_data_def)
  then show ?thesis using d by (cases "?ps = []") (auto simp: collect_def data_in_def)
qed

text \<open>Which of the data in a state belong to a program and rank.\<close>

definition data_key :: "anomaly_data \<Rightarrow> int \<times> u64" where
  "data_key d = (to_i32 (ad_app d), ad_rank d)"

definition keyed :: "(int \<Rightarrow> u64 \<Rightarrow> anomaly_data list \<times> anomaly_data list) \<Rightarrow> bool" where
  "keyed A \<longleftrightarrow> (\<forall>p r. \<forall>d \<in> set (snd (A p r)). data_key d = (p, r))"

lemma filter_concat_key:
  assumes "distinct (map fst m)" "\<And>j a. (j, a) \<in> set m \<Longrightarrow> j \<noteq> i \<Longrightarrow> filter P (g j a) = []"
  shows "filter P (concat (map (\<lambda>(j, a). g j a) m)) = (case map_of m i of None \<Rightarrow> [] | Some a \<Rightarrow> filter P (g i a))"
  using assms
proof (induction m)
  case (Cons x m)
  obtain j a where x: "x = (j, a)" by force
  have IH: "filter P (concat (map (\<lambda>(j, a). g j a) m)) = (case map_of m i of None \<Rightarrow> [] | Some a \<Rightarrow> filter P (g i a))"
    using Cons by auto
  show ?case
  proof (cases "j = i")
    case True
    then have "map_of m i = None" using Cons.prems(1) x by (simp add: map_of_eq_None_iff)
    with IH True x show ?thesis by simp
  next
    case False
    then show ?thesis using IH Cons.prems(2) [of j a] x by simp
  qed
qed simp

lemma pending_key:
  assumes "aa_maps_repr stats A" "keyed A"
  shows "[d \<leftarrow> pending_all stats. data_key d = (p, r)] = filter anomalous (snd (A p r))"
proof -
  let ?in = "\<lambda>m. concat (map (\<lambda>(r, a). filter anomalous (the (aa_data a))) m)"
  let ?P = "\<lambda>d. data_key d = (p, r)"
  have entry: "the (aa_data a) = snd (g r') \<and> distinct (map fst m)"
    if "map_repr aa_repr ([], []) k m g" "(r', a) \<in> set m" for k m g r' a
    using aa_repr_data [OF map_repr_mem [OF that]] that(1) by (simp add: map_repr_def)
  have none: "filter ?P (filter anomalous (snd (A p' r'))) = []" if "(p', r') \<noteq> (p, r)" for p' r'
    using assms(2) that by (auto simp: keyed_def filter_empty_conv)
  have all: "filter ?P (filter anomalous (snd (A p r))) = filter anomalous (snd (A p r))"
    using assms(2) by (auto simp: keyed_def intro!: filter_cong)
  have inner: "filter ?P (?in m) = (if p' = p then filter anomalous (snd (A p r)) else [])"
    if "(p', m) \<in> set stats" for p' m
  proof -
    note rep = map_repr_mem [OF assms(1) that]
    have dist: "distinct (map fst m)" using rep by (simp add: map_repr_def)
    have "filter ?P (?in m) = (case map_of m r of None \<Rightarrow> [] | Some a \<Rightarrow> filter ?P (filter anomalous (the (aa_data a))))"
      by (rule filter_concat_key [OF dist]) (use entry [OF rep] none in auto)
    moreover have "A p' r = ([], [])" if "map_of m r = None" using map_repr_None [OF rep that] .
    moreover have "the (aa_data a) = snd (A p' r)" if "map_of m r = Some a" for a
      using entry [OF rep map_of_SomeD [OF that]] by simp
    ultimately show ?thesis using none [of p' r] all by (cases "map_of m r"; cases "p' = p") auto
  qed
  have dist: "distinct (map fst stats)" using assms(1) by (simp add: map_repr_def)
  have "filter ?P (pending_all stats) = (case map_of stats p of None \<Rightarrow> [] | Some m \<Rightarrow> filter ?P (?in m))"
    unfolding pending_all_def by (rule filter_concat_key [OF dist]) (use inner in auto)
  moreover have "A p = (\<lambda>_. ([], []))" if "map_of stats p = None" using map_repr_None [OF assms(1) that] .
  moreover have "filter ?P (?in m) = filter anomalous (snd (A p r))" if "map_of stats p = Some m" for m
    using inner [OF map_of_SomeD [OF that]] by simp
  ultimately show ?thesis by (cases "map_of stats p") auto
qed

section \<open>Sending\<close>

type_synonym holding = "(u64 \<Rightarrow> u64 \<Rightarrow> func_stats list) \<times> (int \<Rightarrow> u64 \<Rightarrow> anomaly_data list \<times> anomaly_data list)"

definition flush_holding :: "holding \<Rightarrow> holding" where
  "flush_holding h = (fst h, \<lambda>p r. (fst (snd h p r), []))"

definition pending_of :: "holding \<Rightarrow> int \<Rightarrow> u64 \<Rightarrow> anomaly_data list" where
  "pending_of h p r = snd (snd h p r)"

lemma pending_join: "pending_of (gs_join h k) p r = pending_of h p r @ pending_of k p r"
  by (cases h; cases k) (simp add: pending_of_def join_data_fst)

lemma pending_foldl:
  "pending_of (foldl gs_join h hs) p r = pending_of h p r @ concat (map (\<lambda>k. pending_of k p r) hs)"
  by (induction hs arbitrary: h) (simp_all add: pending_join)

lemma keyed_pending: "keyed (snd h) \<longleftrightarrow> (\<forall>p r. \<forall>d \<in> set (pending_of h p r). data_key d = (p, r))"
  by (simp add: keyed_def pending_of_def)

lemma gs_merge_and_flush_ok:
  assumes "gs_holds nm () g h" "gs_holds nm () r k"
  shows "\<exists>g' r'. gs_merge_and_flush g r = Inr (g', r') \<and> gs_holds nm () g' (gs_join h k)
    \<and> gs_holds nm () r' (flush_holding k)"
proof -
  obtain F A F' A' where h: "h = (F, A)" "k = (F', A')" by (cases h; cases k) auto
  have rep: "gs_repr nm g F A" "gs_repr nm r F' A'" using assms h by simp_all
  obtain c where c: "gs_plus g r = Inr c" "gs_repr nm c (\<lambda>p i. F p i @ F' p i) (\<lambda>p r. join_data (A p r) (A' p r))"
    using gs_plus_ok [OF rep] by blast
  have A': "aa_maps_repr (m_anomaly_stats r) A'" using rep(2) by (simp add: gs_repr_def)
  note fl = map_values_flush [OF A'] flush_all_repr [OF A']
  have "gs_merge_and_flush g r = Inr (c, r \<lparr> m_anomaly_stats := flush_all (m_anomaly_stats r) \<rparr>)"
    using c(1) fl(1) by (auto simp: gs_merge_and_flush_def gs_plus_def bind_simps)
  then show ?thesis using c(2) fl(2) rep(2) by (simp add: h flush_holding_def gs_repr_def)
qed

section \<open>The server over time\<close>

text \<open>
  The sender takes the workers one after the other, each under its mutex, while the others receive
  messages. State: \<open>msgs\<close> the messages received so far, \<open>sent\<close> the anomaly data sent so far, \<open>ws\<close>
  the objects of the \<open>n\<close> workers, and, during a send, the object that collects, the next worker
  to be merged and the messages that had been received when the send began.
\<close>

type_synonym sender = "(global_anomaly_stats \<times> nat \<times> local_func_statistics list) option"

inductive server_run ::
    "nat \<Rightarrow> naming \<Rightarrow> local_func_statistics list \<Rightarrow> anomaly_data list \<Rightarrow> global_anomaly_stats list \<Rightarrow> sender \<Rightarrow> bool" for n nm where
  start: "server_run n nm [] [] (replicate n new_GlobalAnomalyStats) None"
| receive: "server_run n nm msgs sent ws sd \<Longrightarrow> i < n \<Longrightarrow> good_message nm d \<Longrightarrow> add_anomaly_data d (ws ! i) = Inr w \<Longrightarrow>
    server_run n nm (msgs @ [d]) sent (ws[i := w]) sd"
| send: "server_run n nm msgs sent ws None \<Longrightarrow> server_run n nm msgs sent ws (Some (new_GlobalAnomalyStats, 0, msgs))"
| merge: "server_run n nm msgs sent ws (Some (comb, k, old)) \<Longrightarrow> k < n \<Longrightarrow>
    gs_merge_and_flush comb (ws ! k) = Inr (comb', w) \<Longrightarrow> server_run n nm msgs sent (ws[k := w]) (Some (comb', Suc k, old))"
| finish: "server_run n nm msgs sent ws (Some (comb, n, old)) \<Longrightarrow> collect comb = Inr (out, comb') \<Longrightarrow>
    server_run n nm msgs (sent @ data_in out) ws None"

text \<open>The anomaly data an object holds for the next output.\<close>

definition held :: "global_anomaly_stats \<Rightarrow> anomaly_data list" where
  "held g = pending_all (m_anomaly_stats g)"

definition rep_of :: "naming \<Rightarrow> global_anomaly_stats \<Rightarrow> bool" where
  "rep_of nm g \<longleftrightarrow> (\<exists>F A. gs_repr nm g F A \<and> keyed A)"

lemma mset_by_key: "(\<And>k. mset [d \<leftarrow> xs. f d = k] = mset [d \<leftarrow> ys. f d = k]) \<Longrightarrow> mset xs = mset ys"
proof (rule multiset_eqI)
  fix x
  assume eq: "\<And>k. mset [d \<leftarrow> xs. f d = k] = mset [d \<leftarrow> ys. f d = k]"
  have "count (mset zs) x = count (mset [d \<leftarrow> zs. f d = f x]) x" for zs by (simp add: mset_filter)
  then show "count (mset xs) x = count (mset ys) x" using eq [of "f x"] by metis
qed

lemma held_mset:
  assumes "gs_repr nm g F A" "keyed A" "\<And>p r. mset [d \<leftarrow> xs. data_key d = (p, r)] = mset (filter anomalous (snd (A p r)))"
  shows "mset (held g) = mset xs"
proof (rule mset_by_key)
  fix k :: "int \<times> u64"
  have rep: "aa_maps_repr (m_anomaly_stats g) A" using assms(1) by (simp add: gs_repr_def)
  show "mset [d \<leftarrow> held g. data_key d = k] = mset [d \<leftarrow> xs. data_key d = k]"
    using pending_key [OF rep assms(2), of "fst k" "snd k"] assms(3) [of "fst k" "snd k"] by (simp add: held_def)
qed

lemma held_filter:
  assumes "gs_repr nm g F A" "keyed A"
  shows "[d \<leftarrow> held g. data_key d = (p, r)] = filter anomalous (snd (A p r))"
  using pending_key [OF _ assms(2)] assms(1) by (simp add: held_def gs_repr_def)

lemma new_held: "rep_of nm new_GlobalAnomalyStats \<and> held new_GlobalAnomalyStats = []"
proof -
  have "keyed (\<lambda>_ _. ([], []))" by (simp add: keyed_def)
  then show ?thesis
    using gs_repr_new [of nm] by (auto simp: rep_of_def held_def pending_all_def new_GlobalAnomalyStats_def nothing_of)
qed

lemma data_of_key: "data_of msgs p r = [d \<leftarrow> map lf_anom_data msgs. data_key d = (p, r)]"
  by (simp add: data_of_def data_key_def)

lemma receive_held:
  assumes "rep_of nm g" "good_message nm d"
  shows "\<exists>g'. add_anomaly_data d g = Inr g' \<and> rep_of nm g' \<and> mset (held g') = mset (held g) + mset (filter anomalous [lf_anom_data d])"
proof -
  obtain F A where FA: "gs_repr nm g F A" "keyed A" using assms(1) by (auto simp: rep_of_def)
  let ?A = "\<lambda>p r. join_data (A p r) (data_of [d] p r, data_of [d] p r)"
  obtain g' where g': "add_anomaly_data d g = Inr g'" "gs_repr nm g' (\<lambda>pid fid. F pid fid @ funcs_of [d] pid fid) ?A"
    using add_anomaly_data_ok [OF FA(1) assms(2)] by blast
  have k: "keyed ?A" using FA(2) by (auto simp: keyed_def join_data_fst data_of_key)
  have "mset (held g') = mset (held g @ filter anomalous [lf_anom_data d])"
    by (rule held_mset [OF g'(2) k]) (use held_filter [OF FA] in \<open>auto simp: join_data_fst data_of_key\<close>)
  with g' k show ?thesis by (auto simp: rep_of_def)
qed

lemma merge_held:
  assumes "rep_of nm g" "rep_of nm r"
  shows "\<exists>g' r'. gs_merge_and_flush g r = Inr (g', r') \<and> rep_of nm g' \<and> rep_of nm r'
    \<and> mset (held g') = mset (held g) + mset (held r) \<and> held r' = []"
proof -
  obtain F A where FA: "gs_repr nm g F A" "keyed A" using assms(1) by (auto simp: rep_of_def)
  obtain F' A' where FA': "gs_repr nm r F' A'" "keyed A'" using assms(2) by (auto simp: rep_of_def)
  obtain g' r' where m: "gs_merge_and_flush g r = Inr (g', r')" "gs_holds nm () g' (gs_join (F, A) (F', A'))"
    "gs_holds nm () r' (flush_holding (F', A'))"
    using gs_merge_and_flush_ok [of nm g "(F, A)" r "(F', A')"] FA(1) FA'(1) by auto
  have g': "gs_repr nm g' (\<lambda>p i. F p i @ F' p i) (\<lambda>p r. join_data (A p r) (A' p r))" using m(2) by simp
  have r': "gs_repr nm r' F' (\<lambda>p r. (fst (A' p r), []))" using m(3) by (simp add: flush_holding_def)
  have k: "keyed (\<lambda>p r. join_data (A p r) (A' p r))" using FA(2) FA'(2) by (auto simp: keyed_def join_data_fst)
  have k': "keyed (\<lambda>p r. (fst (A' p r), []))" by (simp add: keyed_def)
  have "mset (held g') = mset (held g @ held r)"
    by (rule held_mset [OF g' k]) (use held_filter [OF FA] held_filter [OF FA'] in \<open>simp add: join_data_fst\<close>)
  moreover have "mset (held r') = mset []" by (rule held_mset [OF r' k']) simp
  ultimately show ?thesis using m(1) g' r' k k' by (auto simp: rep_of_def)
qed

lemma collect_held:
  assumes "rep_of nm g"
  shows "\<exists>out g'. collect g = Inr (out, g') \<and> data_in out = held g"
  using assms collect_ok unfolding rep_of_def gs_repr_def held_def by blast

text \<open>The data in the objects of some workers.\<close>

definition held_all :: "global_anomaly_stats list \<Rightarrow> anomaly_data multiset" where
  "held_all ws = (\<Sum>w\<leftarrow>ws. mset (held w))"

lemma held_all_update:
  "i < length ws \<Longrightarrow> held_all (ws[i := w]) + mset (held (ws ! i)) = held_all ws + mset (held w)"
  unfolding held_all_def
  by (induction ws arbitrary: i) (auto simp: nth_Cons' less_Suc_eq_0_disj add.assoc add.left_commute add.commute)

definition reported_anomalies :: "local_func_statistics list \<Rightarrow> anomaly_data multiset" where
  "reported_anomalies msgs = mset (filter anomalous (map lf_anom_data msgs))"

text \<open>
  Every anomaly is either sent or held by one object; what the workers already merged hold arrived
  after the send had begun.
\<close>

fun conserved ::
    "nat \<Rightarrow> naming \<Rightarrow> local_func_statistics list \<Rightarrow> anomaly_data list \<Rightarrow> global_anomaly_stats list \<Rightarrow> sender \<Rightarrow> bool" where
  "conserved n nm msgs sent ws None \<longleftrightarrow> length ws = n \<and> (\<forall>w \<in> set ws. rep_of nm w)
     \<and> reported_anomalies msgs = mset sent + held_all ws"
| "conserved n nm msgs sent ws (Some (comb, k, old)) \<longleftrightarrow> length ws = n \<and> k \<le> n \<and> (\<forall>w \<in> set ws. rep_of nm w) \<and> rep_of nm comb
     \<and> reported_anomalies msgs = mset sent + mset (held comb) + held_all ws
     \<and> reported_anomalies old + held_all (take k ws) \<subseteq># reported_anomalies msgs"

lemma subset_add_mono:
  assumes "A + X \<subseteq># M" "X' \<subseteq># X + D"
  shows "A + X' \<subseteq># M + D"
proof -
  have "A + X' \<subseteq># A + (X + D)" by (rule subset_mset.add_left_mono [OF assms(2)])
  also have "\<dots> = (A + X) + D" by (simp add: add.assoc)
  also have "\<dots> \<subseteq># M + D" by (rule subset_mset.add_right_mono [OF assms(1)])
  finally show ?thesis .
qed

lemma conserved_receive:
  assumes "conserved n nm msgs sent ws sd" "i < n" "good_message nm d" "add_anomaly_data d (ws ! i) = Inr w"
  shows "conserved n nm (msgs @ [d]) sent (ws[i := w]) sd"
proof -
  have len: "length ws = n" and all: "\<forall>w \<in> set ws. rep_of nm w" using assms(1) by (cases sd; auto)+
  have "rep_of nm (ws ! i)" using all assms(2) len by simp
  from receive_held [OF this assms(3)] assms(4)
  have w: "rep_of nm w" "mset (held w) = mset (held (ws ! i)) + mset (filter anomalous [lf_anom_data d])" by auto
  let ?d = "mset (filter anomalous [lf_anom_data d])"
  have msgs: "reported_anomalies (msgs @ [d]) = reported_anomalies msgs + ?d" by (simp add: reported_anomalies_def)
  have held: "held_all (ws[i := w]) = held_all ws + ?d"
    using held_all_update [of i ws w] assms(2) len w(2) by (simp add: union_assoc [symmetric])
  have all': "\<forall>v \<in> set (ws[i := w]). rep_of nm v" using all w(1) set_update_subset_insert [of ws i w] by blast
  show ?thesis
  proof (cases sd)
    case None
    then show ?thesis using assms(1) all' held by (simp add: msgs)
  next
    case (Some s)
    obtain comb k old where s: "s = (comb, k, old)" by (cases s) auto
    have sub: "reported_anomalies old + held_all (take k ws) \<subseteq># reported_anomalies msgs"
      using assms(1) unfolding Some s conserved.simps by (elim conjE)
    have "held_all (take k (ws[i := w])) \<subseteq># held_all (take k ws) + ?d"
    proof (cases "i < k")
      case True
      then show ?thesis
        using held_all_update [of i "take k ws" w] assms(2) len w(2) by (simp add: take_update_swap union_assoc [symmetric])
    qed simp
    then have "reported_anomalies old + held_all (take k (ws[i := w])) \<subseteq># reported_anomalies msgs + ?d"
      by (rule subset_add_mono [OF sub])
    then show ?thesis using assms(1) all' held Some s by (simp add: msgs)
  qed
qed

lemma conserved_merge:
  assumes "conserved n nm msgs sent ws (Some (comb, k, old))" "k < n"
  shows "\<exists>comb' w. gs_merge_and_flush comb (ws ! k) = Inr (comb', w)
    \<and> conserved n nm msgs sent (ws[k := w]) (Some (comb', Suc k, old))"
proof -
  have len: "length ws = n" and all: "\<forall>w \<in> set ws. rep_of nm w" and c: "rep_of nm comb"
    and eq: "reported_anomalies msgs = mset sent + mset (held comb) + held_all ws"
    and sub: "reported_anomalies old + held_all (take k ws) \<subseteq># reported_anomalies msgs"
    using assms(1) unfolding conserved.simps by blast+
  have "rep_of nm (ws ! k)" using all assms(2) len by simp
  from merge_held [OF c this] obtain comb' w where m: "gs_merge_and_flush comb (ws ! k) = Inr (comb', w)"
    "rep_of nm comb'" "rep_of nm w" "mset (held comb') = mset (held comb) + mset (held (ws ! k))" "held w = []" by blast
  have "held_all (ws[k := w]) + mset (held (ws ! k)) = held_all ws"
    using held_all_update [of k ws w] assms(2) len m(5) by simp
  then have eq': "reported_anomalies msgs = mset sent + mset (held comb') + held_all (ws[k := w])"
    unfolding eq m(4) by (simp add: ac_simps)
  have "take (Suc k) (ws[k := w]) = take k ws @ [w]" using assms(2) len by (simp add: take_Suc_conv_app_nth)
  then have "held_all (take (Suc k) (ws[k := w])) = held_all (take k ws)" using m(5) by (simp add: held_all_def)
  moreover have "\<forall>v \<in> set (ws[k := w]). rep_of nm v" using all m(3) set_update_subset_insert [of ws k w] by blast
  ultimately have "conserved n nm msgs sent (ws[k := w]) (Some (comb', Suc k, old))"
    unfolding conserved.simps using len assms(2) m(2) eq' sub by auto
  with m(1) show ?thesis by blast
qed

lemma conserved_finish:
  assumes "conserved n nm msgs sent ws (Some (comb, n, old))"
  shows "\<exists>out comb'. collect comb = Inr (out, comb') \<and> conserved n nm msgs (sent @ data_in out) ws None
    \<and> reported_anomalies old \<subseteq># mset (sent @ data_in out)"
proof -
  have len: "length ws = n" and all: "\<forall>w \<in> set ws. rep_of nm w" and c: "rep_of nm comb"
    and eq: "reported_anomalies msgs = mset sent + mset (held comb) + held_all ws"
    and sub: "reported_anomalies old + held_all (take n ws) \<subseteq># reported_anomalies msgs"
    using assms unfolding conserved.simps by blast+
  obtain out comb' where o: "collect comb = Inr (out, comb')" "data_in out = held comb" using collect_held [OF c] by blast
  have "reported_anomalies old + held_all ws \<subseteq># mset sent + mset (held comb) + held_all ws"
    using sub len unfolding eq by simp
  then have "reported_anomalies old \<subseteq># mset (sent @ data_in out)" using o(2) by simp
  with o len all eq show ?thesis by simp
qed

lemma conserved_send: "conserved n nm msgs sent ws None \<Longrightarrow> conserved n nm msgs sent ws (Some (new_GlobalAnomalyStats, 0, msgs))"
  using new_held [of nm] by (simp add: held_all_def)

lemma server_run_conserved: "server_run n nm msgs sent ws sd \<Longrightarrow> conserved n nm msgs sent ws sd"
proof (induction rule: server_run.induct)
  case start
  have "held_all (replicate n new_GlobalAnomalyStats) = {#}"
    using new_held [of nm] by (induction n) (simp_all add: held_all_def)
  then show ?case using new_held [of nm] by (simp add: reported_anomalies_def)
next
  case (receive msgs sent ws sd i d w)
  then show ?case using conserved_receive by blast
next
  case (send msgs sent ws)
  then show ?case using conserved_send by blast
next
  case (merge msgs sent ws comb k old comb' w)
  then show ?case using conserved_merge [of n nm msgs sent ws comb k old] by auto
next
  case (finish msgs sent ws comb old out comb')
  then show ?case using conserved_finish [of n nm msgs sent ws comb old] by auto
qed

text \<open>
  C9. Nothing is lost and nothing is sent twice, however the messages, the merges of the sender and
  the outputs interleave: at any time the anomalies reported in the messages received are, each
  as often as it was reported, those already sent, those in the sender's object and those the
  workers hold. No step of the sender fails, and once it has merged the last worker, its output
  completes the anomalies of all messages that had arrived when it began.
\<close>

theorem anomalies_sent_exactly_once:
  assumes "server_run n nm msgs sent ws sd"
  shows "reported_anomalies msgs =
      mset sent + (case sd of None \<Rightarrow> {#} | Some (comb, _) \<Rightarrow> mset (held comb)) + held_all ws
    \<and> (\<forall>comb k old. sd = Some (comb, k, old) \<longrightarrow>
         (k < n \<longrightarrow> (\<exists>r. gs_merge_and_flush comb (ws ! k) = Inr r))
       \<and> (k = n \<longrightarrow> (\<exists>out comb'. collect comb = Inr (out, comb') \<and> reported_anomalies old \<subseteq># mset (sent @ data_in out))))"
proof -
  note c = server_run_conserved [OF assms]
  have "reported_anomalies msgs =
      mset sent + (case sd of None \<Rightarrow> {#} | Some (comb, _) \<Rightarrow> mset (held comb)) + held_all ws"
    using c by (cases sd) auto
  moreover have "\<exists>r. gs_merge_and_flush comb (ws ! k) = Inr r" if "sd = Some (comb, k, old)" "k < n" for comb k old
    using conserved_merge [OF c [unfolded that(1)] that(2)] by blast
  moreover have "\<exists>out comb'. collect comb = Inr (out, comb') \<and> reported_anomalies old \<subseteq># mset (sent @ data_in out)"
    if "sd = Some (comb, n, old)" for comb old
    using conserved_finish [OF c [unfolded that]] by blast
  ultimately show ?thesis by blast
qed

theorem anomalies_sent_exactly_once_witness:
  fixes d
  defines "d \<equiv> (new_ADLocalFuncStatistics 1 2 3) \<lparr> lf_anom_data := new_AnomalyData_values 1 2 3 10 20 4 \<rparr>"
  shows "\<exists>w comb w' out. add_anomaly_data d new_GlobalAnomalyStats = Inr w
    \<and> gs_merge_and_flush new_GlobalAnomalyStats w = Inr (comb, w') \<and> collect comb = Inr out
    \<and> new_AnomalyData_values 1 2 3 10 20 4 \<in> set (data_in (fst out))"
proof -
  let ?nm = "\<lambda>_ _. []" and ?new = new_GlobalAnomalyStats
  have good: "good_message ?nm d" by (simp add: d_def good_message_def new_ADLocalFuncStatistics_def)
  obtain w where w: "add_anomaly_data d ?new = Inr w"
    using add_anomaly_data_ok [OF gs_repr_new good] by blast
  have "server_run 1 ?nm ([] @ [d]) [] ((replicate 1 ?new)[0 := w]) None"
    by (rule server_run.receive [OF server_run.start _ good]) (simp_all add: w)
  then have "server_run 1 ?nm [d] [] [w] (Some (?new, 0, [d]))" using server_run.send by simp
  from anomalies_sent_exactly_once [OF this] obtain comb w' where m: "gs_merge_and_flush ?new w = Inr (comb, w')" by auto
  have "server_run 1 ?nm [d] [] ([w][0 := w']) (Some (comb, Suc 0, [d]))"
    by (rule server_run.merge [OF \<open>server_run 1 ?nm [d] [] [w] _\<close>]) (simp_all add: m)
  then have run: "server_run 1 ?nm [d] [] [w'] (Some (comb, 1, [d]))" by simp
  obtain out comb' where "collect comb = Inr (out, comb')" "reported_anomalies [d] \<subseteq># mset ([] @ data_in out)"
    using anomalies_sent_exactly_once [OF run] by blast
  moreover have "reported_anomalies [d] = {#new_AnomalyData_values 1 2 3 10 20 4#}"
    by (simp add: d_def reported_anomalies_def new_AnomalyData_values_def anomaly_data_set_def)
  ultimately show ?thesis using w m by fastforce
qed

end
