(* ===== verification/MetricsProps.thy ===== *)
theory MetricsProps
  imports GlobalProps
begin

text \<open>
  The anomaly metrics and the counter statistics on the server. Metrics are kept twice, since the
  start and since the last output, and a report is added to one after the other. Every output finds
  the former for each of the latter, and takes every report once, whatever the workers do meanwhile.
\<close>

section \<open>Metrics of one function on one rank\<close>

type_synonym func_naming = "int \<Rightarrow> int \<Rightarrow> string"
type_synonym metrics_entry = "func_anomaly_metrics \<times> u64 \<times> u64 \<times> u64"

definition good_entry :: "func_naming \<Rightarrow> int \<Rightarrow> int \<Rightarrow> metrics_entry \<Rightarrow> bool" where
  "good_entry nm pid fid e \<longleftrightarrow> fm_fid (fst e) = fid \<and> fm_func (fst e) = nm pid fid
     \<and> solid (fm_score (fst e)) \<and> solid (fm_severity (fst e))"

definition am_value :: "func_naming \<Rightarrow> int \<Rightarrow> int \<Rightarrow> int \<Rightarrow> metrics_entry list \<Rightarrow> aggregate_func_anomaly_metrics" where
  "am_value nm pid rid fid s = \<lparr> am_pid = pid, am_rid = rid, am_fid = fid, am_func = nm pid fid,
     am_count = push_all (map (\<lambda>e. real_of_int (fm_count (fst e))) s) (new_RunStats True),
     am_score = pooled True (map (fm_score \<circ> fst) s), am_severity = pooled True (map (fm_severity \<circ> fst) s),
     am_first_event_ts = Min (insert u64_max ((\<lambda>(_, _, t0, _). t0) ` set s)),
     am_last_event_ts = Max (insert 0 ((\<lambda>(_, _, _, t1). t1) ` set s)),
     am_first_io_step = Min (insert u64_max ((\<lambda>(_, step, _, _). step) ` set s)),
     am_last_io_step = Max (insert 0 ((\<lambda>(_, step, _, _). step) ` set s)) \<rparr>"

fun am_repr :: "func_naming \<Rightarrow> ((unit \<times> int) \<times> int) \<times> int \<Rightarrow> aggregate_func_anomaly_metrics \<Rightarrow> metrics_entry list \<Rightarrow> bool" where
  "am_repr nm (((_, pid), rid), fid) a s \<longleftrightarrow>
     s \<noteq> [] \<and> (\<forall>e \<in> set s. good_entry nm pid fid e) \<and> a = am_value nm pid rid fid s"

lemma Min_insert_union:
  fixes c :: "'a :: linorder"
  assumes "finite A" "finite B"
  shows "min (Min (insert c A)) (Min (insert c B)) = Min (insert c (A \<union> B))"
    and "max (Max (insert c A)) (Max (insert c B)) = Max (insert c (A \<union> B))"
  using Min_Un [of "insert c A" "insert c B"] Max_Un [of "insert c A" "insert c B"] assms by simp_all

lemma Min_insert_one:
  fixes c :: "'a :: linorder"
  assumes "finite A"
  shows "min (Min (insert c A)) x = Min (insert c (insert x A))" "max (Max (insert c A)) x = Max (insert c (insert x A))"
  using Min_insert [of "insert c A" x] Max_insert [of "insert c A" x] assms
  by (simp_all add: min.commute max.commute insert_commute)

lemma good_solid:
  assumes "\<forall>e \<in> set s. good_entry nm pid fid e"
  shows "\<forall>r \<in> set (map (fm_score \<circ> fst) s). solid r" "\<forall>r \<in> set (map (fm_severity \<circ> fst) s). solid r"
  using assms by (auto simp: good_entry_def)

lemma am_plus_ok:
  assumes "am_repr nm k a s" "am_repr nm k b t"
  shows "\<exists>c. am_plus a b = Inr c \<and> am_repr nm k c (s @ t)"
proof -
  obtain u pid rid fid where k: "k = (((u, pid), rid), fid)" by (metis surj_pair)
  have s: "s \<noteq> []" "\<forall>e \<in> set (s @ t). good_entry nm pid fid e" "a = am_value nm pid rid fid s"
    and t: "t \<noteq> []" "b = am_value nm pid rid fid t" using assms unfolding k by auto
  have p: "combine (pooled True (map (fm_score \<circ> fst) s)) (pooled True (map (fm_score \<circ> fst) t)) = pooled True (map (fm_score \<circ> fst) (s @ t))"
    "combine (pooled True (map (fm_severity \<circ> fst) s)) (pooled True (map (fm_severity \<circ> fst) t)) = pooled True (map (fm_severity \<circ> fst) (s @ t))"
    using good_solid [OF s(2)] s(1) pooled_solid_append by (simp_all add: image_Un)
  have "am_plus a b = Inr (am_value nm pid rid fid (s @ t))"
    using s(1) t(1) p
    by (simp add: s(3) t(2) am_plus_def am_value_def plus_assign_def combine_push_all Min_insert_union image_Un del: Min_insert Max_insert)
  then show ?thesis using s t k by auto
qed

interpretation am: mergeable_values am_plus "am_repr nm" "(@)" "[]" for nm
  by unfold_locales (use am_plus_ok in \<open>auto\<close>)

interpretation am_maps: mergeable_values "map_plus_equals am_plus" "map_repr (am_repr nm) []"
  "\<lambda>f g j. f j @ g j" "\<lambda>_. []" for nm
  by unfold_locales

interpretation am_maps2: mergeable_values "map_plus_equals (map_plus_equals am_plus)"
  "map_repr (map_repr (am_repr nm) []) (\<lambda>_. [])" "\<lambda>f g r j. f r j @ g r j" "\<lambda>_ _. []" for nm
  by unfold_locales

abbreviation metrics_repr :: "func_naming \<Rightarrow> metrics_map \<Rightarrow> (int \<Rightarrow> int \<Rightarrow> int \<Rightarrow> metrics_entry list) \<Rightarrow> bool" where
  "metrics_repr nm \<equiv> map_repr (map_repr (map_repr (am_repr nm) []) (\<lambda>_. [])) (\<lambda>_ _. []) ()"

lemma metrics_plus_ok:
  assumes "metrics_repr nm m S" "metrics_repr nm n T"
  shows "\<exists>k. map_plus_equals (map_plus_equals (map_plus_equals am_plus)) m n = Inr k
    \<and> metrics_repr nm k (\<lambda>p r f. S p r f @ T p r f)"
  using am_maps2.map_plus_ok [OF assms] by simp

section \<open>Adding a message\<close>

lemma am_add_value:
  assumes "\<forall>e \<in> set s. good_entry nm pid fid e" "good_entry nm pid fid (f, step, t0, t1)"
  shows "am_add f step t0 t1 (am_value nm pid rid fid s) = Inr (am_value nm pid rid fid (s @ [(f, step, t0, t1)]))"
proof -
  have all: "\<forall>e \<in> set (s @ [(f, step, t0, t1)]). good_entry nm pid fid e" using assms by simp
  have "combine (pooled True rs) r = pooled True (rs @ [r])" if "\<forall>r \<in> set (rs @ [r]). solid r" for rs r
    using pooled_snoc [of rs r True] count_sum_pos [OF that] that by (auto intro: solid_tidy)
  from this [of "map (fm_score \<circ> fst) s" "fm_score f"] this [of "map (fm_severity \<circ> fst) s" "fm_severity f"] good_solid [OF all]
  have "combine (pooled True (map (fm_score \<circ> fst) s)) (fm_score f) = pooled True (map (fm_score \<circ> fst) (s @ [(f, step, t0, t1)]))"
    "combine (pooled True (map (fm_severity \<circ> fst) s)) (fm_severity f) = pooled True (map (fm_severity \<circ> fst) (s @ [(f, step, t0, t1)]))"
    by simp_all
  then show ?thesis using assms(2)
    by (simp add: am_add_def am_value_def plus_assign_def push_all_snoc good_entry_def Min_insert_one del: Min_insert Max_insert)
qed

lemma new_am_value: "nm pid fid = name \<Longrightarrow> new_AggregateFuncAnomalyMetrics pid rid fid name = am_value nm pid rid fid []"
  by (simp add: new_AggregateFuncAnomalyMetrics_def am_value_def)

text \<open>What a message reports on a function of a rank.\<close>

definition entry_of :: "local_anomaly_metrics \<Rightarrow> func_anomaly_metrics \<Rightarrow> metrics_entry" where
  "entry_of d f = (f, word_of_int (lm_step d), lm_first_event_ts d, lm_last_event_ts d)"

definition good_metrics :: "func_naming \<Rightarrow> local_anomaly_metrics \<Rightarrow> bool" where
  "good_metrics nm d \<longleftrightarrow> (\<forall>(fid, f) \<in> set (lm_func_anom_metrics d). good_entry nm (lm_app d) fid (entry_of d f))"

definition reports :: "local_anomaly_metrics list \<Rightarrow> int \<Rightarrow> int \<Rightarrow> int \<Rightarrow> metrics_entry list" where
  "reports ms pid rid fid = concat (map (\<lambda>d. if lm_app d = pid \<and> lm_rank d = rid
     then [entry_of d (snd x). x \<leftarrow> lm_func_anom_metrics d, fst x = fid] else []) ms)"

lemma reports_append: "reports (ms @ ms') p r f = reports ms p r f @ reports ms' p r f"
  by (simp add: reports_def)

lemma reports_join: "reports (ms @ ms') = (\<lambda>p r f. reports ms p r f @ reports ms' p r f)" "reports [] = (\<lambda>_ _ _. [])"
  by (intro ext, simp add: reports_append, intro ext, simp add: reports_def)

lemma gm_add_func_ok:
  assumes "map_repr (am_repr nm) [] (((), lm_app d), lm_rank d) m F" "good_entry nm (lm_app d) fid (entry_of d f)"
  shows "\<exists>m'. gm_add_func d (fid, f) m = Inr m'
    \<and> map_repr (am_repr nm) [] (((), lm_app d), lm_rank d) m' (F(fid := F fid @ [entry_of d f]))"
proof -
  let ?new = "new_AggregateFuncAnomalyMetrics (lm_app d) (lm_rank d) fid (fm_func f)"
  have name: "nm (lm_app d) fid = fm_func f" using assms(2) by (simp add: good_entry_def entry_of_def)
  have val: "al_get ?new m fid = am_value nm (lm_app d) (lm_rank d) fid (F fid) \<and> (\<forall>e \<in> set (F fid). good_entry nm (lm_app d) fid e)"
  proof (cases "map_of m fid")
    case None
    then show ?thesis using map_repr_None [OF assms(1) None] new_am_value [of nm "lm_app d" fid, OF name]
      by (simp add: al_get_def)
  next
    case (Some a)
    then show ?thesis using map_repr_Some [OF assms(1) Some] by (simp add: al_get_def)
  qed
  let ?s = "F fid @ [entry_of d f]"
  have add: "am_add f (word_of_int (lm_step d)) (lm_first_event_ts d) (lm_last_event_ts d) (al_get ?new m fid)
      = Inr (am_value nm (lm_app d) (lm_rank d) fid ?s)"
    using am_add_value [of "F fid" nm "lm_app d" fid f "word_of_int (lm_step d)" "lm_first_event_ts d" "lm_last_event_ts d"] val assms(2)
    by (simp add: entry_of_def)
  have "am_repr nm ((((), lm_app d), lm_rank d), fid) (am_value nm (lm_app d) (lm_rank d) fid ?s) ?s" using val assms(2) by auto
  from map_repr_update [OF assms(1), OF this] add show ?thesis by (simp add: gm_add_func_def)
qed

lemma gm_add_funcs_ok:
  assumes "map_repr (am_repr nm) [] (((), lm_app d), lm_rank d) m F"
    "\<forall>(fid, f) \<in> set fs. good_entry nm (lm_app d) fid (entry_of d f)"
  shows "\<exists>m'. foldE (gm_add_func d) fs m = Inr m' \<and> map_repr (am_repr nm) [] (((), lm_app d), lm_rank d) m'
    (\<lambda>fid. F fid @ [entry_of d (snd x). x \<leftarrow> fs, fst x = fid])"
  using assms
proof (induction fs arbitrary: m F)
  case (Cons x fs)
  obtain fid f where x: "x = (fid, f)" by force
  obtain m1 where m1: "gm_add_func d (fid, f) m = Inr m1"
    "map_repr (am_repr nm) [] (((), lm_app d), lm_rank d) m1 (F(fid := F fid @ [entry_of d f]))"
    using gm_add_func_ok [OF Cons.prems(1), of fid f] Cons.prems(2) x by auto
  obtain m' where m': "foldE (gm_add_func d) fs m1 = Inr m'" "map_repr (am_repr nm) [] (((), lm_app d), lm_rank d) m'
    (\<lambda>i. (F(fid := F fid @ [entry_of d f])) i @ [entry_of d (snd x). x \<leftarrow> fs, fst x = i])"
    using Cons.IH [OF m1(2)] Cons.prems(2) by auto
  have "(\<lambda>i. (F(fid := F fid @ [entry_of d f])) i @ [entry_of d (snd x). x \<leftarrow> fs, fst x = i])
      = (\<lambda>i. F i @ [entry_of d (snd y). y \<leftarrow> x # fs, fst y = i])" by (auto simp: x)
  with m1(1) m' show ?case by (simp add: x)
qed simp

lemma gm_add_into_ok:
  assumes "metrics_repr nm m S" "good_metrics nm d"
  shows "\<exists>m'. gm_add_into d m = Inr m' \<and> metrics_repr nm m' (\<lambda>p r f. S p r f @ reports [d] p r f)"
proof -
  let ?p = "lm_app d" and ?r = "lm_rank d"
  note ranks = map_repr_get [OF assms(1), of ?p]
  note funcs = map_repr_get [OF ranks, of ?r]
  let ?new = "\<lambda>fid. S ?p ?r fid @ [entry_of d (snd x). x \<leftarrow> lm_func_anom_metrics d, fst x = fid]"
  obtain fs where fs: "foldE (gm_add_func d) (lm_func_anom_metrics d) (al_get [] (al_get [] m ?p) ?r) = Inr fs"
    "map_repr (am_repr nm) [] (((), ?p), ?r) fs ?new"
    using gm_add_funcs_ok [OF funcs, of "lm_func_anom_metrics d"] assms(2) by (auto simp: good_metrics_def)
  have "metrics_repr nm (AList.update ?p (AList.update ?r fs (al_get [] m ?p)) m) (S(?p := (S ?p)(?r := ?new)))"
    by (rule map_repr_update [OF assms(1), OF map_repr_update [OF ranks, OF fs(2)]])
  moreover have "S(?p := (S ?p)(?r := ?new)) = (\<lambda>p r f. S p r f @ reports [d] p r f)"
    by (intro ext) (auto simp: reports_def)
  ultimately show ?thesis using fs(1) by (simp add: gm_add_into_def Let_def)
qed

section \<open>The output\<close>

text \<open>The entries of nested maps.\<close>

definition flat3 :: "metrics_map \<Rightarrow> ((int \<times> int \<times> int) \<times> aggregate_func_anomaly_metrics) list" where
  "flat3 m = concat (map (\<lambda>(p, rs). concat (map (\<lambda>(r, fs). map (\<lambda>(f, a). ((p, r, f), a)) fs) rs)) m)"

lemma concat_mem: "(j, b) \<in> set m \<Longrightarrow> x \<in> set (g j b) \<Longrightarrow> x \<in> set (concat (map (\<lambda>(j, b). g j b) m))"
  by (induction m) auto

lemma flat3_mem:
  assumes "metrics_repr nm m S"
  shows "((p, r, f), a) \<in> set (flat3 m) \<longleftrightarrow> S p r f \<noteq> [] \<and> a = am_value nm p r f (S p r f)"
proof
  assume "((p, r, f), a) \<in> set (flat3 m)"
  then obtain rs fs where m: "(p, rs) \<in> set m" "(r, fs) \<in> set rs" "(f, a) \<in> set fs" by (auto simp: flat3_def)
  have "am_repr nm ((((), p), r), f) a (S p r f)"
    by (rule map_repr_mem [OF map_repr_mem [OF map_repr_mem [OF assms m(1)] m(2)] m(3)])
  then show "S p r f \<noteq> [] \<and> a = am_value nm p r f (S p r f)" by simp
next
  assume R: "S p r f \<noteq> [] \<and> a = am_value nm p r f (S p r f)"
  then obtain rs where rs: "map_of m p = Some rs"
    using map_repr_None [OF assms, of p] by (cases "map_of m p") auto
  note inner = map_repr_Some [OF assms rs]
  obtain fs where fs: "map_of rs r = Some fs"
    using R map_repr_None [OF inner, of r] by (cases "map_of rs r") auto
  note inner2 = map_repr_Some [OF inner fs]
  obtain b where b: "map_of fs f = Some b"
    using R map_repr_None [OF inner2, of f] by (cases "map_of fs f") auto
  have "b = a" using map_repr_Some [OF inner2 b] R by simp
  with map_of_SomeD [OF rs] map_of_SomeD [OF fs] map_of_SomeD [OF b]
  have mem: "(p, rs) \<in> set m" "(r, fs) \<in> set rs" "(f, a) \<in> set fs" by simp_all
  have e: "((p, r, f), a) \<in> set (map (\<lambda>(f, a). ((p, r, f), a)) fs)" using mem(3) by force
  have e2: "((p, r, f), a) \<in> set (concat (map (\<lambda>(r, fs). map (\<lambda>(f, a). ((p, r, f), a)) fs) rs))"
    using concat_mem [of r fs rs _ "\<lambda>r fs. map (\<lambda>(f, a). ((p, r, f), a)) fs", OF mem(2) e] .
  show "((p, r, f), a) \<in> set (flat3 m)" unfolding flat3_def
    using concat_mem [of p rs m _ "\<lambda>p rs. concat (map (\<lambda>(r, fs). map (\<lambda>(f, a). ((p, r, f), a)) fs) rs)", OF mem(1) e2] .
qed

lemma distinct_flat:
  assumes "distinct (map fst m)" "\<And>j b. (j, b) \<in> set m \<Longrightarrow> distinct (map fst (g j b))"
    and "\<And>j b x. (j, b) \<in> set m \<Longrightarrow> x \<in> set (g j b) \<Longrightarrow> k (fst x) = j"
  shows "distinct (map fst (concat (map (\<lambda>(j, b). g j b) m)))"
  using assms
proof (induction m)
  case (Cons y m)
  obtain j b where y: "y = (j, b)" by force
  have "fst x \<noteq> fst z" if "x \<in> set (g j b)" "(i, c) \<in> set m" "z \<in> set (g i c)" for x z i c
  proof
    assume "fst x = fst z"
    moreover have "k (fst x) = j" by (rule Cons.prems(3) [of j b]) (use that y in auto)
    moreover have "k (fst z) = i" by (rule Cons.prems(3) [of i c]) (use that y in auto)
    ultimately have "i = j" by simp
    then show False using Cons.prems(1) that(2) y by (auto dest: in_set_zipE simp: image_iff)
  qed
  then have "fst ` set (g j b) \<inter> fst ` set (concat (map (\<lambda>(j, b). g j b) m)) = {}" by fastforce
  moreover have "distinct (map fst (concat (map (\<lambda>(j, b). g j b) m)))"
  proof (rule Cons.IH)
    show "distinct (map fst m)" using Cons.prems(1) by simp
    show "distinct (map fst (g i c))" if "(i, c) \<in> set m" for i c using Cons.prems(2) that by simp
    show "k (fst x) = i" if "(i, c) \<in> set m" "x \<in> set (g i c)" for i c x
      by (rule Cons.prems(3) [of i c]) (use that in auto)
  qed
  moreover have "distinct (map fst (g j b))" using Cons.prems(2) y by simp
  ultimately show ?case using y by simp
qed simp

lemma flat3_distinct:
  assumes "metrics_repr nm m S"
  shows "distinct (map fst (flat3 m))"
  unfolding flat3_def
proof (rule distinct_flat [where k = fst])
  show "distinct (map fst m)" using assms by (simp add: map_repr_def)
  fix p rs assume p: "(p, rs) \<in> set m"
  then have ranks: "map_repr (map_repr (am_repr nm) []) (\<lambda>_. []) ((), p) rs (S p)"
    using assms map_repr_Some [OF assms, of p rs] by (simp add: map_repr_def)
  show "distinct (map fst (concat (map (\<lambda>(r, fs). map (\<lambda>(f, a). ((p, r, f), a)) fs) rs)))"
  proof (rule distinct_flat [where k = "fst \<circ> snd"])
    show "distinct (map fst rs)" using ranks by (simp add: map_repr_def)
    fix r fs assume "(r, fs) \<in> set rs"
    then have "distinct (map fst fs)" using ranks map_repr_Some [OF ranks, of r fs] by (simp add: map_repr_def)
    then show "distinct (map fst (map (\<lambda>(f, a). ((p, r, f), a)) fs))"
      by (simp add: comp_def case_prod_unfold distinct_map inj_on_def)
  qed auto
qed auto

definition packet_entry :: "metrics_packet \<Rightarrow> (int \<times> int \<times> int) \<times> aggregate_func_anomaly_metrics \<times> aggregate_func_anomaly_metrics" where
  "packet_entry q = ((mp_app q, mp_rank q, mp_fid q), mp_new_data q, mp_all_data q)"

abbreviation "outputs nm S x \<equiv> (case x of ((p, r, f), a) \<Rightarrow> ((p, r, f), a, am_value nm p r f (S p r f)))"

definition prints :: "('x \<Rightarrow> metrics_packet list \<times> nat \<Rightarrow> (metrics_packet list \<times> nat) res) \<Rightarrow> 'x \<Rightarrow>
    ((int \<times> int \<times> int) \<times> aggregate_func_anomaly_metrics \<times> aggregate_func_anomaly_metrics) list \<Rightarrow> bool" where
  "prints h x es \<longleftrightarrow> (\<forall>out i. \<exists>qs. h x (out, i) = Inr (out @ qs, i + length qs) \<and> map packet_entry qs = es)"

lemma prints_fold:
  assumes "\<And>x. x \<in> set xs \<Longrightarrow> prints h x (e x)"
  shows "prints (foldE h) xs (concat (map e xs))"
  using assms
proof (induction xs)
  case (Cons x xs)
  have x: "prints h x (e x)" and xs: "prints (foldE h) xs (concat (map e xs))" using Cons by simp_all
  show ?case unfolding prints_def
  proof (intro allI)
    fix out i
    obtain qs where "h x (out, i) = Inr (out @ qs, i + length qs)" "map packet_entry qs = e x"
      using x unfolding prints_def by blast
    moreover obtain qs' where "foldE h xs (out @ qs, i + length qs) = Inr ((out @ qs) @ qs', (i + length qs) + length qs')"
      "map packet_entry qs' = concat (map e xs)" using xs unfolding prints_def by blast
    ultimately show "\<exists>qs. foldE h (x # xs) (out, i) = Inr (out @ qs, i + length qs) \<and> map packet_entry qs = concat (map e (x # xs))"
      by (intro exI [of _ "qs @ qs'"]) simp
  qed
qed (simp add: prints_def)

lemma gm_json_elem_prints:
  assumes "metrics_repr nm full S" "S p r f \<noteq> []"
  shows "prints (gm_json_elem full p r) (f, a) [outputs nm S ((p, r, f), a)]"
proof -
  obtain rs where rs: "map_of full p = Some rs"
    using map_repr_None [OF assms(1), of p] assms(2) by (cases "map_of full p") auto
  note inner = map_repr_Some [OF assms(1) rs]
  obtain fs where fs: "map_of rs r = Some fs"
    using assms(2) map_repr_None [OF inner, of r] by (cases "map_of rs r") auto
  note inner2 = map_repr_Some [OF inner fs]
  obtain b where b: "map_of fs f = Some b"
    using assms(2) map_repr_None [OF inner2, of f] by (cases "map_of fs f") auto
  have "b = am_value nm p r f (S p r f)" using map_repr_Some [OF inner2 b] by simp
  then show ?thesis using rs fs b by (simp add: prints_def gm_json_elem_def packet_entry_def)
qed

lemma gm_get_json_ok:
  assumes "metrics_repr nm (m_anomaly_metrics_full g) S" "metrics_repr nm (m_anomaly_metrics_recent g) R"
    and "\<forall>p r f. R p r f \<noteq> [] \<longrightarrow> S p r f \<noteq> []"
  shows "\<exists>out. gm_get_json next_id g = Inr (out, next_id + length out, g \<lparr> m_anomaly_metrics_recent := [] \<rparr>)
    \<and> map packet_entry out = map (outputs nm S) (flat3 (m_anomaly_metrics_recent g))"
proof -
  let ?full = "m_anomaly_metrics_full g" and ?rec = "m_anomaly_metrics_recent g"
  have elem: "S p r f \<noteq> []" if "(p, rs) \<in> set ?rec" "(r, fs) \<in> set rs" "(f, a) \<in> set fs" for p rs r fs f a
  proof -
    have "((p, r, f), a) \<in> set (flat3 ?rec)" using that by (fastforce simp: flat3_def)
    then show ?thesis using flat3_mem [OF assms(2)] assms(3) by blast
  qed
  have rank: "prints (gm_json_rank ?full p) (r, fs) (map (\<lambda>(f, a). outputs nm S ((p, r, f), a)) fs)"
    if "(p, rs) \<in> set ?rec" "(r, fs) \<in> set rs" for p rs r fs
  proof -
    have "prints (foldE (gm_json_elem ?full p r)) fs (concat (map (\<lambda>(f, a). [outputs nm S ((p, r, f), a)]) fs))"
      by (rule prints_fold) (use gm_json_elem_prints [OF assms(1)] elem [OF that] in auto)
    moreover have "concat (map (\<lambda>(f, a). [outputs nm S ((p, r, f), a)]) fs) = map (\<lambda>(f, a). outputs nm S ((p, r, f), a)) fs"
      by (induction fs) auto
    ultimately show ?thesis by (simp add: prints_def gm_json_rank_def)
  qed
  have prog: "prints (gm_json_program ?full) (p, rs) (concat (map (\<lambda>(r, fs). map (\<lambda>(f, a). outputs nm S ((p, r, f), a)) fs) rs))"
    if "(p, rs) \<in> set ?rec" for p rs
  proof -
    have "prints (foldE (gm_json_rank ?full p)) rs (concat (map (\<lambda>(r, fs). map (\<lambda>(f, a). outputs nm S ((p, r, f), a)) fs) rs))"
      by (rule prints_fold) (use rank [OF that] in auto)
    then show ?thesis by (simp add: prints_def gm_json_program_def)
  qed
  have "prints (foldE (gm_json_program ?full)) ?rec
      (concat (map (\<lambda>(p, rs). concat (map (\<lambda>(r, fs). map (\<lambda>(f, a). outputs nm S ((p, r, f), a)) fs) rs)) ?rec))"
    by (rule prints_fold) (use prog in auto)
  moreover have "concat (map (\<lambda>(p, rs). concat (map (\<lambda>(r, fs). map (\<lambda>(f, a). outputs nm S ((p, r, f), a)) fs) rs)) ?rec)
      = map (outputs nm S) (flat3 ?rec)"
    by (simp add: flat3_def map_concat comp_def case_prod_unfold)
  ultimately have p: "prints (foldE (gm_json_program ?full)) ?rec (map (outputs nm S) (flat3 ?rec))" by simp
  have "\<exists>qs. foldE (gm_json_program ?full) ?rec ([], next_id) = Inr ([] @ qs, next_id + length qs)
      \<and> map packet_entry qs = map (outputs nm S) (flat3 ?rec)" using p unfolding prints_def by blast
  then show ?thesis by (auto simp: gm_get_json_def)
qed

section \<open>Metrics of the server over time\<close>

type_synonym reported = "int \<Rightarrow> int \<Rightarrow> int \<Rightarrow> metrics_entry list"

text \<open>\<open>S\<close> are the reports since the start, \<open>R\<close> those since the last output.\<close>

fun gm_holds :: "func_naming \<Rightarrow> global_anomaly_metrics \<Rightarrow> reported \<times> reported \<Rightarrow> bool" where
  "gm_holds nm g (S, R) \<longleftrightarrow> metrics_repr nm (m_anomaly_metrics_full g) S
     \<and> metrics_repr nm (m_anomaly_metrics_recent g) R"

lemma gm_holds_new: "gm_holds nm new_GlobalAnomalyMetrics (\<lambda>_ _ _. [], \<lambda>_ _ _. [])"
  by (simp add: new_GlobalAnomalyMetrics_def map_repr_def)

lemma gm_merge_and_flush_ok:
  assumes "gm_holds nm g (S, R)" "gm_holds nm w (S', R')"
  shows "\<exists>g' w'. gm_merge_and_flush g w = Inr (g', w')
    \<and> gm_holds nm g' (\<lambda>p r f. S p r f @ S' p r f, \<lambda>p r f. R p r f @ R' p r f) \<and> gm_holds nm w' (S', \<lambda>_ _ _. [])"
proof -
  obtain m where m: "map_plus_equals (map_plus_equals (map_plus_equals am_plus)) (m_anomaly_metrics_full g) (m_anomaly_metrics_full w) = Inr m"
    "metrics_repr nm m (\<lambda>p r f. S p r f @ S' p r f)"
    using metrics_plus_ok [of nm "m_anomaly_metrics_full g" S "m_anomaly_metrics_full w" S'] assms by auto
  obtain n where n: "map_plus_equals (map_plus_equals (map_plus_equals am_plus)) (m_anomaly_metrics_recent g) (m_anomaly_metrics_recent w) = Inr n"
    "metrics_repr nm n (\<lambda>p r f. R p r f @ R' p r f)"
    using metrics_plus_ok [of nm "m_anomaly_metrics_recent g" R "m_anomaly_metrics_recent w" R'] assms by auto
  show ?thesis
    using m n assms(2) by (simp add: gm_merge_and_flush_def gm_plus_def) (simp add: map_repr_def)
qed

text \<open>The object holds these messages in the two maps.\<close>

abbreviation gm_messages ::
    "func_naming \<Rightarrow> global_anomaly_metrics \<Rightarrow> local_anomaly_metrics list \<Rightarrow> local_anomaly_metrics list \<Rightarrow> bool" where
  "gm_messages nm g F R \<equiv> gm_holds nm g (reports F, reports R)"

lemma gm_messages_new: "gm_messages nm new_GlobalAnomalyMetrics [] []"
  using gm_holds_new [of nm] by (simp add: reports_join)

lemma gm_messages_add:
  assumes "gm_messages nm g F R" "good_metrics nm d"
  shows "\<exists>g'. gm_add_full d g = Inr g' \<and> gm_messages nm g' (F @ [d]) R"
    and "\<exists>g'. gm_add_recent d g = Inr g' \<and> gm_messages nm g' F (R @ [d])"
  using gm_add_into_ok [of nm "m_anomaly_metrics_full g" "reports F" d]
    gm_add_into_ok [of nm "m_anomaly_metrics_recent g" "reports R" d] assms
  by (auto simp: gm_add_full_def gm_add_recent_def reports_join)

lemma gm_messages_merge:
  assumes "gm_messages nm g F R" "gm_messages nm w F' R'"
  shows "\<exists>g' w'. gm_merge_and_flush g w = Inr (g', w') \<and> gm_messages nm g' (F @ F') (R @ R') \<and> gm_messages nm w' F' []"
  using gm_merge_and_flush_ok [OF assms] by (simp add: reports_join)

text \<open>The output of an object that holds these messages.\<close>

definition metrics_output :: "func_naming \<Rightarrow> local_anomaly_metrics list \<Rightarrow> local_anomaly_metrics list \<Rightarrow> metrics_packet list \<Rightarrow> bool" where
  "metrics_output nm F R out \<longleftrightarrow> distinct (map (fst \<circ> packet_entry) out)
     \<and> set (map packet_entry out) = {((p, r, f), am_value nm p r f (reports R p r f), am_value nm p r f (reports F p r f))
         | p r f. reports R p r f \<noteq> []}"

lemma reports_set: "set R \<subseteq> set F \<Longrightarrow> set (reports R p r f) \<subseteq> set (reports F p r f)"
  by (fastforce simp: reports_def)

lemma gm_messages_output:
  assumes "gm_messages nm g F R" "set R \<subseteq> set F"
  shows "\<exists>out. gm_get_json next_id g = Inr (out, next_id + length out, g \<lparr> m_anomaly_metrics_recent := [] \<rparr>)
    \<and> metrics_output nm F R out"
proof -
  have full: "metrics_repr nm (m_anomaly_metrics_full g) (reports F)"
    and rec: "metrics_repr nm (m_anomaly_metrics_recent g) (reports R)" using assms(1) by simp_all
  have "\<forall>p r f. reports R p r f \<noteq> [] \<longrightarrow> reports F p r f \<noteq> []"
    using reports_set [OF assms(2)] by (metis set_empty subset_empty)
  from gm_get_json_ok [OF full rec this, of next_id] obtain out where
    o: "gm_get_json next_id g = Inr (out, next_id + length out, g \<lparr> m_anomaly_metrics_recent := [] \<rparr>)"
    "map packet_entry out = map (outputs nm (reports F)) (flat3 (m_anomaly_metrics_recent g))" by blast
  have keys: "map (fst \<circ> packet_entry) out = map fst (flat3 (m_anomaly_metrics_recent g))"
    using arg_cong [OF o(2), of "map fst"] by (simp add: comp_def case_prod_unfold)
  have "x \<in> set (flat3 (m_anomaly_metrics_recent g)) \<longleftrightarrow>
      (\<exists>p r f. x = ((p, r, f), am_value nm p r f (reports R p r f)) \<and> reports R p r f \<noteq> [])" for x
    using flat3_mem [OF rec, of "fst (fst x)" "fst (snd (fst x))" "snd (snd (fst x))" "snd x"] by (cases x) auto
  then have flat: "set (flat3 (m_anomaly_metrics_recent g)) =
      {x. \<exists>p r f. x = ((p, r, f), am_value nm p r f (reports R p r f)) \<and> reports R p r f \<noteq> []}"
    by (intro set_eqI) (simp only: mem_Collect_eq)
  have "set (map packet_entry out) = {((p, r, f), am_value nm p r f (reports R p r f), am_value nm p r f (reports F p r f))
        | p r f. reports R p r f \<noteq> []}"
    unfolding o(2) set_map flat by (auto simp: image_def)
  then show ?thesis using o(1) flat3_distinct [OF rec] keys by (simp add: metrics_output_def)
qed

text \<open>
  The server, one section under a mutex at a time: a worker adds a report to its map since the
  start and then, before it takes the next one, to its map since the last output; the sender
  merges and flushes one worker after the other and outputs the result. State: \<open>fs\<close> and \<open>rs\<close>
  the reports each of the \<open>n\<close> workers has in its two maps, \<open>ps\<close> the report each has in the first
  and not yet in the second, \<open>ws\<close> their objects, \<open>sent\<close> the reports output, and, during an
  output, the object that collects, the next worker to be merged, the reports that came with the
  workers merged so far, and those that were complete when the output began.
\<close>

type_synonym metrics_sender = "(global_anomaly_metrics \<times> nat \<times> local_anomaly_metrics list \<times> local_anomaly_metrics list \<times>
  local_anomaly_metrics list) option"

inductive metrics_run ::
    "nat \<Rightarrow> func_naming \<Rightarrow> local_anomaly_metrics list list \<Rightarrow> local_anomaly_metrics list list \<Rightarrow> local_anomaly_metrics option list \<Rightarrow>
     global_anomaly_metrics list \<Rightarrow> local_anomaly_metrics list \<Rightarrow> metrics_sender \<Rightarrow> bool" for n nm where
  start: "metrics_run n nm (replicate n []) (replicate n []) (replicate n None) (replicate n new_GlobalAnomalyMetrics) [] None"
| full: "metrics_run n nm fs rs ps ws sent sd \<Longrightarrow> i < n \<Longrightarrow> ps ! i = None \<Longrightarrow> good_metrics nm d \<Longrightarrow>
    gm_add_full d (ws ! i) = Inr w \<Longrightarrow> metrics_run n nm (fs[i := fs ! i @ [d]]) rs (ps[i := Some d]) (ws[i := w]) sent sd"
| recent: "metrics_run n nm fs rs ps ws sent sd \<Longrightarrow> i < n \<Longrightarrow> ps ! i = Some d \<Longrightarrow>
    gm_add_recent d (ws ! i) = Inr w \<Longrightarrow> metrics_run n nm fs (rs[i := rs ! i @ [d]]) (ps[i := None]) (ws[i := w]) sent sd"
| send: "metrics_run n nm fs rs ps ws sent None \<Longrightarrow>
    metrics_run n nm fs rs ps ws sent (Some (new_GlobalAnomalyMetrics, 0, [], [], sent @ concat rs))"
| merge: "metrics_run n nm fs rs ps ws sent (Some (comb, k, F, R, old)) \<Longrightarrow> k < n \<Longrightarrow>
    gm_merge_and_flush comb (ws ! k) = Inr (comb', w) \<Longrightarrow>
    metrics_run n nm fs (rs[k := []]) ps (ws[k := w]) sent (Some (comb', Suc k, F @ fs ! k, R @ rs ! k, old))"
| finish: "metrics_run n nm fs rs ps ws sent (Some (comb, n, F, R, old)) \<Longrightarrow>
    gm_get_json next_id comb = Inr (out, next_id', comb') \<Longrightarrow> metrics_run n nm fs rs ps ws (sent @ R) None"

text \<open>
  A worker's map of recent reports, with the report it is adding, is part of its map of all;
  each complete report is output, merged for the output, or waits with its worker.
\<close>

definition in_adding :: "local_anomaly_metrics option \<Rightarrow> local_anomaly_metrics list" where
  "in_adding p = (case p of None \<Rightarrow> [] | Some d \<Rightarrow> [d])"

lemma in_adding_simps [simp]: "in_adding None = []" "in_adding (Some d) = [d]"
  by (simp_all add: in_adding_def)

definition worker_accounted ::
    "func_naming \<Rightarrow> local_anomaly_metrics list \<Rightarrow> local_anomaly_metrics list \<Rightarrow> local_anomaly_metrics option \<Rightarrow> global_anomaly_metrics \<Rightarrow> bool" where
  "worker_accounted nm f r p w \<longleftrightarrow> gm_messages nm w f r \<and> mset (r @ in_adding p) \<subseteq># mset f \<and> (\<forall>d \<in> set f. good_metrics nm d)"

fun sender_taken :: "metrics_sender \<Rightarrow> local_anomaly_metrics list" where
  "sender_taken None = []"
| "sender_taken (Some (comb, k, F, R, old)) = R"

definition all_accounted :: "local_anomaly_metrics list list \<Rightarrow> local_anomaly_metrics list list \<Rightarrow> local_anomaly_metrics option list \<Rightarrow>
    local_anomaly_metrics list \<Rightarrow> metrics_sender \<Rightarrow> bool" where
  "all_accounted fs rs ps sent sd \<longleftrightarrow>
     mset (concat fs) = mset sent + mset (sender_taken sd) + mset (concat rs) + mset (concat (map in_adding ps))"

fun sender_accounted :: "nat \<Rightarrow> func_naming \<Rightarrow> local_anomaly_metrics list list \<Rightarrow> local_anomaly_metrics list list \<Rightarrow>
    local_anomaly_metrics list \<Rightarrow> metrics_sender \<Rightarrow> bool" where
  "sender_accounted n nm fs rs sent None \<longleftrightarrow> True"
| "sender_accounted n nm fs rs sent (Some (comb, k, F, R, old)) \<longleftrightarrow> k \<le> n \<and> gm_messages nm comb F R \<and> mset R \<subseteq># mset F
     \<and> mset F \<subseteq># mset (concat (take k fs))
     \<and> mset old \<subseteq># mset F + mset (concat (drop k fs))
     \<and> mset old \<subseteq># mset sent + mset R + mset (concat (drop k rs))"

definition metrics_accounted :: "nat \<Rightarrow> func_naming \<Rightarrow> local_anomaly_metrics list list \<Rightarrow> local_anomaly_metrics list list \<Rightarrow>
    local_anomaly_metrics option list \<Rightarrow> global_anomaly_metrics list \<Rightarrow> local_anomaly_metrics list \<Rightarrow> metrics_sender \<Rightarrow> bool" where
  "metrics_accounted n nm fs rs ps ws sent sd \<longleftrightarrow> length fs = n \<and> length rs = n \<and> length ps = n \<and> length ws = n
     \<and> (\<forall>i < n. worker_accounted nm (fs ! i) (rs ! i) (ps ! i) (ws ! i))
     \<and> all_accounted fs rs ps sent sd \<and> sender_accounted n nm fs rs sent sd"

text \<open>How much of nested lists an update at one place adds or takes.\<close>

lemma mset_concat_update: "i < length xs \<Longrightarrow> mset (concat (xs[i := y])) + mset (xs ! i) = mset (concat xs) + mset y"
  by (induction xs arbitrary: i) (auto simp: nth_Cons' less_Suc_eq_0_disj ac_simps)

lemma mset_concat_snoc: "i < length xs \<Longrightarrow> mset (concat (xs[i := xs ! i @ y])) = mset (concat xs) + mset y"
  using mset_concat_update [of i xs "xs ! i @ y"] by (simp add: ac_simps)

lemma mset_concat_more:
  assumes "i < length xs" "mset (xs ! i) \<subseteq># mset y"
  shows "mset (concat (take k xs)) \<subseteq># mset (concat (take k (xs[i := y])))"
    and "mset (concat (drop k xs)) \<subseteq># mset (concat (drop k (xs[i := y])))"
proof -
  have up: "mset (concat ys) \<subseteq># mset (concat (ys[j := y]))" if "j < length ys" "mset (ys ! j) \<subseteq># mset y" for ys and j
  proof -
    have "mset (concat ys) + mset (ys ! j) \<subseteq># mset (concat ys) + mset y" using that(2) by (rule subset_mset.add_left_mono)
    also have "\<dots> = mset (concat (ys[j := y])) + mset (ys ! j)" using mset_concat_update [OF that(1)] by simp
    finally show ?thesis by simp
  qed
  show "mset (concat (take k xs)) \<subseteq># mset (concat (take k (xs[i := y])))"
    using up [of i "take k xs"] assms by (cases "i < k") (simp_all add: take_update_swap list_update_beyond)
  show "mset (concat (drop k xs)) \<subseteq># mset (concat (drop k (xs[i := y])))"
    using up [of "i - k" "drop k xs"] assms by (cases "i < k") (simp_all add: drop_update_swap)
qed

lemma concat_drop_Suc: "k < length xs \<Longrightarrow> mset (concat (drop k xs)) = mset (xs ! k) + mset (concat (drop (Suc k) xs))"
  by (simp add: Cons_nth_drop_Suc [symmetric])

lemma concat_take_Suc: "k < length xs \<Longrightarrow> mset (concat (take (Suc k) xs)) = mset (concat (take k xs)) + mset (xs ! k)"
  by (simp add: take_Suc_conv_app_nth)

lemma sender_accounted_more:
  assumes "sender_accounted n nm fs rs sent sd" "i < length fs" "i < length rs"
    and "mset (fs ! i) \<subseteq># mset f" "mset (rs ! i) \<subseteq># mset r"
  shows "sender_accounted n nm (fs[i := f]) (rs[i := r]) sent sd"
proof (cases sd)
  case (Some s)
  obtain comb k F R old where s: "s = (comb, k, F, R, old)" by (cases s) auto
  have a: "mset F \<subseteq># mset (concat (take k (fs[i := f])))"
    using assms(1) mset_concat_more(1) [OF assms(2,4), of k] unfolding Some s sender_accounted.simps by (meson subset_mset.order_trans)
  have b: "mset F + mset (concat (drop k fs)) \<subseteq># mset F + mset (concat (drop k (fs[i := f])))"
    using mset_concat_more(2) [OF assms(2,4)] by (rule subset_mset.add_left_mono)
  have c: "mset sent + mset R + mset (concat (drop k rs)) \<subseteq># mset sent + mset R + mset (concat (drop k (rs[i := r])))"
    using mset_concat_more(2) [OF assms(3,5)] by (rule subset_mset.add_left_mono)
  show ?thesis using assms(1) a subset_mset.order_trans [OF _ b] subset_mset.order_trans [OF _ c]
    unfolding Some s sender_accounted.simps by blast
qed simp

lemma workers_update:
  assumes "\<forall>j < n. worker_accounted nm (fs ! j) (rs ! j) (ps ! j) (ws ! j)" "worker_accounted nm f r p w"
    and "length fs = n" "length rs = n" "length ps = n" "length ws = n"
  shows "\<forall>j < n. worker_accounted nm (fs[i := f] ! j) (rs[i := r] ! j) (ps[i := p] ! j) (ws[i := w] ! j)"
proof (intro allI impI)
  fix j assume "j < n"
  then show "worker_accounted nm (fs[i := f] ! j) (rs[i := r] ! j) (ps[i := p] ! j) (ws[i := w] ! j)"
    using assms by (cases "j = i") simp_all
qed

lemma accounted_full:
  assumes "metrics_accounted n nm fs rs ps ws sent sd" "i < n" "ps ! i = None" "good_metrics nm d"
  shows "\<exists>w. gm_add_full d (ws ! i) = Inr w \<and>
    metrics_accounted n nm (fs[i := fs ! i @ [d]]) rs (ps[i := Some d]) (ws[i := w]) sent sd"
proof -
  have len: "length fs = n" "length rs = n" "length ps = n" "length ws = n"
    and all: "\<forall>j < n. worker_accounted nm (fs ! j) (rs ! j) (ps ! j) (ws ! j)"
    and acc: "all_accounted fs rs ps sent sd" "sender_accounted n nm fs rs sent sd"
    using assms(1) unfolding metrics_accounted_def by blast+
  have one: "worker_accounted nm (fs ! i) (rs ! i) None (ws ! i)" using all assms(2,3) by metis
  obtain w where w: "gm_add_full d (ws ! i) = Inr w" "gm_messages nm w (fs ! i @ [d]) (rs ! i)"
    using gm_messages_add(1) [of nm "ws ! i" "fs ! i" "rs ! i" d] one assms(4) by (auto simp: worker_accounted_def)
  have "worker_accounted nm (fs ! i @ [d]) (rs ! i) (Some d) w"
    using w(2) one assms(4) by (simp add: worker_accounted_def)
  from workers_update [OF all this len, of i]
  have "\<forall>j < n. worker_accounted nm (fs[i := fs ! i @ [d]] ! j) (rs ! j) (ps[i := Some d] ! j) (ws[i := w] ! j)" by simp
  moreover have "all_accounted (fs[i := fs ! i @ [d]]) rs (ps[i := Some d]) sent sd"
    using acc(1) mset_concat_snoc [of i fs "[d]"] mset_concat_update [of i "map in_adding ps" "[d]"] assms(2,3) len
    by (simp add: all_accounted_def map_update)
  moreover have "sender_accounted n nm (fs[i := fs ! i @ [d]]) rs sent sd"
    using sender_accounted_more [OF acc(2), of i "fs ! i @ [d]" "rs ! i"] assms(2) len by simp
  ultimately show ?thesis using w(1) len by (simp add: metrics_accounted_def)
qed

lemma accounted_recent:
  assumes "metrics_accounted n nm fs rs ps ws sent sd" "i < n" "ps ! i = Some d"
  shows "\<exists>w. gm_add_recent d (ws ! i) = Inr w \<and>
    metrics_accounted n nm fs (rs[i := rs ! i @ [d]]) (ps[i := None]) (ws[i := w]) sent sd"
proof -
  have len: "length fs = n" "length rs = n" "length ps = n" "length ws = n"
    and all: "\<forall>j < n. worker_accounted nm (fs ! j) (rs ! j) (ps ! j) (ws ! j)"
    and acc: "all_accounted fs rs ps sent sd" "sender_accounted n nm fs rs sent sd"
    using assms(1) unfolding metrics_accounted_def by blast+
  have one: "worker_accounted nm (fs ! i) (rs ! i) (Some d) (ws ! i)" using all assms(2,3) by metis
  then have "d \<in># mset (fs ! i)" by (auto simp: worker_accounted_def dest: mset_subset_eqD)
  then have "good_metrics nm d" using one by (simp add: worker_accounted_def)
  then obtain w where w: "gm_add_recent d (ws ! i) = Inr w" "gm_messages nm w (fs ! i) (rs ! i @ [d])"
    using gm_messages_add(2) [of nm "ws ! i" "fs ! i" "rs ! i" d] one by (auto simp: worker_accounted_def)
  have "worker_accounted nm (fs ! i) (rs ! i @ [d]) None w" using w(2) one by (simp add: worker_accounted_def)
  from workers_update [OF all this len, of i]
  have "\<forall>j < n. worker_accounted nm (fs ! j) (rs[i := rs ! i @ [d]] ! j) (ps[i := None] ! j) (ws[i := w] ! j)" by simp
  moreover have "all_accounted fs (rs[i := rs ! i @ [d]]) (ps[i := None]) sent sd"
    using acc(1) mset_concat_snoc [of i rs "[d]"] mset_concat_update [of i "map in_adding ps" "[]"] assms(2,3) len
    by (simp add: all_accounted_def map_update)
  moreover have "sender_accounted n nm fs (rs[i := rs ! i @ [d]]) sent sd"
    using sender_accounted_more [OF acc(2), of i "fs ! i" "rs ! i @ [d]"] assms(2) len by simp
  ultimately show ?thesis using w(1) len by (simp add: metrics_accounted_def)
qed

lemma accounted_merge:
  assumes "metrics_accounted n nm fs rs ps ws sent (Some (comb, k, F, R, old))" "k < n"
  shows "\<exists>comb' w. gm_merge_and_flush comb (ws ! k) = Inr (comb', w) \<and>
    metrics_accounted n nm fs (rs[k := []]) ps (ws[k := w]) sent (Some (comb', Suc k, F @ fs ! k, R @ rs ! k, old))"
proof -
  have len: "length fs = n" "length rs = n" "length ps = n" "length ws = n"
    and all: "\<forall>j < n. worker_accounted nm (fs ! j) (rs ! j) (ps ! j) (ws ! j)"
    and acc: "all_accounted fs rs ps sent (Some (comb, k, F, R, old))"
    and sd: "gm_messages nm comb F R" "mset R \<subseteq># mset F" "mset F \<subseteq># mset (concat (take k fs))"
      "mset old \<subseteq># mset F + mset (concat (drop k fs))" "mset old \<subseteq># mset sent + mset R + mset (concat (drop k rs))"
    using assms(1) unfolding metrics_accounted_def sender_accounted.simps by blast+
  have one: "worker_accounted nm (fs ! k) (rs ! k) (ps ! k) (ws ! k)" using all assms(2) by blast
  obtain comb' w where m: "gm_merge_and_flush comb (ws ! k) = Inr (comb', w)"
    "gm_messages nm comb' (F @ fs ! k) (R @ rs ! k)" "gm_messages nm w (fs ! k) []"
    using gm_messages_merge [OF sd(1), of "ws ! k" "fs ! k" "rs ! k"] one unfolding worker_accounted_def by blast
  have sub: "mset (rs ! k) + mset (in_adding (ps ! k)) \<subseteq># mset (fs ! k)" using one by (simp add: worker_accounted_def)
  have subs: "mset (rs ! k) \<subseteq># mset (fs ! k)" "mset (in_adding (ps ! k)) \<subseteq># mset (fs ! k)"
    using sub by (metis subset_mset.add_le_same_cancel1 mset_subset_eq_add_left mset_subset_eq_add_right subset_mset.order_trans)+
  have "worker_accounted nm (fs ! k) [] (ps ! k) w" using m(3) one subs(2) by (simp add: worker_accounted_def)
  from workers_update [OF all this len, of k]
  have "\<forall>j < n. worker_accounted nm (fs ! j) (rs[k := []] ! j) (ps ! j) (ws[k := w] ! j)" by simp
  moreover have "all_accounted fs (rs[k := []]) ps sent (Some (comb', Suc k, F @ fs ! k, R @ rs ! k, old))"
    using acc mset_concat_update [of k rs "[]"] assms(2) len by (simp add: all_accounted_def ac_simps)
  moreover have "sender_accounted n nm fs (rs[k := []]) sent (Some (comb', Suc k, F @ fs ! k, R @ rs ! k, old))"
    using m(2) assms(2) sd(4,5) subset_mset.add_mono [OF sd(2) subs(1)] len
      subset_mset.add_right_mono [OF sd(3), of "mset (fs ! k)"] concat_take_Suc [of k fs]
      concat_drop_Suc [of k fs] concat_drop_Suc [of k rs]
    by (simp add: ac_simps)
  ultimately show ?thesis using m(1) len by (simp add: metrics_accounted_def)
qed

lemma metrics_run_accounted: "metrics_run n nm fs rs ps ws sent sd \<Longrightarrow> metrics_accounted n nm fs rs ps ws sent sd"
proof (induction rule: metrics_run.induct)
  case start
  have "concat (replicate n []) = ([] :: 'z list)" for n by (induction n) simp_all
  then show ?case using gm_messages_new [of nm]
    by (simp add: metrics_accounted_def worker_accounted_def all_accounted_def)
next
  case (full fs rs ps ws sent sd i d w)
  then show ?case using accounted_full [of n nm fs rs ps ws sent sd i d] by auto
next
  case (recent fs rs ps ws sent sd i d w)
  then show ?case using accounted_recent [of n nm fs rs ps ws sent sd i d] by auto
next
  case (send fs rs ps ws sent)
  have "mset (concat fs) = mset sent + mset (concat rs) + mset (concat (map in_adding ps))"
    using send.IH by (simp add: metrics_accounted_def all_accounted_def)
  then show ?case using send.IH gm_messages_new [of nm] by (simp add: metrics_accounted_def all_accounted_def)
next
  case (merge fs rs ps ws sent comb k F R old comb' w)
  then show ?case using accounted_merge [of n nm fs rs ps ws sent comb k F R old] by auto
next
  case (finish fs rs ps ws sent comb F R old next_id out next_id' comb')
  then show ?case by (simp add: metrics_accounted_def all_accounted_def ac_simps)
qed

text \<open>
  An addition or an output that nothing interrupts is a run of these steps: \<open>gm_add\<close> of the two
  additions, \<open>gm_send\<close> of the merges of all workers and the output.
\<close>

lemma gm_add_run:
  assumes "metrics_run n nm fs rs ps ws sent sd" "i < n" "ps ! i = None" "good_metrics nm d" "gm_add d (ws ! i) = Inr w"
  shows "metrics_run n nm (fs[i := fs ! i @ [d]]) (rs[i := rs ! i @ [d]]) ps (ws[i := w]) sent sd"
proof -
  have len: "length ps = n" "length ws = n"
    using metrics_run_accounted [OF assms(1)] by (simp_all add: metrics_accounted_def)
  obtain v where v: "gm_add_full d (ws ! i) = Inr v" "gm_add_recent d v = Inr w"
    using assms(5) by (auto simp: gm_add_def bind_simps)
  note r1 = metrics_run.full [OF assms(1-4) v(1)]
  have "ps[i := None] = ps" using list_update_id [of ps i] assms(3) by simp
  then show ?thesis using metrics_run.recent [OF r1 assms(2), of d w] v(2) assms(2) len by simp
qed

lemma merge_all_run:
  assumes "metrics_run n nm fs rs ps ws sent (Some (comb, k, F, R, old))"
    and "foldE gm_combine_step (drop k ws) (comb, take k ws) = Inr (comb', ws')"
  shows "metrics_run n nm fs (take k rs @ replicate (n - k) []) ps ws' sent
    (Some (comb', n, F @ concat (drop k fs), R @ concat (drop k rs), old))"
  using assms
proof (induction "n - k" arbitrary: rs ws comb k F R)
  case 0
  have "length fs = n" "length rs = n" "length ws = n" "k \<le> n"
    using metrics_run_accounted [OF 0(2)] by (simp_all add: metrics_accounted_def)
  with 0 show ?case by simp
next
  case (Suc m)
  have len: "length fs = n" "length rs = n" "length ws = n" and k: "k < n"
    using metrics_run_accounted [OF Suc(3)] Suc(2) by (simp_all add: metrics_accounted_def)
  have "drop k ws = ws ! k # drop (Suc k) ws" using k len by (simp add: Cons_nth_drop_Suc)
  then obtain c w where m: "gm_merge_and_flush comb (ws ! k) = Inr (c, w)"
    "foldE gm_combine_step (drop (Suc k) ws) (c, take k ws @ [w]) = Inr (comb', ws')"
    using Suc(4) by (auto simp: gm_combine_step_def bind_simps)
  note r = metrics_run.merge [OF Suc(3) k m(1)]
  have "foldE gm_combine_step (drop (Suc k) (ws[k := w])) (c, take (Suc k) (ws[k := w])) = Inr (comb', ws')"
    using m(2) k len by (simp add: take_Suc_conv_app_nth)
  from Suc(1) [OF _ r this] Suc(2) k len show ?case
    by (simp add: take_Suc_conv_app_nth Cons_nth_drop_Suc [symmetric] Suc_diff_Suc [symmetric])
qed

lemma gm_send_run:
  assumes "metrics_run n nm fs rs ps ws sent None" "gm_send next_id ws = Inr (out, next_id', ws')"
  shows "metrics_run n nm fs (replicate n []) ps ws' (sent @ concat rs) None"
proof -
  obtain comb c where m: "foldE gm_combine_step ws (new_GlobalAnomalyMetrics, []) = Inr (comb, ws')"
    "gm_get_json next_id comb = Inr (out, next_id', c)"
    using assms(2) by (auto simp: gm_send_def bind_simps)
  have "metrics_run n nm fs (take 0 rs @ replicate (n - 0) []) ps ws' sent
    (Some (comb, n, [] @ concat (drop 0 fs), [] @ concat (drop 0 rs), sent @ concat rs))"
    by (rule merge_all_run [OF metrics_run.send [OF assms(1)]]) (use m(1) in simp)
  then show ?thesis using metrics_run.finish [OF _ m(2)] by fastforce
qed

text \<open>
  C13. The server outputs its anomaly metrics while its workers add reports, one section under a
  mutex at a time. No step of it fails, so no lookup of the statistics since the start does. The
  output has one element for every function and rank with reports among those it takes, and no
  other, which holds the aggregate of exactly these reports and the aggregate of all reports the
  workers had when they were merged: at least those complete when the output began, and those it
  takes. Every report is taken by one output, or waits with its worker, or is being added; one that
  was complete when an output began has been taken once it ends.
\<close>

theorem metrics_output_correct:
  assumes "metrics_run n nm fs rs ps ws sent (Some (comb, k, F, R, old))"
  shows "(\<forall>i d. i < n \<and> ps ! i = None \<and> good_metrics nm d \<longrightarrow> (\<exists>w. gm_add_full d (ws ! i) = Inr w)) \<and>
    (\<forall>i d. i < n \<and> ps ! i = Some d \<longrightarrow> (\<exists>w. gm_add_recent d (ws ! i) = Inr w)) \<and>
    (k < n \<longrightarrow> (\<exists>comb' w. gm_merge_and_flush comb (ws ! k) = Inr (comb', w))) \<and>
    (k = n \<longrightarrow> (\<exists>out. gm_get_json next_id comb = Inr (out, next_id + length out, comb \<lparr> m_anomaly_metrics_recent := [] \<rparr>)
       \<and> metrics_output nm F R out) \<and>
       mset old \<subseteq># mset (sent @ R) \<and> mset old \<subseteq># mset F) \<and>
    mset R \<subseteq># mset F \<and> mset F \<subseteq># mset (concat fs) \<and>
    mset (concat fs) = mset (sent @ R) + mset (concat rs) + mset (concat (map in_adding ps))"
proof -
  note acc = metrics_run_accounted [OF assms]
  have len: "length fs = n" "length rs = n" and k: "k \<le> n"
    and sd: "gm_messages nm comb F R" "mset R \<subseteq># mset F" "mset F \<subseteq># mset (concat (take k fs))"
      "mset old \<subseteq># mset F + mset (concat (drop k fs))" "mset old \<subseteq># mset sent + mset R + mset (concat (drop k rs))"
    and all: "all_accounted fs rs ps sent (Some (comb, k, F, R, old))"
    using acc unfolding metrics_accounted_def sender_accounted.simps by blast+
  have "concat fs = concat (take k fs) @ concat (drop k fs)" by (metis append_take_drop_id concat_append)
  then have F: "mset F \<subseteq># mset (concat fs)" using sd(3) by (metis mset_append mset_subset_eq_add_left subset_mset.order_trans)
  have "set R \<subseteq> set F" using sd(2) set_mset_mono by fastforce
  from gm_messages_output [OF sd(1) this]
  have out: "\<exists>out. gm_get_json next_id comb = Inr (out, next_id + length out, comb \<lparr> m_anomaly_metrics_recent := [] \<rparr>)
    \<and> metrics_output nm F R out" by blast
  have complete: "mset old \<subseteq># mset (sent @ R) \<and> mset old \<subseteq># mset F" if "k = n" using sd(4,5) that len by simp
  have "\<forall>i d. i < n \<and> ps ! i = None \<and> good_metrics nm d \<longrightarrow> (\<exists>w. gm_add_full d (ws ! i) = Inr w)"
    using accounted_full [OF acc] by blast
  moreover have "\<forall>i d. i < n \<and> ps ! i = Some d \<longrightarrow> (\<exists>w. gm_add_recent d (ws ! i) = Inr w)"
    using accounted_recent [OF acc] by blast
  moreover have "k < n \<longrightarrow> (\<exists>comb' w. gm_merge_and_flush comb (ws ! k) = Inr (comb', w))"
    using accounted_merge [OF acc] by blast
  moreover have "mset (concat fs) = mset (sent @ R) + mset (concat rs) + mset (concat (map in_adding ps))"
    using all by (simp add: all_accounted_def)
  ultimately show ?thesis using out complete sd(2) F by blast
qed

text \<open>
  A worker has a report complete and adds another one of the same function: the output takes the
  first, and its aggregate since the start is of both.
\<close>

definition ex_report :: local_anomaly_metrics where
  "ex_report = \<lparr> lm_app = 1, lm_rank = 2, lm_step = 3, lm_first_event_ts = 10, lm_last_event_ts = 20,
     lm_func_anom_metrics = [(7, (new_FuncAnomalyMetrics 7 ''f'') \<lparr> fm_score := push_all [5] (new_RunStats True),
       fm_severity := push_all [8] (new_RunStats True), fm_count := 1 \<rparr>)] \<rparr>"

lemma ex_good: "good_metrics (\<lambda>_ _. ''f'') ex_report"
  using solid_push_all(1) [of "[5]" True] solid_push_all(1) [of "[8]" True]
  by (simp add: good_metrics_def ex_report_def good_entry_def entry_of_def new_FuncAnomalyMetrics_def)

lemma ex_run:
  "\<exists>w comb. metrics_run 1 (\<lambda>_ _. ''f'') [[ex_report, ex_report]] [[]] [Some ex_report] [w] []
     (Some (comb, 1, [ex_report, ex_report], [ex_report], [ex_report]))"
proof -
  let ?d = ex_report and ?nm = "\<lambda>_ _. ''f''"
  have r0: "metrics_run 1 ?nm [[]] [[]] [None] [new_GlobalAnomalyMetrics] [] None"
    using metrics_run.start [of 1 ?nm] by simp
  obtain w1 where w1: "gm_add_full ?d new_GlobalAnomalyMetrics = Inr w1"
    using accounted_full [OF metrics_run_accounted [OF r0], of 0, OF _ _ ex_good] by auto
  have r1: "metrics_run 1 ?nm [[?d]] [[]] [Some ?d] [w1] [] None"
    using metrics_run.full [OF r0, of 0 ?d w1] ex_good w1 by simp
  obtain w2 where w2: "gm_add_recent ?d w1 = Inr w2"
    using accounted_recent [OF metrics_run_accounted [OF r1], of 0 ?d] by auto
  have r2: "metrics_run 1 ?nm [[?d]] [[?d]] [None] [w2] [] None"
    using metrics_run.recent [OF r1, of 0 ?d w2] w2 by simp
  have r3: "metrics_run 1 ?nm [[?d]] [[?d]] [None] [w2] [] (Some (new_GlobalAnomalyMetrics, 0, [], [], [?d]))"
    using metrics_run.send [OF r2] by simp
  obtain w4 where w4: "gm_add_full ?d w2 = Inr w4"
    using accounted_full [OF metrics_run_accounted [OF r3], of 0, OF _ _ ex_good] by auto
  have r4: "metrics_run 1 ?nm [[?d, ?d]] [[?d]] [Some ?d] [w4] [] (Some (new_GlobalAnomalyMetrics, 0, [], [], [?d]))"
    using metrics_run.full [OF r3, of 0 ?d w4] ex_good w4 by simp
  obtain comb w5 where m: "gm_merge_and_flush new_GlobalAnomalyMetrics w4 = Inr (comb, w5)"
    using accounted_merge [OF metrics_run_accounted [OF r4]] by auto
  have "metrics_run 1 ?nm [[?d, ?d]] [[]] [Some ?d] [w5] [] (Some (comb, 1, [?d, ?d], [?d], [?d]))"
    using metrics_run.merge [OF r4, of comb w5] m by simp
  then show ?thesis by blast
qed

theorem metrics_output_correct_witness:
  "\<exists>ws comb out q. metrics_run 1 (\<lambda>_ _. ''f'') [[ex_report, ex_report]] [[]] [Some ex_report] ws []
      (Some (comb, 1, [ex_report, ex_report], [ex_report], [ex_report]))
    \<and> gm_get_json 0 comb = Inr (out, length out, comb \<lparr> m_anomaly_metrics_recent := [] \<rparr>) \<and> q \<in> set out
    \<and> mp_app q = 1 \<and> mp_rank q = 2 \<and> mp_fid q = 7 \<and> m_count (am_count (mp_new_data q)) = 1 \<and> m_count (am_count (mp_all_data q)) = 2"
proof -
  let ?nm = "\<lambda>_ _. ''f''" and ?d = ex_report
  obtain w comb where run: "metrics_run 1 ?nm [[?d, ?d]] [[]] [Some ?d] [w] [] (Some (comb, 1, [?d, ?d], [?d], [?d]))"
    using ex_run by blast
  obtain out where o: "gm_get_json 0 comb = Inr (out, 0 + length out, comb \<lparr> m_anomaly_metrics_recent := [] \<rparr>)"
    "metrics_output ?nm [?d, ?d] [?d] out"
    using metrics_output_correct [OF run, of 0] by auto
  let ?a = "am_value ?nm 1 2 7 (reports [?d] 1 2 7)" and ?b = "am_value ?nm 1 2 7 (reports [?d, ?d] 1 2 7)"
  have r: "reports [?d] 1 2 7 = [entry_of ?d (snd (hd (lm_func_anom_metrics ?d)))]"
    "length (reports [?d, ?d] 1 2 7) = 2" by (simp_all add: reports_def ex_report_def)
  then have "((1, 2, 7), ?a, ?b) \<in> set (map packet_entry out)" using o(2) unfolding metrics_output_def
    by (elim conjE) (simp only:, intro CollectI exI [of _ 1] exI [of _ 2] exI [of _ 7], simp)
  then obtain q where "q \<in> set out" "packet_entry q = ((1, 2, 7), ?a, ?b)" by auto
  moreover have "m_count (am_count ?a) = 1" "m_count (am_count ?b) = 2"
    using r by (simp_all add: am_value_def push_all_count)
  ultimately show ?thesis using run o(1)
    by (intro exI [of _ "[w]"] exI [of _ comb] exI [of _ out] exI [of _ q]) (simp add: packet_entry_def)
qed

section \<open>Counter statistics\<close>

definition gc_repr :: "(unit \<times> u64) \<times> string \<Rightarrow> run_stats \<Rightarrow> run_stats list \<Rightarrow> bool" where
  "gc_repr k a s \<longleftrightarrow> s \<noteq> [] \<and> (\<forall>r \<in> set s. tidy r) \<and> a = pooled False s"

lemma gc_plus_ok: "gc_repr k a s \<Longrightarrow> gc_repr k b t \<Longrightarrow> \<exists>c. Inr (plus_assign a b) = (Inr c :: run_stats res) \<and> gc_repr k c (s @ t)"
  using pooled_combine [of s t False False] by (auto simp: plus_assign_def gc_repr_def)

interpretation gc: mergeable_values "\<lambda>a b. Inr (plus_assign a b)" gc_repr "(@)" "[]"
  by unfold_locales (use gc_plus_ok in \<open>auto\<close>)

interpretation gc_maps: mergeable_values "map_plus_equals (\<lambda>a b. Inr (plus_assign a b))" "map_repr gc_repr []"
  "\<lambda>f g j. f j @ g j" "\<lambda>_. []"
  by unfold_locales

abbreviation "counters_repr \<equiv> map_repr (map_repr gc_repr []) (\<lambda>_. []) ()"

definition good_counters :: "local_counter_statistics \<Rightarrow> bool" where
  "good_counters d \<longleftrightarrow> (\<forall>(name, r) \<in> set (lc_stats d). tidy r)"

definition counted :: "local_counter_statistics list \<Rightarrow> u64 \<Rightarrow> string \<Rightarrow> run_stats list" where
  "counted ms pid name = concat (map (\<lambda>d. if lc_program_idx d = pid then [snd x. x \<leftarrow> lc_stats d, fst x = name] else []) ms)"

lemma counted_append: "counted (ms @ ms') p n = counted ms p n @ counted ms' p n"
  by (simp add: counted_def)

lemma add_counter_stats_ok:
  assumes "map_repr gc_repr [] k m F" "\<forall>(name, r) \<in> set cs. tidy r"
  shows "map_repr gc_repr [] k (fold add_counter_stats cs m) (\<lambda>n. F n @ [snd x. x \<leftarrow> cs, fst x = n])"
  using assms
proof (induction cs arbitrary: m F)
  case (Cons c cs)
  obtain n r where c: "c = (n, r)" by force
  have val: "al_get (new_RunStats False) m n = pooled False (F n) \<and> (\<forall>r \<in> set (F n). tidy r)"
  proof (cases "map_of m n")
    case None
    then show ?thesis using map_repr_None [OF Cons.prems(1) None] by (simp add: al_get_def)
  next
    case (Some a)
    then show ?thesis using map_repr_Some [OF Cons.prems(1) Some] by (simp add: al_get_def gc_repr_def)
  qed
  have t: "tidy r" using Cons.prems(2) c by simp
  then have "gc_repr (k, n) (combine (pooled False (F n)) r) (F n @ [r])"
    using val pooled_snoc [of "F n" r False] by (auto simp: gc_repr_def)
  from map_repr_update [OF Cons.prems(1), OF this] have
    "map_repr gc_repr [] k (add_counter_stats c m) (F(n := F n @ [r]))"
    using val by (simp add: add_counter_stats_def c plus_assign_def)
  from Cons.IH [OF this] Cons.prems(2) have
    "map_repr gc_repr [] k (fold add_counter_stats (c # cs) m) (\<lambda>i. (F(n := F n @ [r])) i @ [snd x. x \<leftarrow> cs, fst x = i])" by simp
  moreover have "(\<lambda>i. (F(n := F n @ [r])) i @ [snd x. x \<leftarrow> cs, fst x = i]) = (\<lambda>i. F i @ [snd x. x \<leftarrow> c # cs, fst x = i])"
    by (auto simp: c)
  ultimately show ?case by simp
qed simp

lemma add_counter_data_ok:
  assumes "counters_repr (m_counter_stats g) F" "good_counters d"
  shows "counters_repr (m_counter_stats (add_counter_data d g)) (\<lambda>p n. F p n @ counted [d] p n)"
proof -
  let ?p = "lc_program_idx d"
  note inner = map_repr_get [OF assms(1), of ?p]
  have "map_repr gc_repr [] ((), ?p) (fold add_counter_stats (lc_stats d) (al_get [] (m_counter_stats g) ?p))
      (\<lambda>n. F ?p n @ [snd x. x \<leftarrow> lc_stats d, fst x = n])"
    using add_counter_stats_ok [OF inner] assms(2) by (simp add: good_counters_def)
  note map_repr_update [OF assms(1), OF this]
  moreover have "F(?p := \<lambda>n. F ?p n @ [snd x. x \<leftarrow> lc_stats d, fst x = n]) = (\<lambda>p n. F p n @ counted [d] p n)"
    by (intro ext) (auto simp: counted_def)
  ultimately show ?thesis by (simp add: add_counter_data_def)
qed

definition counter_worker :: "local_counter_statistics list \<Rightarrow> global_counter_stats" where
  "counter_worker ms = fold add_counter_data ms new_GlobalCounterStats"

lemma counter_worker_ok:
  assumes "\<forall>d \<in> set ms. good_counters d"
  shows "counters_repr (m_counter_stats (counter_worker ms)) (counted ms)"
proof -
  have "counters_repr (m_counter_stats (fold add_counter_data ms g)) (\<lambda>p n. F p n @ counted ms p n)"
    if "counters_repr (m_counter_stats g) F" for g F
    using that assms
  proof (induction ms arbitrary: g F)
    case Nil
    then show ?case by (simp add: counted_def)
  next
    case (Cons d ms)
    have d: "good_counters d" "\<forall>d \<in> set ms. good_counters d" using Cons.prems(2) by simp_all
    have "(F p n @ counted [d] p n) @ counted ms p n = F p n @ counted (d # ms) p n" for p n
      by (simp add: counted_def)
    with Cons.IH [OF add_counter_data_ok [OF Cons.prems(1) d(1)] d(2)] show ?case by simp
  qed
  from this [of new_GlobalCounterStats "\<lambda>_ _. []"] show ?thesis
    by (simp add: counter_worker_def new_GlobalCounterStats_def map_repr_def)
qed

lemma gc_plus_all:
  assumes "\<forall>ms \<in> set mss. \<forall>d \<in> set ms. good_counters d" "counters_repr (m_counter_stats g) F"
  shows "\<exists>h. foldE (\<lambda>r comb. gc_plus comb r) (map counter_worker mss) g = Inr h
    \<and> counters_repr (m_counter_stats h) (\<lambda>p n. F p n @ counted (concat mss) p n)"
  using assms
proof (induction mss arbitrary: g F)
  case Nil
  then show ?case by (simp add: counted_def)
next
  case (Cons ms mss)
  have "counters_repr (m_counter_stats (counter_worker ms)) (counted ms)" using counter_worker_ok Cons.prems(1) by simp
  from gc_maps.map_plus_ok [OF Cons.prems(2) this] obtain m where
    m: "map_plus_equals (map_plus_equals (\<lambda>a b. Inr (plus_assign a b))) (m_counter_stats g) (m_counter_stats (counter_worker ms)) = Inr m"
    "counters_repr m (\<lambda>p n. F p n @ counted ms p n)" by blast
  have "counters_repr (m_counter_stats (g \<lparr> m_counter_stats := m \<rparr>)) (\<lambda>p n. F p n @ counted ms p n)" using m(2) by simp
  from Cons.IH [OF _ this] Cons.prems(1) show ?case using m(1) by (auto simp: gc_plus_def counted_append)
qed

text \<open>
  The counter statistics the server outputs are, for every program and counter some message
  reported, and no other, the pool of all these reports, whichever workers received them.
\<close>

lemma counter_output_correct:
  assumes "\<forall>ms \<in> set mss. \<forall>d \<in> set ms. good_counters d"
  shows "\<exists>out. gc_send (map counter_worker mss) = Inr out
    \<and> set out = {(p, n, pooled False (counted (concat mss) p n)) | p n. counted (concat mss) p n \<noteq> []}"
proof -
  let ?C = "counted (concat mss)"
  obtain h where h: "foldE (\<lambda>r comb. gc_plus comb r) (map counter_worker mss) new_GlobalCounterStats = Inr h"
    "counters_repr (m_counter_stats h) ?C"
    using gc_plus_all [OF assms, of new_GlobalCounterStats "\<lambda>_ _. []"]
    by (auto simp: new_GlobalCounterStats_def map_repr_def)
  have "(p, n, a) \<in> set (gc_get_json_state h) \<longleftrightarrow> a = pooled False (?C p n) \<and> ?C p n \<noteq> []" for p n a
  proof
    assume "(p, n, a) \<in> set (gc_get_json_state h)"
    then obtain cs where "(p, cs) \<in> set (m_counter_stats h)" "(n, a) \<in> set cs" by (auto simp: gc_get_json_state_def)
    then show "a = pooled False (?C p n) \<and> ?C p n \<noteq> []" using map_repr_mem [OF map_repr_mem [OF h(2)]] by (simp add: gc_repr_def)
  next
    assume R: "a = pooled False (?C p n) \<and> ?C p n \<noteq> []"
    then obtain cs where cs: "map_of (m_counter_stats h) p = Some cs"
      using map_repr_None [OF h(2), of p] by (cases "map_of (m_counter_stats h) p") auto
    note inner = map_repr_Some [OF h(2) cs]
    obtain b where b: "map_of cs n = Some b" using R map_repr_None [OF inner, of n] by (cases "map_of cs n") auto
    have "b = a" using map_repr_Some [OF inner b] R by (simp add: gc_repr_def)
    with map_of_SomeD [OF cs] map_of_SomeD [OF b] show "(p, n, a) \<in> set (gc_get_json_state h)"
      by (fastforce simp: gc_get_json_state_def)
  qed
  then have "set (gc_get_json_state h) = {(p, n, pooled False (?C p n)) | p n. ?C p n \<noteq> []}"
    by (auto simp del: concat_eq_Nil_conv)
  with h(1) show ?thesis by (simp add: gc_send_def)
qed

lemma counter_output_correct_witness:
  fixes d
  defines "d \<equiv> \<lambda>x. \<lparr> lc_program_idx = 1, lc_step = 0, lc_which_counter = None,
     lc_stats = [(''c'', push_all [x] (new_RunStats False))] \<rparr>"
  shows "\<exists>out a. gc_send (map counter_worker [[d 4], [d 6]]) = Inr out \<and> (1, ''c'', a) \<in> set out \<and> m_count a = 2"
proof -
  have good: "\<forall>ms \<in> set [[d 4], [d 6]]. \<forall>d \<in> set ms. good_counters d"
    using solid_push_all(1) [of "[4]" False] solid_push_all(1) [of "[6]" False]
    by (simp add: d_def good_counters_def solid_tidy)
  obtain out where o: "gc_send (map counter_worker [[d 4], [d 6]]) = Inr out"
    "set out = {(p, n, pooled False (counted (concat [[d 4], [d 6]]) p n)) | p n. counted (concat [[d 4], [d 6]]) p n \<noteq> []}"
    using counter_output_correct [OF good] by (elim exE conjE) (rule that)
  have c: "counted (concat [[d 4], [d 6]]) 1 ''c'' = [push_all [4] (new_RunStats False), push_all [6] (new_RunStats False)]"
    by (simp add: counted_def d_def)
  have "(1, ''c'', pooled False (counted (concat [[d 4], [d 6]]) 1 ''c'')) \<in> set out" unfolding o(2)
    by (intro CollectI exI [of _ 1] exI [of _ "''c''"]) (simp only: c, simp)
  moreover have "m_count (pooled False (counted (concat [[d 4], [d 6]]) 1 ''c'')) = 2"
    unfolding c by (simp add: pooled_count push_all_count)
  ultimately show ?thesis using o(1) by blast
qed

end
