(* ===== verification/CounterStep.thy ===== *)
theory CounterStep
  imports Buckets EventManager
begin

text \<open>
  The counters of a step (\<open>ADCounter.cpp\<close>): lists of counter events per thread, and two indices
  of iterators into these lists, by time stamp and by counter. As in the event manager the list
  elements live in a store and an iterator is an address. The lists a flush returns are owned by
  the caller, which deletes them. An operation that throws returns the error together with the
  state it leaves.
\<close>

record ad_counter =
  ct_counterMap :: "(int \<rightharpoonup> string) option"
  ct_counters :: "(prt \<times> addr list) list option"
  ct_timestampMap :: "(prt \<times> (u64 \<times> addr list) list) list"
  ct_byIdx :: "(u64 \<times> addr list) list"
  ct_store :: "addr \<rightharpoonup> counter_data"
  ct_next :: addr

definition new_ADCounter :: ad_counter where
  "new_ADCounter = \<lparr> ct_counterMap = None, ct_counters = None, ct_timestampMap = [], ct_byIdx = [],
     ct_store = Map.empty, ct_next = 0 \<rparr>"

definition counter_linkCounterMap :: "(int \<rightharpoonup> string) \<Rightarrow> ad_counter \<Rightarrow> ad_counter" where
  "counter_linkCounterMap m ct = ct \<lparr> ct_counterMap := Some m \<rparr>"

definition recreate_list :: "ad_counter \<Rightarrow> ad_counter" where
  "recreate_list ct =
     (case ct_counters ct of None \<Rightarrow> ct \<lparr> ct_counters := Some [] \<rparr> | Some _ \<Rightarrow> ct)"

definition file_counter :: "prt \<Rightarrow> u64 \<Rightarrow> u64 \<Rightarrow> counter_data \<Rightarrow> ad_counter \<Rightarrow> ad_counter" where
  "file_counter k ts cid c ct =
     (let a = ct_next ct; m0 = (case ct_counters ct of None \<Rightarrow> [] | Some m \<Rightarrow> m) in
      ct \<lparr> ct_counters := Some (AList.update k (al_get [] m0 k @ [a]) m0),
           ct_timestampMap :=
             AList.update k (bucket_insert ts a (al_get [] (ct_timestampMap ct) k)) (ct_timestampMap ct),
           ct_byIdx := bucket_insert cid a (ct_byIdx ct),
           ct_store := (ct_store ct)(a \<mapsto> c), ct_next := Suc a \<rparr>)"

definition addCounter_event :: "event_t \<Rightarrow> ad_counter \<Rightarrow> unit res \<times> ad_counter" where
  "addCounter_event ev ct =
     (case ct_counterMap ct of
        None \<Rightarrow> (Inl (Fatal ''Counter mapping not linked''), ct)
      | Some names \<Rightarrow>
          let ct1 = recreate_list ct in
          (case ev_counter_id ev of
             Inl e \<Rightarrow> (Inl e, ct1)
           | Inr cid \<Rightarrow>
               (case names (to_i32 cid) of
                  None \<Rightarrow> (Inl (Fatal ''Counter index could not be found in map''), ct1)
                | Some name \<Rightarrow>
                    (case new_CounterData ev name of
                       Inl e \<Rightarrow> (Inl e, ct1)
                     | Inr c \<Rightarrow> (Inr (), file_counter (prt_of ev) (ev_ts ev) cid c ct1)))))"

definition ct_prt :: "counter_data \<Rightarrow> prt" where
  "ct_prt c = (ct_pid c, ct_rid c, ct_tid c)"

definition check_name :: "counter_data \<Rightarrow> ad_counter \<Rightarrow> unit res" where
  "check_name c ct =
     (case ct_counterMap ct of
        None \<Rightarrow> Inr ()
      | Some names \<Rightarrow>
          (case names (to_i32 (m_cid c)) of
             None \<Rightarrow> Inl (Fatal ''Counter index could not be found in map'')
           | Some name \<Rightarrow> guard (Fatal ''Counter name does not match the name in the index map'')
                            (name = m_countername c)))"

definition addCounter_data :: "counter_data \<Rightarrow> ad_counter \<Rightarrow> unit res \<times> ad_counter" where
  "addCounter_data c ct =
     (case check_name c ct of
        Inl e \<Rightarrow> (Inl e, ct)
      | Inr _ \<Rightarrow> (Inr (), file_counter (ct_prt c) (ct_ts c) (m_cid c) c (recreate_list ct)))"

definition flushCounters :: "ad_counter \<Rightarrow> (prt \<times> addr list) list option \<times> ad_counter" where
  "flushCounters ct = (ct_counters ct, ct \<lparr> ct_counters := None, ct_timestampMap := [], ct_byIdx := [] \<rparr>)"

definition delete_counters :: "(prt \<times> addr list) list option \<Rightarrow> ad_counter \<Rightarrow> ad_counter" where
  "delete_counters flushed ct =
     (case flushed of None \<Rightarrow> ct
      | Some m \<Rightarrow> ct \<lparr> ct_store := (\<lambda>a. if list_ex (\<lambda>(k, as). a \<in> set as) m then None else ct_store ct a) \<rparr>)"

definition counter_deref :: "ad_counter \<Rightarrow> addr \<Rightarrow> counter_data res" where
  "counter_deref ct a = (case ct_store ct a of None \<Rightarrow> Inl (Dangling a) | Some c \<Rightarrow> Inr c)"

text \<open>
  \<open>getCountersInWindow\<close>: the iterators between \<open>lower_bound\<close> and \<open>upper_bound\<close> of the ordered map.
\<close>

definition lower_bound :: "u64 \<Rightarrow> (u64 \<times> addr list) list \<Rightarrow> nat" where
  "lower_bound t m = length (takeWhile (\<lambda>(k, _). k < t) m)"

definition upper_bound :: "u64 \<Rightarrow> (u64 \<times> addr list) list \<Rightarrow> nat" where
  "upper_bound t m = length (takeWhile (\<lambda>(k, _). k \<le> t) m)"

definition getCountersInWindow :: "prt \<Rightarrow> u64 \<Rightarrow> u64 \<Rightarrow> ad_counter \<Rightarrow> addr list res" where
  "getCountersInWindow k t_start t_end ct =
     (if t_end < t_start then Inl (RuntimeError ''ADCounter::getCountersInWindow t_end must be >= t_start'')
      else case map_of (ct_timestampMap ct) k of
        None \<Rightarrow> Inr []
      | Some m \<Rightarrow>
          let start = lower_bound t_start m; end = upper_bound t_end m in
          if start = length m then Inr []
          else Inr (concat (map snd (take (end - start) (drop start m)))))"

text \<open>The index by counter as its readers see it, each iterator followed.\<close>

fun deref_all :: "ad_counter \<Rightarrow> addr list \<Rightarrow> counter_data list res" where
  "deref_all ct [] = Inr []"
| "deref_all ct (a # as) = bind (counter_deref ct a) (\<lambda>c. bind (deref_all ct as) (\<lambda>cs. Inr (c # cs)))"

fun index_values :: "ad_counter \<Rightarrow> (u64 \<times> addr list) list \<Rightarrow> (u64 \<times> counter_data list) list res" where
  "index_values ct [] = Inr []"
| "index_values ct ((i, as) # m) =
     bind (deref_all ct as) (\<lambda>cs. bind (index_values ct m) (\<lambda>r. Inr ((i, cs) # r)))"

definition getCountersByIndex :: "ad_counter \<Rightarrow> (u64 \<times> counter_data list) list res" where
  "getCountersByIndex ct = index_values ct (ct_byIdx ct)"

end
