(* ===== verification/CounterProps.thy ===== *)
theory CounterProps
  imports CounterStep LocalStats
begin

text \<open>
  What the counter manager answers: \<open>counter_reach ct cs\<close> says that \<open>cs\<close> are the counters \<open>ct\<close>
  accepted since the last flush, in order of arrival.
\<close>

inductive counter_reach :: "ad_counter \<Rightarrow> counter_data list \<Rightarrow> bool" where
  new: "counter_reach new_ADCounter []"
| link: "counter_reach ct cs \<Longrightarrow> counter_reach (counter_linkCounterMap names ct) cs"
| event: "counter_reach ct cs \<Longrightarrow> ct_counterMap ct = Some names \<Longrightarrow>
    names (to_i32 (m_data ev ! COUNTER_IDX_ID)) = Some name \<Longrightarrow> new_CounterData ev name = Inr c \<Longrightarrow>
    addCounter_event ev ct = (Inr (), ct') \<Longrightarrow> counter_reach ct' (cs @ [c])"
| event_fails: "counter_reach ct cs \<Longrightarrow> addCounter_event ev ct = (Inl e, ct') \<Longrightarrow> counter_reach ct' cs"
| data: "counter_reach ct cs \<Longrightarrow> addCounter_data c ct = (Inr (), ct') \<Longrightarrow> counter_reach ct' (cs @ [c])"
| data_fails: "counter_reach ct cs \<Longrightarrow> addCounter_data c ct = (Inl e, ct') \<Longrightarrow> counter_reach ct' cs"
| flush: "counter_reach ct cs \<Longrightarrow> flushCounters ct = (flushed, ct') \<Longrightarrow>
    counter_reach (delete_counters flushed ct') []"

subsection \<open>The invariant\<close>

definition filed :: "(counter_data \<Rightarrow> u64) \<Rightarrow> (addr \<rightharpoonup> counter_data) \<Rightarrow> addr list \<Rightarrow> (u64 \<times> addr list) list" where
  "filed f st as = foldl (\<lambda>m a. bucket_insert (f (the (st a))) a m) [] as"

definition of_prt :: "(addr \<rightharpoonup> counter_data) \<Rightarrow> prt \<Rightarrow> addr list \<Rightarrow> addr list" where
  "of_prt st k as = filter (\<lambda>a. ct_prt (the (st a)) = k) as"

definition lists_of :: "ad_counter \<Rightarrow> (prt \<times> addr list) list" where
  "lists_of ct = (case ct_counters ct of None \<Rightarrow> [] | Some m \<Rightarrow> m)"

definition counter_inv :: "ad_counter \<Rightarrow> addr list \<Rightarrow> counter_data list \<Rightarrow> bool" where
  "counter_inv ct as cs \<longleftrightarrow> map (ct_store ct) as = map Some cs \<and> distinct as \<and> (\<forall>a \<in> set as. a < ct_next ct) \<and>
     distinct (map fst (lists_of ct)) \<and>
     (\<forall>k. al_get [] (lists_of ct) k = of_prt (ct_store ct) k as) \<and>
     (\<forall>k. map_of (ct_timestampMap ct) k =
        (if of_prt (ct_store ct) k as = [] then None else Some (filed ct_ts (ct_store ct) (of_prt (ct_store ct) k as)))) \<and>
     ct_byIdx ct = filed m_cid (ct_store ct) as"

lemma filed_cong: "(\<And>a. a \<in> set as \<Longrightarrow> st a = st' a) \<Longrightarrow> filed f st as = filed f st' as"
  unfolding filed_def by (rule foldl_cong) auto

lemma of_prt_cong: "(\<And>a. a \<in> set as \<Longrightarrow> st a = st' a) \<Longrightarrow> of_prt st k as = of_prt st' k as"
  unfolding of_prt_def by (rule filter_cong) auto

lemma of_prt_set: "a \<in> set (of_prt st k as) \<Longrightarrow> a \<in> set as"
  by (simp add: of_prt_def)

lemma filed_snoc: "filed f st (as @ [a]) = bucket_insert (f (the (st a))) a (filed f st as)"
  by (simp add: filed_def)

lemma filed_Nil [simp]: "filed f st [] = []"
  by (simp add: filed_def)

lemma file_counter_inv:
  assumes inv: "counter_inv ct as cs" and k: "k = ct_prt c" "ts = ct_ts c" "cid = m_cid c"
  shows "counter_inv (file_counter k ts cid c ct) (as @ [ct_next ct]) (cs @ [c])"
proof -
  let ?a = "ct_next ct" and ?st = "(ct_store ct)(ct_next ct \<mapsto> c)"
  note i = inv [unfolded counter_inv_def]
  have new: "?a \<notin> set as" using i by auto
  have same: "?st b = ct_store ct b" if "b \<in> set as" for b using that new by auto
  have o: "of_prt ?st j as = of_prt (ct_store ct) j as" for j
    by (rule of_prt_cong) (rule same)
  have fl: "filed f ?st as = filed f (ct_store ct) as" for f
    by (rule filed_cong) (rule same)
  have fo: "filed f ?st (of_prt (ct_store ct) j as) = filed f (ct_store ct) (of_prt (ct_store ct) j as)" for f j
    by (rule filed_cong) (rule same [OF of_prt_set])
  have snoc: "of_prt ?st j (as @ [?a]) = of_prt (ct_store ct) j as @ (if j = k then [?a] else [])" for j
    using o [of j] k(1) by (simp add: of_prt_def)
  have at: "map_of (ct_timestampMap ct) j = (if of_prt (ct_store ct) j as = [] then None
      else Some (filed ct_ts (ct_store ct) (of_prt (ct_store ct) j as)))" for j
    using i by blast
  have get: "al_get [] (lists_of ct) j = of_prt (ct_store ct) j as" for j using i by blast
  have tk: "al_get [] (ct_timestampMap ct) k = filed ct_ts (ct_store ct) (of_prt (ct_store ct) k as)"
    unfolding al_get_def at by simp
  let ?t = "file_counter k ts cid c ct"
  have t: "lists_of ?t = AList.update k (al_get [] (lists_of ct) k @ [?a]) (lists_of ct)"
    "ct_timestampMap ?t = AList.update k (bucket_insert ts ?a (al_get [] (ct_timestampMap ct) k)) (ct_timestampMap ct)"
    "ct_byIdx ?t = bucket_insert cid ?a (ct_byIdx ct)" "ct_store ?t = ?st" "ct_next ?t = Suc ?a"
    by (simp_all add: lists_of_def file_counter_def Let_def)
  have st: "map ?st (as @ [?a]) = map Some (cs @ [c])"
  proof -
    have "map ?st as = map (ct_store ct) as" using same by simp
    then show ?thesis using i by simp
  qed
  have lists: "al_get [] (lists_of ?t) j = of_prt ?st j (as @ [?a])" for j
    unfolding t snoc by (simp add: get)
  have times: "map_of (ct_timestampMap ?t) j = (if of_prt ?st j (as @ [?a]) = [] then None
      else Some (filed ct_ts ?st (of_prt ?st j (as @ [?a]))))" for j
  proof (cases "j = k")
    case True
    then show ?thesis unfolding t snoc tk by (simp add: filed_snoc fo k(2) del: fun_upd_apply) simp
  next
    case False
    then show ?thesis unfolding t snoc by (simp add: fo at del: fun_upd_apply)
  qed
  have idx: "ct_byIdx ?t = filed m_cid ?st (as @ [?a])"
  proof -
    have "ct_byIdx ct = filed m_cid (ct_store ct) as" using i by blast
    then show ?thesis unfolding t(3) filed_snoc fl using k(3) by simp
  qed
  have d: "distinct (map fst (lists_of ?t))"
    unfolding t(1) by (rule distinct_al_update) (use i in blast)
  have "\<forall>a \<in> set (as @ [?a]). a < ct_next ?t" using i t(5) by auto
  then show ?thesis
    unfolding counter_inv_def using st lists times idx d new i t(4) by (simp del: fun_upd_apply)
qed

lemma recreate_inv: "counter_inv ct as cs \<Longrightarrow> counter_inv (recreate_list ct) as cs"
  by (auto simp: counter_inv_def recreate_list_def lists_of_def split: option.splits)

lemma addCounter_event_inv:
  assumes inv: "counter_inv ct as cs" and run: "addCounter_event ev ct = (r, ct')"
  shows "case r of Inl e \<Rightarrow> counter_inv ct' as cs
    | Inr _ \<Rightarrow> \<exists>names name c. ct_counterMap ct = Some names \<and>
        names (to_i32 (m_data ev ! COUNTER_IDX_ID)) = Some name \<and> new_CounterData ev name = Inr c \<and>
        counter_inv ct' (as @ [ct_next ct]) (cs @ [c])"
proof (cases "ct_counterMap ct")
  case None
  then show ?thesis using inv run by (auto simp: addCounter_event_def)
next
  case (Some names)
  note r = recreate_inv [OF inv]
  have next_same: "ct_next (recreate_list ct) = ct_next ct"
    by (simp add: recreate_list_def split: option.splits)
  show ?thesis
  proof (cases "ev_counter_id ev")
    case (Inl e)
    then show ?thesis using run r Some by (auto simp: addCounter_event_def Let_def)
  next
    case (Inr cid)
    show ?thesis
    proof (cases "names (to_i32 cid)")
      case None
      then show ?thesis using run r Some Inr by (auto simp: addCounter_event_def Let_def)
    next
      case (Some name)
      show ?thesis
      proof (cases "new_CounterData ev name")
        case (Inl e)
        then show ?thesis using run r \<open>ct_counterMap ct = Some names\<close> Inr Some
          by (auto simp: addCounter_event_def Let_def)
      next
        case new: (Inr c)
        have c: "prt_of ev = ct_prt c" "ev_ts ev = ct_ts c" "cid = m_cid c" "cid = m_data ev ! COUNTER_IDX_ID"
          using new Inr by (auto simp: new_CounterData_def bind_simps prt_of_def ct_prt_def ev_counter_id_def split: if_splits)
        have "ct' = file_counter (prt_of ev) (ev_ts ev) cid c (recreate_list ct)" "r = Inr ()"
          using run \<open>ct_counterMap ct = Some names\<close> Inr Some new by (auto simp: addCounter_event_def Let_def)
        moreover have "counter_inv (file_counter (prt_of ev) (ev_ts ev) cid c (recreate_list ct)) (as @ [ct_next ct]) (cs @ [c])"
          using file_counter_inv [OF r c(1-3)] unfolding next_same .
        ultimately show ?thesis using \<open>ct_counterMap ct = Some names\<close> Some new c(4) by auto
      qed
    qed
  qed
qed

lemma addCounter_data_inv:
  assumes inv: "counter_inv ct as cs" and run: "addCounter_data c ct = (r, ct')"
  shows "case r of Inl e \<Rightarrow> counter_inv ct' as cs | Inr _ \<Rightarrow> counter_inv ct' (as @ [ct_next ct]) (cs @ [c])"
proof -
  have "ct_next (recreate_list ct) = ct_next ct"
    by (simp add: recreate_list_def split: option.splits)
  then show ?thesis
    using run inv file_counter_inv [OF recreate_inv [OF inv] refl refl refl, of c]
    by (auto simp: addCounter_data_def split: sum.splits)
qed

lemma counter_reach_inv: "counter_reach ct cs \<Longrightarrow> \<exists>as. counter_inv ct as cs"
proof (induction rule: counter_reach.induct)
  case new
  have "counter_inv new_ADCounter [] []"
    by (simp add: counter_inv_def new_ADCounter_def lists_of_def of_prt_def)
  then show ?case by blast
next
  case (link ct cs names)
  then show ?case by (auto simp: counter_inv_def counter_linkCounterMap_def lists_of_def)
next
  case (event ct cs names ev name c ct')
  then show ?case using addCounter_event_inv [of ct _ cs ev "Inr ()" ct'] by fastforce
next
  case (event_fails ct cs ev e ct')
  then show ?case using addCounter_event_inv [of ct _ cs ev "Inl e" ct'] by fastforce
next
  case (data ct cs c ct')
  then show ?case using addCounter_data_inv [of ct _ cs c "Inr ()" ct'] by fastforce
next
  case (data_fails ct cs c e ct')
  then show ?case using addCounter_data_inv [of ct _ cs c "Inl e" ct'] by fastforce
next
  case (flush ct cs flushed ct')
  then have "counter_inv (delete_counters flushed ct') [] []"
    by (auto simp: counter_inv_def flushCounters_def delete_counters_def lists_of_def of_prt_def split: option.splits)
  then show ?case by blast
qed
subsection \<open>Reading the maps\<close>

lemma filed_ok: "buckets_ok (\<lambda>a. f (the (st a))) (filed f st as)"
  by (induction as rule: rev_induct)
    (simp_all add: buckets_ok_def [of _ "[]"] filed_snoc bucket_insert_ok [of "\<lambda>a. f (the (st a))"])

lemma filed_flatten: "flatten (filed f st as) = sort_key (\<lambda>a. f (the (st a))) as"
  unfolding filed_def by (rule bucket_sort)

lemma window_slice:
  assumes "sorted_wrt (<) (map fst m)" "t0 \<le> t1"
  shows "take (upper_bound t1 m - lower_bound t0 m) (drop (lower_bound t0 m) m) =
    filter (\<lambda>(k, _). t0 \<le> k \<and> k \<le> t1) m"
  using assms
proof (induction m)
  case Nil
  then show ?case by (simp add: upper_bound_def lower_bound_def)
next
  case (Cons kas m)
  obtain k as where kas: "kas = (k, as)" by (cases kas)
  have gt: "\<forall>x \<in> set m. k < fst x" using Cons.prems kas by auto
  note IH = Cons.IH [OF _ Cons.prems(2)]
  consider "k < t0" | "t0 \<le> k" "k \<le> t1" | "t1 < k" by fastforce
  then show ?case
  proof cases
    case 1
    moreover have "k \<le> t1" "\<not> t0 \<le> k" using 1 Cons.prems(2) by auto
    ultimately show ?thesis using IH Cons.prems kas by (simp add: upper_bound_def lower_bound_def)
  next
    case 2
    have "lower_bound t0 m = 0"
      using gt 2 by (cases m) (auto simp: lower_bound_def)
    then show ?thesis using IH Cons.prems kas 2 by (simp add: upper_bound_def lower_bound_def)
  next
    case 3
    have "filter (\<lambda>(k, _). t0 \<le> k \<and> k \<le> t1) m = []"
      using gt 3 by (fastforce simp: filter_empty_conv)
    moreover have "\<not> k \<le> t1" "\<not> k < t0" using 3 Cons.prems(2) by auto
    ultimately show ?thesis using kas by (simp add: upper_bound_def lower_bound_def)
  qed
qed

lemma flatten_filter_keys:
  assumes "buckets_ok f m"
  shows "concat (map snd (filter (\<lambda>(k, _). P k) m)) = filter (\<lambda>a. P (f a)) (flatten m)"
  using assms
proof (induction m)
  case (Cons kas m)
  obtain k as where kas: "kas = (k, as)" by (cases kas)
  have "\<forall>a \<in> set as. f a = k" using Cons.prems kas by (auto simp: buckets_ok_def)
  then have "filter (\<lambda>a. P (f a)) as = (if P k then as else [])"
    by (auto simp: filter_empty_conv filter_id_conv)
  then show ?case using Cons kas by (auto simp: buckets_ok_def)
qed simp

lemma map_the: "map st as = map Some cs \<Longrightarrow> map (\<lambda>a. the (st a)) as = cs"
  by (induction as arbitrary: cs) (auto simp: Cons_eq_map_conv)

lemma filter_the: "map st as = map Some cs \<Longrightarrow> map st (filter (\<lambda>a. P (the (st a))) as) = map Some (filter P cs)"
  by (induction as arbitrary: cs) (auto simp: Cons_eq_map_conv)

lemma sort_the:
  "map st as = map Some cs \<Longrightarrow> map st (sort_key (\<lambda>a. f (the (st a))) as) = map Some (sort_key f cs)"
proof -
  assume st: "map st as = map Some cs"
  have "map (\<lambda>a. the (st a)) (sort_key (\<lambda>a. f (the (st a))) as) = sort_key f cs"
    using map_sort_key [of "\<lambda>a. the (st a)" f as] map_the [OF st] by simp
  moreover have "\<forall>a \<in> set as. st a = Some (the (st a))"
  proof
    fix a assume "a \<in> set as"
    then have "st a \<in> set (map Some cs)" using st by (metis image_eqI set_map)
    then show "st a = Some (the (st a))" by auto
  qed
  then have "map st (sort_key (\<lambda>a. f (the (st a))) as) =
      map Some (map (\<lambda>a. the (st a)) (sort_key (\<lambda>a. f (the (st a))) as))"
    by simp
  ultimately show ?thesis by (simp only:)
qed

lemma deref_all_ok: "deref_all ct as = Inr cs \<longleftrightarrow> map (ct_store ct) as = map Some cs"
proof (induction as arbitrary: cs)
  case (Cons a as)
  show ?case
    by (cases cs; cases "ct_store ct a")
      (auto simp: bind_simps counter_deref_def Cons.IH)
qed auto

lemma deref_all_sub: "map (ct_store ct) as = map Some cs \<Longrightarrow> set bs \<subseteq> set as \<Longrightarrow> deref_all ct bs = Inr (map (\<lambda>a. the (ct_store ct a)) bs)"
proof -
  assume st: "map (ct_store ct) as = map Some cs" and sub: "set bs \<subseteq> set as"
  have "ct_store ct b = Some (the (ct_store ct b))" if "b \<in> set bs" for b
  proof -
    have "ct_store ct b \<in> set (map Some cs)" using st sub that by (metis image_eqI set_map subsetD)
    then show ?thesis by auto
  qed
  then show ?thesis unfolding deref_all_ok by simp
qed

text \<open>
  C19. The window query of the counter manager returns, for every thread and every window, exactly
  the counters accepted on the thread since the last flush whose time stamps lie in the window,
  in the order of time and of arrival for equal times, and no stale iterator.
\<close>

theorem window_counters_exact:
  assumes "counter_reach ct cs" "t_start \<le> t_end"
  shows "\<exists>as. getCountersInWindow k t_start t_end ct = Inr as \<and>
    deref_all ct as = Inr (sort_key ct_ts (filter (\<lambda>c. ct_prt c = k \<and> t_start \<le> ct_ts c \<and> ct_ts c \<le> t_end) cs))"
proof -
  obtain as where inv: "counter_inv ct as cs" using counter_reach_inv [OF assms(1)] ..
  let ?st = "ct_store ct" and ?w = "\<lambda>t. t_start \<le> t \<and> t \<le> t_end"
  let ?b = "of_prt ?st k as" and ?cs = "filter (\<lambda>c. ct_prt c = k) cs"
  have st: "map ?st as = map Some cs" and m: "map_of (ct_timestampMap ct) k =
      (if ?b = [] then None else Some (filed ct_ts ?st ?b))"
    using inv unfolding counter_inv_def by blast+
  have b: "map ?st ?b = map Some ?cs" unfolding of_prt_def by (rule filter_the [OF st])
  let ?m = "filed ct_ts ?st ?b"
  have ok: "buckets_ok (\<lambda>a. ct_ts (the (?st a))) ?m" by (rule filed_ok)
  then have sorted: "sorted_wrt (<) (map fst ?m)" by (simp add: buckets_ok_def)
  let ?out = "filter (\<lambda>a. ?w (ct_ts (the (?st a)))) (flatten ?m)"
  have slice: "concat (map snd (take (upper_bound t_end ?m - lower_bound t_start ?m) (drop (lower_bound t_start ?m) ?m))) = ?out"
    unfolding window_slice [OF sorted assms(2)] by (rule flatten_filter_keys [OF ok])
  have run: "getCountersInWindow k t_start t_end ct = Inr ?out"
  proof (cases "?b = []")
    case True
    then show ?thesis using m assms(2) by (simp add: getCountersInWindow_def not_less)
  next
    case False
    have "lower_bound t_start ?m = length ?m \<Longrightarrow> ?out = []" using slice by simp
    then show ?thesis using m False assms(2) slice by (simp add: getCountersInWindow_def Let_def not_less)
  qed
  have "map ?st (flatten ?m) = map Some (sort_key ct_ts ?cs)"
    unfolding filed_flatten by (rule sort_the [OF b])
  from filter_the [OF this, of "\<lambda>c. ?w (ct_ts c)"]
  have "map ?st ?out = map Some (filter (\<lambda>c. ?w (ct_ts c)) (sort_key ct_ts ?cs))" .
  then have "deref_all ct ?out = Inr (sort_key ct_ts (filter (\<lambda>c. ct_prt c = k \<and> ?w (ct_ts c)) cs))"
  proof -
    have "filter (\<lambda>c. ?w (ct_ts c)) ?cs = filter (\<lambda>c. ct_prt c = k \<and> ?w (ct_ts c)) cs"
      by (simp only: filter_filter)
    moreover have "filter (\<lambda>c. ?w (ct_ts c)) (sort_key ct_ts ?cs) = sort_key ct_ts (filter (\<lambda>c. ?w (ct_ts c)) ?cs)"
      by (rule filter_sort)
    ultimately show ?thesis
      using \<open>map ?st ?out = _\<close> unfolding deref_all_ok by (simp only:)
  qed
  then show ?thesis using run by blast
qed
subsection \<open>Statistics of the counters of a step\<close>

definition named_values :: "string \<Rightarrow> counter_data list \<Rightarrow> real list" where
  "named_values n cs = map (\<lambda>c. of_nat (unat (m_value c))) (filter (\<lambda>c. m_countername c = n) cs)"

definition stats_of_values :: "real list \<Rightarrow> run_stats option" where
  "stats_of_values vs = (if vs = [] then None else Some (push_all vs (new_RunStats False)))"

lemma named_values_append [simp]: "named_values n (xs @ ys) = named_values n xs @ named_values n ys"
  by (simp add: named_values_def)

lemma index_values_ok:
  "\<forall>(i, as) \<in> set m. set as \<subseteq> set bs \<Longrightarrow> map (ct_store ct) bs = map Some cs \<Longrightarrow>
    index_values ct m = Inr (map (\<lambda>(i, as). (i, map (\<lambda>a. the (ct_store ct a)) as)) m)"
proof (induction m)
  case (Cons ias m)
  obtain i as where ias: "ias = (i, as)" by (cases ias)
  have "set as \<subseteq> set bs" using Cons.prems(1) ias by simp
  then have "deref_all ct as = Inr (map (\<lambda>a. the (ct_store ct a)) as)"
    by (rule deref_all_sub [OF Cons.prems(2)])
  moreover have "index_values ct m = Inr (map (\<lambda>(i, as). (i, map (\<lambda>a. the (ct_store ct a)) as)) m)"
    by (rule Cons.IH [OF _ Cons.prems(2)]) (use Cons.prems(1) in simp)
  ultimately show ?case unfolding ias by simp
qed simp

lemma gather_counter_ok:
  assumes same: "\<forall>c \<in> set (snd b). \<forall>c' \<in> set (snd b). m_countername c = m_countername c'"
    and st: "\<forall>n. map_of (lc_stats lc) n = stats_of_values (if counter_wanted n lc then named_values n V else [])"
  shows "\<forall>n. map_of (lc_stats (gather_counter b lc)) n =
      stats_of_values (if counter_wanted n lc then named_values n (V @ snd b) else [])"
    and "lc_which_counter (gather_counter b lc) = lc_which_counter lc"
proof -
  show "lc_which_counter (gather_counter b lc) = lc_which_counter lc"
    by (simp add: gather_counter_def Let_def split: list.split)
  show "\<forall>n. map_of (lc_stats (gather_counter b lc)) n =
      stats_of_values (if counter_wanted n lc then named_values n (V @ snd b) else [])"
  proof (cases "snd b")
    case Nil
    then show ?thesis using st by (simp add: gather_counter_def)
  next
    case (Cons c cs)
    let ?N = "m_countername c" and ?f = "\<lambda>c. of_nat (unat (m_value c)) :: real"
    have nm: "\<forall>c' \<in> set (snd b). m_countername c' = ?N"
      by (intro ballI, rule bspec [OF bspec [OF same]]) (simp_all add: Cons)
    then have nv: "named_values n (snd b) = (if n = ?N then map ?f (snd b) else [])" for n
      by (auto simp: named_values_def filter_id_conv filter_empty_conv)
    have get: "fold (\<lambda>c. push (?f c)) (snd b) (al_get (new_RunStats False) (lc_stats lc) ?N) =
        push_all (named_values ?N V @ map ?f (snd b)) (new_RunStats False)" if "counter_wanted ?N lc"
    proof -
      have "al_get (new_RunStats False) (lc_stats lc) ?N = push_all (named_values ?N V) (new_RunStats False)"
        unfolding al_get_def spec [OF st, of ?N] using that by (simp add: stats_of_values_def push_all_def)
      then show ?thesis by (simp add: push_all_def fold_map comp_def)
    qed
    show ?thesis
    proof
      fix n
      show "map_of (lc_stats (gather_counter b lc)) n =
          stats_of_values (if counter_wanted n lc then named_values n (V @ snd b) else [])"
      proof (cases "counter_wanted ?N lc \<and> n = ?N")
        case True
        have "lc_stats (gather_counter b lc) = AList.update ?N
            (push_all (named_values ?N V @ map ?f (snd b)) (new_RunStats False)) (lc_stats lc)"
          using get True unfolding gather_counter_def Cons Let_def list.case by simp
        then show ?thesis using True nv [of n] Cons by (simp add: stats_of_values_def)
      next
        case False
        then have "map_of (lc_stats (gather_counter b lc)) n = map_of (lc_stats lc) n"
          unfolding gather_counter_def Cons Let_def list.case by simp
        moreover have "counter_wanted n lc \<Longrightarrow> named_values n (snd b) = []" using False nv [of n] by auto
        ultimately show ?thesis using spec [OF st, of n] by simp
      qed
    qed
  qed
qed

lemma gather_counters_ok:
  assumes "\<forall>b \<in> set bs. \<forall>c \<in> set (snd b). \<forall>c' \<in> set (snd b). m_countername c = m_countername c'"
    and "\<forall>n. map_of (lc_stats lc) n = stats_of_values (if counter_wanted n lc then named_values n V else [])"
  shows "\<forall>n. map_of (lc_stats (fold gather_counter bs lc)) n =
      stats_of_values (if counter_wanted n lc then named_values n (V @ concat (map snd bs)) else [])"
  using assms
proof (induction bs arbitrary: lc V)
  case (Cons b bs)
  have b: "\<forall>c \<in> set (snd b). \<forall>c' \<in> set (snd b). m_countername c = m_countername c'"
    by (rule bspec [OF Cons.prems(1)]) simp
  have bs: "\<forall>b \<in> set bs. \<forall>c \<in> set (snd b). \<forall>c' \<in> set (snd b). m_countername c = m_countername c'"
    by (intro ballI, rule bspec [OF bspec [OF bspec [OF Cons.prems(1)]]]) simp_all
  note g = gather_counter_ok [OF b Cons.prems(2)]
  have w: "counter_wanted n (gather_counter b lc) = counter_wanted n lc" for n
    using g(2) by (simp add: counter_wanted_def)
  show ?case using Cons.IH [OF bs, of "gather_counter b lc" "V @ snd b"] g(1) by (simp add: w)
qed simp

text \<open>
  C20. The statistics of the counters of a step are complete: there is an entry for exactly the
  wanted names with a counter since the last flush, and it is the statistics of the values of all
  of them. Counters with the same index must have the same name.
\<close>

theorem counter_statistics_complete:
  assumes "counter_reach ct cs"
    and "\<forall>c \<in> set cs. \<forall>c' \<in> set cs. m_cid c = m_cid c' \<longrightarrow> m_countername c = m_countername c'"
  shows "\<exists>m. getCountersByIndex ct = Inr m \<and>
    (\<forall>n. map_of (lc_stats (counter_gatherStatistics m (new_ADLocalCounterStatistics app step which))) n =
      stats_of_values (if (case which of None \<Rightarrow> True | Some w \<Rightarrow> n \<in> w)
        then named_values n (sort_key m_cid cs) else []))"
proof -
  obtain as where inv: "counter_inv ct as cs" using counter_reach_inv [OF assms(1)] ..
  let ?st = "ct_store ct" and ?lc = "new_ADLocalCounterStatistics app step which"
  have st: "map ?st as = map Some cs" and idx: "ct_byIdx ct = filed m_cid ?st as"
    using inv unfolding counter_inv_def by blast+
  let ?b = "filed m_cid ?st as" and ?v = "\<lambda>a. the (?st a)"
  let ?m = "map (\<lambda>(i, as). (i, map ?v as)) ?b"
  have ok: "buckets_ok (\<lambda>a. m_cid (?v a)) ?b" by (rule filed_ok)
  have fl: "flatten ?b = sort_key (\<lambda>a. m_cid (?v a)) as" by (rule filed_flatten)
  have sub: "set bs \<subseteq> set as" if "(i, bs) \<in> set ?b" for i bs
  proof -
    have "set bs \<subseteq> set (flatten ?b)" using that by (force simp: flatten_def)
    then show ?thesis by (simp add: fl)
  qed
  have run: "getCountersByIndex ct = Inr ?m"
    unfolding getCountersByIndex_def idx by (rule index_values_ok [OF _ st]) (use sub in auto)
  have "concat (map snd ?m) = map ?v (flatten ?b)"
    by (simp add: flatten_def map_concat comp_def split_beta)
  also have "\<dots> = sort_key m_cid (map ?v as)" unfolding fl by (rule map_sort_key)
  finally have all: "concat (map snd ?m) = sort_key m_cid cs" by (simp add: map_the [OF st])
  have same: "\<forall>b \<in> set ?m. \<forall>c \<in> set (snd b). \<forall>c' \<in> set (snd b). m_countername c = m_countername c'"
  proof (intro ballI)
    fix b c c' assume b: "b \<in> set ?m" and c: "c \<in> set (snd b)" "c' \<in> set (snd b)"
    from b obtain i bs where i: "(i, bs) \<in> set ?b" "b = (i, map ?v bs)" by auto
    have "\<forall>a \<in> set bs. m_cid (?v a) = i" using ok i(1) by (auto simp: buckets_ok_def)
    then have "m_cid c = m_cid c'" using c i(2) by auto
    moreover have "c \<in> set cs" "c' \<in> set cs"
      using c i(2) sub [OF i(1)] unfolding map_the [OF st, symmetric] set_map by auto
    ultimately show "m_countername c = m_countername c'" using assms(2) by blast
  qed
  have "\<forall>n. map_of (lc_stats ?lc) n = stats_of_values (if counter_wanted n ?lc then named_values n [] else [])"
    by (simp add: new_ADLocalCounterStatistics_def stats_of_values_def named_values_def)
  from gather_counters_ok [OF same this]
  have "\<forall>n. map_of (lc_stats (counter_gatherStatistics ?m ?lc)) n = stats_of_values
      (if counter_wanted n ?lc then named_values n (sort_key m_cid cs) else [])"
    unfolding counter_gatherStatistics_def all by simp
  then show ?thesis
    using run by (intro exI [of _ ?m]) (simp add: counter_wanted_def new_ADLocalCounterStatistics_def)
qed
subsection \<open>Two counters on a thread\<close>

definition wit_names :: "int \<rightharpoonup> string" where
  "wit_names = [7 \<mapsto> ''rss'', 8 \<mapsto> ''load'']"

definition count_event :: "u64 \<Rightarrow> u64 \<Rightarrow> u64 \<Rightarrow> event_t" where
  "count_event cid v ts = \<lparr> m_data = [1, 2, 3, cid, v, ts], m_t = COUNT, m_id = eventID 2 0 0, m_idx = 0 \<rparr>"

definition wit_counter_data :: "u64 \<Rightarrow> string \<Rightarrow> u64 \<Rightarrow> u64 \<Rightarrow> counter_data" where
  "wit_counter_data cid name v ts = \<lparr> m_countername = name, ct_pid = 1, ct_rid = 2, ct_tid = 3, m_cid = cid,
     m_value = v, ct_ts = ts, ct_execkey = eventID 0 0 0 \<rparr>"

definition wit_counters :: ad_counter where
  "wit_counters = snd (addCounter_event (count_event 7 40 10) (snd (addCounter_event (count_event 7 30 20)
     (counter_linkCounterMap wit_names new_ADCounter))))"

lemma wit_counters_reach:
  "counter_reach wit_counters [wit_counter_data 7 ''rss'' 30 20, wit_counter_data 7 ''rss'' 40 10]"
proof -
  let ?c0 = "counter_linkCounterMap wit_names new_ADCounter"
  let ?e1 = "count_event 7 30 20" and ?e2 = "count_event 7 40 10"
  let ?c1 = "snd (addCounter_event ?e1 ?c0)"
  have r0: "counter_reach ?c0 []" by (rule counter_reach.link [OF counter_reach.new])
  have d: "new_CounterData ?e1 ''rss'' = Inr (wit_counter_data 7 ''rss'' 30 20)"
    "new_CounterData ?e2 ''rss'' = Inr (wit_counter_data 7 ''rss'' 40 10)" by code_simp+
  have ok: "fst (addCounter_event ?e1 ?c0) = Inr ()" "fst (addCounter_event ?e2 ?c1) = Inr ()"
    by code_simp+
  have n: "wit_names (to_i32 (m_data ?e1 ! COUNTER_IDX_ID)) = Some ''rss''"
    "wit_names (to_i32 (m_data ?e2 ! COUNTER_IDX_ID)) = Some ''rss''" by code_simp+
  have m0: "ct_counterMap ?c0 = Some wit_names" by (simp add: counter_linkCounterMap_def)
  then have m1: "ct_counterMap ?c1 = Some wit_names"
    by (simp add: addCounter_event_def recreate_list_def file_counter_def Let_def counter_linkCounterMap_def
        new_ADCounter_def split: option.splits sum.splits)
  have "counter_reach ?c1 ([] @ [wit_counter_data 7 ''rss'' 30 20])"
    by (rule counter_reach.event [OF r0 m0 n(1) d(1)]) (simp add: ok(1) prod_eq_iff)
  from counter_reach.event [OF this m1 n(2) d(2)]
  have "counter_reach (snd (addCounter_event ?e2 ?c1)) (([] @ [wit_counter_data 7 ''rss'' 30 20]) @ [wit_counter_data 7 ''rss'' 40 10])"
    by (simp add: ok(2) prod_eq_iff)
  then show ?thesis by (simp add: wit_counters_def)
qed

theorem window_counters_exact_witness:
  "\<exists>as. getCountersInWindow (1, 2, 3) 5 20 wit_counters = Inr as \<and>
     deref_all wit_counters as = Inr [wit_counter_data 7 ''rss'' 40 10, wit_counter_data 7 ''rss'' 30 20]"
proof -
  have "sort_key ct_ts (filter (\<lambda>c. ct_prt c = (1, 2, 3) \<and> 5 \<le> ct_ts c \<and> ct_ts c \<le> 20)
      [wit_counter_data 7 ''rss'' 30 20, wit_counter_data 7 ''rss'' 40 10]) =
      [wit_counter_data 7 ''rss'' 40 10, wit_counter_data 7 ''rss'' 30 20]"
    by (simp add: wit_counter_data_def ct_prt_def)
  then show ?thesis
    using window_counters_exact [OF wit_counters_reach, of 5 20 "(1, 2, 3)"] by simp
qed

theorem counter_statistics_complete_witness:
  "\<exists>m r. getCountersByIndex wit_counters = Inr m \<and>
     map_of (lc_stats (counter_gatherStatistics m (new_ADLocalCounterStatistics 1 0 None))) ''rss'' = Some r \<and>
     m_count r = 2 \<and> m_max r = 40"
proof -
  let ?cs = "[wit_counter_data 7 ''rss'' 30 20, wit_counter_data 7 ''rss'' 40 10]"
  have same: "\<forall>c \<in> set ?cs. \<forall>c' \<in> set ?cs. m_cid c = m_cid c' \<longrightarrow> m_countername c = m_countername c'"
    by (simp add: wit_counter_data_def)
  obtain m where m: "getCountersByIndex wit_counters = Inr m"
    "\<forall>n. map_of (lc_stats (counter_gatherStatistics m (new_ADLocalCounterStatistics 1 0 None))) n =
      stats_of_values (if (case None of None \<Rightarrow> True | Some w \<Rightarrow> n \<in> w) then named_values n (sort_key m_cid ?cs) else [])"
    using counter_statistics_complete [OF wit_counters_reach same, of 1 0 None] by blast
  have v: "named_values ''rss'' (sort_key m_cid ?cs) = [30, 40]"
    by (simp add: named_values_def wit_counter_data_def)
  have "map_of (lc_stats (counter_gatherStatistics m (new_ADLocalCounterStatistics 1 0 None))) ''rss'' =
      Some (push_all [30, 40] (new_RunStats False))"
    using spec [OF m(2), of "''rss''"] unfolding v by (simp add: stats_of_values_def)
  moreover have "m_count (push_all [30, 40] (new_RunStats False)) = 2" by (simp add: push_all_count)
  moreover have "m_max (push_all [30, 40] (new_RunStats False)) = 40" using push_all_extrema [of "[30, 40]" False] by simp
  ultimately show ?thesis using m(1) by blast
qed

end
