(* ===== verification/Monitoring.thy ===== *)
theory Monitoring
  imports EventData
begin

text \<open>
  The state of a node (\<open>ADMonitoring.cpp\<close>): the latest values of the counters of the monitoring
  plugin. The state entries live in a list that only grows, so the iterators into it are positions.
  The map from counter indices to names belongs to the parser and is read anew in every step. Of a
  watch list file the JSON library gives what \<open>watch_file\<close> says.
\<close>

record state_entry =
  se_field_name :: string
  se_value :: u64
  se_assigned :: bool

definition new_StateEntry :: "string \<Rightarrow> state_entry" where
  "new_StateEntry field_name = \<lparr> se_field_name = field_name, se_value = 0, se_assigned = False \<rparr>"

record ad_monitoring =
  mo_state_set :: bool
  mo_timestamp :: u64
  mo_state :: "state_entry list"
  mo_cid_state_map :: "(int \<times> nat) list"
  mo_fieldname_state_map :: "string \<rightharpoonup> nat"
  mo_counter_watchlist :: "string \<rightharpoonup> string"
  mo_cid_seen :: "int set"
  mo_counter_prefix :: string
  mo_counterMap :: "(int \<times> string) list option"

definition new_ADMonitoring :: ad_monitoring where
  "new_ADMonitoring = \<lparr> mo_state_set = False, mo_timestamp = 0, mo_state = [], mo_cid_state_map = [],
     mo_fieldname_state_map = Map.empty, mo_counter_watchlist = Map.empty, mo_cid_seen = {},
     mo_counter_prefix = '''', mo_counterMap = None \<rparr>"

definition monitoring_linkCounterMap :: "(int \<times> string) list \<Rightarrow> ad_monitoring \<Rightarrow> ad_monitoring" where
  "monitoring_linkCounterMap m mo = mo \<lparr> mo_counterMap := Some m \<rparr>"

definition addWatchedCounter :: "string \<Rightarrow> string \<Rightarrow> ad_monitoring \<Rightarrow> ad_monitoring" where
  "addWatchedCounter counter_name field_name mo =
     mo \<lparr> mo_counter_watchlist := (mo_counter_watchlist mo)(counter_name \<mapsto> field_name) \<rparr>"

definition clearWatchList :: "ad_monitoring \<Rightarrow> ad_monitoring" where
  "clearWatchList mo = mo \<lparr> mo_counter_watchlist := Map.empty \<rparr>"

definition setCounterPrefix :: "string \<Rightarrow> ad_monitoring \<Rightarrow> ad_monitoring" where
  "setCounterPrefix pfx mo = mo \<lparr> mo_counter_prefix := pfx \<rparr>"

definition setDefaultWatchList :: "ad_monitoring \<Rightarrow> ad_monitoring" where
  "setDefaultWatchList mo = setCounterPrefix ''monitoring: '' mo"

datatype watch_entry = NotAnArray | Strings "string list"

datatype watch_file = Unreadable | NoArray | Entries "watch_entry list"

definition watch_entry_step :: "watch_entry \<Rightarrow> ad_monitoring \<Rightarrow> ad_monitoring res" where
  "watch_entry_step e mo =
     (case e of
        Strings [counter_name, field_name] \<Rightarrow> Inr (addWatchedCounter counter_name field_name mo)
      | _ \<Rightarrow> Inl (Fatal ''Expect array elements to be two-component arrays''))"

definition parseWatchListFile :: "watch_file \<Rightarrow> ad_monitoring \<Rightarrow> ad_monitoring res" where
  "parseWatchListFile file mo =
     (case file of
        Unreadable \<Rightarrow> Inl (Fatal ''Could not open watchlist file'')
      | NoArray \<Rightarrow> Inl (Fatal ''Expect file to contain a JSON array'')
      | Entries es \<Rightarrow> foldE watch_entry_step es (clearWatchList mo))"

subsection \<open>The counters of a step\<close>

text \<open>\<open>std::map<int, iterator>\<close>: a list of pairs with increasing keys.\<close>

fun ordered_put :: "int \<Rightarrow> 'v \<Rightarrow> (int \<times> 'v) list \<Rightarrow> (int \<times> 'v) list" where
  "ordered_put k v [] = [(k, v)]"
| "ordered_put k v ((j, w) # m) =
     (if k = j then (k, v) # m else if k < j then (k, v) # (j, w) # m else (j, w) # ordered_put k v m)"

text \<open>The field a counter of this name is stored under, if it is wanted.\<close>

definition wanted_field :: "ad_monitoring \<Rightarrow> string \<Rightarrow> string option" where
  "wanted_field mo counter_name =
     (case mo_counter_watchlist mo counter_name of
        Some field_name \<Rightarrow> Some field_name
      | None \<Rightarrow>
          if mo_counter_prefix mo \<noteq> [] \<and> take (length (mo_counter_prefix mo)) counter_name = mo_counter_prefix mo
          then Some (drop (length (mo_counter_prefix mo)) counter_name) else None)"

definition watch_counter :: "int \<times> string \<Rightarrow> ad_monitoring \<Rightarrow> ad_monitoring" where
  "watch_counter e mo =
     (let (cid, counter_name) = e in
      if cid \<in> mo_cid_seen mo then mo
      else
        let mo1 = (case wanted_field mo counter_name of
              None \<Rightarrow> mo
            | Some field_name \<Rightarrow>
                mo \<lparr> mo_state := mo_state mo @ [new_StateEntry field_name],
                     mo_cid_state_map := ordered_put cid (length (mo_state mo)) (mo_cid_state_map mo),
                     mo_fieldname_state_map := (mo_fieldname_state_map mo)(field_name \<mapsto> length (mo_state mo)) \<rparr>)
        in mo1 \<lparr> mo_cid_seen := insert cid (mo_cid_seen mo1) \<rparr>)"

definition update_entry :: "(u64 \<times> counter_data list) list \<Rightarrow> int \<times> nat \<Rightarrow> ad_monitoring \<Rightarrow> ad_monitoring res" where
  "update_entry counters se mo =
     (let (cid, i) = se in
      case map_of counters (word_of_int cid) of
        None \<Rightarrow> Inr mo
      | Some cs \<Rightarrow>
          if cs = [] then Inl (Fatal ''Counter is contained in map but has no values??'')
          else if length (mo_state mo) \<le> i then Inl OutOfBounds
          else
            let cd = last cs in
            Inr (mo \<lparr> mo_state := (mo_state mo)[i := (mo_state mo ! i) \<lparr> se_value := m_value cd, se_assigned := True \<rparr>],
                      mo_timestamp := ct_ts cd, mo_state_set := True \<rparr>))"

text \<open>
  Without a linked map the code reports a recoverable error and returns.
\<close>

definition monitoring_extractCounters ::
    "(u64 \<times> counter_data list) list \<Rightarrow> ad_monitoring \<Rightarrow> ad_monitoring res" where
  "monitoring_extractCounters counters mo =
     (case mo_counterMap mo of
        None \<Rightarrow> Inr mo
      | Some names \<Rightarrow>
          let mo1 = fold watch_counter names mo in
          foldE (update_entry counters) (mo_cid_state_map mo1) mo1)"

definition hasState :: "string \<Rightarrow> ad_monitoring \<Rightarrow> bool" where
  "hasState field_name mo =
     (case mo_fieldname_state_map mo field_name of
        None \<Rightarrow> False
      | Some i \<Rightarrow> se_assigned (mo_state mo ! i))"

definition getState :: "string \<Rightarrow> ad_monitoring \<Rightarrow> state_entry res" where
  "getState field_name mo =
     (case mo_fieldname_state_map mo field_name of
        None \<Rightarrow> Inl (Fatal ''No entry exists with the field name provided'')
      | Some i \<Rightarrow> bind (guard (Fatal ''State entry exists but has not yet been assigned'') (se_assigned (mo_state mo ! i)))
                    (\<lambda>_. Inr (mo_state mo ! i)))"

definition getMonitoringCounterIndices :: "ad_monitoring \<Rightarrow> int list" where
  "getMonitoringCounterIndices mo = map fst (mo_cid_state_map mo)"

text \<open>The JSON object: the time stamp and the assigned fields; \<open>None\<close> is the null object.\<close>

definition monitoring_get_json :: "ad_monitoring \<Rightarrow> (u64 \<times> (string \<times> u64) list) option" where
  "monitoring_get_json mo =
     (if \<not> mo_state_set mo then None
      else Some (mo_timestamp mo, map (\<lambda>e. (se_field_name e, se_value e)) (filter se_assigned (mo_state mo))))"

end
