(* ===== verification/MonitoringProps.thy ===== *)
theory MonitoringProps
  imports Monitoring
begin

text \<open>
  The node state over a run of steps: every wanted counter has one entry, and it shows the last
  value the counter had in any step.
\<close>

type_synonym monitor_step = "(int \<times> string) list \<times> (u64 \<times> counter_data list) list"

definition monitor_step :: "monitor_step \<Rightarrow> ad_monitoring \<Rightarrow> ad_monitoring res" where
  "monitor_step s mo = monitoring_extractCounters (snd s) (monitoring_linkCounterMap (fst s) mo)"

definition int_range :: "int \<Rightarrow> bool" where
  "int_range i \<longleftrightarrow> - (2 ^ 31) \<le> i \<and> i < 2 ^ 31"

definition step_ok :: "monitor_step \<Rightarrow> bool" where
  "step_ok s \<longleftrightarrow> distinct (map fst (fst s)) \<and> (\<forall>e \<in> set (fst s). int_range (fst e)) \<and>
     (\<forall>e \<in> set (snd s). snd e \<noteq> [] \<and> fst e \<in> word_of_int ` fst ` set (fst s))"

text \<open>The names of a later step extend those of an earlier one.\<close>

fun growing :: "(int \<times> string) list \<Rightarrow> monitor_step list \<Rightarrow> bool" where
  "growing names [] \<longleftrightarrow> True"
| "growing names (s # ss) \<longleftrightarrow> map_of names \<subseteq>\<^sub>m map_of (fst s) \<and> growing (fst s) ss"

definition latest_in :: "int \<Rightarrow> monitor_step \<Rightarrow> counter_data option \<Rightarrow> counter_data option" where
  "latest_in cid s c = (case map_of (snd s) (word_of_int cid) of None \<Rightarrow> c | Some cs \<Rightarrow> Some (last cs))"

definition latest :: "int \<Rightarrow> monitor_step list \<Rightarrow> counter_data option" where
  "latest cid ss = fold (latest_in cid) ss None"

definition entry_of :: "string \<Rightarrow> counter_data option \<Rightarrow> state_entry" where
  "entry_of f c = (case c of None \<Rightarrow> new_StateEntry f
     | Some d \<Rightarrow> \<lparr> se_field_name = f, se_value = m_value d, se_assigned = True \<rparr>)"

text \<open>
  The entries of the counters of a map \<open>M\<close> of names, where \<open>L\<close> gives their latest values:
  \<open>W\<close> says which names are wanted.
\<close>

definition entries_ok :: "(string \<Rightarrow> string option) \<Rightarrow> (int \<rightharpoonup> string) \<Rightarrow> (int \<Rightarrow> counter_data option)
    \<Rightarrow> ad_monitoring \<Rightarrow> bool" where
  "entries_ok W M L mo \<longleftrightarrow> distinct (map fst (mo_cid_state_map mo)) \<and> distinct (map snd (mo_cid_state_map mo)) \<and>
     set (map snd (mo_cid_state_map mo)) = {..<length (mo_state mo)} \<and> mo_cid_seen mo = dom M \<and>
     wanted_field mo = W \<and> fst ` set (mo_cid_state_map mo) = {cid. \<exists>n f. M cid = Some n \<and> W n = Some f} \<and>
     (\<forall>(cid, i) \<in> set (mo_cid_state_map mo). \<exists>n f. M cid = Some n \<and> W n = Some f \<and>
        mo_state mo ! i = entry_of f (L cid))"

lemma ordered_put_new:
  "k \<notin> fst ` set m \<Longrightarrow> mset (ordered_put k v m) = add_mset (k, v) (mset m)"
  by (induction k v m rule: ordered_put.induct) auto

lemma wanted_cong:
  "mo_counter_watchlist t = mo_counter_watchlist s \<Longrightarrow> mo_counter_prefix t = mo_counter_prefix s \<Longrightarrow>
    wanted_field t = wanted_field s"
  by (rule ext) (simp only: wanted_field_def)

lemma entries_okD:
  assumes "entries_ok W M L mo"
  shows "distinct (map fst (mo_cid_state_map mo))" "distinct (map snd (mo_cid_state_map mo))"
    "set (map snd (mo_cid_state_map mo)) = {..<length (mo_state mo)}" "mo_cid_seen mo = dom M"
    "wanted_field mo = W" "fst ` set (mo_cid_state_map mo) = {cid. \<exists>n f. M cid = Some n \<and> W n = Some f}"
    "(cid, i) \<in> set (mo_cid_state_map mo) \<Longrightarrow>
      \<exists>n f. M cid = Some n \<and> W n = Some f \<and> mo_state mo ! i = entry_of f (L cid)"
    "(cid, i) \<in> set (mo_cid_state_map mo) \<Longrightarrow> i < length (mo_state mo)"
proof -
  show "distinct (map fst (mo_cid_state_map mo))" "distinct (map snd (mo_cid_state_map mo))"
    and r: "set (map snd (mo_cid_state_map mo)) = {..<length (mo_state mo)}" and "mo_cid_seen mo = dom M"
    and "wanted_field mo = W" "fst ` set (mo_cid_state_map mo) = {cid. \<exists>n f. M cid = Some n \<and> W n = Some f}"
    using assms unfolding entries_ok_def by blast+
  show "\<exists>n f. M cid = Some n \<and> W n = Some f \<and> mo_state mo ! i = entry_of f (L cid)"
    if "(cid, i) \<in> set (mo_cid_state_map mo)"
    using assms that unfolding entries_ok_def by blast
  show "i < length (mo_state mo)" if "(cid, i) \<in> set (mo_cid_state_map mo)"
  proof -
    have "i \<in> set (map snd (mo_cid_state_map mo))" using that by force
    then show ?thesis unfolding r by simp
  qed
qed

lemma entries_okI:
  assumes "distinct (map fst (mo_cid_state_map mo))" "distinct (map snd (mo_cid_state_map mo))"
    "set (map snd (mo_cid_state_map mo)) = {..<length (mo_state mo)}" "mo_cid_seen mo = dom M"
    "wanted_field mo = W" "fst ` set (mo_cid_state_map mo) = {cid. \<exists>n f. M cid = Some n \<and> W n = Some f}"
    "\<And>cid i. (cid, i) \<in> set (mo_cid_state_map mo) \<Longrightarrow>
      \<exists>n f. M cid = Some n \<and> W n = Some f \<and> mo_state mo ! i = entry_of f (L cid)"
  shows "entries_ok W M L mo"
  using assms unfolding entries_ok_def by blast

lemma watch_counter_ok:
  assumes ok: "entries_ok W M L mo" and fresh: "M cid = None" "L cid = None"
  shows "entries_ok W (M(cid \<mapsto> n)) L (watch_counter (cid, n) mo)"
proof -
  note o = entries_okD [OF ok]
  have unseen: "cid \<notin> mo_cid_seen mo" using o(4) fresh(1) by auto
  have new: "cid \<notin> fst ` set (mo_cid_state_map mo)" using o(6) fresh(1) by auto
  let ?t = "watch_counter (cid, n) mo"
  have want: "wanted_field ?t = W"
    unfolding o(5) [symmetric] by (rule wanted_cong) (simp_all add: watch_counter_def Let_def split: option.split)
  have seen: "mo_cid_seen ?t = dom (M(cid \<mapsto> n))"
    using o(4) unseen by (simp add: watch_counter_def Let_def split: option.split)
  show ?thesis
  proof (cases "W n")
    case None
    have t: "mo_state ?t = mo_state mo" "mo_cid_state_map ?t = mo_cid_state_map mo"
      using None o(5) unseen by (simp_all add: watch_counter_def Let_def)
    have each: "\<exists>n' f. (M(cid \<mapsto> n)) c = Some n' \<and> W n' = Some f \<and> mo_state mo ! i = entry_of f (L c)"
      if ci: "(c, i) \<in> set (mo_cid_state_map mo)" for c i
    proof -
      have "c \<noteq> cid" using ci new by force
      then show ?thesis using o(7) [OF ci] by simp
    qed
    have "{c. \<exists>n' f. (M(cid \<mapsto> n)) c = Some n' \<and> W n' = Some f} = {c. \<exists>n f. M c = Some n \<and> W n = Some f}"
      using None fresh(1) by auto
    then show ?thesis using each o(1-3,6) want seen by (intro entries_okI) (simp_all only: t)
  next
    case (Some f)
    let ?i = "length (mo_state mo)"
    have t: "mo_state ?t = mo_state mo @ [new_StateEntry f]"
      "mset (mo_cid_state_map ?t) = add_mset (cid, ?i) (mset (mo_cid_state_map mo))"
      using Some o(5) unseen by (simp_all add: watch_counter_def Let_def ordered_put_new [OF new])
    have set_t: "set (mo_cid_state_map ?t) = insert (cid, ?i) (set (mo_cid_state_map mo))"
      using t(2) by (metis set_mset_add_mset_insert set_mset_mset)
    have perm: "mset (map g (mo_cid_state_map ?t)) = mset (g (cid, ?i) # map g (mo_cid_state_map mo))" for g :: "int \<times> nat \<Rightarrow> 'c"
      using t(2) by simp
    have "distinct (map fst (mo_cid_state_map ?t))"
      using mset_eq_imp_distinct_iff [OF perm [of fst]] o(1) new by simp
    moreover have "distinct (map snd (mo_cid_state_map ?t))"
      using mset_eq_imp_distinct_iff [OF perm [of snd]] o(2,3) by simp
    moreover have "set (map snd (mo_cid_state_map ?t)) = {..<length (mo_state ?t)}"
      using o(3) unfolding set_map set_t t(1) by auto
    moreover have "fst ` set (mo_cid_state_map ?t) = {c. \<exists>n' f. (M(cid \<mapsto> n)) c = Some n' \<and> W n' = Some f}"
      unfolding set_t image_insert o(6) using Some fresh(1) by auto
    moreover have "\<exists>n' f. (M(cid \<mapsto> n)) c = Some n' \<and> W n' = Some f \<and> mo_state ?t ! i = entry_of f (L c)"
      if m: "(c, i) \<in> set (mo_cid_state_map ?t)" for c i
    proof (cases "c = cid")
      case True
      then have "(c, i) \<notin> set (mo_cid_state_map mo)" using new by force
      then have "i = ?i" using m by (simp add: set_t)
      then show ?thesis using True Some fresh(2) by (auto simp: t(1) entry_of_def)
    next
      case False
      then have "(c, i) \<in> set (mo_cid_state_map mo)" using m by (simp add: set_t)
      from o(7) [OF this] o(8) [OF this] show ?thesis using False by (simp add: t(1) nth_append)
    qed
    ultimately show ?thesis using want seen by (intro entries_okI)
  qed
qed

lemma watch_seen:
  "cid \<in> mo_cid_seen mo \<Longrightarrow> watch_counter (cid, n) mo = mo"
  by (simp add: watch_counter_def)

lemma watch_counters_ok:
  assumes "entries_ok W M L mo" "\<forall>cid. M cid = None \<longrightarrow> L cid = None" "distinct (map fst names)"
    and "\<forall>(cid, n) \<in> set names. M cid = None \<or> M cid = Some n"
  shows "entries_ok W (M ++ map_of names) L (fold watch_counter names mo)"
  using assms
proof (induction names arbitrary: mo M)
  case (Cons cn names)
  obtain cid n where cn: "cn = (cid, n)" by (cases cn)
  have later: "map_of names cid = None" using Cons.prems(3) cn by (simp add: map_of_eq_None_iff)
  show ?case
  proof (cases "M cid")
    case None
    have "entries_ok W (M(cid \<mapsto> n)) L (watch_counter (cid, n) mo)"
      by (rule watch_counter_ok) (use Cons.prems None in auto)
    then have "entries_ok W (M(cid \<mapsto> n) ++ map_of names) L (fold watch_counter names (watch_counter (cid, n) mo))"
    proof (rule Cons.IH)
      show "\<forall>c. (M(cid \<mapsto> n)) c = None \<longrightarrow> L c = None" using Cons.prems(2) by simp
      show "distinct (map fst names)" using Cons.prems(3) by simp
      have "c \<noteq> cid" if "(c, n') \<in> set names" for c n' using that Cons.prems(3) cn by force
      then show "\<forall>(c, n') \<in> set names. (M(cid \<mapsto> n)) c = None \<or> (M(cid \<mapsto> n)) c = Some n'"
        using Cons.prems(4) by fastforce
    qed
    moreover have "M(cid \<mapsto> n) ++ map_of names = M ++ map_of (cn # names)"
      using later cn by (auto simp: map_add_def fun_eq_iff split: option.splits)
    moreover have "fold watch_counter (cn # names) mo = fold watch_counter names (watch_counter (cid, n) mo)"
      by (simp add: cn)
    ultimately show ?thesis by (simp only:)
  next
    case (Some n')
    then have n': "n' = n" using Cons.prems(4) cn by auto
    have "cid \<in> mo_cid_seen mo" using entries_okD(4) [OF Cons.prems(1)] Some by auto
    moreover have "entries_ok W (M ++ map_of names) L (fold watch_counter names mo)"
    proof (rule Cons.IH [OF Cons.prems(1,2)])
      show "distinct (map fst names)" using Cons.prems(3) by simp
      show "\<forall>(c, n') \<in> set names. M c = None \<or> M c = Some n'" using Cons.prems(4) by simp
    qed
    moreover have "M ++ map_of names = M ++ map_of (cn # names)"
      by (rule ext) (simp add: cn map_add_def later Some n' split: option.split)
    moreover have "fold watch_counter (cn # names) mo = fold watch_counter names mo"
      using \<open>cid \<in> mo_cid_seen mo\<close> by (simp add: cn watch_seen)
    ultimately show ?thesis by (simp only:)
  qed
qed simp
subsection \<open>The values of a step\<close>

definition value_in :: "(u64 \<times> counter_data list) list \<Rightarrow> int \<Rightarrow> state_entry \<Rightarrow> state_entry" where
  "value_in counters cid e = (case map_of counters (word_of_int cid) of None \<Rightarrow> e
     | Some cs \<Rightarrow> e \<lparr> se_value := m_value (last cs), se_assigned := True \<rparr>)"

lemma value_in_entry: "value_in counters cid (entry_of f c) = entry_of f (latest_in cid (names, counters) c)"
  by (auto simp: value_in_def entry_of_def latest_in_def new_StateEntry_def split: option.split)

definition same_watch :: "ad_monitoring \<Rightarrow> ad_monitoring \<Rightarrow> bool" where
  "same_watch s t \<longleftrightarrow> mo_cid_state_map t = mo_cid_state_map s \<and> mo_cid_seen t = mo_cid_seen s \<and>
     mo_counter_watchlist t = mo_counter_watchlist s \<and> mo_counter_prefix t = mo_counter_prefix s \<and>
     length (mo_state t) = length (mo_state s)"

lemma update_entry_ok:
  assumes "\<forall>e \<in> set counters. snd e \<noteq> []" "i < length (mo_state mo)"
  shows "\<exists>t. update_entry counters (cid, i) mo = Inr t \<and> same_watch mo t \<and>
    mo_state t = (mo_state mo)[i := value_in counters cid (mo_state mo ! i)] \<and>
    (mo_state_set t \<longleftrightarrow> mo_state_set mo \<or> map_of counters (word_of_int cid) \<noteq> None)"
proof (cases "map_of counters (word_of_int cid)")
  case None
  then show ?thesis by (simp add: update_entry_def same_watch_def value_in_def)
next
  case (Some cs)
  then have "cs \<noteq> []" using assms(1) map_of_SomeD [OF Some] by auto
  then show ?thesis using Some assms(2) by (simp add: update_entry_def same_watch_def value_in_def Let_def)
qed

lemma update_entries_ok:
  assumes "\<forall>e \<in> set counters. snd e \<noteq> []" "\<forall>e \<in> set xs. snd e < length (mo_state mo)" "distinct (map snd xs)"
  shows "\<exists>t. foldE (update_entry counters) xs mo = Inr t \<and> same_watch mo t \<and>
    (\<forall>(cid, i) \<in> set xs. mo_state t ! i = value_in counters cid (mo_state mo ! i)) \<and>
    (\<forall>i. i \<notin> snd ` set xs \<longrightarrow> mo_state t ! i = mo_state mo ! i) \<and>
    (mo_state_set t \<longleftrightarrow> mo_state_set mo \<or> (\<exists>cid \<in> fst ` set xs. map_of counters (word_of_int cid) \<noteq> None))"
  using assms(2,3)
proof (induction xs arbitrary: mo)
  case Nil
  then show ?case by (simp add: same_watch_def)
next
  case (Cons ci xs)
  obtain cid i where ci: "ci = (cid, i)" by (cases ci)
  have i: "i < length (mo_state mo)" using Cons.prems(1) ci by simp
  obtain u where u: "update_entry counters (cid, i) mo = Inr u" "same_watch mo u"
    "mo_state u = (mo_state mo)[i := value_in counters cid (mo_state mo ! i)]"
    "mo_state_set u \<longleftrightarrow> mo_state_set mo \<or> map_of counters (word_of_int cid) \<noteq> None"
    using update_entry_ok [OF assms(1) i, of cid] by blast
  have "\<forall>e \<in> set xs. snd e < length (mo_state u)" using Cons.prems(1) u(3) by simp
  then obtain t where t: "foldE (update_entry counters) xs u = Inr t" "same_watch u t"
    "\<forall>(cid, i) \<in> set xs. mo_state t ! i = value_in counters cid (mo_state u ! i)"
    "\<forall>i. i \<notin> snd ` set xs \<longrightarrow> mo_state t ! i = mo_state u ! i"
    "mo_state_set t \<longleftrightarrow> mo_state_set u \<or> (\<exists>cid \<in> fst ` set xs. map_of counters (word_of_int cid) \<noteq> None)"
    using Cons.IH [of u] Cons.prems(2) by auto
  have fresh: "i \<notin> snd ` set xs" using Cons.prems(2) ci by simp
  have run: "foldE (update_entry counters) (ci # xs) mo = Inr t" using u(1) t(1) ci by simp
  have watch: "same_watch mo t" using u(2) t(2) by (simp add: same_watch_def)
  have mine: "mo_state t ! i = value_in counters cid (mo_state mo ! i)" using t(4) fresh u(3) i by simp
  have others: "mo_state t ! k = value_in counters c (mo_state mo ! k)" if "(c, k) \<in> set xs" for c k
  proof -
    have "k \<noteq> i" using that fresh by force
    then show ?thesis using bspec [OF t(3) that] u(3) by simp
  qed
  have rest: "mo_state t ! k = mo_state mo ! k" if "k \<notin> snd ` set (ci # xs)" for k
  proof -
    have "k \<noteq> i" "k \<notin> snd ` set xs" using that ci by auto
    then show ?thesis using t(4) u(3) by simp
  qed
  have set: "mo_state_set t \<longleftrightarrow> mo_state_set mo \<or> (\<exists>cid \<in> fst ` set (ci # xs). map_of counters (word_of_int cid) \<noteq> None)"
    using u(4) t(5) ci by auto
  have "\<forall>(c, k) \<in> set (ci # xs). mo_state t ! k = value_in counters c (mo_state mo ! k)"
    using mine others ci by auto
  then show ?case using run watch rest set by blast
qed

lemma word_of_int_range:
  assumes "int_range i" "int_range j" "(word_of_int i :: u64) = word_of_int j"
  shows "i = j"
proof -
  have "sint (word_of_int k :: u64) = k" if "int_range k" for k
    unfolding sint_sbintrunc' using that
    by (intro signed_take_bit_int_eq_self) (simp_all add: int_range_def)
  then show ?thesis using assms by metis
qed

text \<open>One step: the entries of the wanted names, with the latest values.\<close>

lemma monitor_step_ok:
  assumes ok: "entries_ok W (map_of names0) L mo" and s: "step_ok s" and grow: "map_of names0 \<subseteq>\<^sub>m map_of (fst s)"
    and L: "\<forall>cid. map_of names0 cid = None \<longrightarrow> L cid = None"
  shows "\<exists>t. monitor_step s mo = Inr t \<and> entries_ok W (map_of (fst s)) (\<lambda>cid. latest_in cid s (L cid)) t \<and>
    (\<forall>cid. map_of (fst s) cid = None \<longrightarrow> int_range cid \<longrightarrow> latest_in cid s (L cid) = None) \<and>
    (mo_state_set t \<longleftrightarrow> mo_state_set mo \<or> (\<exists>cid n f. map_of (fst s) cid = Some n \<and> W n = Some f \<and>
       map_of (snd s) (word_of_int cid) \<noteq> None))"
proof -
  obtain names counters where sd: "s = (names, counters)" by (cases s)
  let ?mo = "monitoring_linkCounterMap names mo"
  have "wanted_field ?mo = wanted_field mo" by (rule wanted_cong) (simp_all add: monitoring_linkCounterMap_def)
  then have "entries_ok W (map_of names0) L ?mo"
    using ok unfolding entries_ok_def by (simp add: monitoring_linkCounterMap_def)
  moreover have "\<forall>(cid, n) \<in> set names. map_of names0 cid = None \<or> map_of names0 cid = Some n"
  proof (intro ballI, clarify)
    fix cid n assume "(cid, n) \<in> set names" and "map_of names0 cid \<noteq> Some n"
    moreover have "map_of names cid = Some n" using s sd \<open>(cid, n) \<in> set names\<close> by (simp add: step_ok_def)
    moreover have "map_of names cid = map_of names0 cid" if "map_of names0 cid \<noteq> None"
      using grow sd that by (simp add: map_le_def dom_def)
    ultimately show "map_of names0 cid = None" by force
  qed
  ultimately have "entries_ok W (map_of names0 ++ map_of names) L (fold watch_counter names ?mo)"
    using watch_counters_ok [OF _ L] s sd by (simp add: step_ok_def)
  moreover have "map_of names0 ++ map_of names = map_of names"
    using map_le_antisym [OF map_add_le_mapI [OF grow map_le_refl] map_le_map_add] sd by simp
  ultimately have w: "entries_ok W (map_of names) L (fold watch_counter names ?mo)" by simp
  let ?u = "fold watch_counter names ?mo"
  have us: "mo_state_set (fold watch_counter ns m) = mo_state_set m" for ns m
  proof (induction ns arbitrary: m)
    case (Cons e ns)
    have "mo_state_set (watch_counter e m) = mo_state_set m"
      by (cases e) (simp add: watch_counter_def Let_def split: option.split)
    then show ?case using Cons by simp
  qed simp
  note o = entries_okD [OF w]
  have full: "\<forall>e \<in> set counters. snd e \<noteq> []" using s sd by (simp add: step_ok_def)
  have below: "\<forall>e \<in> set (mo_cid_state_map ?u). snd e < length (mo_state ?u)"
  proof
    fix e assume "e \<in> set (mo_cid_state_map ?u)"
    then show "snd e < length (mo_state ?u)" using o(8) [of "fst e" "snd e"] by simp
  qed
  obtain t where t: "foldE (update_entry counters) (mo_cid_state_map ?u) ?u = Inr t" "same_watch ?u t"
    "\<forall>(cid, i) \<in> set (mo_cid_state_map ?u). mo_state t ! i = value_in counters cid (mo_state ?u ! i)"
    "mo_state_set t \<longleftrightarrow> mo_state_set ?u \<or> (\<exists>cid \<in> fst ` set (mo_cid_state_map ?u). map_of counters (word_of_int cid) \<noteq> None)"
    using update_entries_ok [OF full below o(2)] by (elim exE conjE) (rule that)
  have run: "monitor_step s mo = Inr t"
    using t(1) sd by (simp add: monitor_step_def monitoring_extractCounters_def monitoring_linkCounterMap_def)
  have wt: "wanted_field t = wanted_field ?u" using t(2) by (intro wanted_cong) (simp_all add: same_watch_def)
  have cm: "mo_cid_state_map t = mo_cid_state_map ?u" "mo_cid_seen t = mo_cid_seen ?u"
    "length (mo_state t) = length (mo_state ?u)" using t(2) by (simp_all add: same_watch_def)
  have "entries_ok W (map_of names) (\<lambda>cid. latest_in cid s (L cid)) t"
  proof (rule entries_okI)
    fix cid i assume ci: "(cid, i) \<in> set (mo_cid_state_map t)"
    then have cu: "(cid, i) \<in> set (mo_cid_state_map ?u)" by (simp only: cm)
    obtain n f where n: "map_of names cid = Some n" "W n = Some f" "mo_state ?u ! i = entry_of f (L cid)"
      using o(7) [OF cu] by blast
    have "mo_state t ! i = entry_of f (latest_in cid s (L cid))"
      using bspec [OF t(3) cu] n(3) value_in_entry [of counters cid f "L cid" names] sd by simp
    then show "\<exists>n f. map_of names cid = Some n \<and> W n = Some f \<and> mo_state t ! i = entry_of f (latest_in cid s (L cid))"
      using n by blast
  next
    show "distinct (map fst (mo_cid_state_map t))" unfolding cm by (rule o(1))
    show "distinct (map snd (mo_cid_state_map t))" unfolding cm by (rule o(2))
    show "set (map snd (mo_cid_state_map t)) = {..<length (mo_state t)}" unfolding cm by (rule o(3))
    show "mo_cid_seen t = dom (map_of names)" unfolding cm by (rule o(4))
    show "wanted_field t = W" unfolding wt by (rule o(5))
    show "fst ` set (mo_cid_state_map t) = {cid. \<exists>n f. map_of names cid = Some n \<and> W n = Some f}"
      unfolding cm by (rule o(6))
  qed
  moreover have "latest_in cid s (L cid) = None" if "map_of names cid = None" "int_range cid" for cid
  proof -
    have "map_of names0 cid = None" using grow sd that by (auto simp: map_le_def dom_def)
    moreover have "map_of counters (word_of_int cid) = None"
    proof (rule ccontr)
      assume "map_of counters (word_of_int cid) \<noteq> None"
      then obtain cs where "(word_of_int cid, cs) \<in> set counters" using map_of_SomeD by fastforce
      moreover have "\<forall>e \<in> set counters. fst e \<in> word_of_int ` fst ` set names" using s sd by (simp add: step_ok_def)
      ultimately have "fst (word_of_int cid :: u64, cs) \<in> word_of_int ` fst ` set names" by (rule bspec [rotated])
      then have "word_of_int cid \<in> (word_of_int ` fst ` set names :: u64 set)" by simp
      then obtain e where e: "e \<in> set names" "(word_of_int cid :: u64) = word_of_int (fst e)" by auto
      then have "cid = fst e" using word_of_int_range [OF that(2) _ e(2)] s sd by (simp add: step_ok_def)
      then show False using e(1) that(1) by (force simp: map_of_eq_None_iff)
    qed
    ultimately show ?thesis using L sd by (simp add: latest_in_def)
  qed
  moreover have "mo_state_set ?u = mo_state_set mo" by (simp add: us monitoring_linkCounterMap_def)
  moreover have "(\<exists>cid \<in> fst ` set (mo_cid_state_map ?u). map_of counters (word_of_int cid) \<noteq> None) \<longleftrightarrow>
      (\<exists>cid n f. map_of names cid = Some n \<and> W n = Some f \<and> map_of counters (word_of_int cid) \<noteq> None)"
    unfolding o(6) by blast
  ultimately show ?thesis using run t(4) unfolding sd fst_conv snd_conv by blast
qed
subsection \<open>Runs\<close>

definition fresh_monitoring :: "ad_monitoring \<Rightarrow> bool" where
  "fresh_monitoring mo \<longleftrightarrow> mo_state mo = [] \<and> mo_cid_state_map mo = [] \<and> mo_cid_seen mo = {} \<and> \<not> mo_state_set mo"

definition shown :: "(string \<Rightarrow> string option) \<Rightarrow> (int \<rightharpoonup> string) \<Rightarrow> monitor_step list \<Rightarrow> (string \<times> u64) set" where
  "shown W M ss = {(f, m_value c) | f c cid n. M cid = Some n \<and> W n = Some f \<and> latest cid ss = Some c}"

fun last_names :: "(int \<times> string) list \<Rightarrow> monitor_step list \<Rightarrow> (int \<times> string) list" where
  "last_names names [] = names"
| "last_names names (s # ss) = last_names (fst s) ss"

lemma latest_snoc: "latest cid (ss @ [s]) = latest_in cid s (latest cid ss)"
  by (simp add: latest_def)

lemma growing_snoc: "growing names (ss @ [s]) \<longleftrightarrow> growing names ss \<and> map_of (last_names names ss) \<subseteq>\<^sub>m map_of (fst s)"
  by (induction ss arbitrary: names) auto

lemma last_names_snoc [simp]: "last_names names (ss @ [s]) = fst s"
  by (induction ss arbitrary: names) auto

lemma monitor_run_ok:
  assumes "fresh_monitoring mo" "growing [] ss" "\<forall>s \<in> set ss. step_ok s"
  shows "\<exists>t L. foldE monitor_step ss mo = Inr t \<and>
    entries_ok (wanted_field mo) (map_of (last_names [] ss)) L t \<and>
    (\<forall>cid. map_of (last_names [] ss) cid = None \<longrightarrow> L cid = None) \<and>
    (\<forall>cid. int_range cid \<longrightarrow> L cid = latest cid ss) \<and>
    (\<forall>cid n. map_of (last_names [] ss) cid = Some n \<longrightarrow> int_range cid) \<and>
    (mo_state_set t \<longleftrightarrow> (\<exists>cid n f. map_of (last_names [] ss) cid = Some n \<and> wanted_field mo n = Some f \<and> L cid \<noteq> None))"
  using assms(2,3)
proof (induction ss rule: rev_induct)
  case Nil
  have "entries_ok (wanted_field mo) Map.empty (\<lambda>_. None) mo"
    using assms(1) by (intro entries_okI) (auto simp: fresh_monitoring_def)
  then show ?case
    using assms(1) by (intro exI [of _ mo] exI [of _ "\<lambda>_. None"]) (simp add: latest_def fresh_monitoring_def)
next
  case (snoc s ss)
  let ?N = "last_names [] ss" and ?W = "wanted_field mo"
  have prev: "growing [] ss" "\<forall>s \<in> set ss. step_ok s" "step_ok s" "map_of ?N \<subseteq>\<^sub>m map_of (fst s)"
    using snoc.prems by (simp_all add: growing_snoc)
  from snoc.IH [OF prev(1,2)] obtain t L where t: "foldE monitor_step ss mo = Inr t"
    "entries_ok ?W (map_of ?N) L t" "\<forall>cid. map_of ?N cid = None \<longrightarrow> L cid = None"
    "\<forall>cid. int_range cid \<longrightarrow> L cid = latest cid ss" "\<forall>cid n. map_of ?N cid = Some n \<longrightarrow> int_range cid"
    "mo_state_set t \<longleftrightarrow> (\<exists>cid n f. map_of ?N cid = Some n \<and> ?W n = Some f \<and> L cid \<noteq> None)"
    by (elim exE conjE) (rule that)
  let ?L = "\<lambda>cid. latest_in cid s (L cid)"
  let ?K = "\<lambda>cid. if int_range cid then ?L cid else None"
  obtain u where u: "monitor_step s t = Inr u" "entries_ok ?W (map_of (fst s)) ?L u"
    "\<forall>cid. map_of (fst s) cid = None \<longrightarrow> int_range cid \<longrightarrow> ?L cid = None"
    "mo_state_set u \<longleftrightarrow> mo_state_set t \<or> (\<exists>cid n f. map_of (fst s) cid = Some n \<and> ?W n = Some f \<and>
       map_of (snd s) (word_of_int cid) \<noteq> None)"
    using monitor_step_ok [OF t(2) prev(3,4) t(3)] by (elim exE conjE) (rule that)
  have range: "int_range cid" if "map_of (fst s) cid = Some n" for cid n
    using map_of_SomeD [OF that] prev(3) by (force simp: step_ok_def)
  have K: "?K cid = ?L cid" if "map_of (fst s) cid = Some n" for cid n
    using range [OF that] by simp
  have "entries_ok ?W (map_of (fst s)) ?K u"
  proof (rule entries_okI)
    fix cid i assume "(cid, i) \<in> set (mo_cid_state_map u)"
    from entries_okD(7) [OF u(2) this]
    show "\<exists>n f. map_of (fst s) cid = Some n \<and> ?W n = Some f \<and> mo_state u ! i = entry_of f (?K cid)"
      using K by fastforce
  qed (rule entries_okD [OF u(2)])+
  moreover have "foldE monitor_step (ss @ [s]) mo = Inr u" using t(1) u(1) by (simp add: foldE_append)
  moreover have "\<forall>cid. int_range cid \<longrightarrow> ?K cid = latest cid (ss @ [s])" using t(4) by (simp add: latest_snoc)
  moreover have "mo_state_set u \<longleftrightarrow> (\<exists>cid n f. map_of (fst s) cid = Some n \<and> ?W n = Some f \<and> ?K cid \<noteq> None)"
  proof -
    have sub: "map_of (fst s) cid = Some n" if "map_of ?N cid = Some n" for cid n
      using prev(4) that by (metis domI map_le_def)
    have one: "?K cid \<noteq> None \<longleftrightarrow> L cid \<noteq> None \<or> map_of (snd s) (word_of_int cid) \<noteq> None"
      if "map_of (fst s) cid = Some n" for cid n
      using range [OF that] by (auto simp: latest_in_def split: option.split)
    have prior: "map_of ?N cid = Some n" if "L cid \<noteq> None" "map_of (fst s) cid = Some n" for cid n
    proof -
      have "map_of ?N cid \<noteq> None" using spec [OF t(3), of cid] that(1) by blast
      then obtain n' where n': "map_of ?N cid = Some n'" by (elim not_None_eq [THEN iffD1, THEN exE]) (rule that)
      have "map_of (fst s) cid = Some n'" by (rule sub [OF n'])
      with that(2) n' show ?thesis by (simp only: option.inject)
    qed
    show ?thesis
    proof
      assume "mo_state_set u"
      then consider cid n f where "map_of ?N cid = Some n" "?W n = Some f" "L cid \<noteq> None"
        | cid n f where "map_of (fst s) cid = Some n" "?W n = Some f" "map_of (snd s) (word_of_int cid) \<noteq> None"
        unfolding u(4) t(6) by blast
      then show "\<exists>cid n f. map_of (fst s) cid = Some n \<and> ?W n = Some f \<and> ?K cid \<noteq> None"
      proof cases
        case 1
        from sub [OF 1(1)] 1(2,3) one [OF sub [OF 1(1)]] show ?thesis by blast
      next
        case 2
        from 2 one [OF 2(1)] show ?thesis by blast
      qed
    next
      assume "\<exists>cid n f. map_of (fst s) cid = Some n \<and> ?W n = Some f \<and> ?K cid \<noteq> None"
      then obtain cid n f where c: "map_of (fst s) cid = Some n" "?W n = Some f" "?K cid \<noteq> None" by blast
      from one [OF c(1)] c(3) consider "L cid \<noteq> None" | "map_of (snd s) (word_of_int cid) \<noteq> None" by blast
      then show "mo_state_set u"
      proof cases
        case 1
        from prior [OF 1 c(1)] c(2) 1 show ?thesis unfolding u(4) t(6) by blast
      next
        case 2
        from c(1,2) 2 show ?thesis unfolding u(4) by blast
      qed
    qed
  qed
  moreover have "\<forall>cid. map_of (fst s) cid = None \<longrightarrow> ?K cid = None" using u(3) by simp
  moreover have "\<forall>cid n. map_of (fst s) cid = Some n \<longrightarrow> int_range cid" using range by blast
  ultimately show ?case unfolding last_names_snoc by blast
qed

lemma json_fields_ok:
  assumes "entries_ok W M L t" "\<And>cid n. M cid = Some n \<Longrightarrow> L cid = latest cid ss"
  shows "set (map (\<lambda>e. (se_field_name e, se_value e)) (filter se_assigned (mo_state t))) = shown W M ss"
    and "length (map (\<lambda>e. (se_field_name e, se_value e)) (filter se_assigned (mo_state t))) =
      card {cid. \<exists>n f. M cid = Some n \<and> W n = Some f \<and> latest cid ss \<noteq> None}"
proof -
  note o = entries_okD [OF assms(1)]
  let ?c = "mo_cid_state_map t" and ?f = "\<lambda>e. (se_field_name e, se_value e)"
  have perm: "mset (map ((!) (mo_state t)) (map snd ?c)) = mset (mo_state t)"
  proof -
    have "mset (map snd ?c) = mset [0..<length (mo_state t)]"
      using o(2,3) set_eq_iff_mset_eq_distinct [of "map snd ?c" "[0..<length (mo_state t)]"]
      by (simp add: lessThan_atLeast0)
    then show ?thesis by (metis map_nth mset_map)
  qed
  have rows: "mset (map ?f (filter se_assigned (mo_state t))) =
      mset (map (\<lambda>ci. ?f (mo_state t ! snd ci)) (filter (\<lambda>ci. se_assigned (mo_state t ! snd ci)) ?c))"
  proof -
    have "mset (map ?f (filter se_assigned (mo_state t))) =
        image_mset ?f (filter_mset se_assigned (mset (map ((!) (mo_state t)) (map snd ?c))))"
      unfolding perm by (simp add: mset_filter)
    also have "\<dots> = mset (map ?f (filter se_assigned (map ((!) (mo_state t)) (map snd ?c))))"
      by (simp add: mset_filter)
    finally show ?thesis by (simp add: filter_map comp_def)
  qed
  have entry: "\<exists>n f. M cid = Some n \<and> W n = Some f \<and> mo_state t ! i = entry_of f (latest cid ss)"
    if "(cid, i) \<in> set ?c" for cid i
    using o(7) [OF that] assms(2) by metis
  have assigned: "se_assigned (entry_of f c) \<longleftrightarrow> c \<noteq> None" for f c
    by (cases c) (simp_all add: entry_of_def new_StateEntry_def)
  show "set (map ?f (filter se_assigned (mo_state t))) = shown W M ss" (is "?S = _")
  proof
    have S: "?S = (\<lambda>ci. ?f (mo_state t ! snd ci)) ` {ci \<in> set ?c. se_assigned (mo_state t ! snd ci)}"
      using mset_eq_setD [OF rows] by (simp only: set_map set_filter)
    show "?S \<subseteq> shown W M ss"
    proof
      fix v assume "v \<in> ?S"
      then obtain cid i where c: "(cid, i) \<in> set ?c" "se_assigned (mo_state t ! i)" "v = ?f (mo_state t ! i)"
        unfolding S by auto
      obtain n f where e: "M cid = Some n" "W n = Some f" "mo_state t ! i = entry_of f (latest cid ss)"
        using entry [OF c(1)] by blast
      with c(2) obtain d where "latest cid ss = Some d" by (auto simp: assigned)
      then show "v \<in> shown W M ss" using c(3) e by (auto simp: shown_def entry_of_def)
    qed
    show "shown W M ss \<subseteq> ?S"
    proof
      fix v assume "v \<in> shown W M ss"
      then obtain f c cid n where v: "v = (f, m_value c)" "M cid = Some n" "W n = Some f" "latest cid ss = Some c"
        by (auto simp: shown_def)
      then have "cid \<in> fst ` set ?c" unfolding o(6) by blast
      then obtain i where i: "(cid, i) \<in> set ?c" by auto
      have e: "mo_state t ! i = entry_of f (latest cid ss)" using entry [OF i] v by auto
      then have "?f (mo_state t ! i) = v" "se_assigned (mo_state t ! i)" using v by (simp_all add: entry_of_def)
      then show "v \<in> ?S" unfolding S using i by force
    qed
  qed
  show "length (map ?f (filter se_assigned (mo_state t))) =
      card {cid. \<exists>n f. M cid = Some n \<and> W n = Some f \<and> latest cid ss \<noteq> None}"
  proof -
    let ?g = "filter (\<lambda>ci. se_assigned (mo_state t ! snd ci)) ?c"
    have "length (map ?f (filter se_assigned (mo_state t))) = length ?g"
      using mset_eq_length [OF rows] by simp
    also have "\<dots> = card (set (map fst ?g))"
      using o(1) by (metis distinct_card distinct_map_filter length_map)
    also have "set (map fst ?g) = {cid. \<exists>n f. M cid = Some n \<and> W n = Some f \<and> latest cid ss \<noteq> None}"
    proof (intro set_eqI iffI)
      fix cid assume "cid \<in> set (map fst ?g)"
      then obtain i where i: "(cid, i) \<in> set ?c" "se_assigned (mo_state t ! i)" by auto
      then show "cid \<in> {cid. \<exists>n f. M cid = Some n \<and> W n = Some f \<and> latest cid ss \<noteq> None}"
        using entry [of cid i] assigned by auto
    next
      fix cid assume "cid \<in> {cid. \<exists>n f. M cid = Some n \<and> W n = Some f \<and> latest cid ss \<noteq> None}"
      then have a: "cid \<in> fst ` set ?c" "latest cid ss \<noteq> None" unfolding o(6) by blast+
      then obtain i where i: "(cid, i) \<in> set ?c" by auto
      obtain n f where "mo_state t ! i = entry_of f (latest cid ss)" using entry [OF i] by blast
      then have "se_assigned (mo_state t ! i)" using assigned a(2) by (simp only:) simp
      then have "(cid, i) \<in> set ?g" using i by simp
      then show "cid \<in> set (map fst ?g)" by force
    qed
    finally show ?thesis .
  qed
qed

text \<open>
  C21. Over any run of steps of a fresh monitor with growing counter names, extracting the counters
  never fails; the indices it watches are those of the wanted names; and its output is null as long
  as no wanted counter had a value, and afterwards shows, with one entry per counter, exactly the
  last value every wanted counter had in any step.
\<close>

theorem monitoring_shows_latest:
  assumes "fresh_monitoring mo" "growing [] ss" "\<forall>s \<in> set ss. step_ok s"
  shows "\<exists>t. foldE monitor_step ss mo = Inr t \<and>
    (let M = map_of (last_names [] ss); W = wanted_field mo in
     set (getMonitoringCounterIndices t) = {cid. \<exists>n f. M cid = Some n \<and> W n = Some f} \<and>
     (case monitoring_get_json t of
        None \<Rightarrow> shown W M ss = {}
      | Some (ts, out) \<Rightarrow> set out = shown W M ss \<and> shown W M ss \<noteq> {} \<and>
          length out = card {cid. \<exists>n f. M cid = Some n \<and> W n = Some f \<and> latest cid ss \<noteq> None}))"
proof -
  let ?M = "map_of (last_names [] ss)" and ?W = "wanted_field mo"
  obtain t L where t: "foldE monitor_step ss mo = Inr t" "entries_ok ?W ?M L t"
    "\<forall>cid. ?M cid = None \<longrightarrow> L cid = None" "\<forall>cid. int_range cid \<longrightarrow> L cid = latest cid ss"
    "\<forall>cid n. ?M cid = Some n \<longrightarrow> int_range cid"
    "mo_state_set t \<longleftrightarrow> (\<exists>cid n f. ?M cid = Some n \<and> ?W n = Some f \<and> L cid \<noteq> None)"
    using monitor_run_ok [OF assms] by (elim exE conjE) (rule that)
  note o = entries_okD [OF t(2)]
  have L: "L cid = latest cid ss" if "?M cid = Some n" for cid n using t(4,5) that by blast
  have "mo_state_set t \<longleftrightarrow> shown ?W ?M ss \<noteq> {}"
  proof -
    have "mo_state_set t \<longleftrightarrow> (\<exists>cid n f. ?M cid = Some n \<and> ?W n = Some f \<and> latest cid ss \<noteq> None)"
      unfolding t(6) using L by metis
    then show ?thesis by (auto simp: shown_def)
  qed
  moreover have "set (getMonitoringCounterIndices t) = {cid. \<exists>n f. ?M cid = Some n \<and> ?W n = Some f}"
    unfolding getMonitoringCounterIndices_def set_map by (rule o(6))
  ultimately show ?thesis
    using t(1) json_fields_ok [OF t(2) L] by (intro exI [of _ t]) (auto simp: monitoring_get_json_def Let_def)
qed
definition monitored :: "u64 \<Rightarrow> counter_data" where
  "monitored v = \<lparr> m_countername = ''monitoring: rss'', ct_pid = 0, ct_rid = 0, ct_tid = 0, m_cid = 5,
     m_value = v, ct_ts = v, ct_execkey = eventID 0 0 0 \<rparr>"

definition wit_monitoring :: "monitor_step list" where
  "wit_monitoring = [([(5, ''monitoring: rss'')], [(5, [monitored 1, monitored 2])]),
     ([(5, ''monitoring: rss''), (6, ''other'')], [(5, [monitored 3])])]"

theorem monitoring_shows_latest_witness:
  "\<exists>t ts. foldE monitor_step wit_monitoring (setDefaultWatchList new_ADMonitoring) = Inr t \<and>
     monitoring_get_json t = Some (ts, [(''rss'', 3)])"
proof -
  let ?mo = "setDefaultWatchList new_ADMonitoring" and ?M = "map_of (last_names [] wit_monitoring)"
  let ?W = "wanted_field (setDefaultWatchList new_ADMonitoring)"
  have 1: "fresh_monitoring ?mo"
    by (simp add: fresh_monitoring_def setDefaultWatchList_def setCounterPrefix_def new_ADMonitoring_def)
  have 2: "growing [] wit_monitoring" by (simp add: wit_monitoring_def map_le_def)
  have 3: "\<forall>s \<in> set wit_monitoring. step_ok s"
    by (simp add: wit_monitoring_def step_ok_def int_range_def)
  have W: "?W ''monitoring: rss'' = Some ''rss''" "?W ''other'' = None" by code_simp+
  have M: "?M = [5 \<mapsto> ''monitoring: rss'', 6 \<mapsto> ''other'']" by (simp add: wit_monitoring_def fun_eq_iff)
  have L: "latest 5 wit_monitoring = Some (monitored 3)"
    by (simp add: latest_def latest_in_def wit_monitoring_def)
  have sh: "shown ?W ?M wit_monitoring = {(''rss'', 3)}"
    using W L by (auto simp: shown_def M monitored_def split: if_splits)
  have "{cid. \<exists>n f. ?M cid = Some n \<and> ?W n = Some f \<and> latest cid wit_monitoring \<noteq> None} = {5}"
    using W L by (auto simp: M split: if_splits)
  then have card: "card {cid. \<exists>n f. ?M cid = Some n \<and> ?W n = Some f \<and> latest cid wit_monitoring \<noteq> None} = 1" by simp
  obtain t where t: "foldE monitor_step wit_monitoring ?mo = Inr t"
    "case monitoring_get_json t of None \<Rightarrow> shown ?W ?M wit_monitoring = {}
     | Some (ts, out) \<Rightarrow> set out = shown ?W ?M wit_monitoring \<and> shown ?W ?M wit_monitoring \<noteq> {} \<and>
         length out = card {cid. \<exists>n f. ?M cid = Some n \<and> ?W n = Some f \<and> latest cid wit_monitoring \<noteq> None}"
    using monitoring_shows_latest [OF 1 2 3] unfolding Let_def by (elim exE conjE) (rule that)
  obtain ts out where out: "monitoring_get_json t = Some (ts, out)" "set out = {(''rss'', 3)}" "length out = 1"
    using t(2) unfolding sh card by (auto split: option.splits)
  then have "out = [(''rss'', 3)]" by (cases out) auto
  then show ?thesis using t(1) out(1) by blast
qed

end
