(* ===== verification/NormalEvents.thy ===== *)
theory NormalEvents
  imports EventManager
begin

text \<open>
  The store of normal events (\<open>ADNormalEventProvenance.cpp\<close>): for every thread and function the
  record of the latest normal execution, kept for comparison with anomalies to come, and the
  requests that could not be answered yet. A record is any value: the class only stores it. The
  nested hash maps are flat here, an inner map that is empty counting as absent; the requests,
  which are iterated, are an association list of lists without repetition.
\<close>

record 'e normal_events =
  nv_events :: "(prt \<times> u64) \<rightharpoonup> 'e"
  nv_outstanding :: "(prt \<times> u64 list) list"

definition new_ADNormalEventProvenance :: "'e normal_events" where
  "new_ADNormalEventProvenance = \<lparr> nv_events = Map.empty, nv_outstanding = [] \<rparr>"

definition addNormalEvent :: "prt \<Rightarrow> u64 \<Rightarrow> 'e \<Rightarrow> 'e normal_events \<Rightarrow> 'e normal_events" where
  "addNormalEvent k fid event nv = nv \<lparr> nv_events := (nv_events nv)((k, fid) \<mapsto> event) \<rparr>"

definition addOutstanding :: "prt \<Rightarrow> u64 \<Rightarrow> 'e normal_events \<Rightarrow> 'e normal_events" where
  "addOutstanding k fid nv =
     nv \<lparr> nv_outstanding := AList.update k (List.insert fid (al_get [] (nv_outstanding nv) k)) (nv_outstanding nv) \<rparr>"

definition getNormalEvent :: "prt \<Rightarrow> u64 \<Rightarrow> bool \<Rightarrow> bool \<Rightarrow> 'e normal_events \<Rightarrow> 'e option \<times> 'e normal_events" where
  "getNormalEvent k fid add_outstanding do_delete nv =
     (case nv_events nv (k, fid) of
        None \<Rightarrow> (None, if add_outstanding then addOutstanding k fid nv else nv)
      | Some e \<Rightarrow> (Some e, if do_delete then nv \<lparr> nv_events := (nv_events nv)((k, fid) := None) \<rparr> else nv))"

text \<open>The functions requested on one thread: those with an event are answered and leave the set.\<close>

fun serve_functions ::
    "bool \<Rightarrow> prt \<Rightarrow> u64 list \<Rightarrow> ((prt \<times> u64) \<rightharpoonup> 'e) \<Rightarrow> 'e list \<times> u64 list \<times> ((prt \<times> u64) \<rightharpoonup> 'e)" where
  "serve_functions do_delete k [] ev = ([], [], ev)"
| "serve_functions do_delete k (f # fs) ev =
     (case ev (k, f) of
        None \<Rightarrow> (let (out, left, ev1) = serve_functions do_delete k fs ev in (out, f # left, ev1))
      | Some e \<Rightarrow>
          (let (out, left, ev1) = serve_functions do_delete k fs (if do_delete then ev((k, f) := None) else ev)
           in (e # out, left, ev1)))"

fun serve_threads ::
    "bool \<Rightarrow> (prt \<times> u64 list) list \<Rightarrow> ((prt \<times> u64) \<rightharpoonup> 'e) \<Rightarrow>
     'e list \<times> (prt \<times> u64 list) list \<times> ((prt \<times> u64) \<rightharpoonup> 'e)" where
  "serve_threads do_delete [] ev = ([], [], ev)"
| "serve_threads do_delete ((k, fs) # m) ev =
     (let (out, left, ev1) = serve_functions do_delete k fs ev;
          (outs, rest, ev2) = serve_threads do_delete m ev1
      in (out @ outs, (k, left) # rest, ev2))"

definition getOutstandingRequests :: "bool \<Rightarrow> 'e normal_events \<Rightarrow> 'e list \<times> 'e normal_events" where
  "getOutstandingRequests do_delete nv =
     (let (out, rest, ev) = serve_threads do_delete (nv_outstanding nv) (nv_events nv)
      in (out, \<lparr> nv_events = ev, nv_outstanding = rest \<rparr>))"

end
