(* ===== verification/Metadata.thy ===== *)
theory Metadata
  imports EventData
begin

text \<open>
  The metadata of the trace that the analysis keeps (\<open>ADMetadataParser.cpp\<close>): the host name, the
  GPU threads and the properties of the GPUs. Numbers are read from text as an input stream does:
  white space and a sign are skipped and the digits up to the first other character are the number;
  a number too large for the type is an error.
\<close>

record meta_data =
  md_pid :: u64
  md_rid :: u64
  md_tid :: u64
  md_descr :: string
  md_value :: string

record gpu_thread_info =
  gt_thread :: u64
  gt_device :: u64
  gt_context :: u64
  gt_stream :: u64

record metadata_parser =
  mp_gpu_thread_map :: "(u64 \<times> gpu_thread_info) list"
  mp_gpu_properties :: "int \<rightharpoonup> (string \<rightharpoonup> string)"
  mp_hostname :: string

definition new_ADMetadataParser :: metadata_parser where
  "new_ADMetadataParser = \<lparr> mp_gpu_thread_map = [], mp_gpu_properties = Map.empty, mp_hostname = ''Unknown'' \<rparr>"

subsection \<open>Reading text\<close>

definition is_space :: "char \<Rightarrow> bool" where
  "is_space c \<longleftrightarrow> c \<in> {CHR 0x20, CHR 0x09, CHR 0x0A, CHR 0x0B, CHR 0x0C, CHR 0x0D}"

definition is_digit :: "char \<Rightarrow> bool" where
  "is_digit c \<longleftrightarrow> 48 \<le> (of_char c :: nat) \<and> (of_char c :: nat) \<le> 57"

definition digits_value :: "string \<Rightarrow> nat" where
  "digits_value ds = foldl (\<lambda>n c. 10 * n + (of_char c - 48)) 0 ds"

text \<open>The sign and the digits at the start of a text, after white space.\<close>

definition leading_number :: "string \<Rightarrow> (bool \<times> nat) option" where
  "leading_number s =
     (let t = dropWhile is_space s;
          neg = (t \<noteq> [] \<and> hd t = CHR ''-'');
          u = (if t \<noteq> [] \<and> (hd t = CHR ''-'' \<or> hd t = CHR ''+'') then tl t else t);
          ds = takeWhile is_digit u
      in if ds = [] then None else Some (neg, digits_value ds))"

definition strToULong :: "string \<Rightarrow> u64 res" where
  "strToULong s =
     (case leading_number s of
        None \<Rightarrow> Inl (RuntimeError ''Failed to parse'')
      | Some (neg, n) \<Rightarrow>
          if 2 ^ 64 \<le> int n then Inl (RuntimeError ''Failed to parse'')
          else Inr (if neg then - of_nat n else of_nat n))"

definition strToInt :: "string \<Rightarrow> int res" where
  "strToInt s =
     (case leading_number s of
        None \<Rightarrow> Inl (RuntimeError ''Failed to parse'')
      | Some (neg, n) \<Rightarrow>
          let v = (if neg then - int n else int n) in
          if v < - (2 ^ 31) \<or> 2 ^ 31 \<le> v then Inl (RuntimeError ''Failed to parse'') else Inr v)"

text \<open>
  The regular expression \<open>GPU\[(\d+)\]\s(.*)\<close>, matched against the whole text: the digits and the
  text after the white space; a dot does not match the end of a line.
\<close>

definition match_gpu_property :: "string \<Rightarrow> (string \<times> string) option" where
  "match_gpu_property s =
     (if take 4 s \<noteq> ''GPU['' then None
      else
        let ds = takeWhile is_digit (drop 4 s); rest = dropWhile is_digit (drop 4 s) in
        (case rest of
           close # sp # key \<Rightarrow>
             if ds \<noteq> [] \<and> close = CHR '']'' \<and> is_space sp \<and> list_all (\<lambda>c. c \<noteq> CHR 0x0A \<and> c \<noteq> CHR 0x0D) key
             then Some (ds, key) else None
         | _ \<Rightarrow> None))"

subsection \<open>Entries\<close>

definition getGPUthreadInfoStruct :: "u64 \<Rightarrow> (u64 \<times> gpu_thread_info) list \<Rightarrow> gpu_thread_info" where
  "getGPUthreadInfoStruct thread m =
     (case map_of m thread of
        Some i \<Rightarrow> i
      | None \<Rightarrow> \<lparr> gt_thread = thread, gt_device = - 1, gt_context = - 1, gt_stream = 0 \<rparr>)"

definition set_thread_info ::
    "meta_data \<Rightarrow> (u64 \<Rightarrow> gpu_thread_info \<Rightarrow> gpu_thread_info) \<Rightarrow> metadata_parser \<Rightarrow> metadata_parser res" where
  "set_thread_info m field mp =
     bind (strToULong (md_value m)) (\<lambda>v.
     Inr (mp \<lparr> mp_gpu_thread_map := AList.update (md_tid m)
       (field v (getGPUthreadInfoStruct (md_tid m) (mp_gpu_thread_map mp))) (mp_gpu_thread_map mp) \<rparr>))"

definition parseMetadata :: "meta_data \<Rightarrow> metadata_parser \<Rightarrow> metadata_parser res" where
  "parseMetadata m mp =
     (if md_descr m = ''Hostname'' then Inr (mp \<lparr> mp_hostname := md_value m \<rparr>)
      else if md_descr m = ''CUDA Context'' then set_thread_info m (\<lambda>v i. i \<lparr> gt_context := v \<rparr>) mp
      else if md_descr m = ''CUDA Stream'' then set_thread_info m (\<lambda>v i. i \<lparr> gt_stream := v \<rparr>) mp
      else if md_descr m = ''CUDA Device'' then set_thread_info m (\<lambda>v i. i \<lparr> gt_device := v \<rparr>) mp
      else (case match_gpu_property (md_descr m) of
        None \<Rightarrow> Inr mp
      | Some (ds, key) \<Rightarrow>
          bind (strToInt ds) (\<lambda>device.
          Inr (mp \<lparr> mp_gpu_properties := (mp_gpu_properties mp)(device \<mapsto>
            (case mp_gpu_properties mp device of None \<Rightarrow> Map.empty | Some ps \<Rightarrow> ps)(key \<mapsto> md_value m)) \<rparr>))))"

definition addData :: "meta_data list \<Rightarrow> metadata_parser \<Rightarrow> metadata_parser res" where
  "addData new_metadata mp = foldE parseMetadata new_metadata mp"

definition isGPUthread :: "u64 \<Rightarrow> metadata_parser \<Rightarrow> bool" where
  "isGPUthread thr mp \<longleftrightarrow> map_of (mp_gpu_thread_map mp) thr \<noteq> None"

definition getGPUthreadInfo :: "u64 \<Rightarrow> metadata_parser \<Rightarrow> gpu_thread_info res" where
  "getGPUthreadInfo thread mp =
     (case map_of (mp_gpu_thread_map mp) thread of
        None \<Rightarrow> Inl (RuntimeError ''Thread is not associated with a GPU device/context/stream'')
      | Some i \<Rightarrow> Inr i)"

end
