(* ===== verification/Provenance.thy ===== *)
theory Provenance
  imports NormalEvents Monitoring Metadata LocalStats
begin

text \<open>
  The records written for anomalies and for normal executions to compare them with
  (\<open>ADAnomalyProvenance.cpp\<close>). A JSON object is a record with the same fields, an event identifier
  stands for its text, and a counter or communication event for its own JSON. The components the
  class points to are arguments (\<open>prov_links\<close>); the parameters of the algorithm are a function that
  may throw. Recoverable errors are collected.
\<close>

datatype prov_error =
    StackParentMissing eventID
  | MultiplePartners
  | PartnerMissing eventID
  | PartnerStackMissing eventID
  | WindowMissing eventID

record call_entry =
  ce_fid :: u64
  ce_func :: string
  ce_entry :: u64
  ce_exit :: u64
  ce_event_id :: eventID
  ce_is_anomaly :: bool

definition getCallStackEntry :: "exec_data \<Rightarrow> call_entry" where
  "getCallStackEntry x = \<lparr> ce_fid = m_fid x, ce_func = m_funcname x, ce_entry = m_entry x, ce_exit = m_exit x,
     ce_event_id = x_id x, ce_is_anomaly = (m_label x = - 1) \<rparr>"

datatype gpu_parent =
    NoParent
  | ParentError string
  | ParentFound eventID u64 "call_entry list"

record gpu_event_info =
  gi_location :: "gpu_thread_info option"
  gi_parent :: gpu_parent
  gi_is_gpu_event :: bool

record window_entry =
  we_fid :: u64
  we_func :: string
  we_event_id :: eventID
  we_entry :: u64
  we_exit :: u64
  we_parent_event_id :: eventID
  we_is_anomaly :: bool

record 'j provenance =
  pv_pid :: u64
  pv_rid :: u64
  pv_tid :: u64
  pv_event_id :: eventID
  pv_fid :: u64
  pv_func :: string
  pv_entry :: u64
  pv_exit :: u64
  pv_runtime_total :: u64
  pv_runtime_exclusive :: u64
  pv_io_step :: int
  pv_io_step_tstart :: u64
  pv_io_step_tend :: u64
  pv_outlier_score :: real
  pv_outlier_severity :: real
  pv_hostname :: "string option"
  pv_call_stack :: "call_entry list"
  pv_counter_events :: "counter_data list"
  pv_gpu :: "gpu_event_info option"
  pv_exec_window :: "window_entry list"
  pv_comm_window :: "comm_data list"
  pv_node_state :: "(u64 \<times> (string \<times> u64) list) option option"
  pv_algo_params :: "'j option"

record 'j prov_links =
  pl_event_man :: adevent
  pl_monitoring :: "ad_monitoring option"
  pl_metadata :: "metadata_parser option"
  pl_algo_params :: "(u64 \<Rightarrow> 'j res) option"
  pl_window_size :: int
  pl_min_anom_time :: u64

subsection \<open>Call stacks\<close>

text \<open>
  The loop to the root of the call stack, with the fuel the event manager's own loop has. It ends
  early, with a recoverable error, at an ancestor that is not known.
\<close>

fun parent_entries :: "nat \<Rightarrow> (eventID \<Rightarrow> prov_error) \<Rightarrow> eventID \<Rightarrow> adevent \<Rightarrow> (call_entry list \<times> prov_error list) res" where
  "parent_entries n err parent s =
     (if parent = root then Inr ([], [])
      else (case n of 0 \<Rightarrow> Inl NoTermination | Suc m \<Rightarrow>
        (case getCallData parent s of
           Inl _ \<Rightarrow> Inr ([], [err parent])
         | Inr it \<Rightarrow> bind (deref s it) (\<lambda>x.
             bind (parent_entries m err (m_parent x) s) (\<lambda>(out, errs). Inr (getCallStackEntry x # out, errs))))))"

declare parent_entries.simps [simp del]

definition getStackInformation :: "exec_data \<Rightarrow> adevent \<Rightarrow> (call_entry list \<times> prov_error list) res" where
  "getStackInformation call s =
     bind (parent_entries (Suc (next_addr s)) StackParentMissing (m_parent call) s) (\<lambda>(out, errs).
     Inr (getCallStackEntry call # out, errs))"

subsection \<open>GPU events\<close>

definition host_parent :: "exec_data \<Rightarrow> adevent \<Rightarrow> (gpu_parent \<times> prov_error list) res" where
  "host_parent call s =
     (case m_gpu_correlation_id_partner call of
        [] \<Rightarrow> Inr (ParentError ''Chimbuko error: Correlation ID of host parent event was not recorded'', [])
      | [p] \<Rightarrow>
          (case getCallData p s of
             Inl _ \<Rightarrow> Inr (ParentError ''Chimbuko error: Host parent event could not be reached'', [PartnerMissing p])
           | Inr pit \<Rightarrow> bind (deref s pit) (\<lambda>x.
               bind (parent_entries (Suc (next_addr s)) PartnerStackMissing (m_parent x) s) (\<lambda>(out, errs).
               Inr (ParentFound p (x_tid x) (getCallStackEntry x # out), errs))))
      | _ \<Rightarrow> Inr (ParentError ''Chimbuko error: Multiple host parent event correlation IDs found, likely due to trace corruption'',
               [MultiplePartners]))"

definition getGPUeventInfo ::
    "metadata_parser option \<Rightarrow> exec_data \<Rightarrow> adevent \<Rightarrow> (gpu_event_info option \<times> prov_error list) res" where
  "getGPUeventInfo metadata call s =
     (case metadata of
        None \<Rightarrow> Inr (None, [])
      | Some mp \<Rightarrow>
          if isGPUthread (x_tid call) mp then
            bind (getGPUthreadInfo (x_tid call) mp) (\<lambda>loc.
            bind (host_parent call s) (\<lambda>(par, errs).
            Inr (Some \<lparr> gi_location = Some loc, gi_parent = par, gi_is_gpu_event = True \<rparr>, errs)))
          else Inr (Some \<lparr> gi_location = None, gi_parent = NoParent, gi_is_gpu_event = False \<rparr>, []))"

subsection \<open>The window of executions\<close>

definition window_entry_of :: "exec_data \<Rightarrow> window_entry" where
  "window_entry_of x = \<lparr> we_fid = m_fid x, we_func = m_funcname x, we_event_id = x_id x, we_entry = m_entry x,
     we_exit = m_exit x, we_parent_event_id = m_parent x, we_is_anomaly = (m_label x = - 1) \<rparr>"

fun window_entries :: "adevent \<Rightarrow> addr list \<Rightarrow> (window_entry list \<times> comm_data list) res" where
  "window_entries s [] = Inr ([], [])"
| "window_entries s (a # as) =
     bind (deref s a) (\<lambda>x. bind (window_entries s as) (\<lambda>(execs, comms).
     Inr (window_entry_of x # execs, m_messages x @ comms)))"

definition call_list_of :: "exec_data \<Rightarrow> adevent \<Rightarrow> addr list" where
  "call_list_of x s = al_get [] (m_callList s) (x_pid x, x_rid x, x_tid x)"

definition getExecutionWindow ::
    "int \<Rightarrow> exec_data \<Rightarrow> adevent \<Rightarrow> ((window_entry list \<times> comm_data list) \<times> prov_error list) res" where
  "getExecutionWindow window_size call s =
     (case getCallWindowStartEnd (x_id call) window_size s of
        Inr (start, stop) \<Rightarrow>
          bind (window_entries s (take (stop - start) (drop start (call_list_of call s)))) (\<lambda>w. Inr (w, []))
      | Inl (Dangling a) \<Rightarrow> Inl (Dangling a)
      | Inl _ \<Rightarrow> Inr (([], []), [WindowMissing (x_id call)]))"

subsection \<open>The record of an execution\<close>

definition getAlgorithmParams :: "(u64 \<Rightarrow> 'j res) option \<Rightarrow> exec_data \<Rightarrow> 'j option res" where
  "getAlgorithmParams params call =
     (case params of None \<Rightarrow> Inr None | Some p \<Rightarrow> bind (p (m_fid call)) (\<lambda>j. Inr (Some j)))"

definition getEventProvenance ::
    "'j prov_links \<Rightarrow> exec_data \<Rightarrow> int \<Rightarrow> u64 \<Rightarrow> u64 \<Rightarrow> ('j provenance \<times> prov_error list) res" where
  "getEventProvenance pl call step first_event_ts last_event_ts =
     (let s = pl_event_man pl in
      bind (getStackInformation call s) (\<lambda>(stack, errs1).
      bind (getGPUeventInfo (pl_metadata pl) call s) (\<lambda>(gpu, errs2).
      bind (getExecutionWindow (pl_window_size pl) call s) (\<lambda>((execs, comms), errs3).
      bind (getAlgorithmParams (pl_algo_params pl) call) (\<lambda>params.
      Inr (\<lparr> pv_pid = x_pid call, pv_rid = x_rid call, pv_tid = x_tid call, pv_event_id = x_id call,
             pv_fid = m_fid call, pv_func = m_funcname call, pv_entry = m_entry call, pv_exit = m_exit call,
             pv_runtime_total = m_runtime call, pv_runtime_exclusive = m_exclusive call, pv_io_step = step,
             pv_io_step_tstart = first_event_ts, pv_io_step_tend = last_event_ts,
             pv_outlier_score = m_score call, pv_outlier_severity = get_outlier_severity call,
             pv_hostname = map_option mp_hostname (pl_metadata pl), pv_call_stack = stack,
             pv_counter_events = m_counters call, pv_gpu = gpu, pv_exec_window = execs, pv_comm_window = comms,
             pv_node_state = map_option monitoring_get_json (pl_monitoring pl), pv_algo_params = params \<rparr>,
           errs1 @ errs2 @ errs3))))))"

subsection \<open>The records of a step\<close>

definition call_prt :: "exec_data \<Rightarrow> prt" where
  "call_prt x = (x_pid x, x_rid x, x_tid x)"

text \<open>The recorded events of one kind in all data sets, with the execution of each.\<close>

definition recorded_events :: "event_type \<Rightarrow> exec_interface \<Rightarrow> (nat \<times> elem) list res" where
  "recorded_events t iface =
     foldE (\<lambda>i out. bind (getResults i iface) (\<lambda>r. Inr (out @ map (Pair i) (getEventsRecorded t r))))
       [0..<nDataSets iface] []"

definition event_call :: "exec_interface \<Rightarrow> nat \<times> elem \<Rightarrow> exec_data res" where
  "event_call iface ie =
     bind (getExecDataEntry (fst ie) (e_index (snd ie)) iface) (\<lambda>a. deref (i_events iface) a)"

definition store_normal ::
    "'j prov_links \<Rightarrow> exec_interface \<Rightarrow> int \<Rightarrow> u64 \<Rightarrow> u64 \<Rightarrow> nat \<times> elem \<Rightarrow>
     'j provenance normal_events \<times> prov_error list \<Rightarrow> ('j provenance normal_events \<times> prov_error list) res" where
  "store_normal pl iface step t0 t1 ie st =
     bind (event_call iface ie) (\<lambda>x.
     bind (getEventProvenance pl x step t0 t1) (\<lambda>(p, errs).
     Inr (addNormalEvent (call_prt x) (m_fid x) p (fst st), snd st @ errs)))"

text \<open>
  One anomaly: its record, and a normal event the first time its function is met. The exclusive
  time, a \<open>long\<close>, is compared with the threshold as an unsigned number.
\<close>

record 'j anom_state =
  as_anom :: "'j provenance list"
  as_normal :: "'j provenance list"
  as_fids :: "u64 list"
  as_store :: "'j provenance normal_events"
  as_errs :: "prov_error list"

definition add_anomaly_record ::
    "'j prov_links \<Rightarrow> exec_interface \<Rightarrow> int \<Rightarrow> u64 \<Rightarrow> u64 \<Rightarrow> nat \<times> elem \<Rightarrow> 'j anom_state \<Rightarrow> 'j anom_state res" where
  "add_anomaly_record pl iface step t0 t1 ie st =
     bind (event_call iface ie) (\<lambda>x.
       if m_exclusive x < pl_min_anom_time pl then Inr st
       else bind (getEventProvenance pl x step t0 t1) (\<lambda>(p, errs).
         let st1 = st \<lparr> as_anom := as_anom st @ [p], as_errs := as_errs st @ errs \<rparr> in
         if m_fid x \<in> set (as_fids st) then Inr st1
         else
           let (nev, nv) = getNormalEvent (call_prt x) (m_fid x) True True (as_store st) in
           Inr (st1 \<lparr> as_normal := as_normal st @ (case nev of None \<Rightarrow> [] | Some e \<Rightarrow> [e]),
                      as_fids := List.insert (m_fid x) (as_fids st), as_store := nv \<rparr>)))"

definition getProvenanceEntries ::
    "'j prov_links \<Rightarrow> exec_interface \<Rightarrow> int \<Rightarrow> u64 \<Rightarrow> u64 \<Rightarrow> 'j provenance normal_events \<Rightarrow> 'j anom_state res" where
  "getProvenanceEntries pl iface step t0 t1 nv =
     bind (recorded_events Normal iface) (\<lambda>normals.
     bind (foldE (store_normal pl iface step t0 t1) normals (nv, [])) (\<lambda>(nv1, errs).
     let (out, nv2) = getOutstandingRequests True nv1 in
     bind (recorded_events Outlier iface) (\<lambda>anoms.
     foldE (add_anomaly_record pl iface step t0 t1) anoms
       \<lparr> as_anom = [], as_normal = out, as_fids = [], as_store = nv2, as_errs = errs \<rparr>)))"

end
