(* ===== verification/NormalProps.thy ===== *)
theory NormalProps
  imports NormalEvents
begin

text \<open>
  The store of normal events over any sequence of its operations, with deletion of what is
  returned, as the analysis uses it.
\<close>

text \<open>The stored events as a multiset.\<close>

definition stored :: "('q \<rightharpoonup> 'e) \<Rightarrow> 'e multiset" where
  "stored m = image_mset (\<lambda>q. the (m q)) (mset_set (dom m))"

lemma stored_empty [simp]: "stored Map.empty = {#}"
  by (simp add: stored_def)

lemma stored_delete:
  assumes "finite (dom m)" "m q = Some e"
  shows "stored m = add_mset e (stored (m(q := None)))"
proof -
  have "dom m = insert q (dom (m(q := None)))" using assms(2) by auto
  moreover have "finite (dom (m(q := None)))" "q \<notin> dom (m(q := None))" using assms(1) by (simp_all add: dom_fun_upd)
  ultimately have "mset_set (dom m) = add_mset q (mset_set (dom (m(q := None))))"
    by (metis mset_set.insert)
  moreover have "image_mset (\<lambda>p. the (m p)) (mset_set (dom (m(q := None)))) = stored (m(q := None))"
    unfolding stored_def
    by (rule image_mset_cong) (use \<open>finite (dom (m(q := None)))\<close> in \<open>auto simp del: dom_fun_upd split: if_splits\<close>)
  ultimately show ?thesis using assms(2) by (simp add: stored_def)
qed

lemma stored_update:
  assumes "finite (dom m)"
  shows "add_mset e (stored m) = stored (m(q \<mapsto> e)) + (case m q of None \<Rightarrow> {#} | Some d \<Rightarrow> {#d#})"
proof -
  have fin: "finite (dom (m(q \<mapsto> e)))" using assms by simp
  have "stored (m(q \<mapsto> e)) = add_mset e (stored (m(q := None)))"
    using stored_delete [OF fin, of q e] by simp
  moreover have "stored m = stored (m(q := None)) + (case m q of None \<Rightarrow> {#} | Some d \<Rightarrow> {#d#})"
  proof (cases "m q")
    case None
    then have "m(q := None) = m" by auto
    then show ?thesis using None by simp
  next
    case (Some d)
    then show ?thesis using stored_delete [OF assms, of q d] by simp
  qed
  ultimately show ?thesis by simp
qed

subsection \<open>Answering the requests\<close>

lemma serve_functions_ok:
  assumes "distinct fs"
  shows "serve_functions True k fs ev =
    (map (\<lambda>f. the (ev (k, f))) (filter (\<lambda>f. ev (k, f) \<noteq> None) fs), filter (\<lambda>f. ev (k, f) = None) fs,
     \<lambda>q. if fst q = k \<and> snd q \<in> set fs then None else ev q)"
  using assms
proof (induction fs arbitrary: ev)
  case Nil
  then show ?case by simp
next
  case (Cons f fs)
  have f: "f \<notin> set fs" "distinct fs" using Cons.prems by simp_all
  show ?case
  proof (cases "ev (k, f)")
    case None
    then show ?thesis using Cons.IH [OF f(2), of ev] by (auto simp: fun_eq_iff)
  next
    case (Some e)
    let ?ev = "ev((k, f) := None)"
    have same: "?ev (k, g) = ev (k, g)" if "g \<in> set fs" for g using that f(1) by auto
    have "filter (\<lambda>g. ?ev (k, g) \<noteq> None) fs = filter (\<lambda>g. ev (k, g) \<noteq> None) fs"
      "filter (\<lambda>g. ?ev (k, g) = None) fs = filter (\<lambda>g. ev (k, g) = None) fs"
      using same by (auto cong: filter_cong)
    moreover have "map (\<lambda>g. the (?ev (k, g))) (filter (\<lambda>g. ev (k, g) \<noteq> None) fs) =
        map (\<lambda>g. the (ev (k, g))) (filter (\<lambda>g. ev (k, g) \<noteq> None) fs)"
      using same by auto
    moreover have "(\<lambda>q. if fst q = k \<and> snd q \<in> set fs then None else ?ev q) =
        (\<lambda>q. if fst q = k \<and> snd q \<in> set (f # fs) then None else ev q)"
      by (rule ext, case_tac q) auto
    ultimately have "serve_functions True k fs ?ev =
        (map (\<lambda>g. the (ev (k, g))) (filter (\<lambda>g. ev (k, g) \<noteq> None) fs), filter (\<lambda>g. ev (k, g) = None) fs,
         \<lambda>q. if fst q = k \<and> snd q \<in> set (f # fs) then None else ev q)"
      unfolding Cons.IH [OF f(2), of ?ev] by (simp only:)
    then show ?thesis using Some by (simp del: fun_upd_apply list.set)
  qed
qed

lemma serve_functions_stored:
  assumes "finite (dom ev)" "serve_functions True k fs ev = (out, left, ev1)"
  shows "finite (dom ev1) \<and> stored ev = mset out + stored ev1"
  using assms
proof (induction fs arbitrary: ev out left ev1)
  case (Cons f fs)
  show ?case
  proof (cases "ev (k, f)")
    case None
    then show ?thesis using Cons.IH [OF Cons.prems(1)] Cons.prems(2) by (auto split: prod.splits)
  next
    case (Some e)
    have "finite (dom (ev((k, f) := None)))" using Cons.prems(1) by (simp add: dom_fun_upd)
    moreover obtain o1 where "serve_functions True k fs (ev((k, f) := None)) = (o1, left, ev1)" "out = e # o1"
      using Cons.prems(2) Some by (auto split: prod.splits)
    ultimately show ?thesis
      using Cons.IH [of "ev((k, f) := None)" o1 left ev1] stored_delete [OF Cons.prems(1) Some]
      by (simp del: fun_upd_apply)
  qed
qed simp

text \<open>What the threads' lists hold after the loop, and what it returns.\<close>

definition requested :: "(prt \<times> u64 list) list \<Rightarrow> (prt \<times> u64) set" where
  "requested m = {(k, f). f \<in> set (al_get [] m k)}"

definition requests_wf :: "(prt \<times> u64 list) list \<Rightarrow> bool" where
  "requests_wf m \<longleftrightarrow> distinct (map fst m) \<and> (\<forall>(k, fs) \<in> set m. distinct fs)"

lemma requests_wf_Cons: "requests_wf ((k, fs) # m) \<longleftrightarrow> k \<notin> fst ` set m \<and> distinct fs \<and> requests_wf m"
  by (auto simp: requests_wf_def)

lemma al_get_Cons: "al_get d ((j, v) # m) k = (if j = k then v else al_get d m k)"
  by (simp add: al_get_def)

lemma al_get_absent: "k \<notin> fst ` set m \<Longrightarrow> al_get d m k = d"
  using map_of_eq_None_iff [of m k] by (simp add: al_get_def)

lemma requested_Cons:
  assumes "al_get [] m k = []"
  shows "requested ((k, fs) # m) = requested m \<union> Pair k ` set fs"
proof (rule set_eqI)
  fix q
  show "q \<in> requested ((k, fs) # m) \<longleftrightarrow> q \<in> requested m \<union> Pair k ` set fs"
    using assms by (cases q; cases "fst q = k") (auto simp: requested_def al_get_Cons image_iff simp del: split_paired_All split_paired_Ex)
qed

lemma serve_threads_ok:
  assumes "requests_wf m" "finite (dom ev)" "serve_threads True m ev = (out, rest, ev1)"
  shows "map fst rest = map fst m \<and> requests_wf rest \<and> finite (dom ev1) \<and> stored ev = mset out + stored ev1 \<and>
    (\<forall>q. ev1 q = (if q \<in> requested m then None else ev q)) \<and>
    requested rest = {q \<in> requested m. ev q = None} \<and>
    set out = {e. \<exists>q \<in> requested m. ev q = Some e}"
  using assms
proof (induction m arbitrary: ev out rest ev1)
  case Nil
  then show ?case by (simp add: requested_def)
next
  case (Cons kfs m)
  obtain k fs where kfs: "kfs = (k, fs)" by (cases kfs)
  have wf: "k \<notin> fst ` set m" "distinct fs" "requests_wf m" using Cons.prems(1) kfs by (simp_all add: requests_wf_Cons)
  let ?ev = "\<lambda>q. if fst q = k \<and> snd q \<in> set fs then None else ev q"
  let ?o = "map (\<lambda>f. the (ev (k, f))) (filter (\<lambda>f. ev (k, f) \<noteq> None) fs)" and ?l = "filter (\<lambda>f. ev (k, f) = None) fs"
  have s: "serve_functions True k fs ev = (?o, ?l, ?ev)" by (rule serve_functions_ok [OF wf(2)])
  note st = serve_functions_stored [OF Cons.prems(2) s]
  obtain outs rest' where r: "serve_threads True m ?ev = (outs, rest', ev1)" "out = ?o @ outs" "rest = (k, ?l) # rest'"
    using Cons.prems(3) kfs s by (auto split: prod.splits)
  have IH: "map fst rest' = map fst m" "requests_wf rest'" "finite (dom ev1)" "stored ?ev = mset outs + stored ev1"
    "\<forall>q. ev1 q = (if q \<in> requested m then None else ?ev q)" "requested rest' = {q \<in> requested m. ?ev q = None}"
    "set outs = {e. \<exists>q \<in> requested m. ?ev q = Some e}"
    using Cons.IH [OF wf(3) _ r(1)] st by blast+
  have km: "al_get [] m k = []" using wf(1) by (rule al_get_absent)
  have kr: "al_get [] rest' k = []"
    using wf(1) IH(1) by (intro al_get_absent) (metis set_map)
  have req: "requested (kfs # m) = requested m \<union> Pair k ` set fs"
    unfolding kfs by (rule requested_Cons [OF km])
  have other: "fst q \<noteq> k" if "q \<in> requested m" for q using that km by (auto simp: requested_def)
  then have ev_m: "?ev q = ev q" if "q \<in> requested m" for q using that by simp
  have "requested rest = requested rest' \<union> Pair k ` set ?l"
    unfolding r(3) by (rule requested_Cons [OF kr])
  then have "requested rest = {q \<in> requested (kfs # m). ev q = None}"
    unfolding IH(6) req using other other [of "(k, x)" for x] by fastforce
  moreover have "ev1 q = (if q \<in> requested (kfs # m) then None else ev q)" for q
    using spec [OF IH(5), of q] req by (cases q) auto
  moreover have "set out = {e. \<exists>q \<in> requested (kfs # m). ev q = Some e}"
  proof -
    have "set ?o = {e. \<exists>q \<in> Pair k ` set fs. ev q = Some e}" 
      by (rule set_eqI, simp add: image_iff) (metis option.sel)
    moreover have "{e. \<exists>q \<in> requested m. ?ev q = Some e} = {e. \<exists>q \<in> requested m. ev q = Some e}"
      by (rule Collect_cong, rule bex_cong [OF refl]) (simp only: ev_m)
    ultimately show ?thesis
      unfolding r(2) req set_append IH(7) by (simp only: bex_Un Collect_disj_eq Un_commute)
  qed
  moreover have "requests_wf rest" using wf(1,2) IH(1,2) by (simp add: r(3) requests_wf_Cons) (metis set_map)
  moreover have "stored ev = mset out + stored ev1" using st IH(4) by (simp add: r(2))
  moreover have "map fst rest = map fst (kfs # m)" using IH(1) kfs r(3) by simp
  ultimately show ?case using IH(3) by blast
qed
subsection \<open>The operations\<close>

text \<open>The requests that wait for an event, and the shape of the state.\<close>

definition waiting :: "'e normal_events \<Rightarrow> (prt \<times> u64) set" where
  "waiting nv = requested (nv_outstanding nv)"

definition store_ok :: "'e normal_events \<Rightarrow> bool" where
  "store_ok nv \<longleftrightarrow> requests_wf (nv_outstanding nv) \<and> finite (dom (nv_events nv))"

definition unanswered :: "'e normal_events \<Rightarrow> bool" where
  "unanswered nv \<longleftrightarrow> (\<forall>q \<in> waiting nv. nv_events nv q = None)"

lemma new_store [simp]:
  "waiting new_ADNormalEventProvenance = {}" "store_ok new_ADNormalEventProvenance"
  "unanswered new_ADNormalEventProvenance" "stored (nv_events new_ADNormalEventProvenance) = {#}"
  "nv_events new_ADNormalEventProvenance = Map.empty"
  by (simp_all add: waiting_def store_ok_def unanswered_def new_ADNormalEventProvenance_def requested_def requests_wf_def)

lemma requests_wf_iff: "requests_wf m \<longleftrightarrow> distinct (map fst m) \<and> (\<forall>k. distinct (al_get [] m k))"
proof
  assume m: "requests_wf m"
  have "distinct (al_get [] m k)" for k
    using m by (rule_tac al_get_cases [of "[]" m k]) (auto simp: requests_wf_def)
  then show "distinct (map fst m) \<and> (\<forall>k. distinct (al_get [] m k))" using m by (simp add: requests_wf_def)
next
  assume m: "distinct (map fst m) \<and> (\<forall>k. distinct (al_get [] m k))"
  have "distinct fs" if "(k, fs) \<in> set m" for k fs
    using m al_get_mem [OF that, of "[]"] by (metis (full_types))
  then show "requests_wf m" using m by (auto simp: requests_wf_def)
qed

lemma addOutstanding_ok:
  "waiting (addOutstanding k f nv) = insert (k, f) (waiting nv)"
  "store_ok nv \<Longrightarrow> store_ok (addOutstanding k f nv)"
  "nv_events (addOutstanding k f nv) = nv_events nv"
proof -
  show "waiting (addOutstanding k f nv) = insert (k, f) (waiting nv)"
    by (rule set_eqI, case_tac x) (auto simp: waiting_def addOutstanding_def requested_def)
  show "store_ok nv \<Longrightarrow> store_ok (addOutstanding k f nv)"
    by (auto simp: store_ok_def requests_wf_iff addOutstanding_def)
qed (simp add: addOutstanding_def)

lemma addNormalEvent_ok:
  "waiting (addNormalEvent k f e nv) = waiting nv"
  "store_ok nv \<Longrightarrow> store_ok (addNormalEvent k f e nv)"
  "nv_events (addNormalEvent k f e nv) = (nv_events nv)((k, f) \<mapsto> e)"
  "store_ok nv \<Longrightarrow> stored (nv_events (addNormalEvent k f e nv)) \<subseteq># add_mset e (stored (nv_events nv))"
proof -
  assume "store_ok nv"
  then have "add_mset e (stored (nv_events nv)) = stored ((nv_events nv)((k, f) \<mapsto> e)) +
      (case nv_events nv (k, f) of None \<Rightarrow> {#} | Some d \<Rightarrow> {#d#})"
    by (intro stored_update) (simp add: store_ok_def)
  then show "stored (nv_events (addNormalEvent k f e nv)) \<subseteq># add_mset e (stored (nv_events nv))"
    by (simp add: addNormalEvent_def)
qed (simp_all add: waiting_def store_ok_def addNormalEvent_def)

lemma getNormalEvent_None:
  assumes "nv_events nv (k, f) = None"
  shows "getNormalEvent k f True True nv = (None, addOutstanding k f nv)"
  using assms by (simp add: getNormalEvent_def)

lemma getNormalEvent_Some:
  assumes "nv_events nv (k, f) = Some e" "getNormalEvent k f True True nv = (r, nv')"
  shows "r = Some e" "waiting nv' = waiting nv" "store_ok nv \<Longrightarrow> store_ok nv'"
    "nv_events nv' = (nv_events nv)((k, f) := None)"
    "store_ok nv \<Longrightarrow> stored (nv_events nv) = add_mset e (stored (nv_events nv'))"
  using assms stored_delete [of "nv_events nv" "(k, f)" e]
  by (auto simp: getNormalEvent_def waiting_def store_ok_def dom_fun_upd)

lemma getOutstandingRequests_ok:
  assumes "store_ok nv" "getOutstandingRequests True nv = (out, nv')"
  shows "store_ok nv'" "waiting nv' = {q \<in> waiting nv. nv_events nv q = None}"
    "stored (nv_events nv) = mset out + stored (nv_events nv')"
    "nv_events nv' q = (if q \<in> waiting nv then None else nv_events nv q)"
    "set out = {e. \<exists>q \<in> waiting nv. nv_events nv q = Some e}" "unanswered nv'"
proof -
  obtain rest ev where s: "serve_threads True (nv_outstanding nv) (nv_events nv) = (out, rest, ev)"
    and nv': "nv' = \<lparr> nv_events = ev, nv_outstanding = rest \<rparr>"
    using assms(2) by (auto simp: getOutstandingRequests_def split: prod.splits)
  note ok = serve_threads_ok [OF _ _ s]
  have wf: "requests_wf (nv_outstanding nv)" "finite (dom (nv_events nv))" using assms(1) by (simp_all add: store_ok_def)
  show "store_ok nv'" using ok [OF wf] by (simp add: store_ok_def nv')
  show w: "waiting nv' = {q \<in> waiting nv. nv_events nv q = None}" using ok [OF wf] by (simp add: waiting_def nv')
  show "stored (nv_events nv) = mset out + stored (nv_events nv')" using ok [OF wf] by (simp add: nv')
  show ev: "nv_events nv' q = (if q \<in> waiting nv then None else nv_events nv q)" for q
    using ok [OF wf] unfolding nv' waiting_def by (simp del: split_paired_All)
  show "set out = {e. \<exists>q \<in> waiting nv. nv_events nv q = Some e}"
    using ok [OF wf] unfolding waiting_def by blast
  show "unanswered nv'" unfolding unanswered_def w ev by simp
qed

end
