(* ===== verification/ProvenanceProps.thy ===== *)
theory ProvenanceProps
  imports Provenance NormalProps LocalProps
begin

text \<open>
  What the steps of the provenance extraction deliver: the records of the anomalies, every normal
  record at most once, and to every function with an anomaly a normal record to compare it with,
  at once or in the first later step that has one.
\<close>

subsection \<open>The normal events of a step\<close>

text \<open>One step: the components as they are then, the recorded labels and the frame of the stream.\<close>

record 'j step_input =
  si_links :: "'j prov_links"
  si_iface :: exec_interface
  si_step :: int
  si_t0 :: u64
  si_t1 :: u64

definition prov_step :: "'j step_input \<Rightarrow> 'j provenance normal_events \<Rightarrow> 'j anom_state res" where
  "prov_step i nv = getProvenanceEntries (si_links i) (si_iface i) (si_step i) (si_t0 i) (si_t1 i) nv"

fun prov_run :: "'j step_input list \<Rightarrow> 'j provenance normal_events \<Rightarrow>
    ('j anom_state list \<times> 'j provenance normal_events) res" where
  "prov_run [] nv = Inr ([], nv)"
| "prov_run (i # is) nv =
     bind (prov_step i nv) (\<lambda>st. bind (prov_run is (as_store st)) (\<lambda>(sts, nv1). Inr (st # sts, nv1)))"

text \<open>The execution of a recorded event with its record.\<close>

definition record_of :: "'j step_input \<Rightarrow> nat \<times> elem \<Rightarrow> (exec_data \<times> 'j provenance) res" where
  "record_of i ie = bind (event_call (si_iface i) ie) (\<lambda>x.
     bind (getEventProvenance (si_links i) x (si_step i) (si_t0 i) (si_t1 i)) (\<lambda>(p, errs). Inr (x, p)))"

definition records_of :: "'j step_input \<Rightarrow> (nat \<times> elem) list \<Rightarrow> (exec_data \<times> 'j provenance) list" where
  "records_of i es = concat (map (\<lambda>ie. case record_of i ie of Inl _ \<Rightarrow> [] | Inr xp \<Rightarrow> [xp]) es)"

definition normal_records :: "'j step_input \<Rightarrow> (exec_data \<times> 'j provenance) list" where
  "normal_records i = (case recorded_events Normal (si_iface i) of
     Inl _ \<Rightarrow> [] | Inr es \<Rightarrow> records_of i es)"

text \<open>The executions of the anomalies that ran long enough.\<close>

definition calls_of :: "'j step_input \<Rightarrow> (nat \<times> elem) list \<Rightarrow> exec_data list" where
  "calls_of i es = concat (map (\<lambda>ie. case event_call (si_iface i) ie of
     Inl _ \<Rightarrow> [] | Inr x \<Rightarrow> if m_exclusive x < pl_min_anom_time (si_links i) then [] else [x]) es)"

definition anomaly_calls :: "'j step_input \<Rightarrow> exec_data list" where
  "anomaly_calls i = (case recorded_events Outlier (si_iface i) of Inl _ \<Rightarrow> [] | Inr es \<Rightarrow> calls_of i es)"

definition call_key :: "exec_data \<Rightarrow> prt \<times> u64" where
  "call_key x = (call_prt x, m_fid x)"

definition record_key :: "'j provenance \<Rightarrow> prt \<times> u64" where
  "record_key p = ((pv_pid p, pv_rid p, pv_tid p), pv_fid p)"

lemma getEventProvenance_key: "getEventProvenance pl x step t0 t1 = Inr (p, errs) \<Longrightarrow> record_key p = call_key x"
  by (auto simp: getEventProvenance_def bind_simps Let_def record_key_def call_key_def call_prt_def)

definition keys_ok :: "'j provenance normal_events \<Rightarrow> bool" where
  "keys_ok nv \<longleftrightarrow> (\<forall>q p. nv_events nv q = Some p \<longrightarrow> record_key p = q)"

definition prov_inv :: "'j provenance normal_events \<Rightarrow> bool" where
  "prov_inv nv \<longleftrightarrow> store_ok nv \<and> keys_ok nv"

text \<open>The last record of a key in a list, if any.\<close>

fun latest_record :: "(exec_data \<times> 'j provenance) list \<Rightarrow> prt \<times> u64 \<Rightarrow> 'j provenance option" where
  "latest_record [] q = None"
| "latest_record (xp # xps) q =
     (case latest_record xps q of Some p \<Rightarrow> Some p | None \<Rightarrow> if call_key (fst xp) = q then Some (snd xp) else None)"

lemma latest_record_append: "latest_record (xs @ ys) q = (case latest_record ys q of Some p \<Rightarrow> Some p | None \<Rightarrow> latest_record xs q)"
  by (induction xs) (auto split: option.splits)

lemma latest_record_None: "latest_record xs q = None \<longleftrightarrow> (\<forall>xp \<in> set xs. call_key (fst xp) \<noteq> q)"
  by (induction xs) (auto split: option.splits)

lemma store_normal_ok:
  assumes "store_normal (si_links i) (si_iface i) (si_step i) (si_t0 i) (si_t1 i) ie st = Inr st'"
  obtains x p errs where "record_of i ie = Inr (x, p)" "fst st' = addNormalEvent (call_prt x) (m_fid x) p (fst st)"
    "record_key p = call_key x"
  using assms getEventProvenance_key
  by (fastforce simp: store_normal_def record_of_def bind_simps)

lemma store_normals_ok:
  assumes "foldE (store_normal (si_links i) (si_iface i) (si_step i) (si_t0 i) (si_t1 i)) es (nv, errs) = Inr (nv1, errs1)"
    "prov_inv nv"
  shows "prov_inv nv1 \<and> waiting nv1 = waiting nv \<and>
    (\<forall>q. nv_events nv1 q = (case latest_record (records_of i es) q of Some p \<Rightarrow> Some p | None \<Rightarrow> nv_events nv q)) \<and>
    stored (nv_events nv1) \<subseteq># mset (map snd (records_of i es)) + stored (nv_events nv)"
  using assms
proof (induction es arbitrary: nv errs)
  case Nil
  then show ?case by (simp add: records_of_def)
next
  case (Cons ie es)
  obtain st where st: "store_normal (si_links i) (si_iface i) (si_step i) (si_t0 i) (si_t1 i) ie (nv, errs) = Inr st"
    "foldE (store_normal (si_links i) (si_iface i) (si_step i) (si_t0 i) (si_t1 i)) es st = Inr (nv1, errs1)"
    using Cons.prems(1) by (auto simp: bind_simps)
  from st(1) obtain x p where xp: "record_of i ie = Inr (x, p)" "fst st = addNormalEvent (call_prt x) (m_fid x) p nv"
    "record_key p = call_key x" by (rule store_normal_ok) simp
  let ?rs = "records_of i es"
  have rs: "records_of i (ie # es) = (x, p) # ?rs" using xp(1) by (simp add: records_of_def)
  have ok: "store_ok nv" "keys_ok nv" using Cons.prems(2) by (simp_all add: prov_inv_def)
  have "prov_inv (fst st)"
    using ok xp addNormalEvent_ok(2,3) [where nv = nv] by (auto simp: prov_inv_def keys_ok_def call_key_def)
  then have IH: "prov_inv nv1" "waiting nv1 = waiting (fst st)"
    "nv_events nv1 q = (case latest_record ?rs q of Some p \<Rightarrow> Some p | None \<Rightarrow> nv_events (fst st) q)"
    "stored (nv_events nv1) \<subseteq># mset (map snd ?rs) + stored (nv_events (fst st))" for q
    using Cons.IH [of "fst st" "snd st"] st(2) by (simp_all del: split_paired_All)
  have "stored (nv_events nv1) \<subseteq># mset (map snd ?rs) + add_mset p (stored (nv_events nv))"
    using addNormalEvent_ok(4) [OF ok(1), of "call_prt x" "m_fid x" p] unfolding xp(2) [symmetric]
    by (intro subset_mset.order_trans [OF IH(4)] subset_mset.add_left_mono)
  then have "stored (nv_events nv1) \<subseteq># mset (map snd ((x, p) # ?rs)) + stored (nv_events nv)" by simp
  moreover have "nv_events nv1 q = (case latest_record ((x, p) # ?rs) q of Some p \<Rightarrow> Some p | None \<Rightarrow> nv_events nv q)" for q
  proof -
    have key: "(call_prt x, m_fid x) = call_key x" by (simp add: call_key_def)
    show ?thesis unfolding IH(3) xp(2) addNormalEvent_ok(3) key
      by (cases "latest_record ?rs q"; cases "q = call_key x") simp_all
  qed
  moreover have "waiting nv1 = waiting nv" unfolding IH(2) xp(2) addNormalEvent_ok(1) ..
  ultimately show ?case unfolding rs using IH(1) by (intro conjI allI)
qed
subsection \<open>The anomalies of a step\<close>

abbreviation option_list :: "'a option \<Rightarrow> 'a list" where
  "option_list r \<equiv> (case r of None \<Rightarrow> [] | Some e \<Rightarrow> [e])"

lemma getNormalEvent_ok:
  assumes "prov_inv nv" "unanswered nv" "getNormalEvent (call_prt x) (m_fid x) True True nv = (nev, nv')"
  shows "prov_inv nv'" "unanswered nv'" "waiting nv \<subseteq> waiting nv'"
    "stored (nv_events nv) = mset (option_list nev) + stored (nv_events nv')"
    "call_key x \<in> waiting nv' \<or> (\<exists>p \<in> set (option_list nev). record_key p = call_key x)"
proof -
  have ok: "store_ok nv" "keys_ok nv" using assms(1) by (simp_all add: prov_inv_def)
  have "prov_inv nv' \<and> unanswered nv' \<and> waiting nv \<subseteq> waiting nv' \<and>
    stored (nv_events nv) = mset (option_list nev) + stored (nv_events nv') \<and>
    (call_key x \<in> waiting nv' \<or> (\<exists>p \<in> set (option_list nev). record_key p = call_key x))"
  proof (cases "nv_events nv (call_prt x, m_fid x)")
    case None
    then have "nev = None" "nv' = addOutstanding (call_prt x) (m_fid x) nv"
      using assms(3) getNormalEvent_None by (metis prod.inject)+
    then show ?thesis
      using ok assms(2) None addOutstanding_ok [where k = "call_prt x" and f = "m_fid x" and nv = nv]
      by (simp add: prov_inv_def keys_ok_def unanswered_def call_key_def subset_insertI del: split_paired_All)
  next
    case (Some e)
    note g = getNormalEvent_Some [OF Some assms(3)]
    have "record_key e = call_key x" using ok(2) Some by (simp add: keys_ok_def call_key_def del: split_paired_All)
    moreover have "keys_ok nv'" using ok(2) by (simp add: keys_ok_def g(4) del: split_paired_All)
    moreover have "unanswered nv'" using assms(2) by (simp add: unanswered_def g(2,4) del: split_paired_All)
    ultimately show ?thesis using g(1,2) g(3) [OF ok(1)] g(5) [OF ok(1)] by (simp add: prov_inv_def)
  qed
  then show "prov_inv nv'" "unanswered nv'" "waiting nv \<subseteq> waiting nv'"
    "stored (nv_events nv) = mset (option_list nev) + stored (nv_events nv')"
    "call_key x \<in> waiting nv' \<or> (\<exists>p \<in> set (option_list nev). record_key p = call_key x)" by blast+
qed

definition anomaly_step :: "'j step_input \<Rightarrow> nat \<times> elem \<Rightarrow> 'j anom_state \<Rightarrow> 'j anom_state res" where
  "anomaly_step i = add_anomaly_record (si_links i) (si_iface i) (si_step i) (si_t0 i) (si_t1 i)"

lemma anomaly_step_cases:
  assumes "anomaly_step i ie st = Inr st'"
  obtains
    (skip) x where "event_call (si_iface i) ie = Inr x" "m_exclusive x < pl_min_anom_time (si_links i)" "st' = st"
  | (known) x p errs where "event_call (si_iface i) ie = Inr x" "\<not> m_exclusive x < pl_min_anom_time (si_links i)"
      "getEventProvenance (si_links i) x (si_step i) (si_t0 i) (si_t1 i) = Inr (p, errs)" "m_fid x \<in> set (as_fids st)"
      "as_anom st' = as_anom st @ [p]" "as_normal st' = as_normal st" "as_fids st' = as_fids st" "as_store st' = as_store st"
  | (first) x p errs nev where "event_call (si_iface i) ie = Inr x" "\<not> m_exclusive x < pl_min_anom_time (si_links i)"
      "getEventProvenance (si_links i) x (si_step i) (si_t0 i) (si_t1 i) = Inr (p, errs)" "m_fid x \<notin> set (as_fids st)"
      "as_anom st' = as_anom st @ [p]" "as_normal st' = as_normal st @ option_list nev"
      "as_fids st' = List.insert (m_fid x) (as_fids st)"
      "getNormalEvent (call_prt x) (m_fid x) True True (as_store st) = (nev, as_store st')"
proof -
  obtain x where x: "event_call (si_iface i) ie = Inr x"
    using assms by (auto simp: anomaly_step_def add_anomaly_record_def bind_simps)
  show ?thesis
  proof (cases "m_exclusive x < pl_min_anom_time (si_links i)")
    case True
    then show ?thesis using assms x skip by (simp add: anomaly_step_def add_anomaly_record_def)
  next
    case False
    then obtain p errs where p: "getEventProvenance (si_links i) x (si_step i) (si_t0 i) (si_t1 i) = Inr (p, errs)"
      using assms x by (auto simp: anomaly_step_def add_anomaly_record_def bind_simps)
    show ?thesis
    proof (cases "m_fid x \<in> set (as_fids st)")
      case True
      then have "st' = st\<lparr>as_anom := as_anom st @ [p], as_errs := as_errs st @ errs\<rparr>"
        using assms x p False by (simp add: anomaly_step_def add_anomaly_record_def Let_def)
      then show ?thesis by (intro known [OF x False p True]) simp_all
    next
      case f: False
      then show ?thesis using assms x p False
        by (cases "getNormalEvent (call_prt x) (m_fid x) True True (as_store st)")
          (rule first [OF x False p f, of "fst (getNormalEvent (call_prt x) (m_fid x) True True (as_store st))"];
           auto simp: anomaly_step_def add_anomaly_record_def Let_def)
    qed
  qed
qed
text \<open>What the loop over the anomalies keeps, and what it does for the functions it meets.\<close>

definition anom_inv :: "'j anom_state \<Rightarrow> bool" where
  "anom_inv st \<longleftrightarrow> prov_inv (as_store st) \<and> unanswered (as_store st)"

definition held :: "'j anom_state \<Rightarrow> 'j provenance multiset" where
  "held st = mset (as_normal st) + stored (nv_events (as_store st))"

definition answered :: "'j anom_state \<Rightarrow> prt \<times> u64 \<Rightarrow> bool" where
  "answered st q \<longleftrightarrow> q \<in> waiting (as_store st) \<or> (\<exists>p \<in> set (as_normal st). record_key p = q)"

definition grows :: "'j anom_state \<Rightarrow> 'j anom_state \<Rightarrow> bool" where
  "grows st st' \<longleftrightarrow> anom_inv st' \<and> held st' = held st \<and> waiting (as_store st) \<subseteq> waiting (as_store st') \<and>
     set (as_normal st) \<subseteq> set (as_normal st') \<and> set (as_fids st) \<subseteq> set (as_fids st')"

lemma grows_refl: "anom_inv st \<Longrightarrow> grows st st"
  by (simp add: grows_def)

lemma grows_trans: "grows a b \<Longrightarrow> grows b c \<Longrightarrow> grows a c"
  by (auto simp: grows_def)

lemma answered_mono: "answered st q \<Longrightarrow> grows st st' \<Longrightarrow> answered st' q"
  by (auto simp: answered_def grows_def)

lemma anomaly_step_grows:
  assumes "anom_inv st" "anomaly_step i ie st = Inr st'"
  shows "grows st st'"
  using assms(2)
proof (cases rule: anomaly_step_cases)
  case (first x p errs nev)
  note g = getNormalEvent_ok [OF _ _ first(8)]
  have "prov_inv (as_store st)" "unanswered (as_store st)" using assms(1) by (simp_all add: anom_inv_def)
  note g = g [OF this]
  show ?thesis using g(1-4) first(6,7) by (auto simp: grows_def anom_inv_def held_def)
qed (use assms(1) in \<open>auto simp: grows_def anom_inv_def held_def\<close>)

lemma anomaly_step_calls:
  assumes "anom_inv st" "anomaly_step i ie st = Inr st'"
  shows "calls_of i [ie] = [] \<and> set (as_fids st') = set (as_fids st) \<and> as_anom st' = as_anom st \<or>
    (\<exists>x p errs. calls_of i [ie] = [x] \<and> set (as_fids st') = insert (m_fid x) (set (as_fids st)) \<and>
       getEventProvenance (si_links i) x (si_step i) (si_t0 i) (si_t1 i) = Inr (p, errs) \<and> as_anom st' = as_anom st @ [p] \<and>
       (m_fid x \<in> set (as_fids st) \<or> answered st' (call_key x)))"
  using assms(2)
proof (cases rule: anomaly_step_cases)
  case (skip x)
  then show ?thesis by (simp add: calls_of_def)
next
  case (known x p errs)
  have "calls_of i [ie] = [x]" using known(1,2) by (simp add: calls_of_def)
  then show ?thesis using known(3-7) by (auto simp: insert_absorb)
next
  case (first x p errs nev)
  have "prov_inv (as_store st)" "unanswered (as_store st)" using assms(1) by (simp_all add: anom_inv_def)
  note g = getNormalEvent_ok(5) [OF this first(8)]
  then have "answered st' (call_key x)" using first(6) by (auto simp: answered_def)
  moreover have "calls_of i [ie] = [x]" using first(1,2) by (simp add: calls_of_def)
  ultimately show ?thesis using first(3,5,7) by auto
qed

lemma calls_of_Cons: "calls_of i (ie # es) = calls_of i [ie] @ calls_of i es"
  by (simp add: calls_of_def)

lemma anomaly_steps_ok:
  assumes "foldE (anomaly_step i) es st = Inr st'" "anom_inv st"
  shows "grows st st' \<and>
    (\<exists>ps. as_anom st' = as_anom st @ ps \<and>
      map (\<lambda>x. map_sum id fst (getEventProvenance (si_links i) x (si_step i) (si_t0 i) (si_t1 i))) (calls_of i es) = map Inr ps) \<and>
    (\<forall>f x xs. f \<notin> set (as_fids st) \<longrightarrow> filter (\<lambda>x. m_fid x = f) (calls_of i es) = x # xs \<longrightarrow> answered st' (call_key x))"
  using assms
proof (induction es arbitrary: st)
  case Nil
  then show ?case by (simp add: calls_of_def grows_refl)
next
  case (Cons ie es)
  obtain st1 where st1: "anomaly_step i ie st = Inr st1" "foldE (anomaly_step i) es st1 = Inr st'"
    using Cons.prems(1) by (auto simp: bind_simps)
  have g: "grows st st1" by (rule anomaly_step_grows [OF Cons.prems(2) st1(1)])
  then have "anom_inv st1" by (simp add: grows_def)
  note IH = Cons.IH [OF st1(2) this]
  then obtain ps where ps: "as_anom st' = as_anom st1 @ ps"
    "map (\<lambda>x. map_sum id fst (getEventProvenance (si_links i) x (si_step i) (si_t0 i) (si_t1 i))) (calls_of i es) = map Inr ps"
    by blast
  have IHf: "answered st' (call_key x)" if "f \<notin> set (as_fids st1)" "filter (\<lambda>x. m_fid x = f) (calls_of i es) = x # xs" for f x xs
    using IH that by blast
  have gr: "grows st st'" using g IH grows_trans by blast
  from anomaly_step_calls [OF Cons.prems(2) st1(1)]
  consider (none) "calls_of i [ie] = []" "set (as_fids st1) = set (as_fids st)" "as_anom st1 = as_anom st"
    | (one) x p errs where "calls_of i [ie] = [x]" "set (as_fids st1) = insert (m_fid x) (set (as_fids st))"
      "getEventProvenance (si_links i) x (si_step i) (si_t0 i) (si_t1 i) = Inr (p, errs)" "as_anom st1 = as_anom st @ [p]"
      "m_fid x \<in> set (as_fids st) \<or> answered st1 (call_key x)"
    by metis
  then show ?case
  proof cases
    case c: none
    have "calls_of i (ie # es) = calls_of i es" by (simp add: calls_of_Cons [of i ie es] c(1))
    then show ?thesis using gr ps IHf c(2,3) by (simp only:) blast
  next
    case c: (one x p errs)
    have "\<exists>ps. as_anom st' = as_anom st @ ps \<and>
      map (\<lambda>x. map_sum id fst (getEventProvenance (si_links i) x (si_step i) (si_t0 i) (si_t1 i))) (calls_of i (ie # es)) = map Inr ps"
      using ps c(3,4) by (intro exI [of _ "p # ps"]) (simp add: calls_of_Cons [of i ie es] c(1))
    moreover have "answered st' (call_key y)" if y: "f \<notin> set (as_fids st)" "filter (\<lambda>x. m_fid x = f) (calls_of i (ie # es)) = y # ys" for f y ys
    proof (cases "m_fid x = f")
      case True
      then have "y = x" "answered st1 (call_key x)" using y c(5) by (simp_all add: calls_of_Cons [of i ie es] c(1))
      then show ?thesis using answered_mono IH by blast
    next
      case False
      then show ?thesis using y c(2) IHf [of f y ys] by (simp add: calls_of_Cons [of i ie es] c(1))
    qed
    ultimately show ?thesis using gr by blast
  qed
qed
subsection \<open>One step\<close>

definition anomaly_records :: "'j step_input \<Rightarrow> (cxx_error + 'j provenance) list" where
  "anomaly_records i =
     map (\<lambda>x. map_sum id fst (getEventProvenance (si_links i) x (si_step i) (si_t0 i) (si_t1 i))) (anomaly_calls i)"

lemma prov_step_ok:
  assumes "prov_step i nv = Inr st" "prov_inv nv"
  shows "prov_inv (as_store st) \<and> unanswered (as_store st) \<and>
    held st \<subseteq># mset (map snd (normal_records i)) + stored (nv_events nv) \<and>
    (\<forall>q \<in> waiting nv. nv_events nv q = None \<longrightarrow> latest_record (normal_records i) q = None \<longrightarrow> q \<in> waiting (as_store st)) \<and>
    (\<forall>q \<in> waiting nv. \<forall>p. latest_record (normal_records i) q = Some p \<longrightarrow> p \<in> set (as_normal st)) \<and>
    (\<forall>f x xs. filter (\<lambda>x. m_fid x = f) (anomaly_calls i) = x # xs \<longrightarrow> answered st (call_key x)) \<and>
    anomaly_records i = map Inr (as_anom st)"
proof -
  obtain normals anoms nv1 errs out nv2 where
    n: "recorded_events Normal (si_iface i) = Inr normals" and a: "recorded_events Outlier (si_iface i) = Inr anoms" and
    f: "foldE (store_normal (si_links i) (si_iface i) (si_step i) (si_t0 i) (si_t1 i)) normals (nv, []) = Inr (nv1, errs)" and
    o: "getOutstandingRequests True nv1 = (out, nv2)" and
    l: "foldE (anomaly_step i) anoms \<lparr> as_anom = [], as_normal = out, as_fids = [], as_store = nv2, as_errs = errs \<rparr> = Inr st"
    (is "foldE _ _ ?st0 = _")
  proof -
    obtain normals nv1 errs where
      n: "recorded_events Normal (si_iface i) = Inr normals" and
      f: "foldE (store_normal (si_links i) (si_iface i) (si_step i) (si_t0 i) (si_t1 i)) normals (nv, []) = Inr (nv1, errs)"
      using assms(1) by (auto simp: prov_step_def getProvenanceEntries_def bind_simps)
    obtain out nv2 where o: "getOutstandingRequests True nv1 = (out, nv2)" by (cases "getOutstandingRequests True nv1")
    show ?thesis using assms(1) that [OF n _ f o]
      by (auto simp: prov_step_def getProvenanceEntries_def bind_simps anomaly_step_def n f o)
  qed
  have nr: "normal_records i = records_of i normals" and ac: "anomaly_calls i = calls_of i anoms"
    using n a by (simp_all add: normal_records_def anomaly_calls_def)
  have N: "prov_inv nv1" "waiting nv1 = waiting nv"
    "nv_events nv1 q = (case latest_record (normal_records i) q of Some p \<Rightarrow> Some p | None \<Rightarrow> nv_events nv q)"
    "stored (nv_events nv1) \<subseteq># mset (map snd (normal_records i)) + stored (nv_events nv)" for q
    using store_normals_ok [OF f assms(2)] unfolding nr by (simp_all del: split_paired_All)
  have ok1: "store_ok nv1" "keys_ok nv1" using N(1) by (simp_all add: prov_inv_def)
  note O = getOutstandingRequests_ok [OF ok1(1) o]
  have "keys_ok nv2" using ok1(2) unfolding keys_ok_def O(4) by (simp del: split_paired_All)
  then have "anom_inv ?st0" using O(1,6) by (simp add: anom_inv_def prov_inv_def)
  note L = anomaly_steps_ok [OF l this]
  have g: "grows ?st0 st" using L by blast
  have "prov_inv (as_store st) \<and> unanswered (as_store st)" using g by (simp add: grows_def anom_inv_def)
  moreover have "held st \<subseteq># mset (map snd (normal_records i)) + stored (nv_events nv)"
    using g N(4) O(3) by (simp add: grows_def held_def)
  moreover have "q \<in> waiting (as_store st)" if "q \<in> waiting nv" "nv_events nv q = None" "latest_record (normal_records i) q = None" for q
  proof -
    have "q \<in> waiting nv2" unfolding O(2) using that N(2,3) by simp
    then show ?thesis using g by (auto simp: grows_def)
  qed
  moreover have "p \<in> set (as_normal st)" if "q \<in> waiting nv" "latest_record (normal_records i) q = Some p" for q p
  proof -
    have "p \<in> set out" unfolding O(5) using that N(2) N(3) [of q] by auto
    then show ?thesis using g by (auto simp: grows_def)
  qed
  moreover have "answered st (call_key x)" if "filter (\<lambda>x. m_fid x = f) (anomaly_calls i) = x # xs" for f x xs
    using L that unfolding ac by (simp del: split_paired_All) blast
  moreover have "anomaly_records i = map Inr (as_anom st)" using L unfolding anomaly_records_def ac by auto
  ultimately show ?thesis by blast
qed

lemma prov_run_Cons:
  "prov_run (i # is) nv = Inr (sts, nv') \<longleftrightarrow>
   (\<exists>st sts'. prov_step i nv = Inr st \<and> prov_run is (as_store st) = Inr (sts', nv') \<and> sts = st # sts')"
  by (auto simp: bind_simps split: prod.splits)

declare prov_run.simps(2) [simp del]

lemma prov_run_append:
  "prov_run (is @ js) nv = Inr (sts, nv') \<longleftrightarrow>
   (\<exists>sts1 sts2 nv1. prov_run is nv = Inr (sts1, nv1) \<and> prov_run js nv1 = Inr (sts2, nv') \<and> sts = sts1 @ sts2)"
  by (induction "is" arbitrary: nv sts) (auto simp: prov_run_Cons)

lemma prov_run_inv:
  "prov_run is nv = Inr (sts, nv') \<Longrightarrow> prov_inv nv \<Longrightarrow> unanswered nv \<Longrightarrow> prov_inv nv' \<and> unanswered nv' \<and> length sts = length is"
proof (induction "is" arbitrary: nv sts)
  case (Cons i "is")
  then obtain st sts' where "prov_step i nv = Inr st" "prov_run is (as_store st) = Inr (sts', nv')" "sts = st # sts'"
    by (auto simp: prov_run_Cons)
  with Cons.IH [OF this(2)] prov_step_ok [OF this(1) Cons.prems(2)] show ?case by simp
qed simp

lemma new_prov_inv: "prov_inv new_ADNormalEventProvenance"
  by (simp add: prov_inv_def keys_ok_def)

lemma prov_run_held:
  "prov_run is nv = Inr (sts, nv') \<Longrightarrow> prov_inv nv \<Longrightarrow>
   mset (concat (map as_normal sts)) + stored (nv_events nv') \<subseteq>#
     mset (map snd (concat (map normal_records is))) + stored (nv_events nv)"
proof (induction "is" arbitrary: nv sts)
  case (Cons i "is")
  then obtain st sts' where st: "prov_step i nv = Inr st" "prov_run is (as_store st) = Inr (sts', nv')" "sts = st # sts'"
    by (auto simp: prov_run_Cons)
  note ok = prov_step_ok [OF st(1) Cons.prems(2)]
  then have h: "mset (as_normal st) + stored (nv_events (as_store st)) \<subseteq>#
      mset (map snd (normal_records i)) + stored (nv_events nv)" by (simp add: held_def)
  have "mset (concat (map as_normal sts')) + stored (nv_events nv') \<subseteq>#
      mset (map snd (concat (map normal_records is))) + stored (nv_events (as_store st))"
    using Cons.IH [OF st(2)] ok by blast
  from subset_mset.add_mono [OF this h] show ?case
    using st(3) by (simp add: ac_simps)
qed simp

lemma request_pending:
  "prov_run is nv = Inr (sts, nv') \<Longrightarrow> prov_inv nv \<Longrightarrow> unanswered nv \<Longrightarrow> q \<in> waiting nv \<Longrightarrow>
   (\<And>j. j \<in> set is \<Longrightarrow> latest_record (normal_records j) q = None) \<Longrightarrow> q \<in> waiting nv'"
proof (induction "is" arbitrary: nv sts)
  case (Cons i "is")
  then obtain st sts' where st: "prov_step i nv = Inr st" "prov_run is (as_store st) = Inr (sts', nv')"
    by (auto simp: prov_run_Cons)
  note ok = prov_step_ok [OF st(1) Cons.prems(2)]
  have "q \<in> waiting (as_store st)" using ok Cons.prems(3-5) unfolding unanswered_def by auto
  then show ?case using Cons.IH [OF st(2)] ok Cons.prems(5) by simp
qed simp
subsection \<open>The run\<close>

text \<open>
  C18. Over any run of the provenance extraction, the anomaly records of every step are the records
  of the step's anomalies whose exclusive time reaches the threshold, one for each, in the order of
  the data sets and, in a data set, in the order they were found.
\<close>

theorem anomaly_records_complete:
  assumes "prov_run is new_ADNormalEventProvenance = Inr (sts, nv)"
  shows "map anomaly_records is = map (\<lambda>st. map Inr (as_anom st)) sts"
proof -
  have "map anomaly_records is = map (\<lambda>st. map Inr (as_anom st)) sts"
    if "prov_run is nv0 = Inr (sts, nv)" "prov_inv nv0" for nv0
    using that
  proof (induction "is" arbitrary: nv0 sts)
    case (Cons i "is")
    then obtain st sts' where st: "prov_step i nv0 = Inr st" "prov_run is (as_store st) = Inr (sts', nv)" "sts = st # sts'"
      by (auto simp: prov_run_Cons)
    note ok = prov_step_ok [OF st(1) Cons.prems(2)]
    then have "map anomaly_records is = map (\<lambda>st. map Inr (as_anom st)) sts'" using Cons.IH [OF st(2)] by blast
    with ok st(3) show ?case by simp
  qed simp
  then show ?thesis using assms new_prov_inv by blast
qed

text \<open>
  C17. No record of a normal execution is delivered more often than it was recorded: over any run
  of steps, what the steps return as normal events is, with repetitions counted, among the records
  of the normal events the steps were given.
\<close>

theorem normal_records_delivered_once:
  assumes "prov_run is new_ADNormalEventProvenance = Inr (sts, nv)"
  shows "mset (concat (map as_normal sts)) \<subseteq># mset (map snd (concat (map normal_records is)))"
  using prov_run_held [OF assms new_prov_inv] by (simp add: subset_mset.order_trans [rotated])

text \<open>
  C16. Every anomalous function gets a normal execution to compare it with. Take the first long
  enough anomaly of a function in a step: either that step delivers a normal record of this function
  and thread, or the request stays open, through any number of steps that record no normal
  execution of them, and the first step that records one delivers it (the last one, when it records
  several).
\<close>

theorem anomaly_gets_comparison:
  assumes run: "prov_run (before @ a # mid @ [i]) new_ADNormalEventProvenance = Inr (sts, nv)"
    and anomaly: "filter (\<lambda>x. m_fid x = f) (anomaly_calls a) = x # xs"
    and none: "\<And>j. j \<in> set mid \<Longrightarrow> latest_record (normal_records j) (call_key x) = None"
    and some: "latest_record (normal_records i) (call_key x) = Some p"
  shows "(\<exists>n \<in> set (as_normal (sts ! length before)). record_key n = call_key x) \<or> p \<in> set (as_normal (List.last sts))"
proof -
  obtain sts1 nv1 sta sts2 nv2 sti where
    r1: "prov_run before new_ADNormalEventProvenance = Inr (sts1, nv1)" and
    ra: "prov_step a nv1 = Inr sta" and rm: "prov_run mid (as_store sta) = Inr (sts2, nv2)" and
    ri: "prov_step i nv2 = Inr sti" and sts: "sts = sts1 @ sta # sts2 @ [sti]"
    using run by (auto simp: prov_run_append prov_run_Cons)
  have i1: "prov_inv nv1" "unanswered nv1" "length sts1 = length before"
    using prov_run_inv [OF r1 new_prov_inv] by simp_all
  note a = prov_step_ok [OF ra i1(1)]
  then have ia: "prov_inv (as_store sta)" "unanswered (as_store sta)" by blast+
  have "answered sta (call_key x)" using a anomaly by blast
  then consider "\<exists>n \<in> set (as_normal sta). record_key n = call_key x" | "call_key x \<in> waiting (as_store sta)"
    unfolding answered_def by blast
  then show ?thesis
  proof cases
    case 1
    then show ?thesis using sts i1(3) by (simp add: nth_append)
  next
    case 2
    then have "call_key x \<in> waiting nv2" using request_pending [OF rm ia 2 none] by blast
    then have "p \<in> set (as_normal sti)"
      using prov_step_ok [OF ri] prov_run_inv [OF rm ia] some by blast
    then show ?thesis using sts by simp
  qed
qed

text \<open>A step with an anomaly and a later step with a normal execution of the same function.\<close>

definition witness_calls :: adevent where
  "witness_calls = new_ADEvent \<lparr> m_execDataMap := [(7, [0, 1])],
     store_map := [0 \<mapsto> new_ExecData \<lparr> m_fid := 7, m_parent := root, m_label := - 1 \<rparr>,
       1 \<mapsto> new_ExecData \<lparr> m_fid := 7, m_parent := root, m_label := 1, m_exclusive := 10 \<rparr>] \<rparr>"

definition witness_step :: "event_type \<Rightarrow> nat \<Rightarrow> unit step_input" where
  "witness_step t k = \<lparr>
     si_links = \<lparr> pl_event_man = witness_calls, pl_monitoring = None, pl_metadata = None, pl_algo_params = None,
       pl_window_size = 5, pl_min_anom_time = 0 \<rparr>,
     si_iface = new_ADExecDataInterface witness_calls ExclusiveRuntime \<lparr> m_dset_anom :=
       [recordEvent \<lparr> e_value = 1, e_index = k, e_label = t, e_score = 0 \<rparr> new_DataSetAnomalies] \<rparr>,
     si_step = 0, si_t0 = 0, si_t1 = 9 \<rparr>"

definition witness_run :: "unit step_input list" where
  "witness_run = [] @ witness_step Outlier 0 # [] @ [witness_step Normal 1]"

lemma witness_run_ok:
  obtains sts nv where "prov_run witness_run new_ADNormalEventProvenance = Inr (sts, nv)" "length sts = 2"
proof -
  have "\<not> isl (prov_run witness_run new_ADNormalEventProvenance)" by code_simp
  then obtain r where "prov_run witness_run new_ADNormalEventProvenance = Inr r"
    by (cases "prov_run witness_run new_ADNormalEventProvenance") auto
  then obtain sts nv where r: "prov_run witness_run new_ADNormalEventProvenance = Inr (sts, nv)" by (cases r) auto
  then show ?thesis using prov_run_inv [OF r new_prov_inv] by (intro that [OF r]) (simp add: witness_run_def)
qed

theorem anomaly_records_complete_witness:
  "\<exists>st1 st2 nv p. prov_run witness_run new_ADNormalEventProvenance = Inr ([st1, st2], nv)
     \<and> as_anom st1 = [p] \<and> record_key p = ((0, 0, 0), 7) \<and> as_anom st2 = []"
proof -
  obtain sts nv where r: "prov_run witness_run new_ADNormalEventProvenance = Inr (sts, nv)" "length sts = 2"
    by (rule witness_run_ok)
  then obtain st1 st2 where sts: "sts = [st1, st2]" by (auto simp: length_Suc_conv numeral_2_eq_2)
  have "map anomaly_records witness_run = map (\<lambda>st. map Inr (as_anom st)) sts"
    by (rule anomaly_records_complete [OF r(1)])
  then have a: "anomaly_records (witness_step Outlier 0) = map Inr (as_anom st1)"
    "anomaly_records (witness_step Normal 1) = map Inr (as_anom st2)" by (simp_all add: sts witness_run_def)
  have "map (map_sum id record_key) (anomaly_records (witness_step Outlier 0)) = [Inr ((0, 0, 0), 7)]"
    "anomaly_records (witness_step Normal 1) = []" by code_simp+
  then have "map record_key (as_anom st1) = [((0, 0, 0), 7)]" "as_anom st2 = []"
    unfolding a by (auto simp: comp_def)
  then show ?thesis using r(1) sts by (auto simp: map_eq_Cons_conv)
qed

theorem normal_records_delivered_once_witness:
  "\<exists>sts nv. prov_run witness_run new_ADNormalEventProvenance = Inr (sts, nv) \<and>
     length (concat (map as_normal sts)) \<le> 1"
proof -
  obtain sts nv where r: "prov_run witness_run new_ADNormalEventProvenance = Inr (sts, nv)" by (rule witness_run_ok)
  have "length (map snd (concat (map normal_records witness_run))) = 1" by code_simp
  then show ?thesis
    using r size_mset_mono [OF normal_records_delivered_once [OF r]] by (simp only: size_mset) blast
qed

theorem anomaly_gets_comparison_witness:
  "\<exists>sts nv p. prov_run witness_run new_ADNormalEventProvenance = Inr (sts, nv) \<and>
     latest_record (normal_records (witness_step Normal 1)) ((0, 0, 0), 7) = Some p \<and> p \<in> set (as_normal (List.last sts))"
proof -
  obtain sts nv where r: "prov_run witness_run new_ADNormalEventProvenance = Inr (sts, nv)" "length sts = 2"
    by (rule witness_run_ok)
  then obtain st1 st2 where sts: "sts = [st1, st2]" by (auto simp: length_Suc_conv numeral_2_eq_2)
  let ?x = "hd (anomaly_calls (witness_step Outlier 0))"
  have x: "filter (\<lambda>x. m_fid x = 7) (anomaly_calls (witness_step Outlier 0)) = ?x # []" "call_key ?x = ((0, 0, 0), 7)"
    by code_simp+
  have "latest_record (normal_records (witness_step Normal 1)) ((0, 0, 0), 7) \<noteq> None" by code_simp
  then obtain p where p: "latest_record (normal_records (witness_step Normal 1)) (call_key ?x) = Some p" using x(2) by auto
  have "(\<exists>n \<in> set (as_normal (sts ! length ([] :: unit step_input list))). record_key n = call_key ?x) \<or>
      p \<in> set (as_normal (List.last sts))"
    using anomaly_gets_comparison [OF r(1) [unfolded witness_run_def] x(1) _ p] by simp
  moreover have "as_normal st1 = []"
  proof -
    have "(case prov_run witness_run new_ADNormalEventProvenance of Inl _ \<Rightarrow> False | Inr (sts, nv) \<Rightarrow> as_normal (hd sts) = [])"
      by code_simp
    then show ?thesis using r(1) sts by simp
  qed
  ultimately show ?thesis using r(1) p x(2) sts by auto
qed

end
