(* ===== verification/Attributes.thy ===== *)
theory Attributes
  imports Parser FunctionIndex Metadata
begin

text \<open>
  The attributes of the trace stream (\<open>update_attributes\<close> of \<open>ADParser.cpp\<close>): the names of the
  functions, event types and counters, and the metadata. The stream is not modelled: what
  \<open>AvailableAttributes\<close> returns, an ordered map from attribute names to parameters of which only
  \<open>Value\<close> is used, is an argument, and so are the answers of the server to the function lookup.
\<close>

text \<open>The members of the parser that only this operation uses.\<close>

record trace_attributes =
  ta_engineType :: string
  ta_new_metadata :: "meta_data list"
  ta_metadata_seen :: "string set"
  ta_global_func_idx_map :: ad_index

definition new_trace_attributes :: "string \<Rightarrow> u64 \<Rightarrow> trace_attributes" where
  "new_trace_attributes engineType program_idx =
     \<lparr> ta_engineType = engineType, ta_new_metadata = [], ta_metadata_seen = {},
       ta_global_func_idx_map = new_ADglobalFunctionIndexMap program_idx None \<rparr>"

subsection \<open>Text\<close>

text \<open>\<open>s.find(p) != npos\<close>.\<close>

fun occurs :: "string \<Rightarrow> string \<Rightarrow> bool" where
  "occurs p [] = (p = [])"
| "occurs p (c # cs) = (take (length p) (c # cs) = p \<or> occurs p cs)"

definition remove_quotes :: "string \<Rightarrow> string" where
  "remove_quotes = filter (\<lambda>c. c \<noteq> CHR 0x22)"

text \<open>\<open>std::stoi\<close> and \<open>std::stoul\<close>, which throw when there is no number or it is out of range.\<close>

definition stoi :: "string \<Rightarrow> int res" where
  "stoi s = (case strToInt s of Inl _ \<Rightarrow> Inl (RuntimeError ''stoi'') | Inr i \<Rightarrow> Inr i)"

definition stoul :: "string \<Rightarrow> u64 res" where
  "stoul s = (case strToULong s of Inl _ \<Rightarrow> Inl (RuntimeError ''stoul'') | Inr i \<Rightarrow> Inr i)"

datatype attribute_type = FuncAttr | EventAttr | CounterAttr | MetadataAttr | UnknownAttr

definition attribute_type_of :: "string \<Rightarrow> attribute_type" where
  "attribute_type_of name =
     (if occurs ''timer'' name then FuncAttr
      else if occurs ''event_type'' name then EventAttr
      else if occurs ''counter'' name then CounterAttr
      else if occurs ''MetaData'' name then MetadataAttr
      else UnknownAttr)"

text \<open>
  The regular expression \<open>MetaData:(\d+):(\d+):(.*)\<close>, matched against the whole name; a dot does
  not match the end of a line.
\<close>

definition match_metadata :: "string \<Rightarrow> (string \<times> string \<times> string) option" where
  "match_metadata name =
     (if take 9 name \<noteq> ''MetaData:'' then None
      else
        let d1 = takeWhile is_digit (drop 9 name); r1 = dropWhile is_digit (drop 9 name) in
        if d1 = [] \<or> take 1 r1 \<noteq> '':'' then None
        else
          let d2 = takeWhile is_digit (tl r1); r2 = dropWhile is_digit (tl r1) in
          if d2 = [] \<or> take 1 r2 \<noteq> '':'' \<or> \<not> list_all (\<lambda>c. c \<noteq> CHR 0x0A \<and> c \<noteq> CHR 0x0D) (tl r2) then None
          else Some (d1, d2, tl r2))"

subsection \<open>One attribute\<close>

text \<open>The state of the loop: the parser, its further members, and the functions found so far.\<close>

type_synonym attribute_state = "parser \<times> trace_attributes \<times> (int \<times> string) list"

text \<open>\<open>value\<close> is the parameter \<open>Value\<close>; the metadata branch reads it without a test.\<close>

definition metadata_attribute :: "string \<Rightarrow> string option \<Rightarrow> parser \<Rightarrow> trace_attributes \<Rightarrow> trace_attributes res" where
  "metadata_attribute name value p ta =
     (if name \<in> ta_metadata_seen ta then Inr ta
      else (case match_metadata name of
         None \<Rightarrow> Inr ta
       | Some (d1, d2, descr) \<Rightarrow>
           bind (stoul d1) (\<lambda>rank. bind (stoul d2) (\<lambda>tid.
             (case value of
                None \<Rightarrow> Inl UndefinedBehaviour
              | Some v \<Rightarrow>
                  Inr (ta \<lparr> ta_new_metadata := ta_new_metadata ta @
                         [\<lparr> md_pid = p_program_idx p, md_rid = rank, md_tid = tid, md_descr = descr, md_value = remove_quotes v \<rparr>],
                       ta_metadata_seen := insert name (ta_metadata_seen ta) \<rparr>))))))"

definition add_name :: "int \<Rightarrow> string \<Rightarrow> (int \<times> string) list \<Rightarrow> (int \<times> string) list" where
  "add_name key value m = (if map_of m key = None then AList.update key value m else m)"

definition named_attribute ::
    "attribute_type \<Rightarrow> string \<Rightarrow> string option \<Rightarrow> attribute_state \<Rightarrow> attribute_state res" where
  "named_attribute attrib_type name value st =
     (let (p, ta, funcs) = st; from_space = dropWhile (\<lambda>c. c \<noteq> CHR '' '') name in
      if from_space = [] then Inr st
      else bind (stoi from_space) (\<lambda>key.
        (case value of
           None \<Rightarrow> Inr st
         | Some v \<Rightarrow>
             let name_of = remove_quotes v in
             (case attrib_type of
                FuncAttr \<Rightarrow> Inr (p, ta, funcs @ [(key, name_of)])
              | EventAttr \<Rightarrow> Inr (p \<lparr> p_eventType := add_name key name_of (p_eventType p) \<rparr>, ta, funcs)
              | CounterAttr \<Rightarrow>
                  Inr (p \<lparr> p_counterMap := add_name key name_of (p_counterMap p),
                           p_correlation_id_cid :=
                             (if map_of (p_counterMap p) key = None \<and> name_of = ''Correlation ID'' then key
                              else p_correlation_id_cid p) \<rparr>, ta, funcs)
              | _ \<Rightarrow> Inl (Fatal ''Invalid attribute type'')))))"

definition parse_attribute :: "string \<times> string option \<Rightarrow> attribute_state \<Rightarrow> attribute_state res" where
  "parse_attribute attr st =
     (let (name, value) = attr; (p, ta, funcs) = st; t = attribute_type_of name in
      if t = MetadataAttr then bind (metadata_attribute name value p ta) (\<lambda>ta1. Inr (p, ta1, funcs))
      else if t \<noteq> UnknownAttr then named_attribute t name value st
      else Inr st)"

subsection \<open>All attributes\<close>

definition put_func :: "u64 \<times> string \<Rightarrow> (int \<rightharpoonup> string) \<Rightarrow> (int \<rightharpoonup> string)" where
  "put_func gn m = (if m (to_i32 (fst gn)) = None then m(to_i32 (fst gn) \<mapsto> snd gn) else m)"

definition update_attributes ::
    "(u64 \<Rightarrow> string list \<Rightarrow> u64 list) \<Rightarrow> (string \<times> string option) list \<Rightarrow> parser \<times> trace_attributes \<Rightarrow>
     (parser \<times> trace_attributes) res" where
  "update_attributes ask attributes pt =
     (let (p, ta) = pt in
      if \<not> p_opened p then Inr (p, ta)
      else
        let ta0 = ta \<lparr> ta_new_metadata := [] \<rparr> in
        if ta_engineType ta = ''BPFile'' \<and> p_attr_once p then Inr (p, ta0)
        else
          bind (foldE parse_attribute attributes (p, ta0, [])) (\<lambda>(p1, ta1, funcs).
          bind (if funcs = [] then Inr (p1, ta1)
                else
                  bind (ad_lookup_batched ask (map (word_of_int \<circ> fst) funcs) (map snd funcs) (ta_global_func_idx_map ta1))
                    (\<lambda>(glob_idx, im).
                  Inr (p1 \<lparr> p_funcMap := fold put_func (zip glob_idx (map snd funcs)) (p_funcMap p1) \<rparr>,
                       ta1 \<lparr> ta_global_func_idx_map := im \<rparr>))) (\<lambda>(p2, ta2).
          Inr (p2 \<lparr> p_attr_once := True \<rparr>, ta2))))"

end
