(* ===== verification/AttributeProps.thy ===== *)
theory AttributeProps
  imports Attributes
begin

text \<open>
  The attributes over any run of steps: every metadata attribute is reported exactly once, and the
  names of functions, event types and counters never change once they are known.
\<close>

subsection \<open>Metadata\<close>

text \<open>The names that carry metadata, and what one of them stands for.\<close>

definition metadata_name :: "string \<Rightarrow> bool" where
  "metadata_name n \<longleftrightarrow> attribute_type_of n = MetadataAttr \<and> match_metadata n \<noteq> None"

definition metadata_of :: "u64 \<Rightarrow> string \<Rightarrow> string option \<Rightarrow> meta_data" where
  "metadata_of pid n v =
     (case match_metadata n of
        None \<Rightarrow> undefined
      | Some (d1, d2, descr) \<Rightarrow>
          \<lparr> md_pid = pid, md_rid = projr (stoul d1), md_tid = projr (stoul d2), md_descr = descr, md_value = remove_quotes (the v) \<rparr>)"

lemma named_attribute_cases:
  assumes "named_attribute t n v (p, ta, funcs) = Inr st'"
  obtains (skip) "st' = (p, ta, funcs)"
  | (func) key w where "t = FuncAttr" "v = Some w" "st' = (p, ta, funcs @ [(key, remove_quotes w)])"
  | (event) key w where "t = EventAttr" "v = Some w"
      "st' = (p \<lparr> p_eventType := add_name key (remove_quotes w) (p_eventType p) \<rparr>, ta, funcs)"
  | (counter) key w where "t = CounterAttr" "v = Some w"
      "st' = (p \<lparr> p_counterMap := add_name key (remove_quotes w) (p_counterMap p), p_correlation_id_cid :=
         (if map_of (p_counterMap p) key = None \<and> remove_quotes w = ''Correlation ID'' then key
          else p_correlation_id_cid p) \<rparr>, ta, funcs)"
proof (cases "dropWhile (\<lambda>c. c \<noteq> CHR '' '') n = []")
  case True
  then show ?thesis using assms skip by (simp add: named_attribute_def)
next
  case False
  then obtain key where key: "stoi (dropWhile (\<lambda>c. c \<noteq> CHR '' '') n) = Inr key"
    using assms by (auto simp: named_attribute_def Let_def bind_simps simp del: dropWhile_eq_Nil_conv)
  show ?thesis
  proof (cases v)
    case None
    then show ?thesis using assms skip False key by (simp add: named_attribute_def del: dropWhile_eq_Nil_conv)
  next
    case (Some w)
    note eqs = assms [unfolded named_attribute_def Let_def prod.case key bind.simps Some option.case if_not_P [OF False]]
    show ?thesis
    proof (cases t)
      case FuncAttr
      then show ?thesis using eqs func [OF FuncAttr Some, of key] by simp
    next
      case EventAttr
      then show ?thesis using eqs event [OF EventAttr Some, of key] by simp
    next
      case CounterAttr
      then show ?thesis using eqs counter [OF CounterAttr Some, of key] by (simp only: attribute_type.case sum.inject)
    qed (use eqs in simp_all)
  qed
qed

text \<open>One attribute either reports its metadata or leaves what was reported as it was.\<close>

lemma parse_attribute_effect:
  assumes "parse_attribute (n, v) (p, ta, funcs) = Inr (p', ta', funcs')"
  shows "p_program_idx p' = p_program_idx p \<and> p_opened p' = p_opened p \<and> ta_engineType ta' = ta_engineType ta \<and>
    (if metadata_name n \<and> n \<notin> ta_metadata_seen ta
     then ta_new_metadata ta' = ta_new_metadata ta @ [metadata_of (p_program_idx p) n v] \<and>
       ta_metadata_seen ta' = insert n (ta_metadata_seen ta)
     else ta_new_metadata ta' = ta_new_metadata ta \<and> ta_metadata_seen ta' = ta_metadata_seen ta)"
proof (cases "attribute_type_of n = MetadataAttr")
  case True
  then show ?thesis using assms
    by (auto simp: parse_attribute_def metadata_attribute_def metadata_name_def metadata_of_def bind_simps
        split: if_splits option.splits)
next
  case False
  have "p_program_idx p' = p_program_idx p \<and> p_opened p' = p_opened p \<and> ta' = ta"
  proof (cases "attribute_type_of n = UnknownAttr")
    case True
    then show ?thesis using assms by (simp add: parse_attribute_def)
  next
    case known: False
    then have "named_attribute (attribute_type_of n) n v (p, ta, funcs) = Inr (p', ta', funcs')"
      using assms False by (simp add: parse_attribute_def)
    then show ?thesis by (cases rule: named_attribute_cases) simp_all
  qed
  then show ?thesis using False by (simp add: metadata_name_def)
qed

lemma parse_attributes_effect:
  assumes "foldE parse_attribute xs (p, ta, funcs) = Inr (p', ta', funcs')"
    and "\<And>n v. (n, v) \<in> set xs \<Longrightarrow> val n = v"
  shows "p_program_idx p' = p_program_idx p \<and> p_opened p' = p_opened p \<and> ta_engineType ta' = ta_engineType ta \<and>
    (\<exists>ns. distinct ns \<and> set ns = {n \<in> fst ` set xs. metadata_name n} - ta_metadata_seen ta \<and>
       ta_new_metadata ta' = ta_new_metadata ta @ map (\<lambda>n. metadata_of (p_program_idx p) n (val n)) ns \<and>
       ta_metadata_seen ta' = ta_metadata_seen ta \<union> set ns)"
  using assms
proof (induction xs arbitrary: p ta funcs)
  case Nil
  then show ?case by simp
next
  case (Cons x xs)
  obtain n v where x: "x = (n, v)" by (cases x)
  obtain p1 ta1 funcs1 where s: "parse_attribute (n, v) (p, ta, funcs) = Inr (p1, ta1, funcs1)"
    "foldE parse_attribute xs (p1, ta1, funcs1) = Inr (p', ta', funcs')"
    using Cons.prems(1) x by (auto simp: bind_simps)
  note e = parse_attribute_effect [OF s(1)]
  have v: "val n = v" using Cons.prems(2) x by simp
  obtain ns where ns: "distinct ns" "set ns = {n \<in> fst ` set xs. metadata_name n} - ta_metadata_seen ta1"
    "ta_new_metadata ta' = ta_new_metadata ta1 @ map (\<lambda>n. metadata_of (p_program_idx p1) n (val n)) ns"
    "ta_metadata_seen ta' = ta_metadata_seen ta1 \<union> set ns"
    and same: "p_program_idx p' = p_program_idx p1" "p_opened p' = p_opened p1" "ta_engineType ta' = ta_engineType ta1"
    using Cons.IH [OF s(2)] Cons.prems(2) by auto
  show ?case
  proof (cases "metadata_name n \<and> n \<notin> ta_metadata_seen ta")
    case True
    then have "ta_new_metadata ta1 = ta_new_metadata ta @ [metadata_of (p_program_idx p) n v]"
      "ta_metadata_seen ta1 = insert n (ta_metadata_seen ta)" using e by auto
    then show ?thesis using ns same e True x v by (intro conjI exI [of _ "n # ns"]) auto
  next
    case False
    then have "ta_new_metadata ta1 = ta_new_metadata ta" "ta_metadata_seen ta1 = ta_metadata_seen ta" using e by auto
    then show ?thesis using ns same e False x by (intro conjI exI [of _ ns]) auto
  qed
qed

text \<open>A run of updates, with the metadata that each step reports.\<close>

fun attribute_run ::
    "(u64 \<Rightarrow> string list \<Rightarrow> u64 list) \<Rightarrow> (string \<times> string option) list list \<Rightarrow> parser \<times> trace_attributes \<Rightarrow>
     (meta_data list list \<times> parser \<times> trace_attributes) res" where
  "attribute_run ask [] pt = Inr ([], pt)"
| "attribute_run ask (a # as) pt =
     bind (update_attributes ask a pt) (\<lambda>pt1.
     bind (attribute_run ask as pt1) (\<lambda>(ms, pt2). Inr (ta_new_metadata (snd pt1) # ms, pt2)))"

lemma update_attributes_effect:
  assumes "update_attributes ask as (p, ta) = Inr (p', ta')" "p_opened p" "ta_engineType ta \<noteq> ''BPFile''"
    and "\<And>n v. (n, v) \<in> set as \<Longrightarrow> val n = v"
  shows "p_program_idx p' = p_program_idx p \<and> p_opened p' = p_opened p \<and> ta_engineType ta' = ta_engineType ta \<and>
    (\<exists>ns. distinct ns \<and> set ns = {n \<in> fst ` set as. metadata_name n} - ta_metadata_seen ta \<and>
       ta_new_metadata ta' = map (\<lambda>n. metadata_of (p_program_idx p) n (val n)) ns \<and>
       ta_metadata_seen ta' = ta_metadata_seen ta \<union> set ns)"
proof -
  let ?ta = "ta \<lparr> ta_new_metadata := [] \<rparr>"
  obtain p1 ta1 funcs where f: "foldE parse_attribute as (p, ?ta, []) = Inr (p1, ta1, funcs)"
    and r: "p_program_idx p' = p_program_idx p1" "p_opened p' = p_opened p1" "ta_engineType ta' = ta_engineType ta1"
      "ta_new_metadata ta' = ta_new_metadata ta1" "ta_metadata_seen ta' = ta_metadata_seen ta1"
  proof -
    have u: "bind (foldE parse_attribute as (p, ?ta, [])) (\<lambda>(p1, ta1, funcs).
        bind (if funcs = [] then Inr (p1, ta1)
          else bind (ad_lookup_batched ask (map (word_of_int \<circ> fst) funcs) (map snd funcs) (ta_global_func_idx_map ta1))
            (\<lambda>(glob_idx, im).
              Inr (p1 \<lparr> p_funcMap := fold put_func (zip glob_idx (map snd funcs)) (p_funcMap p1) \<rparr>,
                   ta1 \<lparr> ta_global_func_idx_map := im \<rparr>))) (\<lambda>(p2, ta2).
        Inr (p2 \<lparr> p_attr_once := True \<rparr>, ta2))) = Inr (p', ta')"
      using assms(1-3) by (simp only: update_attributes_def Let_def prod.case not_True_eq_False if_False simp_thms)
    obtain p1 ta1 funcs where f: "foldE parse_attribute as (p, ?ta, []) = Inr (p1, ta1, funcs)"
      using u by (auto simp: bind_Inr_iff)
    show thesis
    proof (cases "funcs = []")
      case True
      then show thesis using u that [OF f] by (auto simp: f)
    next
      case False
      then show thesis using u that [OF f] by (auto simp: f bind_Inr_iff)
    qed
  qed
  show ?thesis using parse_attributes_effect [OF f, of val] assms(4) r by simp
qed

lemma attribute_run_effect:
  assumes "attribute_run ask ass (p, ta) = Inr (ms, pt)" "p_opened p" "ta_engineType ta \<noteq> ''BPFile''"
    and "\<And>n v. (n, v) \<in> set (concat ass) \<Longrightarrow> val n = v"
  shows "\<exists>ns. distinct ns \<and> set ns = {n \<in> fst ` set (concat ass). metadata_name n} - ta_metadata_seen ta \<and>
    concat ms = map (\<lambda>n. metadata_of (p_program_idx p) n (val n)) ns"
  using assms
proof (induction ass arbitrary: p ta ms)
  case Nil
  then show ?case by simp
next
  case (Cons a ass)
  obtain p1 ta1 ms1 where s: "update_attributes ask a (p, ta) = Inr (p1, ta1)"
    "attribute_run ask ass (p1, ta1) = Inr (ms1, pt)" "ms = ta_new_metadata ta1 # ms1"
    using Cons.prems(1) by (auto simp: bind_simps)
  have v: "(n, v) \<in> set a \<Longrightarrow> val n = v" "(n, v) \<in> set (concat ass) \<Longrightarrow> val n = v" for n v
    using Cons.prems(4) by auto
  note e = update_attributes_effect [OF s(1) Cons.prems(2,3), of val, OF v(1)]
  then obtain ns1 where ns1: "distinct ns1" "set ns1 = {n \<in> fst ` set a. metadata_name n} - ta_metadata_seen ta"
    "ta_new_metadata ta1 = map (\<lambda>n. metadata_of (p_program_idx p) n (val n)) ns1"
    "ta_metadata_seen ta1 = ta_metadata_seen ta \<union> set ns1"
    by auto
  obtain ns2 where ns2: "distinct ns2" "set ns2 = {n \<in> fst ` set (concat ass). metadata_name n} - ta_metadata_seen ta1"
    "concat ms1 = map (\<lambda>n. metadata_of (p_program_idx p) n (val n)) ns2"
    using Cons.IH [OF s(2)] e Cons.prems(2,3) v(2) by auto
  have "set (ns1 @ ns2) = {n \<in> fst ` set (concat (a # ass)). metadata_name n} - ta_metadata_seen ta"
    using ns1(2,4) ns2(2) by auto
  moreover have "distinct (ns1 @ ns2)" using ns1(1,2,4) ns2(1,2) by auto
  moreover have "concat ms = map (\<lambda>n. metadata_of (p_program_idx p) n (val n)) (ns1 @ ns2)"
    using ns1(3) ns2(3) s(3) by simp
  ultimately show ?case by blast
qed

text \<open>
  C28. Every metadata attribute of the stream is reported to the analysis exactly once: over any
  run of steps of a stream that is not a BP file, the metadata the steps report are, in the order of
  the steps, those of the attributes with a metadata name that occurred in any step, each once.
\<close>

theorem metadata_reported_once:
  assumes "attribute_run ask ass (p, new_trace_attributes engine pid) = Inr (ms, pt)"
    and "p_opened p" "engine \<noteq> ''BPFile''"
    and "\<And>n v. (n, v) \<in> set (concat ass) \<Longrightarrow> val n = v"
  shows "\<exists>ns. distinct ns \<and> set ns = {n \<in> fst ` set (concat ass). metadata_name n} \<and>
    concat ms = map (\<lambda>n. metadata_of (p_program_idx p) n (val n)) ns"
  using attribute_run_effect [OF assms(1,2) _ assms(4)] assms(3) by (simp add: new_trace_attributes_def)
subsection \<open>Names\<close>

text \<open>The key of the counter \<open>Correlation ID\<close> is known as soon as the counter is.\<close>

definition correlation_known :: "parser \<Rightarrow> bool" where
  "correlation_known p \<longleftrightarrow> (\<forall>k. map_of (p_counterMap p) k = Some ''Correlation ID'' \<longrightarrow>
     map_of (p_counterMap p) (p_correlation_id_cid p) = Some ''Correlation ID'')"

definition names_grow :: "parser \<Rightarrow> parser \<Rightarrow> bool" where
  "names_grow p p' \<longleftrightarrow> p_funcMap p \<subseteq>\<^sub>m p_funcMap p' \<and> map_of (p_eventType p) \<subseteq>\<^sub>m map_of (p_eventType p') \<and>
     map_of (p_counterMap p) \<subseteq>\<^sub>m map_of (p_counterMap p') \<and> (correlation_known p \<longrightarrow> correlation_known p')"

lemma names_grow_refl: "names_grow p p"
  by (simp add: names_grow_def)

lemma names_grow_trans: "names_grow p q \<Longrightarrow> names_grow q r \<Longrightarrow> names_grow p r"
  unfolding names_grow_def using map_le_trans by blast

lemma map_of_add_name: "map_of (add_name key value m) k = (if map_of m key = None \<and> k = key then Some value else map_of m k)"
  by (simp add: add_name_def)

lemma add_name_grows: "map_of m \<subseteq>\<^sub>m map_of (add_name key value m)"
  by (auto simp: map_le_def map_of_add_name)

lemma put_funcs_grow: "m \<subseteq>\<^sub>m fold put_func gs m"
proof (induction gs arbitrary: m)
  case (Cons g gs)
  have "m \<subseteq>\<^sub>m put_func g m" by (auto simp: put_func_def map_le_def)
  then show ?case using Cons map_le_trans by fastforce
qed simp

lemma parse_attribute_names:
  assumes "parse_attribute (n, v) (p, ta, funcs) = Inr (p', ta', funcs')"
  shows "names_grow p p'"
proof (cases "attribute_type_of n = MetadataAttr \<or> attribute_type_of n = UnknownAttr")
  case True
  then have "p' = p" using assms by (auto simp: parse_attribute_def bind_simps)
  then show ?thesis by (simp add: names_grow_refl)
next
  case False
  then have "named_attribute (attribute_type_of n) n v (p, ta, funcs) = Inr (p', ta', funcs')"
    using assms by (simp add: parse_attribute_def)
  then show ?thesis
  proof (cases rule: named_attribute_cases)
    case (counter key w)
    have "correlation_known p \<Longrightarrow> correlation_known p'"
      using counter(3) by (auto simp: correlation_known_def map_of_add_name split: if_splits)
    then show ?thesis using counter(3) by (simp add: names_grow_def add_name_grows)
  qed (simp_all add: names_grow_def add_name_grows correlation_known_def)
qed

lemma parse_attributes_names:
  "foldE parse_attribute xs (p, ta, funcs) = Inr (p', ta', funcs') \<Longrightarrow> names_grow p p'"
proof (induction xs arbitrary: p ta funcs)
  case (Cons x xs)
  obtain n v where x: "x = (n, v)" by (cases x)
  obtain p1 ta1 funcs1 where "parse_attribute (n, v) (p, ta, funcs) = Inr (p1, ta1, funcs1)"
    "foldE parse_attribute xs (p1, ta1, funcs1) = Inr (p', ta', funcs')"
    using Cons.prems(1) x by (auto simp: bind_simps)
  then show ?case using Cons.IH parse_attribute_names names_grow_trans by blast
qed (simp add: names_grow_refl)

lemma update_attributes_names:
  assumes "update_attributes ask as (p, ta) = Inr (p', ta')"
  shows "names_grow p p'"
proof -
  consider "p' = p"
    | p1 ta1 funcs gs where "foldE parse_attribute as (p, ta \<lparr> ta_new_metadata := [] \<rparr>, []) = Inr (p1, ta1, funcs)"
      "p' = p1 \<lparr> p_funcMap := fold put_func gs (p_funcMap p1), p_attr_once := True \<rparr>"
  proof (cases "\<not> p_opened p \<or> ta_engineType ta = ''BPFile'' \<and> p_attr_once p")
    case True
    then show thesis using assms that(1) by (auto simp: update_attributes_def split: if_splits)
  next
    case False
    then obtain p1 ta1 funcs where f: "foldE parse_attribute as (p, ta \<lparr> ta_new_metadata := [] \<rparr>, []) = Inr (p1, ta1, funcs)"
      using assms by (auto simp: update_attributes_def bind_Inr_iff)
    show thesis
    proof (cases "funcs = []")
      case True
      then show thesis using assms False that(2) [OF f, of "[]"] f by (auto simp: update_attributes_def Let_def)
    next
      case funcs: False
      then show thesis using assms False that(2) [OF f] f by (auto simp: update_attributes_def Let_def bind_Inr_iff)
    qed
  qed
  then show ?thesis
  proof cases
    case (2 p1 ta1 funcs gs)
    have "names_grow p1 p'"
      using 2(2) by (simp add: names_grow_def correlation_known_def put_funcs_grow)
    then show ?thesis using parse_attributes_names [OF 2(1)] names_grow_trans by blast
  qed (simp add: names_grow_refl)
qed

lemma attribute_run_names:
  "attribute_run ask ass (p, ta) = Inr (ms, p', ta') \<Longrightarrow> names_grow p p'"
proof (induction ass arbitrary: p ta ms)
  case (Cons a ass)
  obtain p1 ta1 ms1 where "update_attributes ask a (p, ta) = Inr (p1, ta1)" "attribute_run ask ass (p1, ta1) = Inr (ms1, p', ta')"
    using Cons.prems(1) by (auto simp: bind_simps)
  then show ?case using Cons.IH update_attributes_names names_grow_trans by blast
qed (simp add: names_grow_refl)

text \<open>
  C29. The name of a function, an event type or a counter never changes once a step has made it
  known, whatever attributes later steps bring, and whenever a counter \<open>Correlation ID\<close> is known,
  the parser holds the key of such a counter.
\<close>

theorem attribute_names_stable:
  assumes "attribute_run ask ass (new_ADParser pid rank opened, ta0) = Inr (ms, p, ta)"
    and "attribute_run ask ass' (p, ta) = Inr (ms', p', ta')"
  shows "p_funcMap p \<subseteq>\<^sub>m p_funcMap p' \<and> map_of (p_eventType p) \<subseteq>\<^sub>m map_of (p_eventType p') \<and>
    map_of (p_counterMap p) \<subseteq>\<^sub>m map_of (p_counterMap p') \<and>
    (map_of (p_counterMap p) k = Some ''Correlation ID'' \<longrightarrow>
     map_of (p_counterMap p) (p_correlation_id_cid p) = Some ''Correlation ID'')"
proof -
  have "correlation_known (new_ADParser pid rank opened)" by (simp add: correlation_known_def new_ADParser_def)
  then have "correlation_known p" using attribute_run_names [OF assms(1)] by (simp add: names_grow_def)
  then show ?thesis using attribute_run_names [OF assms(2)] unfolding names_grow_def correlation_known_def by blast
qed

text \<open>Two steps of a stream with two functions, a counter and two pieces of metadata.\<close>

definition wit_attributes :: "(string \<times> string option) list list" where
  "wit_attributes =
     [[(''MetaData:3:0:Hostname'', Some ''node7''), (''counter 5'', Some ''Correlation ID''), (''timer 0'', Some ''main'')],
      [(''MetaData:3:0:Hostname'', Some ''node7''), (''MetaData:3:4:CUDA Device'', Some ''1''), (''counter 5'', Some ''Correlation ID''),
       (''counter 6'', Some ''Correlation ID''), (''event_type 0'', Some ''ENTRY''), (''timer 0'', Some ''main''), (''timer 1'', Some ''f'')]]"

definition wit_ask :: "u64 \<Rightarrow> string list \<Rightarrow> u64 list" where
  "wit_ask pid names = map (\<lambda>_. 0) names"

definition wit_attribute_run :: "(meta_data list list \<times> parser \<times> trace_attributes) res" where
  "wit_attribute_run = attribute_run wit_ask wit_attributes (new_ADParser 0 3 True, new_trace_attributes ''SST'' 0)"

theorem metadata_reported_once_witness:
  "\<exists>ms pt ns. wit_attribute_run = Inr (ms, pt) \<and> distinct ns \<and>
     set ns = {''MetaData:3:0:Hostname'', ''MetaData:3:4:CUDA Device''} \<and> length (concat ms) = length ns"
proof -
  have "\<not> isl wit_attribute_run" by code_simp
  then obtain ms pt where r: "wit_attribute_run = Inr (ms, pt)" by (cases wit_attribute_run) (auto simp: isl_def)
  let ?val = "\<lambda>n. the (map_of (concat wit_attributes) n)"
  have "list_all (\<lambda>(n, v). ?val n = v) (concat wit_attributes)" by code_simp
  then have "(n, v) \<in> set (concat wit_attributes) \<Longrightarrow> ?val n = v" for n v by (auto simp: list_all_iff)
  then obtain ns where ns: "distinct ns" "set ns = {n \<in> fst ` set (concat wit_attributes). metadata_name n}"
    "concat ms = map (\<lambda>n. metadata_of (p_program_idx (new_ADParser 0 3 True)) n (?val n)) ns"
    using metadata_reported_once [OF r [unfolded wit_attribute_run_def], of ?val] by (auto simp: new_ADParser_def)
  have "{n \<in> fst ` set (concat wit_attributes). metadata_name n} = set (filter metadata_name (map fst (concat wit_attributes)))"
    by auto
  also have "\<dots> = {''MetaData:3:0:Hostname'', ''MetaData:3:4:CUDA Device''}"
  proof -
    have "remdups (filter metadata_name (map fst (concat wit_attributes))) = [''MetaData:3:0:Hostname'', ''MetaData:3:4:CUDA Device'']"
      by code_simp
    then show ?thesis by (metis list.simps(15) set_remdups empty_set)
  qed
  finally show ?thesis using r ns by (intro exI [of _ ms] exI [of _ pt] exI [of _ ns]) simp
qed

theorem attribute_names_stable_witness:
  "\<exists>ms p ta. attribute_run wit_ask (take 1 wit_attributes) (new_ADParser 0 3 True, new_trace_attributes ''SST'' 0) = Inr (ms, p, ta) \<and>
     map_of (p_counterMap p) (p_correlation_id_cid p) = Some ''Correlation ID''"
proof -
  let ?r = "attribute_run wit_ask (take 1 wit_attributes) (new_ADParser 0 3 True, new_trace_attributes ''SST'' 0)"
  have e: "(case ?r of Inl _ \<Rightarrow> False | Inr (ms, p, ta) \<Rightarrow> map_of (p_counterMap p) 5 = Some ''Correlation ID'')" by code_simp
  then obtain ms p ta where r: "?r = Inr (ms, p, ta)" by (auto split: sum.splits)
  have "attribute_run wit_ask [] (p, ta) = Inr ([], p, ta)" by simp
  from attribute_names_stable [OF r this, of 5] show ?thesis using e r by auto
qed

end
