(* ===== verification/Base.thy ===== *)
theory Base
  imports Prelude
begin

text \<open>
  The loop of an analysis process (\<open>ChimbukoBase\<close> of \<open>core/chimbuko.cpp\<close>), which every analysis
  module inherits: read a step, detect, record and send, until there is nothing more to read. The
  virtual functions are the record \<open>module_ops\<close>; what a call of \<open>readStep\<close> gets from the trace
  stream is an argument. Timers, performance records and log messages are left out, and a remainder
  by zero is undefined behaviour. The step index is unbounded here, an \<open>int\<close> in the code.
\<close>

section \<open>Parameters and state\<close>

record base_params =
  bp_rank :: int
  bp_prov_active :: bool
  bp_prov_record_startstep :: int
  bp_prov_record_stopstep :: int
  bp_prov_io_freq :: int
  bp_use_ps :: bool
  bp_ps_send_stats_freq :: int
  bp_only_one_frame :: bool
  bp_max_frames :: int
  bp_analysis_step_freq :: int

definition new_ChimbukoBaseParams :: base_params where
  "new_ChimbukoBaseParams = \<lparr> bp_rank = - 1234, bp_prov_active = False, bp_prov_record_startstep = - 1,
     bp_prov_record_stopstep = - 1, bp_prov_io_freq = 1, bp_use_ps = False, bp_ps_send_stats_freq = 1,
     bp_only_one_frame = False, bp_max_frames = - 1, bp_analysis_step_freq = 1 \<rparr>"

text \<open>
  The virtual functions: \<open>'i\<close> is what a read gets from outside, \<open>'d\<close> the data interface, \<open>'s\<close> the
  state of the module, \<open>'e\<close> an entry for the provenance data base, \<open>'m\<close> a message for the server.
  The detection belongs to the base class; it works on the module's data.
\<close>

type_synonym 'e prov_buffer = "(string \<times> 'e list) list"

record ('i, 'd, 's, 'e, 'm) module_ops =
  mo_readStep :: "'i \<Rightarrow> (int \<Rightarrow> bool res) \<Rightarrow> int \<Rightarrow> 's \<Rightarrow> (bool \<times> 'd option \<times> 's) res"
  mo_detect :: "'d \<Rightarrow> int \<Rightarrow> 's \<Rightarrow> ('d \<times> 's) res"
  mo_nOutliers :: "'d \<Rightarrow> nat"
  mo_bufferProvenance :: "'d \<Rightarrow> int \<Rightarrow> 'e prov_buffer \<times> 's \<Rightarrow> ('e prov_buffer \<times> 's) res"
  mo_bufferPSdata :: "'d \<Rightarrow> int \<Rightarrow> 's \<Rightarrow> 's res"
  mo_sendPSdata :: "int \<Rightarrow> 's \<Rightarrow> ('m list \<times> 's) res"
  mo_endStep :: "'s \<Rightarrow> 's res"
  mo_resetRunStatistics :: "'s \<Rightarrow> 's"

record ('s, 'e, 'm) chimbuko_base =
  cb_step :: int
  cb_n_outliers :: u64
  cb_provdata_buf :: "'e prov_buffer"
  cb_prov_sent :: "(int \<times> string \<times> 'e list) list"
  cb_ps_sent :: "'m list"
  cb_module :: 's

definition new_ChimbukoBase :: "'s \<Rightarrow> ('s, 'e, 'm) chimbuko_base" where
  "new_ChimbukoBase s = \<lparr> cb_step = 0, cb_n_outliers = 0, cb_provdata_buf = [], cb_prov_sent = [], cb_ps_sent = [],
     cb_module = s \<rparr>"

section \<open>Buffers\<close>

text \<open>\<open>step % freq == 0\<close>.\<close>

definition divides_step :: "int \<Rightarrow> int \<Rightarrow> bool res" where
  "divides_step freq step = bind (guard UndefinedBehaviour (freq \<noteq> 0)) (\<lambda>_. Inr (freq dvd step))"

definition doAnalysisOnStep :: "base_params \<Rightarrow> int \<Rightarrow> bool res" where
  "doAnalysisOnStep bp step = divides_step (bp_analysis_step_freq bp) step"

definition records_step :: "base_params \<Rightarrow> int \<Rightarrow> bool" where
  "records_step bp step \<longleftrightarrow>
     \<not> (bp_prov_record_startstep bp \<noteq> - 1 \<and> step < bp_prov_record_startstep bp) \<and>
     \<not> (bp_prov_record_stopstep bp \<noteq> - 1 \<and> step > bp_prov_record_stopstep bp) \<and> bp_prov_active bp"

definition bufferStoreProvenanceData ::
    "base_params \<Rightarrow> ('i, 'd, 's, 'e, 'm) module_ops \<Rightarrow> 'd \<Rightarrow> ('s, 'e, 'm) chimbuko_base \<Rightarrow> ('s, 'e, 'm) chimbuko_base res" where
  "bufferStoreProvenanceData bp ops d b =
     (if records_step bp (cb_step b) then
        bind (mo_bufferProvenance ops d (cb_step b) (cb_provdata_buf b, cb_module b)) (\<lambda>(buf, s).
        Inr (b \<lparr> cb_provdata_buf := buf, cb_module := s \<rparr>))
      else Inr b)"

definition sendProvenance :: "base_params \<Rightarrow> bool \<Rightarrow> ('s, 'e, 'm) chimbuko_base \<Rightarrow> ('s, 'e, 'm) chimbuko_base res" where
  "sendProvenance bp force b =
     (if \<not> bp_prov_active bp then Inr b
      else bind (divides_step (bp_prov_io_freq bp) (cb_step b + bp_rank bp)) (\<lambda>due.
        if due \<or> force then
          Inr (b \<lparr> cb_prov_sent := cb_prov_sent b @
                   map (\<lambda>(coll, data). (cb_step b, coll, data)) (filter (\<lambda>(coll, data). data \<noteq> []) (cb_provdata_buf b)),
                 cb_provdata_buf := [] \<rparr>)
        else Inr b))"

definition sendPSdata ::
    "base_params \<Rightarrow> ('i, 'd, 's, 'e, 'm) module_ops \<Rightarrow> bool \<Rightarrow> ('s, 'e, 'm) chimbuko_base \<Rightarrow> ('s, 'e, 'm) chimbuko_base res" where
  "sendPSdata bp ops force b =
     (if \<not> bp_use_ps bp then Inr b
      else bind (divides_step (bp_ps_send_stats_freq bp) (cb_step b + bp_rank bp)) (\<lambda>due.
        if due \<or> force then
          bind (mo_sendPSdata ops (cb_step b) (cb_module b)) (\<lambda>(ms, s).
          Inr (b \<lparr> cb_ps_sent := cb_ps_sent b @ ms, cb_module := s \<rparr>))
        else Inr b))"

section \<open>Frames\<close>

definition analyse :: "base_params \<Rightarrow> ('i, 'd, 's, 'e, 'm) module_ops \<Rightarrow> 'd option \<Rightarrow> ('s, 'e, 'm) chimbuko_base \<Rightarrow> ('s, 'e, 'm) chimbuko_base res" where
  "analyse bp ops iface b =
     (case iface of
        None \<Rightarrow> Inl NullPointer
      | Some d \<Rightarrow>
          bind (mo_detect ops d (cb_step b) (cb_module b)) (\<lambda>(d1, s1).
          bind (bufferStoreProvenanceData bp ops d1
                  (b \<lparr> cb_n_outliers := cb_n_outliers b + of_nat (mo_nOutliers ops d1), cb_module := s1 \<rparr>)) (\<lambda>b1.
          bind (mo_bufferPSdata ops d1 (cb_step b1) (cb_module b1)) (\<lambda>s2.
          bind (mo_endStep ops s2) (\<lambda>s3. Inr (b1 \<lparr> cb_module := s3 \<rparr>))))))"

definition runFrame ::
    "base_params \<Rightarrow> ('i, 'd, 's, 'e, 'm) module_ops \<Rightarrow> 'i \<Rightarrow> ('s, 'e, 'm) chimbuko_base \<Rightarrow> (bool \<times> ('s, 'e, 'm) chimbuko_base) res" where
  "runFrame bp ops i b =
     bind (mo_readStep ops i (doAnalysisOnStep bp) (cb_step b) (cb_module b)) (\<lambda>(ok, iface, s).
       let b0 = b \<lparr> cb_module := s \<rparr> in
       if \<not> ok then Inr (False, b0)
       else
         bind (doAnalysisOnStep bp (cb_step b0)) (\<lambda>do_run_analysis.
         bind (if do_run_analysis then analyse bp ops iface b0 else Inr b0) (\<lambda>b1.
         bind (sendProvenance bp False b1) (\<lambda>b2.
         bind (sendPSdata bp ops False b2) (\<lambda>b3.
         Inr (True, b3 \<lparr> cb_step := cb_step b3 + 1 \<rparr>))))))"

text \<open>
  The loop of \<open>run\<close> over what the stream delivers to its reads. \<open>None\<close>: the loop wants to read again
  when the list is used up.
\<close>

fun run_frames ::
    "base_params \<Rightarrow> ('i, 'd, 's, 'e, 'm) module_ops \<Rightarrow> 'i list \<Rightarrow> int \<Rightarrow> ('s, 'e, 'm) chimbuko_base \<Rightarrow>
     (int \<times> ('s, 'e, 'm) chimbuko_base) option res" where
  "run_frames bp ops [] frames b = Inr None"
| "run_frames bp ops (i # is) frames b =
     bind (runFrame bp ops i b) (\<lambda>(ok, b1).
       if \<not> ok then Inr (Some (frames, b1))
       else if bp_only_one_frame bp \<or> (bp_max_frames bp > 0 \<and> frames + 1 = bp_max_frames bp) then Inr (Some (frames + 1, b1))
       else run_frames bp ops is (frames + 1) b1)"

definition run ::
    "base_params \<Rightarrow> ('i, 'd, 's, 'e, 'm) module_ops \<Rightarrow> 'i list \<Rightarrow> ('s, 'e, 'm) chimbuko_base \<Rightarrow>
     (int \<times> ('s, 'e, 'm) chimbuko_base) option res" where
  "run bp ops is b =
     (if bp_max_frames bp = 0 then Inr (Some (0, b))
      else bind (run_frames bp ops is 0 (b \<lparr> cb_n_outliers := 0, cb_module := mo_resetRunStatistics ops (cb_module b) \<rparr>)) (\<lambda>r.
        (case r of
           None \<Rightarrow> Inr None
         | Some (frames, b1) \<Rightarrow>
             bind (sendProvenance bp True b1) (\<lambda>b2.
             bind (sendPSdata bp ops True b2) (\<lambda>b3. Inr (Some (frames, b3)))))))"

section \<open>The loop ends\<close>

text \<open>The number of frames that are still possible when \<open>n\<close> analyses are to do.\<close>

definition frames_left :: "base_params \<Rightarrow> int \<Rightarrow> nat \<Rightarrow> int" where
  "frames_left bp step n = bp_analysis_step_freq bp * int n + (- step) mod bp_analysis_step_freq bp"

lemma frames_left_nonneg: "0 < bp_analysis_step_freq bp \<Longrightarrow> 0 \<le> frames_left bp step n"
  using pos_mod_sign [of "bp_analysis_step_freq bp" "- step"] by (simp add: frames_left_def)

lemma frames_left_less:
  assumes "0 < bp_analysis_step_freq bp" "n \<le> m"
  shows "frames_left bp step n < bp_analysis_step_freq bp * (int m + 1)"
proof -
  have "bp_analysis_step_freq bp * int n \<le> bp_analysis_step_freq bp * int m" using assms by simp
  then show ?thesis
    using pos_mod_bound [OF assms(1), of "- step"] by (simp add: frames_left_def algebra_simps)
qed

text \<open>
  The contract of a module whose stream has ended. \<open>todo\<close> counts the analyses its remaining data
  need: a read that finds data needs at least one, and an analysis takes one away. Then the loop ends
  after \<open>todo\<close> analyses at the latest.
\<close>

locale ended_module =
  fixes ops :: "('i, 'd, 's, 'e, 'm) module_ops"
    and inv :: "'s \<Rightarrow> bool"
    and todo :: "'s \<Rightarrow> nat"
    and for_data :: "'d \<Rightarrow> 's \<Rightarrow> bool"
  assumes read_ended: "inv s \<Longrightarrow> mo_readStep ops i a step s = Inr (True, iface, s1) \<Longrightarrow>
      inv s1 \<and> todo s1 = todo s \<and> 0 < todo s \<and> (\<forall>d. iface = Some d \<longrightarrow> for_data d s1)"
    and analysis_ends: "inv s \<Longrightarrow> for_data d s \<Longrightarrow> mo_detect ops d step s = Inr (d1, s1) \<Longrightarrow>
      s2 = s1 \<or> (\<exists>buf buf'. mo_bufferProvenance ops d1 step (buf, s1) = Inr (buf', s2)) \<Longrightarrow>
      mo_bufferPSdata ops d1 step s2 = Inr s3 \<Longrightarrow> mo_endStep ops s3 = Inr s4 \<Longrightarrow> inv s4 \<and> (0 < todo s \<longrightarrow> todo s4 < todo s)"
    and send_keeps: "inv s \<Longrightarrow> mo_sendPSdata ops step s = Inr (ms, s1) \<Longrightarrow> inv s1 \<and> todo s1 = todo s"
begin

lemma divides_step_Inr: "divides_step freq step = Inr r \<Longrightarrow> r = (freq dvd step)"
  by (auto simp: divides_step_def bind_simps)

lemma sendProvenance_module: "sendProvenance bp force b = Inr b1 \<Longrightarrow> cb_module b1 = cb_module b \<and> cb_step b1 = cb_step b"
  by (auto simp: sendProvenance_def bind_simps split: if_splits)

lemma sendPSdata_module:
  "sendPSdata bp ops force b = Inr b1 \<Longrightarrow> inv (cb_module b) \<Longrightarrow>
   inv (cb_module b1) \<and> todo (cb_module b1) = todo (cb_module b) \<and> cb_step b1 = cb_step b"
  using send_keeps by (fastforce simp: sendPSdata_def bind_simps split: if_splits)

lemma analyse_module:
  assumes "analyse bp ops iface b = Inr b1" "inv (cb_module b)" "\<forall>d. iface = Some d \<longrightarrow> for_data d (cb_module b)" "0 < todo (cb_module b)"
  shows "inv (cb_module b1) \<and> todo (cb_module b1) < todo (cb_module b) \<and> cb_step b1 = cb_step b"
proof -
  obtain d d1 s1 b2 s3 s4 where d: "iface = Some d" "mo_detect ops d (cb_step b) (cb_module b) = Inr (d1, s1)"
    "bufferStoreProvenanceData bp ops d1
       (b \<lparr> cb_n_outliers := cb_n_outliers b + of_nat (mo_nOutliers ops d1), cb_module := s1 \<rparr>) = Inr b2"
    "mo_bufferPSdata ops d1 (cb_step b2) (cb_module b2) = Inr s3" "mo_endStep ops s3 = Inr s4" "b1 = b2 \<lparr> cb_module := s4 \<rparr>"
    using assms(1) by (auto simp: analyse_def bind_simps split: option.splits)
  have b2: "cb_step b2 = cb_step b \<and> (cb_module b2 = s1 \<or>
      (\<exists>buf buf'. mo_bufferProvenance ops d1 (cb_step b) (buf, s1) = Inr (buf', cb_module b2)))"
    using d(3) by (auto simp: bufferStoreProvenanceData_def bind_simps split: if_splits)
  then have "inv s4 \<and> (0 < todo (cb_module b) \<longrightarrow> todo s4 < todo (cb_module b))"
    using analysis_ends [OF assms(2) _ d(2) _ _ d(5), of "cb_module b2"] assms(3) d(1,4) by simp
  then show ?thesis using d(6) b2 assms(4) by simp
qed

lemma minus_mod_step:
  assumes "\<not> f dvd step" "0 < (f :: int)"
  shows "(- (step + 1)) mod f = (- step) mod f - 1"
proof -
  have "(- step) mod f \<noteq> 0" using assms(1) by (simp add: mod_eq_0_iff_dvd)
  then have "0 < (- step) mod f" using pos_mod_sign [OF assms(2), of "- step"] by linarith
  then have "((- step) mod f - 1) mod f = (- step) mod f - 1"
    using pos_mod_bound [OF assms(2), of "- step"] by (intro mod_pos_pos_trivial) linarith+
  moreover have "(- (step + 1)) mod f = ((- step) mod f - 1) mod f"
    unfolding mod_diff_left_eq by (rule arg_cong [where f = "\<lambda>x. x mod f"]) simp
  ultimately show ?thesis by simp
qed

lemma frame_decreases:
  assumes freq: "0 < bp_analysis_step_freq bp" and "inv (cb_module b)" "runFrame bp ops i b = Inr (True, b1)"
  shows "inv (cb_module b1) \<and> frames_left bp (cb_step b1) (todo (cb_module b1)) < frames_left bp (cb_step b) (todo (cb_module b))
    \<and> 0 < frames_left bp (cb_step b) (todo (cb_module b))"
proof -
  let ?f = "bp_analysis_step_freq bp"
  obtain a ok iface s b2 b3 b4 where
    r: "doAnalysisOnStep bp (cb_step b) = Inr a" "mo_readStep ops i (doAnalysisOnStep bp) (cb_step b) (cb_module b) = Inr (True, iface, s)"
      "(if a then analyse bp ops iface (b \<lparr> cb_module := s \<rparr>) else Inr (b \<lparr> cb_module := s \<rparr>)) = Inr b2"
      "sendProvenance bp False b2 = Inr b3" "sendPSdata bp ops False b3 = Inr b4" "b1 = b4 \<lparr> cb_step := cb_step b4 + 1 \<rparr>"
    using assms(3) by (auto simp: runFrame_def bind_simps Let_def split: if_splits)
  have a: "a = (?f dvd cb_step b)" using r(1) divides_step_Inr by (simp add: doAnalysisOnStep_def)
  have s: "inv s" "todo s = todo (cb_module b)" "0 < todo (cb_module b)" "\<forall>d. iface = Some d \<longrightarrow> for_data d s"
    using read_ended [OF assms(2) r(2)] by simp_all
  have b2: "inv (cb_module b2) \<and> cb_step b2 = cb_step b \<and>
      (if a then todo (cb_module b2) < todo (cb_module b) else todo (cb_module b2) = todo (cb_module b))"
  proof (cases a)
    case True
    then have "analyse bp ops iface (b \<lparr> cb_module := s \<rparr>) = Inr b2" using r(3) by simp
    then show ?thesis using analyse_module [of bp iface "b \<lparr> cb_module := s \<rparr>" b2] s True by simp
  next
    case False
    then show ?thesis using r(3) s by auto
  qed
  have b4: "inv (cb_module b4) \<and> todo (cb_module b4) = todo (cb_module b2) \<and> cb_step b4 = cb_step b"
    using sendPSdata_module [OF r(5)] sendProvenance_module [OF r(4)] b2 by simp
  have "bp_analysis_step_freq bp * 1 \<le> bp_analysis_step_freq bp * int (todo (cb_module b))"
    using s(3) freq by (intro mult_left_mono) linarith+
  then have pos: "0 < frames_left bp (cb_step b) (todo (cb_module b))"
    using freq pos_mod_sign [OF freq, of "- cb_step b"] by (simp only: frames_left_def)
  have "frames_left bp (cb_step b1) (todo (cb_module b1)) < frames_left bp (cb_step b) (todo (cb_module b))"
  proof (cases a)
    case True
    have "?f * int (todo (cb_module b2)) + ?f \<le> ?f * int (todo (cb_module b))"
    proof -
      have "int (todo (cb_module b2)) + 1 \<le> int (todo (cb_module b))" using b2 True by simp
      then have "?f * (int (todo (cb_module b2)) + 1) \<le> ?f * int (todo (cb_module b))" using freq by (intro mult_left_mono) linarith+
      then show ?thesis by (simp add: algebra_simps)
    qed
    moreover have "(- (cb_step b + 1)) mod ?f < ?f" by (rule pos_mod_bound [OF freq])
    moreover have "(- cb_step b) mod ?f = 0" using True a by (simp add: mod_eq_0_iff_dvd)
    ultimately show ?thesis using b4 r(6) by (simp add: frames_left_def)
  next
    case False
    then have "\<not> ?f dvd cb_step b" using a by simp
    then show ?thesis using b4 b2 r(6) False minus_mod_step [OF _ freq] by (simp add: frames_left_def)
  qed
  then show ?thesis using b4 r(6) pos by simp
qed

lemma frames_end:
  assumes freq: "0 < bp_analysis_step_freq bp" and "inv (cb_module b)" "frames_left bp (cb_step b) (todo (cb_module b)) < int (length is)"
  shows "run_frames bp ops is frames b \<noteq> Inr None"
  using assms(2,3)
proof (induction "is" arbitrary: frames b)
  case Nil
  then show ?case using frames_left_nonneg [OF freq, of "cb_step b" "todo (cb_module b)"] by simp
next
  case (Cons i "is")
  show ?case
  proof (cases "runFrame bp ops i b")
    case (Inl e)
    then show ?thesis by simp
  next
    case (Inr r)
    obtain ok b1 where r: "r = (ok, b1)" by (cases r)
    show ?thesis
    proof (cases ok)
      case False
      then show ?thesis using Inr r by simp
    next
      case True
      then have d: "inv (cb_module b1)" "frames_left bp (cb_step b1) (todo (cb_module b1)) < frames_left bp (cb_step b) (todo (cb_module b))"
        using frame_decreases [OF freq Cons.prems(1)] Inr r by auto
      then have "frames_left bp (cb_step b1) (todo (cb_module b1)) < int (length is)" using Cons.prems(2) by simp
      then show ?thesis using Cons.IH [OF d(1)] Inr r True by simp
    qed
  qed
qed

lemma run_ends:
  assumes "0 < bp_analysis_step_freq bp" "inv (mo_resetRunStatistics ops (cb_module b))"
    "frames_left bp (cb_step b) (todo (mo_resetRunStatistics ops (cb_module b))) < int (length is)"
  shows "run bp ops is b \<noteq> Inr None"
proof -
  let ?b = "b \<lparr> cb_n_outliers := 0, cb_module := mo_resetRunStatistics ops (cb_module b) \<rparr>"
  have "run_frames bp ops is 0 ?b \<noteq> Inr None" by (rule frames_end) (use assms in simp_all)
  then show ?thesis by (auto simp: run_def bind_simps split: option.splits)
qed

end

end
