(* ===== verification/Wiring.thy ===== *)
theory Wiring
  imports Base Driver Attributes Provenance CounterStep ModuleData
begin

text \<open>
  The performance analysis module (\<open>Chimbuko\<close> of \<open>modules/performance_analysis/chimbuko.cpp\<close>): its
  components as fields of one state and the virtual functions of the base class over them. The parser
  owns the maps of functions, event types, counters and GPU threads, and the components read them
  through pointers: \<open>link_maps\<close> renews their copies after every parsed step. The outlier detection,
  a component of the base class, is kept here with the state of the server it talks to. What the trace
  stream delivers in a step is the record \<open>trace_step\<close>.
\<close>

section \<open>Parameters and state\<close>

text \<open>
  \<open>pa_run\<close> is a step of the chosen algorithm, \<open>pa_algo_params\<close> the JSON of the global model of a
  function, \<open>pa_cuda_workaround\<close> the absence of the environment variable that disables it.
\<close>

record ('p, 'srv, 'j) pa_params =
  pa_rank :: int
  pa_program_idx :: int
  pa_use_ps :: bool
  pa_algorithm_name :: string
  pa_run :: "exec_interface \<Rightarrow> 'p ad_outlier \<times> 'srv \<Rightarrow> ('p ad_outlier \<times> 'srv \<times> exec_interface) res"
  pa_algo_params :: "'p \<Rightarrow> u64 \<Rightarrow> 'j res"
  pa_cuda_workaround :: bool
  pa_anom_win_size :: int
  pa_outlier_statistic :: string
  pa_prov_min_anom_time :: u64
  pa_parser_beginstep_timeout :: int

record trace_step =
  tr_statuses :: "(step_status \<times> real) list"
  tr_attributes :: "(string \<times> string option) list"
  tr_ask :: "u64 \<Rightarrow> string list \<Rightarrow> u64 list"
  tr_func :: "(nat \<times> u64 list) option"
  tr_comm :: "(nat \<times> u64 list) option"
  tr_counter :: "(nat \<times> u64 list) option"

record run_statistics =
  rs_n_func_events :: u64
  rs_n_comm_events :: u64
  rs_n_counter_events :: u64

definition new_RunStatistics :: run_statistics where
  "new_RunStatistics = \<lparr> rs_n_func_events = 0, rs_n_comm_events = 0, rs_n_counter_events = 0 \<rparr>"

record ('p, 'srv, 'j) chimbuko =
  ch_parser :: parser
  ch_attributes :: trace_attributes
  ch_event :: adevent
  ch_counter :: ad_counter
  ch_metadata_parser :: metadata_parser
  ch_monitoring :: ad_monitoring
  ch_normalevents :: "'j provenance normal_events"
  ch_prov_errors :: "prov_error list"
  ch_outlier :: "'p ad_outlier"
  ch_server :: 'srv
  ch_first_event_ts :: u64
  ch_last_event_ts :: u64
  ch_first_event_ts_set :: bool
  ch_run_stats :: run_statistics
  ch_exec_ignore_counters :: "u64 set"
  ch_func_seen :: "(u64 \<times> u64 \<times> u64 \<times> u64) set"
  ch_funcstats_buf :: "local_func_statistics list"
  ch_countstats_buf :: "local_counter_statistics list"
  ch_anom_metrics_buf :: "local_anomaly_metrics list"
  ch_purge_report :: purge_report
  ch_recoverable :: "string list"

text \<open>The entries of the provenance data base.\<close>

datatype 'j prov_json = EventEntry "'j provenance" | MetadataEntry meta_data

definition link_maps :: "('p, 'srv, 'j) chimbuko \<Rightarrow> ('p, 'srv, 'j) chimbuko" where
  "link_maps c =
     (let p = ch_parser c; counters = map_of (p_counterMap p) in
      c \<lparr> ch_event := linkGPUthreadMap (map fst (mp_gpu_thread_map (ch_metadata_parser c)))
             (linkCounterMap counters (linkEventType (map_of (p_eventType p)) (linkFuncMap (p_funcMap p) (ch_event c)))),
          ch_counter := counter_linkCounterMap counters (ch_counter c),
          ch_monitoring := monitoring_linkCounterMap (p_counterMap p) (ch_monitoring c) \<rparr>)"

section \<open>Reading a step\<close>

text \<open>
  \<open>None\<close>: the parser is or gets disconnected. Counts of a step are the event numbers of the parser.
  Attributes are looked up in the map that the parser keeps of the server's function indices.
\<close>

definition fetch_step ::
    "trace_step \<Rightarrow> ('p, 'srv, 'j) chimbuko \<Rightarrow> ('p, 'srv, 'j) chimbuko res" where
  "fetch_step i c =
     bind (update_attributes (tr_ask i) (tr_attributes i) (ch_parser c, ch_attributes c)) (\<lambda>(p1, ta).
     let im = ta_global_func_idx_map ta;
         lookup = (\<lambda>f. case ad_lookup_const f im of Inl _ \<Rightarrow> None | Inr g \<Rightarrow> Some g) in
     bind (fetchFuncData (tr_func i) (connectedToPS im) lookup p1) (\<lambda>(_, p2).
     bind (fetchCommData (tr_comm i) p2) (\<lambda>(_, p3).
     bind (fetchCounterData (tr_counter i) p3) (\<lambda>(_, p4).
     bind (addData (ta_new_metadata ta) (ch_metadata_parser c)) (\<lambda>mp.
     Inr (link_maps (c \<lparr> ch_parser := p4, ch_attributes := ta, ch_metadata_parser := mp \<rparr>)))))))"

definition parseInputStep ::
    "('p, 'srv, 'j) pa_params \<Rightarrow> trace_step \<Rightarrow> int \<Rightarrow> ('p, 'srv, 'j) chimbuko \<Rightarrow> (bool \<times> ('p, 'srv, 'j) chimbuko) res" where
  "parseInputStep pa i expect_step c =
     (if \<not> p_status (ch_parser c) then Inr (False, c)
      else case beginStep (pa_parser_beginstep_timeout pa) (tr_statuses i) (ch_parser c) of
        None \<Rightarrow> Inl NoTermination
      | Some (step, p) \<Rightarrow>
          let c1 = c \<lparr> ch_parser := p \<rparr> in
          if \<not> p_status p then Inr (False, c1)
          else
            let c2 = (if p_current_step p = expect_step then c1
                      else c1 \<lparr> ch_recoverable := ch_recoverable c1 @ [''Got step expected''] \<rparr>) in
            bind (fetch_step i c2) (\<lambda>c3. Inr (True, c3)))"

definition count_events :: "('p, 'srv, 'j) chimbuko \<Rightarrow> ('p, 'srv, 'j) chimbuko" where
  "count_events c =
     (let p = ch_parser c; r = ch_run_stats c in
      c \<lparr> ch_run_stats := \<lparr> rs_n_func_events = rs_n_func_events r + of_nat (p_timer_event_count p),
             rs_n_comm_events = rs_n_comm_events r + of_nat (p_comm_count p),
             rs_n_counter_events = rs_n_counter_events r + of_nat (p_counter_count p) \<rparr> \<rparr>)"

text \<open>\<open>extractCounters\<close>: a counter that cannot be registered is reported and left out.\<close>

definition counter_event :: "int \<Rightarrow> int \<Rightarrow> parser \<Rightarrow> nat \<Rightarrow> event_t" where
  "counter_event rank step p i =
     \<lparr> m_data = row COUNTER_EVENT_DIM (p_counter_timestamps p) i, m_t = COUNT, m_id = eventID rank step (int i), m_idx = i \<rparr>"

definition register_counter :: "event_t \<Rightarrow> ad_counter \<times> string list \<Rightarrow> (ad_counter \<times> string list) res" where
  "register_counter ev st =
     (case addCounter_event ev (fst st) of
        (Inr _, ct) \<Rightarrow> Inr (ct, snd st)
      | (Inl (Fatal w), ct) \<Rightarrow> Inr (ct, snd st @ [''extractCounters failed to register counter event''])
      | (Inl (RuntimeError w), ct) \<Rightarrow> Inr (ct, snd st @ [''extractCounters failed to register counter event''])
      | (Inl e, ct) \<Rightarrow> Inl e)"

definition extractCounters :: "int \<Rightarrow> int \<Rightarrow> ('p, 'srv, 'j) chimbuko \<Rightarrow> ('p, 'srv, 'j) chimbuko res" where
  "extractCounters rank step c =
     bind (foldE register_counter (map (counter_event rank step (ch_parser c)) [0..<p_counter_count (ch_parser c)])
             (ch_counter c, ch_recoverable c)) (\<lambda>(ct, log).
     Inr (c \<lparr> ch_counter := ct, ch_recoverable := log \<rparr>))"

definition extractNodeState :: "('p, 'srv, 'j) chimbuko \<Rightarrow> ('p, 'srv, 'j) chimbuko res" where
  "extractNodeState c =
     bind (getCountersByIndex (ch_counter c)) (\<lambda>counters.
     bind (monitoring_extractCounters counters (ch_monitoring c)) (\<lambda>mo.
     Inr (c \<lparr> ch_monitoring := mo,
              ch_exec_ignore_counters := ch_exec_ignore_counters c \<union> set (map word_of_int (getMonitoringCounterIndices mo)) \<rparr>)))"

definition have_data :: "adevent \<Rightarrow> bool" where
  "have_data s = list_ex (\<lambda>(fid, l). l \<noteq> []) (m_execDataMap s)"

definition setupInterface ::
    "('p, 'srv, 'j) pa_params \<Rightarrow> ('p, 'srv, 'j) chimbuko \<Rightarrow> exec_interface res" where
  "setupInterface pa c =
     bind (if pa_outlier_statistic pa = ''exclusive_runtime'' then Inr ExclusiveRuntime
           else if pa_outlier_statistic pa = ''inclusive_runtime'' then Inr InclusiveRuntime
           else Inl (Fatal ''Invalid statistic'')) (\<lambda>stat.
     let d = new_ADExecDataInterface (ch_event c) stat in
     Inr (if pa_algorithm_name pa = ''sstd'' \<and> pa_cuda_workaround pa
          then setIgnoreFirstFunctionCall (ch_func_seen c) d else d))"

definition take_step :: "('p, 'srv, 'j) pa_params \<Rightarrow> int \<Rightarrow> ('p, 'srv, 'j) chimbuko \<Rightarrow> ('p, 'srv, 'j) chimbuko res" where
  "take_step pa step c =
     bind (extractCounters (pa_rank pa) step (count_events c)) (\<lambda>c1.
     bind (extractNodeState c1) (\<lambda>c2.
     bind (extractEvents (ch_exec_ignore_counters c2) (ch_parser c2) (ch_event c2)) (\<lambda>((first, last_ts), ev).
     Inr (c2 \<lparr> ch_event := ev, ch_last_event_ts := last_ts,
               ch_first_event_ts := (if ch_first_event_ts_set c2 then ch_first_event_ts c2 else first),
               ch_first_event_ts_set := True \<rparr>))))"

definition readStep ::
    "('p, 'srv, 'j) pa_params \<Rightarrow> trace_step \<Rightarrow> (int \<Rightarrow> bool res) \<Rightarrow> int \<Rightarrow> ('p, 'srv, 'j) chimbuko \<Rightarrow>
     (bool \<times> exec_interface option \<times> ('p, 'srv, 'j) chimbuko) res" where
  "readStep pa i doAnalysis step c =
     bind (parseInputStep pa i step c) (\<lambda>(parsed, c1).
     bind (if parsed then take_step pa step c1 else Inr c1) (\<lambda>c2.
       if \<not> have_data (ch_event c2) then Inr (False, None, c2)
       else bind (doAnalysis step) (\<lambda>do_analysis.
         if do_analysis then bind (setupInterface pa c2) (\<lambda>d. Inr (True, Some d, c2))
         else Inr (True, None, c2))))"

section \<open>Detection, records and statistics\<close>

text \<open>The interface points to the executions and to the set of functions seen.\<close>

definition detect ::
    "('p, 'srv, 'j) pa_params \<Rightarrow> exec_interface \<Rightarrow> int \<Rightarrow> ('p, 'srv, 'j) chimbuko \<Rightarrow>
     (exec_interface \<times> ('p, 'srv, 'j) chimbuko) res" where
  "detect pa d step c =
     bind (pa_run pa d (ch_outlier c, ch_server c)) (\<lambda>(ad, srv, d1).
     Inr (d1, c \<lparr> ch_outlier := ad, ch_server := srv, ch_event := i_events d1,
                  ch_func_seen := (if m_ignore_first_func_call d1 then m_local_func_exec_seen d1 else ch_func_seen c) \<rparr>))"

definition prov_links_of :: "('p, 'srv, 'j) pa_params \<Rightarrow> ('p, 'srv, 'j) chimbuko \<Rightarrow> 'j prov_links" where
  "prov_links_of pa c = \<lparr> pl_event_man = ch_event c, pl_monitoring = Some (ch_monitoring c),
     pl_metadata = Some (ch_metadata_parser c), pl_algo_params = Some (pa_algo_params pa (m_param (ch_outlier c))),
     pl_window_size = pa_anom_win_size pa, pl_min_anom_time = pa_prov_min_anom_time pa \<rparr>"

text \<open>\<open>buffer[coll].insert(buffer[coll].end(), ...)\<close>.\<close>

definition buffer_append :: "string \<Rightarrow> 'e list \<Rightarrow> 'e prov_buffer \<Rightarrow> 'e prov_buffer" where
  "buffer_append coll es buf = AList.update coll (al_get [] buf coll @ es) buf"

definition bufferStoreProvenanceDataImplementation ::
    "('p, 'srv, 'j) pa_params \<Rightarrow> exec_interface \<Rightarrow> int \<Rightarrow> 'j prov_json prov_buffer \<times> ('p, 'srv, 'j) chimbuko \<Rightarrow>
     ('j prov_json prov_buffer \<times> ('p, 'srv, 'j) chimbuko) res" where
  "bufferStoreProvenanceDataImplementation pa anomalies step st =
     (let (buf, c) = st in
      bind (getProvenanceEntries (prov_links_of pa c) anomalies step (ch_first_event_ts c) (ch_last_event_ts c) (ch_normalevents c)) (\<lambda>a.
      let buf1 = buffer_append ''normalexecs'' (map EventEntry (as_normal a))
                   (buffer_append ''anomalies'' (map EventEntry (as_anom a)) buf);
          md = ta_new_metadata (ch_attributes c) in
      Inr (if md = [] then buf1 else buffer_append ''metadata'' (map MetadataEntry md) buf1,
           c \<lparr> ch_normalevents := as_store a, ch_prov_errors := ch_prov_errors c @ as_errs a \<rparr>)))"

definition bufferStorePSdata ::
    "('p, 'srv, 'j) pa_params \<Rightarrow> exec_interface \<Rightarrow> int \<Rightarrow> ('p, 'srv, 'j) chimbuko \<Rightarrow> ('p, 'srv, 'j) chimbuko res" where
  "bufferStorePSdata pa ei step c =
     (if \<not> pa_use_ps pa then Inr c
      else
        bind (gatherStatistics (ch_event c)
                (new_ADLocalFuncStatistics (word_of_int (pa_program_idx pa)) (word_of_int (pa_rank pa)) step)) (\<lambda>f0.
        bind (gatherAnomalies ei f0) (\<lambda>func_stats.
        bind (getCountersByIndex (ch_counter c)) (\<lambda>counters.
        bind (new_ADLocalAnomalyMetrics (pa_program_idx pa) (pa_rank pa) step (ch_first_event_ts c) (ch_last_event_ts c) ei) (\<lambda>metrics.
        Inr (c \<lparr> ch_funcstats_buf := ch_funcstats_buf c @ [func_stats],
                 ch_countstats_buf := ch_countstats_buf c @
                   [counter_gatherStatistics counters (new_ADLocalCounterStatistics (word_of_int (pa_program_idx pa)) step None)],
                 ch_anom_metrics_buf := ch_anom_metrics_buf c @ [metrics] \<rparr>))))))"

definition sendPSdataImplementation ::
    "('p, 'srv, 'j) pa_params \<Rightarrow> int \<Rightarrow> ('p, 'srv, 'j) chimbuko \<Rightarrow> ((int \<times> steps_data) list \<times> ('p, 'srv, 'j) chimbuko) res" where
  "sendPSdataImplementation pa step c =
     (if ch_funcstats_buf c = [] then Inr ([], c)
      else bind (combined_array_send (pa_use_ps pa) (ch_funcstats_buf c, ch_countstats_buf c, ch_anom_metrics_buf c)) (\<lambda>msg.
        Inr (case msg of None \<Rightarrow> [] | Some m \<Rightarrow> [m],
             c \<lparr> ch_funcstats_buf := [], ch_countstats_buf := [], ch_anom_metrics_buf := [] \<rparr>)))"

definition performEndStepAction :: "('p, 'srv, 'j) pa_params \<Rightarrow> ('p, 'srv, 'j) chimbuko \<Rightarrow> ('p, 'srv, 'j) chimbuko res" where
  "performEndStepAction pa c =
     bind (purgeCallList (pa_anom_win_size pa) (ch_event c)) (\<lambda>(report, ev).
     let (flushed, ct) = flushCounters (ch_counter c) in
     Inr (c \<lparr> ch_event := ev, ch_purge_report := report, ch_counter := delete_counters flushed ct,
              ch_first_event_ts_set := False \<rparr>))"

definition resetRunStatistics :: "('p, 'srv, 'j) chimbuko \<Rightarrow> ('p, 'srv, 'j) chimbuko" where
  "resetRunStatistics c = c \<lparr> ch_run_stats := new_RunStatistics \<rparr>"

definition pa_ops ::
    "('p, 'srv, 'j) pa_params \<Rightarrow>
     (trace_step, exec_interface, ('p, 'srv, 'j) chimbuko, 'j prov_json, int \<times> steps_data) module_ops" where
  "pa_ops pa = \<lparr> mo_readStep = readStep pa, mo_detect = detect pa, mo_nOutliers = nEventsRecorded Outlier,
     mo_bufferProvenance = bufferStoreProvenanceDataImplementation pa, mo_bufferPSdata = bufferStorePSdata pa,
     mo_sendPSdata = sendPSdataImplementation pa, mo_endStep = performEndStepAction pa,
     mo_resetRunStatistics = resetRunStatistics \<rparr>"

section \<open>The start\<close>

text \<open>
  \<open>initialize\<close>: the parser has opened its stream, the outlier algorithm is chosen. \<open>corrid_funcs\<close> are
  the lines of the file of functions whose correlation identifiers are ignored, \<open>None\<close> when it cannot
  be opened, and \<open>watchlist\<close> the file of watched counters; an empty name stands for no file.
\<close>

definition init_event :: "(string list option) option \<Rightarrow> adevent res" where
  "init_event corrid_funcs =
     (case corrid_funcs of
        None \<Rightarrow> Inr new_ADEvent
      | Some None \<Rightarrow> Inl (Fatal ''Failed to open ignored-corried-func file'')
      | Some (Some funcs) \<Rightarrow> Inr (fold ignoreCorrelationIDsForFunction funcs new_ADEvent))"

definition init_monitoring :: "watch_file option \<Rightarrow> string \<Rightarrow> ad_monitoring res" where
  "init_monitoring watchlist counter_prefix =
     bind (case watchlist of
             Some file \<Rightarrow> parseWatchListFile file new_ADMonitoring
           | None \<Rightarrow> Inr (setDefaultWatchList new_ADMonitoring)) (\<lambda>mo.
     Inr (if counter_prefix \<noteq> [] then setCounterPrefix counter_prefix mo else mo))"

definition initialize ::
    "parser \<Rightarrow> trace_attributes \<Rightarrow> 'p ad_outlier \<Rightarrow> 'srv \<Rightarrow> (string list option) option \<Rightarrow> watch_file option \<Rightarrow> string \<Rightarrow>
     ('p, 'srv, 'j) chimbuko res" where
  "initialize p ta ad srv corrid_funcs watchlist counter_prefix =
     bind (init_event corrid_funcs) (\<lambda>ev.
     bind (init_monitoring watchlist counter_prefix) (\<lambda>mo.
     Inr (link_maps \<lparr> ch_parser = p, ch_attributes = ta, ch_event = ev, ch_counter = new_ADCounter,
       ch_metadata_parser = new_ADMetadataParser, ch_monitoring = mo, ch_normalevents = new_ADNormalEventProvenance,
       ch_prov_errors = [], ch_outlier = ad, ch_server = srv, ch_first_event_ts = 0, ch_last_event_ts = 0,
       ch_first_event_ts_set = False, ch_run_stats = new_RunStatistics, ch_exec_ignore_counters = {}, ch_func_seen = {},
       ch_funcstats_buf = [], ch_countstats_buf = [], ch_anom_metrics_buf = [], ch_purge_report = empty_report,
       ch_recoverable = [] \<rparr>)))"

end
