(* ===== verification/RunEnd.thy ===== *)
theory RunEnd
  imports LocalProps EventPurge
begin

text \<open>
  What a step leaves for the next one. Every execution of a data set is labelled after a step of SSTD,
  except those of functions of which fewer than two values are known; the purge drops the labelled
  executions and keeps the labels of the others.
\<close>

section \<open>The purge\<close>

definition labels_kept :: "adevent \<Rightarrow> adevent \<Rightarrow> bool" where
  "labels_kept s t \<longleftrightarrow> m_execDataMap t = m_execDataMap s \<and>
     (\<forall>a y. store_map t a = Some y \<longrightarrow> (\<exists>x. store_map s a = Some x \<and> m_label y = m_label x \<and> m_fid y = m_fid x))"

lemma labels_kept_refl: "labels_kept s s"
  by (simp add: labels_kept_def)

lemma labels_kept_trans: "labels_kept s t \<Longrightarrow> labels_kept t u \<Longrightarrow> labels_kept s u"
  unfolding labels_kept_def by metis

lemma modify_kept:
  assumes "modify a f s = Inr t" "\<And>x y. f x = Inr y \<Longrightarrow> m_label y = m_label x \<and> m_fid y = m_fid x"
  shows "labels_kept s t"
proof -
  obtain x y where "store_map s a = Some x" "f x = Inr y" "t = put a y s"
    using assms(1) by (auto simp: modify_def bind_simps deref_def split: option.splits)
  then show ?thesis using assms(2) [of x y] by (auto simp: labels_kept_def put_def)
qed

lemma references_labels:
  "Inr (register_reference x) = Inr y \<Longrightarrow> m_label y = m_label x \<and> m_fid y = m_fid x"
  "deregister_reference x = Inr y \<Longrightarrow> m_label y = m_label x \<and> m_fid y = m_fid x"
  by (auto simp: register_reference_def deregister_reference_def bind_simps split: if_splits)

lemma climb_kept:
  assumes "\<And>x y. f x = Inr y \<Longrightarrow> m_label y = m_label x \<and> m_fid y = m_fid x"
  shows "climb n f parent s = Inr t \<Longrightarrow> labels_kept s t"
proof (induction n arbitrary: parent s)
  case 0
  then show ?case by (auto simp: climb.simps [of 0] labels_kept_refl split: if_splits)
next
  case (Suc n)
  show ?case
  proof (cases "parent = root")
    case True
    then show ?thesis using Suc.prems by (simp add: climb.simps [of "Suc n"] labels_kept_refl)
  next
    case False
    show ?thesis
    proof (cases "getCallData parent s")
      case (Inl e)
      then show ?thesis using Suc.prems False
        by (auto simp: climb.simps [of "Suc n"] log_error_def labels_kept_def)
    next
      case (Inr pit)
      then obtain s1 i where 1: "modify pit f s = Inr s1" "climb n f i s1 = Inr t"
        using Suc.prems False by (auto simp: climb.simps [of "Suc n"] bind_simps)
      show ?thesis using labels_kept_trans [OF modify_kept [OF 1(1) assms] Suc.IH [OF 1(2)]] by simp
    qed
  qed
qed

lemma climbs_kept:
  assumes "\<And>x y. f x = Inr y \<Longrightarrow> m_label y = m_label x \<and> m_fid y = m_fid x"
    and "foldE (climb n f) ls s = Inr t"
  shows "labels_kept s t"
  using foldE_invariant [where P = "labels_kept s", OF assms(2) labels_kept_refl] climb_kept [OF assms(1)] labels_kept_trans
  by blast

lemma stack_kept:
  "stackProtectGC a s = Inr t \<Longrightarrow> labels_kept s t" "stackUnProtectGC a s = Inr t \<Longrightarrow> labels_kept s t"
proof -
  assume "stackProtectGC a s = Inr t"
  then obtain s1 x where "modify a (\<lambda>x. Inr (register_reference x)) s = Inr s1"
    "foldE (climb (Suc (next_addr s1)) (\<lambda>x. Inr (register_reference x))) (lock_lines s1 x) s1 = Inr t"
    by (auto simp: stackProtectGC_def bind_simps)
  then have "labels_kept s s1" "labels_kept s1 t"
    using references_labels(1) by (auto elim!: modify_kept climbs_kept [rotated])
  then show "labels_kept s t" by (rule labels_kept_trans)
next
  assume "stackUnProtectGC a s = Inr t"
  then obtain s1 x where "modify a deregister_reference s = Inr s1"
    "foldE (climb (Suc (next_addr s1)) deregister_reference) (lock_lines s1 x) s1 = Inr t"
    by (auto simp: stackUnProtectGC_def bind_simps)
  then have "labels_kept s s1" "labels_kept s1 t"
    using references_labels(2) by (auto elim!: modify_kept climbs_kept [rotated])
  then show "labels_kept s t" by (rule labels_kept_trans)
qed

lemma labels_kept_locks: "labels_kept s t \<Longrightarrow> labels_kept s (t \<lparr> m_stackLockedUnlabeled := L \<rparr>)"
  by (simp add: labels_kept_def)

lemma unlock_labeled_kept: "unlock_labeled a s = Inr t \<Longrightarrow> labels_kept s t"
  by (auto simp: unlock_labeled_def bind_simps labels_kept_refl intro: labels_kept_locks stack_kept split: if_splits)

lemma purge_step_kept:
  assumes "purge_step a (rep, cl, s) = Inr (rep', cl', t)"
  shows "labels_kept s t"
proof -
  obtain s1 x where 1: "unlock_labeled a s = Inr s1" "deref s1 a = Inr x"
    using assms by (simp add: purge_step_def bind_simps) blast
  then have t: "t = s1 \<or> t = erase_call a (x_id x) s1 \<or>
      (\<exists>s2. stackProtectGC a s1 = Inr s2 \<and> t = s2 \<lparr> m_stackLockedUnlabeled := insert (x_id x) (m_stackLockedUnlabeled s2) \<rparr>)"
    using assms by (auto simp: purge_step_def bind_simps split: if_splits)
  have "labels_kept s1 (erase_call a i s1)" for i
    by (auto simp: erase_call_def labels_kept_def split: if_splits)
  then have "labels_kept s1 t"
    using t stack_kept(1) labels_kept_locks labels_kept_refl by blast
  then show ?thesis using labels_kept_trans [OF unlock_labeled_kept [OF 1(1)]] by simp
qed

lemma purge_lists_kept:
  assumes "purge_lists n s = Inr (rep, t)"
  shows "labels_kept s t"
proof -
  have thread: "labels_kept s t'" if run: "purge_thread n kc (rep, s) = Inr (rep', t')" for kc rep s rep' t'
  proof -
    obtain k cl where kc: "kc = (k, cl)" by (cases kc)
    show ?thesis
    proof (cases "keep_all n cl")
      case True
      then show ?thesis using run kc by (auto simp: purge_thread_def labels_kept_refl)
    next
      case False
      then obtain r1 r2 kept s1 l where 1: "foldE purge_step (take (length cl - nat n) cl) (r1, [], s) = Inr (r2, kept, s1)"
        "t' = s1 \<lparr> m_callList := l \<rparr>"
        using run kc by (auto simp: purge_thread_def Let_def bind_simps)
      have "labels_kept s (snd (snd (r2, kept, s1)))"
        by (rule foldE_invariant [where P = "\<lambda>st. labels_kept s (snd (snd st))", OF 1(1)])
          (auto simp: labels_kept_refl split_paired_all dest!: purge_step_kept elim: labels_kept_trans)
      then show ?thesis using 1(2) by (simp add: labels_kept_def)
    qed
  qed
  have "labels_kept s (snd (rep, t))"
    by (rule foldE_invariant [where P = "\<lambda>st. labels_kept s (snd st)", OF assms [unfolded purge_lists_def]])
      (auto simp: labels_kept_refl split_paired_all dest!: thread elim: labels_kept_trans)
  then show ?thesis by simp
qed

section \<open>What remains after the purge\<close>

lemma clear_list_filter:
  "clear_list s as = Inr keep \<Longrightarrow> (\<forall>a \<in> set as. \<exists>x. store_map s a = Some x) \<and>
     keep = [a \<leftarrow> as. \<exists>x. store_map s a = Some x \<and> m_label x = 0]"
proof (induction as arbitrary: keep)
  case (Cons a as)
  then obtain x k where 1: "store_map s a = Some x" "clear_list s as = Inr k" "keep = (if m_label x = 0 then a # k else k)"
    by (auto simp: bind_simps deref_def split: option.splits)
  then show ?case using Cons.IH [OF 1(2)] by auto
qed simp

lemma clear_loop:
  assumes "foldE (\<lambda>(f, as) t. bind (clear_list s as) (\<lambda>keep. Inr (t \<lparr> m_execDataMap := AList.update f keep (m_execDataMap t) \<rparr>))) r u = Inr t"
    and "m_execDataMap u = d @ r" "distinct (map fst (d @ r))"
  shows "(\<forall>(f, as) \<in> set r. \<forall>a \<in> set as. \<exists>x. store_map s a = Some x) \<and> store_map t = store_map u \<and>
    m_execDataMap t = d @ map (\<lambda>(f, as). (f, [a \<leftarrow> as. \<exists>x. store_map s a = Some x \<and> m_label x = 0])) r"
  using assms
proof (induction r arbitrary: u d)
  case (Cons fa r)
  obtain f as where fa: "fa = (f, as)" by (cases fa)
  obtain keep where k: "clear_list s as = Inr keep" using Cons.prems(1) fa by (auto simp: bind_simps)
  let ?u = "u \<lparr> m_execDataMap := AList.update f keep (m_execDataMap u) \<rparr>"
  have "f \<notin> fst ` set d" using Cons.prems(3) fa by auto
  then have m: "m_execDataMap ?u = (d @ [(f, keep)]) @ r" using Cons.prems(2) fa by (simp add: update_mid)
  have "distinct (map fst ((d @ [(f, keep)]) @ r))" using Cons.prems(3) fa by auto
  from Cons.IH [OF _ m this] Cons.prems(1) k fa clear_list_filter [OF k] show ?case by auto
qed simp

definition unlabelled :: "adevent \<Rightarrow> addr \<Rightarrow> bool" where
  "unlabelled s a \<longleftrightarrow> (\<exists>x. store_map s a = Some x \<and> m_label x = 0)"

lemma purge_exec_map:
  assumes "exec_map_ok s" "purgeCallList n s = Inr (rep, t)"
  shows "exec_map_ok t" "m_execDataMap t = map (\<lambda>(f, as). (f, filter (unlabelled s) as)) (m_execDataMap s)"
proof -
  obtain u where u: "purge_lists n s = Inr (rep, u)" "clearUnlabeled u = Inr t"
    using assms(2) by (auto simp: purgeCallList_def bind_simps)
  note k = purge_lists_kept [OF u(1)]
  have mu: "m_execDataMap u = m_execDataMap s" using k by (simp add: labels_kept_def)
  have dist: "distinct (map fst ([] @ m_execDataMap u))" using assms(1) mu by (simp add: exec_map_ok_def)
  have c: "(\<forall>(f, as) \<in> set (m_execDataMap s). \<forall>a \<in> set as. \<exists>x. store_map u a = Some x)" "store_map t = store_map u"
      "m_execDataMap t = map (\<lambda>(f, as). (f, [a \<leftarrow> as. \<exists>x. store_map u a = Some x \<and> m_label x = 0])) (m_execDataMap s)"
    using clear_loop [OF u(2) [unfolded clearUnlabeled_def] _ dist] mu by simp_all
  have same: "\<exists>x y. store_map s a = Some x \<and> store_map u a = Some y \<and> m_label y = m_label x \<and> m_fid y = m_fid x"
    if "(f, as) \<in> set (m_execDataMap s)" "a \<in> set as" for f as a
    using c(1) that k unfolding labels_kept_def by fastforce
  have "filter (\<lambda>a. \<exists>x. store_map u a = Some x \<and> m_label x = 0) as = filter (unlabelled s) as"
    if "(f, as) \<in> set (m_execDataMap s)" for f as
    using same [OF that] by (intro filter_cong refl) (fastforce simp: unlabelled_def)
  then show m: "m_execDataMap t = map (\<lambda>(f, as). (f, filter (unlabelled s) as)) (m_execDataMap s)"
    unfolding c(3) by (intro map_cong) auto
  have fst_eq: "map fst (m_execDataMap t) = map fst (m_execDataMap s)" unfolding m by (induction "m_execDataMap s") auto
  have "distinct l \<and> (\<forall>a \<in> set l. \<exists>x. store_map t a = Some x \<and> m_fid x = f)" if mem: "(f, l) \<in> set (m_execDataMap t)" for f l
  proof -
    obtain as where as: "(f, as) \<in> set (m_execDataMap s)" "l = filter (unlabelled s) as"
      using mem unfolding m by auto
    then have "distinct as" "\<forall>a \<in> set as. \<exists>x. store_map s a = Some x \<and> m_fid x = f"
      using assms(1) by (auto simp: exec_map_ok_def)
    then show ?thesis using same [OF as(1)] as(2) c(2) by fastforce
  qed
  then show "exec_map_ok t" using assms(1) fst_eq by (auto simp: exec_map_ok_def)
qed

section \<open>The detection\<close>

definition labelled_at :: "exec_interface \<Rightarrow> addr \<Rightarrow> bool" where
  "labelled_at d a \<longleftrightarrow> (\<exists>x. store_map (i_events d) a = Some x \<and> m_label x \<noteq> 0)"

definition labels_grow :: "exec_interface \<Rightarrow> exec_interface \<Rightarrow> bool" where
  "labels_grow d d' \<longleftrightarrow> (\<forall>a. labelled_at d a \<longrightarrow> labelled_at d' a)"

lemma labels_grow_refl: "labels_grow d d"
  by (simp add: labels_grow_def)

lemma labels_grow_trans: "labels_grow d d' \<Longrightarrow> labels_grow d' d'' \<Longrightarrow> labels_grow d d''"
  by (simp add: labels_grow_def)

lemma data_set_step_labels:
  assumes "data_set_step ig fid (i, a) (out, d) = Inr (out', d')"
  shows "labels_grow d d' \<and> set out \<subseteq> set out' \<and> (labelled_at d' a \<or> i \<in> e_index ` set out') \<and> m_dset_cache d' = m_dset_cache d"
proof -
  have n: "labels_grow d d1 \<and> labelled_at d1 a \<and> m_dset_cache d1 = m_dset_cache d" if "label_normal a d = Inr d1" for d1
    using that by (auto simp: label_normal_def modify_def deref_def put_def bind_simps labels_grow_def labelled_at_def split: option.splits)
  have seen: "labels_grow d (d1 \<lparr> m_local_func_exec_seen := S \<rparr>) = labels_grow d d1"
    "labelled_at (d1 \<lparr> m_local_func_exec_seen := S \<rparr>) b = labelled_at d1 b" for d1 S b
    by (simp_all add: labels_grow_def labelled_at_def)
  consider "out' = out" "d' = d" "labelled_at d a"
    | d1 S where "label_normal a d = Inr d1" "out' = out" "d' = d1 \<or> d' = d1 \<lparr> m_local_func_exec_seen := S \<rparr>"
    | v where "d' = d" "out' = out @ [new_Elem v i]"
    using assms by (auto simp: data_set_step_def bind_simps Let_def deref_def labelled_at_def split: if_splits option.splits)
  then show ?thesis
  proof cases
    case (2 d1 S)
    then show ?thesis using n seen by auto
  qed (auto simp: labels_grow_refl new_Elem_def)
qed

lemma data_set_loop_labels:
  assumes "foldE (data_set_step ig fid) (enumerate m l) (out, d) = Inr (out', d')"
  shows "labels_grow d d' \<and> set out \<subseteq> set out' \<and> m_dset_cache d' = m_dset_cache d \<and>
    (\<forall>j < length l. labelled_at d' (l ! j) \<or> m + j \<in> e_index ` set out')"
  using assms
proof (induction l arbitrary: m out d)
  case Nil
  then show ?case by (simp add: labels_grow_refl)
next
  case (Cons a l)
  obtain o1 d1 where 1: "data_set_step ig fid (m, a) (out, d) = Inr (o1, d1)"
    "foldE (data_set_step ig fid) (enumerate (Suc m) l) (o1, d1) = Inr (out', d')"
    using Cons.prems by (auto simp: bind_simps)
  note s = data_set_step_labels [OF 1(1)] and r = Cons.IH [OF 1(2)]
  have "labelled_at d' ((a # l) ! j) \<or> m + j \<in> e_index ` set out'" if "j < length (a # l)" for j
  proof (cases j)
    case 0
    then show ?thesis using s r by (auto simp: labels_grow_def)
  next
    case (Suc k)
    then show ?thesis using r that by auto
  qed
  then show ?case using s r labels_grow_trans by auto
qed

lemma getDataSet_labels:
  assumes "getDataSet i d = Inr (vals, d')" "m_dset_cache d i = None"
    "map_of (m_execDataMap (i_events d)) (m_dset_fid_map d ! i) = Some l"
  shows "labels_grow d d' \<and> (\<forall>j. j \<noteq> i \<longrightarrow> m_dset_cache d' j = m_dset_cache d j) \<and>
    (\<forall>j < length l. labelled_at d' (l ! j) \<or> j \<in> e_index ` set vals)"
proof (cases "l = []")
  case True
  then show ?thesis using assms by (auto simp: getDataSet_def labels_grow_refl split: if_splits)
next
  case False
  then obtain ig d1 where 1: "foldE (data_set_step ig (m_dset_fid_map d ! i)) (enumerate 0 l) ([], d) = Inr (vals, d1)"
    "d' = d1 \<lparr> m_dset_cache := (m_dset_cache d1)(i \<mapsto> vals) \<rparr>"
    using assms by (auto simp: getDataSet_def bind_simps Let_def split: if_splits)
  show ?thesis using data_set_loop_labels [OF 1(1)] 1(2) by (auto simp: labels_grow_def labelled_at_def)
qed

lemma fetch_labels:
  assumes "filed d" "iface_ok d" "m_dset_cache d = Map.empty" "m \<le> nDataSets d" "foldE fetch [0..<m] ([], d) = Inr (dv, d1)"
  shows "length dv = m \<and> same_shape d d1 \<and> iface_ok d1 \<and> labels_grow d d1 \<and> (\<forall>i \<ge> m. m_dset_cache d1 i = None) \<and>
    (\<forall>i < m. \<forall>j < length (set_list d i). labelled_at d1 (set_list d i ! j) \<or> j \<in> e_index ` set (dv ! i))"
  using assms(4,5)
proof (induction m arbitrary: dv d1)
  case 0
  then show ?case using assms(2,3) by (simp add: same_shape_refl labels_grow_refl)
next
  case (Suc m)
  obtain dv0 d0 where 0: "foldE fetch [0..<m] ([], d) = Inr (dv0, d0)" "fetch m (dv0, d0) = Inr (dv, d1)"
    using Suc.prems by (auto simp: foldE_append bind_simps)
  note IH = Suc.IH [OF _ 0(1)] Suc.prems(1)
  have m: "m < nDataSets d0" and cache: "m_dset_cache d0 m = None" using IH same_shape_sel(3) [of d d0] by simp_all
  obtain v where v: "getDataSet m d0 = Inr (v, d1)" "dv = dv0 @ [v]" using 0(2) by (auto simp: fetch_def bind_simps)
  have shape: "same_shape d0 d1" "iface_ok d1" using getDataSet_live [of d0 m] m IH v(1) by auto
  have lists: "set_list d0 m = set_list d m" and "filed d0" using IH set_list_same filed_same [OF assms(1)] by auto
  then have l: "map_of (m_execDataMap (i_events d0)) (m_dset_fid_map d0 ! m) = Some (set_list d m)"
    using m by (simp add: filed_def)
  note g = getDataSet_labels [OF v(1) cache l]
  have "labelled_at d1 (set_list d i ! j) \<or> j \<in> e_index ` set (dv ! i)" if "i < Suc m" "j < length (set_list d i)" for i j
  proof (cases "i = m")
    case True
    then show ?thesis using g that IH v(2) by (auto simp: nth_append)
  next
    case False
    then have "i < m" using that by simp
    then have "labelled_at d0 (set_list d i ! j) \<or> j \<in> e_index ` set (dv ! i)"
      using that IH v(2) by (simp add: nth_append)
    then show ?thesis using g by (auto simp: labels_grow_def)
  qed
  then show ?case using IH g v(2) shape same_shape_trans [of d d0 d1] labels_grow_trans [of d d0 d1] by auto
qed

lemma record_label_grow:
  assumes "record_label l e d = Inr d'"
  shows "labels_grow d d'"
  using assms by (auto simp: record_label_def modify_def deref_def put_def bind_simps labels_grow_def labelled_at_def
      split: if_splits option.splits event_type.splits)

lemma record_labels_grow:
  assumes "recordDataSetLabels vals i d = Inr d'"
  shows "labels_grow d d'"
proof -
  let ?d = "d \<lparr> m_dset_anom := (m_dset_anom d)[i := fold recordEvent vals (m_dset_anom d ! i)] \<rparr>"
  obtain l where "foldE (record_label l) vals ?d = Inr d'"
    using assms by (auto simp: recordDataSetLabels_def recordDataSetLabelsInternal_def bind_simps split: if_splits)
  then have "labels_grow ?d d'"
    by (rule foldE_invariant [where P = "labels_grow ?d"])
      (auto simp: labels_grow_refl dest: record_label_grow elim: labels_grow_trans)
  then show ?thesis by (simp add: labels_grow_def labelled_at_def)
qed

lemma record_labels_all:
  assumes "filed d" "iface_ok d" "i < nDataSets d" "index_ok d i vals" "recordDataSetLabels vals i d = Inr d'"
    and "e \<in> set vals" "e_label e \<noteq> Unassigned"
  shows "labelled_at d' (set_list d i ! e_index e)"
proof -
  let ?l = "set_list d i"
  let ?d = "d \<lparr> m_dset_anom := (m_dset_anom d)[i := fold recordEvent vals (m_dset_anom d ! i)] \<rparr>"
  have l: "map_of (m_execDataMap (i_events d)) (m_dset_fid_map d ! i) = Some ?l" "distinct ?l" "i < length (m_dset_fid_map d)"
    using assms(1,3) by (simp_all add: filed_def)
  have run: "foldE (record_label ?l) vals ?d = Inr d'"
    using assms(3,5) l by (simp add: recordDataSetLabels_def recordDataSetLabelsInternal_def set_entries_def)
  have "indices_ok (length ?l) vals" using assms(4) index_ok_list [OF assms(1,3)] by simp
  then obtain x where "store_map (i_events d') (?l ! e_index e) = Some (labelled e x)"
    using record_labels_set [OF _ l(2) _ run assms(6)] filed_live [OF assms(1,3)] by auto
  then show ?thesis using assms(7) by (cases "e_label e") (auto simp: labelled_at_def labelled_def)
qed

lemma label_phase:
  assumes "known g ad" "filed d" "iface_ok d" "m \<le> nDataSets d" "\<forall>i < m. index_ok d i (dv ! i)"
    and "foldE (label_step (sstd_labelData sigma) dv) [0..<m] (ad, d) = Inr (ad', d')"
  shows "labels_grow d d' \<and> (\<forall>i < m. 2 \<le> length (g (m_dset_fid_map d ! i)) \<longrightarrow>
    (\<forall>e \<in> set (dv ! i). labelled_at d' (set_list d i ! e_index e)))"
  using assms(4-6)
proof (induction m arbitrary: ad' d')
  case 0
  then show ?case by (simp add: labels_grow_refl)
next
  case (Suc m)
  obtain p d1 where 1: "foldE (label_step (sstd_labelData sigma) dv) [0..<m] (ad, d) = Inr (ad \<lparr> m_param := p \<rparr>, d1)"
    "known g (ad \<lparr> m_param := p \<rparr>)" "same_shape d d1" "iface_ok d1"
    using label_live [OF assms(1,3), of m dv sigma] Suc.prems by auto
  note IH = Suc.IH [OF _ _ 1(1)]
  have m: "m < nDataSets d" "m < nDataSets d1" "filed d1" using Suc.prems(1) 1(3) filed_same [OF assms(2) 1(3)]
    by (simp_all add: same_shape_sel)
  let ?k = "m_dset_fid_map d ! m"
  have k: "getDataSetModelIndex m d1 = Inr ?k"
    using m(1,3) 1(3) assms(2) by (simp add: getDataSetModelIndex_def same_shape_sel filed_def)
  obtain vals q where v: "sstd_labelData sigma (dv ! m) ?k p = Inr (vals, q)" "recordDataSetLabels vals m d1 = Inr d'"
  proof -
    have "label_step (sstd_labelData sigma) dv m (ad \<lparr> m_param := p \<rparr>, d1) = Inr (ad', d')"
      using Suc.prems(3) 1(1) by (auto simp: foldE_append bind_simps)
    then show thesis using that k by (auto simp: label_step_def bind_simps)
  qed
  have out: "sstd_out sigma (g ?k) (dv ! m) vals"
    using sstd_label_any [of ?k p "g ?k" sigma "dv ! m"] v(1) 1(2) by (auto simp: known_def)
  have ok: "index_ok d1 m vals" using index_ok_out [OF out] Suc.prems(2) index_ok_same [OF 1(3)] by simp
  note grow = record_labels_grow [OF v(2)]
  have "labelled_at d' (set_list d i ! e_index e)"
    if known: "i < Suc m" "2 \<le> length (g (m_dset_fid_map d ! i))" and e: "e \<in> set (dv ! i)" for i e
  proof (cases "i = m")
    case True
    then have all: "list_all2 (sstd_labelled sigma (g ?k)) (dv ! m) vals" using out known(2) by (simp add: sstd_out_def)
    obtain n where n: "n < length (dv ! m)" "e = dv ! m ! n" using e True by (auto simp: in_set_conv_nth)
    then have "sstd_labelled sigma (g ?k) e (vals ! n)" "vals ! n \<in> set vals"
      using list_all2_nthD [OF all n(1)] list_all2_lengthD [OF all] by simp_all
    then have "labelled_at d' (set_list d1 m ! e_index (vals ! n))" "e_index (vals ! n) = e_index e"
      using record_labels_all [OF m(3) 1(4) m(2) ok v(2), of "vals ! n"] by (auto simp: sstd_labelled_def)
    then show ?thesis using True set_list_same [OF 1(3)] by simp
  next
    case False
    then show ?thesis using IH Suc.prems(1,2) known e grow by (auto simp: labels_grow_def)
  qed
  then show ?case using IH Suc.prems(1,2) labels_grow_trans [OF _ grow] by auto
qed

lemma values_of_mem: "(k, v) \<in> set ds \<Longrightarrow> v \<noteq> [] \<Longrightarrow> values_of k ds \<noteq> []"
  by (induction k ds rule: values_of.induct) auto

text \<open>
  After a step of SSTD without a server an execution without a label has a function of which one value
  is known, a value of this step.
\<close>

lemma sstd_run_labels:
  assumes "sstd_offline ad" "known f ad" "fresh_iface d" "sstd_run srv sigma d (ad, s) = Inr (ad', s', d')"
  obtains g where "sstd_offline ad'" "known (\<lambda>k. f k @ g k) ad'" "same_shape d d'" "filed d'"
    "\<And>i a. i < nDataSets d \<Longrightarrow> a \<in> set (set_list d i) \<Longrightarrow> \<not> labelled_at d' a \<Longrightarrow>
       g (m_dset_fid_map d ! i) \<noteq> [] \<and> length (f (m_dset_fid_map d ! i) @ g (m_dset_fid_map d ! i)) < 2"
proof -
  note fd = filed_fresh [OF assms(3)]
  have cache: "m_dset_cache d = Map.empty" using assms(3) by (simp add: fresh_iface_def)
  obtain dv p d1 where r: "foldE (gather_step sstd_gather) [0..<nDataSets d] ([], [], d) = Inr (dv, p, d1)"
    "foldE fetch [0..<nDataSets d] ([], d) = Inr (dv, d1)" "same_shape d d1" "iface_ok d1" "length dv = nDataSets d"
    "\<forall>i < nDataSets d. index_ok d i (dv ! i)" "distinct (map fst p)"
    "\<forall>k. moments (sstd_at k p) (values_of k (gathered d dv))"
    using gather_live [OF fd(2) order_refl] by blast
  obtain ad1 where ad1: "ad_updateGlobalModel sstd_ops srv
      (ad \<lparr> m_local_param := sstd_update p (m_local_param ad) \<rparr>, s) = Inr (ad1, s)" "sstd_offline ad1"
    "known (\<lambda>k. f k @ values_of k (gathered d dv)) ad1"
    using offline_sync [OF assms(1,2) r(7,8), of srv s] by blast
  have n: "nDataSets d \<le> nDataSets d1" "nDataSets d1 = nDataSets d" and ok: "\<forall>i < nDataSets d. index_ok d1 i (dv ! i)"
    using r(3,6) index_ok_same [OF r(3)] by (simp_all add: same_shape_def)
  obtain q d2 outs where l: "foldE (label_step (sstd_labelData sigma) dv) [0..<nDataSets d] (ad1, d1)
      = Inr (ad1 \<lparr> m_param := q \<rparr>, d2)" "known (\<lambda>k. f k @ values_of k (gathered d dv)) (ad1 \<lparr> m_param := q \<rparr>)"
    "same_shape d1 d2" using label_live [OF ad1(3) r(4) n(1) ok, of sigma] by blast
  have "sstd_run srv sigma d (ad, s) = Inr (ad1 \<lparr> m_param := q \<rparr>, s, d2)"
    using r(1) ad1(1) l(1) by (simp add: sstd_run_def run_algorithm_def) (simp add: sstd_ops_def)
  then have res: "ad' = ad1 \<lparr> m_param := q \<rparr>" "d' = d2" using assms(4) by simp_all
  have f1: "filed d1" by (rule filed_same [OF fd(1) r(3)])
  note ph = label_phase [OF ad1(3) f1 r(4) n(1) ok l(1)]
  note ft = fetch_labels [OF fd(1,2) cache order_refl r(2)]
  show thesis
  proof (rule that [of "\<lambda>k. values_of k (gathered d dv)"])
    show "sstd_offline ad'" using ad1(2) res by (simp add: sstd_offline_def)
    show "known (\<lambda>k. f k @ values_of k (gathered d dv)) ad'" using l(2) res by simp
    show "same_shape d d'" "filed d'" using same_shape_trans [OF r(3) l(3)] filed_same [OF fd(1)] res by simp_all
    fix i a assume a: "i < nDataSets d" "a \<in> set (set_list d i)" "\<not> labelled_at d' a"
    let ?k = "m_dset_fid_map d ! i"
    obtain j where j: "j < length (set_list d i)" "a = set_list d i ! j" using a(2) by (auto simp: in_set_conv_nth)
    have "\<not> labelled_at d1 a" using ph a(3) res by (auto simp: labels_grow_def)
    then have "j \<in> e_index ` set (dv ! i)" using ft a(1) j by blast
    then obtain e where e: "e \<in> set (dv ! i)" "e_index e = j" by auto
    have "length (f ?k @ values_of ?k (gathered d dv)) < 2"
    proof (rule ccontr)
      assume "\<not> length (f ?k @ values_of ?k (gathered d dv)) < 2"
      then have "labelled_at d2 (set_list d1 i ! e_index e)" using ph a(1) e(1) same_shape_sel(1) [OF r(3)] by auto
      then show False using a(3) j e(2) res set_list_same [OF r(3)] by simp
    qed
    moreover have "(?k, map e_value (dv ! i)) \<in> set (gathered d dv)"
    proof -
      have "i < length (m_dset_fid_map d)" using a(1) fd(1) by (simp add: filed_def)
      then show ?thesis using a(1) r(5) unfolding gathered_def set_zip by (auto intro!: exI [of _ i])
    qed
    then have "values_of ?k (gathered d dv) \<noteq> []" using values_of_mem e(1) by fastforce
    ultimately show "values_of ?k (gathered d dv) \<noteq> [] \<and> length (f ?k @ values_of ?k (gathered d dv)) < 2" by simp
  qed
qed

end
