(* ===== verification/WiringProps.thy ===== *)
theory WiringProps
  imports Wiring RunEnd
begin

text \<open>
  The analysis process as a whole: it ends after its stream has ended, and the statistics it buffers
  for the server can always be sent.
\<close>

section \<open>The run ends\<close>

definition stream_ended :: "(sstd_param, 'srv, 'j) chimbuko \<Rightarrow> bool" where
  "stream_ended c \<longleftrightarrow> \<not> p_status (ch_parser c) \<and> exec_map_ok (ch_event c) \<and> sstd_offline (ch_outlier c)
     \<and> (\<exists>f. known f (ch_outlier c))"

text \<open>
  The analyses the remaining executions need: one if every function with executions left has a known
  value, two otherwise.
\<close>

definition analyses_left :: "(sstd_param, 'srv, 'j) chimbuko \<Rightarrow> nat" where
  "analyses_left c =
     (if \<not> have_data (ch_event c) then 0
      else if \<forall>(fid, l) \<in> set (m_execDataMap (ch_event c)). l \<noteq> [] \<longrightarrow> 1 \<le> m_count (sstd_at fid (m_param (ch_outlier c)))
      then 1 else 2)"

definition iface_of :: "exec_interface \<Rightarrow> (sstd_param, 'srv, 'j) chimbuko \<Rightarrow> bool" where
  "iface_of d c \<longleftrightarrow> fresh_iface d \<and> i_events d = ch_event c"

lemma readStep_ended:
  assumes "stream_ended c" "readStep pa i a step c = Inr (True, iface, c1)"
  shows "stream_ended c1 \<and> analyses_left c1 = analyses_left c \<and> 0 < analyses_left c \<and> (\<forall>d. iface = Some d \<longrightarrow> iface_of d c1)"
proof -
  have "parseInputStep pa i step c = Inr (False, c)" using assms(1) by (simp add: parseInputStep_def stream_ended_def)
  then have c1: "c1 = c" "have_data (ch_event c)" and d: "iface = Some d \<Longrightarrow> setupInterface pa c = Inr d" for d
    using assms(2) by (auto simp: readStep_def bind_simps split: if_splits)
  have "iface_of d c" if i: "iface = Some d" for d
  proof -
    obtain stat where or: "d = new_ADExecDataInterface (ch_event c) stat \<or>
        d = setIgnoreFirstFunctionCall (ch_func_seen c) (new_ADExecDataInterface (ch_event c) stat)"
      using d [OF i] by (auto simp: setupInterface_def bind_simps Let_def split: if_splits)
    have "exec_map_ok (ch_event c)" using assms(1) by (simp add: stream_ended_def)
    with or have "fresh_iface d" using fresh_new fresh_options(2) by blast
    moreover have "i_events (new_ADExecDataInterface s stat) = s" "i_events (setIgnoreFirstFunctionCall S d) = i_events d" for s stat S d
      by (simp_all add: new_ADExecDataInterface_def setIgnoreFirstFunctionCall_def)
    ultimately show ?thesis using or by (auto simp: iface_of_def)
  qed
  then show ?thesis using assms(1) c1 by (simp add: analyses_left_def)
qed

lemma filed_exec_map:
  assumes "filed d" "m_dset_fid_map d = map fst (m_execDataMap (i_events d))"
  shows "exec_map_ok (i_events d)"
    and "(fid, l) \<in> set (m_execDataMap (i_events d)) \<Longrightarrow> \<exists>i < nDataSets d. fid = m_dset_fid_map d ! i \<and> l = set_list d i"
proof -
  have dist: "distinct (map fst (m_execDataMap (i_events d)))" using assms by (simp add: filed_def)
  show ex: "\<exists>i < nDataSets d. fid = m_dset_fid_map d ! i \<and> l = set_list d i"
    if mem: "(fid, l) \<in> set (m_execDataMap (i_events d))" for fid l
  proof -
    have "fid \<in> set (m_dset_fid_map d)" using mem assms(2) by force
    then obtain i where i: "i < nDataSets d" "fid = m_dset_fid_map d ! i"
      using assms(1) by (auto simp: in_set_conv_nth filed_def)
    moreover have "map_of (m_execDataMap (i_events d)) fid = Some l" using mem dist by simp
    ultimately show ?thesis using assms(1) by (auto simp: filed_def)
  qed
  have "distinct l \<and> (\<forall>a \<in> set l. \<exists>x. store_map (i_events d) a = Some x \<and> m_fid x = fid)"
    if "(fid, l) \<in> set (m_execDataMap (i_events d))" for fid l
    using ex [OF that] assms(1) by (auto simp: filed_def)
  then show "exec_map_ok (i_events d)" using dist by (auto simp: exec_map_ok_def)
qed

lemma moments_count: "moments r xs \<Longrightarrow> m_count r = real (length xs)"
  by (simp add: moments_def)

lemma analysis_ended:
  assumes "stream_ended c" "iface_of d c" "pa_run pa = sstd_run srv sigma" "detect pa d step c = Inr (d1, c1)"
    and "c2 = c1 \<or> (\<exists>buf buf'. bufferStoreProvenanceDataImplementation pa d1 step (buf, c1) = Inr (buf', c2))"
    and "bufferStorePSdata pa d1 step c2 = Inr c3" "performEndStepAction pa c3 = Inr c4"
  shows "stream_ended c4 \<and> (0 < analyses_left c \<longrightarrow> analyses_left c4 < analyses_left c)"
proof -
  obtain f where f: "known f (ch_outlier c)" using assms(1) by (auto simp: stream_ended_def)
  obtain ad s' where r: "sstd_run srv sigma d (ch_outlier c, ch_server c) = Inr (ad, s', d1)"
      "ch_outlier c1 = ad" "ch_event c1 = i_events d1" "ch_parser c1 = ch_parser c"
    using assms(3,4) by (auto simp: detect_def bind_simps)
  have d: "fresh_iface d" "i_events d = ch_event c" using assms(2) by (simp_all add: iface_of_def)
  obtain g where g: "sstd_offline ad" "known (\<lambda>k. f k @ g k) ad" "same_shape d d1" "filed d1"
    "\<And>i a. i < nDataSets d \<Longrightarrow> a \<in> set (set_list d i) \<Longrightarrow> \<not> labelled_at d1 a \<Longrightarrow>
       g (m_dset_fid_map d ! i) \<noteq> [] \<and> length (f (m_dset_fid_map d ! i) @ g (m_dset_fid_map d ! i)) < 2"
    using sstd_run_labels [OF _ f d(1) r(1)] assms(1) by (auto simp: stream_ended_def)
  have 2: "ch_event c2 = i_events d1" "ch_outlier c2 = ad" "ch_parser c2 = ch_parser c"
    using assms(5) r by (auto simp: bufferStoreProvenanceDataImplementation_def bind_simps Let_def)
  have 3: "ch_event c3 = i_events d1" "ch_outlier c3 = ad" "ch_parser c3 = ch_parser c"
    using assms(6) 2 by (auto simp: bufferStorePSdata_def bind_simps split: if_splits)
  obtain rep where p: "purgeCallList (pa_anom_win_size pa) (i_events d1) = Inr (rep, ch_event c4)"
      and 4: "ch_outlier c4 = ad" "ch_parser c4 = ch_parser c"
    using assms(7) 3 by (auto simp: performEndStepAction_def bind_simps flushCounters_def)
  have shape: "m_dset_fid_map d1 = map fst (m_execDataMap (i_events d1))"
    using d(1) g(3) by (simp add: fresh_iface_def same_shape_sel)
  note ex = filed_exec_map [OF g(4) shape]
  note pu = purge_exec_map [OF ex(1) p]
  have left: "g fid \<noteq> [] \<and> f fid = [] \<and> m_count (sstd_at fid (m_param ad)) \<ge> 1 \<and> m_count (sstd_at fid (m_param (ch_outlier c))) = 0
      \<and> (\<exists>l0. (fid, l0) \<in> set (m_execDataMap (ch_event c)) \<and> l0 \<noteq> [])"
    if l: "(fid, l) \<in> set (m_execDataMap (ch_event c4))" "l \<noteq> []" for fid l
  proof -
    obtain l0 a where l0: "(fid, l0) \<in> set (m_execDataMap (i_events d1))" "a \<in> set l0" "unlabelled (i_events d1) a"
      using l unfolding pu(2) by (auto simp: filter_empty_conv)
    obtain i where i: "i < nDataSets d1" "fid = m_dset_fid_map d1 ! i" "l0 = set_list d1 i" using ex(2) [OF l0(1)] by blast
    have "\<not> labelled_at d1 a" using l0(3) by (auto simp: unlabelled_def labelled_at_def)
    then have "g fid \<noteq> [] \<and> length (f fid @ g fid) < 2"
      using g(5) [of i a] i l0(2) by (simp add: same_shape_sel [OF g(3)] set_list_same [OF g(3)])
    then have fg: "g fid \<noteq> []" "f fid = []" by (cases "g fid"; auto)+
    have "m_count (sstd_at fid (m_param ad)) = real (length (f fid @ g fid))"
      using g(2) by (intro moments_count) (simp add: known_def)
    then have "m_count (sstd_at fid (m_param ad)) \<ge> 1" using fg by (cases "g fid") auto
    moreover have "m_count (sstd_at fid (m_param (ch_outlier c))) = real (length (f fid))"
      using f by (intro moments_count) (simp add: known_def)
    moreover have "(fid, l0) \<in> set (m_execDataMap (ch_event c))" using l0(1) d(2) by (simp add: same_shape_sel [OF g(3)])
    ultimately show ?thesis using fg l0(2) by fastforce
  qed
  have inv: "stream_ended c4"
    using assms(1) pu(1) 4 g(1,2) by (auto simp: stream_ended_def)
  have "analyses_left c4 < analyses_left c" if pos: "0 < analyses_left c"
  proof (cases "have_data (ch_event c4)")
    case False
    then show ?thesis using pos by (simp add: analyses_left_def)
  next
    case True
    then obtain fid l where l: "(fid, l) \<in> set (m_execDataMap (ch_event c4))" "l \<noteq> []"
      by (auto simp: have_data_def list_ex_iff)
    have "\<not> (\<forall>(fid, l) \<in> set (m_execDataMap (ch_event c)). l \<noteq> [] \<longrightarrow> 1 \<le> m_count (sstd_at fid (m_param (ch_outlier c))))"
      using left [OF l] by fastforce
    moreover have "have_data (ch_event c)" using left [OF l] by (auto simp: have_data_def list_ex_iff)
    ultimately have "analyses_left c = 2" by (auto simp: analyses_left_def)
    moreover have "\<forall>(fid, l) \<in> set (m_execDataMap (ch_event c4)). l \<noteq> [] \<longrightarrow> 1 \<le> m_count (sstd_at fid (m_param (ch_outlier c4)))"
      using left 4(1) by auto
    then have "analyses_left c4 \<le> 1" by (auto simp: analyses_left_def)
    ultimately show ?thesis by simp
  qed
  then show ?thesis using inv by simp
qed

lemma sendPSdata_ended:
  assumes "stream_ended c" "sendPSdataImplementation pa step c = Inr (ms, c1)"
  shows "stream_ended c1 \<and> analyses_left c1 = analyses_left c"
  using assms by (auto simp: sendPSdataImplementation_def bind_simps stream_ended_def analyses_left_def split: if_splits)

interpretation sstd_end: ended_module "pa_ops (pa \<lparr> pa_run := sstd_run srv sigma \<rparr>)" stream_ended analyses_left iface_of
proof unfold_locales
  fix c i a step iface c1
  assume "stream_ended c" "mo_readStep (pa_ops (pa \<lparr> pa_run := sstd_run srv sigma \<rparr>)) i a step c = Inr (True, iface, c1)"
  then show "stream_ended c1 \<and> analyses_left c1 = analyses_left c \<and> 0 < analyses_left c \<and> (\<forall>d. iface = Some d \<longrightarrow> iface_of d c1)"
    by (intro readStep_ended) (simp_all add: pa_ops_def)
next
  fix c d step d1 c1 c2 c3 c4
  let ?pa = "pa \<lparr> pa_run := sstd_run srv sigma \<rparr>"
  assume "stream_ended c" "iface_of d c" "mo_detect (pa_ops ?pa) d step c = Inr (d1, c1)"
    "c2 = c1 \<or> (\<exists>buf buf'. mo_bufferProvenance (pa_ops ?pa) d1 step (buf, c1) = Inr (buf', c2))"
    "mo_bufferPSdata (pa_ops ?pa) d1 step c2 = Inr c3" "mo_endStep (pa_ops ?pa) c3 = Inr c4"
  then show "stream_ended c4 \<and> (0 < analyses_left c \<longrightarrow> analyses_left c4 < analyses_left c)"
    by (intro analysis_ended [where pa = ?pa]) (simp_all add: pa_ops_def)
next
  fix c step ms c1
  assume "stream_ended c" "mo_sendPSdata (pa_ops (pa \<lparr> pa_run := sstd_run srv sigma \<rparr>)) step c = Inr (ms, c1)"
  then show "stream_ended c1 \<and> analyses_left c1 = analyses_left c"
    by (intro sendPSdata_ended) (simp_all add: pa_ops_def)
qed
text \<open>
  C15. Once the trace stream has ended, the run does not go on for ever. With SSTD and no server,
  synchronising every step, a process that still holds executions needs at most two more analyses to
  label them all, since a function of which two values are known leaves nothing unlabelled and its
  executions are given to the model in every analysis; and every \<open>analysis_step_freq\<close>-th frame has an
  analysis. So within three times that many frames \<open>run\<close> has returned or stopped with an error.
\<close>

theorem run_ends_after_stream:
  assumes "0 < bp_analysis_step_freq bp" "pa_run pa = sstd_run srv sigma" "stream_ended (cb_module b)"
    and "3 * bp_analysis_step_freq bp \<le> int (length steps)"
  shows "(\<exists>frames b'. run bp (pa_ops pa) steps b = Inr (Some (frames, b'))) \<or> (\<exists>e. run bp (pa_ops pa) steps b = Inl e)"
proof -
  let ?c = "resetRunStatistics (cb_module b)"
  have pa: "pa \<lparr> pa_run := sstd_run srv sigma \<rparr> = pa" using assms(2) by simp
  have "stream_ended ?c" using assms(3) by (simp add: stream_ended_def resetRunStatistics_def)
  moreover have "frames_left bp (cb_step b) (analyses_left ?c) < int (length steps)"
  proof -
    have "analyses_left ?c \<le> 2" by (simp add: analyses_left_def)
    then show ?thesis using frames_left_less [OF assms(1), of "analyses_left ?c" 2 "cb_step b"] assms(4) by simp
  qed
  moreover have "mo_resetRunStatistics (pa_ops pa) = resetRunStatistics" by (simp add: pa_ops_def)
  ultimately have "run bp (pa_ops pa) steps b \<noteq> Inr None"
    using assms(1) by (intro sstd_end.run_ends [where pa = pa and srv = srv and sigma = sigma, unfolded pa]) simp_all
  then show ?thesis by (cases "run bp (pa_ops pa) steps b") auto
qed

text \<open>Two executions of one function are left when the stream ends.\<close>

definition left_over :: "(sstd_param, unit, unit) chimbuko" where
  "left_over = (case initialize (new_ADParser 0 0 False) (new_trace_attributes ''BPFile'' 0) (new_ADOutlier 0 []) () None None []
     of Inr c \<Rightarrow> c \<lparr> ch_event := two_calls \<rparr> | Inl e \<Rightarrow> undefined)"

definition plain_sstd :: "(sstd_param, unit, unit) pa_params" where
  "plain_sstd = \<lparr> pa_rank = 0, pa_program_idx = 0, pa_use_ps = False, pa_algorithm_name = ''sstd'',
     pa_run = sstd_run (\<lambda>p s. Inr (p, s)) 6, pa_algo_params = (\<lambda>_ _. Inr ()), pa_cuda_workaround = True,
     pa_anom_win_size = 10, pa_outlier_statistic = ''exclusive_runtime'', pa_prov_min_anom_time = 0,
     pa_parser_beginstep_timeout = 30 \<rparr>"

definition no_data :: trace_step where
  "no_data = \<lparr> tr_statuses = [(EndOfStream, 0)], tr_attributes = [], tr_ask = (\<lambda>_ _. []), tr_func = None, tr_comm = None,
     tr_counter = None \<rparr>"

lemma left_over_sel: "p_status (ch_parser left_over) = False" "ch_event left_over = two_calls"
  "ch_outlier left_over = new_ADOutlier 0 []"
  by (simp_all add: left_over_def initialize_def init_event_def init_monitoring_def link_maps_def new_ADParser_def Let_def)

theorem run_ends_after_stream_witness:
  "have_data (ch_event (cb_module (new_ChimbukoBase left_over :: ((sstd_param, unit, unit) chimbuko, unit prov_json, int \<times> steps_data) chimbuko_base)))
   \<and> run new_ChimbukoBaseParams (pa_ops plain_sstd) [no_data, no_data, no_data] (new_ChimbukoBase left_over) \<noteq> Inr None"
proof -
  have e: "exec_map_ok two_calls" by (simp add: exec_map_ok_def two_calls_def new_ExecData_def)
  have "stream_ended left_over"
    using e known_new [of 0] by (auto simp: stream_ended_def left_over_sel sstd_offline_new)
  then show ?thesis
    using run_ends_after_stream [of new_ChimbukoBaseParams plain_sstd "\<lambda>p s. Inr (p, s)" 6 "new_ChimbukoBase left_over" "[no_data, no_data, no_data]"]
    by (auto simp: new_ChimbukoBase_def new_ChimbukoBaseParams_def plain_sstd_def left_over_sel have_data_def two_calls_def)
qed

section \<open>The statistics for the server\<close>

text \<open>
  One entry of each kind per analysed step, with the same step.
\<close>

definition ps_buffers_ok :: "('p, 'srv, 'j) chimbuko \<Rightarrow> bool" where
  "ps_buffers_ok c \<longleftrightarrow> length (ch_countstats_buf c) = length (ch_funcstats_buf c) \<and>
     length (ch_anom_metrics_buf c) = length (ch_funcstats_buf c) \<and>
     (\<forall>d \<in> set (zip (ch_funcstats_buf c) (zip (ch_countstats_buf c) (ch_anom_metrics_buf c))). \<exists>step. check_steps d = Inr step)"

definition same_buffers :: "('p, 'srv, 'j) chimbuko \<Rightarrow> ('p, 'srv, 'j) chimbuko \<Rightarrow> bool" where
  "same_buffers c c' \<longleftrightarrow> ch_funcstats_buf c' = ch_funcstats_buf c \<and> ch_countstats_buf c' = ch_countstats_buf c
     \<and> ch_anom_metrics_buf c' = ch_anom_metrics_buf c"

lemma same_buffers_ok: "same_buffers c c' \<Longrightarrow> ps_buffers_ok c' = ps_buffers_ok c"
  by (simp add: same_buffers_def ps_buffers_ok_def)

lemma same_buffers_refl: "same_buffers c c"
  by (simp add: same_buffers_def)

lemma step_i32: "- (2 ^ 31) \<le> step \<Longrightarrow> step < 2 ^ 31 \<Longrightarrow> to_i32 (ucast (word_of_int step :: 32 word)) = step"
proof -
  assume "- (2 ^ 31) \<le> step" "step < 2 ^ 31"
  moreover have "ucast (ucast w :: u64) = (w :: 32 word)" for w by (simp add: unsigned_ucast_eq take_bit_word_beyond_length_eq)
  ultimately show ?thesis by (simp add: to_i32_def signed_take_bit_int_eq_self sint_sbintrunc')
qed

lemma gatherStatistics_step: "gatherStatistics s lf = Inr lf' \<Longrightarrow> ad_step (lf_anom_data lf') = ad_step (lf_anom_data lf)"
  by (auto simp: gatherStatistics_def bind_simps)

lemma add_scores_step: "ad_step (fold (\<lambda>e. add_outlier_score (e_score e)) es a) = ad_step a"
  by (induction es arbitrary: a) (simp_all add: add_outlier_score_def)

lemma gatherAnomalies_step:
  assumes "gatherAnomalies d lf = Inr lf'"
  shows "ad_step (lf_anom_data lf') = ad_step (lf_anom_data lf)"
proof -
  obtain lf1 n where 1: "foldE (gather_anom d) [0..<nDataSets d] (lf, 0) = Inr (lf1, n)"
    "lf' = lf1 \<lparr> lf_anom_data := incr_n_anomalies (of_nat n) (lf_anom_data lf1) \<rparr>"
    using assms by (auto simp: gatherAnomalies_def bind_simps)
  have "ad_step (lf_anom_data (fst (lf1, n))) = ad_step (lf_anom_data lf)"
    by (rule foldE_invariant [where P = "\<lambda>st. ad_step (lf_anom_data (fst st)) = ad_step (lf_anom_data lf)", OF 1(1)])
      (auto simp: gather_anom_def bind_simps Let_def add_scores_step split: if_splits option.splits)
  then show ?thesis using 1(2) by (simp add: incr_n_anomalies_def)
qed

lemma counter_gather_step: "lc_step (counter_gatherStatistics counters lc) = lc_step lc"
  unfolding counter_gatherStatistics_def
  by (induction counters arbitrary: lc) (simp_all add: gather_counter_def Let_def split: list.split)

lemma bufferStorePSdata_ok:
  assumes "ps_buffers_ok c" "- (2 ^ 31) \<le> step" "step < 2 ^ 31" "bufferStorePSdata pa d step c = Inr c'"
  shows "ps_buffers_ok c'"
proof (cases "pa_use_ps pa")
  case False
  then show ?thesis using assms by (simp add: bufferStorePSdata_def)
next
  case True
  then obtain f0 f counters m where r:
    "gatherStatistics (ch_event c) (new_ADLocalFuncStatistics (word_of_int (pa_program_idx pa)) (word_of_int (pa_rank pa)) step) = Inr f0"
    "gatherAnomalies d f0 = Inr f"
    "new_ADLocalAnomalyMetrics (pa_program_idx pa) (pa_rank pa) step (ch_first_event_ts c) (ch_last_event_ts c) d = Inr m"
    "c' = c \<lparr> ch_funcstats_buf := ch_funcstats_buf c @ [f],
       ch_countstats_buf := ch_countstats_buf c @
         [counter_gatherStatistics counters (new_ADLocalCounterStatistics (word_of_int (pa_program_idx pa)) step None)],
       ch_anom_metrics_buf := ch_anom_metrics_buf c @ [m] \<rparr>"
    using assms(4) by (auto simp: bufferStorePSdata_def bind_simps)
  have "to_i32 (ad_step (lf_anom_data f)) = step"
    using step_i32 [OF assms(2,3)] gatherStatistics_step [OF r(1)] gatherAnomalies_step [OF r(2)]
    by (simp add: new_ADLocalFuncStatistics_def new_AnomalyData_values_def anomaly_data_set_def)
  moreover have "lm_step m = step" using r(3) by (auto simp: new_ADLocalAnomalyMetrics_def bind_simps)
  ultimately have "check_steps (f, counter_gatherStatistics counters (new_ADLocalCounterStatistics (word_of_int (pa_program_idx pa)) step None), m) = Inr step"
    by (simp add: check_steps_def counter_gather_step new_ADLocalCounterStatistics_def)
  then show ?thesis using assms(1) r(4) by (auto simp: ps_buffers_ok_def)
qed
lemma fetch_step_buffers: "fetch_step i c = Inr c' \<Longrightarrow> same_buffers c c'"
  by (auto simp: fetch_step_def bind_simps Let_def link_maps_def same_buffers_def)

lemma parseInputStep_buffers: "parseInputStep pa i step c = Inr (ok, c') \<Longrightarrow> same_buffers c c'"
  by (auto simp: parseInputStep_def bind_simps Let_def same_buffers_def split: if_splits option.splits
      dest!: fetch_step_buffers [unfolded same_buffers_def])

lemma take_step_buffers: "take_step pa step c = Inr c' \<Longrightarrow> same_buffers c c'"
  by (auto simp: take_step_def extractCounters_def extractNodeState_def count_events_def bind_simps Let_def same_buffers_def)

lemma readStep_buffers:
  assumes "readStep pa i a step c = Inr (ok, iface, c')"
  shows "same_buffers c c'"
proof -
  obtain parsed c1 where 1: "parseInputStep pa i step c = Inr (parsed, c1)"
    "(if parsed then take_step pa step c1 else Inr c1) = Inr c'"
    using assms by (auto simp: readStep_def bind_simps split: if_splits)
  have "same_buffers c1 c'" using 1(2) take_step_buffers by (auto simp: same_buffers_def split: if_splits)
  then show ?thesis using parseInputStep_buffers [OF 1(1)] by (simp add: same_buffers_def)
qed

lemma analysis_buffers:
  "detect pa d step c = Inr (d', c') \<Longrightarrow> same_buffers c c'"
  "bufferStoreProvenanceDataImplementation pa d step (buf, c) = Inr (buf', c') \<Longrightarrow> same_buffers c c'"
  "performEndStepAction pa c = Inr c' \<Longrightarrow> same_buffers c c'"
  by (auto simp: detect_def bufferStoreProvenanceDataImplementation_def performEndStepAction_def bind_simps Let_def
      same_buffers_def flushCounters_def)

lemma check_all:
  assumes "\<forall>d \<in> set ds. \<exists>step. check_steps d = Inr step"
  shows "\<exists>latest. foldE (\<lambda>d latest_step. bind (check_steps d) (\<lambda>step. Inr (max step latest_step))) ds l = Inr latest"
  using assms by (induction ds arbitrary: l) fastforce+

lemma sendPSdata_ok:
  assumes "ps_buffers_ok c"
  shows "\<exists>ms c'. sendPSdataImplementation pa step c = Inr (ms, c') \<and> ch_funcstats_buf c' = [] \<and> ps_buffers_ok c' \<and>
    map snd ms = (if pa_use_ps pa \<and> ch_funcstats_buf c \<noteq> [] then [(ch_funcstats_buf c, ch_countstats_buf c, ch_anom_metrics_buf c)] else [])"
proof -
  have len: "length (ch_countstats_buf c) = length (ch_funcstats_buf c)" "length (ch_anom_metrics_buf c) = length (ch_funcstats_buf c)"
    and ok: "\<forall>d \<in> set (zip (ch_funcstats_buf c) (zip (ch_countstats_buf c) (ch_anom_metrics_buf c))). \<exists>step. check_steps d = Inr step"
    using assms by (simp_all add: ps_buffers_ok_def)
  obtain latest where "foldE (\<lambda>d latest_step. bind (check_steps d) (\<lambda>step. Inr (max step latest_step)))
      (zip (ch_funcstats_buf c) (zip (ch_countstats_buf c) (ch_anom_metrics_buf c))) (- 1) = Inr latest"
    using check_all [OF ok] by blast
  then show ?thesis
    using assms len by (auto simp: sendPSdataImplementation_def combined_array_send_def ps_buffers_ok_def)
qed

lemma runFrame_buffers:
  assumes "ps_buffers_ok (cb_module b)" "- (2 ^ 31) \<le> cb_step b" "cb_step b < 2 ^ 31"
    and "runFrame bp (pa_ops pa) i b = Inr (ok, b')"
  shows "ps_buffers_ok (cb_module b')"
proof -
  obtain ok' iface s where r: "readStep pa i (doAnalysisOnStep bp) (cb_step b) (cb_module b) = Inr (ok', iface, s)"
    using assms(4) by (auto simp: runFrame_def bind_simps pa_ops_def)
  then have rs: "mo_readStep (pa_ops pa) i (doAnalysisOnStep bp) (cb_step b) (cb_module b) = Inr (ok', iface, s)"
    by (simp add: pa_ops_def)
  have s: "ps_buffers_ok s" using same_buffers_ok [OF readStep_buffers [OF r]] assms(1) by simp
  show ?thesis
  proof (cases ok')
    case False
    then show ?thesis using assms(4) rs s by (auto simp: runFrame_def)
  next
    case True
    then obtain a b1 b2 b3 where b: "(if a then analyse bp (pa_ops pa) iface (b \<lparr> cb_module := s \<rparr>) else Inr (b \<lparr> cb_module := s \<rparr>)) = Inr b1"
      "sendProvenance bp False b1 = Inr b2" "sendPSdata bp (pa_ops pa) False b2 = Inr b3" "b' = b3 \<lparr> cb_step := cb_step b3 + 1 \<rparr>"
      using assms(4) rs by (simp add: runFrame_def bind_simps Let_def) blast
    have b1: "ps_buffers_ok (cb_module b1)"
    proof (cases a)
      case False
      then show ?thesis using b(1) s by auto
    next
      case True
      let ?b = "b \<lparr> cb_module := s \<rparr>"
      obtain d d1 s1 q s3 s4 where d: "detect pa d (cb_step b) s = Inr (d1, s1)"
        "bufferStoreProvenanceData bp (pa_ops pa) d1
           (?b \<lparr> cb_n_outliers := cb_n_outliers b + of_nat (nEventsRecorded Outlier d1), cb_module := s1 \<rparr>) = Inr q"
        "bufferStorePSdata pa d1 (cb_step q) (cb_module q) = Inr s3" "performEndStepAction pa s3 = Inr s4" "b1 = q \<lparr> cb_module := s4 \<rparr>"
        using b(1) True by (auto simp: analyse_def bind_simps pa_ops_def split: option.splits)
      have q: "same_buffers s1 (cb_module q) \<and> cb_step q = cb_step b"
        using d(2) by (auto simp: bufferStoreProvenanceData_def bind_simps pa_ops_def same_buffers_refl split: if_splits
            dest!: analysis_buffers(2))
      then have "ps_buffers_ok (cb_module q)"
        using s same_buffers_ok [OF analysis_buffers(1) [OF d(1)]] same_buffers_ok by auto
      then have "ps_buffers_ok s3" using bufferStorePSdata_ok [OF _ _ _ d(3)] q assms(2,3) by simp
      then show ?thesis using d(5) same_buffers_ok [OF analysis_buffers(3) [OF d(4)]] by simp
    qed
    have "cb_module b2 = cb_module b1" using b(2) by (auto simp: sendProvenance_def bind_simps split: if_splits)
    moreover have "ps_buffers_ok (cb_module b3)" if "ps_buffers_ok (cb_module b2)"
      using b(3) sendPSdata_ok [OF that, of pa "cb_step b2"] that
      by (auto simp: sendPSdata_def bind_simps pa_ops_def split: if_splits)
    ultimately show ?thesis using b1 b(4) by simp
  qed
qed

lemma initialize_buffers: "initialize p ta ad srv corrid_funcs watchlist pfx = Inr c \<Longrightarrow> ps_buffers_ok c"
  by (auto simp: initialize_def bind_simps link_maps_def Let_def ps_buffers_ok_def)

text \<open>
  C22. What the process buffers for the server stays consistent: three lists of the same length, whose
  entries agree on their step. Every frame whose step fits an \<open>int\<close> keeps it so, and after the frame the
  message can be built without an error, it holds all that was buffered, and the buffers are then empty.
  A new process starts this way (\<open>initialize_buffers\<close>).
\<close>

theorem psdata_always_sent:
  assumes "ps_buffers_ok (cb_module b)" "- (2 ^ 31) \<le> cb_step b" "cb_step b < 2 ^ 31"
    and "runFrame bp (pa_ops pa) i b = Inr (ok, b')"
  shows "ps_buffers_ok (cb_module b') \<and>
    (\<exists>ms c. sendPSdataImplementation pa (cb_step b') (cb_module b') = Inr (ms, c) \<and> ch_funcstats_buf c = [] \<and> ps_buffers_ok c \<and>
      map snd ms = (if pa_use_ps pa \<and> ch_funcstats_buf (cb_module b') \<noteq> []
        then [(ch_funcstats_buf (cb_module b'), ch_countstats_buf (cb_module b'), ch_anom_metrics_buf (cb_module b'))] else []))"
  using runFrame_buffers [OF assms] sendPSdata_ok by blast

text \<open>A frame without an analysis, with the data of an earlier step in the buffers.\<close>

definition buffered :: "(sstd_param, unit, unit) chimbuko" where
  "buffered = left_over \<lparr> ch_funcstats_buf := [new_ADLocalFuncStatistics 0 0 0],
     ch_countstats_buf := [new_ADLocalCounterStatistics 0 0 None],
     ch_anom_metrics_buf := [\<lparr> lm_app = 0, lm_rank = 0, lm_step = 0, lm_first_event_ts = 0, lm_last_event_ts = 0,
       lm_func_anom_metrics = [] \<rparr>] \<rparr>"

theorem psdata_always_sent_witness:
  "\<exists>b' ms c. runFrame (new_ChimbukoBaseParams \<lparr> bp_analysis_step_freq := 2 \<rparr>) (pa_ops (plain_sstd \<lparr> pa_use_ps := True \<rparr>)) no_data
      (new_ChimbukoBase buffered \<lparr> cb_step := 1 \<rparr> :: ((sstd_param, unit, unit) chimbuko, unit prov_json, int \<times> steps_data) chimbuko_base) = Inr (True, b')
    \<and> sendPSdataImplementation (plain_sstd \<lparr> pa_use_ps := True \<rparr>) 2 (cb_module b') = Inr (ms, c) \<and> length ms = 1 \<and> ch_funcstats_buf c = []"
proof -
  let ?bp = "new_ChimbukoBaseParams \<lparr> bp_analysis_step_freq := 2 \<rparr>" and ?pa = "plain_sstd \<lparr> pa_use_ps := True \<rparr>"
  let ?b = "new_ChimbukoBase buffered \<lparr> cb_step := 1 \<rparr> :: ((sstd_param, unit, unit) chimbuko, unit prov_json, int \<times> steps_data) chimbuko_base"
  have ok: "ps_buffers_ok buffered"
    by (simp add: ps_buffers_ok_def buffered_def check_steps_def new_ADLocalFuncStatistics_def new_AnomalyData_values_def
        anomaly_data_set_def new_ADLocalCounterStatistics_def to_i32_def)
  have sel: "p_status (ch_parser buffered) = False" "have_data (ch_event buffered)"
    by (simp_all add: buffered_def left_over_sel have_data_def two_calls_def)
  obtain b' where r: "runFrame ?bp (pa_ops ?pa) no_data ?b = Inr (True, b')" "cb_module b' = buffered" "cb_step b' = 2"
    by (simp add: runFrame_def doAnalysisOnStep_def divides_step_def guard_def pa_ops_def readStep_def parseInputStep_def sel
        new_ChimbukoBase_def new_ChimbukoBaseParams_def sendProvenance_def sendPSdata_def Let_def)
  show ?thesis
    using psdata_always_sent [OF _ _ _ r(1)] r ok
    by (auto simp: new_ChimbukoBase_def buffered_def)
qed

end
