(* ===== verification/Messages.thy ===== *)
theory Messages
  imports Prelude
begin

text \<open>
  The messages between the analysis processes and the parameter server (\<open>message.hpp\<close>,
  \<open>message.cpp\<close>) and the payloads a server binds to them (\<open>net.hpp\<close>, \<open>net.cpp\<close>), with the
  network inside one process (\<open>local_net.cpp\<close>).

  \<^item> The \<open>int\<close> fields of a header are mathematical integers; the narrowing of a length and
    the overflow of a product are written out.
  \<^item> The serialisation by cereal is not under src: \<open>ser\<close> and \<open>des\<close> are arguments.
  \<^item> The hash maps of payloads are association lists, a payload an action on a state \<open>'s\<close>
    of the server. Types are the codes of the enumeration, as a header holds them.
  \<^item> The texts of errors leave out the numbers printed in them.
\<close>

section \<open>Types and kinds\<close>

datatype message_type =
    REQ_ADD | REQ_GET | REQ_CMD | REQ_QUIT | REQ_ECHO
  | REP_ADD | REP_GET | REP_CMD | REP_QUIT | REP_ECHO

fun mtype_code :: "message_type \<Rightarrow> int" where
  "mtype_code REQ_ADD = 1"
| "mtype_code REQ_GET = 2"
| "mtype_code REQ_CMD = 3"
| "mtype_code REQ_QUIT = 4"
| "mtype_code REQ_ECHO = 5"
| "mtype_code REP_ADD = 10"
| "mtype_code REP_GET = 20"
| "mtype_code REP_CMD = 30"
| "mtype_code REP_QUIT = 40"
| "mtype_code REP_ECHO = 50"

datatype builtin_kind = DEFAULT | CMD | PARAMETERS

fun kind_code :: "builtin_kind \<Rightarrow> int" where
  "kind_code DEFAULT = -1"
| "kind_code CMD = -2"
| "kind_code PARAMETERS = -3"

datatype message_cmd = QUIT | ECHO

fun cmd_code :: "message_cmd \<Rightarrow> int" where
  "cmd_code QUIT = 0"
| "cmd_code ECHO = 1"

fun mtype_toString :: "message_type \<Rightarrow> string" where
  "mtype_toString REQ_ADD = ''REQ_ADD''"
| "mtype_toString REQ_GET = ''REQ_GET''"
| "mtype_toString REQ_CMD = ''REQ_CMD''"
| "mtype_toString REQ_QUIT = ''REQ_QUIT''"
| "mtype_toString REQ_ECHO = ''REQ_ECHO''"
| "mtype_toString REP_ADD = ''REP_ADD''"
| "mtype_toString REP_GET = ''REP_GET''"
| "mtype_toString REP_CMD = ''REP_CMD''"
| "mtype_toString REP_QUIT = ''REP_QUIT''"
| "mtype_toString REP_ECHO = ''REP_ECHO''"

fun kind_toString :: "builtin_kind \<Rightarrow> string" where
  "kind_toString DEFAULT = ''DEFAULT''"
| "kind_toString CMD = ''CMD''"
| "kind_toString PARAMETERS = ''PARAMETERS''"

fun cmd_toString :: "message_cmd \<Rightarrow> string" where
  "cmd_toString QUIT = ''QUIT''"
| "cmd_toString ECHO = ''ECHO''"

lemma mtype_code_inj: "mtype_code s = mtype_code t \<longleftrightarrow> s = t"
  by (cases s; cases t) simp_all

lemma kind_code_inj: "kind_code j = kind_code k \<longleftrightarrow> j = k"
  by (cases j; cases k) simp_all

lemma mtype_code_range: "1 \<le> mtype_code t" "mtype_code t \<le> 50"
  by (cases t; simp)+

section \<open>Headers\<close>

record header =
  h_src :: int
  h_dst :: int
  h_type :: int
  h_kind :: int
  h_size :: int
  h_frame :: int
  h_reserved :: "int \<times> int"

definition new_Header :: header where
  "new_Header = \<lparr> h_src = 0, h_dst = 0, h_type = 0, h_kind = 0, h_size = 0, h_frame = 0, h_reserved = (0, 0) \<rparr>"

text \<open>The JSON object of a header; a key that is missing fails the assertion of \<open>operator[]\<close>.\<close>

definition header_get_json :: "header \<Rightarrow> (string \<times> int) list" where
  "header_get_json h =
     [(''src'', h_src h), (''dst'', h_dst h), (''type'', h_type h), (''kind'', h_kind h),
      (''size'', h_size h), (''frame'', h_frame h)]"

definition json_at :: "(string \<times> int) list \<Rightarrow> string \<Rightarrow> int res" where
  "json_at j k = (case map_of j k of None \<Rightarrow> Inl AssertFailed | Some v \<Rightarrow> Inr v)"

definition set_header :: "(string \<times> int) list \<Rightarrow> header \<Rightarrow> header res" where
  "set_header j h =
     bind (json_at j ''src'') (\<lambda>s. bind (json_at j ''dst'') (\<lambda>d. bind (json_at j ''type'') (\<lambda>t.
     bind (json_at j ''kind'') (\<lambda>k. bind (json_at j ''size'') (\<lambda>n. bind (json_at j ''frame'') (\<lambda>f.
       Inr (h \<lparr> h_src := s, h_dst := d, h_type := t, h_kind := k, h_size := n, h_frame := f \<rparr>)))))))"

lemma set_header_get_json:
  "set_header (header_get_json h) g = Inr (h \<lparr> h_reserved := h_reserved g \<rparr>)"
  by (simp add: set_header_def header_get_json_def json_at_def)

section \<open>Messages\<close>

record message =
  m_head :: header
  m_buf :: string

definition new_Message :: message where
  "new_Message = \<lparr> m_head = new_Header, m_buf = '''' \<rparr>"

abbreviation msg_type :: "message \<Rightarrow> int" where
  "msg_type m \<equiv> h_type (m_head m)"

abbreviation msg_kind :: "message \<Rightarrow> int" where
  "msg_kind m \<equiv> h_kind (m_head m)"

definition set_info :: "int \<Rightarrow> int \<Rightarrow> int \<Rightarrow> int \<Rightarrow> int \<Rightarrow> int \<Rightarrow> message \<Rightarrow> message" where
  "set_info src dst type kind frm sz m = m \<lparr> m_head := (m_head m)
     \<lparr> h_src := src, h_dst := dst, h_type := type, h_kind := kind, h_size := sz, h_frame := frm \<rparr> \<rparr>"

definition setContent :: "string \<Rightarrow> message \<Rightarrow> message" where
  "setContent s m = m \<lparr> m_buf := s, m_head := (m_head m) \<lparr> h_size := to_i32 (of_nat (length s)) \<rparr> \<rparr>"

definition clear_msg :: "message \<Rightarrow> message" where
  "clear_msg m = m \<lparr> m_buf := '''' \<rparr>"

definition fits_int :: "int \<Rightarrow> bool" where
  "fits_int n \<longleftrightarrow> - (2 ^ 31) \<le> n \<and> n < 2 ^ 31"

definition createReply :: "message \<Rightarrow> message res" where
  "createReply m =
     bind (guard UndefinedBehaviour (fits_int (msg_type m * 10))) (\<lambda>_.
       Inr (new_Message \<lparr> m_head := new_Header
         \<lparr> h_src := h_dst (m_head m), h_dst := h_src (m_head m), h_type := msg_type m * 10,
           h_kind := msg_kind m, h_size := h_size (m_head m), h_frame := h_frame (m_head m) \<rparr> \<rparr>))"

text \<open>The request types are those whose tenfold is the type of a reply.\<close>

fun is_request :: "message_type \<Rightarrow> bool" where
  "is_request REQ_ADD = True"
| "is_request REQ_GET = True"
| "is_request REQ_CMD = True"
| "is_request REQ_QUIT = True"
| "is_request REQ_ECHO = True"
| "is_request _ = False"

fun reply_type :: "message_type \<Rightarrow> message_type" where
  "reply_type REQ_ADD = REP_ADD"
| "reply_type REQ_GET = REP_GET"
| "reply_type REQ_CMD = REP_CMD"
| "reply_type REQ_QUIT = REP_QUIT"
| "reply_type REQ_ECHO = REP_ECHO"
| "reply_type t = t"

lemma reply_type_code: "is_request t \<Longrightarrow> mtype_code (reply_type t) = mtype_code t * 10"
  by (cases t) simp_all

lemma createReply_ok:
  assumes "msg_type m = mtype_code t"
  obtains r where "createReply m = Inr r" "m_buf r = ''''"
    "h_src (m_head r) = h_dst (m_head m)" "h_dst (m_head r) = h_src (m_head m)"
    "msg_type r = mtype_code t * 10" "msg_kind r = msg_kind m"
proof -
  have "fits_int (mtype_code t * 10)"
    using mtype_code_range [of t] by (auto simp: fits_int_def)
  then show thesis
    using assms that by (simp add: createReply_def new_Message_def new_Header_def)
qed

section \<open>Payloads\<close>

record 's payload =
  p_kind :: int
  p_type :: message_type
  p_action :: "'s \<Rightarrow> message \<Rightarrow> message \<Rightarrow> (message \<times> 's) res"

definition check :: "int \<Rightarrow> message_type \<Rightarrow> message \<Rightarrow> unit res" where
  "check k t m =
     bind (guard (RuntimeError ''Message has the wrong kind'') (msg_kind m = k)) (\<lambda>_.
     guard (RuntimeError ''Message has the wrong kind'') (msg_type m = mtype_code t))"

definition NetPayloadHandShake :: "'s payload" where
  "NetPayloadHandShake = \<lparr> p_kind = kind_code DEFAULT, p_type = REQ_ECHO, p_action = (\<lambda>s response m.
     bind (check (kind_code DEFAULT) REQ_ECHO m) (\<lambda>_. Inr (setContent ''Hello!I am NET!'' response, s))) \<rparr>"

definition NetPayloadPing :: "'s payload" where
  "NetPayloadPing = \<lparr> p_kind = kind_code CMD, p_type = REQ_ECHO, p_action = (\<lambda>s response m.
     bind (check (kind_code CMD) REQ_ECHO m) (\<lambda>_. Inr (setContent ''pong'' response, s))) \<rparr>"

type_synonym 's payload_map = "(int \<times> (int \<times> 's payload) list) list"
type_synonym 's worker_payload_map = "(int \<times> 's payload_map) list"

definition add_payload :: "'s payload \<Rightarrow> int \<Rightarrow> 's worker_payload_map \<Rightarrow> 's worker_payload_map" where
  "add_payload p worker_idx pm =
     (let w = al_get [] pm worker_idx; k = al_get [] w (p_kind p) in
      AList.update worker_idx (AList.update (p_kind p) (AList.update (mtype_code (p_type p)) p k) w) pm)"

definition list_payloads :: "'s worker_payload_map \<Rightarrow> (int \<times> int \<times> int) list" where
  "list_payloads pm =
     concat (map (\<lambda>(w, ks). concat (map (\<lambda>(k, ts). map (\<lambda>(t, p). (w, k, t)) ts) ks)) pm)"

definition perform_action :: "'s payload_map \<Rightarrow> message \<Rightarrow> 's \<Rightarrow> (message \<times> 's) res" where
  "perform_action pm m s =
     (case map_of pm (msg_kind m) of
        None \<Rightarrow> Inl (Fatal (''No payload associated with the message kind provided. Message: '' @ m_buf m @
                            '' (did you add the payload to the server?)''))
      | Some ts \<Rightarrow> (case map_of ts (msg_type m) of
          None \<Rightarrow> Inl (Fatal (''No payload associated with the message type provided. Mesage: '' @ m_buf m @
                              '' (did you add the payload to the server?)''))
        | Some p \<Rightarrow> bind (createReply m) (\<lambda>reply. p_action p s reply m)))"

definition find_and_perform_action ::
  "int \<Rightarrow> 's worker_payload_map \<Rightarrow> message \<Rightarrow> 's \<Rightarrow> (message \<times> 's) res" where
  "find_and_perform_action worker_id pm m s =
     (case map_of pm worker_id of
        None \<Rightarrow> Inl (Fatal ''Cannot find payloads with worker index'')
      | Some w \<Rightarrow> perform_action w m s)"

section \<open>The network of one process\<close>

text \<open>\<open>globalInstance\<close> is \<open>None\<close> for the null pointer.\<close>

type_synonym 's local_net = "'s worker_payload_map option"

definition new_LocalNet :: "'s local_net \<Rightarrow> 's local_net res" where
  "new_LocalNet g = bind (guard (Fatal ''Cannot have 2 instances of LocalNet active'') (g = None)) (\<lambda>_. Inr (Some []))"

definition delete_LocalNet :: "'s local_net \<Rightarrow> 's local_net" where
  "delete_LocalNet g = None"

definition LocalNet_send_and_receive ::
  "(message \<Rightarrow> string) \<Rightarrow> (string \<Rightarrow> message res) \<Rightarrow> 's local_net \<Rightarrow> string \<Rightarrow> 's \<Rightarrow> (string \<times> 's) res" where
  "LocalNet_send_and_receive ser des g send_str s =
     (case g of
        None \<Rightarrow> Inl (Fatal ''An instance of LocalNet must exist'')
      | Some pm \<Rightarrow> bind (des send_str) (\<lambda>m. bind (find_and_perform_action 0 pm m s) (\<lambda>(r, s').
          Inr (ser r, s'))))"

section \<open>What is found in a payload map\<close>

definition payload_at :: "'s worker_payload_map \<Rightarrow> int \<Rightarrow> int \<Rightarrow> int \<Rightarrow> 's payload option" where
  "payload_at pm w k t = map_of (al_get [] (al_get [] pm w) k) t"

lemma payload_at_add [simp]:
  "payload_at (add_payload p i pm) w k t =
     (if w = i \<and> k = p_kind p \<and> t = mtype_code (p_type p) then Some p else payload_at pm w k t)"
  by (simp add: payload_at_def add_payload_def Let_def)

lemma payload_at_Nil [simp]: "payload_at [] w k t = None"
  by (simp add: payload_at_def)

text \<open>A message is acted on exactly by the payload of its worker, kind and type.\<close>

lemma find_and_perform_iff:
  "find_and_perform_action w pm m s = Inr (r, s') \<longleftrightarrow>
     (\<exists>p reply. payload_at pm w (msg_kind m) (msg_type m) = Some p \<and> createReply m = Inr reply
        \<and> p_action p s reply m = Inr (r, s'))"
  by (auto simp: find_and_perform_action_def perform_action_def payload_at_def al_get_def bind_simps split: option.splits)

lemma check_iff [bind_simps]: "check k t m = Inr u \<longleftrightarrow> msg_kind m = k \<and> msg_type m = mtype_code t"
  by (auto simp: check_def bind_simps)

section \<open>The serialisation\<close>

text \<open>What the program relies on of cereal: it gives back what was written, which is never empty.\<close>

definition serialises :: "(message \<Rightarrow> string) \<Rightarrow> (string \<Rightarrow> message res) \<Rightarrow> bool" where
  "serialises ser des \<longleftrightarrow> (\<forall>m. ser m \<noteq> '''' \<and> des (ser m) = Inr m)"

text \<open>
  A serialisation with the property the results assume: the integers of the header with a
  sign and in unary, then the content.
\<close>

definition write_int :: "int \<Rightarrow> string" where
  "write_int i = (if i < 0 then CHR ''-'' else CHR ''+'') # replicate (nat \<bar>i\<bar>) (CHR ''1'') @ '';''"

fun read_int :: "string \<Rightarrow> int \<times> string" where
  "read_int (c # s) =
     (let n = int (length (takeWhile (\<lambda>x. x = CHR ''1'') s)) in
      (if c = CHR ''-'' then - n else n, tl (dropWhile (\<lambda>x. x = CHR ''1'') s)))"
| "read_int [] = (0, [])"

definition write_message :: "message \<Rightarrow> string" where
  "write_message m = (let h = m_head m in
     write_int (h_src h) @ write_int (h_dst h) @ write_int (h_type h) @ write_int (h_kind h) @ write_int (h_size h)
     @ write_int (h_frame h) @ write_int (fst (h_reserved h)) @ write_int (snd (h_reserved h)) @ m_buf m)"

definition read_message :: "string \<Rightarrow> message res" where
  "read_message s0 =
     (let (a, s1) = read_int s0; (b, s2) = read_int s1; (c, s3) = read_int s2; (d, s4) = read_int s3;
          (e, s5) = read_int s4; (f, s6) = read_int s5; (g, s7) = read_int s6; (i, s8) = read_int s7 in
      Inr \<lparr> m_head = \<lparr> h_src = a, h_dst = b, h_type = c, h_kind = d, h_size = e, h_frame = f, h_reserved = (g, i) \<rparr>,
            m_buf = s8 \<rparr>)"

lemma read_write_int [simp]: "read_int (write_int i @ s) = (i, s)"
proof -
  have "takeWhile (\<lambda>x. x = CHR ''1'') (replicate n (CHR ''1'') @ '';'' @ s) = replicate n (CHR ''1'')"
    "dropWhile (\<lambda>x. x = CHR ''1'') (replicate n (CHR ''1'') @ '';'' @ s) = '';'' @ s" for n
    by (induction n) simp_all
  then show ?thesis by (simp add: write_int_def)
qed

lemma read_write_message: "serialises write_message read_message"
  unfolding serialises_def
proof (intro allI conjI)
  fix m
  show "write_message m \<noteq> ''''" by (simp add: write_message_def write_int_def Let_def)
  show "read_message (write_message m) = Inr m"
    by (cases m, cases "m_head m") (simp add: read_message_def write_message_def Let_def)
qed

end
