(* ===== verification/NetServer.thy ===== *)
theory NetServer
  imports Messages
begin

text \<open>
  The network server \<open>ZMQNet\<close> (\<open>zmq_net.hpp\<close>, \<open>zmq_net.cpp\<close>): the payloads it adds, the
  initialisation with its check of the payloads, the routing of messages between the sockets
  and the steps of the router and the worker threads.

  ZeroMQ is not under src. What the steps use of it is its documented behaviour: a socket of
  type ROUTER puts the identity of the sender and an empty frame before a message, DEALER
  hands a message to some worker, the REP socket of a worker takes the next message after the
  reply to the last, and the ROUTER delivers a reply to the client its first frame names.
  The timers and statistics of the performance log are left out.
\<close>

section \<open>The server\<close>

datatype net_status =
    NotStarted | StartingUp | Running | ShuttingDown
  | StoppedByRequest | StoppedBySignal | StoppedByTimeOut | StoppedByError | StoppedAutomatically

text \<open>
  What the payloads share under \<open>m_mutex\<close>, with the state \<open>'m\<close> of the payloads of the module.
\<close>

record 'm net_shared =
  m_clients :: int
  m_client_has_connected :: bool
  m_remote_stop_cmd :: bool
  module_state :: 'm

record 'm zmq_net =
  m_payloads :: "'m net_shared worker_payload_map"
  m_n_requests :: int
  m_max_pollcyc_msg :: int
  m_io_threads :: int
  m_port :: int
  m_autoshutdown :: bool
  m_status :: net_status
  m_poll_timeout :: int
  shared :: "'m net_shared"

definition new_ZMQNet :: "'m \<Rightarrow> 'm zmq_net" where
  "new_ZMQNet m = \<lparr> m_payloads = [], m_n_requests = 0, m_max_pollcyc_msg = 10, m_io_threads = 1,
     m_port = 5559, m_autoshutdown = True, m_status = NotStarted, m_poll_timeout = -1,
     shared = \<lparr> m_clients = 0, m_client_has_connected = False, m_remote_stop_cmd = False, module_state = m \<rparr> \<rparr>"

definition setMaxMsgPerPollCycle :: "int \<Rightarrow> 'm zmq_net \<Rightarrow> 'm zmq_net" where
  "setMaxMsgPerPollCycle n z = z \<lparr> m_max_pollcyc_msg := n \<rparr>"

definition setIOthreads :: "int \<Rightarrow> 'm zmq_net \<Rightarrow> 'm zmq_net" where
  "setIOthreads nt z = z \<lparr> m_io_threads := nt \<rparr>"

definition setPort :: "int \<Rightarrow> 'm zmq_net \<Rightarrow> 'm zmq_net" where
  "setPort n z = z \<lparr> m_port := n \<rparr>"

definition setAutoShutdown :: "bool \<Rightarrow> 'm zmq_net \<Rightarrow> 'm zmq_net" where
  "setAutoShutdown b z = z \<lparr> m_autoshutdown := b \<rparr>"

definition setTimeOut :: "int \<Rightarrow> 'm zmq_net \<Rightarrow> 'm zmq_net" where
  "setTimeOut ms z = z \<lparr> m_poll_timeout := ms \<rparr>"

section \<open>Payloads of the server\<close>

definition NetPayloadHandShakeWithCount :: "'m net_shared payload" where
  "NetPayloadHandShakeWithCount = \<lparr> p_kind = kind_code DEFAULT, p_type = REQ_ECHO, p_action = (\<lambda>s response m.
     bind (check (kind_code DEFAULT) REQ_ECHO m) (\<lambda>_.
       Inr (setContent ''Hello!I am NET!'' response,
            s \<lparr> m_clients := m_clients s + 1, m_client_has_connected := True \<rparr>))) \<rparr>"

definition NetPayloadClientDisconnectWithCount :: "'m net_shared payload" where
  "NetPayloadClientDisconnectWithCount = \<lparr> p_kind = kind_code DEFAULT, p_type = REQ_QUIT, p_action = (\<lambda>s response m.
     bind (check (kind_code DEFAULT) REQ_QUIT m) (\<lambda>_.
     bind (guard (Fatal ''ZMQNet registered clients < 0! Likely a client did not perform a handshake'')
                 (\<not> m_clients s - 1 < 0)) (\<lambda>_.
       Inr (setContent '''' response, s \<lparr> m_clients := m_clients s - 1 \<rparr>)))) \<rparr>"

definition NetPayloadClientRemoteStop :: "'m net_shared payload" where
  "NetPayloadClientRemoteStop = \<lparr> p_kind = kind_code CMD, p_type = REQ_QUIT, p_action = (\<lambda>s response m.
     bind (check (kind_code CMD) REQ_QUIT m) (\<lambda>_.
       Inr (setContent '''' response, s \<lparr> m_remote_stop_cmd := True \<rparr>))) \<rparr>"

text \<open>A payload of a module has no access to the members of the server.\<close>

definition module_payload :: "'m payload \<Rightarrow> 'm net_shared payload" where
  "module_payload p = \<lparr> p_kind = p_kind p, p_type = p_type p, p_action = (\<lambda>s response m.
     bind (p_action p (module_state s) response m) (\<lambda>(r, t). Inr (r, s \<lparr> module_state := t \<rparr>))) \<rparr>"

section \<open>Initialisation\<close>

text \<open>The set of pairs of kind and type, in its order; both are iterated over all workers.\<close>

definition message_types :: "'s worker_payload_map \<Rightarrow> (int \<times> int) list" where
  "message_types pm = sort_key fst (sort_key snd (remdups (map snd (list_payloads pm))))"

definition check_thread :: "'s worker_payload_map \<Rightarrow> (int \<times> int) list \<Rightarrow> nat \<Rightarrow> unit \<Rightarrow> unit res" where
  "check_thread pm mtypes t _ =
     (case map_of pm (int t) of
        None \<Rightarrow> Inl (Fatal ''Thread does not have any payloads!'')
      | Some tloads \<Rightarrow> foldE (\<lambda>(k, ty) _. case map_of tloads k of
            None \<Rightarrow> Inl (Fatal ''Thread does not have a payload for message kind'')
          | Some ts \<Rightarrow> guard (Fatal ''Thread does not have a payload for message type'') (map_of ts ty \<noteq> None)) mtypes ())"

definition default_work :: "nat \<Rightarrow> 'm net_shared worker_payload_map \<Rightarrow> 'm net_shared worker_payload_map" where
  "default_work t pm =
     add_payload NetPayloadClientRemoteStop (int t)
      (add_payload NetPayloadClientDisconnectWithCount (int t)
        (add_payload NetPayloadHandShakeWithCount (int t) pm))"

definition zmq_init :: "nat \<Rightarrow> 'm zmq_net \<Rightarrow> 'm zmq_net res" where
  "zmq_init nt z =
     (let mtypes = message_types (m_payloads z) in
      bind (if mtypes \<noteq> [] then foldE (check_thread (m_payloads z) mtypes) [0..<nt] () else Inr ()) (\<lambda>_.
        Inr (z \<lparr> m_payloads := fold default_work [0..<nt] (m_payloads z) \<rparr>)))"

section \<open>Routing\<close>

text \<open>
  The frames waiting on the socket, each with the flag \<open>ZMQ_RCVMORE\<close>; an empty queue is
  \<open>EAGAIN\<close>. The result is the number of messages counted, the frames sent and those left.
\<close>

type_synonym frame = "string \<times> bool"

fun recvAndSend :: "int \<Rightarrow> int \<Rightarrow> frame list \<Rightarrow> int \<times> frame list \<times> frame list" where
  "recvAndSend max_msg msg_count [] = (msg_count, [], [])"
| "recvAndSend max_msg msg_count ((data, mor) # fs) =
     (if msg_count < max_msg then
        (case recvAndSend max_msg (if mor then msg_count else msg_count + 1) fs of
           (n, sent, rest) \<Rightarrow> (n, if mor \<or> data \<noteq> '''' then (data, mor) # sent else sent, rest))
      else (msg_count, [], (data, mor) # fs))"

section \<open>A worker\<close>

text \<open>One round of \<open>doWork\<close>: parse the message, act on it, serialise the reply.\<close>

definition doWork ::
  "(message \<Rightarrow> string) \<Rightarrow> (string \<Rightarrow> message res) \<Rightarrow> 'm net_shared worker_payload_map \<Rightarrow> nat \<Rightarrow>
   string \<Rightarrow> 'm net_shared \<Rightarrow> (string \<times> 'm net_shared) res" where
  "doWork ser des pm thr_idx strmsg s =
     bind (des strmsg) (\<lambda>m. bind (find_and_perform_action (int thr_idx) pm m s) (\<lambda>(reply, s'). Inr (ser reply, s')))"

section \<open>The poll loop\<close>

datatype poll_result =
    PollTimeOut
  | PollInterrupted
  | PollError
  | PollEvents bool bool bool  \<comment> \<open>frontend, backend, stop socket\<close>

text \<open>
  The program counter of \<open>run\<close> with the events of the poll that are left to handle: of the
  frontend and the stop socket, and of the stop socket.
\<close>

datatype router_pc = AtCheck | AtPoll | RouteBack bool bool | RouteFront bool | AtStop bool | Ended

definition stop_condition :: "'m zmq_net \<Rightarrow> bool" where
  "stop_condition z \<longleftrightarrow> (m_autoshutdown z \<or> m_remote_stop_cmd (shared z))
     \<and> m_client_has_connected (shared z) \<and> m_clients (shared z) = 0 \<and> m_n_requests z = 0"

definition check_stop :: "'m zmq_net \<Rightarrow> 'm zmq_net \<times> router_pc" where
  "check_stop z =
     (if stop_condition z
      then (z \<lparr> m_status := (if m_remote_stop_cmd (shared z) then StoppedByRequest else StoppedAutomatically) \<rparr>, Ended)
      else (z, AtPoll))"

fun after_poll :: "poll_result \<Rightarrow> 'm zmq_net \<Rightarrow> 'm zmq_net \<times> router_pc" where
  "after_poll PollTimeOut z = (z \<lparr> m_status := StoppedByTimeOut \<rparr>, Ended)"
| "after_poll PollInterrupted z = (z \<lparr> m_status := StoppedBySignal \<rparr>, Ended)"
| "after_poll PollError z = (z \<lparr> m_status := StoppedByError \<rparr>, Ended)"
| "after_poll (PollEvents f b s) z = (z, if b then RouteBack f s else if f then RouteFront s else AtStop s)"

definition start_run :: "'m zmq_net \<Rightarrow> 'm zmq_net" where
  "start_run z = z \<lparr> m_status := Running, m_n_requests := 0, shared := (shared z) \<lparr> m_remote_stop_cmd := False \<rparr> \<rparr>"

end
