(* ===== verification/NetClient.thy ===== *)
theory NetClient
  imports Messages
begin

text \<open>
  The clients of the parameter server (\<open>ADNetClient.hpp\<close>, \<open>ADNetClient.cpp\<close>): the interface
  \<open>ADNetClient\<close>, the client over ZeroMQ and the client in the process of the server.

  The sockets are not under src: what the ZeroMQ client calls is the record \<open>transport\<close> of
  functions on a state \<open>'w\<close> of the network. A receive that fails leaves the state it gives.
  The timings of the performance log and the log messages are left out.
\<close>

section \<open>Messages of a client\<close>

definition hello_message :: "int \<Rightarrow> int \<Rightarrow> message" where
  "hello_message rank srank =
     setContent ''Hello!'' (set_info rank srank (mtype_code REQ_ECHO) (kind_code DEFAULT) 0 0 new_Message)"

definition quit_message :: message where
  "quit_message = setContent '''' (set_info 0 0 (mtype_code REQ_QUIT) (kind_code DEFAULT) 0 0 new_Message)"

definition stop_message :: message where
  "stop_message = setContent '''' (set_info 0 0 (mtype_code REQ_QUIT) (kind_code CMD) 0 0 new_Message)"

lemmas client_message_defs = hello_message_def quit_message_def stop_message_def setContent_def set_info_def

lemma client_message_kinds [simp]:
  "msg_kind (hello_message r s) = kind_code DEFAULT" "msg_type (hello_message r s) = mtype_code REQ_ECHO"
  "msg_kind quit_message = kind_code DEFAULT" "msg_type quit_message = mtype_code REQ_QUIT"
  "msg_kind stop_message = kind_code CMD" "msg_type stop_message = mtype_code REQ_QUIT"
  by (simp_all add: client_message_defs)

section \<open>The interface of a client\<close>

text \<open>The virtual functions on the state \<open>'c\<close> of a client, its destructor, and \<open>use_ps\<close>.\<close>

record 'c client_ops =
  op_connect_ps :: "int \<Rightarrow> int \<Rightarrow> string \<Rightarrow> 'c \<Rightarrow> 'c res"
  op_disconnect_ps :: "'c \<Rightarrow> 'c res"
  op_send_and_receive :: "message \<Rightarrow> 'c \<Rightarrow> (string \<times> 'c) res"
  op_setRecvTimeout :: "int \<Rightarrow> 'c \<Rightarrow> 'c"
  op_delete :: "'c \<Rightarrow> 'c res"
  op_use_ps :: "'c \<Rightarrow> bool"

definition send_and_receive_message ::
  "(string \<Rightarrow> message res) \<Rightarrow> 'c client_ops \<Rightarrow> message \<Rightarrow> 'c \<Rightarrow> (message \<times> 'c) res" where
  "send_and_receive_message des ops send c =
     bind (op_send_and_receive ops send c) (\<lambda>(s, c'). bind (des s) (\<lambda>m. Inr (m, c')))"

definition async_send :: "'c client_ops \<Rightarrow> message \<Rightarrow> 'c \<Rightarrow> 'c res" where
  "async_send ops send c = bind (op_send_and_receive ops send c) (\<lambda>(s, c'). Inr c')"

record 'w net_client =
  m_use_ps :: bool
  m_rank :: int
  m_srank :: int
  m_recv_timeout_ms :: int
  network :: 'w

text \<open>The ranks have no value before the connection; 0 stands for it.\<close>

definition new_ADNetClient :: "'w \<Rightarrow> 'w net_client" where
  "new_ADNetClient w = \<lparr> m_use_ps = False, m_rank = 0, m_srank = 0, m_recv_timeout_ms = 30000, network = w \<rparr>"

section \<open>The client over ZeroMQ\<close>

text \<open>
  \<open>t_connect\<close> creates a socket with a timeout of its receives and connects it, and gives the
  text of the error if that fails; \<open>t_send\<close> and \<open>t_recv\<close> are \<open>ZMQNet::send\<close> and
  \<open>ZMQNet::recv\<close> on the socket.
\<close>

record 'w transport =
  t_connect :: "int \<Rightarrow> string \<Rightarrow> 'w \<Rightarrow> string option \<times> 'w"
  t_send :: "string \<Rightarrow> 'w \<Rightarrow> 'w res"
  t_recv :: "'w \<Rightarrow> string res \<times> 'w"

definition hello_received :: "(string \<Rightarrow> message res) \<Rightarrow> string \<Rightarrow> 'w net_client \<Rightarrow> 'w net_client res" where
  "hello_received des strmsg c =
     bind (des strmsg) (\<lambda>m. if m_buf m \<noteq> ''Hello!I am NET!'' then Inr c else Inr (c \<lparr> m_use_ps := True \<rparr>))"

definition zmq_connect_ps ::
  "(message \<Rightarrow> string) \<Rightarrow> (string \<Rightarrow> message res) \<Rightarrow> 'w transport \<Rightarrow> int \<Rightarrow> int \<Rightarrow> string \<Rightarrow>
   'w net_client \<Rightarrow> 'w net_client res" where
  "zmq_connect_ps ser des T rank srank sname c0 =
     (let c = c0 \<lparr> m_rank := rank, m_srank := srank \<rparr> in
      case t_connect T (m_recv_timeout_ms c) sname (network c) of
        (Some err, w) \<Rightarrow> Inl (RuntimeError (''ZMQ failed to connect to socket at address '' @ sname @ '', due to error: '' @ err))
      | (None, w) \<Rightarrow>
          bind (t_send T (ser (hello_message rank srank)) w) (\<lambda>w1.
            (case t_recv T w1 of
               (Inl e, w2) \<Rightarrow> Inr (c \<lparr> network := w2 \<rparr>)
             | (Inr strmsg, w2) \<Rightarrow> hello_received des strmsg (c \<lparr> network := w2 \<rparr>))))"

definition zmq_send_and_receive ::
  "(message \<Rightarrow> string) \<Rightarrow> 'w transport \<Rightarrow> message \<Rightarrow> 'w net_client \<Rightarrow> (string \<times> 'w net_client) res" where
  "zmq_send_and_receive ser T m c =
     bind (t_send T (ser m) (network c)) (\<lambda>w.
       let (r, w') = t_recv T w in bind r (\<lambda>recv_msg. Inr (recv_msg, c \<lparr> network := w' \<rparr>)))"

definition zmq_disconnect_ps ::
  "(message \<Rightarrow> string) \<Rightarrow> 'w transport \<Rightarrow> 'w net_client \<Rightarrow> 'w net_client res" where
  "zmq_disconnect_ps ser T c =
     (if \<not> m_use_ps c then Inr c
      else bind (zmq_send_and_receive ser T quit_message c) (\<lambda>(s, c'). Inr (c' \<lparr> m_use_ps := False \<rparr>)))"

definition zmq_stopServer ::
  "(message \<Rightarrow> string) \<Rightarrow> 'w transport \<Rightarrow> 'w net_client \<Rightarrow> 'w net_client res" where
  "zmq_stopServer ser T c = bind (zmq_send_and_receive ser T stop_message c) (\<lambda>(s, c'). Inr c')"

definition zmq_setRecvTimeout :: "int \<Rightarrow> 'w net_client \<Rightarrow> 'w net_client" where
  "zmq_setRecvTimeout ms c = c \<lparr> m_recv_timeout_ms := ms \<rparr>"

definition ADZMQNetClient ::
  "(message \<Rightarrow> string) \<Rightarrow> (string \<Rightarrow> message res) \<Rightarrow> 'w transport \<Rightarrow> 'w net_client client_ops" where
  "ADZMQNetClient ser des T = \<lparr> op_connect_ps = zmq_connect_ps ser des T, op_disconnect_ps = zmq_disconnect_ps ser T,
     op_send_and_receive = zmq_send_and_receive ser T, op_setRecvTimeout = zmq_setRecvTimeout,
     op_delete = zmq_disconnect_ps ser T, op_use_ps = m_use_ps \<rparr>"

section \<open>The client in the process of the server\<close>

text \<open>The state of the network is the global instance and the state of its payloads.\<close>

definition local_connect_ps ::
  "int \<Rightarrow> int \<Rightarrow> string \<Rightarrow> ('s local_net \<times> 's) net_client \<Rightarrow> ('s local_net \<times> 's) net_client res" where
  "local_connect_ps rank srank sname c =
     bind (guard (Fatal ''No LocalNet instance exists'') (fst (network c) \<noteq> None)) (\<lambda>_.
       Inr (c \<lparr> m_use_ps := True, m_srank := 0, m_rank := rank \<rparr>))"

definition local_disconnect_ps :: "('s local_net \<times> 's) net_client \<Rightarrow> ('s local_net \<times> 's) net_client res" where
  "local_disconnect_ps c = Inr (c \<lparr> m_use_ps := False \<rparr>)"

definition local_send_and_receive ::
  "(message \<Rightarrow> string) \<Rightarrow> (string \<Rightarrow> message res) \<Rightarrow> message \<Rightarrow> ('s local_net \<times> 's) net_client \<Rightarrow>
   (string \<times> ('s local_net \<times> 's) net_client) res" where
  "local_send_and_receive ser des m c =
     bind (guard (Fatal ''User should call connect_ps prior to sending/receiving messages'') (m_use_ps c)) (\<lambda>_.
     bind (LocalNet_send_and_receive ser des (fst (network c)) (ser m) (snd (network c))) (\<lambda>(r, s).
       Inr (r, c \<lparr> network := (fst (network c), s) \<rparr>)))"

definition ADLocalNetClient ::
  "(message \<Rightarrow> string) \<Rightarrow> (string \<Rightarrow> message res) \<Rightarrow> ('s local_net \<times> 's) net_client client_ops" where
  "ADLocalNetClient ser des = \<lparr> op_connect_ps = local_connect_ps, op_disconnect_ps = local_disconnect_ps,
     op_send_and_receive = local_send_and_receive ser des, op_setRecvTimeout = (\<lambda>ms c. c),
     op_delete = Inr, op_use_ps = m_use_ps \<rparr>"

section \<open>What the clients promise\<close>

text \<open>
  A client is connected only through \<open>connect_ps\<close>, keeps its connection while it exchanges
  messages, and has none after \<open>disconnect_ps\<close>.
\<close>

locale connected_client =
  fixes ops :: "'c client_ops"
  assumes disconnect_off: "op_disconnect_ps ops c = Inr c' \<Longrightarrow> \<not> op_use_ps ops c'"
    and exchange_keeps: "op_send_and_receive ops m c = Inr (s, c') \<Longrightarrow> op_use_ps ops c' = op_use_ps ops c"
    and timeout_keeps: "op_use_ps ops (op_setRecvTimeout ops ms c) = op_use_ps ops c"
begin

lemma async_keeps: "async_send ops m c = Inr c' \<Longrightarrow> op_use_ps ops c' = op_use_ps ops c"
  by (auto simp: async_send_def bind_simps dest: exchange_keeps)

lemma message_keeps: "send_and_receive_message des ops m c = Inr (r, c') \<Longrightarrow> op_use_ps ops c' = op_use_ps ops c"
  by (auto simp: send_and_receive_message_def bind_simps dest: exchange_keeps)

end

lemma zmq_exchange_use_ps: "zmq_send_and_receive ser T m c = Inr (s, c') \<Longrightarrow> m_use_ps c' = m_use_ps c"
  by (auto simp: zmq_send_and_receive_def bind_simps Let_def split_beta)

interpretation zmq_client: connected_client "ADZMQNetClient ser des T" for ser des T
  by unfold_locales
    (auto simp: ADZMQNetClient_def zmq_disconnect_ps_def zmq_setRecvTimeout_def bind_simps dest: zmq_exchange_use_ps split: if_splits)

interpretation local_client: connected_client "ADLocalNetClient ser des" for ser des
  by unfold_locales
    (auto simp: ADLocalNetClient_def local_disconnect_ps_def local_send_and_receive_def bind_simps)

end
