(* ===== verification/NetSystem.thy ===== *)
theory NetSystem
  imports NetServer NetClient
begin

text \<open>
  The running network: the router of \<open>ZMQNet::run\<close>, its worker threads and the clients over
  ZeroMQ, as interleaved steps on the queues of the sockets. The main results say when the
  server stops, what it answers and that its own payloads never fail.

  A message is in one of five places: on its way to the router (\<open>requests\<close>), handed on but not
  taken (\<open>work\<close>), its reply held by a worker (\<open>threads\<close>), the reply at the router (\<open>replies\<close>), or
  delivered (\<open>inbox\<close>). A client whose receive times out is one that takes no further step.
\<close>

section \<open>States and steps\<close>

type_synonym client = string
type_synonym mail = "client \<times> string"

datatype phase = Off | Greeting | Ready | Asking | Leaving | Gone

record 'm zmq_system =
  net :: "'m zmq_net"
  router :: router_pc
  requests :: "mail list"
  work :: "mail list"
  threads :: "mail option list"
  replies :: "mail list"
  inbox :: "mail list"
  phase :: "client \<Rightarrow> phase"
  sent :: "client \<Rightarrow> message"

text \<open>The frames of a message between the router and the workers.\<close>

fun envelope :: "mail \<Rightarrow> frame list" where
  "envelope (c, s) = [(c, True), ('''', True), (s, False)]"

definition frames :: "mail list \<Rightarrow> frame list" where
  "frames q = concat (map envelope q)"

definition post :: "(message \<Rightarrow> string) \<Rightarrow> client \<Rightarrow> phase \<Rightarrow> message \<Rightarrow> 'm zmq_system \<Rightarrow> 'm zmq_system" where
  "post ser c p m S = S \<lparr> phase := (phase S)(c := p), sent := (sent S)(c := m), requests := requests S @ [(c, ser m)] \<rparr>"

text \<open>\<open>poll\<close> reports a socket exactly when it has messages; it times out only if it may.\<close>

fun poll_ok :: "'m zmq_system \<Rightarrow> poll_result \<Rightarrow> bool" where
  "poll_ok S PollTimeOut \<longleftrightarrow> 0 \<le> m_poll_timeout (net S)"
| "poll_ok S (PollEvents f b s) \<longleftrightarrow> (f \<longleftrightarrow> requests S \<noteq> []) \<and> (b \<longleftrightarrow> replies S \<noteq> []) \<and> (f \<or> b \<or> s)"
| "poll_ok S _ \<longleftrightarrow> True"

definition start_net ::
  "nat \<Rightarrow> (int \<times> 'm payload) list \<Rightarrow> int \<Rightarrow> bool \<Rightarrow> int \<Rightarrow> 'm \<Rightarrow> 'm zmq_net res" where
  "start_net nt ps max_msg autoshutdown time_ms m =
     bind (zmq_init nt
        (setTimeOut time_ms (setAutoShutdown autoshutdown (setMaxMsgPerPollCycle max_msg (new_ZMQNet m)))
           \<lparr> m_payloads := fold (\<lambda>(w, p). add_payload (module_payload p) w) ps [] \<rparr>)) (\<lambda>z. Inr (start_run z))"

inductive zmq_step :: "(message \<Rightarrow> string) \<Rightarrow> (string \<Rightarrow> message res) \<Rightarrow> 'm zmq_system \<Rightarrow> 'm zmq_system \<Rightarrow> bool"
  for ser des where
  connect: "phase S c = Off \<Longrightarrow> zmq_step ser des S (post ser c Greeting (hello_message r s) S)"
| request: "phase S c = Ready \<Longrightarrow> msg_kind m \<noteq> kind_code DEFAULT \<Longrightarrow> zmq_step ser des S (post ser c Asking m S)"
| disconnect: "phase S c = Ready \<Longrightarrow> zmq_step ser des S (post ser c Leaving quit_message S)"
| connected: "phase S c = Greeting \<Longrightarrow> inbox S = xs @ (c, strmsg) # ys \<Longrightarrow> des strmsg = Inr m \<Longrightarrow>
    m_buf m = ''Hello!I am NET!'' \<Longrightarrow>
    zmq_step ser des S (S \<lparr> phase := (phase S)(c := Ready), inbox := xs @ ys \<rparr>)"
| answered: "phase S c = Asking \<Longrightarrow> inbox S = xs @ (c, strmsg) # ys \<Longrightarrow>
    zmq_step ser des S (S \<lparr> phase := (phase S)(c := Ready), inbox := xs @ ys \<rparr>)"
| disconnected: "phase S c = Leaving \<Longrightarrow> inbox S = xs @ (c, strmsg) # ys \<Longrightarrow>
    zmq_step ser des S (S \<lparr> phase := (phase S)(c := Gone), inbox := xs @ ys \<rparr>)"
| check: "router S = AtCheck \<Longrightarrow> check_stop (net S) = (z, pc) \<Longrightarrow>
    zmq_step ser des S (S \<lparr> net := z, router := pc \<rparr>)"
| poll: "router S = AtPoll \<Longrightarrow> poll_ok S r \<Longrightarrow> after_poll r (net S) = (z, pc) \<Longrightarrow>
    zmq_step ser des S (S \<lparr> net := z, router := pc \<rparr>)"
| route_back: "router S = RouteBack f s \<Longrightarrow>
    recvAndSend (m_max_pollcyc_msg (net S)) 0 (frames (replies S)) = (n, frames ms, frames rest) \<Longrightarrow>
    zmq_step ser des S (S \<lparr> replies := rest, inbox := inbox S @ ms,
      net := (net S) \<lparr> m_n_requests := m_n_requests (net S) - n \<rparr>, router := (if f then RouteFront s else AtStop s) \<rparr>)"
| route_front: "router S = RouteFront s \<Longrightarrow>
    recvAndSend (m_max_pollcyc_msg (net S)) 0 (frames (requests S)) = (n, frames ms, frames rest) \<Longrightarrow>
    zmq_step ser des S (S \<lparr> requests := rest, work := work S @ ms,
      net := (net S) \<lparr> m_n_requests := m_n_requests (net S) + n \<rparr>, router := AtStop s \<rparr>)"
| stop: "router S = AtStop s \<Longrightarrow>
    zmq_step ser des S (if s then S \<lparr> net := (net S) \<lparr> m_status := StoppedByRequest \<rparr>, router := Ended \<rparr>
                        else S \<lparr> router := AtCheck \<rparr>)"
| act: "t < length (threads S) \<Longrightarrow> threads S ! t = None \<Longrightarrow> work S = xs @ (c, strmsg) # ys \<Longrightarrow>
    doWork ser des (m_payloads (net S)) t strmsg (shared (net S)) = Inr (r, sh) \<Longrightarrow>
    zmq_step ser des S (S \<lparr> work := xs @ ys, threads := (threads S)[t := Some (c, r)],
      net := (net S) \<lparr> shared := sh \<rparr> \<rparr>)"
| reply: "t < length (threads S) \<Longrightarrow> threads S ! t = Some x \<Longrightarrow>
    zmq_step ser des S (S \<lparr> threads := (threads S)[t := None], replies := replies S @ [x] \<rparr>)"

inductive zmq_reach :: "(message \<Rightarrow> string) \<Rightarrow> (string \<Rightarrow> message res) \<Rightarrow> nat \<Rightarrow> 'm zmq_system \<Rightarrow> bool"
  for ser des nt where
  start: "start_net nt ps max_msg autoshutdown time_ms m = Inr z \<Longrightarrow>
    zmq_reach ser des nt \<lparr> net = z, router = AtCheck, requests = [], work = [], threads = replicate nt None,
      replies = [], inbox = [], phase = (\<lambda>_. Off), sent = (\<lambda>_. new_Message) \<rparr>"
| step: "zmq_reach ser des nt S \<Longrightarrow> zmq_step ser des S T \<Longrightarrow> zmq_reach ser des nt T"

section \<open>Routing moves whole messages\<close>

lemma frames_simps [simp]:
  "frames [] = []" "frames ((c, s) # q) = (c, True) # ('''', True) # (s, False) # frames q"
  by (simp_all add: frames_def)

lemma frames_Nil_iff: "frames q = [] \<longleftrightarrow> q = []"
  by (cases q) auto

lemma frames_inj [simp]: "frames p = frames q \<longleftrightarrow> p = q"
proof (induction p arbitrary: q)
  case Nil
  then show ?case using frames_Nil_iff [of q] by auto
next
  case (Cons a p)
  note IH = Cons.IH
  show ?case
  proof (cases q)
    case Nil
    then show ?thesis using frames_Nil_iff [of "a # p"] by simp
  next
    case (Cons b q')
    then show ?thesis by (cases a; cases b) (auto simp: IH)
  qed
qed

lemma recvAndSend_full: "max_msg \<le> n \<Longrightarrow> recvAndSend max_msg n fs = (n, [], fs)"
  by (cases fs) auto

lemma recvAndSend_frames:
  assumes "\<forall>x \<in> set q. snd x \<noteq> ''''"
  shows "recvAndSend max_msg n (frames q) =
    (n + int (min (nat (max_msg - n)) (length q)), frames (take (nat (max_msg - n)) q), frames (drop (nat (max_msg - n)) q))"
  using assms
proof (induction q arbitrary: n)
  case Nil
  then show ?case by simp
next
  case (Cons x q)
  obtain c s where x: "x = (c, s)" by fastforce
  show ?case
  proof (cases "n < max_msg")
    case True
    then have k: "nat (max_msg - n) = Suc (nat (max_msg - (n + 1)))" by simp
    from True x Cons.prems show ?thesis by (simp add: Cons.IH k)
  next
    case False
    then show ?thesis by (simp add: x recvAndSend_full)
  qed
qed
lemma routed_messages:
  assumes "recvAndSend max_msg 0 (frames q) = (n, frames ms, frames rest)" "\<forall>x \<in> set q. snd x \<noteq> ''''"
  shows "q = ms @ rest" "n = int (length ms)"
  using assms by (auto simp: recvAndSend_frames min.commute)

end
