(* ===== verification/NetSystemProps.thy ===== *)
theory NetSystemProps
  imports NetSystem
begin

text \<open>
  The invariant of the running network and what follows from it: when the router stops by
  itself, which answers clients receive, and that the payloads of the server never fail.
\<close>

section \<open>The payloads after the initialisation\<close>

definition server_payloads :: "nat \<Rightarrow> 'm net_shared worker_payload_map \<Rightarrow> bool" where
  "server_payloads nt pm \<longleftrightarrow>
     (\<forall>t < nt. payload_at pm (int t) (kind_code DEFAULT) (mtype_code REQ_ECHO) = Some NetPayloadHandShakeWithCount
        \<and> payload_at pm (int t) (kind_code DEFAULT) (mtype_code REQ_QUIT) = Some NetPayloadClientDisconnectWithCount)
     \<and> (\<forall>w k ty p. payload_at pm w k ty = Some p \<longrightarrow> k \<noteq> kind_code DEFAULT \<longrightarrow>
          p = NetPayloadClientRemoteStop \<or> (\<exists>q. p = module_payload q))"

definition module_payloads :: "'m net_shared worker_payload_map \<Rightarrow> bool" where
  "module_payloads pm \<longleftrightarrow> (\<forall>w k ty p. payload_at pm w k ty = Some p \<longrightarrow> (\<exists>q. p = module_payload q))"

lemma module_payloads_add: "module_payloads pm \<Longrightarrow> module_payloads (add_payload (module_payload q) w pm)"
  by (auto simp: module_payloads_def)

lemma module_payloads_fold:
  "module_payloads pm \<Longrightarrow> module_payloads (fold (\<lambda>(w, p). add_payload (module_payload p) w) ps pm)"
  by (induction ps arbitrary: pm) (auto simp: module_payloads_add)

lemma server_payload_keys [simp]:
  "p_kind NetPayloadHandShakeWithCount = -1" "p_type NetPayloadHandShakeWithCount = REQ_ECHO"
  "p_kind NetPayloadClientDisconnectWithCount = -1" "p_type NetPayloadClientDisconnectWithCount = REQ_QUIT"
  "p_kind NetPayloadClientRemoteStop = -2" "p_type NetPayloadClientRemoteStop = REQ_QUIT"
  by (simp_all add: NetPayloadHandShakeWithCount_def NetPayloadClientDisconnectWithCount_def NetPayloadClientRemoteStop_def)

lemma payload_at_default_work:
  "payload_at (default_work t pm) w k ty =
     (if w = int t \<and> k = -1 \<and> ty = 5 then Some NetPayloadHandShakeWithCount
      else if w = int t \<and> k = -1 \<and> ty = 4 then Some NetPayloadClientDisconnectWithCount
      else if w = int t \<and> k = -2 \<and> ty = 4 then Some NetPayloadClientRemoteStop
      else payload_at pm w k ty)"
  by (simp add: default_work_def)

lemma server_payloads_init:
  "module_payloads pm \<Longrightarrow> server_payloads nt (fold default_work [0..<nt] pm)"
proof (induction nt)
  case 0
  then show ?case by (auto simp: server_payloads_def module_payloads_def)
next
  case (Suc nt)
  then have "server_payloads nt (fold default_work [0..<nt] pm)" by simp
  then show ?case
    by (auto simp: server_payloads_def payload_at_default_work less_Suc_eq split: if_splits)
qed

lemma start_net_payloads:
  assumes "start_net nt ps max_msg autoshutdown time_ms m = Inr z"
  shows "server_payloads nt (m_payloads z)" "shared z = \<lparr> m_clients = 0, m_client_has_connected = False,
    m_remote_stop_cmd = False, module_state = m \<rparr>" "m_n_requests z = 0"
proof -
  have "module_payloads ([] :: 'a net_shared worker_payload_map)"
    by (simp add: module_payloads_def)
  from server_payloads_init [OF module_payloads_fold [OF this]] assms
  show "server_payloads nt (m_payloads z)" "shared z = \<lparr> m_clients = 0, m_client_has_connected = False,
    m_remote_stop_cmd = False, module_state = m \<rparr>" "m_n_requests z = 0"
    by (auto simp: start_net_def zmq_init_def Let_def bind_simps start_run_def new_ZMQNet_def
        setTimeOut_def setAutoShutdown_def setMaxMsgPerPollCycle_def)
qed

section \<open>What a worker does with a message\<close>

lemma act_hello:
  assumes "server_payloads nt pm" "t < nt" "msg_kind m = kind_code DEFAULT" "msg_type m = mtype_code REQ_ECHO"
  shows "\<exists>r. find_and_perform_action (int t) pm m s =
    Inr (r, s \<lparr> m_clients := m_clients s + 1, m_client_has_connected := True \<rparr>) \<and> m_buf r = ''Hello!I am NET!''"
proof -
  have p: "payload_at pm (int t) (msg_kind m) (msg_type m) = Some NetPayloadHandShakeWithCount"
    using assms by (simp add: server_payloads_def)
  obtain r where "createReply m = Inr r" using createReply_ok [OF assms(4)] by blast
  then show ?thesis
    unfolding find_and_perform_iff using p assms(3,4)
    by (auto simp: NetPayloadHandShakeWithCount_def check_def setContent_def)
qed

lemma act_quit:
  assumes "server_payloads nt pm" "t < nt" "msg_kind m = kind_code DEFAULT" "msg_type m = mtype_code REQ_QUIT"
    and "1 \<le> m_clients s"
  shows "\<exists>r. find_and_perform_action (int t) pm m s = Inr (r, s \<lparr> m_clients := m_clients s - 1 \<rparr>) \<and> m_buf r = ''''"
proof -
  have p: "payload_at pm (int t) (msg_kind m) (msg_type m) = Some NetPayloadClientDisconnectWithCount"
    using assms by (simp add: server_payloads_def)
  obtain r where "createReply m = Inr r" using createReply_ok [OF assms(4)] by blast
  then show ?thesis
    unfolding find_and_perform_iff using p assms(3-5)
    by (auto simp: NetPayloadClientDisconnectWithCount_def check_def setContent_def)
qed

lemma act_other:
  assumes "server_payloads nt pm" "msg_kind m \<noteq> kind_code DEFAULT" "find_and_perform_action w pm m s = Inr (r, s')"
  shows "m_clients s' = m_clients s" "m_client_has_connected s' = m_client_has_connected s"
proof -
  obtain p reply where p: "payload_at pm w (msg_kind m) (msg_type m) = Some p"
    and a: "p_action p s reply m = Inr (r, s')"
    using assms(3) by (auto simp: find_and_perform_iff)
  have "p = NetPayloadClientRemoteStop \<or> (\<exists>q. p = module_payload q)"
    using assms(1,2) p by (auto simp: server_payloads_def)
  with a show "m_clients s' = m_clients s" "m_client_has_connected s' = m_client_has_connected s"
    by (auto simp: NetPayloadClientRemoteStop_def module_payload_def bind_simps)
qed

section \<open>The invariant\<close>

text \<open>
  The messages that no worker has acted on, and the replies that have not been received.
\<close>

definition busy :: "'a option list \<Rightarrow> 'a multiset" where
  "busy ts = image_mset the (filter_mset (\<lambda>x. x \<noteq> None) (mset ts))"

definition unprocessed :: "'m zmq_system \<Rightarrow> mail multiset" where
  "unprocessed S = mset (requests S) + mset (work S)"

definition processed :: "'m zmq_system \<Rightarrow> mail multiset" where
  "processed S = busy (threads S) + mset (replies S) + mset (inbox S)"

definition has_reply :: "'m zmq_system \<Rightarrow> client \<Rightarrow> bool" where
  "has_reply S c \<longleftrightarrow> c \<in># image_mset fst (processed S)"

text \<open>The clients whose greeting, or whose notice that it leaves, the server has acted on.\<close>

definition greeted :: "'m zmq_system \<Rightarrow> client \<Rightarrow> bool" where
  "greeted S c \<longleftrightarrow> phase S c \<notin> {Off, Greeting} \<or> phase S c = Greeting \<and> has_reply S c"

definition has_left :: "'m zmq_system \<Rightarrow> client \<Rightarrow> bool" where
  "has_left S c \<longleftrightarrow> phase S c = Gone \<or> phase S c = Leaving \<and> has_reply S c"

fun sent_in :: "phase \<Rightarrow> message \<Rightarrow> bool" where
  "sent_in Greeting m \<longleftrightarrow> msg_kind m = kind_code DEFAULT \<and> msg_type m = mtype_code REQ_ECHO"
| "sent_in Leaving m \<longleftrightarrow> msg_kind m = kind_code DEFAULT \<and> msg_type m = mtype_code REQ_QUIT"
| "sent_in Asking m \<longleftrightarrow> msg_kind m \<noteq> kind_code DEFAULT"
| "sent_in _ m \<longleftrightarrow> True"

definition awaits :: "'m zmq_system \<Rightarrow> client set" where
  "awaits S = {c. phase S c \<in> {Greeting, Asking, Leaving}}"

definition mail_inv :: "(message \<Rightarrow> string) \<Rightarrow> nat \<Rightarrow> 'm zmq_system \<Rightarrow> bool" where
  "mail_inv ser nt S \<longleftrightarrow> finite {c. phase S c \<noteq> Off}
     \<and> image_mset fst (unprocessed S + processed S) = mset_set (awaits S)
     \<and> (\<forall>(c, s) \<in># unprocessed S. s = ser (sent S c))
     \<and> (\<forall>(c, s) \<in># processed S. \<exists>t < nt. \<exists>sh r sh'.
          find_and_perform_action (int t) (m_payloads (net S)) (sent S c) sh = Inr (r, sh') \<and> s = ser r)
     \<and> (\<forall>c. sent_in (phase S c) (sent S c))"

definition count_inv :: "nat \<Rightarrow> 'm zmq_system \<Rightarrow> bool" where
  "count_inv nt S \<longleftrightarrow> server_payloads nt (m_payloads (net S)) \<and> length (threads S) = nt
     \<and> m_clients (shared (net S)) = int (card {c. greeted S c \<and> \<not> has_left S c})
     \<and> (m_client_has_connected (shared (net S)) \<longleftrightarrow> (\<exists>c. greeted S c))
     \<and> m_n_requests (net S) = int (length (work S) + size (busy (threads S)) + length (replies S))"

lemma busy_take: "t < length ts \<Longrightarrow> ts ! t = None \<Longrightarrow> busy (ts[t := Some x]) = add_mset x (busy ts)"
  by (simp add: busy_def mset_update)

lemma busy_send: "t < length ts \<Longrightarrow> ts ! t = Some x \<Longrightarrow> busy ts = add_mset x (busy (ts[t := None]))"
proof -
  assume t: "t < length ts" "ts ! t = Some x"
  obtain M where "mset ts = add_mset (Some x) M"
    using t nth_mem [of t ts] by (metis multi_member_split set_mset_mset)
  then show ?thesis
    using t by (simp add: busy_def mset_update)
qed
section \<open>Steps keep the invariant of the messages\<close>

lemma mail_inv_cong:
  assumes "unprocessed T = unprocessed S" "processed T = processed S" "phase T = phase S" "sent T = sent S"
    and "m_payloads (net T) = m_payloads (net S)"
  shows "mail_inv ser nt T = mail_inv ser nt S"
  using assms by (simp add: mail_inv_def awaits_def)

lemma awaits_finite: "mail_inv ser nt S \<Longrightarrow> finite (awaits S)"
  unfolding mail_inv_def awaits_def by (auto elim: rev_finite_subset)

lemma mail_image: "mail_inv ser nt S \<Longrightarrow> image_mset fst (unprocessed S + processed S) = mset_set (awaits S)"
  by (simp only: mail_inv_def)

lemma awaits_iff:
  assumes "mail_inv ser nt S"
  shows "c \<in># image_mset fst (unprocessed S + processed S) \<longleftrightarrow> c \<in> awaits S"
  unfolding mail_image [OF assms] by (rule finite_set_mset_mset_set [OF awaits_finite [OF assms], THEN eqset_imp_iff])

lemma mail_awaits:
  assumes "mail_inv ser nt S" "(c, s) \<in># unprocessed S + processed S"
  shows "c \<in> awaits S"
  unfolding awaits_iff [OF assms(1), symmetric] using assms(2) by (force simp del: image_mset_union)

lemma unprocessed_no_reply:
  assumes "mail_inv ser nt S" "(c, s) \<in># unprocessed S"
  shows "\<not> has_reply S c"
proof
  assume "has_reply S c"
  then have "1 \<le> count (image_mset fst (processed S)) c"
    unfolding has_reply_def by (simp only: count_greater_eq_one_iff)
  moreover obtain U where "unprocessed S = add_mset (c, s) U"
    using assms(2) by (blast dest: multi_member_split)
  then have "count (image_mset fst (unprocessed S + processed S)) c =
      Suc (count (image_mset fst U) c + count (image_mset fst (processed S)) c)" by simp
  ultimately have "2 \<le> count (image_mset fst (unprocessed S + processed S)) c" by linarith
  moreover have "count (mset_set (awaits S)) c \<le> 1"
    by (cases "finite (awaits S)"; cases "c \<in> awaits S") auto
  ultimately show False
    by (simp add: mail_image [OF assms(1)] del: image_mset_union)
qed

lemma post_simps [simp]:
  "unprocessed (post ser c p m S) = add_mset (c, ser m) (unprocessed S)"
  "processed (post ser c p m S) = processed S"
  "phase (post ser c p m S) = (phase S)(c := p)" "sent (post ser c p m S) = (sent S)(c := m)"
  "net (post ser c p m S) = net S" "threads (post ser c p m S) = threads S" "work (post ser c p m S) = work S"
  "replies (post ser c p m S) = replies S"
  by (simp_all add: post_def unprocessed_def processed_def)

lemma mail_inv_post:
  assumes inv: "mail_inv ser nt S" and c: "c \<notin> awaits S" and p: "p \<in> {Greeting, Asking, Leaving}" "sent_in p m"
  shows "mail_inv ser nt (post ser c p m S)"
proof -
  let ?T = "post ser c p m S"
  have aw: "awaits ?T = insert c (awaits S)" using p(1) by (auto simp: awaits_def)
  have ne: "x \<noteq> c" if "(x, s) \<in># unprocessed S + processed S" for x s
    using mail_awaits [OF inv that] c by auto
  have "{x. phase ?T x \<noteq> Off} \<subseteq> insert c {x. phase S x \<noteq> Off}" by auto
  moreover have "finite (insert c {x. phase S x \<noteq> Off})" using inv by (simp add: mail_inv_def)
  ultimately have "finite {x. phase ?T x \<noteq> Off}" by (rule finite_subset)
  moreover have "image_mset fst (unprocessed ?T + processed ?T) = mset_set (awaits ?T)"
    using inv c awaits_finite [OF inv] by (simp add: aw mail_inv_def)
  moreover have "\<forall>(x, s) \<in># unprocessed ?T. s = ser (sent ?T x)"
    using inv ne by (fastforce simp: mail_inv_def)
  moreover have "\<forall>(x, s) \<in># processed ?T. \<exists>t < nt. \<exists>sh r sh'.
      find_and_perform_action (int t) (m_payloads (net ?T)) (sent ?T x) sh = Inr (r, sh') \<and> s = ser r"
    using inv ne by (fastforce simp: mail_inv_def)
  moreover have "\<forall>x. sent_in (phase ?T x) (sent ?T x)"
    using inv p(2) by (simp add: mail_inv_def)
  ultimately show ?thesis by (simp add: mail_inv_def)
qed

text \<open>A client takes its reply.\<close>

lemma mail_inv_receive:
  assumes inv: "mail_inv ser nt S" and c: "c \<in> awaits S" and box: "inbox S = xs @ (c, s) # ys"
    and p: "p \<in> {Ready, Gone}"
  defines "T \<equiv> S \<lparr> phase := (phase S)(c := p), inbox := xs @ ys \<rparr>"
  shows "mail_inv ser nt T" "processed S = add_mset (c, s) (processed T)" "has_reply S c"
    "has_reply T = (has_reply S)(c := False)"
proof -
  show P: "processed S = add_mset (c, s) (processed T)"
    by (simp add: T_def processed_def box)
  then show "has_reply S c" by (simp add: has_reply_def)
  have U: "unprocessed T = unprocessed S" by (simp add: T_def unprocessed_def)
  have aw: "awaits T = awaits S - {c}" using p by (auto simp: T_def awaits_def)
  have img: "image_mset fst (unprocessed T + processed T) = mset_set (awaits T)"
  proof -
    have "add_mset c (image_mset fst (unprocessed T + processed T)) = mset_set (awaits S)"
      using inv by (simp add: mail_inv_def P U)
    also have "\<dots> = add_mset c (mset_set (awaits S - {c}))"
      using c awaits_finite [OF inv] by (simp add: mset_set.remove)
    finally show ?thesis by (simp add: aw)
  qed
  have "c \<notin># image_mset fst (unprocessed T + processed T)"
    using awaits_finite [OF inv] unfolding img aw by simp
  then show "has_reply T = (has_reply S)(c := False)"
    by (auto simp: has_reply_def fun_eq_iff P simp del: image_mset_union)
  have "{x. phase T x \<noteq> Off} \<subseteq> insert c {x. phase S x \<noteq> Off}" by (auto simp: T_def)
  moreover have "finite (insert c {x. phase S x \<noteq> Off})" using inv by (simp add: mail_inv_def)
  ultimately have "finite {x. phase T x \<noteq> Off}" by (rule finite_subset)
  moreover have "\<forall>(x, s) \<in># unprocessed T. s = ser (sent T x)"
    using inv by (simp add: mail_inv_def U) (simp add: T_def)
  moreover have "\<forall>(x, s) \<in># processed T. \<exists>t < nt. \<exists>sh r sh'.
      find_and_perform_action (int t) (m_payloads (net T)) (sent T x) sh = Inr (r, sh') \<and> s = ser r"
    using inv unfolding mail_inv_def P by (simp add: T_def)
  moreover have "\<forall>x. sent_in (phase T x) (sent T x)"
    using inv p by (auto simp: mail_inv_def T_def)
  ultimately show "mail_inv ser nt T" using img by (simp add: mail_inv_def)
qed

text \<open>A worker acts on a message; what it does to the counts is left open here.\<close>

lemma mail_inv_act:
  assumes inv: "mail_inv ser nt S" and u: "unprocessed S = add_mset (c, s) (unprocessed T)"
    and p: "processed T = add_mset (c, ser r) (processed S)"
    and same: "phase T = phase S" "sent T = sent S" "m_payloads (net T) = m_payloads (net S)"
    and r: "t < nt" "find_and_perform_action (int t) (m_payloads (net S)) (sent S c) sh = Inr (r, sh')"
  shows "mail_inv ser nt T" "has_reply T = (has_reply S)(c := True)"
proof -
  show "has_reply T = (has_reply S)(c := True)"
    by (auto simp: has_reply_def fun_eq_iff p)
  have aw: "awaits T = awaits S" by (simp add: awaits_def same)
  have "image_mset fst (unprocessed T + processed T) = mset_set (awaits T)"
    using inv by (simp add: mail_inv_def aw u p)
  moreover have "\<forall>(x, m) \<in># unprocessed T. m = ser (sent T x)"
    using inv unfolding mail_inv_def u same by simp
  moreover have "\<forall>(x, m) \<in># processed T. \<exists>t < nt. \<exists>sh r sh'.
      find_and_perform_action (int t) (m_payloads (net T)) (sent T x) sh = Inr (r, sh') \<and> m = ser r"
    using inv r unfolding mail_inv_def p same by auto
  ultimately show "mail_inv ser nt T" using inv by (simp add: mail_inv_def same)
qed
section \<open>Steps keep the counts\<close>

definition in_service :: "'m zmq_system \<Rightarrow> client set" where
  "in_service S = {c. greeted S c \<and> \<not> has_left S c}"

definition outstanding :: "'m zmq_system \<Rightarrow> int" where
  "outstanding S = int (length (work S) + size (busy (threads S)) + length (replies S))"

definition zmq_inv :: "(message \<Rightarrow> string) \<Rightarrow> nat \<Rightarrow> 'm zmq_system \<Rightarrow> bool" where
  "zmq_inv ser nt S \<longleftrightarrow> mail_inv ser nt S \<and> count_inv nt S"

lemma finite_in_service: "mail_inv ser nt S \<Longrightarrow> finite (in_service S)"
  unfolding mail_inv_def in_service_def by (auto elim!: rev_finite_subset simp: greeted_def)

lemma no_reply: "mail_inv ser nt S \<Longrightarrow> c \<notin> awaits S \<Longrightarrow> \<not> has_reply S c"
  using awaits_iff [of ser nt S c] by (auto simp: has_reply_def)

lemma count_inv_cong:
  assumes "greeted T = greeted S" "has_left T = has_left S" "shared (net T) = shared (net S)"
    and "m_payloads (net T) = m_payloads (net S)" "length (threads T) = length (threads S)"
    and "m_n_requests (net T) - outstanding T = m_n_requests (net S) - outstanding S"
  shows "count_inv nt T = count_inv nt S"
  using assms by (simp add: count_inv_def outstanding_def) auto

lemma standing_post:
  assumes inv: "mail_inv ser nt S" and p: "(phase S c, p) \<in> {(Off, Greeting), (Ready, Asking), (Ready, Leaving)}"
  shows "greeted (post ser c p m S) = greeted S" "has_left (post ser c p m S) = has_left S"
proof -
  have "c \<notin> awaits S" using p by (auto simp: awaits_def)
  then have "\<not> has_reply S c" by (rule no_reply [OF inv])
  moreover have "has_reply (post ser c p m S) = has_reply S" by (simp add: has_reply_def fun_eq_iff)
  ultimately show "greeted (post ser c p m S) = greeted S" "has_left (post ser c p m S) = has_left S"
    using p by (auto simp: greeted_def has_left_def fun_eq_iff)
qed

lemma zmq_inv_post:
  assumes inv: "zmq_inv ser nt S" and p: "(phase S c, p) \<in> {(Off, Greeting), (Ready, Asking), (Ready, Leaving)}"
    and m: "sent_in p m"
  shows "zmq_inv ser nt (post ser c p m S)"
proof -
  have i: "mail_inv ser nt S" "count_inv nt S" using inv by (simp_all add: zmq_inv_def)
  have "mail_inv ser nt (post ser c p m S)"
    using p m by (intro mail_inv_post [OF i(1)]) (auto simp: awaits_def)
  moreover have "count_inv nt (post ser c p m S) = count_inv nt S"
    by (rule count_inv_cong) (simp_all add: standing_post [OF i(1) p] outstanding_def)
  ultimately show ?thesis using i(2) by (simp add: zmq_inv_def)
qed

lemma zmq_inv_receive:
  assumes inv: "zmq_inv ser nt S" and box: "inbox S = xs @ (c, s) # ys"
    and p: "(phase S c, p) \<in> {(Greeting, Ready), (Asking, Ready), (Leaving, Gone)}"
  shows "zmq_inv ser nt (S \<lparr> phase := (phase S)(c := p), inbox := xs @ ys \<rparr>)"
proof -
  let ?T = "S \<lparr> phase := (phase S)(c := p), inbox := xs @ ys \<rparr>"
  have i: "mail_inv ser nt S" "count_inv nt S" using inv by (simp_all add: zmq_inv_def)
  have c: "c \<in> awaits S" "p \<in> {Ready, Gone}" using p by (auto simp: awaits_def)
  note R = mail_inv_receive [OF i(1) c(1) box c(2)]
  have "greeted ?T = greeted S" "has_left ?T = has_left S"
    using p R(3,4) by (auto simp: greeted_def has_left_def fun_eq_iff)
  then have "count_inv nt ?T = count_inv nt S"
    by (intro count_inv_cong) (simp_all add: outstanding_def)
  with R(1) i(2) show ?thesis by (simp add: zmq_inv_def)
qed

text \<open>Steps that move messages without acting on them.\<close>

lemma zmq_inv_move:
  assumes inv: "zmq_inv ser nt S" and "unprocessed T = unprocessed S" "processed T = processed S"
    and "phase T = phase S" "sent T = sent S" "shared (net T) = shared (net S)"
    and "m_payloads (net T) = m_payloads (net S)" "length (threads T) = length (threads S)"
    and "m_n_requests (net T) - outstanding T = m_n_requests (net S) - outstanding S"
  shows "zmq_inv ser nt T"
proof -
  have "has_reply T = has_reply S" using assms(3) by (simp add: has_reply_def fun_eq_iff)
  then have "greeted T = greeted S" "has_left T = has_left S"
    using assms(4) by (simp_all add: greeted_def has_left_def fun_eq_iff)
  then have "count_inv nt T = count_inv nt S"
    using assms by (intro count_inv_cong) simp_all
  moreover have "mail_inv ser nt T = mail_inv ser nt S"
    using assms by (intro mail_inv_cong) simp_all
  ultimately show ?thesis using inv by (simp add: zmq_inv_def)
qed
section \<open>A worker acts\<close>

lemma mail_not_empty:
  assumes "mail_inv ser nt S" "serialises ser des" "x \<in># unprocessed S + processed S"
  shows "snd x \<noteq> ''''"
proof -
  have "\<exists>m. snd x = ser m" using assms(1,3) unfolding mail_inv_def by fastforce
  with assms(2) show ?thesis by (metis serialises_def)
qed

lemma in_service_act:
  assumes "has_reply T = (has_reply S)(c := True)" "phase T = phase S" "\<not> has_reply S c" "phase S c \<noteq> Off"
  shows "(\<exists>x. greeted T x)"
    and "phase S c = Greeting \<Longrightarrow> in_service T = insert c (in_service S) \<and> c \<notin> in_service S"
    and "phase S c = Leaving \<Longrightarrow> in_service T = in_service S - {c} \<and> c \<in> in_service S \<and> greeted S c"
    and "phase S c = Asking \<Longrightarrow> in_service T = in_service S \<and> greeted S c"
  using assms by (auto simp: in_service_def greeted_def has_left_def intro: exI [of _ c])

text \<open>
  Given the invariant, the payload of the server is found for a greeting and for a notice of
  leaving, and the count it changes is that of the clients in service.
\<close>

lemma act_shared:
  assumes inv: "zmq_inv ser nt S" and t: "t < nt" and c: "c \<in> awaits S" "\<not> has_reply S c"
    and T: "has_reply T = (has_reply S)(c := True)" "phase T = phase S"
    and r: "find_and_perform_action (int t) (m_payloads (net S)) (sent S c) (shared (net S)) = Inr (r, sh)"
  shows "m_clients sh = int (card (in_service T))" "m_client_has_connected sh"
proof -
  have i: "mail_inv ser nt S" "count_inv nt S" using inv by (simp_all add: zmq_inv_def)
  have pm: "server_payloads nt (m_payloads (net S))"
    and n: "m_clients (shared (net S)) = int (card (in_service S))"
    and h: "m_client_has_connected (shared (net S)) \<longleftrightarrow> (\<exists>x. greeted S x)"
    using i(2) by (simp_all add: count_inv_def in_service_def)
  have m: "sent_in (phase S c) (sent S c)" using i(1) by (simp add: mail_inv_def)
  have on: "phase S c \<noteq> Off" using c(1) by (auto simp: awaits_def)
  note A = in_service_act [OF T c(2) on]
  note fin = finite_in_service [OF i(1)]
  consider "phase S c = Greeting" | "phase S c = Leaving" | "phase S c = Asking"
    using c(1) by (auto simp: awaits_def)
  then have "m_clients sh = int (card (in_service T)) \<and> m_client_has_connected sh"
  proof cases
    case 1
    with m act_hello [OF pm t, of "sent S c" "shared (net S)"] r n A(2) fin show ?thesis by auto
  next
    case 2
    then have s: "in_service T = in_service S - {c}" "c \<in> in_service S" "greeted S c" using A(3) by auto
    then have "1 \<le> m_clients (shared (net S))" using n fin by (auto simp: card_gt_0_iff Suc_le_eq)
    with m 2 act_quit [OF pm t, of "sent S c" "shared (net S)"] r
    have "sh = shared (net S) \<lparr> m_clients := m_clients (shared (net S)) - 1 \<rparr>" by auto
    moreover have "int (card (in_service S - {c})) = int (card (in_service S)) - 1"
      using s(2) fin card_gt_0_iff [of "in_service S"] by (auto simp: of_nat_diff)
    ultimately show ?thesis using n h s by auto
  next
    case 3
    with m act_other [OF pm _ r] n h A(4) show ?thesis by auto
  qed
  then show "m_clients sh = int (card (in_service T))" "m_client_has_connected sh" by simp_all
qed

lemma zmq_inv_act:
  assumes inv: "zmq_inv ser nt S" and ser: "serialises ser des"
    and t: "t < length (threads S)" "threads S ! t = None" and w: "work S = xs @ (c, strmsg) # ys"
    and r: "doWork ser des (m_payloads (net S)) t strmsg (shared (net S)) = Inr (r, sh)"
  shows "zmq_inv ser nt (S \<lparr> work := xs @ ys, threads := (threads S)[t := Some (c, r)], net := (net S) \<lparr> shared := sh \<rparr> \<rparr>)"
proof -
  let ?T = "S \<lparr> work := xs @ ys, threads := (threads S)[t := Some (c, r)], net := (net S) \<lparr> shared := sh \<rparr> \<rparr>"
  have i: "mail_inv ser nt S" "count_inv nt S" using inv by (simp_all add: zmq_inv_def)
  have nt: "t < nt" using i(2) t(1) by (simp add: count_inv_def)
  have u: "unprocessed S = add_mset (c, strmsg) (unprocessed ?T)"
    by (simp add: unprocessed_def w)
  then have mem: "(c, strmsg) \<in># unprocessed S" by simp
  then have "strmsg = ser (sent S c)" using i(1) by (auto simp: mail_inv_def)
  then obtain m where m: "r = ser m"
    and f: "find_and_perform_action (int t) (m_payloads (net S)) (sent S c) (shared (net S)) = Inr (m, sh)"
    using r ser by (auto simp: doWork_def bind_simps serialises_def)
  have p: "processed ?T = add_mset (c, ser m) (processed S)"
    by (simp add: processed_def busy_take [OF t] m)
  note M = mail_inv_act [OF i(1) u p _ _ _ nt f]
  have "\<not> has_reply S c" "c \<in> awaits S"
    using unprocessed_no_reply [OF i(1) mem] mail_awaits [OF i(1)] mem by auto
  then have "m_clients sh = int (card (in_service ?T))" "m_client_has_connected sh" "\<exists>x. greeted ?T x"
    using act_shared [OF inv nt _ _ M(2) _ f] in_service_act(1) [OF M(2)] by (auto simp: awaits_def)
  then have "count_inv nt ?T"
    using i(2) by (simp add: count_inv_def in_service_def w busy_take [OF t])
  with M(1) show ?thesis by (simp add: zmq_inv_def)
qed

lemma zmq_step_inv:
  assumes "zmq_step ser des S T" "zmq_inv ser nt S" "serialises ser des"
  shows "zmq_inv ser nt T"
  using assms
proof (cases rule: zmq_step.cases)
  case (route_back f s n ms rest)
  have "\<forall>x \<in> set (replies S). snd x \<noteq> ''''"
    using mail_not_empty [of ser nt S des] assms(2,3) by (auto simp: zmq_inv_def processed_def)
  with routed_messages [OF route_back(3)] have "replies S = ms @ rest" "n = int (length ms)" by auto
  then show ?thesis unfolding route_back(1)
    by (intro zmq_inv_move [OF assms(2)]) (simp_all add: unprocessed_def processed_def outstanding_def)
next
  case (route_front s n ms rest)
  have "\<forall>x \<in> set (requests S). snd x \<noteq> ''''"
    using mail_not_empty [of ser nt S des] assms(2,3) by (auto simp: zmq_inv_def unprocessed_def)
  with routed_messages [OF route_front(3)] have "requests S = ms @ rest" "n = int (length ms)" by auto
  then show ?thesis unfolding route_front(1)
    by (intro zmq_inv_move [OF assms(2)]) (simp_all add: unprocessed_def processed_def outstanding_def)
next
  case (act t xs c strmsg ys r sh)
  with zmq_inv_act [OF assms(2,3)] show ?thesis by simp
next
  case (reply t x)
  with busy_send [OF reply(2,3)] show ?thesis unfolding reply(1)
    by (intro zmq_inv_move [OF assms(2)]) (simp_all add: unprocessed_def processed_def outstanding_def)
next
  case (check z pc)
  then show ?thesis unfolding check(1)
    by (intro zmq_inv_move [OF assms(2)]) (auto simp: unprocessed_def processed_def outstanding_def check_stop_def split: if_splits)
next
  case (poll r z pc)
  then show ?thesis unfolding poll(1)
    by (intro zmq_inv_move [OF assms(2)]; cases r) (auto simp: unprocessed_def processed_def outstanding_def)
next
  case (stop s)
  then show ?thesis unfolding stop(1)
    by (intro zmq_inv_move [OF assms(2)]) (auto simp: unprocessed_def processed_def outstanding_def)
qed (auto intro!: zmq_inv_post zmq_inv_receive)

lemma zmq_reach_inv:
  assumes "zmq_reach ser des nt S" "serialises ser des"
  shows "zmq_inv ser nt S"
  using assms
proof (induction rule: zmq_reach.induct)
  case (start ps max_msg autoshutdown time_ms m z)
  from start_net_payloads [OF start(1)] show ?case
    by (simp add: zmq_inv_def mail_inv_def count_inv_def unprocessed_def processed_def awaits_def busy_def
        greeted_def has_reply_def)
next
  case (step S T)
  then show ?case by (blast intro: zmq_step_inv)
qed
section \<open>A round of the server\<close>

text \<open>
  A server with an idle worker serves a single request in a round of the router, a worker's
  turn and a second round.
\<close>

lemma serve_one:
  assumes S: "zmq_reach ser des 1 S" "serialises ser des" "router S = AtCheck" "requests S = [(c, ser m)]" "work S = []"
    "threads S = [None]" "replies S = []" "m_n_requests (net S) = 0" "1 \<le> m_max_pollcyc_msg (net S)"
    and go: "\<not> stop_condition (net S)"
    and f: "find_and_perform_action 0 (m_payloads (net S)) m (shared (net S)) = Inr (r, sh)"
  shows "zmq_reach ser des 1 (S \<lparr> requests := [], inbox := inbox S @ [(c, ser r)], net := (net S) \<lparr> shared := sh \<rparr> \<rparr>)"
proof -
  note step = zmq_reach.step
  have k: "nat (m_max_pollcyc_msg (net S)) \<ge> 1" using S(9) by simp
  then have rs: "recvAndSend (m_max_pollcyc_msg (net S)) 0 (frames [(c, s)]) = (1, frames [(c, s)], frames [])"
    if "s \<noteq> ''''" for s
    using recvAndSend_frames [of "[(c, s)]" "m_max_pollcyc_msg (net S)" 0] that by (simp add: min_def)
  have ne: "ser x \<noteq> ''''" "des (ser x) = Inr x" for x using S(2) by (simp_all add: serialises_def)
  let ?z = "(net S) \<lparr> m_n_requests := 1 \<rparr>"
  define S1 where "S1 = S \<lparr> router := AtPoll \<rparr>"
  have 1: "zmq_reach ser des 1 S1" unfolding S1_def
    by (rule step [OF S(1)]) (use zmq_step.check [of S "net S" AtPoll ser des] S(3) go in \<open>simp add: check_stop_def\<close>)
  define S2 where "S2 = S1 \<lparr> router := RouteFront False \<rparr>"
  have 2: "zmq_reach ser des 1 S2" unfolding S2_def
    by (rule step [OF 1]) (use zmq_step.poll [of S1 "PollEvents True False False" "net S1" "RouteFront False" ser des] S(4,7) in
        \<open>simp add: S1_def\<close>)
  define S3 where "S3 = S2 \<lparr> requests := [], work := [(c, ser m)], net := ?z, router := AtStop False \<rparr>"
  have 3: "zmq_reach ser des 1 S3" unfolding S3_def
    by (rule step [OF 2]) (use zmq_step.route_front [of S2 False 1 "[(c, ser m)]" "[]" ser des] S(4,5,8) rs [of "ser m"] ne in
        \<open>simp add: S2_def S1_def\<close>)
  define S4 where "S4 = S3 \<lparr> router := AtCheck \<rparr>"
  have 4: "zmq_reach ser des 1 S4" unfolding S4_def
    by (rule step [OF 3]) (use zmq_step.stop [of S3 False ser des] in \<open>simp add: S3_def\<close>)
  define S5 where "S5 = S4 \<lparr> work := [], threads := [Some (c, ser r)], net := ?z \<lparr> shared := sh \<rparr> \<rparr>"
  have w: "doWork ser des (m_payloads (net S)) 0 (ser m) (shared (net S)) = Inr (ser r, sh)"
    using f ne by (simp add: doWork_def)
  have 5: "zmq_reach ser des 1 S5" unfolding S5_def
    by (rule step [OF 4]) (use zmq_step.act [of 0 S4 "[]" c "ser m" "[]" ser des "ser r" sh] w S(6) in
        \<open>simp add: S4_def S3_def S2_def S1_def\<close>)
  define S6 where "S6 = S5 \<lparr> threads := [None], replies := [(c, ser r)] \<rparr>"
  have 6: "zmq_reach ser des 1 S6" unfolding S6_def
    by (rule step [OF 5]) (use zmq_step.reply [of 0 S5 "(c, ser r)" ser des] S(7) in
        \<open>simp add: S5_def S4_def S3_def S2_def S1_def\<close>)
  note defs = S6_def S5_def S4_def S3_def S2_def S1_def
  define S7 where "S7 = S6 \<lparr> net := net S6, router := AtPoll \<rparr>"
  have 7: "zmq_reach ser des 1 S7" unfolding S7_def
    by (rule step [OF 6], rule zmq_step.check) (simp_all add: check_stop_def stop_condition_def defs)
  define S8 where "S8 = S7 \<lparr> net := net S7, router := RouteBack False False \<rparr>"
  have 8: "zmq_reach ser des 1 S8" unfolding S8_def
    by (rule step [OF 7], rule zmq_step.poll [where r = "PollEvents False True False"]) (simp_all add: S7_def defs)
  define S9 where "S9 = S8 \<lparr> replies := [], inbox := inbox S8 @ [(c, ser r)],
    net := (net S8) \<lparr> m_n_requests := m_n_requests (net S8) - 1 \<rparr>, router := (if False then RouteFront False else AtStop False) \<rparr>"
  have q: "m_max_pollcyc_msg (net S8) = m_max_pollcyc_msg (net S)" "replies S8 = [(c, ser r)]" "router S8 = RouteBack False False"
    by (simp_all add: S8_def S7_def defs)
  have 9: "zmq_reach ser des 1 S9" unfolding S9_def
    by (rule step [OF 8], rule zmq_step.route_back [OF q(3)]) (use rs [OF ne(1)] in \<open>simp only: q(1,2)\<close>)
  have "zmq_reach ser des 1 (S9 \<lparr> router := AtCheck \<rparr>)"
    by (rule step [OF 9]) (use zmq_step.stop [of S9 False ser des] in \<open>simp add: S9_def\<close>)
  moreover have "S9 \<lparr> router := AtCheck \<rparr> = S \<lparr> requests := [], inbox := inbox S @ [(c, ser r)], net := (net S) \<lparr> shared := sh \<rparr> \<rparr>"
    using S by (intro zmq_system.equality) (simp_all add: S9_def S8_def S7_def defs)
  ultimately show ?thesis by simp
qed
definition quiet :: "'m zmq_system \<Rightarrow> bool" where
  "quiet S \<longleftrightarrow> router S = AtCheck \<and> requests S = [] \<and> work S = [] \<and> threads S = [None] \<and> replies S = []
     \<and> m_n_requests (net S) = 0 \<and> 1 \<le> m_max_pollcyc_msg (net S)"

lemma serve_posted:
  assumes S: "zmq_reach ser des 1 S" "serialises ser des" "quiet S" and post: "zmq_step ser des S (post ser c p m S)"
    and go: "\<not> stop_condition (net S)"
    and f: "find_and_perform_action 0 (m_payloads (net S)) m (shared (net S)) = Inr (r, sh)"
  shows "\<exists>T. zmq_reach ser des 1 T \<and> quiet T \<and> phase T = (phase S)(c := p) \<and> sent T = (sent S)(c := m)
    \<and> inbox T = inbox S @ [(c, ser r)] \<and> net T = (net S) \<lparr> shared := sh \<rparr>"
proof -
  let ?S = "post ser c p m S"
  have "zmq_reach ser des 1 (?S \<lparr> requests := [], inbox := inbox ?S @ [(c, ser r)], net := (net ?S) \<lparr> shared := sh \<rparr> \<rparr>)"
    using S(3) go f by (intro serve_one [OF zmq_reach.step [OF S(1) post] S(2)]) (simp_all add: quiet_def post_def)
  then show ?thesis
    using S(3) by (intro exI) (auto simp: quiet_def post_def)
qed

text \<open>A server without payloads of a module that one client greets and leaves.\<close>

lemma start_single:
  "\<exists>S :: unit zmq_system. zmq_reach write_message read_message 1 S \<and> quiet S \<and> phase S = (\<lambda>_. Off) \<and> inbox S = []
     \<and> m_autoshutdown (net S) \<and> shared (net S) = \<lparr> m_clients = 0, m_client_has_connected = False,
         m_remote_stop_cmd = False, module_state = () \<rparr>"
proof -
  obtain z :: "unit zmq_net" where z: "start_net 1 [] 10 True (-1) () = Inr z" "m_max_pollcyc_msg z = 10" "m_autoshutdown z"
    by (simp add: start_net_def zmq_init_def message_types_def list_payloads_def setTimeOut_def setAutoShutdown_def
        setMaxMsgPerPollCycle_def new_ZMQNet_def start_run_def)
  show ?thesis
    by (rule exI, rule conjI, rule zmq_reach.start [OF z(1)]) (simp add: quiet_def z start_net_payloads [OF z(1)])
qed

lemma greet_single:
  "\<exists>S :: unit zmq_system. zmq_reach write_message read_message 1 S \<and> quiet S \<and> phase S = (\<lambda>_. Off)(''a'' := Greeting)
     \<and> sent S ''a'' = hello_message 0 0 \<and> (\<exists>r. inbox S = [(''a'', write_message r)] \<and> m_buf r = ''Hello!I am NET!'')
     \<and> m_autoshutdown (net S) \<and> m_clients (shared (net S)) = 1"
proof -
  obtain S :: "unit zmq_system" where S: "zmq_reach write_message read_message 1 S" "quiet S" "phase S = (\<lambda>_. Off)"
    "inbox S = []" "m_autoshutdown (net S)" "shared (net S) = \<lparr> m_clients = 0, m_client_has_connected = False,
         m_remote_stop_cmd = False, module_state = () \<rparr>"
    using start_single by blast
  have "server_payloads 1 (m_payloads (net S))"
    using zmq_reach_inv [OF S(1) read_write_message] by (simp add: zmq_inv_def count_inv_def)
  from act_hello [OF this, of 0 "hello_message 0 0" "shared (net S)"]
  obtain r where f: "find_and_perform_action 0 (m_payloads (net S)) (hello_message 0 0) (shared (net S)) =
      Inr (r, shared (net S) \<lparr> m_clients := m_clients (shared (net S)) + 1, m_client_has_connected := True \<rparr>)"
    and r: "m_buf r = ''Hello!I am NET!''" by auto
  from serve_posted [where c = "''a''", OF S(1) read_write_message S(2) zmq_step.connect _ f] S(3,6)
  obtain T where "zmq_reach write_message read_message 1 T" "quiet T" "phase T = (phase S)(''a'' := Greeting)"
    "sent T = (sent S)(''a'' := hello_message 0 0)" "inbox T = inbox S @ [(''a'', write_message r)]"
    "net T = (net S) \<lparr> shared := shared (net S) \<lparr> m_clients := m_clients (shared (net S)) + 1, m_client_has_connected := True \<rparr> \<rparr>"
    by (auto simp: stop_condition_def)
  then show ?thesis using S r by (intro exI [of _ T]) auto
qed

lemma leave_single:
  "\<exists>S :: unit zmq_system. zmq_reach write_message read_message 1 S \<and> router S = AtCheck \<and> snd (check_stop (net S)) = Ended"
proof -
  obtain S :: "unit zmq_system" and r where S: "zmq_reach write_message read_message 1 S" "quiet S"
    "phase S = (\<lambda>_. Off)(''a'' := Greeting)" "inbox S = [] @ (''a'', write_message r) # []"
    "m_buf r = ''Hello!I am NET!''" "m_autoshutdown (net S)" "m_clients (shared (net S)) = 1"
    using greet_single by auto
  let ?R = "S \<lparr> phase := (phase S)(''a'' := Ready), inbox := [] @ [] \<rparr>"
  have R: "zmq_reach write_message read_message 1 ?R"
    using read_write_message S(3,5)
    by (intro zmq_reach.step [OF S(1)] zmq_step.connected [OF _ S(4)]) (simp_all add: serialises_def)
  have q: "quiet ?R" using S(2) by (simp add: quiet_def)
  have "server_payloads 1 (m_payloads (net ?R))"
    using zmq_reach_inv [OF R read_write_message] by (simp add: zmq_inv_def count_inv_def)
  from act_quit [OF this, of 0 quit_message "shared (net ?R)"] S(7)
  obtain a where "find_and_perform_action 0 (m_payloads (net ?R)) quit_message (shared (net ?R)) =
      Inr (a, shared (net ?R) \<lparr> m_clients := m_clients (shared (net ?R)) - 1 \<rparr>)" by auto
  from serve_posted [where c = "''a''", OF R read_write_message q zmq_step.disconnect _ this] S(7)
  obtain T where T: "zmq_reach write_message read_message 1 T" "quiet T" "phase T = (phase ?R)(''a'' := Leaving)"
    "net T = (net ?R) \<lparr> shared := shared (net ?R) \<lparr> m_clients := m_clients (shared (net ?R)) - 1 \<rparr> \<rparr>"
    by (auto simp: stop_condition_def)
  have "m_client_has_connected (shared (net T))"
    using zmq_reach_inv [OF T(1) read_write_message] T(3) by (auto simp: zmq_inv_def count_inv_def greeted_def intro!: exI [of _ "''a''"])
  then show ?thesis
    using T S by (intro exI [of _ T]) (auto simp: quiet_def check_stop_def stop_condition_def)
qed

section \<open>Results\<close>

lemma busy_empty: "busy ts = {#} \<longleftrightarrow> (\<forall>x \<in> set ts. x = None)"
  by (auto simp: busy_def filter_mset_eq_conv)

text \<open>
  C23. The router ends its loop by itself exactly when that is allowed, some client has been
  greeted, every client that was greeted has announced that it leaves and was answered, and
  no request is waiting for a worker, with a worker or on its way back.
\<close>

theorem server_stops_exactly_when_drained:
  assumes "zmq_reach ser des nt S" "serialises ser des"
  shows "snd (check_stop (net S)) = Ended \<longleftrightarrow>
    (m_autoshutdown (net S) \<or> m_remote_stop_cmd (shared (net S))) \<and> (\<exists>c. greeted S c) \<and> (\<forall>c. greeted S c \<longrightarrow> has_left S c)
    \<and> work S = [] \<and> replies S = [] \<and> (\<forall>x \<in> set (threads S). x = None)"
proof -
  have inv: "mail_inv ser nt S" "count_inv nt S"
    using zmq_reach_inv [OF assms] by (simp_all add: zmq_inv_def)
  have "m_clients (shared (net S)) = 0 \<longleftrightarrow> in_service S = {}"
    using inv(2) finite_in_service [OF inv(1)] by (simp add: count_inv_def flip: in_service_def)
  moreover have "m_n_requests (net S) = 0 \<longleftrightarrow> work S = [] \<and> busy (threads S) = {#} \<and> replies S = []"
  proof -
    have "m_n_requests (net S) = int (length (work S) + size (busy (threads S)) + length (replies S))"
      using inv(2) by (simp add: count_inv_def)
    then have "m_n_requests (net S) = 0 \<longleftrightarrow> length (work S) + size (busy (threads S)) + length (replies S) = 0"
      by (simp only: of_nat_eq_0_iff)
    then show ?thesis by simp
  qed
  ultimately show ?thesis
    using inv(2) unfolding check_stop_def stop_condition_def
    by (auto simp: count_inv_def busy_empty in_service_def)
qed

theorem server_stops_exactly_when_drained_witness:
  "\<exists>S :: unit zmq_system. zmq_reach write_message read_message 1 S \<and> router S = AtCheck
     \<and> snd (check_stop (net S)) = Ended \<and> (\<exists>c. greeted S c \<and> has_left S c) \<and> work S = [] \<and> replies S = []"
proof -
  obtain S :: "unit zmq_system" where S: "zmq_reach write_message read_message 1 S" "router S = AtCheck"
    "snd (check_stop (net S)) = Ended" using leave_single by blast
  with server_stops_exactly_when_drained [OF S(1) read_write_message] show ?thesis by auto
qed

text \<open>
  C24. A reply that reaches a client is the result of acting on the message that client sent
  last and waits for; a client that greets is given the answer it accepts, and no client is
  sent two replies.
\<close>

theorem replies_reach_their_clients:
  assumes "zmq_reach ser des nt S" "serialises ser des" "(c, strmsg) \<in> set (inbox S)"
  shows "phase S c \<in> {Greeting, Asking, Leaving}
    \<and> (\<exists>t < nt. \<exists>sh r sh'. find_and_perform_action (int t) (m_payloads (net S)) (sent S c) sh = Inr (r, sh')
         \<and> des strmsg = Inr r \<and> (phase S c = Greeting \<longrightarrow> m_buf r = ''Hello!I am NET!''))
    \<and> distinct (map fst (inbox S))"
proof -
  have inv: "mail_inv ser nt S" "count_inv nt S"
    using zmq_reach_inv [OF assms(1,2)] by (simp_all add: zmq_inv_def)
  have mem: "(c, strmsg) \<in># processed S" using assms(3) by (simp add: processed_def)
  then have ph: "c \<in> awaits S" by (intro mail_awaits [OF inv(1)]) auto
  from mem inv(1) obtain t sh r sh' where t: "t < nt" "strmsg = ser r"
    and f: "find_and_perform_action (int t) (m_payloads (net S)) (sent S c) sh = Inr (r, sh')"
    unfolding mail_inv_def by fastforce
  have "m_buf r = ''Hello!I am NET!''" if g: "phase S c = Greeting"
  proof -
    have "sent_in (phase S c) (sent S c)" using inv(1) by (simp add: mail_inv_def)
    with act_hello [of nt "m_payloads (net S)" t "sent S c" sh] f t(1) inv(2) g show ?thesis
      by (auto simp: count_inv_def)
  qed
  moreover have "des strmsg = Inr r" using t(2) assms(2) by (simp add: serialises_def)
  moreover have "distinct (map fst (inbox S))"
  proof -
    have "mset_set (awaits S) = mset (map fst (inbox S)) + image_mset fst (unprocessed S + busy (threads S) + mset (replies S))"
      unfolding mail_image [OF inv(1), symmetric] by (simp add: processed_def ac_simps)
    moreover have "count (mset_set (awaits S)) x \<le> 1" for x
      by (cases "finite (awaits S)"; cases "x \<in> awaits S") auto
    ultimately have "count (mset (map fst (inbox S))) x \<le> 1" for x
      by (metis add_leD1 count_union)
    then show ?thesis
      unfolding distinct_count_atmost_1 by (metis count_eq_zero_iff le_antisym less_one not_le set_mset_mset)
  qed
  ultimately show ?thesis using ph t(1) f by (auto simp: awaits_def)
qed

theorem replies_reach_their_clients_witness:
  "\<exists>S :: unit zmq_system. zmq_reach write_message read_message 1 S \<and> (\<exists>strmsg r. inbox S = [(''a'', strmsg)]
     \<and> phase S ''a'' = Greeting \<and> read_message strmsg = Inr r \<and> m_buf r = ''Hello!I am NET!'')"
proof -
  obtain S :: "unit zmq_system" and strmsg where S: "zmq_reach write_message read_message 1 S"
    "inbox S = [(''a'', strmsg)]" "phase S ''a'' = Greeting" using greet_single by auto
  with replies_reach_their_clients [OF S(1) read_write_message, of "''a''" strmsg] show ?thesis by auto
qed

text \<open>
  C27. A worker never fails on a greeting or on the notice of a client that it leaves; in
  particular the number of clients never falls below zero.
\<close>

theorem server_payloads_never_fail:
  assumes "zmq_reach ser des nt S" "serialises ser des" "(c, strmsg) \<in> set (work S)" "t < nt"
    and "phase S c \<in> {Greeting, Leaving}"
  shows "\<exists>r sh. doWork ser des (m_payloads (net S)) t strmsg (shared (net S)) = Inr (r, sh) \<and> 0 \<le> m_clients sh"
proof -
  have inv: "mail_inv ser nt S" "count_inv nt S"
    using zmq_reach_inv [OF assms(1,2)] by (simp_all add: zmq_inv_def)
  have mem: "(c, strmsg) \<in># unprocessed S" using assms(3) by (simp add: unprocessed_def)
  have pm: "server_payloads nt (m_payloads (net S))"
    and n: "m_clients (shared (net S)) = int (card (in_service S))"
    using inv(2) by (simp_all add: count_inv_def in_service_def)
  have m: "strmsg = ser (sent S c)" "sent_in (phase S c) (sent S c)" using inv(1) mem by (auto simp: mail_inv_def)
  then have d: "des strmsg = Inr (sent S c)" using assms(2) by (simp add: serialises_def)
  have "\<exists>r sh. find_and_perform_action (int t) (m_payloads (net S)) (sent S c) (shared (net S)) = Inr (r, sh) \<and> 0 \<le> m_clients sh"
  proof (cases "phase S c = Greeting")
    case True
    with m act_hello [OF pm assms(4), of "sent S c" "shared (net S)"] n show ?thesis by auto
  next
    case False
    then have l: "phase S c = Leaving" using assms(5) by simp
    then have "c \<in> in_service S"
      using unprocessed_no_reply [OF inv(1) mem] by (simp add: in_service_def greeted_def has_left_def)
    then have "1 \<le> m_clients (shared (net S))"
      using n finite_in_service [OF inv(1)] by (auto simp: card_gt_0_iff Suc_le_eq)
    with m l act_quit [OF pm assms(4), of "sent S c" "shared (net S)"] show ?thesis by auto
  qed
  with d show ?thesis by (auto simp: doWork_def)
qed
lemma greeting_at_work:
  "\<exists>S :: unit zmq_system. zmq_reach write_message read_message 1 S \<and> phase S ''a'' = Greeting
     \<and> work S = [(''a'', write_message (hello_message 0 0))]"
proof -
  obtain S0 :: "unit zmq_system" where S0: "zmq_reach write_message read_message 1 S0" "quiet S0" "phase S0 = (\<lambda>_. Off)"
    "shared (net S0) = \<lparr> m_clients = 0, m_client_has_connected = False, m_remote_stop_cmd = False, module_state = () \<rparr>"
    using start_single by blast
  note step = zmq_reach.step
  define S1 where "S1 = post write_message ''a'' Greeting (hello_message 0 0) S0"
  have 1: "zmq_reach write_message read_message 1 S1" unfolding S1_def
    by (rule step [OF S0(1)], rule zmq_step.connect) (simp add: S0)
  have s1: "router S1 = AtCheck" "net S1 = net S0" "requests S1 = [(''a'', write_message (hello_message 0 0))]"
    "replies S1 = []" "work S1 = []" "phase S1 ''a'' = Greeting" "1 \<le> m_max_pollcyc_msg (net S1)"
    using S0(2) by (simp_all add: S1_def quiet_def post_def)
  define S2 where "S2 = S1 \<lparr> net := net S1, router := AtPoll \<rparr>"
  have 2: "zmq_reach write_message read_message 1 S2" unfolding S2_def
    by (rule step [OF 1], rule zmq_step.check) (simp_all add: s1 S0(4) check_stop_def stop_condition_def)
  define S3 where "S3 = S2 \<lparr> net := net S2, router := RouteFront False \<rparr>"
  have 3: "zmq_reach write_message read_message 1 S3" unfolding S3_def
    by (rule step [OF 2], rule zmq_step.poll [where r = "PollEvents True False False"]) (simp_all add: S2_def s1)
  have q: "router S3 = RouteFront False" "m_max_pollcyc_msg (net S3) = m_max_pollcyc_msg (net S1)"
    "requests S3 = [(''a'', write_message (hello_message 0 0))]"
    by (simp_all add: S3_def S2_def s1)
  define S4 where "S4 = S3 \<lparr> requests := [], work := work S3 @ [(''a'', write_message (hello_message 0 0))],
    net := (net S3) \<lparr> m_n_requests := m_n_requests (net S3) + 1 \<rparr>, router := AtStop False \<rparr>"
  have "recvAndSend (m_max_pollcyc_msg (net S1)) 0 (frames [(''a'', write_message (hello_message 0 0))]) =
      (1, frames [(''a'', write_message (hello_message 0 0))], frames [])"
    using recvAndSend_frames [of "[(''a'', write_message (hello_message 0 0))]" "m_max_pollcyc_msg (net S1)" 0]
      s1(7) read_write_message by (simp add: serialises_def min_def)
  then have 4: "zmq_reach write_message read_message 1 S4" unfolding S4_def
    by (intro step [OF 3], intro zmq_step.route_front [OF q(1)]) (simp only: q(2,3))
  have "phase S4 ''a'' = Greeting" "work S4 = [(''a'', write_message (hello_message 0 0))]"
    by (simp_all add: S4_def S3_def S2_def s1)
  with 4 show ?thesis by blast
qed

theorem server_payloads_never_fail_witness:
  "\<exists>S :: unit zmq_system. zmq_reach write_message read_message 1 S
     \<and> (\<exists>r sh. doWork write_message read_message (m_payloads (net S)) 0 (write_message (hello_message 0 0)) (shared (net S)) = Inr (r, sh))"
proof -
  obtain S :: "unit zmq_system" where S: "zmq_reach write_message read_message 1 S" "phase S ''a'' = Greeting"
    "work S = [(''a'', write_message (hello_message 0 0))]" using greeting_at_work by blast
  with server_payloads_never_fail [OF S(1) read_write_message, of "''a''" _ 0] show ?thesis by auto
qed

text \<open>
  A server that has stopped by itself and is run again stops before it polls: \<open>run\<close> does not
  forget that clients have been connected.
\<close>

lemma second_run_stops_at_once:
  assumes "m_autoshutdown z" "m_client_has_connected (shared z)" "m_clients (shared z) = 0"
  shows "snd (check_stop (start_run z)) = Ended" "m_status (fst (check_stop (start_run z))) = StoppedAutomatically"
  using assms by (simp_all add: check_stop_def stop_condition_def start_run_def)

end
