(* ===== verification/ThreadClient.thy ===== *)
theory ThreadClient
  imports NetClient
begin

text \<open>
  The client with a worker thread, \<open>ADThreadNetClient\<close> (\<open>ADNetClient.cpp\<close>): the actions, the
  queue between the main thread and the worker and the steps of both threads. A call of the
  main thread puts an action into the queue and, if the action blocks, waits for the worker;
  asynchronous sends and timeouts return at once.

  The worker's steps are those between which the queue may change: reading its length, taking
  an action, performing it. The pauses and the log messages are left out.
\<close>

section \<open>Actions\<close>

datatype client_action =
    ActionConnect int int string
  | ActionDisconnect
  | ActionStopWorker
  | ActionWait nat
  | ActionBlockingSendReceive message
  | ActionAsyncSend message
  | ActionSetRecvTimeout int

text \<open>The derived classes of \<open>ClientActionBlocking\<close> belong to the caller, which waits for them.\<close>

fun do_delete :: "client_action \<Rightarrow> bool" where
  "do_delete (ActionConnect rank srank sname) = False"
| "do_delete ActionDisconnect = False"
| "do_delete ActionStopWorker = False"
| "do_delete (ActionWait ms) = True"
| "do_delete (ActionBlockingSendReceive m) = False"
| "do_delete (ActionAsyncSend m) = True"
| "do_delete (ActionSetRecvTimeout ms) = True"

definition blocking :: "client_action \<Rightarrow> bool" where
  "blocking a \<longleftrightarrow> \<not> do_delete a"

fun shutdown_worker :: "client_action \<Rightarrow> bool" where
  "shutdown_worker ActionStopWorker = True"
| "shutdown_worker _ = False"

text \<open>What a blocking action leaves for the thread that waits for it.\<close>

datatype action_result = ResultConnected bool | ResultReply string | ResultNone

fun perform ::
  "(string \<Rightarrow> message res) \<Rightarrow> 'c client_ops \<Rightarrow> client_action \<Rightarrow> 'c \<Rightarrow> ('c \<times> action_result) res" where
  "perform des ops (ActionConnect rank srank sname) c =
     bind (op_connect_ps ops rank srank sname c) (\<lambda>c'. Inr (c', ResultConnected (op_use_ps ops c')))"
| "perform des ops ActionDisconnect c = bind (op_disconnect_ps ops c) (\<lambda>c'. Inr (c', ResultNone))"
| "perform des ops ActionStopWorker c = Inr (c, ResultNone)"
| "perform des ops (ActionWait ms) c = Inr (c, ResultNone)"
| "perform des ops (ActionBlockingSendReceive m) c =
     bind (op_send_and_receive ops m c) (\<lambda>(s, c'). Inr (c', ResultReply s))"
| "perform des ops (ActionAsyncSend m) c =
     bind (send_and_receive_message des ops m c) (\<lambda>(r, c'). Inr (c', ResultNone))"
| "perform des ops (ActionSetRecvTimeout ms) c = Inr (op_setRecvTimeout ops ms c, ResultNone)"

section \<open>The two threads\<close>

text \<open>
  \<open>AtTop sd\<close>: the worker is about to read the length of the queue, with its flag \<open>shutdown\<close>;
  \<open>AtTake sd\<close>: about to take an action; \<open>AtPerform sd a\<close>: about to perform it. The main thread
  is at a blocking call (\<open>waits_for\<close>), or joins the worker, or is free. \<open>finished\<close> holds the
  result of the action it waits for, \<open>calls\<close> and \<open>results\<close> record its calls and what they
  returned, \<open>failed\<close> an exception that ended the worker, and with it the program.
\<close>

datatype worker_pc = AtTop bool | AtTake bool | AtPerform bool client_action | Stopped

record 'c thread_client =
  queue :: "client_action list"
  m_is_running :: bool
  worker :: worker_pc
  client :: 'c
  failed :: "cxx_error option"
  waits_for :: "client_action option"
  joins :: bool
  finished :: "action_result option"
  t_use_ps :: bool
  t_rank :: int
  t_srank :: int
  calls :: "client_action list"
  results :: "action_result list"

definition new_ADThreadNetClient :: "'c \<Rightarrow> 'c thread_client" where
  "new_ADThreadNetClient c = \<lparr> queue = [], m_is_running = True, worker = AtTop False, client = c, failed = None,
     waits_for = None, joins = False, finished = None, t_use_ps = False, t_rank = 0, t_srank = 0,
     calls = [], results = [] \<rparr>"

definition getNwork :: "'c thread_client \<Rightarrow> nat" where
  "getNwork S = length (queue S)"

definition enqueue_action :: "client_action \<Rightarrow> 'c thread_client \<Rightarrow> 'c thread_client res" where
  "enqueue_action a S =
     bind (guard (Fatal ''Cannot enqueue an action if the worker thread is not running!'') (m_is_running S)) (\<lambda>_.
       Inr (S \<lparr> queue := queue S @ [a] \<rparr>))"

text \<open>
  The calls of the main thread up to the point where they wait: \<open>connect_ps\<close>, \<open>disconnect_ps\<close>,
  \<open>send_and_receive\<close>, \<open>async_send\<close>, \<open>setRecvTimeout\<close> and \<open>stopWorkerThread\<close>, which does nothing
  if the worker is not running.
\<close>

fun before_call :: "client_action \<Rightarrow> 'c thread_client \<Rightarrow> 'c thread_client" where
  "before_call (ActionConnect rank srank sname) S = S \<lparr> t_rank := rank, t_srank := srank \<rparr>"
| "before_call _ S = S"

definition call :: "client_action \<Rightarrow> 'c thread_client \<Rightarrow> 'c thread_client res" where
  "call a S =
     (if a = ActionStopWorker \<and> \<not> m_is_running S then Inr S
      else bind (enqueue_action a (before_call a S)) (\<lambda>S'.
        Inr (S' \<lparr> calls := calls S' @ [a], waits_for := (if blocking a then Some a else None) \<rparr>)))"

text \<open>What the calls do when the action they wait for is complete.\<close>

fun after_call :: "client_action \<Rightarrow> action_result \<Rightarrow> 'c thread_client \<Rightarrow> 'c thread_client" where
  "after_call (ActionConnect rank srank sname) (ResultConnected b) S = S \<lparr> t_use_ps := b \<rparr>"
| "after_call ActionDisconnect r S = S \<lparr> t_use_ps := False \<rparr>"
| "after_call ActionStopWorker r S = S \<lparr> joins := True \<rparr>"
| "after_call _ r S = S"

definition return_call :: "client_action \<Rightarrow> action_result \<Rightarrow> 'c thread_client \<Rightarrow> 'c thread_client" where
  "return_call a r S = (after_call a r S) \<lparr> waits_for := None, finished := None, results := results S @ [r] \<rparr>"

text \<open>
  A step of the worker. At the top it ends when it is to shut down and the queue is empty, and
  deletes its client; an exception that leaves the destructor or an action ends the program.
\<close>

definition do_perform :: "(string \<Rightarrow> message res) \<Rightarrow> 'c client_ops \<Rightarrow> bool \<Rightarrow> client_action \<Rightarrow> 'c thread_client \<Rightarrow> 'c thread_client" where
  "do_perform des ops sd a S =
     (case perform des ops a (client S) of
        Inl e \<Rightarrow> S \<lparr> failed := Some e, worker := Stopped \<rparr>
      | Inr (c, r) \<Rightarrow> S \<lparr> client := c, finished := (if blocking a then Some r else finished S), worker := AtTop sd \<rparr>)"

definition stop_worker :: "'c client_ops \<Rightarrow> 'c thread_client \<Rightarrow> 'c thread_client" where
  "stop_worker ops S =
     (case op_delete ops (client S) of
        Inl e \<Rightarrow> S \<lparr> failed := Some e, worker := Stopped \<rparr>
      | Inr c \<Rightarrow> S \<lparr> client := c, worker := Stopped, m_is_running := False \<rparr>)"

fun worker_at :: "(string \<Rightarrow> message res) \<Rightarrow> 'c client_ops \<Rightarrow> worker_pc \<Rightarrow> 'c thread_client \<Rightarrow> 'c thread_client" where
  "worker_at des ops (AtTop sd) S =
     (if 0 < getNwork S then S \<lparr> worker := AtTake sd \<rparr>
      else if sd then stop_worker ops S
      else S)"
| "worker_at des ops (AtTake sd) S =
     (case queue S of
        [] \<Rightarrow> S \<lparr> failed := Some UndefinedBehaviour, worker := Stopped \<rparr>
      | a # q \<Rightarrow> S \<lparr> queue := q, worker := AtPerform (sd \<or> shutdown_worker a) a \<rparr>)"
| "worker_at des ops (AtPerform sd a) S = do_perform des ops sd a S"
| "worker_at des ops Stopped S = S"

definition worker_step :: "(string \<Rightarrow> message res) \<Rightarrow> 'c client_ops \<Rightarrow> 'c thread_client \<Rightarrow> 'c thread_client" where
  "worker_step des ops S = worker_at des ops (worker S) S"

text \<open>Any interleaving of a worker with a main thread that makes any calls.\<close>

inductive thread_reach ::
  "(string \<Rightarrow> message res) \<Rightarrow> 'c client_ops \<Rightarrow> 'c \<Rightarrow> 'c thread_client \<Rightarrow> bool" for des ops c0 where
  start: "thread_reach des ops c0 (new_ADThreadNetClient c0)"
| work: "thread_reach des ops c0 S \<Longrightarrow> failed S = None \<Longrightarrow> thread_reach des ops c0 (worker_step des ops S)"
| call: "thread_reach des ops c0 S \<Longrightarrow> failed S = None \<Longrightarrow> waits_for S = None \<Longrightarrow> \<not> joins S \<Longrightarrow> call a S = Inr S' \<Longrightarrow>
    thread_reach des ops c0 S'"
| return: "thread_reach des ops c0 S \<Longrightarrow> failed S = None \<Longrightarrow> waits_for S = Some a \<Longrightarrow> finished S = Some r \<Longrightarrow>
    thread_reach des ops c0 (return_call a r S)"
| join: "thread_reach des ops c0 S \<Longrightarrow> failed S = None \<Longrightarrow> joins S \<Longrightarrow> worker S = Stopped \<Longrightarrow>
    thread_reach des ops c0 (S \<lparr> joins := False \<rparr>)"

section \<open>The same calls without a thread\<close>

text \<open>The calls made one after the other on the client, with what the blocking ones return.\<close>

definition direct_call ::
  "(string \<Rightarrow> message res) \<Rightarrow> 'c client_ops \<Rightarrow> client_action \<Rightarrow> 'c \<times> action_result list \<Rightarrow> ('c \<times> action_result list) res" where
  "direct_call des ops a s =
     bind (perform des ops a (fst s)) (\<lambda>(c, r). Inr (c, if blocking a then snd s @ [r] else snd s))"

definition direct ::
  "(string \<Rightarrow> message res) \<Rightarrow> 'c client_ops \<Rightarrow> client_action list \<Rightarrow> 'c \<Rightarrow> ('c \<times> action_result list) res" where
  "direct des ops as c = foldE (direct_call des ops) as (c, [])"

end
