(* ===== verification/ThreadClientProps.thy ===== *)
theory ThreadClientProps
  imports ThreadClient
begin

text \<open>
  The client with a worker thread does what the same calls do on its client without a thread,
  a call that waits returns, and the main thread knows whether it is connected.
\<close>

section \<open>What is still to be done\<close>

fun at_work :: "worker_pc \<Rightarrow> client_action list" where
  "at_work (AtPerform sd a) = [a]"
| "at_work _ = []"

fun to_stop :: "worker_pc \<Rightarrow> bool" where
  "to_stop (AtTop sd) = sd"
| "to_stop (AtTake sd) = sd"
| "to_stop (AtPerform sd a) = sd"
| "to_stop Stopped = True"

definition pending :: "'c thread_client \<Rightarrow> client_action list" where
  "pending S = at_work (worker S) @ queue S"

definition all_results :: "'c thread_client \<Rightarrow> action_result list" where
  "all_results S = results S @ (case finished S of None \<Rightarrow> [] | Some r \<Rightarrow> [r])"

text \<open>
  The abstraction: performing what is pending on the worker's client is performing all calls.
\<close>

definition done_with_pending ::
  "(string \<Rightarrow> message res) \<Rightarrow> 'c client_ops \<Rightarrow> 'c thread_client \<Rightarrow> ('c \<times> action_result list) res" where
  "done_with_pending des ops S = foldE (direct_call des ops) (pending S) (client S, all_results S)"

definition stopped_ok ::
  "(string \<Rightarrow> message res) \<Rightarrow> 'c client_ops \<Rightarrow> 'c \<Rightarrow> 'c thread_client \<Rightarrow> bool" where
  "stopped_ok des ops c0 S \<longleftrightarrow> (\<exists>e. direct des ops (calls S) c0 = Inl e \<and> failed S = Some e)
     \<or> queue S = [] \<and> (failed S = None \<longrightarrow> \<not> m_is_running S) \<and> (\<exists>c. direct des ops (calls S) c0 = Inr (c, all_results S))"

definition waiting_ok :: "'c thread_client \<Rightarrow> bool" where
  "waiting_ok S \<longleftrightarrow> (case waits_for S of
       None \<Rightarrow> finished S = None \<and> (\<forall>a \<in> set (pending S). \<not> blocking a)
     | Some a \<Rightarrow> (case finished S of
           None \<Rightarrow> (\<exists>as. pending S = as @ [a] \<and> (\<forall>b \<in> set as. \<not> blocking b)) \<and> blocking a
         | Some r \<Rightarrow> pending S = []))"

definition thread_inv :: "(string \<Rightarrow> message res) \<Rightarrow> 'c client_ops \<Rightarrow> 'c \<Rightarrow> 'c thread_client \<Rightarrow> bool" where
  "thread_inv des ops c0 S \<longleftrightarrow>
     (if worker S = Stopped then stopped_ok des ops c0 S
      else failed S = None \<and> done_with_pending des ops S = direct des ops (calls S) c0)
     \<and> (failed S = None \<or> (\<exists>x. direct des ops (calls S) c0 = Inr x) \<longrightarrow> waiting_ok S)
     \<and> set (pending S) \<subseteq> set (calls S) \<and> (failed S = None \<longrightarrow> to_stop (worker S) \<longrightarrow> ActionStopWorker \<in> set (calls S))
     \<and> (failed S \<noteq> None \<longrightarrow> (\<exists>e. direct des ops (calls S) c0 = Inl e) \<or> ActionStopWorker \<in> set (calls S))
     \<and> (\<forall>sd. worker S = AtTake sd \<longrightarrow> queue S \<noteq> [])"
lemmas thread_defs = pending_def all_results_def done_with_pending_def stopped_ok_def waiting_ok_def

lemma foldE_single: "foldE f [a] = f a"
proof -
  have "foldE f [] = Inr" by (rule ext) simp
  then show ?thesis by (intro ext) simp
qed

lemma direct_append: "direct des ops (as @ [a]) c = bind (direct des ops as c) (direct_call des ops a)"
  by (simp add: direct_def foldE_append foldE_single)

lemma thread_inv_start: "thread_inv des ops c0 (new_ADThreadNetClient c0)"
  by (simp add: thread_inv_def thread_defs new_ADThreadNetClient_def direct_def)

lemma waiting_ok_cong:
  "pending T = pending S \<Longrightarrow> finished T = finished S \<Longrightarrow> waits_for T = waits_for S \<Longrightarrow> waiting_ok T = waiting_ok S"
  by (simp add: waiting_ok_def split: option.splits)

text \<open>Steps that leave what is pending as it is, while the worker runs.\<close>

lemma thread_inv_keep:
  assumes "thread_inv des ops c0 S" "worker S \<noteq> Stopped" "worker T \<noteq> Stopped"
    and "pending T = pending S" "client T = client S" "results T = results S" "finished T = finished S"
    and "waits_for T = waits_for S" "calls T = calls S" "failed T = failed S"
    and "to_stop (worker T) \<longrightarrow> to_stop (worker S) \<or> ActionStopWorker \<in> set (calls S)"
    and "\<forall>sd. worker T = AtTake sd \<longrightarrow> queue T \<noteq> []"
  shows "thread_inv des ops c0 T"
proof -
  have "waiting_ok T = waiting_ok S" using assms by (intro waiting_ok_cong)
  moreover have "done_with_pending des ops T = done_with_pending des ops S"
    using assms by (simp add: done_with_pending_def all_results_def)
  ultimately show ?thesis using assms by (simp add: thread_inv_def) blast
qed

lemma thread_inv_stop:
  assumes inv: "thread_inv des ops c0 S" and w: "worker S = AtTop True" "queue S = []"
  shows "thread_inv des ops c0 (stop_worker ops S)"
proof -
  let ?T = "stop_worker ops S"
  have p: "pending ?T = pending S" "calls ?T = calls S" "waits_for ?T = waits_for S" "finished ?T = finished S"
    "worker ?T = Stopped" "queue ?T = []" "results ?T = results S" "failed ?T = None \<longrightarrow> \<not> m_is_running ?T"
    using w inv by (auto simp: stop_worker_def pending_def thread_inv_def split: sum.splits)
  have "waiting_ok ?T = waiting_ok S" using p by (intro waiting_ok_cong)
  moreover have "all_results ?T = all_results S" using p by (simp add: all_results_def)
  moreover have "direct des ops (calls S) c0 = Inr (client S, all_results S)"
    using inv w by (simp add: thread_inv_def done_with_pending_def pending_def)
  ultimately show ?thesis
    using inv w p by (auto simp: thread_inv_def stopped_ok_def)
qed

lemma thread_inv_take:
  assumes "thread_inv des ops c0 S" "worker S = AtTake sd" "queue S = a # q"
  shows "thread_inv des ops c0 (S \<lparr> queue := q, worker := AtPerform (sd \<or> shutdown_worker a) a \<rparr>)"
proof -
  have "shutdown_worker a \<Longrightarrow> a = ActionStopWorker" by (cases a) simp_all
  moreover have "a \<in> set (calls S)" using assms by (auto simp: thread_inv_def pending_def)
  ultimately show ?thesis
    using assms(2,3) by (intro thread_inv_keep [OF assms(1)]) (auto simp: pending_def)
qed

lemma thread_inv_perform:
  assumes inv: "thread_inv des ops c0 S" and w: "worker S = AtPerform sd a"
  shows "thread_inv des ops c0 (do_perform des ops sd a S)"
proof (cases "perform des ops a (client S)")
  case (Inl e)
  then have "direct des ops (calls S) c0 = Inl e"
    using inv w by (simp add: thread_inv_def done_with_pending_def pending_def direct_call_def)
  then show ?thesis using Inl inv w by (auto simp: thread_inv_def thread_defs do_perform_def)
next
  case (Inr x)
  obtain c r where x: "x = (c, r)" by fastforce
  let ?T = "do_perform des ops sd a S"
  have T: "?T = S \<lparr> client := c, finished := (if blocking a then Some r else finished S), worker := AtTop sd \<rparr>"
    by (simp add: do_perform_def Inr x)
  have ok: "waiting_ok S" "failed S = None" using inv w by (simp_all add: thread_inv_def)
  have b: "finished S = None \<and> waits_for S = Some a \<and> queue S = []" if "blocking a"
    using ok(1) w that by (auto simp: waiting_ok_def pending_def Cons_eq_append_conv split: option.splits)
  have "done_with_pending des ops ?T = done_with_pending des ops S"
    using b by (simp add: T done_with_pending_def pending_def w all_results_def direct_call_def Inr x)
  moreover have "waiting_ok ?T"
    using ok(1) b w by (auto simp: T waiting_ok_def pending_def Cons_eq_append_conv split: option.splits)
  ultimately show ?thesis
    using inv w by (auto simp: thread_inv_def T pending_def)
qed

lemma thread_inv_work:
  assumes inv: "thread_inv des ops c0 S"
  shows "thread_inv des ops c0 (worker_step des ops S)"
proof (cases "worker S")
  case (AtTop sd)
  then show ?thesis
    using inv thread_inv_stop [OF inv]
    by (auto simp: worker_step_def getNwork_def pending_def intro!: thread_inv_keep [OF inv])
next
  case (AtTake sd)
  then obtain a q where "queue S = a # q" using inv by (cases "queue S") (auto simp: thread_inv_def)
  with AtTake thread_inv_take [OF inv AtTake] show ?thesis by (simp add: worker_step_def)
next
  case (AtPerform sd a)
  with thread_inv_perform [OF inv] show ?thesis by (simp add: worker_step_def)
next
  case Stopped
  with inv show ?thesis by (simp add: worker_step_def)
qed

lemma before_call_simps [simp]:
  "queue (before_call a S) = queue S" "m_is_running (before_call a S) = m_is_running S"
  "worker (before_call a S) = worker S" "client (before_call a S) = client S" "failed (before_call a S) = failed S"
  "finished (before_call a S) = finished S" "results (before_call a S) = results S" "calls (before_call a S) = calls S"
  "t_use_ps (before_call a S) = t_use_ps S"
  by (cases a; simp)+

lemma thread_inv_call:
  assumes inv: "thread_inv des ops c0 S" and S: "failed S = None" "waits_for S = None" and c: "call a S = Inr T"
  shows "thread_inv des ops c0 T"
proof (cases "m_is_running S")
  case False
  then show ?thesis using inv c by (simp add: call_def enqueue_action_def split: if_splits)
next
  case True
  then have T: "T = (before_call a S) \<lparr> queue := queue S @ [a], calls := calls S @ [a],
      waits_for := (if blocking a then Some a else None) \<rparr>"
    using c by (simp add: call_def enqueue_action_def)
  have w: "worker S \<noteq> Stopped" using True inv S(1) by (auto simp: thread_inv_def stopped_ok_def)
  have fin: "finished S = None" "\<forall>b \<in> set (pending S). \<not> blocking b"
    using inv S by (simp_all add: thread_inv_def waiting_ok_def)
  have "done_with_pending des ops T = bind (done_with_pending des ops S) (direct_call des ops a)"
    by (simp add: T done_with_pending_def pending_def all_results_def foldE_append foldE_single flip: append_assoc)
  then have "done_with_pending des ops T = direct des ops (calls T) c0"
    using inv w by (simp add: thread_inv_def T direct_append)
  moreover have "waiting_ok T"
    using fin by (auto simp: T waiting_ok_def pending_def)
  ultimately show ?thesis
    using inv w S(1) by (auto simp: thread_inv_def T pending_def)
qed

lemma after_call_simps [simp]:
  "queue (after_call a r S) = queue S" "m_is_running (after_call a r S) = m_is_running S"
  "worker (after_call a r S) = worker S" "client (after_call a r S) = client S" "failed (after_call a r S) = failed S"
  "results (after_call a r S) = results S" "calls (after_call a r S) = calls S"
  by (cases a; cases r; simp)+

lemma thread_inv_return:
  assumes "thread_inv des ops c0 S" "failed S = None" "waits_for S = Some a" "finished S = Some r"
  shows "thread_inv des ops c0 (return_call a r S)"
  using assms by (auto simp: thread_inv_def thread_defs return_call_def)

lemma thread_reach_inv: "thread_reach des ops c0 S \<Longrightarrow> thread_inv des ops c0 S"
proof (induction rule: thread_reach.induct)
  case (join S)
  then have "waiting_ok (S \<lparr> joins := False \<rparr>) = waiting_ok S" by (intro waiting_ok_cong) (simp_all add: pending_def)
  with join show ?case by (simp add: thread_inv_def stopped_ok_def all_results_def pending_def)
qed (blast intro: thread_inv_start thread_inv_work thread_inv_call thread_inv_return)+
section \<open>Results of the calls\<close>

lemma direct_quiet:
  assumes "foldE (direct_call des ops) as (c, rs) = Inr (c', rs')" "\<forall>a \<in> set as. \<not> blocking a"
  shows "rs' = rs"
  using assms by (induction as arbitrary: c rs) (auto simp: direct_call_def bind_simps)

lemma waiting_results:
  assumes inv: "thread_inv des ops c0 S" and d: "direct des ops (calls S) c0 = Inr (c, rs)"
  shows "waits_for S = None \<Longrightarrow> results S = rs"
    and "waits_for S = Some a \<Longrightarrow> \<exists>r. rs = results S @ [r] \<and> (finished S = None \<or> finished S = Some r)"
proof -
  have w: "waiting_ok S" using inv d by (auto simp: thread_inv_def)
  have st: "rs = all_results S \<and> pending S = []" if "worker S = Stopped"
    using inv d that by (auto simp: thread_inv_def stopped_ok_def pending_def)
  have run: "foldE (direct_call des ops) (pending S) (client S, all_results S) = Inr (c, rs)" if "worker S \<noteq> Stopped"
    using inv d that by (simp add: thread_inv_def done_with_pending_def)
  show "results S = rs" if "waits_for S = None"
    using w that st direct_quiet [OF run] by (cases "worker S = Stopped") (auto simp: waiting_ok_def all_results_def)
  show "\<exists>r. rs = results S @ [r] \<and> (finished S = None \<or> finished S = Some r)" if a: "waits_for S = Some a"
  proof (cases "finished S")
    case (Some r)
    then have "pending S = []" using w a by (simp add: waiting_ok_def)
    then show ?thesis using Some st run by (cases "worker S = Stopped") (auto simp: all_results_def)
  next
    case None
    then obtain as where as: "pending S = as @ [a]" "\<forall>b \<in> set as. \<not> blocking b" "blocking a"
      using w a by (auto simp: waiting_ok_def)
    then have "worker S \<noteq> Stopped" using st by auto
    then obtain c1 rs1 where r1: "foldE (direct_call des ops) as (client S, results S) = Inr (c1, rs1)"
      and r2: "direct_call des ops a (c1, rs1) = Inr (c, rs)"
      using run as(1) None by (auto simp: foldE_append foldE_single all_results_def bind_simps)
    show ?thesis
      using direct_quiet [OF r1 as(2)] r2 as(3) None by (auto simp: direct_call_def bind_simps)
  qed
qed

section \<open>A call that waits returns\<close>

definition work_left :: "'c thread_client \<Rightarrow> nat" where
  "work_left S = (case worker S of AtTop sd \<Rightarrow> 3 * length (queue S) | AtTake sd \<Rightarrow> 3 * length (queue S) - 1
     | AtPerform sd a \<Rightarrow> 3 * length (queue S) + 1 | Stopped \<Rightarrow> 0)"

lemma worker_step_keeps [simp]:
  "calls (worker_step des ops S) = calls S" "waits_for (worker_step des ops S) = waits_for S"
  by (cases "worker S"; auto simp: worker_step_def do_perform_def stop_worker_def split: list.splits sum.splits)+

lemma work_left_less:
  assumes "thread_inv des ops c0 S" "direct des ops (calls S) c0 = Inr x" "waits_for S = Some a" "finished S = None"
  shows "work_left (worker_step des ops S) < work_left S"
proof -
  have w: "waiting_ok S" using assms(1,2) by (auto simp: thread_inv_def)
  then have p: "pending S \<noteq> []" using assms(3,4) by (auto simp: waiting_ok_def)
  show ?thesis
  proof (cases "worker S")
    case (AtTop sd)
    with p show ?thesis by (cases "queue S") (simp_all add: worker_step_def work_left_def pending_def getNwork_def)
  next
    case (AtTake sd)
    with p show ?thesis by (cases "queue S") (simp_all add: worker_step_def work_left_def pending_def)
  next
    case (AtPerform sd b)
    then show ?thesis by (auto simp: worker_step_def work_left_def do_perform_def split: sum.splits)
  next
    case Stopped
    with assms(1,2) p show ?thesis by (auto simp: thread_inv_def stopped_ok_def pending_def)
  qed
qed

lemma waiting_finishes:
  assumes "thread_inv des ops c0 S" "direct des ops (calls S) c0 = Inr (c, rs)" "waits_for S = Some a"
  shows "\<exists>n \<le> work_left S. finished ((worker_step des ops ^^ n) S) = Some (last rs)"
  using assms
proof (induction "work_left S" arbitrary: S rule: less_induct)
  case less
  show ?case
  proof (cases "finished S")
    case None
    let ?T = "worker_step des ops S"
    have l: "work_left ?T < work_left S" using work_left_less [OF less.prems None] .
    have i: "thread_inv des ops c0 ?T" by (rule thread_inv_work [OF less.prems(1)])
    from less.hyps [OF l i] less.prems(2,3)
    obtain n where n: "n \<le> work_left ?T" "finished ((worker_step des ops ^^ n) ?T) = Some (last rs)" by auto
    then show ?thesis using l by (intro exI [of _ "Suc n"]) (simp add: funpow_swap1)
  next
    case (Some r)
    with waiting_results(2) [OF less.prems] have "finished S = Some (last rs)" by auto
    then show ?thesis by (intro exI [of _ 0]) simp
  qed
qed
section \<open>What the main thread knows\<close>

text \<open>
  How the flag of the main thread and that of the client agree, given the action the main
  thread waits for and its result.
\<close>

fun flags_agree :: "client_action option \<Rightarrow> action_result option \<Rightarrow> bool \<Rightarrow> bool \<Rightarrow> bool" where
  "flags_agree (Some (ActionConnect rank srank sname)) (Some r) main own \<longleftrightarrow> r = ResultConnected own"
| "flags_agree (Some ActionDisconnect) (Some r) main own \<longleftrightarrow> \<not> own"
| "flags_agree _ _ main own \<longleftrightarrow> main = own"

lemma flags_agree_unfinished [simp]: "flags_agree w None main own \<longleftrightarrow> main = own"
  proof (cases w)
  case (Some a)
  then show ?thesis by (cases a) simp_all
qed simp

context connected_client
begin

definition connection_known :: "'c thread_client \<Rightarrow> bool" where
  "connection_known S \<longleftrightarrow>
     worker S = Stopped \<or> flags_agree (waits_for S) (finished S) (t_use_ps S) (op_use_ps ops (client S))"

lemma perform_known:
  assumes "perform des ops a c = Inr (c', r)"
  shows "\<not> blocking a \<Longrightarrow> op_use_ps ops c' = op_use_ps ops c"
    and "a = ActionConnect rank srank sname \<Longrightarrow> r = ResultConnected (op_use_ps ops c')"
    and "a = ActionDisconnect \<Longrightarrow> \<not> op_use_ps ops c'"
    and "a = ActionStopWorker \<or> a = ActionBlockingSendReceive m \<Longrightarrow> op_use_ps ops c' = op_use_ps ops c"
  using assms by (cases a; auto simp: blocking_def bind_simps timeout_keeps dest: message_keeps exchange_keeps disconnect_off)+

lemma connection_known_work:
  assumes inv: "thread_inv des ops c0 S" and k: "connection_known S"
  shows "connection_known (worker_step des ops S)"
proof (cases "worker S")
  case (AtTop sd)
  then show ?thesis using k by (auto simp: connection_known_def worker_step_def stop_worker_def split: sum.splits)
next
  case (AtTake sd)
  then show ?thesis using k by (auto simp: connection_known_def worker_step_def split: list.splits)
next
  case (AtPerform sd a)
  have w: "waiting_ok S" using inv AtPerform by (auto simp: thread_inv_def)
  then have fin: "finished S = None" and b: "blocking a \<Longrightarrow> waits_for S = Some a"
    using AtPerform by (auto simp: waiting_ok_def pending_def Cons_eq_append_conv split: option.splits)
  show ?thesis
  proof (cases "perform des ops a (client S)")
    case (Inl e)
    then show ?thesis using AtPerform by (simp add: connection_known_def worker_step_def do_perform_def)
  next
    case (Inr x)
    obtain c r where x: "perform des ops a (client S) = Inr (c, r)" using Inr by (cases x) simp
    have t: "t_use_ps S = op_use_ps ops (client S)"
      using k fin AtPerform by (simp add: connection_known_def)
    show ?thesis
    proof (cases "blocking a")
      case True
      then show ?thesis
        using perform_known [OF x] b t AtPerform x
        by (cases a) (auto simp: connection_known_def worker_step_def do_perform_def blocking_def)
    next
      case False
      then show ?thesis
        using perform_known(1) [OF x] fin t AtPerform x
        by (simp add: connection_known_def worker_step_def do_perform_def)
    qed
  qed
next
  case Stopped
  then show ?thesis by (simp add: connection_known_def worker_step_def)
qed

lemma connection_known_return:
  "connection_known S \<Longrightarrow> waits_for S = Some a \<Longrightarrow> finished S = Some r \<Longrightarrow> connection_known (return_call a r S)"
  by (cases a; cases r) (auto simp: connection_known_def return_call_def)

lemma connection_known_call:
  assumes "connection_known S" "thread_inv des ops c0 S" "failed S = None" "waits_for S = None" "call a S = Inr T"
  shows "connection_known T"
proof -
  have "finished S = None" using assms(2-4) by (auto simp: thread_inv_def waiting_ok_def)
  then show ?thesis
    using assms(1,4,5)
    by (auto simp: connection_known_def call_def enqueue_action_def bind_simps split: if_splits)
qed

text \<open>While the worker runs, a free main thread knows whether its client is connected.\<close>

lemma main_thread_knows:
  assumes "thread_reach des ops c0 S" "\<not> op_use_ps ops c0"
  shows "connection_known S"
  using assms
proof (induction rule: thread_reach.induct)
  case start
  then show ?case by (simp add: connection_known_def new_ADThreadNetClient_def)
next
  case (work S)
  then show ?case by (blast intro: connection_known_work thread_reach_inv)
next
  case (call S a T)
  then show ?case by (blast intro: connection_known_call thread_reach_inv)
next
  case (return S a r)
  then show ?case by (blast intro: connection_known_return)
next
  case (join S)
  then show ?case by (simp add: connection_known_def)
qed

end

section \<open>Results\<close>

text \<open>
  C25. However the main thread and the worker interleave, the client with a thread gives what
  the same calls give one after the other on the client itself: every call that waits has the
  same result, the client ends in the same state, and the worker fails only in the destructor
  of its client.
\<close>

theorem thread_client_refines_direct:
  assumes "thread_reach des ops c0 S" "direct des ops (calls S) c0 = Inr (c, rs)"
  shows "results S = (if waits_for S = None then rs else butlast rs)
    \<and> (worker S \<noteq> Stopped \<longrightarrow> pending S = [] \<longrightarrow> client S = c)
    \<and> (failed S \<noteq> None \<longrightarrow> ActionStopWorker \<in> set (calls S))"
proof -
  have inv: "thread_inv des ops c0 S" by (rule thread_reach_inv [OF assms(1)])
  have "results S = (if waits_for S = None then rs else butlast rs)"
    using waiting_results [OF inv assms(2)] by (cases "waits_for S") auto
  moreover have "client S = c" if "worker S \<noteq> Stopped" "pending S = []"
    using inv assms(2) that by (simp add: thread_inv_def done_with_pending_def)
  moreover have "failed S \<noteq> None \<longrightarrow> ActionStopWorker \<in> set (calls S)"
    using inv assms(2) by (auto simp: thread_inv_def)
  ultimately show ?thesis by blast
qed

text \<open>
  C26. A call that waits returns: after at most one step more than three for every action in
  the queue the worker has the result that the calls have without a thread.
\<close>

theorem waiting_call_returns:
  assumes "thread_reach des ops c0 S" "direct des ops (calls S) c0 = Inr (c, rs)" "waits_for S = Some a"
  shows "\<exists>n \<le> 3 * length (queue S) + 1. finished ((worker_step des ops ^^ n) S) = Some (last rs)"
proof -
  obtain n where "n \<le> work_left S" "finished ((worker_step des ops ^^ n) S) = Some (last rs)"
    using waiting_finishes [OF thread_reach_inv [OF assms(1)] assms(2,3)] by auto
  moreover have "work_left S \<le> 3 * length (queue S) + 1"
    by (cases "worker S") (simp_all add: work_left_def)
  ultimately show ?thesis by (intro exI [of _ n]) simp
qed

section \<open>A run\<close>

text \<open>
  The client in the process of a server that answers a ping: it connects, pings without
  waiting, and asks again and waits.
\<close>

definition ping :: message where
  "ping = setContent ''ping'' (set_info 0 0 (mtype_code REQ_ECHO) (kind_code CMD) 0 0 new_Message)"

abbreviation ping_ops :: "(unit local_net \<times> unit) net_client client_ops" where
  "ping_ops \<equiv> ADLocalNetClient write_message read_message"

definition ping_client :: "(unit local_net \<times> unit) net_client" where
  "ping_client = new_ADNetClient (Some (add_payload NetPayloadPing 0 []), ())"

definition pong :: message where
  "pong = (case createReply ping of Inr r \<Rightarrow> setContent ''pong'' r)"

abbreviation connected_ping_client :: "(unit local_net \<times> unit) net_client" where
  "connected_ping_client \<equiv> ping_client \<lparr> m_use_ps := True \<rparr>"

lemma read_written [simp]: "read_message (write_message m) = Inr m"
  using read_write_message by (simp add: serialises_def)

lemma ping_connect:
  "op_connect_ps ping_ops 0 0 '''' ping_client = Inr connected_ping_client" "op_use_ps ping_ops connected_ping_client"
  by (simp_all add: ADLocalNetClient_def local_connect_ps_def ping_client_def new_ADNetClient_def)

lemma ping_answer: "op_send_and_receive ping_ops ping connected_ping_client = Inr (write_message pong, connected_ping_client)"
proof -
  have "find_and_perform_action 0 (add_payload NetPayloadPing 0 []) ping () = Inr (pong, ())"
    unfolding find_and_perform_iff
    by (simp add: NetPayloadPing_def ping_def pong_def check_def createReply_def fits_int_def setContent_def set_info_def new_Message_def new_Header_def)
  then show ?thesis
    by (simp add: ADLocalNetClient_def local_send_and_receive_def LocalNet_send_and_receive_def ping_client_def new_ADNetClient_def)
qed

lemma ping_direct:
  "direct read_message ping_ops [ActionConnect 0 0 '''', ActionAsyncSend ping, ActionBlockingSendReceive ping] ping_client =
     Inr (connected_ping_client, [ResultConnected True, ResultReply (write_message pong)])"
  by (simp add: direct_def direct_call_def ping_connect ping_answer send_and_receive_message_def blocking_def)

lemma ping_waits:
  "\<exists>S. thread_reach read_message ping_ops ping_client S \<and> waits_for S = Some (ActionBlockingSendReceive ping)
     \<and> calls S = [ActionConnect 0 0 '''', ActionAsyncSend ping, ActionBlockingSendReceive ping]
     \<and> queue S = [ActionAsyncSend ping, ActionBlockingSendReceive ping]"
proof -
  define S1 where "S1 = (new_ADThreadNetClient ping_client) \<lparr> queue := [ActionConnect 0 0 ''''],
    calls := [ActionConnect 0 0 ''''], waits_for := Some (ActionConnect 0 0 '''') \<rparr>"
  have 1: "thread_reach read_message ping_ops ping_client S1"
    by (rule thread_reach.call [OF thread_reach.start, where a = "ActionConnect 0 0 ''''"])
      (simp_all add: call_def enqueue_action_def new_ADThreadNetClient_def blocking_def S1_def)
  let ?w = "worker_step read_message ping_ops"
  have f: "failed S1 = None" "failed (?w S1) = None" "failed (?w (?w S1)) = None"
    by (simp_all add: S1_def new_ADThreadNetClient_def worker_step_def getNwork_def)
  have 2: "thread_reach read_message ping_ops ping_client (?w (?w (?w S1)))"
    by (rule thread_reach.work [OF thread_reach.work [OF thread_reach.work [OF 1 f(1)] f(2)] f(3)])
  have 3: "?w (?w (?w S1)) = S1 \<lparr> queue := [], client := connected_ping_client, finished := Some (ResultConnected True) \<rparr>"
    by (simp add: S1_def new_ADThreadNetClient_def worker_step_def getNwork_def do_perform_def ping_connect blocking_def)
  define S2 where "S2 = return_call (ActionConnect 0 0 '''') (ResultConnected True) (?w (?w (?w S1)))"
  have 4: "thread_reach read_message ping_ops ping_client S2" unfolding S2_def
    by (rule thread_reach.return [OF 2]) (simp_all add: 3, simp_all add: S1_def new_ADThreadNetClient_def)
  have s2: "failed S2 = None" "waits_for S2 = None" "\<not> joins S2" "m_is_running S2" "queue S2 = []" "calls S2 = [ActionConnect 0 0 '''']"
    by (simp_all add: S2_def 3 return_call_def) (simp_all add: S1_def new_ADThreadNetClient_def)
  define S3 where "S3 = S2 \<lparr> queue := [ActionAsyncSend ping], calls := calls S2 @ [ActionAsyncSend ping], waits_for := None \<rparr>"
  have 5: "thread_reach read_message ping_ops ping_client S3"
    by (rule thread_reach.call [OF 4 s2(1-3), where a = "ActionAsyncSend ping"]) (simp add: call_def enqueue_action_def s2 blocking_def S3_def)
  define S4 where "S4 = S3 \<lparr> queue := queue S3 @ [ActionBlockingSendReceive ping],
    calls := calls S3 @ [ActionBlockingSendReceive ping], waits_for := Some (ActionBlockingSendReceive ping) \<rparr>"
  have "thread_reach read_message ping_ops ping_client S4"
    by (rule thread_reach.call [OF 5, where a = "ActionBlockingSendReceive ping"])
      (simp_all add: call_def enqueue_action_def blocking_def S4_def, simp_all add: S3_def s2)
  then show ?thesis by (intro exI [of _ S4]) (simp add: S4_def S3_def s2)
qed

theorem thread_client_refines_direct_witness:
  "\<exists>S. thread_reach read_message ping_ops ping_client S
     \<and> calls S = [ActionConnect 0 0 '''', ActionAsyncSend ping, ActionBlockingSendReceive ping]
     \<and> results S = [ResultConnected True] \<and> failed S = None"
proof -
  obtain S where S: "thread_reach read_message ping_ops ping_client S" "waits_for S = Some (ActionBlockingSendReceive ping)"
    "calls S = [ActionConnect 0 0 '''', ActionAsyncSend ping, ActionBlockingSendReceive ping]"
    using ping_waits by blast
  with thread_client_refines_direct [OF S(1)] ping_direct show ?thesis by (auto intro!: exI [of _ S])
qed

theorem waiting_call_returns_witness:
  "\<exists>S n. thread_reach read_message ping_ops ping_client S \<and> n \<le> 7
     \<and> finished ((worker_step read_message ping_ops ^^ n) S) = Some (ResultReply (write_message pong))"
proof -
  obtain S where S: "thread_reach read_message ping_ops ping_client S" "waits_for S = Some (ActionBlockingSendReceive ping)"
    "calls S = [ActionConnect 0 0 '''', ActionAsyncSend ping, ActionBlockingSendReceive ping]"
    "queue S = [ActionAsyncSend ping, ActionBlockingSendReceive ping]"
    using ping_waits by blast
  with waiting_call_returns [OF S(1)] ping_direct show ?thesis by (fastforce intro!: exI [of _ S])
qed

end
